(* ===== verification/Go_Base.thy ===== *)
theory Go_Base
  imports Main "HOL-Library.Signed_Division" "HOL-Library.Multiset"
    "HOL-Library.List_Lexorder" "HOL-Library.Char_ord"
begin

text \<open>
  The prelude: what the Go language and its standard library give the modelled packages.

  \<^item> \<open>int64\<close> is an \<open>int\<close> together with explicit wrap-around: every addition, subtraction,
    product and negation of the source is \<open>add64\<close>, \<open>sub64\<close>, \<open>mul64\<close>, \<open>neg64\<close>; \<open>/\<close> and \<open>%\<close>
    truncate towards zero and are \<open>quo64\<close> and \<open>rem64\<close>. A value is an \<open>int64\<close> when \<open>in64\<close> holds.
  \<^item> \<open>bits.Mul64\<close> and \<open>bits.Div64\<close> of \<open>math/bits\<close> are \<open>Mul64\<close> and \<open>Div64\<close>.
  \<^item> \<open>time.Time\<close> is a number of nanoseconds since Go's zero time; \<open>time.Duration\<close> is an \<open>int64\<close>.
  \<^item> \<open>sort.Slice\<close>, \<open>sort.SliceStable\<close> and \<open>slices.SortFunc\<close> are \<open>sort_by\<close>, a stable sort by a
    strict order; \<open>sort_by_unique\<close> says when no other sorted arrangement exists, so that the
    unstable sorts of the library give the same list.
  \<^item> A Go string is a list of bytes, compared lexicographically (\<open>List_Lexorder\<close>, \<open>Char_ord\<close>).

  Two interfaces several packages share are locales here: \<open>strict_weak_order\<close> (a comparison a
  sort can use) and \<open>floor_mul_div\<close> (an exact product-quotient in 128 bits), and \<open>ceil_fee\<close>
  (a fee in basis points, rounded up). The packages interpret them on their own functions.
\<close>

section \<open>Collections of rules\<close>

named_theorems in64_rules "facts that keep a value in the range of int64"
named_theorems go_eval "definitions that evaluate a closed Go expression"

section \<open>int64\<close>

abbreviation MaxInt64 :: int where "MaxInt64 \<equiv> 9223372036854775807"
abbreviation MinInt64 :: int where "MinInt64 \<equiv> - 9223372036854775808"
abbreviation MaxInt32 :: int where "MaxInt32 \<equiv> 2147483647"

definition in64 :: "int \<Rightarrow> bool" where
  "in64 x \<longleftrightarrow> MinInt64 \<le> x \<and> x \<le> MaxInt64"

definition wrap64 :: "int \<Rightarrow> int" where
  "wrap64 x = (x + 9223372036854775808) mod 18446744073709551616 - 9223372036854775808"

definition add64 :: "int \<Rightarrow> int \<Rightarrow> int" where "add64 a b = wrap64 (a + b)"
definition sub64 :: "int \<Rightarrow> int \<Rightarrow> int" where "sub64 a b = wrap64 (a - b)"
definition mul64 :: "int \<Rightarrow> int \<Rightarrow> int" where "mul64 a b = wrap64 (a * b)"
definition neg64 :: "int \<Rightarrow> int" where "neg64 a = wrap64 (- a)"

text \<open>Division truncates towards zero. A zero divisor panics in Go: every call site below has a
  constant divisor, guards it, or says what happens.\<close>

definition quo64 :: "int \<Rightarrow> int \<Rightarrow> int" where "quo64 a b = wrap64 (a sdiv b)"
definition rem64 :: "int \<Rightarrow> int \<Rightarrow> int" where "rem64 a b = a smod b"

lemmas go_ops = add64_def sub64_def mul64_def neg64_def quo64_def rem64_def

lemma wrap64_in64 [simp, intro]: "in64 (wrap64 x)"
proof -
  have "0 \<le> (x + 9223372036854775808) mod 18446744073709551616"
    and "(x + 9223372036854775808) mod 18446744073709551616 < 18446744073709551616"
    by simp_all
  then show ?thesis unfolding in64_def wrap64_def by linarith
qed

lemma wrap64_id: "in64 x \<Longrightarrow> wrap64 x = x"
  by (simp add: in64_def wrap64_def)

lemma wrap64_id': "MinInt64 \<le> x \<Longrightarrow> x \<le> MaxInt64 \<Longrightarrow> wrap64 x = x"
  by (simp add: wrap64_def)

lemma wrap64_nonneg: "0 \<le> x \<Longrightarrow> x \<le> MaxInt64 \<Longrightarrow> wrap64 x = x"
  by (simp add: wrap64_def)

lemma in64_ops [simp, intro, in64_rules]:
  "in64 (add64 a b)" "in64 (sub64 a b)" "in64 (mul64 a b)" "in64 (neg64 a)" "in64 (quo64 a b)"
  by (simp_all add: go_ops)

lemma sdiv_nonneg: "0 \<le> a \<Longrightarrow> 0 < b \<Longrightarrow> (a::int) sdiv b = a div b"
  by (cases "a = 0") (simp_all add: signed_divide_int_def sgn_if)

lemma smod_nonneg: "0 \<le> a \<Longrightarrow> 0 < b \<Longrightarrow> (a::int) smod b = a mod b"
  by (cases "a = 0") (simp_all add: signed_modulo_int_def)

lemma div_le_self: "0 \<le> (a::int) \<Longrightarrow> 0 < b \<Longrightarrow> a div b \<le> a"
  by (metis div_by_1 int_one_le_iff_zero_less zdiv_mono2 zero_less_one)

lemma add64_exact: "in64 (a + b) \<Longrightarrow> add64 a b = a + b"
  by (simp add: add64_def wrap64_id)

lemma sub64_exact: "in64 (a - b) \<Longrightarrow> sub64 a b = a - b"
  by (simp add: sub64_def wrap64_id)

lemma mul64_exact: "in64 (a * b) \<Longrightarrow> mul64 a b = a * b"
  by (simp add: mul64_def wrap64_id)

lemma quo64_nonneg: "0 \<le> a \<Longrightarrow> a \<le> MaxInt64 \<Longrightarrow> 0 < b \<Longrightarrow> quo64 a b = a div b"
proof -
  assume a: "0 \<le> a" "a \<le> MaxInt64" and b: "0 < b"
  have "0 \<le> a div b" "a div b \<le> MaxInt64"
    using a b div_le_self [of a b] by (simp_all add: pos_imp_zdiv_nonneg_iff)
  with a b show ?thesis by (simp add: quo64_def sdiv_nonneg wrap64_nonneg)
qed

lemma rem64_nonneg: "0 \<le> a \<Longrightarrow> 0 < b \<Longrightarrow> rem64 a b = a mod b"
  by (simp add: rem64_def smod_nonneg)

lemma in64_max [simp, intro]: "in64 a \<Longrightarrow> in64 b \<Longrightarrow> in64 (max a b)"
  by (simp add: max_def)

lemma in64_min [simp, intro]: "in64 a \<Longrightarrow> in64 b \<Longrightarrow> in64 (min a b)"
  by (simp add: min_def)

lemma in64_nonneg: "0 \<le> x \<Longrightarrow> x \<le> MaxInt64 \<Longrightarrow> in64 x"
  by (simp add: in64_def)

lemma mult_le_whole: "0 \<le> (q::int) \<Longrightarrow> 0 \<le> b \<Longrightarrow> b \<le> c \<Longrightarrow> q * b \<le> q * c"
  by (rule mult_left_mono)

text \<open>A running sum of non-negative terms that fits in the end never wraps on the way.\<close>

lemma foldl_add64:
  assumes "0 \<le> t" "\<forall>x\<in>set xs. 0 \<le> f x" "t + (\<Sum>x\<leftarrow>xs. f x) \<le> MaxInt64"
  shows "foldl (\<lambda>t x. add64 t (f x)) t xs = t + (\<Sum>x\<leftarrow>xs. f x)"
  using assms
proof (induction xs arbitrary: t)
  case Nil
  then show ?case by simp
next
  case (Cons x xs)
  have "0 \<le> (\<Sum>x\<leftarrow>xs. f x)" by (rule sum_list_nonneg) (use Cons.prems(2) in auto)
  then have "add64 t (f x) = t + f x" using Cons.prems by (simp add: add64_def wrap64_nonneg)
  then show ?case using Cons by (simp add: algebra_simps)
qed

section \<open>Floor and ceiling of a quotient\<close>

lemma le_div_iff_int: "0 < c \<Longrightarrow> (k::int) \<le> a div c \<longleftrightarrow> k * c \<le> a"
proof
  assume c: "0 < c" and "k \<le> a div c"
  then have "k * c \<le> (a div c) * c" by (simp add: mult_right_mono)
  also have "\<dots> \<le> a" using c pos_mod_sign [of c a] by (simp add: minus_mod_eq_div_mult [symmetric])
  finally show "k * c \<le> a" .
next
  assume c: "0 < c" and "k * c \<le> a"
  then have "(k * c) div c \<le> a div c" by (intro zdiv_mono1) simp_all
  with c show "k \<le> a div c" by simp
qed

lemma div_less_iff_int: "0 < c \<Longrightarrow> a div c < (k::int) \<longleftrightarrow> a < k * c"
  using le_div_iff_int [of c k a] by linarith

lemma div_le_iff_int: "0 < c \<Longrightarrow> a div c \<le> (k::int) \<longleftrightarrow> a < (k + 1) * c"
  using div_less_iff_int [of c a "k + 1"] by linarith

lemma div_mult_le_int: "0 < c \<Longrightarrow> a div c * c \<le> (a::int)"
  using le_div_iff_int [of c "a div c" a] by simp

lemma div_mult_less_int: "0 < c \<Longrightarrow> (a::int) < (a div c + 1) * c"
  using div_less_iff_int [of c a "a div c + 1"] by simp

definition ceil_div :: "int \<Rightarrow> int \<Rightarrow> int" where
  "ceil_div a c = (a + c - 1) div c"

lemma ceil_div_le_iff: "0 < c \<Longrightarrow> ceil_div a c \<le> k \<longleftrightarrow> a \<le> k * c"
  by (simp add: ceil_div_def div_le_iff_int algebra_simps) linarith

lemma less_ceil_div_iff: "0 < c \<Longrightarrow> k < ceil_div a c \<longleftrightarrow> k * c < a"
  using ceil_div_le_iff [of c a k] by linarith

lemma ceil_div_mult_ge: "0 < c \<Longrightarrow> a \<le> ceil_div a c * c"
  using ceil_div_le_iff [of c a "ceil_div a c"] by simp

lemma ceil_div_nonneg: "0 < c \<Longrightarrow> 0 \<le> a \<Longrightarrow> 0 \<le> ceil_div a c"
  by (simp add: ceil_div_def pos_imp_zdiv_nonneg_iff)

lemma ceil_div_mono: "0 < c \<Longrightarrow> a \<le> b \<Longrightarrow> ceil_div a c \<le> ceil_div b c"
  by (simp add: ceil_div_def zdiv_mono1)

lemma ceil_div_add_le: "0 < c \<Longrightarrow> ceil_div (a + b) c \<le> ceil_div a c + ceil_div b c"
  using ceil_div_mult_ge [of c a] ceil_div_mult_ge [of c b]
  by (simp add: ceil_div_le_iff distrib_right)

lemma ceil_div_shift: "0 < c \<Longrightarrow> ceil_div (q * c + a) c = q + ceil_div a c"
proof -
  assume c: "0 < c"
  have "q * c + a + c - 1 = (a + c - 1) + q * c" by simp
  then have "(q * c + a + c - 1) div c = ((a + c - 1) + q * c) div c" by (rule arg_cong)
  with c show ?thesis by (simp add: ceil_div_def)
qed

lemma ceil_div_eq_floor: "0 < c \<Longrightarrow> ceil_div a c = a div c + (if a mod c = 0 then 0 else 1)"
proof -
  assume c: "0 < c"
  have *: "ceil_div a c = a div c + ceil_div (a mod c) c"
    using ceil_div_shift [OF c, of "a div c" "a mod c"] by (simp add: div_mult_mod_eq)
  have "ceil_div (a mod c) c = (if a mod c = 0 then 0 else 1)"
  proof (cases "a mod c = 0")
    case True
    with c show ?thesis by (simp add: ceil_div_def)
  next
    case False
    with c have m: "0 < a mod c" "a mod c < c"
      using pos_mod_sign [of c a] pos_mod_bound [of c a] by linarith+
    have "ceil_div (a mod c) c \<le> 1" using c m by (simp add: ceil_div_le_iff)
    moreover have "0 < ceil_div (a mod c) c" using c m by (simp add: less_ceil_div_iff)
    ultimately show ?thesis using False by simp
  qed
  with * show ?thesis by simp
qed

section \<open>128-bit products: math/bits\<close>

definition Mul64 :: "int \<Rightarrow> int \<Rightarrow> int \<times> int" where
  "Mul64 a b = ((a * b) div 18446744073709551616, (a * b) mod 18446744073709551616)"

text \<open>\<open>bits.Div64\<close> panics unless \<open>hi < y\<close>; its callers check that first.\<close>

definition Div64 :: "int \<Rightarrow> int \<Rightarrow> int \<Rightarrow> int \<times> int" where
  "Div64 hi lo y = ((hi * 18446744073709551616 + lo) div y, (hi * 18446744073709551616 + lo) mod y)"

lemma Div64_Mul64: "(case Mul64 a b of (hi, lo) \<Rightarrow> Div64 hi lo c) = ((a * b) div c, (a * b) mod c)"
  by (simp add: Mul64_def Div64_def div_mult_mod_eq)

lemma Mul64_overflow_iff:
  assumes "0 < c"
  shows "c \<le> fst (Mul64 a b) \<longleftrightarrow> 18446744073709551616 \<le> (a * b) div c"
  using assms by (simp add: Mul64_def le_div_iff_int mult.commute)

text \<open>
  Several packages compute \<open>floor (a * b / c)\<close> through these two functions and refuse what does
  not fit. The interface: such a function returns the exact floor, or refuses exactly when an
  operand is negative, the divisor is not positive, or the quotient is not an \<open>int64\<close>.
\<close>

locale floor_mul_div =
  fixes md :: "int \<Rightarrow> int \<Rightarrow> int \<Rightarrow> int option"
  assumes md_spec: "md a b c =
    (if a < 0 \<or> b < 0 \<or> c \<le> 0 \<or> MaxInt64 < (a * b) div c then None else Some ((a * b) div c))"
begin

lemma md_Some_iff:
  "md a b c = Some q \<longleftrightarrow> 0 \<le> a \<and> 0 \<le> b \<and> 0 < c \<and> q = (a * b) div c \<and> q \<le> MaxInt64"
  by (auto simp: md_spec)

lemma md_SomeI:
  "0 \<le> a \<Longrightarrow> 0 \<le> b \<Longrightarrow> 0 < c \<Longrightarrow> (a * b) div c \<le> MaxInt64 \<Longrightarrow> md a b c = Some ((a * b) div c)"
  by (simp add: md_spec)

lemma md_nonneg: "md a b c = Some q \<Longrightarrow> 0 \<le> q"
  by (auto simp: md_Some_iff pos_imp_zdiv_nonneg_iff)

lemma md_in64: "md a b c = Some q \<Longrightarrow> in64 q"
  using md_nonneg [of a b c q] by (auto simp: md_Some_iff in64_def)

lemma md_floor: "md a b c = Some q \<Longrightarrow> q * c \<le> a * b \<and> a * b < (q + 1) * c"
  using div_mult_le_int [of c "a * b"] div_mult_less_int [of c "a * b"] by (auto simp: md_Some_iff)

lemma md_share_total:
  assumes "0 \<le> a" "a \<le> MaxInt64" "0 \<le> b" "b \<le> c" "0 < c"
  shows "md a b c = Some ((a * b) div c)" and "(a * b) div c \<le> a"
proof -
  have "a * b \<le> a * c" using assms by (simp add: mult_left_mono)
  then have "a * b < (a + 1) * c" using assms by (simp add: distrib_right)
  then show le: "(a * b) div c \<le> a" using assms by (simp add: div_le_iff_int)
  from le assms show "md a b c = Some ((a * b) div c)" by (intro md_SomeI) simp_all
qed

lemma md_mono: "md a b c = Some q \<Longrightarrow> md a' b c = Some q' \<Longrightarrow> a \<le> a' \<Longrightarrow> q \<le> q'"
  by (auto simp: md_Some_iff intro!: zdiv_mono1 mult_right_mono)

end

text \<open>The body those packages share, and its closed form.\<close>

lemma mul_div_128:
  assumes "0 < c"
  shows "(case Mul64 a b of (hi, lo) \<Rightarrow> if hi \<ge> c then x
      else case Div64 hi lo c of (qq, rr) \<Rightarrow> if qq > MaxInt64 then x else f qq rr) =
    (if MaxInt64 < (a * b) div c then x else f ((a * b) div c) ((a * b) mod c))"
proof -
  obtain hi lo where h: "Mul64 a b = (hi, lo)" by (cases "Mul64 a b")
  have d: "Div64 hi lo c = ((a * b) div c, (a * b) mod c)" using h Div64_Mul64 by (metis case_prod_conv)
  have "hi \<ge> c \<longleftrightarrow> 18446744073709551616 \<le> (a * b) div c" using Mul64_overflow_iff [OF assms, of a b] h by simp
  with h d show ?thesis by auto
qed

lemma wrap64_le: "0 \<le> x \<Longrightarrow> wrap64 x \<le> x"
proof -
  assume "0 \<le> x"
  then have "(x + 9223372036854775808) mod 18446744073709551616 \<le> x + 9223372036854775808"
    by (intro zmod_le_nonneg_dividend) simp
  then show ?thesis by (simp add: wrap64_def)
qed

section \<open>Fees in basis points, rounded up\<close>

text \<open>
  The bank, the market and the auction house each charge \<open>bps\<close> basis points of an amount, rounded
  up to a whole unit, without an intermediate that could overflow. The interface is the exact value;
  what a client needs follows once: the fee never exceeds the amount, no non-zero charge rounds
  away, and splitting an amount never lowers the fee.
\<close>

locale ceil_fee =
  fixes fee :: "int \<Rightarrow> int \<Rightarrow> int"
  assumes fee_exact: "0 \<le> n \<Longrightarrow> n \<le> MaxInt64 \<Longrightarrow> 0 \<le> b \<Longrightarrow> b \<le> 10000 \<Longrightarrow> fee n b = ceil_div (n * b) 10000"
begin

lemma fee_bounds:
  assumes "0 \<le> n" "n \<le> MaxInt64" "0 \<le> b" "b \<le> 10000"
  shows "0 \<le> fee n b" and "fee n b \<le> n"
  using assms by (simp_all add: fee_exact ceil_div_nonneg ceil_div_le_iff mult_left_mono)

lemma fee_zero_iff:
  assumes "0 \<le> n" "n \<le> MaxInt64" "0 \<le> b" "b \<le> 10000"
  shows "fee n b = 0 \<longleftrightarrow> n = 0 \<or> b = 0"
proof -
  have "fee n b \<le> 0 \<longleftrightarrow> n * b \<le> 0"
    using assms by (simp add: fee_exact ceil_div_le_iff)
  moreover have "0 \<le> n * b" using assms by simp
  ultimately show ?thesis using fee_bounds [OF assms] by auto
qed

lemma fee_split:
  assumes "0 \<le> m" "0 \<le> n" "m + n \<le> MaxInt64" "0 \<le> b" "b \<le> 10000"
  shows "fee (m + n) b \<le> fee m b + fee n b"
  using assms ceil_div_add_le [of 10000 "m * b" "n * b"] by (simp add: fee_exact distrib_right)

lemma fee_mono:
  assumes "0 \<le> m" "m \<le> n" "n \<le> MaxInt64" "0 \<le> b" "b \<le> 10000"
  shows "fee m b \<le> fee n b"
  using assms by (simp add: fee_exact ceil_div_mono mult_right_mono)

end

text \<open>The split \<open>n = q * 10000 + r\<close> all three use, and why none of its steps wraps.\<close>

lemma bps_split_exact:
  assumes n: "0 \<le> n" "n \<le> MaxInt64" and b: "0 \<le> b" "b \<le> 10000"
  shows "add64 (mul64 (quo64 n 10000) b) (quo64 (sub64 (add64 (mul64 (rem64 n 10000) b) 10000) 1) 10000)
    = ceil_div (n * b) 10000"
proof -
  define q r where "q = n div 10000" and "r = n mod 10000"
  have qr: "n = q * 10000 + r" "0 \<le> q" "0 \<le> r" "r < 10000"
    using n by (simp_all add: q_def r_def pos_imp_zdiv_nonneg_iff)
  have qb: "0 \<le> q * b" "q * b \<le> q * 10000" using qr b by (simp_all add: mult_left_mono)
  have rb: "0 \<le> r * b" "r * b \<le> 10000 * 10000"
    using qr b mult_mono [of r 10000 b 10000] by simp_all
  have c: "0 \<le> (r * b + 10000 - 1) div 10000" "(r * b + 10000 - 1) div 10000 = ceil_div (r * b) 10000"
    using rb by (simp_all add: pos_imp_zdiv_nonneg_iff ceil_div_def)
  have cr: "ceil_div (r * b) 10000 \<le> r"
    using qr b by (simp add: ceil_div_le_iff mult_left_mono)
  have "add64 (mul64 (rem64 n 10000) b) 10000 = r * b + 10000"
    using rb n by (simp add: rem64_nonneg r_def [symmetric] mul64_def add64_def wrap64_nonneg)
  then have 1: "sub64 (add64 (mul64 (rem64 n 10000) b) 10000) 1 = r * b + 10000 - 1"
    using rb by (simp add: sub64_def wrap64_nonneg)
  have 2: "mul64 (quo64 n 10000) b = q * b"
    using n qb qr by (simp add: quo64_nonneg q_def [symmetric] mul64_def wrap64_nonneg)
  have "q * b + ceil_div (r * b) 10000 \<le> MaxInt64" using qb cr qr n by linarith
  moreover have "ceil_div (n * b) 10000 = q * b + ceil_div (r * b) 10000"
  proof -
    have "n * b = (q * b) * 10000 + r * b" by (subst qr(1)) (simp add: algebra_simps)
    then show ?thesis by (simp add: ceil_div_shift)
  qed
  moreover have "quo64 (r * b + 10000 - 1) 10000 = ceil_div (r * b) 10000"
    using rb c by (simp add: quo64_nonneg)
  ultimately show ?thesis
    unfolding 1 2 using qb c by (simp add: add64_def wrap64_nonneg)
qed

text \<open>The same split rounded down, as the shares of the bank are.\<close>

lemma bps_split_floor:
  assumes n: "0 \<le> n" "n \<le> MaxInt64" and b: "0 \<le> b" "b \<le> 10000"
  shows "add64 (mul64 (quo64 n 10000) b) (quo64 (mul64 (rem64 n 10000) b) 10000) = n * b div 10000"
proof -
  define q r where "q = n div 10000" and "r = n mod 10000"
  have qr: "n = q * 10000 + r" "0 \<le> q" "0 \<le> r" "r < 10000"
    using n by (simp_all add: q_def r_def pos_imp_zdiv_nonneg_iff)
  have qb: "0 \<le> q * b" "q * b \<le> q * 10000" using qr b by (simp_all add: mult_left_mono)
  have rb: "0 \<le> r * b" "r * b \<le> r * 10000" "r * b \<le> 10000 * 10000"
    using qr b mult_mono [of r 10000 b 10000] by (simp_all add: mult_left_mono)
  have fr: "0 \<le> r * b div 10000" "r * b div 10000 \<le> r"
    using rb qr by (simp_all add: pos_imp_zdiv_nonneg_iff div_le_iff_int)
  have 1: "mul64 (rem64 n 10000) b = r * b"
    using rb n by (simp add: rem64_nonneg r_def [symmetric] mul64_def wrap64_nonneg)
  have 2: "mul64 (quo64 n 10000) b = q * b"
    using n qb qr by (simp add: quo64_nonneg q_def [symmetric] mul64_def wrap64_nonneg)
  have "n * b = r * b + (q * b) * 10000" by (subst qr(1)) (simp add: algebra_simps)
  then have "n * b div 10000 = q * b + r * b div 10000" by simp
  moreover have "quo64 (r * b) 10000 = r * b div 10000" using rb by (simp add: quo64_nonneg)
  moreover have "q * b + r * b div 10000 \<le> MaxInt64" using qb fr qr n by linarith
  ultimately show ?thesis unfolding 1 2 using qb fr by (simp add: add64_def wrap64_nonneg)
qed

section \<open>Text\<close>

text \<open>A Go \<open>range\<close> over a string yields code points (runes); where the code works rune by rune, the
  string is the list of them. \<open>strings.TrimSpace\<close> drops the white space of Unicode at both ends.\<close>

type_synonym rune = int

definition unicode_IsSpace :: "rune \<Rightarrow> bool" where
  "unicode_IsSpace r \<longleftrightarrow> (9 \<le> r \<and> r \<le> 13) \<or> r \<in> {32, 133, 160, 5760, 8232, 8233, 8239, 8287, 12288} \<or>
     (8192 \<le> r \<and> r \<le> 8202)"

definition TrimSpace :: "rune list \<Rightarrow> rune list" where
  "TrimSpace s = rev (dropWhile unicode_IsSpace (rev (dropWhile unicode_IsSpace s)))"

lemma TrimSpace_id:
  assumes "\<forall>r\<in>set s. \<not> unicode_IsSpace r"
  shows "TrimSpace s = s"
proof -
  have "dropWhile unicode_IsSpace xs = xs" if "set xs \<subseteq> set s" for xs
    using that assms by (cases xs) auto
  then show ?thesis by (simp add: TrimSpace_def)
qed

section \<open>time\<close>

type_synonym go_time = int
type_synonym duration = int

abbreviation Second :: duration where "Second \<equiv> 1000000000"
abbreviation Minute :: duration where "Minute \<equiv> 60000000000"
abbreviation Hour :: duration where "Hour \<equiv> 3600000000000"

text \<open>\<open>time.Time{}\<close> is 0. \<open>Before\<close>, \<open>After\<close>, \<open>Equal\<close> and \<open>Compare\<close> are the order of the integers;
  \<open>Sub\<close> saturates to the range of a duration, as the library does.\<close>

definition time_IsZero :: "go_time \<Rightarrow> bool" where "time_IsZero t \<longleftrightarrow> t = 0"
definition time_Sub :: "go_time \<Rightarrow> go_time \<Rightarrow> duration" where
  "time_Sub t u = max MinInt64 (min MaxInt64 (t - u))"
definition time_Add :: "go_time \<Rightarrow> duration \<Rightarrow> go_time" where "time_Add t d = t + d"

section \<open>sort\<close>

fun insert_by :: "('a \<Rightarrow> 'a \<Rightarrow> bool) \<Rightarrow> 'a \<Rightarrow> 'a list \<Rightarrow> 'a list" where
  "insert_by lt x [] = [x]"
| "insert_by lt x (y # ys) = (if lt y x then y # insert_by lt x ys else x # y # ys)"

fun sort_by :: "('a \<Rightarrow> 'a \<Rightarrow> bool) \<Rightarrow> 'a list \<Rightarrow> 'a list" where
  "sort_by lt [] = []"
| "sort_by lt (x # xs) = insert_by lt x (sort_by lt xs)"

lemma sort_by_id:
  "sorted_wrt (\<lambda>x y. \<not> lt y x) xs \<Longrightarrow> sort_by lt xs = xs"
proof (induction xs)
  case Nil
  then show ?case by simp
next
  case (Cons x xs)
  then show ?case by (cases xs) auto
qed

lemma mset_insert_by [simp]: "mset (insert_by lt x xs) = add_mset x (mset xs)"
  by (induction xs) auto

lemma mset_sort_by [simp]: "mset (sort_by lt xs) = mset xs"
  by (induction xs) auto

lemma set_sort_by [simp]: "set (sort_by lt xs) = set xs"
  by (metis mset_sort_by set_mset_mset)

lemma set_insert_by [simp]: "set (insert_by lt x xs) = insert x (set xs)"
  by (induction xs) auto

lemma length_sort_by [simp]: "length (sort_by lt xs) = length xs"
  by (metis mset_sort_by size_mset)

lemma distinct_map_mset: "mset xs = mset ys \<Longrightarrow> distinct (map f xs) \<longleftrightarrow> distinct (map f ys)"
  by (metis mset_eq_imp_distinct_iff mset_map)

lemma sum_list_map_mset:
  fixes f :: "'a \<Rightarrow> int"
  assumes "mset xs = mset ys"
  shows "(\<Sum>x\<leftarrow>xs. f x) = (\<Sum>x\<leftarrow>ys. f x)"
proof -
  have "mset (map f xs) = mset (map f ys)" using assms by simp
  then show ?thesis by (metis sum_mset_sum_list)
qed

lemma distinct_map_sort_by [simp]: "distinct (map f (sort_by lt xs)) \<longleftrightarrow> distinct (map f xs)"
  by (rule distinct_map_mset) simp

locale strict_weak_order =
  fixes lt :: "'a \<Rightarrow> 'a \<Rightarrow> bool"
  assumes asym: "lt x y \<Longrightarrow> \<not> lt y x"
    and neg_trans: "\<not> lt x y \<Longrightarrow> \<not> lt y z \<Longrightarrow> \<not> lt x z"
begin

lemma sorted_insert_by:
  "sorted_wrt (\<lambda>x y. \<not> lt y x) xs \<Longrightarrow> sorted_wrt (\<lambda>x y. \<not> lt y x) (insert_by lt x xs)"
proof (induction xs)
  case Nil
  then show ?case by simp
next
  case (Cons y ys)
  show ?case
  proof (cases "lt y x")
    case True
    with Cons asym show ?thesis by auto
  next
    case False
    with Cons.prems neg_trans [of _ y x] show ?thesis by auto
  qed
qed

lemma sorted_sort_by: "sorted_wrt (\<lambda>x y. \<not> lt y x) (sort_by lt xs)"
  by (induction xs) (simp_all add: sorted_insert_by)

lemma sort_by_head: "sort_by lt xs = y # ys \<Longrightarrow> x \<in> set xs \<Longrightarrow> \<not> lt x y"
proof -
  assume eq: "sort_by lt xs = y # ys" and x: "x \<in> set xs"
  have "x \<in> set (y # ys)" using x by (metis eq set_sort_by)
  moreover have "sorted_wrt (\<lambda>x y. \<not> lt y x) (y # ys)" using sorted_sort_by [of xs] eq by simp
  ultimately show "\<not> lt x y" using asym by auto
qed

text \<open>Where no two entries tie, the sorted arrangement is the only one.\<close>

lemma sort_by_unique:
  assumes "mset ys = mset xs" and "sorted_wrt (\<lambda>x y. \<not> lt y x) ys"
    and "\<And>x y. x \<in> set xs \<Longrightarrow> y \<in> set xs \<Longrightarrow> \<not> lt x y \<Longrightarrow> \<not> lt y x \<Longrightarrow> x = y"
  shows "ys = sort_by lt xs"
  using assms
proof (induction ys arbitrary: xs)
  case Nil
  then show ?case by simp
next
  case (Cons y ys)
  obtain z zs where z: "sort_by lt xs = z # zs"
    using Cons.prems(1) mset_sort_by [of lt xs] by (cases "sort_by lt xs") auto
  have sets: "set (y # ys) = set xs" "set (z # zs) = set xs"
    using mset_eq_setD [OF Cons.prems(1)] set_sort_by [of lt xs] z by simp_all
  have "\<not> lt y z" using sort_by_head [OF z] sets by auto
  moreover have "\<not> lt z y"
  proof -
    have "z \<in> set (y # ys)" using sets by auto
    with Cons.prems(2) asym [of y y] show ?thesis by auto
  qed
  ultimately have yz: "y = z" using Cons.prems(3) sets by auto
  have "add_mset y (mset ys) = add_mset z (mset zs)"
    using Cons.prems(1) z mset_sort_by [of lt xs] by simp
  then have m: "mset ys = mset zs" using yz by simp
  have zs: "zs = sort_by lt zs"
    using sorted_sort_by [of xs] z sort_by_id [of lt zs] by simp
  have "ys = sort_by lt zs"
    using Cons.prems(2,3) sets m by (intro Cons.IH) auto
  with yz z zs show ?case by simp
qed

text \<open>So the sorted list does not depend on the order the entries came in.\<close>

lemma sort_by_perm:
  assumes "mset xs = mset ys"
    and "\<And>x y. x \<in> set xs \<Longrightarrow> y \<in> set xs \<Longrightarrow> \<not> lt x y \<Longrightarrow> \<not> lt y x \<Longrightarrow> x = y"
  shows "sort_by lt xs = sort_by lt ys"
proof -
  have "set xs = set ys" using assms(1) by (rule mset_eq_setD)
  then show ?thesis using assms by (intro sort_by_unique [OF _ sorted_sort_by]) auto
qed

end

end
