(* ===== verification/Money.thy ===== *)
theory Money
  imports Go_Base
begin

text \<open>
  \<^verbatim>\<open>internal/shared/money/money.go\<close>: amounts of money as exact counts of minor units.
  \<open>FromMinor\<close> and \<open>Minor\<close> are the constructor and the accessor of the Go type; \<open>Amount_Add\<close>,
  \<open>Amount_Sub\<close>, \<open>Amount_Neg\<close> and \<open>Amount_Sum\<close> are its checked arithmetic. The lemmas show that
  the overflow tests of the code (which themselves compute in \<open>int64\<close>) refuse exactly the sums
  that do not fit, and that a sum that is returned is the mathematical sum.
\<close>

datatype amount = FromMinor (Minor: int)

datatype money_error = ErrOverflow

definition valid_amount :: "amount \<Rightarrow> bool" where
  "valid_amount a \<longleftrightarrow> in64 (Minor a)"

instantiation amount :: linorder
begin

definition less_eq_amount :: "amount \<Rightarrow> amount \<Rightarrow> bool" where
  "less_eq_amount a b \<longleftrightarrow> Minor a \<le> Minor b"

definition less_amount :: "amount \<Rightarrow> amount \<Rightarrow> bool" where
  "less_amount a b \<longleftrightarrow> Minor a < Minor b"

instance
  by standard (auto simp: less_eq_amount_def less_amount_def amount.expand)

end

definition Amount_IsZero :: "amount \<Rightarrow> bool" where
  "Amount_IsZero a \<longleftrightarrow> Minor a = 0"

definition Amount_IsNegative :: "amount \<Rightarrow> bool" where
  "Amount_IsNegative a \<longleftrightarrow> Minor a < 0"

definition Amount_Add :: "amount \<Rightarrow> amount \<Rightarrow> money_error + amount" where
  "Amount_Add a b =
     (if (Minor b > 0 \<and> Minor a > sub64 MaxInt64 (Minor b)) \<or>
         (Minor b < 0 \<and> Minor a < sub64 MinInt64 (Minor b))
      then Inl ErrOverflow
      else Inr (FromMinor (add64 (Minor a) (Minor b))))"

definition Amount_Sub :: "amount \<Rightarrow> amount \<Rightarrow> money_error + amount" where
  "Amount_Sub a b =
     (if Minor b = MinInt64 then Inl ErrOverflow
      else Amount_Add a (FromMinor (neg64 (Minor b))))"

definition Amount_Neg :: "amount \<Rightarrow> money_error + amount" where
  "Amount_Neg a =
     (if Minor a = MinInt64 then Inl ErrOverflow else Inr (FromMinor (neg64 (Minor a))))"

text \<open>The loop of \<open>Sum\<close>: the running total, stopping at the first addition that overflows.\<close>

fun Amount_sum_from :: "amount \<Rightarrow> amount list \<Rightarrow> money_error + amount" where
  "Amount_sum_from tot [] = Inr tot"
| "Amount_sum_from tot (x # xs) =
     (case Amount_Add tot x of Inl e \<Rightarrow> Inl e | Inr t \<Rightarrow> Amount_sum_from t xs)"

definition Amount_Sum :: "amount list \<Rightarrow> money_error + amount" where
  "Amount_Sum xs = Amount_sum_from (FromMinor 0) xs"

section \<open>Checked arithmetic is exact\<close>

lemma Amount_Add_eq:
  assumes "valid_amount a" "valid_amount b"
  shows "Amount_Add a b =
    (if in64 (Minor a + Minor b) then Inr (FromMinor (Minor a + Minor b)) else Inl ErrOverflow)"
proof -
  have "0 < Minor b \<Longrightarrow> sub64 MaxInt64 (Minor b) = MaxInt64 - Minor b"
    using assms by (simp add: valid_amount_def in64_def sub64_def wrap64_id')
  moreover have "Minor b < 0 \<Longrightarrow> sub64 MinInt64 (Minor b) = MinInt64 - Minor b"
    using assms by (simp add: valid_amount_def in64_def sub64_def wrap64_id')
  ultimately show ?thesis
    using assms by (auto simp: Amount_Add_def valid_amount_def in64_def add64_def wrap64_id')
qed

lemma Amount_Sub_eq:
  assumes "valid_amount a" "valid_amount b"
  shows "Amount_Sub a b =
    (if Minor b \<noteq> MinInt64 \<and> in64 (Minor a - Minor b)
     then Inr (FromMinor (Minor a - Minor b)) else Inl ErrOverflow)"
proof (cases "Minor b = MinInt64")
  case False
  with assms have "neg64 (Minor b) = - Minor b" "valid_amount (FromMinor (- Minor b))"
    by (auto simp: neg64_def valid_amount_def in64_def wrap64_id')
  with False assms show ?thesis by (simp add: Amount_Sub_def Amount_Add_eq)
qed (simp add: Amount_Sub_def)

lemma Amount_Neg_eq:
  assumes "valid_amount a"
  shows "Amount_Neg a = (if Minor a = MinInt64 then Inl ErrOverflow else Inr (FromMinor (- Minor a)))"
  using assms by (auto simp: Amount_Neg_def neg64_def valid_amount_def in64_def wrap64_id')

lemma Amount_Add_valid: "valid_amount a \<Longrightarrow> valid_amount b \<Longrightarrow> Amount_Add a b = Inr c \<Longrightarrow> valid_amount c"
  by (auto simp: Amount_Add_eq valid_amount_def split: if_splits)

lemma Amount_sum_from_exact:
  assumes "valid_amount t" "list_all valid_amount xs" "Amount_sum_from t xs = Inr r"
  shows "Minor r = Minor t + (\<Sum>x\<leftarrow>xs. Minor x) \<and> valid_amount r"
  using assms
proof (induction xs arbitrary: t)
  case Nil
  then show ?case by simp
next
  case (Cons x xs)
  then obtain s where s: "Amount_Add t x = Inr s" "Amount_sum_from s xs = Inr r"
    by (auto split: sum.splits)
  with Cons.prems have "valid_amount s" "Minor s = Minor t + Minor x"
    by (auto simp: Amount_Add_eq valid_amount_def split: if_splits)
  with Cons s show ?case by auto
qed

text \<open>A running total that stays in range at every step is returned.\<close>

lemma Amount_sum_from_total:
  assumes "valid_amount t" "list_all valid_amount xs"
    and "\<And>k. k \<le> length xs \<Longrightarrow> in64 (Minor t + (\<Sum>x\<leftarrow>take k xs. Minor x))"
  shows "Amount_sum_from t xs = Inr (FromMinor (Minor t + (\<Sum>x\<leftarrow>xs. Minor x)))"
  using assms
proof (induction xs arbitrary: t)
  case Nil
  then show ?case by simp
next
  case (Cons x xs)
  define s where "s = FromMinor (Minor t + Minor x)"
  have "in64 (Minor t + Minor x)" using Cons.prems(3) [of 1] by simp
  then have s: "Amount_Add t x = Inr s" "valid_amount s"
    using Cons.prems by (simp_all add: Amount_Add_eq s_def valid_amount_def)
  have "in64 (Minor s + (\<Sum>x\<leftarrow>take k xs. Minor x))" if "k \<le> length xs" for k
    using Cons.prems(3) [of "Suc k"] that by (simp add: s_def algebra_simps)
  with Cons s have "Amount_sum_from s xs = Inr (FromMinor (Minor s + (\<Sum>x\<leftarrow>xs. Minor x)))"
    by simp
  with s show ?case by (simp add: s_def algebra_simps)
qed

lemmas Amount_exact = Amount_Add_eq Amount_Sub_eq Amount_Neg_eq

end
