(* ===== verification/Market_Order.thy ===== *)
theory Market_Order
  imports Money
begin

text \<open>
  The data of the order book: \<^verbatim>\<open>internal/domain/market/order.go\<close>, \<^verbatim>\<open>arith.go\<close> and the types
  and helpers of \<^verbatim>\<open>match.go\<close> (\<open>Book\<close>, \<open>Trade\<close>, \<open>Removal\<close>, \<open>Result\<close>, \<open>comparePriority\<close>,
  \<open>sortedSide\<close>, \<open>dropExpired\<close>). The closed string types of the source (\<open>Side\<close>, \<open>Kind\<close>,
  \<open>AssetType\<close>, \<open>Channel\<close>) are datatypes whose last constructor holds any other string, so that
  their \<open>valid\<close> methods have something to refuse. The lemmas give the checked product, the facts a
  validated order and book provide, and that price-time priority is a strict order.
\<close>

section \<open>Errors and closed string types\<close>

datatype market_error =
  ErrInvalidOrder | ErrInvalidBook | ErrAssetMismatch | ErrExpired | ErrInvalidFeeRate
| ErrNotParty | ErrInvariant | ErrMoney money_error | ErrNegativeOperand

datatype side = Buy | Sell | OtherSide string

definition Side_Opposite :: "side \<Rightarrow> side" where
  "Side_Opposite s = (if s = Buy then Sell else Buy)"

definition Side_valid :: "side \<Rightarrow> bool" where
  "Side_valid s \<longleftrightarrow> s = Buy \<or> s = Sell"

datatype kind = Limit | Market | OtherKind string

definition Kind_valid :: "kind \<Rightarrow> bool" where
  "Kind_valid k \<longleftrightarrow> k = Limit \<or> k = Market"

datatype asset_type = AssetItem | AssetShare | AssetCurrency | OtherAsset string

definition AssetType_valid :: "asset_type \<Rightarrow> bool" where
  "AssetType_valid a \<longleftrightarrow> a = AssetItem \<or> a = AssetShare \<or> a = AssetCurrency"

datatype channel = ChannelPublic | ChannelBlack | OtherChannel string

definition Channel_valid :: "channel \<Rightarrow> bool" where
  "Channel_valid c \<longleftrightarrow> c = ChannelPublic \<or> c = ChannelBlack"

record asset_key =
  key_Type :: asset_type
  key_ID :: string
  key_City :: string
  key_Channel :: channel

definition AssetKey_Validate :: "asset_key \<Rightarrow> market_error option" where
  "AssetKey_Validate k =
     (if \<not> AssetType_valid (key_Type k) then Some ErrInvalidOrder
      else if key_ID k = [] then Some ErrInvalidOrder
      else if \<not> Channel_valid (key_Channel k) then Some ErrInvalidOrder
      else None)"

section \<open>The checked product\<close>

definition mulQtyPrice :: "int \<Rightarrow> amount \<Rightarrow> market_error + amount" where
  "mulQtyPrice qty price =
     (let p = Minor price in
      if qty < 0 \<or> p < 0 then Inl ErrNegativeOperand
      else if qty = 0 \<or> p = 0 then Inr (FromMinor 0)
      else if qty > quo64 MaxInt64 p then Inl (ErrMoney ErrOverflow)
      else Inr (FromMinor (mul64 qty p)))"

lemma mulQtyPrice_eq:
  assumes "0 \<le> q" "0 \<le> Minor p"
  shows "mulQtyPrice q p =
    (if q * Minor p \<le> MaxInt64 then Inr (FromMinor (q * Minor p)) else Inl (ErrMoney ErrOverflow))"
proof (cases "q = 0 \<or> Minor p = 0")
  case True
  with assms show ?thesis by (auto simp: mulQtyPrice_def)
next
  case False
  with assms have pos: "0 < q" "0 < Minor p" by simp_all
  then have "q \<le> quo64 MaxInt64 (Minor p) \<longleftrightarrow> q * Minor p \<le> MaxInt64"
    by (simp add: quo64_nonneg le_div_iff_int)
  with pos show ?thesis
    by (auto simp: mulQtyPrice_def Let_def mul64_def intro!: wrap64_nonneg)
qed

lemma mulQtyPrice_Inr:
  "mulQtyPrice q p = Inr n \<Longrightarrow> 0 \<le> q \<and> 0 \<le> Minor p \<and> Minor n = q * Minor p \<and> Minor n \<le> MaxInt64"
proof -
  assume h: "mulQtyPrice q p = Inr n"
  then have nn: "0 \<le> q" "0 \<le> Minor p" by (auto simp: mulQtyPrice_def Let_def split: if_splits)
  with h show ?thesis by (auto simp: mulQtyPrice_eq split: if_splits)
qed

section \<open>Orders\<close>

record order =
  ord_ID :: string
  ord_Side :: side
  ord_Kind :: kind
  ord_Asset :: asset_key
  ord_Quantity :: int
  ord_Filled :: int
  ord_UnitPrice :: amount
  ord_Owner :: string
  ord_CreatedAt :: go_time
  ord_ExpiresAt :: go_time

definition Order_Remaining :: "order \<Rightarrow> int" where
  "Order_Remaining o1 = sub64 (ord_Quantity o1) (ord_Filled o1)"

definition Order_Expired :: "order \<Rightarrow> go_time \<Rightarrow> bool" where
  "Order_Expired o1 now \<longleftrightarrow> \<not> time_IsZero (ord_ExpiresAt o1) \<and> \<not> now < ord_ExpiresAt o1"

definition Order_Validate :: "order \<Rightarrow> market_error option" where
  "Order_Validate o1 =
     (if ord_ID o1 = [] then Some ErrInvalidOrder
      else if \<not> Side_valid (ord_Side o1) then Some ErrInvalidOrder
      else if \<not> Kind_valid (ord_Kind o1) then Some ErrInvalidOrder
      else case AssetKey_Validate (ord_Asset o1) of Some e \<Rightarrow> Some e | None \<Rightarrow>
      if ord_Quantity o1 \<le> 0 then Some ErrInvalidOrder
      else if ord_Filled o1 < 0 \<or> ord_Filled o1 > ord_Quantity o1 then Some ErrInvalidOrder
      else if Amount_IsNegative (ord_UnitPrice o1) then Some ErrInvalidOrder
      else if Amount_IsZero (ord_UnitPrice o1) \<and> (ord_Kind o1 = Limit \<or> ord_Side o1 = Buy)
        then Some ErrInvalidOrder
      else if ord_Owner o1 = [] then Some ErrInvalidOrder
      else if time_IsZero (ord_CreatedAt o1) then Some ErrInvalidOrder
      else if \<not> time_IsZero (ord_ExpiresAt o1) \<and> \<not> ord_ExpiresAt o1 > ord_CreatedAt o1
        then Some ErrInvalidOrder
      else if ord_Side o1 = Buy then
        (case mulQtyPrice (ord_Quantity o1) (ord_UnitPrice o1) of Inl e \<Rightarrow> Some e | Inr _ \<Rightarrow> None)
      else None)"

definition Order_acceptsPrice :: "order \<Rightarrow> amount \<Rightarrow> bool" where
  "Order_acceptsPrice o1 p =
     (if ord_Side o1 = Buy then Minor p \<le> Minor (ord_UnitPrice o1)
      else Minor p \<ge> Minor (ord_UnitPrice o1))"

text \<open>An order as the machine can hold it: its counts and its price are \<open>int64\<close>.\<close>

definition order_in64 :: "order \<Rightarrow> bool" where
  "order_in64 o1 \<longleftrightarrow> in64 (ord_Quantity o1) \<and> in64 (ord_Filled o1) \<and> valid_amount (ord_UnitPrice o1)"

text \<open>What a validated order guarantees, as the proofs use it.\<close>

definition order_ok :: "order \<Rightarrow> bool" where
  "order_ok o1 \<longleftrightarrow> ord_Side o1 \<in> {Buy, Sell} \<and> 0 < ord_Quantity o1 \<and> ord_Quantity o1 \<le> MaxInt64 \<and>
     0 \<le> ord_Filled o1 \<and> ord_Filled o1 \<le> ord_Quantity o1 \<and> 0 \<le> Minor (ord_UnitPrice o1) \<and>
     (ord_Side o1 = Buy \<longrightarrow> ord_Quantity o1 * Minor (ord_UnitPrice o1) \<le> MaxInt64)"

lemma Order_Validate_ok: "Order_Validate o1 = None \<Longrightarrow> order_in64 o1 \<Longrightarrow> order_ok o1"
  by (auto simp: Order_Validate_def order_ok_def Side_valid_def Amount_IsNegative_def mulQtyPrice_eq
      order_in64_def in64_def split: if_splits option.splits sum.splits)

lemma Order_Remaining_eq: "order_ok o1 \<Longrightarrow> Order_Remaining o1 = ord_Quantity o1 - ord_Filled o1"
  by (simp add: Order_Remaining_def order_ok_def sub64_def wrap64_nonneg)

lemma order_ok_fill:
  assumes "order_ok o1" "0 \<le> q" "q \<le> Order_Remaining o1"
  shows "order_ok (o1\<lparr>ord_Filled := ord_Filled o1 + q\<rparr>)"
    and "add64 (ord_Filled o1) q = ord_Filled o1 + q"
  using assms by (simp_all add: order_ok_def Order_Remaining_eq [OF assms(1)] add64_def wrap64_nonneg)

lemma order_fill_simps [simp]:
  "Order_Expired (o1\<lparr>ord_Filled := f\<rparr>) now = Order_Expired o1 now"
  "Order_acceptsPrice (o1\<lparr>ord_Filled := f\<rparr>) p = Order_acceptsPrice o1 p"
  by (simp_all add: Order_Expired_def Order_acceptsPrice_def)

section \<open>Books, trades and results\<close>

record book =
  bk_Asset :: asset_key
  bk_Bids :: "order list"
  bk_Asks :: "order list"

definition NewBook :: "asset_key \<Rightarrow> book" where
  "NewBook key = \<lparr>bk_Asset = key, bk_Bids = [], bk_Asks = []\<rparr>"

record trade =
  tr_Asset :: asset_key
  tr_BuyOrderID :: string
  tr_SellOrderID :: string
  tr_Buyer :: string
  tr_Seller :: string
  tr_Quantity :: int
  tr_UnitPrice :: amount
  tr_Notional :: amount
  tr_Aggressor :: side
  tr_ExecutedAt :: go_time

datatype removal_reason = RemovedFilled | RemovedExpired | RemovedSelfTrade | OtherReason string

record removal =
  rm_Order :: order
  rm_Reason :: removal_reason

record match_result =
  res_Trades :: "trade list"
  res_Incoming :: order
  res_Rests :: bool
  res_Updated :: "order list"
  res_Removed :: "removal list"
  res_Book :: book

text \<open>The check of one resting order; \<open>seen\<close> are the ids met before it.\<close>

definition Book_check :: "asset_key \<Rightarrow> string list \<Rightarrow> order \<Rightarrow> side \<Rightarrow> market_error option" where
  "Book_check key seen o1 s =
     (if Order_Validate o1 \<noteq> None then Some ErrInvalidBook
      else if ord_Asset o1 \<noteq> key then Some ErrInvalidBook
      else if ord_Side o1 \<noteq> s then Some ErrInvalidBook
      else if ord_Kind o1 \<noteq> Limit then Some ErrInvalidBook
      else if Order_Remaining o1 = 0 then Some ErrInvalidBook
      else if ord_ID o1 \<in> set seen then Some ErrInvalidBook
      else None)"

fun Book_check_all :: "asset_key \<Rightarrow> side \<Rightarrow> string list \<Rightarrow> order list \<Rightarrow> market_error + string list" where
  "Book_check_all key s seen [] = Inr seen"
| "Book_check_all key s seen (o1 # os) =
     (case Book_check key seen o1 s of Some e \<Rightarrow> Inl e
      | None \<Rightarrow> Book_check_all key s (ord_ID o1 # seen) os)"

definition Book_Validate :: "book \<Rightarrow> market_error option" where
  "Book_Validate b =
     (if AssetKey_Validate (bk_Asset b) \<noteq> None then Some ErrInvalidBook
      else case Book_check_all (bk_Asset b) Buy [] (bk_Bids b) of Inl e \<Rightarrow> Some e
      | Inr seen \<Rightarrow> (case Book_check_all (bk_Asset b) Sell seen (bk_Asks b) of Inl e \<Rightarrow> Some e
        | Inr _ \<Rightarrow> None))"

lemma Book_check_all_Inr:
  assumes "Book_check_all key s seen os = Inr seen'"
  shows "(\<forall>o1\<in>set os. Order_Validate o1 = None \<and> ord_Asset o1 = key \<and> ord_Side o1 = s \<and>
      ord_Kind o1 = Limit \<and> Order_Remaining o1 \<noteq> 0) \<and> distinct (map ord_ID os) \<and>
    set (map ord_ID os) \<inter> set seen = {} \<and> set seen' = set (map ord_ID os) \<union> set seen"
  using assms
proof (induction os arbitrary: seen)
  case Nil
  then show ?case by simp
next
  case (Cons o1 os)
  then have c: "Book_check key seen o1 s = None"
    and r: "Book_check_all key s (ord_ID o1 # seen) os = Inr seen'"
    by (auto split: option.splits)
  from c have "Order_Validate o1 = None \<and> ord_Asset o1 = key \<and> ord_Side o1 = s \<and>
      ord_Kind o1 = Limit \<and> Order_Remaining o1 \<noteq> 0 \<and> ord_ID o1 \<notin> set seen"
    by (auto simp: Book_check_def split: if_splits)
  with Cons.IH [OF r] show ?case by auto
qed

lemma Book_Validate_None:
  assumes "Book_Validate b = None"
  shows "(\<forall>o1\<in>set (bk_Bids b @ bk_Asks b). Order_Validate o1 = None \<and> ord_Asset o1 = bk_Asset b \<and>
      ord_Kind o1 = Limit \<and> Order_Remaining o1 \<noteq> 0) \<and>
    (\<forall>o1\<in>set (bk_Bids b). ord_Side o1 = Buy) \<and> (\<forall>o1\<in>set (bk_Asks b). ord_Side o1 = Sell) \<and>
    distinct (map ord_ID (bk_Bids b @ bk_Asks b))"
proof -
  from assms obtain s1 s2 where
    1: "Book_check_all (bk_Asset b) Buy [] (bk_Bids b) = Inr s1" and
    2: "Book_check_all (bk_Asset b) Sell s1 (bk_Asks b) = Inr s2"
    by (auto simp: Book_Validate_def split: if_splits sum.splits)
  from Book_check_all_Inr [OF 1] Book_check_all_Inr [OF 2] show ?thesis by auto
qed

section \<open>Price-time priority\<close>

definition cmp_Compare :: "'a::linorder \<Rightarrow> 'a \<Rightarrow> int" where
  "cmp_Compare a b = (if a < b then -1 else if a > b then 1 else 0)"

definition comparePriority :: "side \<Rightarrow> order \<Rightarrow> order \<Rightarrow> int" where
  "comparePriority s a b =
     (let c = cmp_Compare (Minor (ord_UnitPrice a)) (Minor (ord_UnitPrice b)) in
      if c \<noteq> 0 then (if s = Buy then - c else c)
      else let c = cmp_Compare (ord_CreatedAt a) (ord_CreatedAt b) in
        if c \<noteq> 0 then c else cmp_Compare (ord_ID a) (ord_ID b))"

definition sortedSide :: "order list \<Rightarrow> side \<Rightarrow> order list" where
  "sortedSide orders s = sort_by (\<lambda>a b. comparePriority s a b < 0) orders"

fun dropExpired :: "order list \<Rightarrow> go_time \<Rightarrow> removal list \<Rightarrow> order list \<times> removal list" where
  "dropExpired [] now removed = ([], removed)"
| "dropExpired (o1 # os) now removed =
     (if Order_Expired o1 now
      then dropExpired os now (removed @ [\<lparr>rm_Order = o1, rm_Reason = RemovedExpired\<rparr>])
      else (case dropExpired os now removed of (out, rm) \<Rightarrow> (o1 # out, rm)))"

lemma comparePriority_less:
  "comparePriority s a b < 0 \<longleftrightarrow>
     (if Minor (ord_UnitPrice a) \<noteq> Minor (ord_UnitPrice b)
      then (if s = Buy then Minor (ord_UnitPrice b) < Minor (ord_UnitPrice a)
            else Minor (ord_UnitPrice a) < Minor (ord_UnitPrice b))
      else ord_CreatedAt a < ord_CreatedAt b \<or> (ord_CreatedAt a = ord_CreatedAt b \<and> ord_ID a < ord_ID b))"
  by (auto simp: comparePriority_def cmp_Compare_def Let_def)

interpretation priority: strict_weak_order "\<lambda>a b. comparePriority s a b < 0" for s
proof
  show "comparePriority s x y < 0 \<Longrightarrow> \<not> comparePriority s y x < 0" for x y
    by (auto simp: comparePriority_less split: if_splits)
  show "\<not> comparePriority s x y < 0 \<Longrightarrow> \<not> comparePriority s y z < 0 \<Longrightarrow> \<not> comparePriority s x z < 0"
    for x y z
    by (auto simp: comparePriority_less not_less split: if_splits)
qed

lemma mset_sortedSide [simp]: "mset (sortedSide os s) = mset os"
  and set_sortedSide [simp]: "set (sortedSide os s) = set os"
  by (simp_all add: sortedSide_def)

lemma distinct_sortedSide [simp]:
  "distinct (map ord_ID (sortedSide os s)) \<longleftrightarrow> distinct (map ord_ID os)"
  by (simp add: sortedSide_def)

lemma sortedSide_prices:
  "sorted_wrt (\<lambda>x y. if s = Buy then Minor (ord_UnitPrice y) \<le> Minor (ord_UnitPrice x)
     else Minor (ord_UnitPrice x) \<le> Minor (ord_UnitPrice y)) (sortedSide os s)"
  unfolding sortedSide_def
  by (rule sorted_wrt_mono_rel [OF _ priority.sorted_sort_by])
    (auto simp: comparePriority_less split: if_splits)

lemma dropExpired_eq:
  "dropExpired os now removed =
     (filter (\<lambda>o1. \<not> Order_Expired o1 now) os,
      removed @ map (\<lambda>o1. \<lparr>rm_Order = o1, rm_Reason = RemovedExpired\<rparr>)
        (filter (\<lambda>o1. Order_Expired o1 now) os))"
  by (induction os arbitrary: removed) auto

end
