(* ===== verification/Market_Verify.thy ===== *)
theory Market_Verify
  imports Market_Order
begin

text \<open>
  \<^verbatim>\<open>internal/domain/market/verify.go\<close>: the checker every match result passes through. The closures
  and loops of \<open>Verify\<close> are definitions of their own, in the order of the source: \<open>checkFill\<close>,
  the trade loop, \<open>place\<close>, the loop over \<open>Removed\<close>, the loop over the two sides of the book, the
  two loops over the maps and the closing rules. The Go map \<open>orig\<close> is a map; \<open>final\<close> is the list
  of the orders placed so far, which \<open>place\<close> keeps free of a repeated id, so that the loop over
  the Go map has an order. Every failure is \<open>ErrInvariant\<close>, except an overflowing product.
\<close>

section \<open>The checker\<close>

fun orig_of :: "order list \<Rightarrow> (string \<rightharpoonup> order) \<Rightarrow> (string \<rightharpoonup> order)" where
  "orig_of [] m = m"
| "orig_of (o1 # os) m = orig_of os (m(ord_ID o1 \<mapsto> o1))"

definition checkFill :: "(string \<rightharpoonup> order) \<Rightarrow> order \<Rightarrow> market_error option" where
  "checkFill orig o1 =
     (if ord_Filled o1 < 0 \<or> ord_Filled o1 > ord_Quantity o1 then Some ErrInvariant
      else case orig (ord_ID o1) of None \<Rightarrow> None
      | Some prev \<Rightarrow> if ord_Filled o1 < ord_Filled prev then Some ErrInvariant else None)"

text \<open>The id of the resting order of a trade, by the incoming side; no side, no id.\<close>

definition resting_id :: "side \<Rightarrow> trade \<Rightarrow> string" where
  "resting_id s t = (case s of Buy \<Rightarrow> tr_SellOrderID t | Sell \<Rightarrow> tr_BuyOrderID t | OtherSide _ \<Rightarrow> [])"

definition verify_trade ::
  "book \<Rightarrow> order \<Rightarrow> go_time \<Rightarrow> (string \<rightharpoonup> order) \<Rightarrow> trade \<Rightarrow> market_error option" where
  "verify_trade before incoming now orig t =
     (if tr_Quantity t \<le> 0 then Some ErrInvariant
      else if tr_Asset t \<noteq> bk_Asset before then Some ErrInvariant
      else if tr_Buyer t = tr_Seller t then Some ErrInvariant
      else if ord_Side incoming = Buy \<and>
        (tr_BuyOrderID t \<noteq> ord_ID incoming \<or> tr_Buyer t \<noteq> ord_Owner incoming) then Some ErrInvariant
      else if ord_Side incoming = Sell \<and>
        (tr_SellOrderID t \<noteq> ord_ID incoming \<or> tr_Seller t \<noteq> ord_Owner incoming) then Some ErrInvariant
      else case orig (resting_id (ord_Side incoming) t) of None \<Rightarrow> Some ErrInvariant
      | Some r \<Rightarrow>
        if ord_Side r \<noteq> Side_Opposite (ord_Side incoming) then Some ErrInvariant
        else if Order_Expired r now then Some ErrInvariant
        else if ord_Side incoming = Buy \<and> tr_Seller t \<noteq> ord_Owner r \<or>
          ord_Side incoming = Sell \<and> tr_Buyer t \<noteq> ord_Owner r then Some ErrInvariant
        else if tr_UnitPrice t \<noteq> ord_UnitPrice r then Some ErrInvariant
        else if \<not> Order_acceptsPrice incoming (tr_UnitPrice t) \<or> \<not> Order_acceptsPrice r (tr_UnitPrice t)
          then Some ErrInvariant
        else case mulQtyPrice (tr_Quantity t) (tr_UnitPrice t) of Inl e \<Rightarrow> Some e
        | Inr n \<Rightarrow> if tr_Notional t \<noteq> n then Some ErrInvariant else None)"

fun verify_trades ::
  "book \<Rightarrow> order \<Rightarrow> go_time \<Rightarrow> (string \<rightharpoonup> order) \<Rightarrow> trade list \<Rightarrow> int \<Rightarrow> (string \<Rightarrow> int) \<Rightarrow>
     market_error + int \<times> (string \<Rightarrow> int)" where
  "verify_trades before incoming now orig [] traded tradedBy = Inr (traded, tradedBy)"
| "verify_trades before incoming now orig (t # ts) traded tradedBy =
     (case verify_trade before incoming now orig t of Some e \<Rightarrow> Inl e
      | None \<Rightarrow> (let rid = resting_id (ord_Side incoming) t in
          verify_trades before incoming now orig ts (add64 traded (tr_Quantity t))
            (tradedBy(rid := add64 (tradedBy rid) (tr_Quantity t)))))"

definition place ::
  "(string \<rightharpoonup> order) \<Rightarrow> order \<Rightarrow> order list \<Rightarrow> order \<Rightarrow> market_error + order list" where
  "place orig incoming final o1 =
     (if ord_ID o1 \<in> ord_ID ` set final then Inl ErrInvariant
      else if orig (ord_ID o1) = None \<and> ord_ID o1 \<noteq> ord_ID incoming then Inl ErrInvariant
      else case checkFill orig o1 of Some e \<Rightarrow> Inl e
      | None \<Rightarrow> Inr (final @ [o1]))"

definition verify_reason ::
  "order \<Rightarrow> go_time \<Rightarrow> (string \<Rightarrow> int) \<Rightarrow> removal \<Rightarrow> market_error option" where
  "verify_reason incoming now tradedBy rm =
     (let o1 = rm_Order rm in
      case rm_Reason rm of
        RemovedFilled \<Rightarrow> if Order_Remaining o1 \<noteq> 0 then Some ErrInvariant else None
      | RemovedExpired \<Rightarrow> if \<not> Order_Expired o1 now then Some ErrInvariant else None
      | RemovedSelfTrade \<Rightarrow>
          if ord_Owner o1 \<noteq> ord_Owner incoming \<or> tradedBy (ord_ID o1) \<noteq> 0 then Some ErrInvariant else None
      | OtherReason _ \<Rightarrow> Some ErrInvariant)"

fun verify_removed ::
  "(string \<rightharpoonup> order) \<Rightarrow> order \<Rightarrow> go_time \<Rightarrow> (string \<Rightarrow> int) \<Rightarrow> removal list \<Rightarrow> order list \<Rightarrow>
     market_error + order list" where
  "verify_removed orig incoming now tradedBy [] final = Inr final"
| "verify_removed orig incoming now tradedBy (rm # rms) final =
     (case place orig incoming final (rm_Order rm) of Inl e \<Rightarrow> Inl e
      | Inr final' \<Rightarrow> (case verify_reason incoming now tradedBy rm of Some e \<Rightarrow> Inl e
        | None \<Rightarrow> verify_removed orig incoming now tradedBy rms final'))"

fun verify_side ::
  "(string \<rightharpoonup> order) \<Rightarrow> order \<Rightarrow> go_time \<Rightarrow> order \<Rightarrow> side \<Rightarrow> order list \<Rightarrow> order list \<Rightarrow> bool \<Rightarrow>
     market_error + order list \<times> bool" where
  "verify_side orig incoming now rin s [] final rests = Inr (final, rests)"
| "verify_side orig incoming now rin s (o1 # os) final rests =
     (if ord_ID o1 = ord_ID incoming then
        (if rests then Inl ErrInvariant
         else if o1 \<noteq> rin then Inl ErrInvariant
         else verify_side orig incoming now rin s os final True)
      else case place orig incoming final o1 of Inl e \<Rightarrow> Inl e
      | Inr final' \<Rightarrow>
        if ord_Side o1 \<noteq> s \<or> Order_Remaining o1 = 0 \<or> Order_Expired o1 now then Inl ErrInvariant
        else verify_side orig incoming now rin s os final' rests)"

text \<open>The zero \<open>Order\<close> Go returns for a missing key has nothing filled.\<close>

definition orig_filled :: "(string \<rightharpoonup> order) \<Rightarrow> string \<Rightarrow> int" where
  "orig_filled orig i = (case orig i of None \<Rightarrow> 0 | Some o1 \<Rightarrow> ord_Filled o1)"

fun verify_filled ::
  "(string \<rightharpoonup> order) \<Rightarrow> (string \<Rightarrow> int) \<Rightarrow> order list \<Rightarrow> int \<Rightarrow> market_error + int" where
  "verify_filled orig tradedBy [] restingFilled = Inr restingFilled"
| "verify_filled orig tradedBy (o1 # os) restingFilled =
     (let up = sub64 (ord_Filled o1) (orig_filled orig (ord_ID o1)) in
      if up \<noteq> tradedBy (ord_ID o1) then Inl ErrInvariant
      else verify_filled orig tradedBy os (add64 restingFilled up))"

definition verify_updated :: "order list \<Rightarrow> order list \<Rightarrow> market_error option" where
  "verify_updated final us =
     (if \<exists>u\<in>set us. u \<notin> set final \<or> Order_Remaining u = 0 then Some ErrInvariant else None)"

definition verify_rests :: "order \<Rightarrow> match_result \<Rightarrow> bool \<Rightarrow> market_error option" where
  "verify_rests incoming res restsInBook =
     (if res_Rests res \<noteq> restsInBook then Some ErrInvariant
      else if res_Rests res then
        (if ord_Kind incoming \<noteq> Limit then Some ErrInvariant
         else if Order_Remaining (res_Incoming res) = 0 then Some ErrInvariant
         else (let opp = (if ord_Side incoming = Sell then bk_Bids (res_Book res) else bk_Asks (res_Book res)) in
           if \<exists>o1\<in>set opp. Order_acceptsPrice (res_Incoming res) (ord_UnitPrice o1)
           then Some ErrInvariant else None))
      else if ord_Kind incoming = Limit \<and> Order_Remaining (res_Incoming res) > 0 then Some ErrInvariant
      else None)"

text \<open>Section 6 of the source: every resting order is placed once, then the two loops over the maps.\<close>

definition verify_accounting ::
  "book \<Rightarrow> order \<Rightarrow> go_time \<Rightarrow> (string \<rightharpoonup> order) \<Rightarrow> int \<Rightarrow> (string \<Rightarrow> int) \<Rightarrow> match_result \<Rightarrow>
     market_error + bool" where
  "verify_accounting before incoming now orig traded tradedBy res =
     (case verify_removed orig incoming now tradedBy (res_Removed res) [] of Inl e \<Rightarrow> Inl e
      | Inr f1 \<Rightarrow> (case verify_side orig incoming now (res_Incoming res) Buy (bk_Bids (res_Book res)) f1 False of
          Inl e \<Rightarrow> Inl e
        | Inr (f2, r2) \<Rightarrow> (case verify_side orig incoming now (res_Incoming res) Sell (bk_Asks (res_Book res)) f2 r2 of
            Inl e \<Rightarrow> Inl e
          | Inr (final, restsInBook) \<Rightarrow>
            if \<exists>o1\<in>set (bk_Bids before @ bk_Asks before). ord_ID o1 \<notin> ord_ID ` set final then Inl ErrInvariant
            else (case verify_filled orig tradedBy final 0 of Inl e \<Rightarrow> Inl e
              | Inr restingFilled \<Rightarrow>
                if restingFilled \<noteq> traded then Inl ErrInvariant
                else (case verify_updated final (res_Updated res) of Some e \<Rightarrow> Inl e
                  | None \<Rightarrow> Inr restsInBook)))))"

definition Verify :: "book \<Rightarrow> order \<Rightarrow> go_time \<Rightarrow> match_result \<Rightarrow> market_error option" where
  "Verify before incoming now res =
     (let orig = orig_of (bk_Asks before) (orig_of (bk_Bids before) Map.empty) in
      if ord_ID (res_Incoming res) \<noteq> ord_ID incoming then Some ErrInvariant
      else case checkFill orig (res_Incoming res) of Some e \<Rightarrow> Some e
      | None \<Rightarrow>
        if ord_Filled (res_Incoming res) < ord_Filled incoming then Some ErrInvariant
        else (case verify_trades before incoming now orig (res_Trades res) 0 (\<lambda>_. 0) of Inl e \<Rightarrow> Some e
          | Inr (traded, tradedBy) \<Rightarrow>
            if sub64 (ord_Filled (res_Incoming res)) (ord_Filled incoming) \<noteq> traded then Some ErrInvariant
            else (case verify_accounting before incoming now orig traded tradedBy res of Inl e \<Rightarrow> Some e
              | Inr restsInBook \<Rightarrow> verify_rests incoming res restsInBook)))"

section \<open>When each loop of the checker succeeds\<close>

lemma orig_of_notin: "i \<notin> ord_ID ` set os \<Longrightarrow> orig_of os m i = m i"
  by (induction os arbitrary: m) auto

lemma orig_of_mem: "distinct (map ord_ID os) \<Longrightarrow> o1 \<in> set os \<Longrightarrow> orig_of os m (ord_ID o1) = Some o1"
proof (induction os arbitrary: m)
  case Nil
  then show ?case by simp
next
  case (Cons a os)
  then show ?case by (cases "o1 = a") (auto simp: orig_of_notin)
qed

text \<open>The total of the trades of one resting order.\<close>

definition traded_by :: "side \<Rightarrow> trade list \<Rightarrow> string \<Rightarrow> int" where
  "traded_by s ts i = (\<Sum>t\<leftarrow>filter (\<lambda>t. resting_id s t = i) ts. tr_Quantity t)"

definition traded_total :: "trade list \<Rightarrow> int" where
  "traded_total ts = (\<Sum>t\<leftarrow>ts. tr_Quantity t)"

lemma traded_by_simps [simp]:
  "traded_by s [] i = 0"
  "traded_by s (t # ts) i = (if resting_id s t = i then tr_Quantity t else 0) + traded_by s ts i"
  by (simp_all add: traded_by_def)

lemma traded_total_simps [simp]:
  "traded_total [] = 0" "traded_total (t # ts) = tr_Quantity t + traded_total ts"
  by (simp_all add: traded_total_def)

lemma traded_by_bounds:
  assumes "\<forall>t\<in>set ts. 0 < tr_Quantity t"
  shows "0 \<le> traded_by s ts i" "traded_by s ts i \<le> traded_total ts"
  using assms by (induction ts) auto

lemma traded_total_nonneg: "\<forall>t\<in>set ts. 0 < tr_Quantity t \<Longrightarrow> 0 \<le> traded_total ts"
  by (induction ts) auto

lemma verify_trades_ok:
  assumes "\<forall>t\<in>set ts. verify_trade before incoming now orig t = None \<and> 0 < tr_Quantity t"
    and "0 \<le> traded" "traded + traded_total ts \<le> MaxInt64"
    and "\<forall>i. 0 \<le> by0 i \<and> by0 i \<le> traded"
  shows "verify_trades before incoming now orig ts traded by0 =
    Inr (traded + traded_total ts, \<lambda>i. by0 i + traded_by (ord_Side incoming) ts i)"
  using assms
proof (induction ts arbitrary: traded by0)
  case Nil
  then show ?case by simp
next
  case (Cons t ts)
  let ?r = "resting_id (ord_Side incoming) t" and ?q = "tr_Quantity t"
  have tn: "0 \<le> traded_total ts" using Cons.prems(1) by (intro traded_total_nonneg) auto
  then have a: "add64 traded ?q = traded + ?q" "add64 (by0 ?r) ?q = by0 ?r + ?q"
  proof -
    have "0 \<le> by0 ?r" "by0 ?r \<le> traded" "0 < ?q" "0 \<le> traded" "traded + ?q \<le> MaxInt64"
      using Cons.prems tn by auto
    then show "add64 traded ?q = traded + ?q" "add64 (by0 ?r) ?q = by0 ?r + ?q"
      unfolding add64_def by (auto intro!: wrap64_nonneg)
  qed
  define by1 where "by1 = by0(?r := by0 ?r + ?q)"
  have "verify_trades before incoming now orig ts (traded + ?q) by1 =
    Inr (traded + ?q + traded_total ts, \<lambda>i. by1 i + traded_by (ord_Side incoming) ts i)"
    using Cons.prems by (intro Cons.IH) (auto simp: by1_def add_increasing2 intro: order_trans)
  with Cons.prems(1) show ?case
    by (auto simp: a by1_def [symmetric] Let_def fun_eq_iff) (auto simp: by1_def)
qed

definition placeable :: "(string \<rightharpoonup> order) \<Rightarrow> order \<Rightarrow> order \<Rightarrow> bool" where
  "placeable orig incoming o1 \<longleftrightarrow>
     (orig (ord_ID o1) \<noteq> None \<or> ord_ID o1 = ord_ID incoming) \<and> checkFill orig o1 = None"

lemma place_ok:
  "placeable orig incoming o1 \<Longrightarrow> ord_ID o1 \<notin> ord_ID ` set final \<Longrightarrow>
    place orig incoming final o1 = Inr (final @ [o1])"
  by (auto simp: place_def placeable_def)

lemma verify_removed_ok:
  assumes "\<forall>rm\<in>set rms. placeable orig incoming (rm_Order rm) \<and> verify_reason incoming now tb rm = None"
    and "distinct (map ord_ID (final @ map rm_Order rms))"
  shows "verify_removed orig incoming now tb rms final = Inr (final @ map rm_Order rms)"
  using assms
proof (induction rms arbitrary: final)
  case Nil
  then show ?case by simp
next
  case (Cons rm rms)
  have "place orig incoming final (rm_Order rm) = Inr (final @ [rm_Order rm])"
    using Cons.prems by (intro place_ok) auto
  with Cons show ?case by simp
qed

lemma verify_side_ok:
  assumes "\<forall>o1\<in>set os. ord_ID o1 \<noteq> ord_ID incoming \<longrightarrow> placeable orig incoming o1 \<and> ord_Side o1 = s \<and>
      Order_Remaining o1 \<noteq> 0 \<and> \<not> Order_Expired o1 now"
    and "\<forall>o1\<in>set os. ord_ID o1 = ord_ID incoming \<longrightarrow> o1 = rin"
    and "distinct (map ord_ID (final @ filter (\<lambda>o1. ord_ID o1 \<noteq> ord_ID incoming) os))"
    and "length (filter (\<lambda>o1. ord_ID o1 = ord_ID incoming) os) \<le> (if rests then 0 else 1)"
  shows "verify_side orig incoming now rin s os final rests =
    Inr (final @ filter (\<lambda>o1. ord_ID o1 \<noteq> ord_ID incoming) os,
      rests \<or> (\<exists>o1\<in>set os. ord_ID o1 = ord_ID incoming))"
  using assms
proof (induction os arbitrary: final rests)
  case Nil
  then show ?case by simp
next
  case (Cons a os)
  show ?case
  proof (cases "ord_ID a = ord_ID incoming")
    case True
    then have "\<not> rests" using Cons.prems(4) by (simp split: if_splits)
    moreover have "a = rin" using Cons.prems(2) True by simp
    moreover have "verify_side orig incoming now rin s os final True =
      Inr (final @ filter (\<lambda>o1. ord_ID o1 \<noteq> ord_ID incoming) os,
        True \<or> (\<exists>o1\<in>set os. ord_ID o1 = ord_ID incoming))"
    proof (rule Cons.IH)
      show "distinct (map ord_ID (final @ filter (\<lambda>o1. ord_ID o1 \<noteq> ord_ID incoming) os))"
        using Cons.prems(3) True by simp
      show "length (filter (\<lambda>o1. ord_ID o1 = ord_ID incoming) os) \<le> (if True then 0 else 1)"
        using Cons.prems(4) True by (simp split: if_splits)
      show "\<forall>o1\<in>set os. ord_ID o1 = ord_ID incoming \<longrightarrow> o1 = rin"
        using Cons.prems(2) by (simp del: imp_disjL)
    qed (use Cons.prems(1) in simp)
    ultimately show ?thesis using True by simp
  next
    case False
    with Cons.prems have p: "place orig incoming final a = Inr (final @ [a])"
      by (intro place_ok) auto
    have "verify_side orig incoming now rin s os (final @ [a]) rests =
      Inr ((final @ [a]) @ filter (\<lambda>o1. ord_ID o1 \<noteq> ord_ID incoming) os,
        rests \<or> (\<exists>o1\<in>set os. ord_ID o1 = ord_ID incoming))"
      using Cons.prems False by (intro Cons.IH) auto
    moreover have "ord_Side a = s" "Order_Remaining a \<noteq> 0" "\<not> Order_Expired a now"
      using Cons.prems(1) False by simp_all
    ultimately show ?thesis using p False by simp
  qed
qed

lemma verify_filled_ok:
  assumes "\<forall>o1\<in>set os. sub64 (ord_Filled o1) (orig_filled orig (ord_ID o1)) = tb (ord_ID o1) \<and> 0 \<le> tb (ord_ID o1)"
    and "0 \<le> acc" "acc + (\<Sum>o1\<leftarrow>os. tb (ord_ID o1)) \<le> MaxInt64"
  shows "verify_filled orig tb os acc = Inr (acc + (\<Sum>o1\<leftarrow>os. tb (ord_ID o1)))"
  using assms
proof (induction os arbitrary: acc)
  case Nil
  then show ?case by simp
next
  case (Cons a os)
  have "0 \<le> (\<Sum>o1\<leftarrow>os. tb (ord_ID o1))"
    using Cons.prems(1) by (intro sum_list_nonneg) auto
  with Cons.prems have "add64 acc (tb (ord_ID a)) = acc + tb (ord_ID a)"
    by (auto simp: add64_def intro!: wrap64_nonneg)
  with Cons show ?case by (simp add: Let_def)
qed

end
