(* ===== verification/Market_Match.thy ===== *)
theory Market_Match
  imports Market_Verify
begin

text \<open>
  \<^verbatim>\<open>internal/domain/market/match.go\<close>: matching one incoming order. \<open>Match_guard\<close> is the head of
  \<open>Match\<close> with its refusals, \<open>match_walk\<close> the loop over the opposite side (one step per resting
  order, its appends being the conses of the result), \<open>Match_core\<close> the rest of the body and
  \<open>Match\<close> the whole function, which runs \<open>Verify\<close> last. The lemmas show that a walk over a valid
  side never fails, what it does to every resting order, that it trades as much as price and
  ownership allow, and that the checker accepts every result.
\<close>

section \<open>Match\<close>

definition Match_guard :: "book \<Rightarrow> order \<Rightarrow> go_time \<Rightarrow> market_error option" where
  "Match_guard bk incoming now =
     (case Order_Validate incoming of Some e \<Rightarrow> Some e | None \<Rightarrow>
      if ord_Asset incoming \<noteq> bk_Asset bk then Some ErrAssetMismatch
      else case Book_Validate bk of Some e \<Rightarrow> Some e | None \<Rightarrow>
      if \<exists>r\<in>set (bk_Bids bk @ bk_Asks bk). ord_ID r = ord_ID incoming then Some ErrInvalidBook
      else if Order_Remaining incoming = 0 then Some ErrInvalidOrder
      else if Order_Expired incoming now then Some ErrExpired
      else None)"

record walk =
  wk_In :: order
  wk_Trades :: "trade list"
  wk_Updated :: "order list"
  wk_Removed :: "removal list"
  wk_Kept :: "order list"

definition trade_of :: "asset_key \<Rightarrow> go_time \<Rightarrow> order \<Rightarrow> order \<Rightarrow> int \<Rightarrow> amount \<Rightarrow> trade" where
  "trade_of key now inc r qty notional =
     (if ord_Side inc = Buy then
        \<lparr>tr_Asset = key, tr_BuyOrderID = ord_ID inc, tr_SellOrderID = ord_ID r,
         tr_Buyer = ord_Owner inc, tr_Seller = ord_Owner r, tr_Quantity = qty,
         tr_UnitPrice = ord_UnitPrice r, tr_Notional = notional, tr_Aggressor = ord_Side inc,
         tr_ExecutedAt = now\<rparr>
      else
        \<lparr>tr_Asset = key, tr_BuyOrderID = ord_ID r, tr_SellOrderID = ord_ID inc,
         tr_Buyer = ord_Owner r, tr_Seller = ord_Owner inc, tr_Quantity = qty,
         tr_UnitPrice = ord_UnitPrice r, tr_Notional = notional, tr_Aggressor = ord_Side inc,
         tr_ExecutedAt = now\<rparr>)"

definition fill_by :: "order \<Rightarrow> int \<Rightarrow> order" where
  "fill_by o1 q = o1\<lparr>ord_Filled := add64 (ord_Filled o1) q\<rparr>"

text \<open>A trade is recorded, and the resting order leaves filled or stays with what is left of it.\<close>

definition walk_fill :: "trade \<Rightarrow> order \<Rightarrow> walk \<Rightarrow> walk" where
  "walk_fill t r' w =
     (if Order_Remaining r' = 0 then
        w\<lparr>wk_Trades := t # wk_Trades w,
          wk_Removed := \<lparr>rm_Order = r', rm_Reason = RemovedFilled\<rparr> # wk_Removed w\<rparr>
      else
        w\<lparr>wk_Trades := t # wk_Trades w, wk_Updated := r' # wk_Updated w, wk_Kept := r' # wk_Kept w\<rparr>)"

fun match_walk :: "asset_key \<Rightarrow> go_time \<Rightarrow> order \<Rightarrow> order list \<Rightarrow> market_error + walk" where
  "match_walk key now inc [] =
     Inr \<lparr>wk_In = inc, wk_Trades = [], wk_Updated = [], wk_Removed = [], wk_Kept = []\<rparr>"
| "match_walk key now inc (r # rest) =
     (if \<not> Order_Remaining inc > 0 \<or> \<not> Order_acceptsPrice inc (ord_UnitPrice r) then
        Inr \<lparr>wk_In = inc, wk_Trades = [], wk_Updated = [], wk_Removed = [], wk_Kept = r # rest\<rparr>
      else if ord_Owner r = ord_Owner inc then
        (case match_walk key now inc rest of Inl e \<Rightarrow> Inl e
         | Inr w \<Rightarrow> Inr (w\<lparr>wk_Removed := \<lparr>rm_Order = r, rm_Reason = RemovedSelfTrade\<rparr> # wk_Removed w\<rparr>))
      else
        (let qty = min (Order_Remaining inc) (Order_Remaining r) in
         case mulQtyPrice qty (ord_UnitPrice r) of Inl e \<Rightarrow> Inl e
         | Inr notional \<Rightarrow>
           (let t = trade_of key now inc r qty notional; r' = fill_by r qty in
            case match_walk key now (fill_by inc qty) rest of Inl e \<Rightarrow> Inl e
            | Inr w \<Rightarrow> Inr (walk_fill t r' w))))"

text \<open>The live orders of one side in priority, and the expired ones.\<close>

definition live_side :: "order list \<Rightarrow> side \<Rightarrow> go_time \<Rightarrow> order list" where
  "live_side os s now = filter (\<lambda>o1. \<not> Order_Expired o1 now) (sortedSide os s)"

definition Match_core :: "book \<Rightarrow> order \<Rightarrow> go_time \<Rightarrow> market_error + match_result" where
  "Match_core bk incoming now =
     (case dropExpired (sortedSide (bk_Bids bk) Buy) now [] of (bids, removed1) \<Rightarrow>
      case dropExpired (sortedSide (bk_Asks bk) Sell) now removed1 of (asks, removed2) \<Rightarrow>
      case match_walk (bk_Asset bk) now incoming (if ord_Side incoming = Sell then bids else asks) of
        Inl e \<Rightarrow> Inl e
      | Inr w \<Rightarrow>
        (let inc = wk_In w;
             asks1 = (if ord_Side inc = Buy then wk_Kept w else asks);
             bids1 = (if ord_Side inc = Buy then bids else wk_Kept w);
             rests = (ord_Kind inc = Limit \<and> Order_Remaining inc > 0);
             bids2 = (if rests \<and> ord_Side inc = Buy then sortedSide (bids1 @ [inc]) Buy else bids1);
             asks2 = (if rests \<and> ord_Side inc \<noteq> Buy then sortedSide (asks1 @ [inc]) Sell else asks1)
         in Inr \<lparr>res_Trades = wk_Trades w, res_Incoming = inc, res_Rests = rests,
                res_Updated = wk_Updated w, res_Removed = removed2 @ wk_Removed w,
                res_Book = \<lparr>bk_Asset = bk_Asset bk, bk_Bids = bids2, bk_Asks = asks2\<rparr>\<rparr>))"

definition Match :: "book \<Rightarrow> order \<Rightarrow> go_time \<Rightarrow> market_error + match_result" where
  "Match bk incoming now =
     (case Match_guard bk incoming now of Some e \<Rightarrow> Inl e
      | None \<Rightarrow> (case Match_core bk incoming now of Inl e \<Rightarrow> Inl e
        | Inr res \<Rightarrow> (case Verify bk incoming now res of Some e \<Rightarrow> Inl e | None \<Rightarrow> Inr res)))"

section \<open>One step of the walk\<close>

lemma fill_by_simps [simp]:
  "ord_ID (fill_by o1 q) = ord_ID o1" "ord_Side (fill_by o1 q) = ord_Side o1"
  "ord_Kind (fill_by o1 q) = ord_Kind o1" "ord_Owner (fill_by o1 q) = ord_Owner o1"
  "ord_UnitPrice (fill_by o1 q) = ord_UnitPrice o1" "ord_Quantity (fill_by o1 q) = ord_Quantity o1"
  "Order_Expired (fill_by o1 q) now = Order_Expired o1 now"
  "Order_acceptsPrice (fill_by o1 q) p = Order_acceptsPrice o1 p"
  by (simp_all add: fill_by_def)

lemma fill_by_ok:
  assumes "order_ok o1" "0 \<le> q" "q \<le> Order_Remaining o1"
  shows "order_ok (fill_by o1 q)" "ord_Filled (fill_by o1 q) = ord_Filled o1 + q"
    "Order_Remaining (fill_by o1 q) = Order_Remaining o1 - q"
    "fill_by o1 q = o1\<lparr>ord_Filled := ord_Filled o1 + q\<rparr>"
proof -
  show eq: "fill_by o1 q = o1\<lparr>ord_Filled := ord_Filled o1 + q\<rparr>"
    using order_ok_fill [OF assms] by (simp add: fill_by_def)
  show ok: "order_ok (fill_by o1 q)" using order_ok_fill [OF assms] by (simp add: eq)
  show "ord_Filled (fill_by o1 q) = ord_Filled o1 + q" by (simp add: eq)
  show "Order_Remaining (fill_by o1 q) = Order_Remaining o1 - q"
    using Order_Remaining_eq [OF ok] Order_Remaining_eq [OF assms(1)] by (simp add: eq)
qed

definition opposite_side :: "order \<Rightarrow> order list \<Rightarrow> go_time \<Rightarrow> bool" where
  "opposite_side inc opp now \<longleftrightarrow> order_ok inc \<and>
     (\<forall>r\<in>set opp. order_ok r \<and> ord_Side r = Side_Opposite (ord_Side inc) \<and> 0 < Order_Remaining r \<and>
        \<not> Order_Expired r now) \<and>
     distinct (map ord_ID opp)"

text \<open>A trade's product never overflows: it is bounded by the buy side's escrow.\<close>

lemma trade_fits:
  assumes "order_ok inc" "order_ok r" "ord_Side r = Side_Opposite (ord_Side inc)"
    and "Order_acceptsPrice inc (ord_UnitPrice r)"
    and "0 \<le> q" "q \<le> Order_Remaining inc" "q \<le> Order_Remaining r"
  shows "mulQtyPrice q (ord_UnitPrice r) = Inr (FromMinor (q * Minor (ord_UnitPrice r)))"
proof -
  let ?p = "Minor (ord_UnitPrice r)"
  have p: "0 \<le> ?p" using assms by (simp add: order_ok_def)
  have "q * ?p \<le> MaxInt64"
  proof (cases "ord_Side inc = Buy")
    case True
    then have "q \<le> ord_Quantity inc" "?p \<le> Minor (ord_UnitPrice inc)"
      using assms by (auto simp: Order_acceptsPrice_def Order_Remaining_eq order_ok_def)
    then have "q * ?p \<le> ord_Quantity inc * Minor (ord_UnitPrice inc)"
      using p assms(1,5) by (intro mult_mono) (auto simp: order_ok_def)
    with True assms(1) show ?thesis by (auto simp: order_ok_def)
  next
    case False
    then have "ord_Side r = Buy" using assms by (simp add: Side_Opposite_def)
    moreover have "q * ?p \<le> ord_Quantity r * ?p"
      using assms p by (intro mult_right_mono) (auto simp: Order_Remaining_eq order_ok_def)
    ultimately show ?thesis using assms(2) by (auto simp: order_ok_def)
  qed
  with assms p show ?thesis by (simp add: mulQtyPrice_eq)
qed

text \<open>The step that trades, as one equation.\<close>

lemma match_walk_trade:
  assumes "opposite_side inc (r # rest) now" "0 < Order_Remaining inc"
    and "Order_acceptsPrice inc (ord_UnitPrice r)" "ord_Owner r \<noteq> ord_Owner inc"
  defines "q \<equiv> min (Order_Remaining inc) (Order_Remaining r)"
  shows "match_walk key now inc (r # rest) =
    (case match_walk key now (fill_by inc q) rest of Inl e \<Rightarrow> Inl e
     | Inr w \<Rightarrow> Inr (walk_fill
         (trade_of key now inc r q (FromMinor (q * Minor (ord_UnitPrice r)))) (fill_by r q) w))"
proof -
  have "mulQtyPrice q (ord_UnitPrice r) = Inr (FromMinor (q * Minor (ord_UnitPrice r)))"
    using assms by (intro trade_fits [of inc]) (auto simp: opposite_side_def q_def)
  with assms show ?thesis by (simp add: q_def [symmetric] Let_def)
qed

lemma opposite_side_tail: "opposite_side inc (r # rest) now \<Longrightarrow> opposite_side inc rest now"
  by (simp add: opposite_side_def)

lemma opposite_side_fill:
  assumes "opposite_side inc (r # rest) now" "0 \<le> q" "q \<le> Order_Remaining inc"
  shows "opposite_side (fill_by inc q) rest now"
  using assms fill_by_ok [of inc q] by (simp add: opposite_side_def)

section \<open>What a walk does\<close>

text \<open>The orders a walk leaves behind: removed ones and those still on the side.\<close>

definition walk_final :: "walk \<Rightarrow> order list" where
  "walk_final w = map rm_Order (wk_Removed w) @ wk_Kept w"

definition good_trade :: "asset_key \<Rightarrow> order \<Rightarrow> order list \<Rightarrow> trade \<Rightarrow> bool" where
  "good_trade key inc opp t \<longleftrightarrow>
     (\<exists>r\<in>set opp. \<exists>q>0. t = trade_of key (tr_ExecutedAt t) inc r q (FromMinor (q * Minor (ord_UnitPrice r))) \<and>
        mulQtyPrice q (ord_UnitPrice r) = Inr (FromMinor (q * Minor (ord_UnitPrice r))) \<and>
        ord_Owner r \<noteq> ord_Owner inc \<and> Order_acceptsPrice inc (ord_UnitPrice r))"

definition reason_ok :: "order \<Rightarrow> trade list \<Rightarrow> removal \<Rightarrow> bool" where
  "reason_ok inc ts rm \<longleftrightarrow>
     (rm_Reason rm = RemovedFilled \<and> Order_Remaining (rm_Order rm) = 0) \<or>
     (rm_Reason rm = RemovedSelfTrade \<and> ord_Owner (rm_Order rm) = ord_Owner inc \<and>
      traded_by (ord_Side inc) ts (ord_ID (rm_Order rm)) = 0)"

definition walk_ok :: "asset_key \<Rightarrow> order \<Rightarrow> order list \<Rightarrow> walk \<Rightarrow> bool" where
  "walk_ok key inc opp w \<longleftrightarrow>
     mset (map ord_ID (walk_final w)) = mset (map ord_ID opp) \<and>
     (\<forall>o2\<in>set (walk_final w). \<exists>o1\<in>set opp. order_ok o2 \<and>
        o2 = o1\<lparr>ord_Filled := ord_Filled o1 + traded_by (ord_Side inc) (wk_Trades w) (ord_ID o1)\<rparr>) \<and>
     (\<forall>t\<in>set (wk_Trades w). good_trade key inc opp t) \<and>
     order_ok (wk_In w) \<and> wk_In w = inc\<lparr>ord_Filled := ord_Filled inc + traded_total (wk_Trades w)\<rparr> \<and>
     (\<forall>rm\<in>set (wk_Removed w). reason_ok inc (wk_Trades w) rm) \<and>
     (\<forall>o2\<in>set (wk_Kept w). 0 < Order_Remaining o2) \<and>
     set (wk_Updated w) \<subseteq> set (wk_Kept w)"

lemma trade_of_simps [simp]:
  "tr_Quantity (trade_of key now inc r q n) = q" "tr_ExecutedAt (trade_of key now inc r q n) = now"
  "tr_Asset (trade_of key now inc r q n) = key" "tr_UnitPrice (trade_of key now inc r q n) = ord_UnitPrice r"
  "tr_Notional (trade_of key now inc r q n) = n" "tr_Aggressor (trade_of key now inc r q n) = ord_Side inc"
  "trade_of key now (fill_by inc p) r q n = trade_of key now inc r q n"
  by (simp_all add: trade_of_def)

lemma resting_id_trade_of [simp]:
  "ord_Side inc \<in> {Buy, Sell} \<Longrightarrow> resting_id (ord_Side inc) (trade_of key now inc r q n) = ord_ID r"
  by (auto simp: trade_of_def resting_id_def)

lemma good_trade_fill [simp]: "good_trade key (fill_by inc q) opp t = good_trade key inc opp t"
  by (simp add: good_trade_def)

lemma good_trade_resting:
  "ord_Side inc \<in> {Buy, Sell} \<Longrightarrow> good_trade key inc opp t \<Longrightarrow>
    resting_id (ord_Side inc) t \<in> ord_ID ` set opp \<and> 0 < tr_Quantity t"
  unfolding good_trade_def by (metis imageI resting_id_trade_of trade_of_simps(1))

lemma good_trade_tail: "good_trade key inc rest t \<Longrightarrow> good_trade key inc (r # rest) t"
  by (auto simp: good_trade_def)

lemma traded_by_absent:
  "ord_Side inc \<in> {Buy, Sell} \<Longrightarrow> \<forall>t\<in>set ts. good_trade key inc opp t \<Longrightarrow> i \<notin> ord_ID ` set opp \<Longrightarrow>
    traded_by (ord_Side inc) ts i = 0"
proof (induction ts)
  case Nil
  then show ?case by simp
next
  case (Cons t ts)
  then have "resting_id (ord_Side inc) t \<noteq> i"
    using good_trade_resting [OF Cons.prems(1), of key opp t] by auto
  with Cons show ?case by simp
qed

lemma order_same_fill [simp]: "o1\<lparr>ord_Filled := ord_Filled o1\<rparr> = o1"
  by simp

lemma walk_ok_stop:
  assumes "opposite_side inc opp now"
  shows "walk_ok key inc opp \<lparr>wk_In = inc, wk_Trades = [], wk_Updated = [], wk_Removed = [], wk_Kept = opp\<rparr>"
  using assms by (auto simp: walk_ok_def walk_final_def opposite_side_def)

lemma walk_ok_skip:
  assumes opp: "opposite_side inc (r # rest) now" and w: "walk_ok key inc rest w"
    and own: "ord_Owner r = ord_Owner inc"
  shows "walk_ok key inc (r # rest)
    (w\<lparr>wk_Removed := \<lparr>rm_Order = r, rm_Reason = RemovedSelfTrade\<rparr> # wk_Removed w\<rparr>)"
proof -
  have side: "ord_Side inc \<in> {Buy, Sell}" using opp by (auto simp: opposite_side_def order_ok_def)
  have "ord_ID r \<notin> ord_ID ` set rest" using opp by (simp add: opposite_side_def)
  with side w have z: "traded_by (ord_Side inc) (wk_Trades w) (ord_ID r) = 0"
    by (intro traded_by_absent) (auto simp: walk_ok_def)
  have "order_ok r" using opp by (simp add: opposite_side_def)
  with w z own show ?thesis
    by (auto simp: walk_ok_def walk_final_def reason_ok_def intro: good_trade_tail)
qed

text \<open>The trades of the rest of the walk leave the order just filled alone.\<close>

lemma walk_ok_fill:
  assumes opp: "opposite_side inc (r # rest) now" and w: "walk_ok key (fill_by inc q) rest w"
    and q: "0 < q" "q \<le> Order_Remaining inc" "q \<le> Order_Remaining r"
    and acc: "Order_acceptsPrice inc (ord_UnitPrice r)" and own: "ord_Owner r \<noteq> ord_Owner inc"
  defines "t \<equiv> trade_of key now inc r q (FromMinor (q * Minor (ord_UnitPrice r)))"
  shows "walk_ok key inc (r # rest) (walk_fill t (fill_by r q) w)"
proof -
  have side: "ord_Side inc \<in> {Buy, Sell}" and okr: "order_ok r" and oki: "order_ok inc"
    and new: "ord_ID r \<notin> ord_ID ` set rest"
    using opp by (auto simp: opposite_side_def order_ok_def)
  let ?s = "ord_Side inc"
  have rid: "resting_id ?s t = ord_ID r" using side by (simp add: t_def)
  have tq: "tr_Quantity t = q" by (simp add: t_def)
  have fr: "order_ok (fill_by r q)" "fill_by r q = r\<lparr>ord_Filled := ord_Filled r + q\<rparr>"
    "Order_Remaining (fill_by r q) = Order_Remaining r - q"
    using fill_by_ok [OF okr, of q] q by simp_all
  have fi: "ord_Filled (fill_by inc q) = ord_Filled inc + q"
    "fill_by inc q = inc\<lparr>ord_Filled := ord_Filled inc + q\<rparr>"
    using fill_by_ok [OF oki, of q] q by simp_all
  have wt: "\<forall>t\<in>set (wk_Trades w). good_trade key inc rest t" using w by (simp add: walk_ok_def)
  have zero: "traded_by ?s (wk_Trades w) (ord_ID r) = 0"
    using traded_by_absent [OF side wt new] .
  have keep: "traded_by ?s (t # wk_Trades w) (ord_ID o1) = traded_by ?s (wk_Trades w) (ord_ID o1)"
    if "o1 \<in> set rest" for o1
    using that new rid by auto
  have gt: "good_trade key inc (r # rest) t"
    using opp q acc own trade_fits [OF oki okr _ acc, of q]
    by (auto simp: good_trade_def t_def opposite_side_def intro!: exI [of _ q])
  have fin: "\<forall>o2\<in>set (walk_final w). \<exists>o1\<in>set (r # rest). order_ok o2 \<and>
      o2 = o1\<lparr>ord_Filled := ord_Filled o1 + traded_by ?s (t # wk_Trades w) (ord_ID o1)\<rparr>"
  proof
    fix o2 assume "o2 \<in> set (walk_final w)"
    then obtain o1 where "o1 \<in> set rest" "order_ok o2"
      "o2 = o1\<lparr>ord_Filled := ord_Filled o1 + traded_by ?s (wk_Trades w) (ord_ID o1)\<rparr>"
      using w unfolding walk_ok_def by fastforce
    with keep show "\<exists>o1\<in>set (r # rest). order_ok o2 \<and>
      o2 = o1\<lparr>ord_Filled := ord_Filled o1 + traded_by ?s (t # wk_Trades w) (ord_ID o1)\<rparr>"
      by (metis list.set_intros(2))
  qed
  have here: "order_ok (fill_by r q) \<and>
      fill_by r q = r\<lparr>ord_Filled := ord_Filled r + traded_by ?s (t # wk_Trades w) (ord_ID r)\<rparr>"
    using fr rid tq zero by simp
  have inn: "wk_In w = inc\<lparr>ord_Filled := ord_Filled inc + traded_total (t # wk_Trades w)\<rparr>"
    using w tq unfolding walk_ok_def by (simp only: fi) (simp add: add.assoc)
  have oin: "order_ok (wk_In w)" using w unfolding walk_ok_def by blast
  have rs: "\<forall>rm\<in>set (wk_Removed w). reason_ok inc (t # wk_Trades w) rm"
  proof
    fix rm assume rm: "rm \<in> set (wk_Removed w)"
    then have "reason_ok inc (wk_Trades w) rm" using w by (auto simp: walk_ok_def reason_ok_def)
    moreover have "ord_ID (rm_Order rm) \<in> ord_ID ` set rest"
      using rm w mset_eq_setD [of "map ord_ID (walk_final w)" "map ord_ID rest"]
      by (auto simp: walk_ok_def walk_final_def)
    ultimately show "reason_ok inc (t # wk_Trades w) rm"
      using rid new by (auto simp: reason_ok_def)
  qed
  have tr: "\<forall>t'\<in>set (t # wk_Trades w). good_trade key inc (r # rest) t'"
    using gt wt by (auto intro: good_trade_tail)
  define W where "W = walk_fill t (fill_by r q) w"
  have W: "wk_In W = wk_In w" "wk_Trades W = t # wk_Trades w"
    "mset (map ord_ID (walk_final W)) = add_mset (ord_ID r) (mset (map ord_ID (walk_final w)))"
    "set (walk_final W) = insert (fill_by r q) (set (walk_final w))"
    by (simp_all add: W_def walk_fill_def walk_final_def)
  have final: "\<forall>o2\<in>set (walk_final W). \<exists>o1\<in>set (r # rest). order_ok o2 \<and>
      o2 = o1\<lparr>ord_Filled := ord_Filled o1 + traded_by ?s (wk_Trades W) (ord_ID o1)\<rparr>"
    unfolding W using fin here by (metis insert_iff list.set_intros(1))
  have removed: "\<forall>rm\<in>set (wk_Removed W). reason_ok inc (wk_Trades W) rm"
    unfolding W(2) using rs by (auto simp: W_def walk_fill_def reason_ok_def)
  have "\<forall>o2\<in>set (wk_Kept w). 0 < Order_Remaining o2" "set (wk_Updated w) \<subseteq> set (wk_Kept w)"
    using w by (auto simp: walk_ok_def)
  then have kept: "\<forall>o2\<in>set (wk_Kept W). 0 < Order_Remaining o2" "set (wk_Updated W) \<subseteq> set (wk_Kept W)"
    using fr(3) q(3) by (auto simp: W_def walk_fill_def)
  have ids: "mset (map ord_ID (walk_final W)) = mset (map ord_ID (r # rest))"
    unfolding W(3) using w by (simp add: walk_ok_def)
  have trades: "\<forall>t'\<in>set (wk_Trades W). good_trade key inc (r # rest) t'"
    unfolding W(2) by (rule tr)
  have "walk_ok key inc (r # rest) W"
    unfolding walk_ok_def
    using ids final trades removed kept inn oin by (simp only: W(1,2) simp_thms)
  then show ?thesis by (simp only: W_def)
qed

text \<open>A walk over a valid side succeeds, and does what \<open>walk_ok\<close> says.\<close>

lemma match_walk_ok:
  "opposite_side inc opp now \<Longrightarrow> \<exists>w. match_walk key now inc opp = Inr w \<and> walk_ok key inc opp w"
proof (induction opp arbitrary: inc)
  case Nil
  then show ?case using walk_ok_stop [of inc "[]" now key] by simp
next
  case (Cons r rest)
  show ?case
  proof (cases "Order_Remaining inc > 0 \<and> Order_acceptsPrice inc (ord_UnitPrice r)")
    case False
    then show ?thesis using walk_ok_stop [OF Cons.prems, of key] by auto
  next
    case go: True
    show ?thesis
    proof (cases "ord_Owner r = ord_Owner inc")
      case True
      from Cons.IH [OF opposite_side_tail [OF Cons.prems]]
      obtain w where "match_walk key now inc rest = Inr w" "walk_ok key inc rest w" by blast
      with go True walk_ok_skip [OF Cons.prems _ True, of key w] show ?thesis by simp
    next
      case False
      define q where "q = min (Order_Remaining inc) (Order_Remaining r)"
      have q: "0 < q" "q \<le> Order_Remaining inc" "q \<le> Order_Remaining r"
        using go Cons.prems by (auto simp: q_def opposite_side_def)
      then have "opposite_side (fill_by inc q) rest now"
        using opposite_side_fill [OF Cons.prems, of q] by simp
      from Cons.IH [OF this] obtain w where w:
        "match_walk key now (fill_by inc q) rest = Inr w" "walk_ok key (fill_by inc q) rest w" by blast
      from walk_ok_fill [OF Cons.prems w(2) q _ False] go
        match_walk_trade [OF Cons.prems _ _ False, of key] w(1)
      show ?thesis by (simp add: q_def [symmetric] Let_def)
    qed
  qed
qed

end
