(* ===== verification/Market_Walk.thy ===== *)
theory Market_Walk
  imports Market_Match
begin

text \<open>
  What a walk achieves on a side in priority order: it stops only where the incoming order is
  filled or no acceptable order is left, it trades as much as it can, and it fills the orders in
  the order of the queue. \<open>walk_induct\<close> is the induction all of them use: the cases of the loop
  (stop, self-trade, trade) with the facts the validated side gives.
\<close>

definition acceptable :: "order \<Rightarrow> order \<Rightarrow> bool" where
  "acceptable inc r \<longleftrightarrow> Order_acceptsPrice inc (ord_UnitPrice r)"

text \<open>In priority order, an order behind a refused one is refused too.\<close>

definition in_priority :: "order \<Rightarrow> order list \<Rightarrow> bool" where
  "in_priority inc opp \<longleftrightarrow> sorted_wrt (\<lambda>x y. acceptable inc y \<longrightarrow> acceptable inc x) opp"

lemma acceptable_fill [simp]: "acceptable (fill_by inc q) r = acceptable inc r"
  by (simp add: acceptable_def)

lemma in_priority_fill [simp]: "in_priority (fill_by inc q) opp = in_priority inc opp"
  by (simp add: in_priority_def)

lemma in_priority_live_side:
  assumes "ord_Side inc \<in> {Buy, Sell}" "s = Side_Opposite (ord_Side inc)"
  shows "in_priority inc (live_side os s now)"
  unfolding in_priority_def live_side_def
  by (rule sorted_wrt_filter, rule sorted_wrt_mono_rel [OF _ sortedSide_prices])
    (use assms in \<open>auto simp: acceptable_def Order_acceptsPrice_def Side_Opposite_def split: if_splits\<close>)

lemma walk_exhausted:
  "match_walk key now inc opp = Inr w \<Longrightarrow> \<not> 0 < Order_Remaining inc \<Longrightarrow> wk_In w = inc \<and> wk_Trades w = []"
  by (cases opp) auto

lemma walk_fill_In: "wk_In (walk_fill t r' w) = wk_In w"
  and walk_fill_Trades: "wk_Trades (walk_fill t r' w) = t # wk_Trades w"
  by (simp_all add: walk_fill_def)

text \<open>Induction over a successful walk of a valid side.\<close>

lemma walk_induct [consumes 2, case_names stop skip trade]:
  assumes "match_walk key now inc opp = Inr w" "opposite_side inc opp now"
    and stop: "\<And>inc opp. opposite_side inc opp now \<Longrightarrow>
      opp = [] \<or> \<not> 0 < Order_Remaining inc \<or> \<not> acceptable inc (hd opp) \<Longrightarrow>
      P inc opp \<lparr>wk_In = inc, wk_Trades = [], wk_Updated = [], wk_Removed = [], wk_Kept = opp\<rparr>"
    and skip: "\<And>inc r rest w. opposite_side inc (r # rest) now \<Longrightarrow> 0 < Order_Remaining inc \<Longrightarrow>
      acceptable inc r \<Longrightarrow> ord_Owner r = ord_Owner inc \<Longrightarrow> walk_ok key inc rest w \<Longrightarrow> P inc rest w \<Longrightarrow>
      P inc (r # rest) (w\<lparr>wk_Removed := \<lparr>rm_Order = r, rm_Reason = RemovedSelfTrade\<rparr> # wk_Removed w\<rparr>)"
    and trade: "\<And>inc r rest w q t. opposite_side inc (r # rest) now \<Longrightarrow> 0 < Order_Remaining inc \<Longrightarrow>
      acceptable inc r \<Longrightarrow> ord_Owner r \<noteq> ord_Owner inc \<Longrightarrow>
      q = min (Order_Remaining inc) (Order_Remaining r) \<Longrightarrow> 0 < q \<Longrightarrow>
      t = trade_of key now inc r q (FromMinor (q * Minor (ord_UnitPrice r))) \<Longrightarrow>
      match_walk key now (fill_by inc q) rest = Inr w \<Longrightarrow>
      walk_ok key (fill_by inc q) rest w \<Longrightarrow> P (fill_by inc q) rest w \<Longrightarrow>
      P inc (r # rest) (walk_fill t (fill_by r q) w)"
  shows "P inc opp w"
  using assms(1,2)
proof (induction opp arbitrary: inc w)
  case Nil
  then show ?case using stop [of inc "[]"] by simp
next
  case (Cons r rest)
  show ?case
  proof (cases "0 < Order_Remaining inc \<and> acceptable inc r")
    case False
    then show ?thesis using stop [OF Cons.prems(2)] Cons.prems(1) by (auto simp: acceptable_def)
  next
    case go: True
    show ?thesis
    proof (cases "ord_Owner r = ord_Owner inc")
      case True
      with Cons.prems go obtain w' where w': "match_walk key now inc rest = Inr w'"
        "w = w'\<lparr>wk_Removed := \<lparr>rm_Order = r, rm_Reason = RemovedSelfTrade\<rparr> # wk_Removed w'\<rparr>"
        by (auto simp: acceptable_def split: sum.splits)
      have o': "opposite_side inc rest now" using Cons.prems(2) by (rule opposite_side_tail)
      with w' match_walk_ok [of inc rest now key] have "walk_ok key inc rest w'" by auto
      with w' True go Cons.prems(2) Cons.IH [OF w'(1) o'] show ?thesis by (auto intro: skip)
    next
      case False
      define q where "q = min (Order_Remaining inc) (Order_Remaining r)"
      have q: "0 < q" "q \<le> Order_Remaining inc"
        using go Cons.prems(2) by (auto simp: q_def opposite_side_def)
      have o': "opposite_side (fill_by inc q) rest now"
        using opposite_side_fill [OF Cons.prems(2), of q] q by simp
      from match_walk_trade [OF Cons.prems(2) _ _ False, of key] go Cons.prems(1)
      obtain w' where w': "match_walk key now (fill_by inc q) rest = Inr w'"
        "w = walk_fill (trade_of key now inc r q (FromMinor (q * Minor (ord_UnitPrice r)))) (fill_by r q) w'"
        by (auto simp: q_def [symmetric] acceptable_def split: sum.splits)
      have "walk_ok key (fill_by inc q) rest w'" using o' w' match_walk_ok [of _ rest now key] by fastforce
      from trade [OF Cons.prems(2) _ _ False q_def q(1) refl w'(1) this Cons.IH [OF w'(1) o']] go w'(2)
      show ?thesis by simp
    qed
  qed
qed

section \<open>Where a walk stops\<close>

lemma walk_stops_uncrossed:
  assumes "match_walk key now inc opp = Inr w" "opposite_side inc opp now" "in_priority inc opp"
    and "0 < Order_Remaining (wk_In w)"
  shows "\<forall>o2\<in>set (wk_Kept w). \<not> acceptable inc o2"
  using assms
proof (induction rule: walk_induct)
  case (stop inc opp)
  then show ?case by (cases opp) (auto simp: in_priority_def)
next
  case (skip inc r rest w)
  have "in_priority inc rest" using skip.prems(1) by (simp add: in_priority_def)
  with skip.IH skip.prems(2) show ?case by simp
next
  case (trade inc r rest w q t)
  have ok: "order_ok inc" "order_ok r" using trade.hyps(1) by (simp_all add: opposite_side_def)
  have "Order_Remaining (fill_by r q) = 0"
  proof (rule ccontr)
    assume "Order_Remaining (fill_by r q) \<noteq> 0"
    moreover have "Order_Remaining (fill_by r q) = Order_Remaining r - q"
      "Order_Remaining (fill_by inc q) = Order_Remaining inc - q"
      using trade.hyps(5,6) fill_by_ok(3) [OF ok(1)] fill_by_ok(3) [OF ok(2)] by simp_all
    ultimately have ex: "\<not> 0 < Order_Remaining (fill_by inc q)" using trade.hyps(5) by linarith
    from walk_exhausted [OF trade.hyps(8) ex] have "wk_In w = fill_by inc q" by blast
    with ex have "\<not> 0 < Order_Remaining (wk_In w)" by simp
    moreover have "0 < Order_Remaining (wk_In w)"
      using trade.prems(2) by (simp only: walk_fill_In)
    ultimately show False by simp
  qed
  then have "wk_Kept (walk_fill t (fill_by r q) w) = wk_Kept w" by (simp add: walk_fill_def)
  moreover have "in_priority (fill_by inc q) rest" using trade.prems(1) by (simp add: in_priority_def)
  moreover have "0 < Order_Remaining (wk_In w)" using trade.prems(2) by (simp only: walk_fill_In)
  ultimately show ?case using trade.IH by simp
qed

text \<open>The walk trades as much as the incoming order wants and the acceptable orders of other
  owners offer.\<close>

definition offered :: "order \<Rightarrow> order list \<Rightarrow> int" where
  "offered inc opp =
     (\<Sum>r\<leftarrow>filter (\<lambda>r. acceptable inc r \<and> ord_Owner r \<noteq> ord_Owner inc) opp. Order_Remaining r)"

lemma offered_nonneg: "opposite_side inc opp now \<Longrightarrow> 0 \<le> offered inc opp"
  unfolding offered_def by (rule sum_list_nonneg) (auto simp: opposite_side_def)

lemma offered_fill [simp]: "offered (fill_by inc q) opp = offered inc opp"
  by (simp add: offered_def)

lemma walk_maximal:
  assumes "match_walk key now inc opp = Inr w" "opposite_side inc opp now" "in_priority inc opp"
    and "0 \<le> Order_Remaining inc"
  shows "traded_total (wk_Trades w) = min (Order_Remaining inc) (offered inc opp)"
  using assms
proof (induction rule: walk_induct)
  case (stop inc opp)
  show ?case
  proof (cases "Order_Remaining inc = 0")
    case True
    then show ?thesis using offered_nonneg [OF stop.hyps(1)] by simp
  next
    case False
    with stop have "opp = [] \<or> \<not> acceptable inc (hd opp)" by auto
    with stop.prems(1) have "filter (\<lambda>r. acceptable inc r \<and> ord_Owner r \<noteq> ord_Owner inc) opp = []"
      by (cases opp) (auto simp: in_priority_def filter_empty_conv)
    with stop.prems(2) show ?thesis by (simp add: offered_def)
  qed
next
  case (skip inc r rest w)
  then show ?case by (simp add: in_priority_def offered_def)
next
  case (trade inc r rest w q t)
  have ok: "order_ok inc" using trade.hyps(1) by (simp add: opposite_side_def)
  have "traded_total (wk_Trades w) = min (Order_Remaining inc - q) (offered inc rest)"
    using trade.IH trade.prems trade.hyps(5,6) fill_by_ok(3) [OF ok, of q] by (simp add: in_priority_def)
  moreover have "offered inc (r # rest) = Order_Remaining r + offered inc rest"
    using trade by (simp add: offered_def)
  moreover have "traded_total (wk_Trades (walk_fill t (fill_by r q) w)) = q + traded_total (wk_Trades w)"
    using trade by (simp add: walk_fill_def)
  moreover have "0 \<le> offered inc rest"
    using trade offered_nonneg opposite_side_tail by blast
  ultimately show ?case using trade.hyps(5) by (auto simp: min_def)
qed

text \<open>The queue: an order trades only when every order of another owner before it is used up.\<close>

lemma walk_priority:
  assumes "match_walk key now inc opp = Inr w" "opposite_side inc opp now"
  shows "sorted_wrt (\<lambda>r1 r2. 0 < traded_by (ord_Side inc) (wk_Trades w) (ord_ID r2) \<and> ord_Owner r1 \<noteq> ord_Owner inc \<longrightarrow>
      traded_by (ord_Side inc) (wk_Trades w) (ord_ID r1) = Order_Remaining r1) opp"
  using assms
proof (induction rule: walk_induct)
  case (stop inc opp)
  then show ?case by (induction opp) (auto simp: opposite_side_def)
next
  case (skip inc r rest w)
  then show ?case by simp
next
  case (trade inc r rest w q t)
  have side: "ord_Side inc \<in> {Buy, Sell}" and new: "ord_ID r \<notin> ord_ID ` set rest"
    and ok: "order_ok inc" using trade.hyps(1) by (auto simp: opposite_side_def order_ok_def)
  have rid: "resting_id (ord_Side inc) t = ord_ID r" "tr_Quantity t = q" using side trade.hyps by simp_all
  have ts: "wk_Trades (walk_fill t (fill_by r q) w) = t # wk_Trades w" by (simp add: walk_fill_def)
  have z: "traded_by (ord_Side inc) (wk_Trades w) (ord_ID r) = 0"
    using traded_by_absent [of inc "wk_Trades w" key rest] side new trade.hyps by (simp add: walk_ok_def)
  have other: "ord_ID r2 \<noteq> ord_ID r" if "r2 \<in> set rest" for r2 using that new by (metis imageI)
  have keep: "traded_by (ord_Side inc) (t # wk_Trades w) (ord_ID x) = traded_by (ord_Side inc) (wk_Trades w) (ord_ID x)"
    if "x \<in> set rest" for x
    using other [OF that] rid by simp
  have head: "q = Order_Remaining r" if "r2 \<in> set rest" "0 < traded_by (ord_Side inc) (wk_Trades w) (ord_ID r2)" for r2
  proof (rule ccontr)
    assume "q \<noteq> Order_Remaining r"
    then have "\<not> 0 < Order_Remaining (fill_by inc q)"
      using trade.hyps(5,6) ok by (simp add: fill_by_ok(3) min_def split: if_splits)
    from walk_exhausted [OF trade.hyps(8) this] that(2) show False by simp
  qed
  have "sorted_wrt (\<lambda>r1 r2. 0 < traded_by (ord_Side inc) (t # wk_Trades w) (ord_ID r2) \<and> ord_Owner r1 \<noteq> ord_Owner inc \<longrightarrow>
      traded_by (ord_Side inc) (t # wk_Trades w) (ord_ID r1) = Order_Remaining r1) rest"
    by (rule sorted_wrt_mono_rel [OF _ trade.IH [simplified]]) (simp add: keep del: traded_by_simps)
  then show ?case unfolding ts using other rid z head by fastforce
qed

end
