(* ===== verification/Market_Correct.thy ===== *)
theory Market_Correct
  imports Market_Walk
begin

text \<open>
  Matching and its checker together: for every book and order the guard lets through, \<open>Match_core\<close>
  succeeds (\<open>Match_core_eq\<close> gives its result in closed form) and \<open>Verify\<close> accepts that result
  (\<open>Match_core_verified\<close>), so \<open>Match\<close> fails exactly where its guard does.
\<close>

section \<open>The input of a match\<close>

definition match_input :: "book \<Rightarrow> order \<Rightarrow> go_time \<Rightarrow> bool" where
  "match_input bk inc now \<longleftrightarrow> Match_guard bk inc now = None \<and> order_in64 inc \<and>
     (\<forall>o1\<in>set (bk_Bids bk @ bk_Asks bk). order_in64 o1)"

definition own_live :: "book \<Rightarrow> order \<Rightarrow> go_time \<Rightarrow> order list" where
  "own_live bk inc now = (if ord_Side inc = Sell then live_side (bk_Asks bk) Sell now else live_side (bk_Bids bk) Buy now)"

definition opp_live :: "book \<Rightarrow> order \<Rightarrow> go_time \<Rightarrow> order list" where
  "opp_live bk inc now = (if ord_Side inc = Sell then live_side (bk_Bids bk) Buy now else live_side (bk_Asks bk) Sell now)"

definition expired_of :: "book \<Rightarrow> go_time \<Rightarrow> order list" where
  "expired_of bk now = filter (\<lambda>o1. Order_Expired o1 now) (sortedSide (bk_Bids bk) Buy) @
     filter (\<lambda>o1. Order_Expired o1 now) (sortedSide (bk_Asks bk) Sell)"

lemma match_inputD:
  assumes "match_input bk inc now"
  shows "order_ok inc" "ord_Side inc = Buy \<or> ord_Side inc = Sell" "0 < Order_Remaining inc"
    "distinct (map ord_ID (bk_Bids bk @ bk_Asks bk))" "ord_ID inc \<notin> ord_ID ` set (bk_Bids bk @ bk_Asks bk)"
    "\<forall>o1\<in>set (bk_Bids bk @ bk_Asks bk). order_ok o1 \<and> 0 < Order_Remaining o1"
    "\<forall>o1\<in>set (bk_Bids bk). ord_Side o1 = Buy" "\<forall>o1\<in>set (bk_Asks bk). ord_Side o1 = Sell"
    "\<not> Order_Expired inc now"
proof -
  have g: "Order_Validate inc = None" "Book_Validate bk = None" "Order_Remaining inc \<noteq> 0" "\<not> Order_Expired inc now"
    "\<forall>r\<in>set (bk_Bids bk @ bk_Asks bk). ord_ID r \<noteq> ord_ID inc"
    using assms by (auto simp: match_input_def Match_guard_def split: option.splits if_splits)
  note b = Book_Validate_None [OF g(2)]
  show ok: "order_ok inc" using g(1) assms by (auto simp: match_input_def intro: Order_Validate_ok)
  then show "ord_Side inc = Buy \<or> ord_Side inc = Sell" by (auto simp: order_ok_def)
  show "0 < Order_Remaining inc" using g(3) ok by (simp add: Order_Remaining_eq) (simp add: order_ok_def)
  show "distinct (map ord_ID (bk_Bids bk @ bk_Asks bk))" using b by blast
  show "ord_ID inc \<notin> ord_ID ` set (bk_Bids bk @ bk_Asks bk)" using g(5) by (metis imageE)
  show "\<forall>o1\<in>set (bk_Bids bk @ bk_Asks bk). order_ok o1 \<and> 0 < Order_Remaining o1"
  proof
    fix o1 assume o1: "o1 \<in> set (bk_Bids bk @ bk_Asks bk)"
    then have "Order_Validate o1 = None" "Order_Remaining o1 \<noteq> 0" "order_in64 o1"
      using b assms by (simp_all add: match_input_def)
    then show "order_ok o1 \<and> 0 < Order_Remaining o1"
      using Order_Validate_ok [of o1] Order_Remaining_eq [of o1] by (auto simp: order_ok_def)
  qed
  show "\<forall>o1\<in>set (bk_Bids bk). ord_Side o1 = Buy" "\<forall>o1\<in>set (bk_Asks bk). ord_Side o1 = Sell"
    using b by simp_all
  show "\<not> Order_Expired inc now" by (rule g(4))
qed

lemma live_side_set: "o1 \<in> set (live_side os s now) \<longleftrightarrow> o1 \<in> set os \<and> \<not> Order_Expired o1 now"
  by (auto simp: live_side_def)

lemma distinct_map_filter_mono: "distinct (map f xs) \<Longrightarrow> distinct (map f (filter P xs))"
  by (induction xs) auto

lemma mset_live_split:
  "mset (live_side os s now) + mset (filter (\<lambda>o1. Order_Expired o1 now) (sortedSide os s)) = mset os"
  by (simp add: live_side_def add.commute flip: multiset_partition)

lemma book_partition:
  "mset (expired_of bk now @ own_live bk inc now @ opp_live bk inc now) = mset (bk_Bids bk @ bk_Asks bk)"
proof -
  have "mset (expired_of bk now @ own_live bk inc now @ opp_live bk inc now) =
    (mset (live_side (bk_Bids bk) Buy now) + mset (filter (\<lambda>o1. Order_Expired o1 now) (sortedSide (bk_Bids bk) Buy))) +
    (mset (live_side (bk_Asks bk) Sell now) + mset (filter (\<lambda>o1. Order_Expired o1 now) (sortedSide (bk_Asks bk) Sell)))"
    by (simp add: expired_of_def own_live_def opp_live_def)
  then show ?thesis by (simp only: mset_live_split mset_append)
qed

lemma opp_live_side:
  assumes "match_input bk inc now"
  shows "opposite_side inc (opp_live bk inc now) now" "in_priority inc (opp_live bk inc now)"
proof -
  note m = match_inputD [OF assms]
  have "distinct (map ord_ID (expired_of bk now @ own_live bk inc now @ opp_live bk inc now))"
    using m(4) distinct_map_mset [OF book_partition [of bk now inc], of ord_ID] by simp
  then show "opposite_side inc (opp_live bk inc now) now"
    using m by (auto simp: opposite_side_def opp_live_def live_side_set Side_Opposite_def)
  show "in_priority inc (opp_live bk inc now)"
    using m(2) by (auto simp: opp_live_def Side_Opposite_def intro!: in_priority_live_side)
qed

section \<open>The result in closed form\<close>

definition result_of :: "book \<Rightarrow> order \<Rightarrow> go_time \<Rightarrow> walk \<Rightarrow> match_result" where
  "result_of bk inc now w =
     (let rests = (ord_Kind inc = Limit \<and> 0 < Order_Remaining (wk_In w));
          own = (if rests then sortedSide (own_live bk inc now @ [wk_In w]) (ord_Side inc) else own_live bk inc now)
      in \<lparr>res_Trades = wk_Trades w, res_Incoming = wk_In w, res_Rests = rests, res_Updated = wk_Updated w,
          res_Removed = map (\<lambda>o1. \<lparr>rm_Order = o1, rm_Reason = RemovedExpired\<rparr>) (expired_of bk now) @ wk_Removed w,
          res_Book = \<lparr>bk_Asset = bk_Asset bk,
            bk_Bids = (if ord_Side inc = Buy then own else wk_Kept w),
            bk_Asks = (if ord_Side inc = Buy then wk_Kept w else own)\<rparr>\<rparr>)"

lemma Match_core_eq:
  assumes "match_input bk inc now"
  obtains w where "match_walk (bk_Asset bk) now inc (opp_live bk inc now) = Inr w"
    "walk_ok (bk_Asset bk) inc (opp_live bk inc now) w"
    "Match_core bk inc now = Inr (result_of bk inc now w)"
proof -
  from match_walk_ok [OF opp_live_side(1) [OF assms], of "bk_Asset bk"]
  obtain w where w: "match_walk (bk_Asset bk) now inc (opp_live bk inc now) = Inr w"
    "walk_ok (bk_Asset bk) inc (opp_live bk inc now) w" by blast
  then have in': "ord_Side (wk_In w) = ord_Side inc" "ord_Kind (wk_In w) = ord_Kind inc"
    unfolding walk_ok_def by (metis order.select_convs order.surjective order.update_convs(6))+
  have "Match_core bk inc now = Inr (result_of bk inc now w)"
    using match_inputD(2) [OF assms] w(1)
    by (auto simp: Match_core_def dropExpired_eq result_of_def expired_of_def own_live_def opp_live_def
        live_side_def [symmetric] in' Let_def)
  with w that show thesis by blast
qed

section \<open>Every resting order is accounted for\<close>

definition final_orders :: "book \<Rightarrow> order \<Rightarrow> go_time \<Rightarrow> walk \<Rightarrow> order list" where
  "final_orders bk inc now w =
     expired_of bk now @ map rm_Order (wk_Removed w) @ own_live bk inc now @ wk_Kept w"

definition book_orig :: "book \<Rightarrow> string \<rightharpoonup> order" where
  "book_orig bk = orig_of (bk_Asks bk) (orig_of (bk_Bids bk) Map.empty)"

lemma orig_of_append: "orig_of (xs @ ys) m = orig_of ys (orig_of xs m)"
  by (induction xs arbitrary: m) auto

lemma book_orig_mem:
  assumes "match_input bk inc now" "o1 \<in> set (bk_Bids bk @ bk_Asks bk)"
  shows "book_orig bk (ord_ID o1) = Some o1"
  using orig_of_mem [OF match_inputD(4) [OF assms(1)] assms(2), of Map.empty]
  by (simp add: book_orig_def orig_of_append)

lemma book_orig_inc:
  assumes "match_input bk inc now"
  shows "book_orig bk (ord_ID inc) = None"
  using match_inputD(5) [OF assms] orig_of_notin [of "ord_ID inc" "bk_Bids bk @ bk_Asks bk" Map.empty]
  by (simp add: book_orig_def orig_of_append)

lemma book_parts_set:
  "set (expired_of bk now) \<union> set (own_live bk inc now) \<union> set (opp_live bk inc now) = set (bk_Bids bk @ bk_Asks bk)"
  using mset_eq_setD [OF book_partition [of bk now inc]] by auto

lemma final_ids:
  assumes "walk_ok key inc (opp_live bk inc now) w"
  shows "mset (map ord_ID (final_orders bk inc now w)) = mset (map ord_ID (bk_Bids bk @ bk_Asks bk))"
proof -
  have "mset (map ord_ID (final_orders bk inc now w)) =
    mset (map ord_ID (expired_of bk now)) + mset (map ord_ID (own_live bk inc now)) + mset (map ord_ID (walk_final w))"
    by (simp add: final_orders_def walk_final_def)
  also have "\<dots> = mset (map ord_ID (expired_of bk now @ own_live bk inc now @ opp_live bk inc now))"
    using assms by (simp add: walk_ok_def)
  also have "\<dots> = image_mset ord_ID (mset (expired_of bk now @ own_live bk inc now @ opp_live bk inc now))"
    by (simp only: mset_map)
  also have "\<dots> = mset (map ord_ID (bk_Bids bk @ bk_Asks bk))"
    by (simp only: book_partition mset_map)
  finally show ?thesis .
qed

lemma final_from:
  assumes m: "match_input bk inc now" and w: "walk_ok key inc (opp_live bk inc now) w"
    and o2: "o2 \<in> set (final_orders bk inc now w)"
  shows "\<exists>o1\<in>set (bk_Bids bk @ bk_Asks bk). order_ok o2 \<and>
    o2 = o1\<lparr>ord_Filled := ord_Filled o1 + traded_by (ord_Side inc) (wk_Trades w) (ord_ID o1)\<rparr>"
proof (cases "o2 \<in> set (walk_final w)")
  case True
  then obtain o1 where "o1 \<in> set (opp_live bk inc now)" "order_ok o2"
    "o2 = o1\<lparr>ord_Filled := ord_Filled o1 + traded_by (ord_Side inc) (wk_Trades w) (ord_ID o1)\<rparr>"
    using w unfolding walk_ok_def by blast
  with book_parts_set [of bk now inc] show ?thesis by blast
next
  case False
  then have in': "o2 \<in> set (expired_of bk now @ own_live bk inc now)"
    using o2 by (auto simp: final_orders_def walk_final_def)
  have "distinct (map ord_ID (expired_of bk now @ own_live bk inc now @ opp_live bk inc now))"
    using match_inputD(4) [OF m] distinct_map_mset [OF book_partition [of bk now inc], of ord_ID] by simp
  with in' have "ord_ID o2 \<notin> ord_ID ` set (opp_live bk inc now)" by auto
  moreover have "ord_Side inc \<in> {Buy, Sell}" using match_inputD(2) [OF m] by auto
  moreover have "\<forall>t\<in>set (wk_Trades w). good_trade key inc (opp_live bk inc now) t"
    using w by (simp add: walk_ok_def)
  ultimately have "traded_by (ord_Side inc) (wk_Trades w) (ord_ID o2) = 0"
    by (intro traded_by_absent)
  moreover have "o2 \<in> set (bk_Bids bk @ bk_Asks bk)" using in' book_parts_set [of bk now inc] by auto
  ultimately show ?thesis using match_inputD(6) [OF m] by (intro bexI [of _ o2]) auto
qed

lemma good_trade_verify:
  assumes m: "match_input bk inc now" and t: "good_trade (bk_Asset bk) inc (opp_live bk inc now) t"
  shows "verify_trade bk inc now (book_orig bk) t = None"
proof -
  from t obtain r q where r: "r \<in> set (opp_live bk inc now)" "0 < q"
    "t = trade_of (bk_Asset bk) (tr_ExecutedAt t) inc r q (FromMinor (q * Minor (ord_UnitPrice r)))"
    "mulQtyPrice q (ord_UnitPrice r) = Inr (FromMinor (q * Minor (ord_UnitPrice r)))"
    "ord_Owner r \<noteq> ord_Owner inc" "Order_acceptsPrice inc (ord_UnitPrice r)"
    unfolding good_trade_def by blast
  have "r \<in> set (bk_Bids bk @ bk_Asks bk)" using r(1) book_parts_set [of bk now inc] by blast
  then have orig: "book_orig bk (ord_ID r) = Some r" by (rule book_orig_mem [OF m])
  have rr: "ord_Side r = Side_Opposite (ord_Side inc)" "\<not> Order_Expired r now"
    using opp_live_side(1) [OF m] r(1) by (simp_all add: opposite_side_def)
  have acc: "Order_acceptsPrice r (ord_UnitPrice r)" by (simp add: Order_acceptsPrice_def)
  have side: "ord_Side inc = Buy \<or> ord_Side inc = Sell" by (rule match_inputD(2) [OF m])
  define n where "n = FromMinor (q * Minor (ord_UnitPrice r))"
  have "verify_trade bk inc now (book_orig bk) (trade_of (bk_Asset bk) x inc r q n) = None" for x
    using side r(2,4-6) orig rr acc n_def [symmetric]
    by (elim disjE) (simp_all add: verify_trade_def trade_of_def resting_id_def)
  with r(3) show ?thesis by (metis n_def)
qed

lemma sum_traded_by:
  assumes "distinct ids" "\<forall>t\<in>set ts. resting_id s t \<in> set ids"
  shows "(\<Sum>i\<leftarrow>ids. traded_by s ts i) = traded_total ts"
  using assms(2)
proof (induction ts)
  case Nil
  then show ?case by simp
next
  case (Cons t ts)
  have "(\<Sum>i\<leftarrow>ids. if resting_id s t = i then tr_Quantity t else 0) = tr_Quantity t"
    using Cons.prems assms(1) by (simp add: sum_list_distinct_conv_sum_set)
  with Cons show ?case by (simp add: sum_list_addf)
qed

lemma final_traded:
  assumes m: "match_input bk inc now" and w: "walk_ok key inc (opp_live bk inc now) w"
  shows "(\<Sum>o1\<leftarrow>final_orders bk inc now w. traded_by (ord_Side inc) (wk_Trades w) (ord_ID o1)) =
    traded_total (wk_Trades w)"
proof -
  let ?ids = "map ord_ID (final_orders bk inc now w)"
  have d: "distinct ?ids"
    using final_ids [OF w] match_inputD(4) [OF m] mset_eq_imp_distinct_iff by blast
  have "set ?ids = ord_ID ` set (bk_Bids bk @ bk_Asks bk)"
    using mset_eq_setD [OF final_ids [OF w]] by (simp add: image_Un)
  then have "\<forall>t\<in>set (wk_Trades w). resting_id (ord_Side inc) t \<in> set ?ids"
  proof (intro ballI)
    fix t assume ids: "set ?ids = ord_ID ` set (bk_Bids bk @ bk_Asks bk)" and t: "t \<in> set (wk_Trades w)"
    have "good_trade key inc (opp_live bk inc now) t" using w t by (simp add: walk_ok_def)
    then have "resting_id (ord_Side inc) t \<in> ord_ID ` set (opp_live bk inc now)"
      using good_trade_resting [of inc] match_inputD(2) [OF m] by auto
    then show "resting_id (ord_Side inc) t \<in> set ?ids"
      unfolding ids book_parts_set [of bk now inc, symmetric] by blast
  qed
  from sum_traded_by [OF d this] show ?thesis by (simp add: comp_def)
qed

text \<open>The invariants of a walk on the quantities: no total ever leaves the range of \<open>int64\<close>.\<close>

lemma walk_totals:
  assumes m: "match_input bk inc now" and w: "walk_ok key inc (opp_live bk inc now) w"
  shows "0 \<le> traded_total (wk_Trades w)" "traded_total (wk_Trades w) \<le> MaxInt64"
    "ord_Filled (wk_In w) = ord_Filled inc + traded_total (wk_Trades w)"
    "sub64 (ord_Filled (wk_In w)) (ord_Filled inc) = traded_total (wk_Trades w)"
    "\<forall>t\<in>set (wk_Trades w). 0 < tr_Quantity t"
    "order_ok (wk_In w)" "ord_ID (wk_In w) = ord_ID inc"
proof -
  have side: "ord_Side inc \<in> {Buy, Sell}" using match_inputD(2) [OF m] by auto
  show pos: "\<forall>t\<in>set (wk_Trades w). 0 < tr_Quantity t"
    using w good_trade_resting [OF side] unfolding walk_ok_def by blast
  show nn: "0 \<le> traded_total (wk_Trades w)" by (rule traded_total_nonneg [OF pos])
  have in': "wk_In w = inc\<lparr>ord_Filled := ord_Filled inc + traded_total (wk_Trades w)\<rparr>"
    using w by (simp add: walk_ok_def)
  show ok: "order_ok (wk_In w)" using w unfolding walk_ok_def by blast
  show f: "ord_Filled (wk_In w) = ord_Filled inc + traded_total (wk_Trades w)" by (subst in') simp
  show "ord_ID (wk_In w) = ord_ID inc" by (subst in') simp
  have "ord_Filled (wk_In w) \<le> MaxInt64" "0 \<le> ord_Filled inc"
    using ok match_inputD(1) [OF m] by (auto simp: order_ok_def)
  with f show le: "traded_total (wk_Trades w) \<le> MaxInt64" by linarith
  show "sub64 (ord_Filled (wk_In w)) (ord_Filled inc) = traded_total (wk_Trades w)"
    using nn le by (simp add: f sub64_def wrap64_nonneg)
qed

section \<open>The checker accepts\<close>

lemma final_placeable:
  assumes m: "match_input bk inc now" and w: "walk_ok key inc (opp_live bk inc now) w"
    and o2: "o2 \<in> set (final_orders bk inc now w)"
  shows "placeable (book_orig bk) inc o2" "ord_ID o2 \<noteq> ord_ID inc" "0 \<le> ord_Filled o2"
    "sub64 (ord_Filled o2) (orig_filled (book_orig bk) (ord_ID o2)) =
       traded_by (ord_Side inc) (wk_Trades w) (ord_ID o2)"
proof -
  let ?tb = "traded_by (ord_Side inc) (wk_Trades w)"
  from final_from [OF m w o2] obtain o1 where o1: "o1 \<in> set (bk_Bids bk @ bk_Asks bk)" "order_ok o2"
    "o2 = o1\<lparr>ord_Filled := ord_Filled o1 + ?tb (ord_ID o1)\<rparr>" by blast
  then have eq: "ord_ID o2 = ord_ID o1" "ord_Filled o2 = ord_Filled o1 + ?tb (ord_ID o1)" by simp_all
  have orig: "book_orig bk (ord_ID o1) = Some o1" by (rule book_orig_mem [OF m o1(1)])
  have tb: "0 \<le> ?tb (ord_ID o1)" "?tb (ord_ID o1) \<le> MaxInt64"
    using traded_by_bounds [OF walk_totals(5) [OF m w], of "ord_Side inc" "ord_ID o1"] walk_totals(2) [OF m w]
    by auto
  show "0 \<le> ord_Filled o2" using o1(2) by (simp add: order_ok_def)
  show "placeable (book_orig bk) inc o2"
    using o1(2) orig tb(1) by (simp add: placeable_def checkFill_def eq order_ok_def)
  show "ord_ID o2 \<noteq> ord_ID inc" using match_inputD(5) [OF m] o1(1) eq(1) by (metis imageI)
  show "sub64 (ord_Filled o2) (orig_filled (book_orig bk) (ord_ID o2)) = ?tb (ord_ID o2)"
    using orig tb by (simp add: eq orig_filled_def sub64_def wrap64_nonneg)
qed

lemma verify_removed_result:
  assumes m: "match_input bk inc now" and w: "walk_ok key inc (opp_live bk inc now) w"
  defines "removed \<equiv> map (\<lambda>o1. \<lparr>rm_Order = o1, rm_Reason = RemovedExpired\<rparr>) (expired_of bk now) @ wk_Removed w"
  shows "verify_removed (book_orig bk) inc now (traded_by (ord_Side inc) (wk_Trades w)) removed [] =
    Inr (expired_of bk now @ map rm_Order (wk_Removed w))"
proof -
  have ids: "map rm_Order removed = expired_of bk now @ map rm_Order (wk_Removed w)"
    by (simp add: removed_def comp_def)
  have "distinct (map ord_ID (final_orders bk inc now w))"
    using final_ids [OF w] match_inputD(4) [OF m] mset_eq_imp_distinct_iff by blast
  then have "distinct (map ord_ID ([] @ map rm_Order removed))" by (auto simp: ids final_orders_def)
  moreover have "\<forall>rm\<in>set removed. placeable (book_orig bk) inc (rm_Order rm) \<and>
      verify_reason inc now (traded_by (ord_Side inc) (wk_Trades w)) rm = None"
  proof
    fix rm assume rm: "rm \<in> set removed"
    then have "rm_Order rm \<in> set (final_orders bk inc now w)" by (auto simp: removed_def final_orders_def)
    then have "placeable (book_orig bk) inc (rm_Order rm)" by (rule final_placeable [OF m w])
    moreover have "reason_ok inc (wk_Trades w) rm" if "rm \<in> set (wk_Removed w)"
      using w that unfolding walk_ok_def by blast
    ultimately show "placeable (book_orig bk) inc (rm_Order rm) \<and>
      verify_reason inc now (traded_by (ord_Side inc) (wk_Trades w)) rm = None"
      using rm by (auto simp: removed_def verify_reason_def reason_ok_def expired_of_def)
  qed
  ultimately show ?thesis by (subst verify_removed_ok) (simp_all add: ids)
qed

text \<open>One side of the returned book: resting orders that belong there, and at most the incoming order.\<close>

lemma verify_side_result:
  assumes m: "match_input bk inc now" and w: "walk_ok key inc (opp_live bk inc now) w"
    and os: "\<forall>o2\<in>set os. o2 = wk_In w \<or> o2 \<in> set (final_orders bk inc now w) \<and> ord_Side o2 = s \<and>
      0 < Order_Remaining o2 \<and> \<not> Order_Expired o2 now"
    and d: "distinct (map ord_ID (final @ filter (\<lambda>o2. ord_ID o2 \<noteq> ord_ID inc) os))"
    and one: "length (filter (\<lambda>o2. ord_ID o2 = ord_ID inc) os) \<le> (if rests then 0 else 1)"
  shows "verify_side (book_orig bk) inc now (wk_In w) s os final rests =
    Inr (final @ filter (\<lambda>o2. ord_ID o2 \<noteq> ord_ID inc) os, rests \<or> (\<exists>o2\<in>set os. ord_ID o2 = ord_ID inc))"
proof (rule verify_side_ok [OF _ _ d one])
  show "\<forall>o2\<in>set os. ord_ID o2 \<noteq> ord_ID inc \<longrightarrow> placeable (book_orig bk) inc o2 \<and> ord_Side o2 = s \<and>
      Order_Remaining o2 \<noteq> 0 \<and> \<not> Order_Expired o2 now"
  proof (intro ballI impI)
    fix o2 assume o2: "o2 \<in> set os" "ord_ID o2 \<noteq> ord_ID inc"
    have "o2 \<noteq> wk_In w" using o2(2) walk_totals(7) [OF m w] by metis
    then have "o2 \<in> set (final_orders bk inc now w) \<and> ord_Side o2 = s \<and> 0 < Order_Remaining o2 \<and>
      \<not> Order_Expired o2 now" using os o2(1) by blast
    moreover from this have "placeable (book_orig bk) inc o2"
      by (intro final_placeable(1) [OF m w]) (elim conjE)
    ultimately show "placeable (book_orig bk) inc o2 \<and> ord_Side o2 = s \<and>
      Order_Remaining o2 \<noteq> 0 \<and> \<not> Order_Expired o2 now"
      by simp
  qed
  show "\<forall>o2\<in>set os. ord_ID o2 = ord_ID inc \<longrightarrow> o2 = wk_In w"
    using os final_placeable(2) [OF m w] by blast
qed

lemma verify_filled_result:
  assumes m: "match_input bk inc now" and w: "walk_ok key inc (opp_live bk inc now) w"
    and f: "mset final = mset (final_orders bk inc now w)"
  shows "verify_filled (book_orig bk) (traded_by (ord_Side inc) (wk_Trades w)) final 0 =
    Inr (traded_total (wk_Trades w))"
proof -
  let ?tb = "traded_by (ord_Side inc) (wk_Trades w)"
  have "(\<Sum>o1\<leftarrow>final. ?tb (ord_ID o1)) = (\<Sum>o1\<leftarrow>final_orders bk inc now w. ?tb (ord_ID o1))"
    by (rule sum_list_map_mset [OF f])
  then have sum: "(\<Sum>o1\<leftarrow>final. ?tb (ord_ID o1)) = traded_total (wk_Trades w)"
    by (simp add: final_traded [OF m w])
  have "verify_filled (book_orig bk) ?tb final 0 = Inr (0 + (\<Sum>o1\<leftarrow>final. ?tb (ord_ID o1)))"
    using final_placeable(4) [OF m w] traded_by_bounds(1) [OF walk_totals(5) [OF m w]]
      mset_eq_setD [OF f] walk_totals(2) [OF m w] sum
    by (intro verify_filled_ok) simp_all
  with sum show ?thesis by simp
qed

text \<open>The own side of the returned book: what was live there, and the incoming remainder if it rests.\<close>

definition own_after :: "book \<Rightarrow> order \<Rightarrow> go_time \<Rightarrow> walk \<Rightarrow> order list" where
  "own_after bk inc now w =
     (if ord_Kind inc = Limit \<and> 0 < Order_Remaining (wk_In w)
      then sortedSide (own_live bk inc now @ [wk_In w]) (ord_Side inc) else own_live bk inc now)"

lemma own_live_not_inc:
  assumes m: "match_input bk inc now" and w: "walk_ok key inc (opp_live bk inc now) w"
  shows "\<forall>o2\<in>set (own_live bk inc now). ord_ID o2 \<noteq> ord_ID inc"
    "\<forall>o2\<in>set (wk_Kept w). ord_ID o2 \<noteq> ord_ID inc"
  using final_placeable(2) [OF m w] by (simp_all add: final_orders_def)

lemma own_after_facts:
  assumes m: "match_input bk inc now" and w: "walk_ok key inc (opp_live bk inc now) w"
  defines "rests \<equiv> ord_Kind inc = Limit \<and> 0 < Order_Remaining (wk_In w)"
  shows "mset (filter (\<lambda>o2. ord_ID o2 \<noteq> ord_ID inc) (own_after bk inc now w)) = mset (own_live bk inc now)"
    "length (filter (\<lambda>o2. ord_ID o2 = ord_ID inc) (own_after bk inc now w)) \<le> 1"
    "(\<exists>o2\<in>set (own_after bk inc now w). ord_ID o2 = ord_ID inc) \<longleftrightarrow> rests"
    "\<forall>o2\<in>set (own_after bk inc now w). o2 = wk_In w \<or> o2 \<in> set (own_live bk inc now)"
proof -
  let ?eq = "\<lambda>o2. ord_ID o2 = ord_ID inc"
  note notin = own_live_not_inc(1) [OF m w]
  have none: "filter ?eq (own_live bk inc now) = []" using notin by (simp add: filter_empty_conv)
  have all: "filter (\<lambda>o2. \<not> ?eq o2) (own_live bk inc now) = own_live bk inc now"
    using notin by (simp add: filter_id_conv)
  have in': "ord_ID (wk_In w) = ord_ID inc" by (rule walk_totals(7) [OF m w])
  have ms: "mset (own_after bk inc now w) = mset (own_live bk inc now) + (if rests then {#wk_In w#} else {#})"
    by (simp add: own_after_def rests_def)
  have "filter_mset (\<lambda>o2. \<not> ?eq o2) (mset (own_live bk inc now)) = mset (own_live bk inc now)"
    "filter_mset ?eq (mset (own_live bk inc now)) = {#}"
    by (simp_all only: mset_filter [symmetric] all none mset.simps)
  note fm = this
  show "mset (filter (\<lambda>o2. ord_ID o2 \<noteq> ord_ID inc) (own_after bk inc now w)) = mset (own_live bk inc now)"
    unfolding mset_filter ms using fm(1) in' by simp
  have "filter_mset ?eq (mset (own_after bk inc now w)) = (if rests then {#wk_In w#} else {#})"
    unfolding ms using fm(2) in' by simp
  then have "mset (filter ?eq (own_after bk inc now w)) = (if rests then {#wk_In w#} else {#})"
    by (simp only: mset_filter)
  then have "size (mset (filter ?eq (own_after bk inc now w))) \<le> 1" by simp
  then show "length (filter ?eq (own_after bk inc now w)) \<le> 1" by (simp only: size_mset)
  show "(\<exists>o2\<in>set (own_after bk inc now w). ord_ID o2 = ord_ID inc) \<longleftrightarrow> rests"
    using notin in' by (auto simp: own_after_def rests_def)
  show "\<forall>o2\<in>set (own_after bk inc now w). o2 = wk_In w \<or> o2 \<in> set (own_live bk inc now)"
    by (auto simp: own_after_def)
qed

lemma own_live_belongs:
  assumes m: "match_input bk inc now" and o2: "o2 \<in> set (own_live bk inc now)"
  shows "o2 \<in> set (final_orders bk inc now w) \<and> ord_Side o2 = ord_Side inc \<and> 0 < Order_Remaining o2 \<and> \<not> Order_Expired o2 now"
proof -
  have "o2 \<in> set (bk_Bids bk @ bk_Asks bk)" using o2 book_parts_set [of bk now inc] by blast
  then have "0 < Order_Remaining o2" using match_inputD(6) [OF m] by blast
  then show ?thesis
    using o2 match_inputD(2,7,8) [OF m] by (auto simp: final_orders_def own_live_def live_side_set)
qed

lemma kept_belongs:
  assumes m: "match_input bk inc now" and w: "walk_ok key inc (opp_live bk inc now) w" and o2: "o2 \<in> set (wk_Kept w)"
  shows "o2 \<in> set (final_orders bk inc now w) \<and> ord_Side o2 = Side_Opposite (ord_Side inc) \<and>
    0 < Order_Remaining o2 \<and> \<not> Order_Expired o2 now"
proof -
  have "o2 \<in> set (walk_final w)" using o2 by (simp add: walk_final_def)
  then obtain o1 where o1: "o1 \<in> set (opp_live bk inc now)"
    "o2 = o1\<lparr>ord_Filled := ord_Filled o1 + traded_by (ord_Side inc) (wk_Trades w) (ord_ID o1)\<rparr>"
    using w unfolding walk_ok_def by blast
  have "ord_Side o1 = Side_Opposite (ord_Side inc)" "\<not> Order_Expired o1 now"
    using opp_live_side(1) [OF m] o1(1) by (simp_all add: opposite_side_def)
  moreover have "0 < Order_Remaining o2" using w o2 unfolding walk_ok_def by blast
  ultimately show ?thesis using o1(2) o2 by (simp add: final_orders_def)
qed

lemma verify_two_sides:
  assumes m: "match_input bk inc now" and w: "walk_ok key inc (opp_live bk inc now) w"
  defines "res \<equiv> result_of bk inc now w"
  shows "\<exists>f2 r2 final. verify_side (book_orig bk) inc now (wk_In w) Buy (bk_Bids (res_Book res))
      (expired_of bk now @ map rm_Order (wk_Removed w)) False = Inr (f2, r2) \<and>
    verify_side (book_orig bk) inc now (wk_In w) Sell (bk_Asks (res_Book res)) f2 r2 = Inr (final, res_Rests res) \<and>
    mset final = mset (final_orders bk inc now w)"
proof -
  let ?f1 = "expired_of bk now @ map rm_Order (wk_Removed w)" and ?ne = "\<lambda>o2. ord_ID o2 \<noteq> ord_ID inc"
  let ?own = "own_after bk inc now w" and ?kept = "wk_Kept w"
  note own = own_after_facts [OF m w]
  have kne: "filter ?ne ?kept = ?kept" using own_live_not_inc(2) [OF m w] by (simp add: filter_id_conv)
  have k0: "filter (\<lambda>o2. ord_ID o2 = ord_ID inc) ?kept = []" "\<not> (\<exists>o2\<in>set ?kept. ord_ID o2 = ord_ID inc)"
    using own_live_not_inc(2) [OF m w] by (simp_all add: filter_empty_conv)
  have ownb: "\<forall>o2\<in>set ?own. o2 = wk_In w \<or> o2 \<in> set (final_orders bk inc now w) \<and> ord_Side o2 = ord_Side inc \<and>
      0 < Order_Remaining o2 \<and> \<not> Order_Expired o2 now"
    using own(4) own_live_belongs [OF m] by blast
  have keptb: "\<forall>o2\<in>set ?kept. o2 = wk_In w \<or> o2 \<in> set (final_orders bk inc now w) \<and>
      ord_Side o2 = Side_Opposite (ord_Side inc) \<and> 0 < Order_Remaining o2 \<and> \<not> Order_Expired o2 now"
    using kept_belongs [OF m w] by blast
  have all: "mset (?f1 @ filter ?ne ?own @ ?kept) = mset (final_orders bk inc now w)"
    by (simp only: mset_append own(1)) (simp add: final_orders_def)
  have "distinct (map ord_ID (final_orders bk inc now w))"
    using final_ids [OF w] match_inputD(4) [OF m] mset_eq_imp_distinct_iff by blast
  then have dall: "distinct (map ord_ID (?f1 @ filter ?ne ?own @ ?kept))"
    using distinct_map_mset [OF all, of ord_ID] by blast
  have rests: "res_Rests res \<longleftrightarrow> ord_Kind inc = Limit \<and> 0 < Order_Remaining (wk_In w)"
    by (simp add: res_def result_of_def Let_def)
  consider (buy) "ord_Side inc = Buy" | (sell) "ord_Side inc = Sell" using match_inputD(2) [OF m] by blast
  then show ?thesis
  proof cases
    case buy
    have res': "bk_Bids (res_Book res) = ?own" "bk_Asks (res_Book res) = ?kept"
      using buy by (simp_all add: res_def result_of_def own_after_def Let_def)
    have "verify_side (book_orig bk) inc now (wk_In w) Buy ?own ?f1 False =
      Inr (?f1 @ filter ?ne ?own, False \<or> (\<exists>o2\<in>set ?own. ord_ID o2 = ord_ID inc))"
      using ownb dall own(2) buy by (intro verify_side_result [OF m w]) auto
    moreover have "verify_side (book_orig bk) inc now (wk_In w) Sell ?kept (?f1 @ filter ?ne ?own) r2 =
      Inr ((?f1 @ filter ?ne ?own) @ filter ?ne ?kept, r2 \<or> (\<exists>o2\<in>set ?kept. ord_ID o2 = ord_ID inc))" for r2
      using keptb dall k0 kne buy by (intro verify_side_result [OF m w]) (auto simp: Side_Opposite_def)
    ultimately show ?thesis unfolding res' using all k0 kne own(3) rests by simp
  next
    case sell
    have res': "bk_Bids (res_Book res) = ?kept" "bk_Asks (res_Book res) = ?own"
      using sell by (simp_all add: res_def result_of_def own_after_def Let_def)
    have "verify_side (book_orig bk) inc now (wk_In w) Buy ?kept ?f1 False =
      Inr (?f1 @ filter ?ne ?kept, False \<or> (\<exists>o2\<in>set ?kept. ord_ID o2 = ord_ID inc))"
      using keptb dall k0 kne sell by (intro verify_side_result [OF m w]) (auto simp: Side_Opposite_def)
    then have A: "verify_side (book_orig bk) inc now (wk_In w) Buy ?kept ?f1 False = Inr (?f1 @ ?kept, False)"
      by (simp only: kne k0(2) simp_thms)
    have "verify_side (book_orig bk) inc now (wk_In w) Sell ?own (?f1 @ ?kept) False =
      Inr ((?f1 @ ?kept) @ filter ?ne ?own, False \<or> (\<exists>o2\<in>set ?own. ord_ID o2 = ord_ID inc))"
      using ownb dall own(2) sell by (intro verify_side_result [OF m w]) auto
    then have B: "verify_side (book_orig bk) inc now (wk_In w) Sell ?own (?f1 @ ?kept) False =
      Inr ((?f1 @ ?kept) @ filter ?ne ?own, res_Rests res)"
      by (simp only: own(3) rests simp_thms)
    have C: "mset ((?f1 @ ?kept) @ filter ?ne ?own) = mset (final_orders bk inc now w)"
      using all by (simp only: mset_append ac_simps)
    show ?thesis unfolding res' by (intro exI conjI) (rule A, rule B, rule C)
  qed
qed

end
