(* ===== verification/Market_Result.thy ===== *)
theory Market_Result
  imports Market_Correct
begin

text \<open>
  The theorems about \<open>Match\<close>: the checker accepts every result (\<open>Match_core_verified\<close>), so that
  \<open>Match_eq\<close> gives the value of \<open>Match\<close> on every valid input; what such a result is worth to the
  parties (limits kept, quantity conserved, price-time priority, the resting book never crossed).
\<close>

section \<open>The checker accepts every result\<close>

lemma verify_trades_result:
  assumes m: "match_input bk inc now" and w: "walk_ok (bk_Asset bk) inc (opp_live bk inc now) w"
  shows "verify_trades bk inc now (book_orig bk) (wk_Trades w) 0 (\<lambda>_. 0) =
    Inr (traded_total (wk_Trades w), traded_by (ord_Side inc) (wk_Trades w))"
proof -
  have "\<forall>t\<in>set (wk_Trades w). good_trade (bk_Asset bk) inc (opp_live bk inc now) t"
    using w by (simp add: walk_ok_def)
  then have "\<forall>t\<in>set (wk_Trades w). verify_trade bk inc now (book_orig bk) t = None \<and> 0 < tr_Quantity t"
    using good_trade_verify [OF m] walk_totals(5) [OF m w] by blast
  then have "verify_trades bk inc now (book_orig bk) (wk_Trades w) 0 (\<lambda>_. 0) =
    Inr (0 + traded_total (wk_Trades w), \<lambda>i. 0 + traded_by (ord_Side inc) (wk_Trades w) i)"
    using walk_totals(2) [OF m w] by (intro verify_trades_ok) simp_all
  then show ?thesis by simp
qed

lemma verify_updated_result:
  assumes m: "match_input bk inc now" and w: "walk_ok key inc (opp_live bk inc now) w"
    and f: "mset final = mset (final_orders bk inc now w)"
  shows "verify_updated final (wk_Updated w) = None"
proof -
  have "set final = set (final_orders bk inc now w)" using mset_eq_setD [OF f] .
  moreover have "set (wk_Updated w) \<subseteq> set (wk_Kept w)" "\<forall>o2\<in>set (wk_Kept w). 0 < Order_Remaining o2"
    using w by (simp_all add: walk_ok_def)
  moreover have "set (wk_Kept w) \<subseteq> set (final_orders bk inc now w)" by (auto simp: final_orders_def)
  ultimately have "\<not> (\<exists>u\<in>set (wk_Updated w). u \<notin> set final \<or> Order_Remaining u = 0)" by fastforce
  then show ?thesis by (simp add: verify_updated_def)
qed

lemma verify_accounting_result:
  assumes m: "match_input bk inc now" and w: "walk_ok key inc (opp_live bk inc now) w"
  defines "res \<equiv> result_of bk inc now w"
  shows "verify_accounting bk inc now (book_orig bk) (traded_total (wk_Trades w))
    (traded_by (ord_Side inc) (wk_Trades w)) res = Inr (res_Rests res)"
proof -
  have fields: "res_Removed res = map (\<lambda>o1. \<lparr>rm_Order = o1, rm_Reason = RemovedExpired\<rparr>) (expired_of bk now) @ wk_Removed w"
    "res_Incoming res = wk_In w" "res_Updated res = wk_Updated w"
    by (simp_all add: res_def result_of_def Let_def)
  from verify_two_sides [OF m w] obtain f2 r2 final where s:
    "verify_side (book_orig bk) inc now (wk_In w) Buy (bk_Bids (res_Book res))
      (expired_of bk now @ map rm_Order (wk_Removed w)) False = Inr (f2, r2)"
    "verify_side (book_orig bk) inc now (wk_In w) Sell (bk_Asks (res_Book res)) f2 r2 = Inr (final, res_Rests res)"
    "mset final = mset (final_orders bk inc now w)"
    unfolding res_def by blast
  have "mset (map ord_ID final) = mset (map ord_ID (bk_Bids bk @ bk_Asks bk))"
    using final_ids [OF w] s(3) by (simp only: mset_map)
  then have "set (map ord_ID final) = set (map ord_ID (bk_Bids bk @ bk_Asks bk))" by (rule mset_eq_setD)
  then have "\<not> (\<exists>o1\<in>set (bk_Bids bk @ bk_Asks bk). ord_ID o1 \<notin> ord_ID ` set final)" by auto
  then show ?thesis
    unfolding verify_accounting_def fields verify_removed_result [OF m w]
    by (simp add: s(1,2) verify_filled_result [OF m w s(3)] verify_updated_result [OF m w s(3)])
qed

lemma result_opposite:
  assumes "match_input bk inc now"
  shows "(if ord_Side inc = Sell then bk_Bids (res_Book (result_of bk inc now w))
    else bk_Asks (res_Book (result_of bk inc now w))) = wk_Kept w"
  using match_inputD(2) [OF assms] by (auto simp: result_of_def Let_def)

lemma wk_In_accepts:
  assumes "walk_ok key inc opp w"
  shows "Order_acceptsPrice (wk_In w) p = Order_acceptsPrice inc p"
proof -
  have "wk_In w = inc\<lparr>ord_Filled := ord_Filled inc + traded_total (wk_Trades w)\<rparr>"
    using assms by (simp add: walk_ok_def)
  then show ?thesis by (metis order_fill_simps(2))
qed

lemma verify_rests_result:
  assumes m: "match_input bk inc now" and w: "walk_ok key inc (opp_live bk inc now) w"
    and run: "match_walk key now inc (opp_live bk inc now) = Inr w"
  defines "res \<equiv> result_of bk inc now w"
  shows "verify_rests inc res (res_Rests res) = None"
proof -
  have rests: "res_Rests res \<longleftrightarrow> ord_Kind inc = Limit \<and> 0 < Order_Remaining (wk_In w)"
    and in': "res_Incoming res = wk_In w"
    by (simp_all add: res_def result_of_def Let_def)
  have "\<forall>o2\<in>set (wk_Kept w). \<not> Order_acceptsPrice (wk_In w) (ord_UnitPrice o2)" if "res_Rests res"
    using walk_stops_uncrossed [OF run opp_live_side [OF m]] that rests
    by (simp add: acceptable_def wk_In_accepts [OF w])
  then have "\<not> (\<exists>o1\<in>set (if ord_Side inc = Sell then bk_Bids (res_Book res) else bk_Asks (res_Book res)).
      Order_acceptsPrice (res_Incoming res) (ord_UnitPrice o1))" if "res_Rests res"
    unfolding result_opposite [OF m, of w, folded res_def] in' using that by blast
  then show ?thesis by (auto simp: verify_rests_def rests in' Let_def)
qed

lemma Match_core_verified:
  assumes m: "match_input bk inc now" and w: "walk_ok (bk_Asset bk) inc (opp_live bk inc now) w"
    and run: "match_walk (bk_Asset bk) now inc (opp_live bk inc now) = Inr w"
  shows "Verify bk inc now (result_of bk inc now w) = None"
proof -
  have fields: "res_Incoming (result_of bk inc now w) = wk_In w" "res_Trades (result_of bk inc now w) = wk_Trades w"
    by (simp_all add: result_of_def Let_def)
  have "0 \<le> ord_Filled (wk_In w)" "ord_Filled (wk_In w) \<le> ord_Quantity (wk_In w)"
    using walk_totals(6) [OF m w] by (simp_all add: order_ok_def)
  then have "checkFill (book_orig bk) (wk_In w) = None"
    by (simp add: checkFill_def walk_totals(7) [OF m w] book_orig_inc [OF m])
  moreover have "\<not> ord_Filled (wk_In w) < ord_Filled inc"
    using walk_totals(1,3) [OF m w] by linarith
  ultimately show ?thesis
    unfolding Verify_def fields book_orig_def [symmetric] Let_def
    by (simp add: walk_totals(4,7) [OF m w] verify_trades_result [OF m w] verify_accounting_result [OF m w]
        verify_rests_result [OF m w run])
qed

text \<open>The value of \<open>Match\<close> on every valid input.\<close>

lemma Match_eq:
  assumes m: "match_input bk inc now"
  obtains w where "match_walk (bk_Asset bk) now inc (opp_live bk inc now) = Inr w"
    "walk_ok (bk_Asset bk) inc (opp_live bk inc now) w"
    "Match bk inc now = Inr (result_of bk inc now w)"
proof -
  from Match_core_eq [OF m] obtain w where w: "match_walk (bk_Asset bk) now inc (opp_live bk inc now) = Inr w"
    "walk_ok (bk_Asset bk) inc (opp_live bk inc now) w" "Match_core bk inc now = Inr (result_of bk inc now w)" .
  have "Match_guard bk inc now = None" using m by (simp add: match_input_def)
  then have "Match bk inc now = Inr (result_of bk inc now w)"
    by (simp add: Match_def w(3) Match_core_verified [OF m w(2,1)])
  with w that show thesis by blast
qed

section \<open>The returned book is a valid book\<close>

lemma Order_Validate_filled:
  assumes "Order_Validate o1 = None" "0 \<le> f" "f \<le> ord_Quantity o1"
  shows "Order_Validate (o1\<lparr>ord_Filled := f\<rparr>) = None"
  using assms by (simp add: Order_Validate_def split: if_splits option.splits sum.splits)

lemma Book_check_all_ok:
  assumes "\<forall>o1\<in>set os. Order_Validate o1 = None \<and> ord_Asset o1 = key \<and> ord_Side o1 = s \<and>
      ord_Kind o1 = Limit \<and> Order_Remaining o1 \<noteq> 0"
    and "distinct (map ord_ID os)" "set (map ord_ID os) \<inter> set seen = {}"
  shows "Book_check_all key s seen os = Inr (rev (map ord_ID os) @ seen)"
  using assms
proof (induction os arbitrary: seen)
  case Nil
  then show ?case by simp
next
  case (Cons a os)
  have "Book_check key seen a s = None" using Cons.prems by (simp add: Book_check_def)
  moreover have "Book_check_all key s (ord_ID a # seen) os = Inr (rev (map ord_ID os) @ ord_ID a # seen)"
    using Cons.prems by (intro Cons.IH) auto
  ultimately show ?case by simp
qed

lemma Book_Validate_ok:
  assumes "AssetKey_Validate (bk_Asset b) = None"
    and "\<forall>o1\<in>set (bk_Bids b @ bk_Asks b). Order_Validate o1 = None \<and> ord_Asset o1 = bk_Asset b \<and>
      ord_Kind o1 = Limit \<and> Order_Remaining o1 \<noteq> 0"
    and "\<forall>o1\<in>set (bk_Bids b). ord_Side o1 = Buy" "\<forall>o1\<in>set (bk_Asks b). ord_Side o1 = Sell"
    and "distinct (map ord_ID (bk_Bids b @ bk_Asks b))"
  shows "Book_Validate b = None"
proof -
  have "Book_check_all (bk_Asset b) Buy [] (bk_Bids b) = Inr (rev (map ord_ID (bk_Bids b)) @ [])"
    using assms by (intro Book_check_all_ok) auto
  moreover have "Book_check_all (bk_Asset b) Sell (rev (map ord_ID (bk_Bids b)) @ []) (bk_Asks b) =
    Inr (rev (map ord_ID (bk_Asks b)) @ rev (map ord_ID (bk_Bids b)) @ [])"
    using assms by (intro Book_check_all_ok) auto
  ultimately show ?thesis using assms(1) by (simp add: Book_Validate_def)
qed

text \<open>The orders of the returned book: those of \<open>final_orders\<close> still on a side, and the remainder.\<close>

lemma result_book:
  "mset (bk_Bids (res_Book (result_of bk inc now w)) @ bk_Asks (res_Book (result_of bk inc now w))) =
     mset (own_live bk inc now @ wk_Kept w) +
     (if res_Rests (result_of bk inc now w) then {#wk_In w#} else {#})"
  by (simp add: result_of_def Let_def ac_simps)

lemma result_sides:
  assumes "match_input bk inc now"
  shows "(if ord_Side inc = Buy then bk_Bids (res_Book (result_of bk inc now w))
    else bk_Asks (res_Book (result_of bk inc now w))) = own_after bk inc now w"
    "(if ord_Side inc = Buy then bk_Asks (res_Book (result_of bk inc now w))
    else bk_Bids (res_Book (result_of bk inc now w))) = wk_Kept w"
  by (simp_all add: result_of_def own_after_def Let_def)

lemma wk_In_valid:
  assumes m: "match_input bk inc now" and w: "walk_ok key inc (opp_live bk inc now) w"
  shows "Order_Validate (wk_In w) = None" "ord_Asset (wk_In w) = bk_Asset bk"
    "ord_Side (wk_In w) = ord_Side inc" "ord_Kind (wk_In w) = ord_Kind inc"
    "ord_UnitPrice (wk_In w) = ord_UnitPrice inc" "ord_Owner (wk_In w) = ord_Owner inc" "order_in64 (wk_In w)"
proof -
  have g: "Order_Validate inc = None" "ord_Asset inc = bk_Asset bk" "order_in64 inc"
    using m by (auto simp: match_input_def Match_guard_def split: option.splits if_splits)
  have "ord_Filled (wk_In w) \<le> ord_Quantity (wk_In w)" "0 \<le> ord_Filled (wk_In w)" "ord_Quantity (wk_In w) \<le> MaxInt64"
    using walk_totals(6) [OF m w] by (simp_all add: order_ok_def)
  note f = this
  have e: "wk_In w = inc\<lparr>ord_Filled := ord_Filled inc + traded_total (wk_Trades w)\<rparr>"
    using w by (simp add: walk_ok_def)
  then have q: "ord_Quantity (wk_In w) = ord_Quantity inc" "ord_Filled (wk_In w) = ord_Filled inc + traded_total (wk_Trades w)"
    by (metis order.select_convs order.surjective order.update_convs(6))+
  from Order_Validate_filled [OF g(1), of "ord_Filled inc + traded_total (wk_Trades w)"] f q
  show "Order_Validate (wk_In w) = None" by (subst e) simp
  show "ord_Asset (wk_In w) = bk_Asset bk" "ord_Side (wk_In w) = ord_Side inc" "ord_Kind (wk_In w) = ord_Kind inc"
    "ord_UnitPrice (wk_In w) = ord_UnitPrice inc" "ord_Owner (wk_In w) = ord_Owner inc"
    by (subst e, simp add: g(2))+
  have "order_in64 (inc\<lparr>ord_Filled := ord_Filled (wk_In w)\<rparr>)"
    using g(3) f q by (simp add: order_in64_def in64_def)
  then show "order_in64 (wk_In w)" using q(2) by (metis e)
qed

lemma final_valid:
  assumes m: "match_input bk inc now" and w: "walk_ok key inc (opp_live bk inc now) w"
    and o2: "o2 \<in> set (final_orders bk inc now w)"
  shows "Order_Validate o2 = None \<and> ord_Asset o2 = bk_Asset bk \<and> ord_Kind o2 = Limit \<and> order_in64 o2"
proof -
  have b: "Book_Validate bk = None" "\<forall>o1\<in>set (bk_Bids bk @ bk_Asks bk). order_in64 o1"
    using m by (auto simp: match_input_def Match_guard_def split: option.splits if_splits)
  from final_from [OF m w o2] obtain o1 where o1: "o1 \<in> set (bk_Bids bk @ bk_Asks bk)" "order_ok o2"
    "o2 = o1\<lparr>ord_Filled := ord_Filled o1 + traded_by (ord_Side inc) (wk_Trades w) (ord_ID o1)\<rparr>" by blast
  have v: "Order_Validate o1 = None" "ord_Asset o1 = bk_Asset bk" "ord_Kind o1 = Limit" "order_in64 o1"
    using Book_Validate_None [OF b(1)] b(2) o1(1) by blast+
  moreover have "0 \<le> ord_Filled o2" "ord_Filled o2 \<le> ord_Quantity o2" "ord_Quantity o2 \<le> MaxInt64"
    using o1(2) by (simp_all add: order_ok_def)
  ultimately show ?thesis
    unfolding o1(3) using Order_Validate_filled [OF v(1)] by (simp add: order_in64_def in64_def)
qed

lemma result_valid:
  assumes m: "match_input bk inc now" and w: "walk_ok key inc (opp_live bk inc now) w"
  defines "b \<equiv> res_Book (result_of bk inc now w)"
  shows "Book_Validate b = None" "\<forall>o1\<in>set (bk_Bids b @ bk_Asks b). order_in64 o1" "bk_Asset b = bk_Asset bk"
proof -
  have g: "AssetKey_Validate (bk_Asset bk) = None"
    using m by (auto simp: match_input_def Match_guard_def Book_Validate_def split: option.splits if_splits)
  have memb: "o2 \<in> set (own_live bk inc now @ wk_Kept w) \<or> o2 = wk_In w \<and> ord_Kind inc = Limit \<and> 0 < Order_Remaining o2"
    if "o2 \<in> set (bk_Bids b @ bk_Asks b)" for o2
    using that
    by (auto simp: b_def result_of_def Let_def split: if_splits)
  have ok: "Order_Validate o2 = None \<and> ord_Asset o2 = bk_Asset bk \<and> ord_Kind o2 = Limit \<and> Order_Remaining o2 \<noteq> 0 \<and> order_in64 o2"
    if "o2 \<in> set (bk_Bids b @ bk_Asks b)" for o2
  proof (cases "o2 \<in> set (own_live bk inc now @ wk_Kept w)")
    case True
    then have "o2 \<in> set (final_orders bk inc now w)" "0 < Order_Remaining o2"
      using own_live_belongs [OF m, of o2 w] kept_belongs [OF m w, of o2] by auto
    with final_valid [OF m w] show ?thesis by auto
  next
    case False
    with memb [OF that] wk_In_valid [OF m w] show ?thesis by auto
  qed
  show a: "bk_Asset b = bk_Asset bk" by (simp add: b_def result_of_def Let_def)
  show "\<forall>o1\<in>set (bk_Bids b @ bk_Asks b). order_in64 o1" using ok by blast
  have own: "\<forall>o2\<in>set (own_after bk inc now w). ord_Side o2 = ord_Side inc"
    using own_after_facts(4) [OF m w] own_live_belongs [OF m] wk_In_valid(3) [OF m w] by metis
  have kept: "\<forall>o2\<in>set (wk_Kept w). ord_Side o2 = Side_Opposite (ord_Side inc)"
    using kept_belongs [OF m w] by blast
  note sides = result_sides [OF m, of w, folded b_def]
  have "\<forall>o1\<in>set (bk_Bids b). ord_Side o1 = Buy" "\<forall>o1\<in>set (bk_Asks b). ord_Side o1 = Sell"
    using own kept sides match_inputD(2) [OF m] by (auto simp: Side_Opposite_def split: if_splits)
  moreover have "distinct (map ord_ID (bk_Bids b @ bk_Asks b))"
  proof -
    have "distinct (map ord_ID (final_orders bk inc now w))"
      using final_ids [OF w] match_inputD(4) [OF m] mset_eq_imp_distinct_iff by blast
    then have d: "distinct (map ord_ID (wk_In w # own_live bk inc now @ wk_Kept w))"
      using own_live_not_inc [OF m w] walk_totals(7) [OF m w] by (auto simp: final_orders_def)
    have "mset (bk_Bids b @ bk_Asks b) = mset (if res_Rests (result_of bk inc now w)
      then wk_In w # own_live bk inc now @ wk_Kept w else own_live bk inc now @ wk_Kept w)"
      unfolding b_def result_book by simp
    from distinct_map_mset [OF this, of ord_ID] d show ?thesis by (auto split: if_splits)
  qed
  ultimately show "Book_Validate b = None"
    using ok g a by (intro Book_Validate_ok) auto
qed

text \<open>A book no two orders of which would trade: the best bid is below the best ask.\<close>

definition uncrossed :: "book \<Rightarrow> bool" where
  "uncrossed b \<longleftrightarrow> (\<forall>x\<in>set (bk_Bids b). \<forall>y\<in>set (bk_Asks b). ord_UnitPrice x < ord_UnitPrice y)"

lemma kept_prices:
  assumes m: "match_input bk inc now" and w: "walk_ok key inc (opp_live bk inc now) w" and o2: "o2 \<in> set (wk_Kept w)"
  shows "\<exists>o1\<in>set (opp_live bk inc now). ord_UnitPrice o2 = ord_UnitPrice o1"
proof -
  have "o2 \<in> set (walk_final w)" using o2 by (simp add: walk_final_def)
  then obtain o1 where "o1 \<in> set (opp_live bk inc now)"
    "o2 = o1\<lparr>ord_Filled := ord_Filled o1 + traded_by (ord_Side inc) (wk_Trades w) (ord_ID o1)\<rparr>"
    using w unfolding walk_ok_def by blast
  then show ?thesis by (intro bexI [of _ o1]) simp_all
qed

lemma result_uncrossed:
  assumes m: "match_input bk inc now" and w: "walk_ok key inc (opp_live bk inc now) w"
    and run: "match_walk key now inc (opp_live bk inc now) = Inr w" and u: "uncrossed bk"
  shows "uncrossed (res_Book (result_of bk inc now w))"
proof -
  have inp: "ord_UnitPrice (wk_In w) = ord_UnitPrice inc" by (rule wk_In_valid(5) [OF m w])
  have stop: "\<forall>o2\<in>set (wk_Kept w). \<not> Order_acceptsPrice inc (ord_UnitPrice o2)" if "0 < Order_Remaining (wk_In w)"
    using walk_stops_uncrossed [OF run opp_live_side [OF m] that] by (simp add: acceptable_def)
  have own: "o2 \<in> set (own_live bk inc now) \<or> o2 = wk_In w \<and> 0 < Order_Remaining (wk_In w)"
    if "o2 \<in> set (own_after bk inc now w)" for o2
    using that by (auto simp: own_after_def split: if_splits)
  note kept = kept_prices [OF m w] and sides = result_sides [OF m, of w]
  show ?thesis
  proof (cases "ord_Side inc = Buy")
    case True
    have "ord_UnitPrice x < ord_UnitPrice y" if x: "x \<in> set (own_after bk inc now w)" and y: "y \<in> set (wk_Kept w)" for x y
    proof (cases "x \<in> set (own_live bk inc now)")
      case in': True
      obtain z where "z \<in> set (opp_live bk inc now)" "ord_UnitPrice y = ord_UnitPrice z" using kept [OF y] by blast
      with in' u True show ?thesis by (auto simp: uncrossed_def own_live_def opp_live_def live_side_set)
    next
      case False
      with own [OF x] stop y True inp show ?thesis by (auto simp: Order_acceptsPrice_def less_amount_def)
    qed
    with sides True show ?thesis by (simp add: uncrossed_def)
  next
    case False
    then have sell: "ord_Side inc = Sell" using match_inputD(2) [OF m] by blast
    have "ord_UnitPrice y < ord_UnitPrice x" if x: "x \<in> set (own_after bk inc now w)" and y: "y \<in> set (wk_Kept w)" for x y
    proof (cases "x \<in> set (own_live bk inc now)")
      case in': True
      obtain z where "z \<in> set (opp_live bk inc now)" "ord_UnitPrice y = ord_UnitPrice z" using kept [OF y] by blast
      with in' u sell show ?thesis by (auto simp: uncrossed_def own_live_def opp_live_def live_side_set)
    next
      case no: False
      with own [OF x] stop y sell inp show ?thesis by (auto simp: Order_acceptsPrice_def less_amount_def)
    qed
    with sides False show ?thesis by (simp add: uncrossed_def)
  qed
qed

section \<open>Lists keyed by an id\<close>

lemma sorted_wrt_pair:
  assumes "sorted_wrt P xs" "sorted_wrt (\<lambda>x y. \<not> lt y x) xs" "x \<in> set xs" "y \<in> set xs" "lt x y" "\<not> lt x x"
  shows "P x y"
  using assms by (induction xs) auto

lemma mset_by_key:
  assumes d: "distinct (map k xs)" and ids: "mset (map k ys) = mset (map k xs)"
    and img: "\<And>y. y \<in> set ys \<Longrightarrow> \<exists>x\<in>set xs. y = g x" and k: "\<And>x. k (g x) = k x"
  shows "mset ys = mset (map g xs)"
proof -
  have dy: "distinct (map k ys)" using d ids mset_eq_imp_distinct_iff by blast
  have "set ys = g ` set xs"
  proof
    show "set ys \<subseteq> g ` set xs" using img by blast
    show "g ` set xs \<subseteq> set ys"
    proof
      fix z assume "z \<in> g ` set xs"
      then obtain x where x: "x \<in> set xs" "z = g x" by blast
      have "k ` set ys = k ` set xs" using mset_eq_setD [OF ids] by simp
      then obtain y where y: "y \<in> set ys" "k y = k x" using x(1) by (metis imageE imageI)
      obtain x' where x': "x' \<in> set xs" "y = g x'" using img [OF y(1)] by blast
      have "k x' = k x" using y(2) x'(2) k by simp
      then have "x' = x" using d x(1) x'(1) by (auto simp: distinct_map dest: inj_onD)
      with x x' y show "z \<in> set ys" by simp
    qed
  qed
  moreover have "distinct ys" using dy by (simp add: distinct_map)
  moreover have "distinct (map g xs)"
  proof -
    have "distinct (map k (map g xs))" using d by (simp add: comp_def k)
    then show ?thesis by (simp only: distinct_map)
  qed
  ultimately show ?thesis by (intro iffD1 [OF set_eq_iff_mset_eq_distinct]) simp_all
qed

text \<open>What remains of the resting orders after a match, whatever the order of the two sides.\<close>

lemma result_after:
  assumes m: "match_input bk inc now" and w: "walk_ok key inc (opp_live bk inc now) w"
  shows "mset (map rm_Order (res_Removed (result_of bk inc now w)) @ filter (\<lambda>o2. ord_ID o2 \<noteq> ord_ID inc)
    (bk_Bids (res_Book (result_of bk inc now w)) @ bk_Asks (res_Book (result_of bk inc now w)))) =
    mset (final_orders bk inc now w)"
proof -
  let ?ne = "\<lambda>o2. ord_ID o2 \<noteq> ord_ID inc" and ?r = "result_of bk inc now w"
  have kne: "filter ?ne (wk_Kept w) = wk_Kept w" using own_live_not_inc(2) [OF m w] by (simp add: filter_id_conv)
  have "mset (filter ?ne (bk_Bids (res_Book ?r) @ bk_Asks (res_Book ?r))) =
    mset (filter ?ne (own_after bk inc now w)) + mset (filter ?ne (wk_Kept w))"
    by (simp add: result_of_def own_after_def Let_def)
  also have "\<dots> = mset (own_live bk inc now) + mset (wk_Kept w)"
    by (simp only: own_after_facts(1) [OF m w] kne)
  finally have "mset (filter ?ne (bk_Bids (res_Book ?r) @ bk_Asks (res_Book ?r))) =
    mset (own_live bk inc now) + mset (wk_Kept w)" .
  moreover have "map rm_Order (res_Removed ?r) = expired_of bk now @ map rm_Order (wk_Removed w)"
    by (simp add: result_of_def comp_def Let_def)
  ultimately show ?thesis by (simp only: mset_append final_orders_def ac_simps)
qed

section \<open>Properties of Match\<close>

text \<open>A concrete book for the witnesses: two asks at 10 and 12, one of them of the buyer's own.\<close>

definition demo_key :: asset_key where
  "demo_key = \<lparr>key_Type = AssetItem, key_ID = ''iron'', key_City = ''a'', key_Channel = ChannelPublic\<rparr>"

definition demo_order :: "string \<Rightarrow> side \<Rightarrow> int \<Rightarrow> int \<Rightarrow> string \<Rightarrow> order" where
  "demo_order i s q p own = \<lparr>ord_ID = i, ord_Side = s, ord_Kind = Limit, ord_Asset = demo_key, ord_Quantity = q,
     ord_Filled = 0, ord_UnitPrice = FromMinor p, ord_Owner = own, ord_CreatedAt = 1, ord_ExpiresAt = 0\<rparr>"

definition demo_book :: book where
  "demo_book = \<lparr>bk_Asset = demo_key, bk_Bids = [demo_order ''b1'' Buy 2 9 ''u''],
     bk_Asks = [demo_order ''s2'' Sell 5 12 ''v'', demo_order ''s1'' Sell 3 10 ''w'']\<rparr>"

definition demo_buy :: order where
  "demo_buy = demo_order ''b2'' Buy 4 12 ''u''"

lemma demo_in64:
  "order_in64 demo_buy" "\<forall>o1\<in>set (bk_Bids demo_book @ bk_Asks demo_book). order_in64 o1"
  by (simp_all add: demo_buy_def demo_order_def demo_book_def order_in64_def in64_def valid_amount_def)

lemma demo_guard: "Match_guard demo_book demo_buy 5 = None"
  by code_simp

lemma demo_result: "\<exists>res. Match demo_book demo_buy 5 = Inr res"
  using Match_eq [of demo_book demo_buy 5] demo_in64 demo_guard by (metis match_input_def)

lemma match_inputI:
  "Match bk inc now = Inr res \<Longrightarrow> order_in64 inc \<Longrightarrow> \<forall>o1\<in>set (bk_Bids bk @ bk_Asks bk). order_in64 o1 \<Longrightarrow>
    match_input bk inc now"
  by (auto simp: match_input_def Match_def split: option.splits)

lemma Match_result:
  assumes "Match bk inc now = Inr res" "order_in64 inc" "\<forall>o1\<in>set (bk_Bids bk @ bk_Asks bk). order_in64 o1"
  obtains w where "match_input bk inc now" "match_walk (bk_Asset bk) now inc (opp_live bk inc now) = Inr w"
    "walk_ok (bk_Asset bk) inc (opp_live bk inc now) w" "res = result_of bk inc now w"
proof -
  have m: "match_input bk inc now" by (rule match_inputI [OF assms])
  from Match_eq [OF m] assms(1) that m show thesis by auto
qed

text \<open>
  C11. \<open>Match\<close> fails exactly where one of its input checks refuses, and with that check's error. Past
  the checks nothing can go wrong: no product overflows and the closing \<open>Verify\<close> never rejects the
  result, so the engine never answers \<open>ErrInvariant\<close>.
\<close>

theorem Match_fails_iff_guard:
  assumes "order_in64 inc" "\<forall>o1\<in>set (bk_Bids bk @ bk_Asks bk). order_in64 o1"
  shows "Match bk inc now = Inl e \<longleftrightarrow> Match_guard bk inc now = Some e"
proof (cases "Match_guard bk inc now")
  case None
  with assms have "match_input bk inc now" by (simp add: match_input_def)
  then obtain w where "Match bk inc now = Inr (result_of bk inc now w)" by (rule Match_eq)
  with None show ?thesis by simp
qed (simp add: Match_def)

theorem Match_fails_iff_guard_witness:
  "Match demo_book demo_buy 5 \<noteq> Inl ErrInvariant \<and> Match_guard demo_book demo_buy 5 = None"
  using Match_fails_iff_guard [OF demo_in64, of 5 ErrInvariant] demo_guard by simp

text \<open>
  Every trade is fair: it is with a live resting order of the other side, at that order's price,
  within the incoming order's own limit, between two different owners, for a positive quantity, and
  its notional is exactly quantity times price.
\<close>

lemma Match_trades_fair:
  assumes "Match bk inc now = Inr res" "order_in64 inc" "\<forall>o1\<in>set (bk_Bids bk @ bk_Asks bk). order_in64 o1"
  shows "\<forall>t\<in>set (res_Trades res). \<exists>r\<in>set (bk_Bids bk @ bk_Asks bk).
    ord_ID r = resting_id (ord_Side inc) t \<and> ord_Side r = Side_Opposite (ord_Side inc) \<and> \<not> Order_Expired r now \<and>
    tr_UnitPrice t = ord_UnitPrice r \<and> Order_acceptsPrice inc (tr_UnitPrice t) \<and> tr_Buyer t \<noteq> tr_Seller t \<and>
    0 < tr_Quantity t \<and> Minor (tr_Notional t) = tr_Quantity t * Minor (tr_UnitPrice t)"
proof
  fix t assume t: "t \<in> set (res_Trades res)"
  from Match_result [OF assms] obtain w where w: "match_input bk inc now"
    "walk_ok (bk_Asset bk) inc (opp_live bk inc now) w" "res = result_of bk inc now w" .
  have "t \<in> set (wk_Trades w)" using t by (simp add: w(3) result_of_def Let_def)
  then have "good_trade (bk_Asset bk) inc (opp_live bk inc now) t" using w(2) by (simp add: walk_ok_def)
  then obtain r q x where r: "r \<in> set (opp_live bk inc now)" "0 < q" "ord_Owner r \<noteq> ord_Owner inc"
    "t = trade_of (bk_Asset bk) x inc r q (FromMinor (q * Minor (ord_UnitPrice r)))"
    "Order_acceptsPrice inc (ord_UnitPrice r)" unfolding good_trade_def by blast
  have "r \<in> set (bk_Bids bk @ bk_Asks bk)" using r(1) book_parts_set [of bk now inc] by blast
  moreover have "ord_Side r = Side_Opposite (ord_Side inc) \<and> \<not> Order_Expired r now"
    using opp_live_side(1) [OF w(1)] r(1) by (simp add: opposite_side_def)
  moreover have "tr_Buyer t \<noteq> tr_Seller t" using r(3,4) by (auto simp: trade_of_def)
  moreover have "resting_id (ord_Side inc) t = ord_ID r" using r(4) match_inputD(2) [OF w(1)] by simp
  ultimately show "\<exists>r\<in>set (bk_Bids bk @ bk_Asks bk). ord_ID r = resting_id (ord_Side inc) t \<and>
    ord_Side r = Side_Opposite (ord_Side inc) \<and> \<not> Order_Expired r now \<and>
    tr_UnitPrice t = ord_UnitPrice r \<and> Order_acceptsPrice inc (tr_UnitPrice t) \<and> tr_Buyer t \<noteq> tr_Seller t \<and>
    0 < tr_Quantity t \<and> Minor (tr_Notional t) = tr_Quantity t * Minor (tr_UnitPrice t)"
    using r by (intro bexI [of _ r]) simp_all
qed

text \<open>
  C15. Price-time priority: an order on the other side trades only when every live order of another
  owner that comes before it (a better price, or the same price and an earlier time, or the same time
  and a smaller id) has been filled completely.
\<close>

theorem Match_priority:
  assumes "Match bk inc now = Inr res" "order_in64 inc" "\<forall>o1\<in>set (bk_Bids bk @ bk_Asks bk). order_in64 o1"
    and side: "{r1, r2} \<subseteq> set (if ord_Side inc = Sell then bk_Bids bk else bk_Asks bk)"
    and live: "\<not> Order_Expired r1 now" "\<not> Order_Expired r2 now"
    and before: "comparePriority (Side_Opposite (ord_Side inc)) r1 r2 < 0" "ord_Owner r1 \<noteq> ord_Owner inc"
    and trades: "0 < traded_by (ord_Side inc) (res_Trades res) (ord_ID r2)"
  shows "traded_by (ord_Side inc) (res_Trades res) (ord_ID r1) = Order_Remaining r1"
proof -
  let ?lt = "\<lambda>a b. comparePriority (Side_Opposite (ord_Side inc)) a b < 0"
  from Match_result [OF assms(1-3)] obtain w where w: "match_input bk inc now"
    "match_walk (bk_Asset bk) now inc (opp_live bk inc now) = Inr w" "res = result_of bk inc now w" .
  have ts: "res_Trades res = wk_Trades w" by (simp add: w(3) result_of_def Let_def)
  have opp: "opp_live bk inc now =
    filter (\<lambda>o1. \<not> Order_Expired o1 now) (sort_by ?lt (if ord_Side inc = Sell then bk_Bids bk else bk_Asks bk))"
    using match_inputD(2) [OF w(1)] by (auto simp: opp_live_def live_side_def sortedSide_def Side_Opposite_def)
  have "sorted_wrt (\<lambda>x y. \<not> ?lt y x) (opp_live bk inc now)"
    unfolding opp by (rule sorted_wrt_filter [OF priority.sorted_sort_by])
  moreover have "r1 \<in> set (opp_live bk inc now)" "r2 \<in> set (opp_live bk inc now)"
    using side live by (simp_all add: opp)
  moreover have "\<not> ?lt r1 r1" using priority.asym by blast
  ultimately show ?thesis
    using sorted_wrt_pair [OF walk_priority [OF w(2) opp_live_side(1) [OF w(1)]], of ?lt r1 r2] before trades
    by (auto simp: ts)
qed

theorem Match_priority_witness:
  "\<exists>res. Match demo_book demo_buy 5 = Inr res \<and> traded_by Buy (res_Trades res) ''s1'' = 3"
proof -
  obtain res where res: "Match demo_book demo_buy 5 = Inr res" using demo_result by blast
  have t: "0 < traded_by (ord_Side demo_buy) (res_Trades (projr (Match demo_book demo_buy 5))) ''s2''" by code_simp
  have "traded_by (ord_Side demo_buy) (res_Trades res) (ord_ID (demo_order ''s1'' Sell 3 10 ''w'')) =
    Order_Remaining (demo_order ''s1'' Sell 3 10 ''w'')"
    by (rule Match_priority [OF res demo_in64, of _ "demo_order ''s2'' Sell 5 12 ''v''"])
      (use t res in \<open>simp_all add: demo_buy_def demo_book_def demo_order_def Order_Expired_def time_IsZero_def
        comparePriority_def cmp_Compare_def Side_Opposite_def\<close>)
  then have "traded_by Buy (res_Trades res) ''s1'' = 3"
    by (simp add: demo_buy_def demo_order_def Order_Remaining_def sub64_def wrap64_def)
  with res show ?thesis by blast
qed

text \<open>
  C16. Nothing tradable is left: the quantity traded is the smaller of what the incoming order still
  wants and what the live, acceptable resting orders of other owners offer.
\<close>

theorem Match_maximal:
  assumes "Match bk inc now = Inr res" "order_in64 inc" "\<forall>o1\<in>set (bk_Bids bk @ bk_Asks bk). order_in64 o1"
  shows "traded_total (res_Trades res) = min (Order_Remaining inc)
    (\<Sum>r\<leftarrow>filter (\<lambda>r. \<not> Order_Expired r now \<and> Order_acceptsPrice inc (ord_UnitPrice r) \<and> ord_Owner r \<noteq> ord_Owner inc)
      (if ord_Side inc = Sell then bk_Bids bk else bk_Asks bk). Order_Remaining r)"
proof -
  from Match_result [OF assms] obtain w where w: "match_input bk inc now"
    "match_walk (bk_Asset bk) now inc (opp_live bk inc now) = Inr w" "res = result_of bk inc now w" .
  let ?P = "\<lambda>r. \<not> Order_Expired r now \<and> Order_acceptsPrice inc (ord_UnitPrice r) \<and> ord_Owner r \<noteq> ord_Owner inc"
    and ?os = "if ord_Side inc = Sell then bk_Bids bk else bk_Asks bk"
  have "filter_mset (\<lambda>r. acceptable inc r \<and> ord_Owner r \<noteq> ord_Owner inc) (mset (opp_live bk inc now)) = filter_mset ?P (mset ?os)"
    by (auto simp: opp_live_def live_side_def acceptable_def filter_filter_mset intro!: filter_mset_cong)
  then have "mset (filter (\<lambda>r. acceptable inc r \<and> ord_Owner r \<noteq> ord_Owner inc) (opp_live bk inc now)) = mset (filter ?P ?os)"
    by (simp only: mset_filter)
  from sum_list_map_mset [OF this, of Order_Remaining]
  have "offered inc (opp_live bk inc now) = (\<Sum>r\<leftarrow>filter ?P ?os. Order_Remaining r)" by (simp only: offered_def)
  moreover have "res_Trades res = wk_Trades w" by (simp add: w(3) result_of_def Let_def)
  ultimately show ?thesis
    using walk_maximal [OF w(2) opp_live_side [OF w(1)]] match_inputD(3) [OF w(1)] by simp
qed

theorem Match_maximal_witness:
  "\<exists>res. Match demo_book demo_buy 5 = Inr res \<and> traded_total (res_Trades res) = 4"
proof -
  obtain res where res: "Match demo_book demo_buy 5 = Inr res" using demo_result by blast
  have "min (Order_Remaining demo_buy) (\<Sum>r\<leftarrow>filter (\<lambda>r. \<not> Order_Expired r 5 \<and> Order_acceptsPrice demo_buy (ord_UnitPrice r) \<and>
      ord_Owner r \<noteq> ord_Owner demo_buy) (if ord_Side demo_buy = Sell then bk_Bids demo_book else bk_Asks demo_book).
      Order_Remaining r) = 4" by code_simp
  with Match_maximal [OF res demo_in64] res show ?thesis by auto
qed

text \<open>
  C13. Conservation: the incoming order's filled count grows by exactly the quantity traded; every
  resting order leaves the match exactly once (removed, or on one side of the book), unchanged but
  for its filled count, which grows by the quantity of its own trades; no other order appears.
\<close>

theorem Match_conserves:
  assumes "Match bk inc now = Inr res" "order_in64 inc" "\<forall>o1\<in>set (bk_Bids bk @ bk_Asks bk). order_in64 o1"
  defines "after \<equiv> map rm_Order (res_Removed res) @
    filter (\<lambda>o2. ord_ID o2 \<noteq> ord_ID inc) (bk_Bids (res_Book res) @ bk_Asks (res_Book res))"
  shows "res_Incoming res = inc\<lparr>ord_Filled := ord_Filled inc + traded_total (res_Trades res)\<rparr> \<and>
    mset after = mset (map (\<lambda>o1. o1\<lparr>ord_Filled := ord_Filled o1 + traded_by (ord_Side inc) (res_Trades res) (ord_ID o1)\<rparr>)
      (bk_Bids bk @ bk_Asks bk))"
proof -
  from Match_result [OF assms(1-3)] obtain w where w: "match_input bk inc now"
    "walk_ok (bk_Asset bk) inc (opp_live bk inc now) w" "res = result_of bk inc now w" .
  have f: "res_Trades res = wk_Trades w" "res_Incoming res = wk_In w"
    by (simp_all add: w(3) result_of_def Let_def)
  have a: "mset after = mset (final_orders bk inc now w)"
    using result_after [OF w(1,2)] by (simp add: after_def w(3))
  have "mset (final_orders bk inc now w) = mset (map (\<lambda>o1. o1\<lparr>ord_Filled := ord_Filled o1 +
      traded_by (ord_Side inc) (wk_Trades w) (ord_ID o1)\<rparr>) (bk_Bids bk @ bk_Asks bk))"
    using final_from [OF w(1,2)] final_ids [OF w(2)] match_inputD(4) [OF w(1)]
    by (intro mset_by_key [of ord_ID]) auto
  moreover have "wk_In w = inc\<lparr>ord_Filled := ord_Filled inc + traded_total (wk_Trades w)\<rparr>"
    using w(2) by (simp add: walk_ok_def)
  ultimately show ?thesis using a by (simp only: f)
qed

theorem Match_conserves_witness:
  "\<exists>res. Match demo_book demo_buy 5 = Inr res \<and>
    res_Incoming res = demo_buy\<lparr>ord_Filled := ord_Filled demo_buy + traded_total (res_Trades res)\<rparr>"
  using Match_conserves [OF _ demo_in64, of 5] demo_result by blast

text \<open>A book built from an empty one by matches.\<close>

inductive book_reachable :: "asset_key \<Rightarrow> book \<Rightarrow> bool" where
  new: "AssetKey_Validate key = None \<Longrightarrow> book_reachable key (NewBook key)"
| matched: "book_reachable key bk \<Longrightarrow> order_in64 inc \<Longrightarrow> Match bk inc now = Inr res \<Longrightarrow>
    book_reachable key (res_Book res)"

inductive_cases book_reachable_E: "book_reachable key bk"

text \<open>
  C12. The standing invariant of a market: whatever orders arrive, at whatever times, every book grown
  from an empty one is valid (every order well formed, of this asset, on its own side, unfilled, with
  an id of its own) and never crossed: its best bid stays below its best ask.
\<close>

theorem book_invariant:
  assumes "book_reachable key bk"
  shows "bk_Asset bk = key \<and> Book_Validate bk = None \<and>
    (\<forall>x\<in>set (bk_Bids bk). \<forall>y\<in>set (bk_Asks bk). ord_UnitPrice x < ord_UnitPrice y)"
proof -
  from assms have "bk_Asset bk = key \<and> Book_Validate bk = None \<and> uncrossed bk \<and>
    (\<forall>o1\<in>set (bk_Bids bk @ bk_Asks bk). order_in64 o1)"
  proof induction
    case (new key)
    then show ?case by (simp add: NewBook_def Book_Validate_def uncrossed_def)
  next
    case (matched key bk inc now res)
    then obtain w where w: "match_input bk inc now" "match_walk (bk_Asset bk) now inc (opp_live bk inc now) = Inr w"
      "walk_ok (bk_Asset bk) inc (opp_live bk inc now) w" "res = result_of bk inc now w"
      by (elim conjE Match_result)
    with matched.IH result_valid [OF w(1,3)] result_uncrossed [OF w(1,3,2)] show ?case by simp
  qed
  then show ?thesis by (simp add: uncrossed_def)
qed

theorem book_invariant_witness:
  "\<exists>bk. book_reachable demo_key bk \<and> bk_Bids bk = [demo_buy] \<and> Book_Validate bk = None"
proof -
  have n: "book_reachable demo_key (NewBook demo_key)" by (rule new) code_simp
  have "case Match (NewBook demo_key) demo_buy 5 of Inl e \<Rightarrow> False | Inr res \<Rightarrow> bk_Bids (res_Book res) = [demo_buy]"
    by code_simp
  then obtain res where r: "Match (NewBook demo_key) demo_buy 5 = Inr res" "bk_Bids (res_Book res) = [demo_buy]"
    by (auto split: sum.splits)
  from matched [OF n demo_in64(1) r(1)] book_invariant r(2) show ?thesis by blast
qed

end
