(* ===== verification/Market_Settle.thy ===== *)
theory Market_Settle
  imports Market_Result
begin

text \<open>
  \<^verbatim>\<open>internal/domain/market/escrow.go\<close> and \<^verbatim>\<open>fee.go\<close>: what an order holds in escrow, how one trade
  draws it down, the fee on a trade and its settlement. The market's fee interprets \<open>ceil_fee\<close>, the
  interface of a basis-point charge that rounds up. The lemmas show that the escrow identity of
  \<open>ReleaseOnFill\<close> holds for every fill, along a whole match too, and that the conservation check of
  a settlement never fails.
\<close>

section \<open>Escrow\<close>

record reservation =
  rv_Money :: amount
  rv_Quantity :: int

definition Reservation_zero :: reservation where
  "Reservation_zero = \<lparr>rv_Money = FromMinor 0, rv_Quantity = 0\<rparr>"

definition market_Reserve :: "order \<Rightarrow> market_error + reservation" where
  "market_Reserve o1 =
     (if ord_Side o1 = Sell then Inr \<lparr>rv_Money = FromMinor 0, rv_Quantity = Order_Remaining o1\<rparr>
      else case mulQtyPrice (Order_Remaining o1) (ord_UnitPrice o1) of Inl e \<Rightarrow> Inl e
      | Inr m \<Rightarrow> Inr \<lparr>rv_Money = m, rv_Quantity = 0\<rparr>)"

record fill_escrow =
  fe_Consumed :: reservation
  fe_Released :: reservation

definition ReleaseOnFill :: "order \<Rightarrow> trade \<Rightarrow> market_error + fill_escrow" where
  "ReleaseOnFill o1 t =
     (if ord_Side o1 = Buy \<and> tr_BuyOrderID t = ord_ID o1 then
        (case Amount_Sub (ord_UnitPrice o1) (tr_UnitPrice t) of Inl e \<Rightarrow> Inl (ErrMoney e)
         | Inr improvement \<Rightarrow>
           if Amount_IsNegative improvement then Inl ErrInvariant
           else (case mulQtyPrice (tr_Quantity t) improvement of Inl e \<Rightarrow> Inl e
             | Inr released \<Rightarrow> Inr \<lparr>fe_Consumed = \<lparr>rv_Money = tr_Notional t, rv_Quantity = 0\<rparr>,
                 fe_Released = \<lparr>rv_Money = released, rv_Quantity = 0\<rparr>\<rparr>))
      else if ord_Side o1 = Sell \<and> tr_SellOrderID t = ord_ID o1 then
        Inr \<lparr>fe_Consumed = \<lparr>rv_Money = FromMinor 0, rv_Quantity = tr_Quantity t\<rparr>,
          fe_Released = Reservation_zero\<rparr>
      else Inl ErrNotParty)"

lemma market_Reserve_eq:
  assumes "order_ok o1"
  shows "market_Reserve o1 = Inr (if ord_Side o1 = Sell then \<lparr>rv_Money = FromMinor 0, rv_Quantity = Order_Remaining o1\<rparr>
    else \<lparr>rv_Money = FromMinor (Order_Remaining o1 * Minor (ord_UnitPrice o1)), rv_Quantity = 0\<rparr>)"
proof (cases "ord_Side o1 = Sell")
  case False
  then have b: "ord_Side o1 = Buy" using assms by (auto simp: order_ok_def)
  have r: "0 \<le> Order_Remaining o1" "Order_Remaining o1 \<le> ord_Quantity o1" "0 \<le> Minor (ord_UnitPrice o1)"
    using assms by (auto simp: Order_Remaining_eq order_ok_def)
  then have "Order_Remaining o1 * Minor (ord_UnitPrice o1) \<le> ord_Quantity o1 * Minor (ord_UnitPrice o1)"
    by (simp add: mult_right_mono)
  with assms b have "Order_Remaining o1 * Minor (ord_UnitPrice o1) \<le> MaxInt64" by (simp add: order_ok_def)
  with False r show ?thesis by (simp add: market_Reserve_def mulQtyPrice_eq)
qed (simp add: market_Reserve_def)

text \<open>Release of one fill of a buy, with the products written out.\<close>

lemma ReleaseOnFill_buy:
  assumes ok: "order_ok o1" and b: "ord_Side o1 = Buy" "tr_BuyOrderID t = ord_ID o1"
    and q: "0 \<le> tr_Quantity t" "tr_Quantity t \<le> Order_Remaining o1"
    and p: "0 \<le> Minor (tr_UnitPrice t)" "Minor (tr_UnitPrice t) \<le> Minor (ord_UnitPrice o1)"
  shows "ReleaseOnFill o1 t = Inr \<lparr>fe_Consumed = \<lparr>rv_Money = tr_Notional t, rv_Quantity = 0\<rparr>,
    fe_Released = \<lparr>rv_Money = FromMinor (tr_Quantity t * (Minor (ord_UnitPrice o1) - Minor (tr_UnitPrice t))), rv_Quantity = 0\<rparr>\<rparr>"
proof -
  define P where "P = Minor (ord_UnitPrice o1)"
  define d where "d = P - Minor (tr_UnitPrice t)"
  have P: "0 \<le> P" "ord_Quantity o1 * P \<le> MaxInt64" "1 \<le> ord_Quantity o1"
    "tr_Quantity t \<le> ord_Quantity o1"
    using ok b(1) q(2) by (auto simp: order_ok_def P_def Order_Remaining_eq)
  then have "1 * P \<le> ord_Quantity o1 * P" by (intro mult_right_mono) auto
  then have Pm: "P \<le> MaxInt64" using P by simp
  have d: "0 \<le> d" "d \<le> P" using p by (simp_all add: d_def P_def)
  have "tr_Quantity t * d \<le> ord_Quantity o1 * P" using d P q by (intro mult_mono) auto
  then have m: "tr_Quantity t * d \<le> MaxInt64" using P by simp
  have "Amount_Sub (ord_UnitPrice o1) (tr_UnitPrice t) = Inr (FromMinor d)"
    using Pm p d by (subst Amount_Sub_eq) (auto simp: valid_amount_def in64_def P_def d_def)
  then show ?thesis
    using b q d m by (simp add: ReleaseOnFill_def Amount_IsNegative_def mulQtyPrice_eq d_def P_def)
qed

section \<open>Fee and settlement\<close>

abbreviation MaxFeeBps :: int where "MaxFeeBps \<equiv> 10000"

definition fee_of :: "int \<Rightarrow> int \<Rightarrow> int" where
  "fee_of n feeBps =
     (let q = quo64 n MaxFeeBps; r = rem64 n MaxFeeBps in
      add64 (mul64 q feeBps) (quo64 (sub64 (add64 (mul64 r feeBps) MaxFeeBps) 1) MaxFeeBps))"

definition market_Fee :: "trade \<Rightarrow> int \<Rightarrow> market_error + amount" where
  "market_Fee t feeBps =
     (if feeBps < 0 \<or> feeBps > MaxFeeBps then Inl ErrInvalidFeeRate
      else let n = Minor (tr_Notional t) in
        if n < 0 then Inl ErrInvalidOrder else Inr (FromMinor (fee_of n feeBps)))"

record settlement =
  st_BuyerPays :: amount
  st_SellerReceives :: amount
  st_Fee :: amount

definition Settlement_check :: "settlement \<Rightarrow> market_error option" where
  "Settlement_check s =
     (if Amount_IsNegative (st_Fee s) \<or> Amount_IsNegative (st_SellerReceives s) \<or> Amount_IsNegative (st_BuyerPays s)
      then Some ErrInvariant
      else case Amount_Sum [st_SellerReceives s, st_Fee s] of Inl e \<Rightarrow> Some (ErrMoney e)
      | Inr out \<Rightarrow> if out \<noteq> st_BuyerPays s then Some ErrInvariant else None)"

definition Settle :: "trade \<Rightarrow> int \<Rightarrow> market_error + settlement" where
  "Settle t feeBps =
     (case market_Fee t feeBps of Inl e \<Rightarrow> Inl e
      | Inr fee \<Rightarrow> (case Amount_Sub (tr_Notional t) fee of Inl e \<Rightarrow> Inl (ErrMoney e)
        | Inr proceeds \<Rightarrow>
          (let s = \<lparr>st_BuyerPays = tr_Notional t, st_SellerReceives = proceeds, st_Fee = fee\<rparr> in
           case Settlement_check s of Some e \<Rightarrow> Inl e | None \<Rightarrow> Inr s)))"

interpretation market_fee: ceil_fee fee_of
  by unfold_locales (simp add: fee_of_def Let_def bps_split_exact)

text \<open>The settlement of a trade, on every rate and notional the fee accepts.\<close>

lemma Settle_eq:
  assumes "0 \<le> Minor (tr_Notional t)" "Minor (tr_Notional t) \<le> MaxInt64" "0 \<le> b" "b \<le> MaxFeeBps"
  shows "Settle t b = Inr \<lparr>st_BuyerPays = tr_Notional t,
    st_SellerReceives = FromMinor (Minor (tr_Notional t) - fee_of (Minor (tr_Notional t)) b),
    st_Fee = FromMinor (fee_of (Minor (tr_Notional t)) b)\<rparr>"
proof -
  define n f where "n = Minor (tr_Notional t)" and "f = fee_of n b"
  have n: "0 \<le> n" "n \<le> MaxInt64" "tr_Notional t = FromMinor n" using assms by (simp_all add: n_def)
  have f: "0 \<le> f" "f \<le> n" unfolding f_def by (rule market_fee.fee_bounds [OF n(1,2) assms(3,4)])+
  have "Amount_Sub (FromMinor n) (FromMinor f) = Inr (FromMinor (n - f))"
    using n f by (subst Amount_Sub_eq) (auto simp: valid_amount_def in64_def)
  moreover have "Amount_Add (FromMinor 0) (FromMinor (n - f)) = Inr (FromMinor (n - f))"
    "Amount_Add (FromMinor (n - f)) (FromMinor f) = Inr (FromMinor n)"
    using n f by (subst Amount_Add_eq; auto simp: valid_amount_def in64_def)+
  ultimately show ?thesis
    using n f assms(3,4)
    by (simp add: Settle_def market_Fee_def Settlement_check_def Amount_Sum_def Amount_IsNegative_def Let_def
        n_def [symmetric] f_def [symmetric])
qed

section \<open>Escrow over a whole match\<close>

lemma good_trade_escrow:
  assumes "order_ok inc" and t: "good_trade key inc opp t" and opp: "opposite_side inc opp now"
    and fits: "tr_Quantity t \<le> Order_Remaining inc"
  shows "\<exists>fe. ReleaseOnFill inc t = Inr fe \<and>
    Minor (rv_Money (fe_Consumed fe)) + Minor (rv_Money (fe_Released fe)) =
      (if ord_Side inc = Buy then tr_Quantity t * Minor (ord_UnitPrice inc) else 0) \<and>
    rv_Quantity (fe_Consumed fe) + rv_Quantity (fe_Released fe) = (if ord_Side inc = Buy then 0 else tr_Quantity t)"
proof -
  from t obtain r q x where r: "r \<in> set opp" "0 < q"
    "t = trade_of key x inc r q (FromMinor (q * Minor (ord_UnitPrice r)))" "Order_acceptsPrice inc (ord_UnitPrice r)"
    unfolding good_trade_def by blast
  have pr: "0 \<le> Minor (ord_UnitPrice r)" using r(1) opp by (simp add: opposite_side_def order_ok_def)
  show ?thesis
  proof (cases "ord_Side inc = Buy")
    case True
    then have "ReleaseOnFill inc t = Inr \<lparr>fe_Consumed = \<lparr>rv_Money = tr_Notional t, rv_Quantity = 0\<rparr>,
      fe_Released = \<lparr>rv_Money = FromMinor (tr_Quantity t * (Minor (ord_UnitPrice inc) - Minor (tr_UnitPrice t))), rv_Quantity = 0\<rparr>\<rparr>"
      using assms(1) r pr fits by (intro ReleaseOnFill_buy) (auto simp: trade_of_def Order_acceptsPrice_def)
    with True r show ?thesis by (simp add: trade_of_def algebra_simps)
  next
    case False
    then have "ord_Side inc = Sell" using assms(1) by (auto simp: order_ok_def)
    with r show ?thesis by (simp add: ReleaseOnFill_def trade_of_def Reservation_zero_def)
  qed
qed

definition drawn_money :: "order \<Rightarrow> trade list \<Rightarrow> int" where
  "drawn_money o1 ts = (\<Sum>t\<leftarrow>ts. case ReleaseOnFill o1 t of Inl _ \<Rightarrow> 0
     | Inr fe \<Rightarrow> Minor (rv_Money (fe_Consumed fe)) + Minor (rv_Money (fe_Released fe)))"

definition drawn_units :: "order \<Rightarrow> trade list \<Rightarrow> int" where
  "drawn_units o1 ts = (\<Sum>t\<leftarrow>ts. case ReleaseOnFill o1 t of Inl _ \<Rightarrow> 0
     | Inr fe \<Rightarrow> rv_Quantity (fe_Consumed fe) + rv_Quantity (fe_Released fe))"

lemma drawn_eq:
  assumes "order_ok inc" "\<forall>t\<in>set ts. good_trade key inc opp t" "opposite_side inc opp now"
    and "\<forall>t\<in>set ts. tr_Quantity t \<le> Order_Remaining inc"
  shows "(\<forall>t\<in>set ts. \<exists>fe. ReleaseOnFill inc t = Inr fe) \<and>
    drawn_money inc ts = (if ord_Side inc = Buy then traded_total ts * Minor (ord_UnitPrice inc) else 0) \<and>
    drawn_units inc ts = (if ord_Side inc = Buy then 0 else traded_total ts)"
  using assms(2,4)
proof (induction ts)
  case Nil
  then show ?case by (simp add: drawn_money_def drawn_units_def)
next
  case (Cons t ts)
  from Cons.prems good_trade_escrow [OF assms(1) _ assms(3), of key t] obtain fe where
    fe: "ReleaseOnFill inc t = Inr fe" "Minor (rv_Money (fe_Consumed fe)) + Minor (rv_Money (fe_Released fe)) =
      (if ord_Side inc = Buy then tr_Quantity t * Minor (ord_UnitPrice inc) else 0)"
    "rv_Quantity (fe_Consumed fe) + rv_Quantity (fe_Released fe) = (if ord_Side inc = Buy then 0 else tr_Quantity t)"
    by auto
  have "drawn_money inc (t # ts) = (if ord_Side inc = Buy then tr_Quantity t * Minor (ord_UnitPrice inc) else 0) + drawn_money inc ts"
    "drawn_units inc (t # ts) = (if ord_Side inc = Buy then 0 else tr_Quantity t) + drawn_units inc ts"
    using fe by (simp_all add: drawn_money_def drawn_units_def)
  with Cons fe(1) show ?case by (simp add: distrib_right)
qed

lemma traded_total_mem:
  "\<forall>t\<in>set ts. 0 < tr_Quantity t \<Longrightarrow> t \<in> set ts \<Longrightarrow> tr_Quantity t \<le> traded_total ts"
proof (induction ts)
  case Nil
  then show ?case by simp
next
  case (Cons a ts)
  then have "0 \<le> traded_total ts" by (intro traded_total_nonneg) simp
  with Cons show ?case by auto
qed

text \<open>
  C14. Escrow is exact over a whole match: every trade's release for the incoming order succeeds, and
  what the order had reserved before the match is what it still has to reserve after it, plus
  everything its trades consumed and released; in money for a buy, in units for a sell. Nothing
  stays locked and nothing is paid out twice.
\<close>

theorem Match_escrow:
  assumes "Match bk inc now = Inr res" "order_in64 inc" "\<forall>o1\<in>set (bk_Bids bk @ bk_Asks bk). order_in64 o1"
  shows "(\<forall>t\<in>set (res_Trades res). \<exists>fe. ReleaseOnFill inc t = Inr fe) \<and>
    (\<exists>rb ra. market_Reserve inc = Inr rb \<and> market_Reserve (res_Incoming res) = Inr ra \<and>
      Minor (rv_Money rb) = Minor (rv_Money ra) + drawn_money inc (res_Trades res) \<and>
      rv_Quantity rb = rv_Quantity ra + drawn_units inc (res_Trades res))"
proof -
  from Match_result [OF assms] obtain w where w: "match_input bk inc now"
    "walk_ok (bk_Asset bk) inc (opp_live bk inc now) w" "res = result_of bk inc now w" .
  have f: "res_Trades res = wk_Trades w" "res_Incoming res = wk_In w"
    by (simp_all add: w(3) result_of_def Let_def)
  note ok = match_inputD(1) [OF w(1)] and ok' = walk_totals(6) [OF w(1,2)]
  have in': "wk_In w = inc\<lparr>ord_Filled := ord_Filled inc + traded_total (wk_Trades w)\<rparr>"
    using w(2) by (simp add: walk_ok_def)
  have same: "ord_Side (wk_In w) = ord_Side inc" "ord_UnitPrice (wk_In w) = ord_UnitPrice inc"
    using wk_In_valid(3,5) [OF w(1,2)] by simp_all
  have "Order_Remaining (wk_In w) = ord_Quantity (wk_In w) - ord_Filled (wk_In w)" by (rule Order_Remaining_eq [OF ok'])
  also have "\<dots> = Order_Remaining inc - traded_total (wk_Trades w)"
    by (subst (1 2) in') (simp add: Order_Remaining_eq [OF ok])
  finally have rem: "Order_Remaining inc = Order_Remaining (wk_In w) + traded_total (wk_Trades w)" by simp
  have "0 \<le> Order_Remaining (wk_In w)" using ok' by (simp add: Order_Remaining_eq [OF ok']) (simp add: order_ok_def)
  then have "\<forall>t\<in>set (wk_Trades w). tr_Quantity t \<le> Order_Remaining inc"
    using traded_total_mem [OF walk_totals(5) [OF w(1,2)]] rem by fastforce
  moreover have "\<forall>t\<in>set (wk_Trades w). good_trade (bk_Asset bk) inc (opp_live bk inc now) t"
    using w(2) by (simp add: walk_ok_def)
  ultimately have d: "(\<forall>t\<in>set (wk_Trades w). \<exists>fe. ReleaseOnFill inc t = Inr fe) \<and>
    drawn_money inc (wk_Trades w) = (if ord_Side inc = Buy then traded_total (wk_Trades w) * Minor (ord_UnitPrice inc) else 0) \<and>
    drawn_units inc (wk_Trades w) = (if ord_Side inc = Buy then 0 else traded_total (wk_Trades w))"
    by (intro drawn_eq [OF ok _ opp_live_side(1) [OF w(1)]])
  show ?thesis
    unfolding f market_Reserve_eq [OF ok] market_Reserve_eq [OF ok'] same
    using d match_inputD(2) [OF w(1)] rem by (auto simp: distrib_right)
qed

theorem Match_escrow_witness:
  "\<exists>res rb ra. Match demo_book demo_buy 5 = Inr res \<and> market_Reserve demo_buy = Inr rb \<and>
    market_Reserve (res_Incoming res) = Inr ra \<and>
    Minor (rv_Money rb) = Minor (rv_Money ra) + drawn_money demo_buy (res_Trades res)"
  using Match_escrow [OF _ demo_in64, of 5] demo_result by meson

text \<open>
  C17. A settlement of a trade with any notional an \<open>int64\<close> can hold, at any rate up to 100%, exists
  and conserves money: the seller's proceeds and the fee are non-negative and add up to exactly what
  the buyer pays, and the fee is the exact charge rounded up to a whole unit. A rate outside
  that range is refused.
\<close>

theorem Settle_conserves:
  assumes "0 \<le> Minor (tr_Notional t)" "Minor (tr_Notional t) \<le> MaxInt64"
  shows "if b < 0 \<or> 10000 < b then Settle t b = Inl ErrInvalidFeeRate
    else \<exists>s. Settle t b = Inr s \<and> st_BuyerPays s = tr_Notional t \<and>
      Minor (st_SellerReceives s) + Minor (st_Fee s) = Minor (tr_Notional t) \<and>
      0 \<le> Minor (st_SellerReceives s) \<and> 0 \<le> Minor (st_Fee s) \<and>
      Minor (tr_Notional t) * b \<le> Minor (st_Fee s) * 10000 \<and>
      Minor (st_Fee s) * 10000 < Minor (tr_Notional t) * b + 10000"
proof (cases "b < 0 \<or> 10000 < b")
  case True
  then show ?thesis by (simp add: Settle_def market_Fee_def)
next
  case False
  define n where "n = Minor (tr_Notional t)"
  have n: "0 \<le> n" "n \<le> MaxInt64" "0 \<le> b" "b \<le> 10000" using assms False by (simp_all add: n_def)
  have e: "fee_of n b = ceil_div (n * b) 10000" by (rule market_fee.fee_exact [OF n])
  have "n * b \<le> fee_of n b * 10000" using ceil_div_mult_ge [of 10000 "n * b"] by (simp add: e)
  moreover have "fee_of n b * 10000 < n * b + 10000"
    using less_ceil_div_iff [of 10000 "fee_of n b - 1" "n * b"] by (simp add: e algebra_simps)
  ultimately show ?thesis
    using False Settle_eq [of t b] n market_fee.fee_bounds [OF n] by (simp add: n_def)
qed

theorem Settle_conserves_witness:
  "\<exists>s. Settle (trade_of demo_key 5 demo_buy demo_buy 1 (FromMinor 101)) 250 = Inr s \<and>
    Minor (st_SellerReceives s) + Minor (st_Fee s) = 101"
  using Settle_conserves [of "trade_of demo_key 5 demo_buy demo_buy 1 (FromMinor 101)" 250] by auto

text \<open>
  Splitting a trade into two never makes the fee smaller, a fee is zero only for a zero notional
  or a zero rate, and a larger notional never pays less.
\<close>

lemma fee_no_evasion:
  assumes "0 \<le> m" "0 \<le> n" "m + n \<le> MaxInt64" "0 \<le> b" "b \<le> 10000"
  shows "fee_of (m + n) b \<le> fee_of m b + fee_of n b \<and> fee_of m b \<le> fee_of (m + n) b \<and>
    (fee_of m b = 0 \<longleftrightarrow> m = 0 \<or> b = 0)"
  using assms market_fee.fee_split [OF assms] market_fee.fee_mono [of m "m + n" b] market_fee.fee_zero_iff [of m b]
  by simp

end
