(* ===== verification/Bank.thy ===== *)
theory Bank
  imports Money
begin

text \<open>
  \<^verbatim>\<open>internal/domain/bank/bank.go\<close>: the limits of an operation, the fee and the quote on top of an
  amount, the largest affordable amount (found by bisection), shares for quick buttons, the parser of
  a typed amount and the rules of a payment. The bisection is a \<open>partial_function\<close>: that it returns
  is a theorem. The fee interprets \<open>ceil_fee\<close>; the parser is proved against the value its digits
  spell. A typed string is its list of runes.
\<close>

datatype bank_error =
  ErrInvalidAmount | ErrBelowMinimum | ErrAboveMaximum | BankErrInvalidFeeRate | ErrInvalidLimits
| ErrNotInCity | ErrNotTogether | ErrSelfPayment | ErrUnknownMethod | BankErrOverflow

section \<open>Limits\<close>

record limits =
  lim_Min :: amount
  lim_Max :: amount

definition NewLimits :: "int \<Rightarrow> int \<Rightarrow> bank_error + limits" where
  "NewLimits minAmount maxAmount =
     (if minAmount \<le> 0 \<or> maxAmount \<le> 0 \<or> minAmount > maxAmount then Inl ErrInvalidLimits
      else Inr \<lparr>lim_Min = FromMinor minAmount, lim_Max = FromMinor maxAmount\<rparr>)"

definition Limits_Check :: "limits \<Rightarrow> amount \<Rightarrow> bank_error option" where
  "Limits_Check l amt =
     (if Amount_IsZero amt \<or> Amount_IsNegative amt then Some ErrInvalidAmount
      else if Minor amt < Minor (lim_Min l) then Some ErrBelowMinimum
      else if Minor amt > Minor (lim_Max l) then Some ErrAboveMaximum
      else None)"

definition Limits_Clamp :: "limits \<Rightarrow> amount \<Rightarrow> amount" where
  "Limits_Clamp l amt = (if Minor amt > Minor (lim_Max l) then lim_Max l else amt)"

section \<open>Fee and quote\<close>

abbreviation BankMaxFeeBps :: int where "BankMaxFeeBps \<equiv> 10000"

definition bank_fee_of :: "int \<Rightarrow> int \<Rightarrow> int" where
  "bank_fee_of n feeBps =
     (let q = quo64 n BankMaxFeeBps; r = rem64 n BankMaxFeeBps in
      add64 (mul64 q feeBps) (quo64 (sub64 (add64 (mul64 r feeBps) BankMaxFeeBps) 1) BankMaxFeeBps))"

definition bank_Fee :: "amount \<Rightarrow> int \<Rightarrow> bank_error + amount" where
  "bank_Fee amt feeBps =
     (if feeBps < 0 \<or> feeBps > BankMaxFeeBps then Inl BankErrInvalidFeeRate
      else if Minor amt < 0 then Inl ErrInvalidAmount
      else Inr (FromMinor (bank_fee_of (Minor amt) feeBps)))"

record quote =
  quo_Amount :: amount
  quo_Fee :: amount
  quo_Total :: amount

definition QuoteFor :: "amount \<Rightarrow> int \<Rightarrow> bank_error + quote" where
  "QuoteFor amt feeBps =
     (if Amount_IsZero amt \<or> Amount_IsNegative amt then Inl ErrInvalidAmount
      else case bank_Fee amt feeBps of Inl e \<Rightarrow> Inl e
      | Inr fee \<Rightarrow> (case Amount_Add amt fee of Inl _ \<Rightarrow> Inl BankErrOverflow
        | Inr tot \<Rightarrow> Inr \<lparr>quo_Amount = amt, quo_Fee = fee, quo_Total = tot\<rparr>))"

interpretation bank_fee: ceil_fee bank_fee_of
  by unfold_locales (simp add: bank_fee_of_def Let_def bps_split_exact)

lemma QuoteFor_eq:
  assumes "0 < n" "n \<le> MaxInt64" "0 \<le> b" "b \<le> 10000"
  shows "QuoteFor (FromMinor n) b =
    (if n + bank_fee_of n b \<le> MaxInt64 then Inr \<lparr>quo_Amount = FromMinor n, quo_Fee = FromMinor (bank_fee_of n b),
       quo_Total = FromMinor (n + bank_fee_of n b)\<rparr> else Inl BankErrOverflow)"
proof -
  have "0 \<le> bank_fee_of n b" "bank_fee_of n b \<le> n" by (rule bank_fee.fee_bounds; use assms in simp)+
  then show ?thesis
    using assms by (simp add: QuoteFor_def bank_Fee_def Amount_IsZero_def Amount_IsNegative_def Amount_Add_eq
        valid_amount_def in64_def)
qed

section \<open>The largest affordable amount\<close>

definition affordable :: "int \<Rightarrow> int \<Rightarrow> int \<Rightarrow> bool" where
  "affordable balance feeBps mid =
     (case QuoteFor (FromMinor mid) feeBps of Inl _ \<Rightarrow> False | Inr q \<Rightarrow> Minor (quo_Total q) \<le> balance)"

partial_function (option) affordable_loop :: "int \<Rightarrow> int \<Rightarrow> int \<Rightarrow> int \<Rightarrow> int option" where
  [code]: "affordable_loop balance feeBps lo hi =
     (if lo < hi then
        (let mid = add64 lo (quo64 (add64 (sub64 hi lo) 1) 2) in
         if affordable balance feeBps mid then affordable_loop balance feeBps mid hi
         else affordable_loop balance feeBps lo (sub64 mid 1))
      else Some lo)"

definition MaxAffordable :: "amount \<Rightarrow> int \<Rightarrow> (bank_error + amount) option" where
  "MaxAffordable balance feeBps =
     (if feeBps < 0 \<or> feeBps > BankMaxFeeBps then Some (Inl BankErrInvalidFeeRate)
      else if Minor balance \<le> 0 then Some (Inr (FromMinor 0))
      else case affordable_loop (Minor balance) feeBps 0 (Minor balance) of None \<Rightarrow> None
      | Some lo \<Rightarrow> Some (Inr (FromMinor lo)))"

lemma affordable_iff:
  assumes "0 < n" "n \<le> MaxInt64" "0 \<le> b" "b \<le> 10000" "bal \<le> MaxInt64"
  shows "affordable bal b n \<longleftrightarrow> n + bank_fee_of n b \<le> bal"
  using assms by (auto simp: affordable_def QuoteFor_eq)

lemma affordable_down:
  assumes "affordable bal b n" "0 < m" "m \<le> n" "n \<le> MaxInt64" "0 \<le> b" "b \<le> 10000" "bal \<le> MaxInt64"
  shows "affordable bal b m"
  using assms affordable_iff [of n b bal] affordable_iff [of m b bal] bank_fee.fee_mono [of m n b] by linarith

text \<open>The midpoint is strictly above the lower end and never above the upper one.\<close>

lemma bisect_mid:
  assumes "0 \<le> lo" "lo < hi" "hi < MaxInt64"
  shows "lo < add64 lo (quo64 (add64 (sub64 hi lo) 1) 2)" "add64 lo (quo64 (add64 (sub64 hi lo) 1) 2) \<le> hi"
proof -
  have "add64 (sub64 hi lo) 1 = hi - lo + 1" using assms by (simp add: sub64_def add64_def wrap64_nonneg)
  then have "quo64 (add64 (sub64 hi lo) 1) 2 = (hi - lo + 1) div 2" using assms by (simp add: quo64_nonneg)
  moreover have "0 < (hi - lo + 1) div 2" "(hi - lo + 1) div 2 \<le> hi - lo" using assms by linarith+
  ultimately show "lo < add64 lo (quo64 (add64 (sub64 hi lo) 1) 2)" "add64 lo (quo64 (add64 (sub64 hi lo) 1) 2) \<le> hi"
    using assms by (simp_all add: add64_def wrap64_nonneg)
qed

text \<open>The invariant of the bisection: the lower end is affordable (or zero), nothing above the upper
  end is.\<close>

lemma affordable_loop_ok:
  assumes "0 \<le> lo" "lo \<le> hi" "hi < MaxInt64" "0 \<le> b" "b \<le> 10000" "bal \<le> MaxInt64"
    and "lo = 0 \<or> affordable bal b lo" "\<forall>x. hi < x \<and> x \<le> MaxInt64 \<longrightarrow> \<not> affordable bal b x"
  shows "\<exists>m. affordable_loop bal b lo hi = Some m \<and> lo \<le> m \<and> m \<le> hi \<and> (m = 0 \<or> affordable bal b m) \<and>
    (\<forall>x. m < x \<and> x \<le> MaxInt64 \<longrightarrow> \<not> affordable bal b x)"
  using assms
proof (induction "nat (hi - lo)" arbitrary: lo hi rule: less_induct)
  case less
  show ?case
  proof (cases "lo < hi")
    case False
    then have "affordable_loop bal b lo hi = Some lo" by (simp add: affordable_loop.simps)
    with False less.prems show ?thesis by (intro exI [of _ lo]) auto
  next
    case True
    define mid where "mid = add64 lo (quo64 (add64 (sub64 hi lo) 1) 2)"
    have mid: "lo < mid" "mid \<le> hi" using bisect_mid [of lo hi] less.prems True by (simp_all add: mid_def)
    show ?thesis
    proof (cases "affordable bal b mid")
      case ok: True
      then have step: "affordable_loop bal b lo hi = affordable_loop bal b mid hi"
        using True by (subst affordable_loop.simps) (simp add: mid_def [symmetric] Let_def)
      have "\<exists>m. affordable_loop bal b mid hi = Some m \<and> mid \<le> m \<and> m \<le> hi \<and> (m = 0 \<or> affordable bal b m) \<and>
        (\<forall>x. m < x \<and> x \<le> MaxInt64 \<longrightarrow> \<not> affordable bal b x)"
        using less.prems mid ok by (intro less.hyps) auto
      with mid step show ?thesis by auto
    next
      case no: False
      have sub: "sub64 mid 1 = mid - 1" using mid less.prems by (simp add: sub64_def wrap64_nonneg)
      then have step: "affordable_loop bal b lo hi = affordable_loop bal b lo (mid - 1)"
        using True no by (subst affordable_loop.simps) (simp add: mid_def [symmetric] Let_def)
      have "\<not> affordable bal b x" if "mid - 1 < x" "x \<le> MaxInt64" for x
        using no affordable_down [of bal b x mid] that mid less.prems by auto
      then have "\<exists>m. affordable_loop bal b lo (mid - 1) = Some m \<and> lo \<le> m \<and> m \<le> mid - 1 \<and> (m = 0 \<or> affordable bal b m) \<and>
        (\<forall>x. m < x \<and> x \<le> MaxInt64 \<longrightarrow> \<not> affordable bal b x)"
        using less.prems mid by (intro less.hyps) auto
      with mid step show ?thesis by auto
    qed
  qed
qed

text \<open>
  C31. For every balance below the largest \<open>int64\<close> and every rate, the bisection ends and finds the
  largest affordable amount: it and its fee fit in the balance, and any larger amount with its fee
  does not.
\<close>

theorem MaxAffordable_largest:
  assumes "0 < bal" "bal < MaxInt64" "0 \<le> b" "b \<le> 10000"
  shows "\<exists>m. MaxAffordable (FromMinor bal) b = Some (Inr (FromMinor m)) \<and> 0 \<le> m \<and>
    m + bank_fee_of m b \<le> bal \<and> (\<forall>x. m < x \<and> x \<le> bal \<longrightarrow> bal < x + bank_fee_of x b)"
proof -
  have "\<not> affordable bal b x" if "bal < x" "x \<le> MaxInt64" for x
    using that assms affordable_iff [of x b bal] bank_fee.fee_bounds(1) [of x b] by auto
  then obtain m where m: "affordable_loop bal b 0 bal = Some m" "0 \<le> m" "m \<le> bal" "m = 0 \<or> affordable bal b m"
    "\<forall>x. m < x \<and> x \<le> MaxInt64 \<longrightarrow> \<not> affordable bal b x"
    using affordable_loop_ok [of 0 bal b bal] assms by auto
  have "m + bank_fee_of m b \<le> bal"
    using m(2-4) assms affordable_iff [of m b bal] bank_fee.fee_zero_iff [of m b] by (cases "m = 0") auto
  moreover have "bal < x + bank_fee_of x b" if "m < x" "x \<le> bal" for x
    using m(2,5) that assms affordable_iff [of x b bal] by auto
  ultimately show ?thesis using m(1,2) assms by (auto simp: MaxAffordable_def)
qed

theorem MaxAffordable_largest_witness:
  "\<exists>m. MaxAffordable (FromMinor 1000) 250 = Some (Inr (FromMinor m)) \<and> m + bank_fee_of m 250 \<le> 1000"
  using MaxAffordable_largest [of 1000 250] by auto

text \<open>At the largest balance an \<open>int64\<close> holds, the midpoint overflows and the answer is zero.\<close>

lemma MaxAffordable_at_max: "MaxAffordable (FromMinor MaxInt64) 0 = Some (Inr (FromMinor 0))"
  by code_simp

section \<open>Shares\<close>

definition bank_Share :: "amount \<Rightarrow> int \<Rightarrow> amount" where
  "bank_Share amt bps =
     (let n = Minor amt in
      if n \<le> 0 \<or> bps \<le> 0 then FromMinor 0
      else if bps \<ge> BankMaxFeeBps then amt
      else let q = quo64 n BankMaxFeeBps; r = rem64 n BankMaxFeeBps in
        FromMinor (add64 (mul64 q bps) (quo64 (mul64 r bps) BankMaxFeeBps)))"

text \<open>
  A share is the exact proportion rounded down (nothing for a non-positive one, all of it from
  100% on), so it never exceeds the amount it is a share of.
\<close>

lemma bank_Share_exact:
  assumes "0 \<le> n" "n \<le> MaxInt64"
  shows "Minor (bank_Share (FromMinor n) bps) = n * max 0 (min 10000 bps) div 10000 \<and>
    0 \<le> Minor (bank_Share (FromMinor n) bps) \<and> Minor (bank_Share (FromMinor n) bps) \<le> n"
proof -
  have e: "Minor (bank_Share (FromMinor n) bps) = n * max 0 (min 10000 bps) div 10000"
    using assms bps_split_floor [of n bps] by (auto simp: bank_Share_def Let_def max_def min_def)
  have "n * max 0 (min 10000 bps) \<le> n * 10000" using assms by (intro mult_left_mono) auto
  moreover have "0 \<le> n * max 0 (min 10000 bps)" using assms by (intro mult_nonneg_nonneg) auto
  ultimately show ?thesis unfolding e by (simp add: div_le_iff_int pos_imp_zdiv_nonneg_iff)
qed

section \<open>Typed amounts\<close>

text \<open>The digit a rune stands for: ASCII, Persian (U+06F0) and Arabic-Indic (U+0660).\<close>

definition digit_of :: "rune \<Rightarrow> int option" where
  "digit_of r =
     (if r \<ge> 48 \<and> r \<le> 57 then Some (r - 48)
      else if r \<ge> 1776 \<and> r \<le> 1785 then Some (r - 1776)
      else if r \<ge> 1632 \<and> r \<le> 1641 then Some (r - 1632)
      else None)"

definition is_grouping :: "rune \<Rightarrow> bool" where
  "is_grouping r \<longleftrightarrow> r = 44 \<or> r = 1644 \<or> r = 95"

fun parse_loop :: "rune list \<Rightarrow> int \<Rightarrow> int \<Rightarrow> bank_error + int \<times> int" where
  "parse_loop [] n digits = Inr (n, digits)"
| "parse_loop (r # rs) n digits =
     (case digit_of r of
        Some d \<Rightarrow>
          if n > quo64 (sub64 MaxInt64 d) 10 then Inl BankErrOverflow
          else parse_loop rs (add64 (mul64 n 10) d) (add64 digits 1)
      | None \<Rightarrow> if is_grouping r then parse_loop rs n digits else Inl ErrInvalidAmount)"

definition ParseAmount :: "rune list \<Rightarrow> bank_error + amount" where
  "ParseAmount raw =
     (let s = TrimSpace raw in
      if s = [] then Inl ErrInvalidAmount
      else case parse_loop s 0 0 of Inl e \<Rightarrow> Inl e
      | Inr (n, digits) \<Rightarrow> if digits = 0 \<or> n \<le> 0 then Inl ErrInvalidAmount else Inr (FromMinor n))"

text \<open>What a text spells: the digits among its runes, and their value in base ten.\<close>

definition digits_in :: "rune list \<Rightarrow> int list" where
  "digits_in s = List.map_filter digit_of s"

definition decimal_value :: "int \<Rightarrow> int list \<Rightarrow> int" where
  "decimal_value n ds = foldl (\<lambda>v d. 10 * v + d) n ds"

lemma digit_of_range: "digit_of r = Some d \<Longrightarrow> 0 \<le> d \<and> d \<le> 9"
  by (auto simp: digit_of_def split: if_splits)

lemma digits_in_simps [simp]:
  "digits_in [] = []"
  "digits_in (r # s) = (case digit_of r of None \<Rightarrow> digits_in s | Some d \<Rightarrow> d # digits_in s)"
  by (simp_all add: digits_in_def List.map_filter_def split: option.splits)

lemma digits_in_range: "\<forall>d\<in>set (digits_in s). 0 \<le> d \<and> d \<le> 9"
  by (induction s) (auto dest: digit_of_range split: option.splits)

lemma decimal_value_mono: "0 \<le> n \<Longrightarrow> \<forall>d\<in>set ds. 0 \<le> d \<Longrightarrow> n \<le> decimal_value n ds"
proof (induction ds arbitrary: n)
  case Nil
  then show ?case by (simp add: decimal_value_def)
next
  case (Cons d ds)
  then have "10 * n + d \<le> decimal_value (10 * n + d) ds" by simp
  with Cons.prems show ?case by (simp add: decimal_value_def)
qed

text \<open>The overflow test of the parser is exact.\<close>

lemma parse_step:
  assumes "0 \<le> n" "n \<le> MaxInt64" "0 \<le> d" "d \<le> 9"
  shows "n > quo64 (sub64 MaxInt64 d) 10 \<longleftrightarrow> MaxInt64 < 10 * n + d"
    and "\<not> MaxInt64 < 10 * n + d \<Longrightarrow> add64 (mul64 n 10) d = 10 * n + d"
proof -
  have "sub64 MaxInt64 d = MaxInt64 - d" using assms by (simp add: sub64_def wrap64_nonneg)
  then have "quo64 (sub64 MaxInt64 d) 10 = (MaxInt64 - d) div 10" using assms by (simp add: quo64_nonneg)
  then show "n > quo64 (sub64 MaxInt64 d) 10 \<longleftrightarrow> MaxInt64 < 10 * n + d" using assms by (simp add: div_less_iff_int) linarith
  show "add64 (mul64 n 10) d = 10 * n + d" if "\<not> MaxInt64 < 10 * n + d"
    using assms that by (simp add: add64_def mul64_def wrap64_nonneg)
qed

lemma parse_loop_Inr:
  assumes "0 \<le> n" "n \<le> MaxInt64" "0 \<le> k" "k + int (length s) \<le> MaxInt64"
  shows "parse_loop s n k = Inr (m, j) \<longleftrightarrow>
    (\<forall>r\<in>set s. digit_of r \<noteq> None \<or> is_grouping r) \<and> m = decimal_value n (digits_in s) \<and> m \<le> MaxInt64 \<and>
    j = k + int (length (digits_in s))"
  using assms
proof (induction s arbitrary: n k)
  case Nil
  then show ?case by (auto simp: decimal_value_def)
next
  case (Cons r s)
  show ?case
  proof (cases "digit_of r")
    case None
    with Cons show ?thesis by auto
  next
    case (Some d)
    note d = digit_of_range [OF Some]
    show ?thesis
    proof (cases "MaxInt64 < 10 * n + d")
      case True
      moreover have "10 * n + d \<le> decimal_value (10 * n + d) (digits_in s)"
        using d Cons.prems digits_in_range [of s] by (intro decimal_value_mono) auto
      ultimately show ?thesis
        using Some Cons.prems d parse_step(1) [of n d] by (auto simp: decimal_value_def)
    next
      case False
      have "add64 k 1 = k + 1" using Cons.prems by (simp add: add64_def wrap64_nonneg)
      with False Some Cons.prems d parse_step [of n d] Cons.IH [of "10 * n + d" "k + 1"] show ?thesis
        by (auto simp: decimal_value_def)
    qed
  qed
qed

text \<open>
  C32. The parser reads exactly the spelled numbers: it answers \<open>n\<close> when the trimmed text is made of
  digits of the three scripts and grouping marks only, with at least one digit, and the digits spell
  \<open>n\<close> with \<open>n\<close> from 1 to the largest \<open>int64\<close>; any other text is refused.
\<close>

theorem ParseAmount_iff:
  assumes "int (length raw) \<le> MaxInt64"
  shows "ParseAmount raw = Inr (FromMinor n) \<longleftrightarrow>
    (\<forall>r\<in>set (TrimSpace raw). digit_of r \<noteq> None \<or> is_grouping r) \<and> digits_in (TrimSpace raw) \<noteq> [] \<and>
    n = decimal_value 0 (digits_in (TrimSpace raw)) \<and> 0 < n \<and> n \<le> MaxInt64"
proof -
  have "length (TrimSpace raw) \<le> length raw"
    unfolding TrimSpace_def length_rev by (metis length_dropWhile_le length_rev order_trans)
  then have "int (length (TrimSpace raw)) \<le> MaxInt64" using assms by simp
  then have p: "parse_loop (TrimSpace raw) 0 0 = Inr (m, j) \<longleftrightarrow>
    (\<forall>r\<in>set (TrimSpace raw). digit_of r \<noteq> None \<or> is_grouping r) \<and> m = decimal_value 0 (digits_in (TrimSpace raw)) \<and>
    m \<le> MaxInt64 \<and> j = 0 + int (length (digits_in (TrimSpace raw)))" for m j
    by (intro parse_loop_Inr) simp_all
  show ?thesis
  proof (cases "TrimSpace raw = []")
    case True
    then show ?thesis by (simp add: ParseAmount_def)
  next
    case False
    show ?thesis
    proof (cases "parse_loop (TrimSpace raw) 0 0")
      case (Inl e)
      with p show ?thesis by (auto simp: ParseAmount_def Let_def)
    next
      case (Inr v)
      obtain m j where v: "v = (m, j)" by (cases v)
      from Inr v p [of m j] False show ?thesis by (auto simp: ParseAmount_def Let_def)
    qed
  qed
qed

theorem ParseAmount_iff_witness: "ParseAmount [32, 49, 44, 1776, 1632, 48] = Inr (FromMinor 1000)"
proof -
  have "TrimSpace [32, 49, 44, 1776, 1632, 48] = [49, 44, 1776, 1632, 48]"
    by (simp add: TrimSpace_def unicode_IsSpace_def)
  then show ?thesis
    by (subst ParseAmount_iff) (simp_all add: digit_of_def is_grouping_def decimal_value_def)
qed

section \<open>Payments\<close>

datatype payment_method = MethodCash | MethodCard | OtherMethod string

definition Method_Valid :: "payment_method \<Rightarrow> bool" where
  "Method_Valid m \<longleftrightarrow> m = MethodCash \<or> m = MethodCard"

record presence =
  prs_CityID :: string
  prs_Travelling :: bool

definition Presence_InCity :: "presence \<Rightarrow> bool" where
  "Presence_InCity p \<longleftrightarrow> prs_CityID p \<noteq> [] \<and> \<not> prs_Travelling p"

definition CheckAtBank :: "presence \<Rightarrow> bank_error option" where
  "CheckAtBank p = (if \<not> Presence_InCity p then Some ErrNotInCity else None)"

definition Together :: "presence \<Rightarrow> presence \<Rightarrow> bool" where
  "Together a b \<longleftrightarrow> Presence_InCity a \<and> Presence_InCity b \<and> prs_CityID a = prs_CityID b"

definition CheckPayment :: "string \<Rightarrow> string \<Rightarrow> payment_method \<Rightarrow> presence \<Rightarrow> presence \<Rightarrow> bank_error option" where
  "CheckPayment payerID payeeID m payer payee =
     (if payerID = payeeID then Some ErrSelfPayment
      else case m of
        MethodCash \<Rightarrow> if \<not> Together payer payee then Some ErrNotTogether else None
      | MethodCard \<Rightarrow> None
      | OtherMethod _ \<Rightarrow> Some ErrUnknownMethod)"

lemma CheckPayment_ok_iff:
  "CheckPayment a b m p q = None \<longleftrightarrow> a \<noteq> b \<and> Method_Valid m \<and> (m = MethodCash \<longrightarrow> Together p q)"
  by (cases m) (auto simp: CheckPayment_def Method_Valid_def)

text \<open>Face to face is symmetric, so cash may pass in both directions or in neither.\<close>

lemma CheckPayment_sym: "CheckPayment a b m p q = CheckPayment b a m q p"
  by (cases m) (auto simp: CheckPayment_def Together_def)

lemma Limits_Check_ok_iff:
  "NewLimits lo hi = Inr l \<Longrightarrow> Limits_Check l (FromMinor n) = None \<longleftrightarrow> lo \<le> n \<and> n \<le> hi"
  by (auto simp: NewLimits_def Limits_Check_def Amount_IsZero_def Amount_IsNegative_def split: if_splits)

lemma Limits_Clamp_ok:
  "NewLimits lo hi = Inr l \<Longrightarrow> lo \<le> n \<Longrightarrow> Limits_Check l (Limits_Clamp l (FromMinor n)) = None"
  by (auto simp: NewLimits_def Limits_Check_def Limits_Clamp_def Amount_IsZero_def Amount_IsNegative_def split: if_splits)

end
