(* ===== verification/Currency.thy ===== *)
theory Currency
  imports Go_Base
begin

text \<open>
  \<^verbatim>\<open>internal/domain/currency/currency.go\<close>: the arithmetic of a settlement's own money. A rate is
  the exact fraction \<open>Num / Den\<close> units per SUP; every conversion says which way it rounds. The
  package's \<open>mulDiv\<close> interprets \<open>floor_mul_div\<close>. The lemmas give the closed form of every conversion,
  and show that a round trip never creates money, that a mint is worth no more than its basis, that
  the desk's inverse quote is the least payment, and that a burn takes no more than its share.
\<close>

abbreviation PPM :: int where "PPM \<equiv> 1000000"
abbreviation BPS :: int where "BPS \<equiv> 10000"

section \<open>The rate\<close>

record rate =
  R0 :: int
  XRefPPM :: int

datatype currency_error = ErrBadRate

definition Rate_Valid :: "rate \<Rightarrow> bool" where
  "Rate_Valid r \<longleftrightarrow> R0 r > 0 \<and> XRefPPM r > 0"

definition Rate_Num :: "rate \<Rightarrow> int" where "Rate_Num r = mul64 (R0 r) PPM"
definition Rate_Den :: "rate \<Rightarrow> int" where "Rate_Den r = XRefPPM r"

definition currency_mulDiv :: "int \<Rightarrow> int \<Rightarrow> int \<Rightarrow> int \<times> int \<times> bool" where
  "currency_mulDiv a b c =
     (if a < 0 \<or> b < 0 \<or> c \<le> 0 then (0, 0, False)
      else case Mul64 a b of (hi, lo) \<Rightarrow>
        if hi \<ge> c then (0, 0, False)
        else case Div64 hi lo c of (qq, rr) \<Rightarrow>
          if qq > MaxInt64 then (0, 0, False) else (qq, rr, True))"

lemma currency_mulDiv_eq:
  "currency_mulDiv a b c =
    (if a < 0 \<or> b < 0 \<or> c \<le> 0 \<or> MaxInt64 < (a * b) div c then (0, 0, False)
     else ((a * b) div c, (a * b) mod c, True))"
  by (simp add: currency_mulDiv_def mul_div_128)

definition currency_md :: "int \<Rightarrow> int \<Rightarrow> int \<Rightarrow> int option" where
  "currency_md a b c = (case currency_mulDiv a b c of (q, _, ok) \<Rightarrow> if ok then Some q else None)"

interpretation cur: floor_mul_div currency_md
  by unfold_locales (simp add: currency_md_def currency_mulDiv_eq)

section \<open>Conversions\<close>

definition ToLocalFloor :: "rate \<Rightarrow> int \<Rightarrow> int" where
  "ToLocalFloor r s0 =
     (if \<not> Rate_Valid r then 0
      else case currency_mulDiv s0 (Rate_Num r) (Rate_Den r) of (q, _, _) \<Rightarrow> q)"

definition ToLocalCeil :: "rate \<Rightarrow> int \<Rightarrow> int" where
  "ToLocalCeil r s0 =
     (if \<not> Rate_Valid r then 0
      else case currency_mulDiv s0 (Rate_Num r) (Rate_Den r) of (q, rem, ok) \<Rightarrow>
        if ok \<and> rem > 0 then add64 q 1 else q)"

definition ToLocalNearest :: "rate \<Rightarrow> int \<Rightarrow> int" where
  "ToLocalNearest r s0 =
     (if \<not> Rate_Valid r then 0
      else case currency_mulDiv s0 (Rate_Num r) (Rate_Den r) of (q, rem, ok) \<Rightarrow>
        if ok \<and> mul64 rem 2 \<ge> Rate_Den r then add64 q 1 else q)"

definition ToSUPFloor :: "rate \<Rightarrow> int \<Rightarrow> int" where
  "ToSUPFloor r units =
     (if \<not> Rate_Valid r then 0
      else case currency_mulDiv units (Rate_Den r) (Rate_Num r) of (q, _, _) \<Rightarrow> q)"

lemma ToLocalFloor_eq:
  assumes "Rate_Valid r"
  shows "ToLocalFloor r s0 = (case currency_md s0 (Rate_Num r) (Rate_Den r) of Some q \<Rightarrow> q | None \<Rightarrow> 0)"
  using assms by (auto simp: ToLocalFloor_def currency_md_def currency_mulDiv_eq)

lemma ToSUPFloor_eq:
  assumes "Rate_Valid r"
  shows "ToSUPFloor r u = (case currency_md u (Rate_Den r) (Rate_Num r) of Some q \<Rightarrow> q | None \<Rightarrow> 0)"
  using assms by (auto simp: ToSUPFloor_def currency_md_def currency_mulDiv_eq)

lemma invalid_rate: "\<not> Rate_Valid r \<Longrightarrow> ToLocalFloor r s0 = 0" "\<not> Rate_Valid r \<Longrightarrow> ToSUPFloor r u = 0"
  by (simp_all add: ToLocalFloor_def ToSUPFloor_def)

lemma ToLocalFloor_nonneg: "0 \<le> ToLocalFloor r s0"
  by (cases "Rate_Valid r") (auto simp: ToLocalFloor_eq invalid_rate dest: cur.md_nonneg split: option.splits)

lemma ToSUPFloor_nonneg: "0 \<le> ToSUPFloor r u"
  by (cases "Rate_Valid r") (auto simp: ToSUPFloor_eq invalid_rate dest: cur.md_nonneg split: option.splits)

text \<open>Neither conversion is worth more than what went in, whatever overflows: a failure yields 0.\<close>

lemma ToLocalFloor_value:
  assumes "0 \<le> s0"
  shows "ToLocalFloor r s0 * Rate_Den r \<le> s0 * Rate_Num r \<or> ToLocalFloor r s0 = 0"
  by (cases "Rate_Valid r")
    (auto simp: ToLocalFloor_eq invalid_rate dest: cur.md_floor split: option.splits)

lemma ToSUPFloor_value: "ToSUPFloor r u * Rate_Num r \<le> u * Rate_Den r \<or> ToSUPFloor r u = 0"
  by (cases "Rate_Valid r")
    (auto simp: ToSUPFloor_eq invalid_rate dest: cur.md_floor split: option.splits)

lemma ToSUPFloor_nonzero:
  assumes "ToSUPFloor r u \<noteq> 0"
  shows "Rate_Valid r \<and> 0 < Rate_Num r \<and> 0 < Rate_Den r \<and> 0 \<le> u"
proof (cases "Rate_Valid r")
  case True
  with assms have "currency_md u (Rate_Den r) (Rate_Num r) \<noteq> None" by (auto simp: ToSUPFloor_eq split: option.splits)
  with True show ?thesis by (auto simp: cur.md_spec Rate_Valid_def Rate_Den_def split: if_splits)
qed (use assms in \<open>simp add: invalid_rate\<close>)

lemma ToSUPFloor_of_units:
  assumes "u * Rate_Den r \<le> x * Rate_Num r" "0 \<le> x"
  shows "ToSUPFloor r u \<le> x"
proof (cases "ToSUPFloor r u = 0")
  case False
  note nz = ToSUPFloor_nonzero [OF False]
  have "ToSUPFloor r u * Rate_Num r \<le> x * Rate_Num r" using ToSUPFloor_value [of r u] False assms by auto
  with nz show ?thesis by simp
qed (use assms in simp)

lemma conversion_no_gain_aux:
  assumes "0 \<le> s0" "u \<le> ToLocalFloor r s0"
  shows "ToSUPFloor r u \<le> s0"
proof (cases "ToSUPFloor r u = 0")
  case False
  note nz = ToSUPFloor_nonzero [OF False]
  have "ToLocalFloor r s0 * Rate_Den r \<le> s0 * Rate_Num r" using ToLocalFloor_value [OF assms(1), of r] nz assms by auto
  moreover have "u * Rate_Den r \<le> ToLocalFloor r s0 * Rate_Den r" using assms nz by (intro mult_right_mono) auto
  ultimately show ?thesis using assms(1) by (intro ToSUPFloor_of_units) auto
qed (use assms in simp)

text \<open>
  Converting there and back never creates money: the SUP value of what a holder receives for some
  SUP is at most that SUP, and fewer units are never worth more.
\<close>

lemma conversion_no_gain:
  assumes "0 \<le> s0" "u \<le> ToLocalFloor r s0"
  shows "ToSUPFloor r u \<le> s0 \<and> 0 \<le> ToSUPFloor r u"
  using conversion_no_gain_aux [OF assms] ToSUPFloor_nonneg by blast

text \<open>
  The three roundings of a price in the currency: the floor and the ceiling enclose the exact
  value, are at most one unit apart, and the nearest lies between them.
\<close>

lemma roundings_enclose:
  assumes "Rate_Valid r" "0 \<le> s0" "0 < Rate_Num r" "2 * Rate_Den r \<le> MaxInt64"
    and "(s0 * Rate_Num r) div Rate_Den r < MaxInt64"
  shows "ToLocalFloor r s0 * Rate_Den r \<le> s0 * Rate_Num r \<and> s0 * Rate_Num r \<le> ToLocalCeil r s0 * Rate_Den r \<and>
    ToLocalFloor r s0 \<le> ToLocalNearest r s0 \<and> ToLocalNearest r s0 \<le> ToLocalCeil r s0 \<and>
    ToLocalCeil r s0 \<le> ToLocalFloor r s0 + 1 \<and>
    2 * \<bar>ToLocalNearest r s0 * Rate_Den r - s0 * Rate_Num r\<bar> \<le> Rate_Den r"
proof -
  define N D where "N = s0 * Rate_Num r" and "D = Rate_Den r"
  have D: "0 < D" "2 * D \<le> MaxInt64" using assms by (simp_all add: D_def Rate_Valid_def Rate_Den_def)
  have N: "0 \<le> N" using assms by (simp add: N_def)
  define q m where "q = N div D" and "m = N mod D"
  have qm: "N = q * D + m" "0 \<le> m" "m < D" "0 \<le> q" "q < MaxInt64"
    using D N assms by (simp_all add: q_def m_def N_def D_def pos_imp_zdiv_nonneg_iff)
  have md: "currency_mulDiv s0 (Rate_Num r) (Rate_Den r) = (q, m, True)"
    using assms qm D by (simp add: currency_mulDiv_eq q_def m_def N_def D_def)
  have a: "add64 q 1 = q + 1" "mul64 m 2 = 2 * m" using qm D by (simp_all add: add64_def mul64_def wrap64_nonneg)
  have e: "ToLocalFloor r s0 = q" "ToLocalCeil r s0 = (if 0 < m then q + 1 else q)"
    "ToLocalNearest r s0 = (if D \<le> 2 * m then q + 1 else q)"
    using assms(1) by (simp_all add: ToLocalFloor_def ToLocalCeil_def ToLocalNearest_def md a D_def)
  show ?thesis
    unfolding e N_def [symmetric] D_def [symmetric] qm(1) using qm(2-4) D by (auto simp: distrib_right)
qed

section \<open>Minting against a deposit\<close>

record mint_result =
  mint_Units :: int
  mint_BasisSUP :: int
  mint_FeeSUP :: int

definition Mint :: "int \<Rightarrow> rate \<Rightarrow> int \<Rightarrow> currency_error + mint_result" where
  "Mint depositSUP r mintFeeBPS =
     (if \<not> Rate_Valid r \<or> depositSUP < 0 \<or> mintFeeBPS < 0 \<or> mintFeeBPS > BPS then Inl ErrBadRate
      else case currency_mulDiv depositSUP (sub64 BPS mintFeeBPS) BPS of (net, _, ok) \<Rightarrow>
        if \<not> ok then Inl ErrBadRate
        else case currency_mulDiv (mul64 depositSUP (sub64 BPS mintFeeBPS)) (Rate_Num r) (mul64 (Rate_Den r) BPS) of
          (units, _, ok2) \<Rightarrow>
            if \<not> ok2 then Inl ErrBadRate
            else Inr \<lparr>mint_Units = units, mint_BasisSUP = net, mint_FeeSUP = sub64 depositSUP net\<rparr>)"

text \<open>
  C33. Where the products fit in 64 bits, a mint issues exactly the market value of the deposit less the
  fee, rounded down, splits the deposit into basis and fee without loss, and the units are worth no
  more SUP than the basis that backs them: a deposit is never free money.
\<close>

theorem Mint_backed:
  assumes "Mint d r f = Inr res" "d * BPS \<le> MaxInt64" "R0 r * PPM \<le> MaxInt64" "XRefPPM r * BPS \<le> MaxInt64"
  shows "mint_Units res = (d * (BPS - f) * (R0 r * PPM)) div (XRefPPM r * BPS) \<and>
    mint_BasisSUP res + mint_FeeSUP res = d \<and> 0 \<le> mint_FeeSUP res \<and> 0 \<le> mint_BasisSUP res \<and>
    ToSUPFloor r (mint_Units res) \<le> mint_BasisSUP res"
proof -
  have g: "Rate_Valid r" "0 \<le> d" "0 \<le> f" "f \<le> BPS" using assms(1) by (auto simp: Mint_def split: if_splits)
  define k where "k = BPS - f"
  have k: "0 \<le> k" "k \<le> BPS" "sub64 BPS f = k" using g by (simp_all add: k_def sub64_def wrap64_nonneg)
  have "d * k \<le> d * BPS" using k g by (intro mult_left_mono) auto
  then have dk: "0 \<le> d * k" "mul64 d k = d * k" using k g assms(2) by (simp_all add: mul64_def wrap64_nonneg)
  have N: "Rate_Num r = R0 r * PPM" "0 < Rate_Num r" using g assms(3) by (simp_all add: Rate_Num_def mul64_def Rate_Valid_def wrap64_nonneg)
  have D: "mul64 (XRefPPM r) BPS = XRefPPM r * BPS" "0 < XRefPPM r * BPS" "Rate_Den r = XRefPPM r"
    using g assms(4) by (simp_all add: Rate_Den_def mul64_def Rate_Valid_def wrap64_nonneg)
  define net where "net = d * k div BPS"
  have dm: "d \<le> MaxInt64" using assms(2) g by simp
  have net: "0 \<le> net" "net \<le> d" "currency_mulDiv d k BPS = (net, d * k mod BPS, True)"
    using dk(1) \<open>d * k \<le> d * BPS\<close> g k dm by (auto simp: net_def currency_mulDiv_eq pos_imp_zdiv_nonneg_iff div_le_iff_int not_less)
  have u: "mint_Units res = (d * k * Rate_Num r) div (XRefPPM r * BPS)" "mint_BasisSUP res = net" "mint_FeeSUP res = sub64 d net"
    using assms(1) net(3) by (auto simp: Mint_def g k(3) dk D currency_mulDiv_eq split: if_splits)
  have fee: "sub64 d net = d - net" using net dm by (simp add: sub64_def wrap64_nonneg)
  have le: "mint_Units res * (Rate_Den r * BPS) \<le> d * k * Rate_Num r"
    unfolding u D(3) using D by (intro div_mult_le_int) simp
  have "ToSUPFloor r (mint_Units res) \<le> net"
  proof (cases "ToSUPFloor r (mint_Units res) = 0")
    case True
    with net show ?thesis by simp
  next
    case False
    then have "ToSUPFloor r (mint_Units res) * Rate_Num r \<le> mint_Units res * Rate_Den r" using ToSUPFloor_value by blast
    then have "(ToSUPFloor r (mint_Units res) * Rate_Num r) * BPS \<le> (mint_Units res * Rate_Den r) * BPS"
      by (intro mult_right_mono) simp_all
    also have "\<dots> \<le> d * k * Rate_Num r" using le by (simp only: mult.assoc)
    finally have "(ToSUPFloor r (mint_Units res) * BPS) * Rate_Num r \<le> (d * k) * Rate_Num r" by (simp only: ac_simps)
    then have "ToSUPFloor r (mint_Units res) * BPS \<le> d * k" using N by simp
    then show ?thesis by (simp add: net_def le_div_iff_int)
  qed
  with u fee net show ?thesis by (simp add: k_def N)
qed

theorem Mint_backed_witness:
  "\<exists>res. Mint 1000 \<lparr>R0 = 10, XRefPPM = 1500000\<rparr> 200 = Inr res \<and> mint_BasisSUP res + mint_FeeSUP res = 1000"
proof -
  have "case Mint 1000 \<lparr>R0 = 10, XRefPPM = 1500000\<rparr> 200 of Inl _ \<Rightarrow> False | Inr _ \<Rightarrow> True" by code_simp
  then obtain res where "Mint 1000 \<lparr>R0 = 10, XRefPPM = 1500000\<rparr> 200 = Inr res" by (auto split: sum.splits)
  with Mint_backed [OF this] show ?thesis by simp
qed

text \<open>For a deposit whose product with the basis points overflows, the units are those of the wrapped
  product: here a deposit of 1.9e15 SUP at par without a fee mints no unit at all, while the whole of it becomes basis.\<close>

lemma Mint_wraps:
  "Mint 1844674407370956 \<lparr>R0 = 1, XRefPPM = 1000000\<rparr> 0 =
     Inr \<lparr>mint_Units = 0, mint_BasisSUP = 1844674407370956, mint_FeeSUP = 0\<rparr>"
  by code_simp

section \<open>Charters\<close>

record terms =
  tm_Fee :: int
  tm_MinDeposit :: int
  tm_ShareBPS :: int
  tm_Floor :: int

record plan =
  pl_Fee :: int
  pl_Deposit :: int
  pl_OK :: bool

definition Plan_zero :: plan where
  "Plan_zero = \<lparr>pl_Fee = 0, pl_Deposit = 0, pl_OK = False\<rparr>"

definition PlanAuto :: "int \<Rightarrow> terms \<Rightarrow> bool \<Rightarrow> plan" where
  "PlanAuto treasury t atFounding =
     (if treasury < tm_Fee t \<or> tm_Fee t < 0 \<or> tm_MinDeposit t \<le> 0 then Plan_zero
      else if atFounding \<and> treasury \<ge> add64 (tm_Fee t) (tm_MinDeposit t) then
        \<lparr>pl_Fee = tm_Fee t, pl_Deposit = tm_MinDeposit t, pl_OK = True\<rparr>
      else case currency_mulDiv (sub64 treasury (tm_Fee t)) (tm_ShareBPS t) BPS of (share, _, ok) \<Rightarrow>
        if \<not> ok then Plan_zero
        else let deposit = min (tm_MinDeposit t) share in
          if deposit < tm_Floor t \<or> deposit \<le> 0 then Plan_zero
          else \<lparr>pl_Fee = tm_Fee t, pl_Deposit = deposit, pl_OK = True\<rparr>)"

text \<open>
  An automatic charter never costs more than the treasury holds, never deposits more than the
  minimum deposit, and away from founding deposits at most its share of what the fee leaves, and never
  less than the floor.
\<close>

lemma PlanAuto_affordable:
  assumes "pl_OK (PlanAuto tr t founding)" "tr \<le> MaxInt64" "tm_Fee t + tm_MinDeposit t \<le> MaxInt64" "tm_ShareBPS t \<le> BPS"
  shows "pl_Fee (PlanAuto tr t founding) + pl_Deposit (PlanAuto tr t founding) \<le> tr \<and>
    0 < pl_Deposit (PlanAuto tr t founding) \<and> pl_Deposit (PlanAuto tr t founding) \<le> tm_MinDeposit t \<and>
    (founding \<and> tm_Fee t + tm_MinDeposit t \<le> tr \<or> tm_Floor t \<le> pl_Deposit (PlanAuto tr t founding) \<and>
      pl_Deposit (PlanAuto tr t founding) * BPS \<le> (tr - tm_Fee t) * tm_ShareBPS t)"
proof -
  have g: "tm_Fee t \<le> tr" "0 \<le> tm_Fee t" "0 < tm_MinDeposit t"
    using assms(1) by (auto simp: PlanAuto_def Plan_zero_def split: if_splits)
  have a: "add64 (tm_Fee t) (tm_MinDeposit t) = tm_Fee t + tm_MinDeposit t" "sub64 tr (tm_Fee t) = tr - tm_Fee t"
    using g assms by (simp_all add: add64_def sub64_def wrap64_nonneg)
  show ?thesis
  proof (cases "founding \<and> tm_Fee t + tm_MinDeposit t \<le> tr")
    case True
    with g a have "PlanAuto tr t founding = \<lparr>pl_Fee = tm_Fee t, pl_Deposit = tm_MinDeposit t, pl_OK = True\<rparr>"
      by (simp add: PlanAuto_def)
    with True g show ?thesis by simp
  next
    case False
    define s where "s = (tr - tm_Fee t) * tm_ShareBPS t div BPS"
    have sh: "0 \<le> tm_ShareBPS t" and pl: "PlanAuto tr t founding = \<lparr>pl_Fee = tm_Fee t, pl_Deposit = min (tm_MinDeposit t) s, pl_OK = True\<rparr>"
      "tm_Floor t \<le> min (tm_MinDeposit t) s" "0 < min (tm_MinDeposit t) s"
      using assms(1) False g by (auto simp: PlanAuto_def Plan_zero_def a currency_mulDiv_eq s_def Let_def not_less split: if_splits)
    have "(tr - tm_Fee t) * tm_ShareBPS t \<le> (tr - tm_Fee t) * BPS" using g assms by (intro mult_left_mono) auto
    then have "s \<le> tr - tm_Fee t" by (simp add: s_def div_le_iff_int)
    moreover have "min (tm_MinDeposit t) s * BPS \<le> (tr - tm_Fee t) * tm_ShareBPS t"
      by (subst le_div_iff_int [symmetric]) (simp_all add: s_def)
    ultimately show ?thesis using pl g by auto
  qed
qed

definition RateOptions :: "int list" where "RateOptions = [1, 10, 100]"

definition ValidR0 :: "int \<Rightarrow> bool" where
  "ValidR0 r0 \<longleftrightarrow> (\<exists>v\<in>set RateOptions. v = r0)"

definition ValidDeskFee :: "int \<Rightarrow> bool" where
  "ValidDeskFee bps \<longleftrightarrow> 10 \<le> bps \<and> bps \<le> 300"

lemma ValidR0_num: "ValidR0 (R0 r) \<Longrightarrow> 0 < XRefPPM r \<Longrightarrow> Rate_Valid r \<and> Rate_Num r = R0 r * PPM"
  by (auto simp: ValidR0_def RateOptions_def Rate_Valid_def Rate_Num_def mul64_def wrap64_def)

section \<open>The desk\<close>

definition DeskBuy :: "int \<Rightarrow> rate \<Rightarrow> int \<Rightarrow> int \<times> int" where
  "DeskBuy supIn r feeBPS =
     (if supIn \<le> 0 \<or> \<not> Rate_Valid r \<or> feeBPS < 0 \<or> feeBPS > BPS then (0, 0)
      else case currency_mulDiv supIn feeBPS BPS of (fee, rem, ok) \<Rightarrow>
        if \<not> ok then (0, 0)
        else let fee = (if rem > 0 then add64 fee 1 else fee) in
          (ToLocalFloor r (sub64 supIn fee), fee))"

definition DeskSell :: "int \<Rightarrow> rate \<Rightarrow> int \<Rightarrow> int \<times> int" where
  "DeskSell unitsIn r feeBPS =
     (if unitsIn \<le> 0 \<or> \<not> Rate_Valid r \<or> feeBPS < 0 \<or> feeBPS > BPS then (0, 0)
      else case currency_mulDiv unitsIn feeBPS BPS of (fee, rem, ok) \<Rightarrow>
        if \<not> ok then (0, 0)
        else let fee = (if rem > 0 then add64 fee 1 else fee) in
          (ToSUPFloor r (sub64 unitsIn fee), fee))"

text \<open>The fee both legs take: the exact charge, rounded up; it never exceeds the amount.\<close>

lemma desk_fee:
  assumes "0 \<le> x" "x \<le> MaxInt64" "0 \<le> f" "f \<le> BPS"
  shows "currency_mulDiv x f BPS = (x * f div BPS, x * f mod BPS, True)"
    and "(if 0 < x * f mod BPS then add64 (x * f div BPS) 1 else x * f div BPS) = ceil_div (x * f) BPS"
    and "0 \<le> ceil_div (x * f) BPS" "ceil_div (x * f) BPS \<le> x" "sub64 x (ceil_div (x * f) BPS) = x - ceil_div (x * f) BPS"
proof -
  have xf: "0 \<le> x * f" "x * f \<le> x * BPS" using assms by (simp_all add: mult_left_mono)
  then have q: "0 \<le> x * f div BPS" "x * f div BPS \<le> x" by (simp_all add: pos_imp_zdiv_nonneg_iff div_le_iff_int)
  then show "currency_mulDiv x f BPS = (x * f div BPS, x * f mod BPS, True)"
    using assms by (simp add: currency_mulDiv_eq)
  show c: "0 \<le> ceil_div (x * f) BPS" "ceil_div (x * f) BPS \<le> x"
    using xf by (simp_all add: ceil_div_nonneg ceil_div_le_iff)
  have e: "ceil_div (x * f) BPS = x * f div BPS + (if x * f mod BPS = 0 then 0 else 1)" by (rule ceil_div_eq_floor) simp
  have "add64 (x * f div BPS) 1 = x * f div BPS + 1" if "0 < x * f mod BPS"
    using that e c q assms by (simp add: add64_def wrap64_nonneg)
  moreover have "x * f mod BPS = 0 \<or> 0 < x * f mod BPS" using pos_mod_sign [of BPS "x * f"] by linarith
  ultimately show "(if 0 < x * f mod BPS then add64 (x * f div BPS) 1 else x * f div BPS) = ceil_div (x * f) BPS"
    unfolding e by auto
  show "sub64 x (ceil_div (x * f) BPS) = x - ceil_div (x * f) BPS"
    using c assms by (simp add: sub64_def wrap64_nonneg)
qed

definition desk_net :: "int \<Rightarrow> int \<Rightarrow> int" where
  "desk_net x f = x - ceil_div (x * f) BPS"

lemma DeskBuy_eq:
  assumes "0 < x" "x \<le> MaxInt64" "Rate_Valid r" "0 \<le> f" "f \<le> BPS"
  shows "DeskBuy x r f = (ToLocalFloor r (desk_net x f), ceil_div (x * f) BPS)"
  using assms desk_fee [of x f] by (simp add: DeskBuy_def desk_net_def Let_def)

lemma DeskSell_eq:
  assumes "0 < x" "x \<le> MaxInt64" "Rate_Valid r" "0 \<le> f" "f \<le> BPS"
  shows "DeskSell x r f = (ToSUPFloor r (desk_net x f), ceil_div (x * f) BPS)"
  using assms desk_fee [of x f] by (simp add: DeskSell_def desk_net_def Let_def)

lemma desk_net_floor: "desk_net x f = x * (BPS - f) div BPS"
proof (rule antisym)
  have "(x - ceil_div (x * f) BPS) * BPS \<le> x * (BPS - f)"
    using ceil_div_mult_ge [of BPS "x * f"] by (simp add: algebra_simps)
  then show "desk_net x f \<le> x * (BPS - f) div BPS" by (simp add: desk_net_def le_div_iff_int)
  have "x * f \<le> (x - x * (BPS - f) div BPS) * BPS"
    using div_mult_le_int [of BPS "x * (BPS - f)"] by (simp add: algebra_simps)
  then show "x * (BPS - f) div BPS \<le> desk_net x f"
    using ceil_div_le_iff [of BPS "x * f" "x - x * (BPS - f) div BPS"] by (simp add: desk_net_def)
qed

lemma desk_net_mono: "x \<le> y \<Longrightarrow> f \<le> BPS \<Longrightarrow> desk_net x f \<le> desk_net y f"
  by (simp add: desk_net_floor zdiv_mono1 mult_right_mono)

lemma desk_net_bounds: "0 \<le> x \<Longrightarrow> 0 \<le> f \<Longrightarrow> f \<le> BPS \<Longrightarrow> 0 \<le> desk_net x f \<and> desk_net x f \<le> x"
proof -
  assume a: "0 \<le> x" "0 \<le> f" "f \<le> BPS"
  then have "0 \<le> x * f" "x * f \<le> x * BPS" by (simp_all add: mult_left_mono)
  then show ?thesis by (simp add: desk_net_def ceil_div_nonneg ceil_div_le_iff)
qed

text \<open>
  C34. The desk takes its fee out of what is paid, rounded up, never more than what is paid; and a
  player who buys units and sells them straight back never has more SUP than before.
\<close>

theorem desk_no_profit:
  assumes "x \<le> MaxInt64" "fst (DeskBuy x r f) \<le> MaxInt64"
  shows "0 \<le> snd (DeskBuy x r f) \<and> (0 < x \<longrightarrow> snd (DeskBuy x r f) \<le> x) \<and>
    fst (DeskSell (fst (DeskBuy x r f)) r g) \<le> max x 0"
proof (cases "x \<le> 0 \<or> \<not> Rate_Valid r \<or> f < 0 \<or> f > BPS")
  case True
  then have "DeskBuy x r f = (0, 0)" by (simp add: DeskBuy_def)
  then show ?thesis by (simp add: DeskSell_def)
next
  case False
  then have x: "0 < x" "x \<le> MaxInt64" "Rate_Valid r" "0 \<le> f" "f \<le> BPS" using assms by auto
  note b = DeskBuy_eq [OF x]
  have fee: "0 \<le> ceil_div (x * f) BPS" "ceil_div (x * f) BPS \<le> x" using desk_fee(3,4) [of x f] x by simp_all
  have net: "0 \<le> desk_net x f" "desk_net x f \<le> x" using desk_net_bounds [of x f] x by simp_all
  define u where "u = ToLocalFloor r (desk_net x f)"
  have "fst (DeskSell u r g) \<le> x"
  proof (cases "u \<le> 0 \<or> g < 0 \<or> g > BPS")
    case True
    then have "DeskSell u r g = (0, 0)" by (auto simp: DeskSell_def)
    with x show ?thesis by simp
  next
    case False
    then have u: "0 < u" "u \<le> MaxInt64" "0 \<le> g" "g \<le> BPS" using assms(2) by (auto simp: b u_def)
    have "desk_net u g \<le> u" using desk_net_bounds [of u g] u by simp
    then have "ToSUPFloor r (desk_net u g) \<le> desk_net x f"
      using net(1) by (intro conversion_no_gain_aux) (simp_all add: u_def)
    with net(2) DeskSell_eq [OF u(1,2) x(3) u(3,4)] show ?thesis by simp
  qed
  with fee x show ?thesis by (simp add: b u_def)
qed

theorem desk_no_profit_witness:
  "fst (DeskSell (fst (DeskBuy 1000 \<lparr>R0 = 10, XRefPPM = 1500000\<rparr> 30)) \<lparr>R0 = 10, XRefPPM = 1500000\<rparr> 30) \<le> 1000"
proof -
  have "fst (DeskBuy 1000 \<lparr>R0 = 10, XRefPPM = 1500000\<rparr> 30) \<le> MaxInt64" by code_simp
  from desk_no_profit [OF _ this, of 30] show ?thesis by simp
qed

section \<open>The least payment that buys so many units\<close>

function desk_walk_down :: "int \<Rightarrow> rate \<Rightarrow> int \<Rightarrow> int \<Rightarrow> int" where
  "desk_walk_down units r feeBPS s0 =
     (if s0 > 1 \<and> \<not> fst (DeskBuy (sub64 s0 1) r feeBPS) < units
      then desk_walk_down units r feeBPS (sub64 s0 1) else s0)"
  by pat_completeness auto

termination desk_walk_down
proof (relation "measure (\<lambda>(_, _, _, s0). nat s0)")
  show "((units, r, feeBPS, sub64 s0 1), (units, r, feeBPS, s0)) \<in> measure (\<lambda>(_, _, _, s0). nat s0)"
    if "s0 > 1 \<and> \<not> fst (DeskBuy (sub64 s0 1) r feeBPS) < units" for units r feeBPS s0
    using that wrap64_le [of "s0 - 1"] by (simp add: sub64_def)
qed simp

declare desk_walk_down.simps [simp del]

fun desk_walk_up :: "nat \<Rightarrow> int \<Rightarrow> rate \<Rightarrow> int \<Rightarrow> int \<Rightarrow> int" where
  "desk_walk_up 0 units r feeBPS s0 = 0"
| "desk_walk_up (Suc steps) units r feeBPS s0 =
     (if fst (DeskBuy s0 r feeBPS) \<ge> units then s0 else desk_walk_up steps units r feeBPS (add64 s0 1))"

definition DeskBuyCost :: "int \<Rightarrow> rate \<Rightarrow> int \<Rightarrow> int" where
  "DeskBuyCost units r feeBPS =
     (if units \<le> 0 \<or> \<not> Rate_Valid r \<or> feeBPS < 0 \<or> feeBPS \<ge> BPS then 0
      else case currency_mulDiv units (Rate_Den r) (Rate_Num r) of (est, _, ok) \<Rightarrow>
        if \<not> ok then 0
        else case currency_mulDiv (add64 est 1) BPS (sub64 BPS feeBPS) of (est, _, ok) \<Rightarrow>
          if \<not> ok then 0
          else desk_walk_up 1000 units r feeBPS (desk_walk_down units r feeBPS (add64 est 2)))"

text \<open>More SUP never buys fewer units, as long as the larger purchase does not overflow.\<close>

lemma DeskBuy_mono:
  assumes "Rate_Valid r" "0 \<le> f" "f \<le> BPS" "x \<le> y" "0 < y" "y \<le> MaxInt64" "0 < Rate_Num r"
    and "desk_net y f * Rate_Num r div Rate_Den r \<le> MaxInt64"
  shows "fst (DeskBuy x r f) \<le> fst (DeskBuy y r f)" "fst (DeskBuy y r f) = desk_net y f * Rate_Num r div Rate_Den r"
proof -
  have D: "0 < Rate_Den r" using assms(1) by (simp add: Rate_Valid_def Rate_Den_def)
  have n: "0 \<le> desk_net y f" using desk_net_bounds [of y f] assms by simp
  have y: "fst (DeskBuy y r f) = desk_net y f * Rate_Num r div Rate_Den r"
    using assms n D by (simp add: DeskBuy_eq ToLocalFloor_eq cur.md_SomeI)
  then show "fst (DeskBuy y r f) = desk_net y f * Rate_Num r div Rate_Den r" .
  show "fst (DeskBuy x r f) \<le> fst (DeskBuy y r f)"
  proof (cases "0 < x")
    case False
    then have "fst (DeskBuy x r f) = 0" by (simp add: DeskBuy_def)
    moreover have "0 \<le> fst (DeskBuy y r f)"
      unfolding y using n D assms(7) by (simp add: pos_imp_zdiv_nonneg_iff)
    ultimately show ?thesis by simp
  next
    case True
    have m: "desk_net x f * Rate_Num r div Rate_Den r \<le> desk_net y f * Rate_Num r div Rate_Den r"
      using desk_net_mono [of x y f] assms D by (intro zdiv_mono1 mult_right_mono) auto
    have "0 \<le> desk_net x f" using desk_net_bounds [of x f] True assms by simp
    then have "fst (DeskBuy x r f) = desk_net x f * Rate_Num r div Rate_Den r"
      using True assms D m by (simp add: DeskBuy_eq ToLocalFloor_eq cur.md_SomeI)
    with y m show ?thesis by simp
  qed
qed

text \<open>The walk down keeps the purchase large enough and stops at the first amount below which it is not.\<close>

lemma desk_walk_down_ok:
  assumes "s0 \<le> MaxInt64" "1 \<le> s0" "units \<le> fst (DeskBuy s0 r f)" "0 < units"
  shows "units \<le> fst (DeskBuy (desk_walk_down units r f s0) r f) \<and> 1 \<le> desk_walk_down units r f s0 \<and>
    desk_walk_down units r f s0 \<le> s0 \<and> fst (DeskBuy (desk_walk_down units r f s0 - 1) r f) < units"
  using assms
proof (induction units r f s0 rule: desk_walk_down.induct)
  case (1 units r f s0)
  have sub: "sub64 s0 1 = s0 - 1" if "s0 > 1" using that 1(2) by (simp add: sub64_def wrap64_nonneg)
  show ?case
  proof (cases "s0 > 1 \<and> \<not> fst (DeskBuy (sub64 s0 1) r f) < units")
    case True
    then have eq: "desk_walk_down units r f s0 = desk_walk_down units r f (s0 - 1)"
      using sub by (subst desk_walk_down.simps) simp
    from True sub 1 show ?thesis unfolding eq by auto
  next
    case False
    have eq: "desk_walk_down units r f s0 = s0"
      by (subst desk_walk_down.simps) (rule if_not_P [OF False])
    have "fst (DeskBuy (s0 - 1) r f) < units"
    proof (cases "s0 > 1")
      case True
      with False sub show ?thesis by simp
    next
      case False
      then have "DeskBuy (s0 - 1) r f = (0, 0)" by (simp add: DeskBuy_def)
      with 1(5) show ?thesis by simp
    qed
    with 1 show ?thesis unfolding eq by simp
  qed
qed

text \<open>The closed-form estimate always buys enough.\<close>

lemma desk_estimate:
  assumes "0 < N" "0 < D" "0 \<le> f" "f < BPS" "0 < units"
  defines "e1 \<equiv> units * D div N"
  defines "e2 \<equiv> (e1 + 1) * BPS div (BPS - f)"
  shows "units \<le> desk_net (e2 + 2) f * N div D" "0 \<le> e1" "e1 + 1 \<le> e2"
proof -
  show e1: "0 \<le> e1" using assms by (simp add: e1_def pos_imp_zdiv_nonneg_iff)
  have "(e1 + 1) * (BPS - f) \<le> (e1 + 1) * BPS" using e1 assms(3) by (intro mult_left_mono) auto
  then show "e1 + 1 \<le> e2" unfolding e2_def using assms(4) by (subst le_div_iff_int) simp_all
  have "(e1 + 1) * BPS < (e2 + 1) * (BPS - f)" unfolding e2_def using assms(4) by (intro div_mult_less_int) simp
  also have "\<dots> \<le> (e2 + 2) * (BPS - f)" using assms(4) by (intro mult_right_mono) auto
  finally have "e1 + 1 \<le> desk_net (e2 + 2) f" by (simp add: desk_net_floor le_div_iff_int)
  then have "(e1 + 1) * N \<le> desk_net (e2 + 2) f * N" using assms(1) by (intro mult_right_mono) auto
  moreover have "units * D < (e1 + 1) * N" unfolding e1_def using assms(1) by (rule div_mult_less_int)
  ultimately show "units \<le> desk_net (e2 + 2) f * N div D" using assms(2) by (simp add: le_div_iff_int)
qed

text \<open>
  Where nothing overflows, the inverse quote exists and is the least payment: it buys at least the
  units asked for, and every smaller payment buys fewer.
\<close>

lemma DeskBuyCost_least:
  assumes "0 < units" "Rate_Valid r" "0 < Rate_Num r" "0 \<le> f" "f < BPS"
  defines "est \<equiv> (units * Rate_Den r div Rate_Num r + 1) * BPS div (BPS - f)"
  assumes "est + 2 \<le> MaxInt64" "(est + 2) * Rate_Num r div Rate_Den r \<le> MaxInt64"
  shows "0 < DeskBuyCost units r f \<and> units \<le> fst (DeskBuy (DeskBuyCost units r f) r f) \<and>
    (\<forall>x<DeskBuyCost units r f. fst (DeskBuy x r f) < units)"
proof -
  define N D where "N = Rate_Num r" and "D = Rate_Den r"
  have ND: "0 < N" "0 < D" using assms(2,3) by (simp_all add: N_def D_def Rate_Valid_def Rate_Den_def)
  define e1 where "e1 = units * D div N"
  have est: "est = (e1 + 1) * BPS div (BPS - f)" by (simp add: est_def e1_def N_def D_def)
  note e = desk_estimate [OF ND assms(4,5,1), folded e1_def, folded est]
  have sub: "sub64 BPS f = BPS - f" using assms(4,5) by (simp add: sub64_def wrap64_nonneg)
  have a: "add64 e1 1 = e1 + 1" "add64 est 2 = est + 2" using e assms(7) by (simp_all add: add64_def wrap64_nonneg)
  define w where "w = desk_walk_down units r f (est + 2)"
  have "currency_mulDiv units D N = (e1, units * D mod N, True)"
    using ND e assms(1,7) by (simp add: currency_mulDiv_eq e1_def not_less)
  moreover have "currency_mulDiv (e1 + 1) BPS (BPS - f) = (est, (e1 + 1) * BPS mod (BPS - f), True)"
    using e assms(5,7) by (simp add: currency_mulDiv_eq est not_less)
  ultimately have cost: "DeskBuyCost units r f = desk_walk_up 1000 units r f w"
    using assms(1,2,4,5) by (simp add: DeskBuyCost_def N_def [symmetric] D_def [symmetric] a sub w_def)
  have net: "desk_net y f * N div D \<le> MaxInt64" if "0 \<le> y" "y \<le> est + 2" for y
  proof -
    have "desk_net y f * N \<le> (est + 2) * N" using desk_net_bounds [of y f] that assms(4,5) ND by (intro mult_right_mono) auto
    then have "desk_net y f * N div D \<le> (est + 2) * N div D" using ND by (intro zdiv_mono1) auto
    with assms(8) show ?thesis by (simp add: N_def D_def)
  qed
  have pos: "0 < est + 2" using e by simp
  have "units \<le> fst (DeskBuy (est + 2) r f)"
    using DeskBuy_mono(2) [of r f "est + 2" "est + 2"] assms(2-5,7) pos net [of "est + 2"] e(1)
    by (simp add: N_def D_def)
  then have w: "units \<le> fst (DeskBuy w r f)" "1 \<le> w" "w \<le> est + 2" "fst (DeskBuy (w - 1) r f) < units"
    using desk_walk_down_ok [of "est + 2" units r f] assms(1,7) pos by (auto simp: w_def)
  then have c: "DeskBuyCost units r f = w" unfolding cost by (simp add: eval_nat_numeral)
  have "fst (DeskBuy x r f) < units" if "x < w" for x
  proof (cases "1 < w")
    case True
    have "fst (DeskBuy x r f) \<le> fst (DeskBuy (w - 1) r f)"
      using that True assms(2-5,7) w net [of "w - 1"] by (intro DeskBuy_mono(1)) (auto simp: N_def D_def)
    with w(4) show ?thesis by simp
  next
    case False
    with that w have "DeskBuy x r f = (0, 0)" by (simp add: DeskBuy_def)
    with assms(1) show ?thesis by simp
  qed
  with c w show ?thesis by simp
qed

section \<open>Burning\<close>

definition BurnBasis :: "int \<Rightarrow> int \<Rightarrow> int \<Rightarrow> int" where
  "BurnBasis basis supply burn =
     (if basis \<le> 0 \<or> supply \<le> 0 \<or> burn \<le> 0 then 0
      else if burn \<ge> supply then basis
      else case currency_mulDiv basis burn supply of (q, _, ok) \<Rightarrow> if \<not> ok then 0 else q)"

text \<open>
  A burn takes its proportional share of the basis, rounded down and never an overflow: the
  backing per unit of what remains does not fall, and burning the whole supply takes the whole basis.
\<close>

lemma BurnBasis_share:
  assumes "0 \<le> basis" "basis \<le> MaxInt64" "0 < supply" "0 \<le> burn" "burn \<le> supply"
  shows "BurnBasis basis supply burn = basis * burn div supply \<and>
    0 \<le> BurnBasis basis supply burn \<and> BurnBasis basis supply burn \<le> basis \<and>
    basis * (supply - burn) \<le> (basis - BurnBasis basis supply burn) * supply"
proof -
  note t = cur.md_share_total [OF assms(1,2,4,5,3)]
  have "currency_mulDiv basis burn supply = (basis * burn div supply, basis * burn mod supply, True)"
    using assms t(2) by (simp add: currency_mulDiv_eq not_less)
  then have e: "BurnBasis basis supply burn = basis * burn div supply"
    using assms by (auto simp: BurnBasis_def)
  have "basis * burn div supply * supply \<le> basis * burn" using assms(3) by (rule div_mult_le_int)
  with e t(2) assms show ?thesis by (simp add: pos_imp_zdiv_nonneg_iff algebra_simps)
qed

end
