(* ===== verification/Fx.thy ===== *)
theory Fx
  imports Go_Base
begin

text \<open>
  \<^verbatim>\<open>internal/domain/fx/fx.go\<close>: the arithmetic of the order book of a settlement's money. Prices are
  micro-SUP per unit. The package's \<open>mulDiv\<close> interprets \<open>floor_mul_div\<close> and its cumulative fee
  interprets \<open>ceil_fee\<close>. The lemmas give the exact value of a fill; the properties show that a whole run of
  fills of a buy order never draws more than its escrow, that the circuit breaker is a band around the
  reference, that the reference rate is an average of what it averages, and that a typed price never
  overflows. A typed text is its list of runes.
\<close>

abbreviation PriceScale :: int where "PriceScale \<equiv> 1000000"
abbreviation FxBPS :: int where "FxBPS \<equiv> 10000"

section \<open>Products and quotients\<close>

definition fx_mulDiv :: "int \<Rightarrow> int \<Rightarrow> int \<Rightarrow> int \<times> int \<times> bool" where
  "fx_mulDiv a b c =
     (if a < 0 \<or> b < 0 \<or> c \<le> 0 then (0, 0, False)
      else case Mul64 a b of (hi, lo) \<Rightarrow>
        if hi \<ge> c then (0, 0, False)
        else case Div64 hi lo c of (qq, rr) \<Rightarrow>
          if qq > MaxInt64 then (0, 0, False) else (qq, rr, True))"

definition MulCeil :: "int \<Rightarrow> int \<Rightarrow> int \<Rightarrow> int" where
  "MulCeil a b c =
     (case fx_mulDiv a b c of (q, rem, ok) \<Rightarrow>
        if \<not> ok then 0 else if rem > 0 then add64 q 1 else q)"

definition MulFloor :: "int \<Rightarrow> int \<Rightarrow> int \<Rightarrow> int" where
  "MulFloor a b c = (case fx_mulDiv a b c of (q, _, ok) \<Rightarrow> if \<not> ok then 0 else q)"

lemma fx_mulDiv_eq:
  "fx_mulDiv a b c =
    (if a < 0 \<or> b < 0 \<or> c \<le> 0 \<or> MaxInt64 < (a * b) div c then (0, 0, False)
     else ((a * b) div c, (a * b) mod c, True))"
  by (simp add: fx_mulDiv_def mul_div_128)

definition fx_md :: "int \<Rightarrow> int \<Rightarrow> int \<Rightarrow> int option" where
  "fx_md a b c = (case fx_mulDiv a b c of (q, _, ok) \<Rightarrow> if ok then Some q else None)"

interpretation fx: floor_mul_div fx_md
  by unfold_locales (simp add: fx_md_def fx_mulDiv_eq)

lemma MulFloor_md: "MulFloor a b c = (case fx_md a b c of None \<Rightarrow> 0 | Some q \<Rightarrow> q)"
  by (simp add: MulFloor_def fx_md_def split: prod.splits)

lemma MulCeil_eq:
  assumes "0 \<le> a" "0 \<le> b" "0 < c" "ceil_div (a * b) c \<le> MaxInt64"
  shows "MulCeil a b c = ceil_div (a * b) c"
proof -
  have e: "ceil_div (a * b) c = a * b div c + (if a * b mod c = 0 then 0 else 1)" using assms(3) by (rule ceil_div_eq_floor)
  have q: "0 \<le> a * b div c" "a * b div c \<le> MaxInt64" using assms e by (auto simp: pos_imp_zdiv_nonneg_iff split: if_splits)
  then have md: "fx_mulDiv a b c = (a * b div c, a * b mod c, True)" using assms by (simp add: fx_mulDiv_eq not_less)
  have "a * b mod c = 0 \<or> 0 < a * b mod c" using pos_mod_sign [OF assms(3), of "a * b"] by linarith
  moreover have "add64 (a * b div c) 1 = a * b div c + 1" if "0 < a * b mod c"
    using that e assms(4) q by (simp add: add64_def wrap64_nonneg)
  ultimately show ?thesis by (auto simp: MulCeil_def md e)
qed

section \<open>Prices\<close>

definition RefPrice :: "int \<Rightarrow> int \<Rightarrow> int" where
  "RefPrice xRefPPM r0 =
     (if xRefPPM \<le> 0 \<or> r0 \<le> 0 then 0
      else max (quo64 (add64 xRefPPM (quo64 r0 2)) r0) 1)"

definition XFromPrice :: "int \<Rightarrow> int \<Rightarrow> int" where
  "XFromPrice price r0 = mul64 price r0"

definition Band :: "int \<Rightarrow> int \<Rightarrow> int \<times> int" where
  "Band refPrice maxMoveBPS =
     (if refPrice \<le> 0 \<or> maxMoveBPS < 0 then (0, 0)
      else let d = MulCeil refPrice maxMoveBPS FxBPS in (max (sub64 refPrice d) 1, add64 refPrice d))"

definition InBand :: "int \<Rightarrow> int \<Rightarrow> int \<Rightarrow> bool" where
  "InBand price refPrice maxMoveBPS =
     (case Band refPrice maxMoveBPS of (lo, hi) \<Rightarrow> lo > 0 \<and> price \<ge> lo \<and> price \<le> hi)"

lemma RefPrice_nearest:
  assumes "0 < x" "0 < r0" "x + r0 \<le> MaxInt64"
  shows "RefPrice x r0 = max ((x + r0 div 2) div r0) 1" "RefPrice x r0 = 1 \<or> 2 * \<bar>RefPrice x r0 * r0 - x\<bar> \<le> r0"
proof -
  have "quo64 r0 2 = r0 div 2" using assms by (simp add: quo64_nonneg)
  moreover have "0 \<le> r0 div 2" "r0 div 2 \<le> r0" "2 * (r0 div 2) \<le> r0" "r0 \<le> 2 * (r0 div 2) + 1" using assms by linarith+
  ultimately show e: "RefPrice x r0 = max ((x + r0 div 2) div r0) 1"
    using assms by (simp add: RefPrice_def add64_def wrap64_nonneg quo64_nonneg)
  define h where "h = r0 div 2"
  define a where "a = (x + h) div r0 * r0"
  have "a \<le> x + r0 div 2" "x + r0 div 2 < a + r0"
    using div_mult_le_int [OF assms(2), of "x + r0 div 2"] div_mult_less_int [OF assms(2), of "x + r0 div 2"]
    by (simp_all add: a_def h_def distrib_right)
  then have "2 * (a - x) \<le> r0" "2 * (x - a) \<le> r0"
    using \<open>2 * (r0 div 2) \<le> r0\<close> \<open>r0 \<le> 2 * (r0 div 2) + 1\<close> unfolding h_def [symmetric] by presburger+
  then have "2 * \<bar>a - x\<bar> \<le> r0" unfolding abs_if by simp
  then have "2 * \<bar>(x + r0 div 2) div r0 * r0 - x\<bar> \<le> r0" by (simp only: a_def h_def)
  then show "RefPrice x r0 = 1 \<or> 2 * \<bar>RefPrice x r0 * r0 - x\<bar> \<le> r0" unfolding e by (auto simp: max_def)
qed

text \<open>
  The circuit breaker: where the limits fit in 64 bits, a price is accepted exactly when it is
  positive and differs from the reference by at most the allowed share of it, rounded up to a whole
  micro-SUP. The reference itself is always accepted.
\<close>

lemma InBand_iff:
  assumes "0 < ref" "0 \<le> bps" "ref + ceil_div (ref * bps) FxBPS \<le> MaxInt64"
  shows "InBand p ref bps \<longleftrightarrow> 0 < p \<and> \<bar>p - ref\<bar> \<le> ceil_div (ref * bps) FxBPS"
proof -
  define d where "d = ceil_div (ref * bps) FxBPS"
  have d: "0 \<le> d" using assms by (simp add: d_def ceil_div_nonneg)
  have "MulCeil ref bps FxBPS = d" using assms by (simp add: d_def MulCeil_eq)
  then have "Band ref bps = (max (ref - d) 1, ref + d)"
    using assms d by (simp add: Band_def d_def [symmetric] add64_def sub64_def wrap64_id' wrap64_nonneg)
  then show ?thesis unfolding InBand_def d_def [symmetric] by auto
qed

section \<open>Fills\<close>

definition fx_Notional :: "int \<Rightarrow> int \<Rightarrow> int \<times> bool" where
  "fx_Notional quantity price =
     (if quantity < 0 \<or> price < 0 then (0, False)
      else case Mul64 quantity price of (hi, lo) \<Rightarrow>
        if hi \<noteq> 0 \<or> lo > MaxInt64 then (0, False) else (lo, True))"

definition SUPOf :: "int \<Rightarrow> int" where
  "SUPOf cumNotional = quo64 cumNotional PriceScale"

definition FeeOf :: "int \<Rightarrow> int \<Rightarrow> int" where
  "FeeOf cumAmount bps = MulCeil cumAmount bps FxBPS"

definition BuyEscrow :: "int \<Rightarrow> int \<Rightarrow> int \<Rightarrow> int" where
  "BuyEscrow quantity price feeBPS =
     (case fx_Notional quantity price of (n, ok) \<Rightarrow>
        if \<not> ok then 0 else let s0 = SUPOf n in add64 s0 (FeeOf s0 feeBPS))"

record fill =
  fill_SUP :: int
  fill_SUPFee :: int
  fill_Units :: int
  fill_UnitsFee :: int
  fill_Notional :: int

definition Fill_zero :: fill where
  "Fill_zero = \<lparr>fill_SUP = 0, fill_SUPFee = 0, fill_Units = 0, fill_UnitsFee = 0, fill_Notional = 0\<rparr>"

definition FillOf :: "int \<Rightarrow> int \<Rightarrow> int \<Rightarrow> int \<Rightarrow> int \<Rightarrow> int \<Rightarrow> fill \<times> bool" where
  "FillOf qty price buyCumNotional buyFeeBPS sellFilledBefore sellFeeBPS =
     (case fx_Notional qty price of (n, ok) \<Rightarrow>
        if \<not> ok \<or> buyCumNotional > 4611686018427387904 then (Fill_zero, False)
        else let supBefore = SUPOf buyCumNotional; supAfter = SUPOf (add64 buyCumNotional n) in
          (\<lparr>fill_SUP = sub64 supAfter supBefore,
            fill_SUPFee = sub64 (FeeOf supAfter buyFeeBPS) (FeeOf supBefore buyFeeBPS),
            fill_Units = qty,
            fill_UnitsFee = sub64 (FeeOf (add64 sellFilledBefore qty) sellFeeBPS) (FeeOf sellFilledBefore sellFeeBPS),
            fill_Notional = n\<rparr>, True))"

lemma fx_Notional_eq:
  "fx_Notional q p = (if q < 0 \<or> p < 0 \<or> MaxInt64 < q * p then (0, False) else (q * p, True))"
proof (cases "q < 0 \<or> p < 0")
  case False
  then have n: "0 \<le> q * p" by simp
  show ?thesis
  proof (cases "q * p < 18446744073709551616")
    case True
    with n have "(q * p) div 18446744073709551616 = 0" "(q * p) mod 18446744073709551616 = q * p" by simp_all
    with False show ?thesis by (auto simp: fx_Notional_def Mul64_def)
  next
    case big: False
    then have "1 \<le> (q * p) div 18446744073709551616" by (simp add: le_div_iff_int)
    with False big show ?thesis by (auto simp: fx_Notional_def Mul64_def)
  qed
qed (auto simp: fx_Notional_def)

lemma fee_fits:
  assumes "0 \<le> n" "n \<le> MaxInt64" "0 \<le> b" "b \<le> 10000"
  shows "FeeOf n b = ceil_div (n * b) 10000"
proof -
  have "n * b \<le> n * 10000" using assms by (intro mult_left_mono) auto
  then have "ceil_div (n * b) 10000 \<le> MaxInt64" using assms by (simp add: ceil_div_le_iff)
  with assms show ?thesis by (simp add: FeeOf_def MulCeil_eq)
qed

interpretation fx_fee: ceil_fee FeeOf
  by unfold_locales (rule fee_fits)

lemma SUPOf_eq: "0 \<le> n \<Longrightarrow> n \<le> MaxInt64 \<Longrightarrow> SUPOf n = n div PriceScale"
  by (simp add: SUPOf_def quo64_nonneg)

lemma SUPOf_bounds: "0 \<le> n \<Longrightarrow> n \<le> MaxInt64 \<Longrightarrow> 0 \<le> SUPOf n \<and> SUPOf n \<le> n"
  by (simp add: SUPOf_eq pos_imp_zdiv_nonneg_iff div_le_self)

lemma SUPOf_mono: "0 \<le> m \<Longrightarrow> m \<le> n \<Longrightarrow> n \<le> MaxInt64 \<Longrightarrow> SUPOf m \<le> SUPOf n"
  by (simp add: SUPOf_eq zdiv_mono1)

text \<open>One fill in closed form: each amount is the step of a cumulative one.\<close>

lemma FillOf_eq:
  assumes "0 \<le> cum" "cum \<le> 4611686018427387904" "0 \<le> q" "0 \<le> p" "cum + q * p \<le> MaxInt64" "0 \<le> b" "b \<le> 10000"
    and "0 \<le> sf" "sf + q \<le> MaxInt64" "0 \<le> sb" "sb \<le> 10000"
  shows "FillOf q p cum b sf sb =
    (\<lparr>fill_SUP = SUPOf (cum + q * p) - SUPOf cum,
      fill_SUPFee = FeeOf (SUPOf (cum + q * p)) b - FeeOf (SUPOf cum) b,
      fill_Units = q, fill_UnitsFee = FeeOf (sf + q) sb - FeeOf sf sb, fill_Notional = q * p\<rparr>, True)"
    "0 \<le> SUPOf (cum + q * p) - SUPOf cum" "0 \<le> FeeOf (SUPOf (cum + q * p)) b - FeeOf (SUPOf cum) b"
    "0 \<le> FeeOf (sf + q) sb - FeeOf sf sb"
proof -
  have n: "0 \<le> q * p" using assms by simp
  note c = SUPOf_bounds [of cum] and c' = SUPOf_bounds [of "cum + q * p"]
  show s: "0 \<le> SUPOf (cum + q * p) - SUPOf cum" using SUPOf_mono [of cum "cum + q * p"] assms n by simp
  have f: "0 \<le> FeeOf (SUPOf cum) b" "FeeOf (SUPOf cum) b \<le> FeeOf (SUPOf (cum + q * p)) b"
    "FeeOf (SUPOf (cum + q * p)) b \<le> SUPOf (cum + q * p)"
    using fx_fee.fee_bounds [of "SUPOf cum" b] fx_fee.fee_bounds [of "SUPOf (cum + q * p)" b]
      fx_fee.fee_mono [of "SUPOf cum" "SUPOf (cum + q * p)" b] assms n c c' s by auto
  then show "0 \<le> FeeOf (SUPOf (cum + q * p)) b - FeeOf (SUPOf cum) b" by simp
  have g: "0 \<le> FeeOf sf sb" "FeeOf sf sb \<le> FeeOf (sf + q) sb" "FeeOf (sf + q) sb \<le> sf + q"
    using fx_fee.fee_bounds [of sf sb] fx_fee.fee_bounds [of "sf + q" sb] fx_fee.fee_mono [of sf "sf + q" sb] assms by auto
  then show "0 \<le> FeeOf (sf + q) sb - FeeOf sf sb" by simp
  show "FillOf q p cum b sf sb =
    (\<lparr>fill_SUP = SUPOf (cum + q * p) - SUPOf cum,
      fill_SUPFee = FeeOf (SUPOf (cum + q * p)) b - FeeOf (SUPOf cum) b,
      fill_Units = q, fill_UnitsFee = FeeOf (sf + q) sb - FeeOf sf sb, fill_Notional = q * p\<rparr>, True)"
    using assms n s f g c c' by (simp add: FillOf_def fx_Notional_eq add64_def sub64_def wrap64_nonneg Let_def)
qed

text \<open>The fills of one buy order, in order: each continues from the cumulative notional so far. The
  total drawn is the SUP and the fee of every fill.\<close>

fun drawn_by :: "int \<Rightarrow> int \<Rightarrow> (int \<times> int) list \<Rightarrow> int" where
  "drawn_by b cum [] = 0"
| "drawn_by b cum ((q, p) # fs) =
     (case FillOf q p cum b 0 0 of (f, _) \<Rightarrow>
        fill_SUP f + fill_SUPFee f + drawn_by b (add64 cum (fill_Notional f)) fs)"

definition notional_of :: "(int \<times> int) list \<Rightarrow> int" where
  "notional_of fs = (\<Sum>(q, p)\<leftarrow>fs. q * p)"

lemma drawn_by_eq:
  assumes "\<forall>(q, p)\<in>set fs. 0 \<le> q \<and> q \<le> MaxInt64 \<and> 0 \<le> p" "0 \<le> cum" "cum + notional_of fs \<le> 4611686018427387904" "0 \<le> b" "b \<le> 10000"
  shows "drawn_by b cum fs = SUPOf (cum + notional_of fs) - SUPOf cum +
    (FeeOf (SUPOf (cum + notional_of fs)) b - FeeOf (SUPOf cum) b)"
  using assms
proof (induction fs arbitrary: cum)
  case Nil
  then show ?case by (simp add: notional_of_def)
next
  case (Cons f fs)
  obtain q p where f: "f = (q, p)" by (cases f)
  have h: "0 \<le> q" "q \<le> MaxInt64" "0 \<le> p" using Cons.prems(1) f by auto
  have "0 \<le> notional_of fs" unfolding notional_of_def using Cons.prems(1) by (intro sum_list_nonneg) auto
  moreover have t: "notional_of (f # fs) = q * p + notional_of fs" by (simp add: notional_of_def f)
  moreover have n: "0 \<le> q * p" using h by simp
  ultimately have le: "cum + q * p \<le> 4611686018427387904" "cum \<le> 4611686018427387904" using Cons.prems by linarith+
  then have a: "add64 cum (q * p) = cum + q * p" using Cons.prems n by (simp add: add64_def wrap64_nonneg)
  have "FillOf q p cum b 0 0 =
    (\<lparr>fill_SUP = SUPOf (cum + q * p) - SUPOf cum,
      fill_SUPFee = FeeOf (SUPOf (cum + q * p)) b - FeeOf (SUPOf cum) b,
      fill_Units = q, fill_UnitsFee = FeeOf (0 + q) 0 - FeeOf 0 0, fill_Notional = q * p\<rparr>, True)"
    using Cons.prems h le by (intro FillOf_eq) auto
  moreover have "drawn_by b (cum + q * p) fs = SUPOf (cum + q * p + notional_of fs) - SUPOf (cum + q * p) +
      (FeeOf (SUPOf (cum + q * p + notional_of fs)) b - FeeOf (SUPOf (cum + q * p)) b)"
    using Cons.prems n t by (intro Cons.IH) auto
  ultimately show ?case by (simp add: f t [unfolded f] a add.assoc)
qed

lemma quantities_le_sum:
  "\<forall>(q, p)\<in>set fs. 0 \<le> (q::int) \<Longrightarrow> \<forall>(q, p)\<in>set fs. q \<le> (\<Sum>(q, _)\<leftarrow>fs. q)"
proof (induction fs)
  case Nil
  then show ?case by simp
next
  case (Cons f fs)
  have "0 \<le> (\<Sum>(q, _)\<leftarrow>fs. q)" using Cons.prems by (intro sum_list_nonneg) auto
  with Cons show ?case by (cases f) fastforce
qed

lemma notional_of_bound:
  assumes "\<forall>(q, p)\<in>set fs. 0 \<le> q \<and> 0 \<le> p \<and> p \<le> limit"
  shows "notional_of fs \<le> (\<Sum>(q, _)\<leftarrow>fs. q) * limit \<and> 0 \<le> notional_of fs"
  using assms
proof (induction fs)
  case Nil
  then show ?case by (simp add: notional_of_def)
next
  case (Cons f fs)
  obtain q p where f: "f = (q, p)" by (cases f)
  have "q * p \<le> q * limit" "0 \<le> q * p" using Cons.prems f by (auto intro: mult_left_mono)
  with Cons show ?case by (simp add: f notional_of_def distrib_right)
qed

text \<open>
  C35. However a buy order is filled, in any number of fills at any prices up to its limit, the SUP and
  the fees its fills draw in total are exactly the SUP of its whole notional and the fee on that, and
  never exceed the escrow set aside for it.
\<close>

theorem fills_within_escrow:
  assumes "\<forall>(q, p)\<in>set fs. 0 \<le> q \<and> 0 \<le> p \<and> p \<le> limit" "(\<Sum>(q, _)\<leftarrow>fs. q) \<le> quantity" "0 \<le> limit"
    and "quantity \<le> MaxInt64" "quantity * limit \<le> 4611686018427387904" "0 \<le> b" "b \<le> 10000"
  shows "drawn_by b 0 fs = SUPOf (notional_of fs) + FeeOf (SUPOf (notional_of fs)) b \<and>
    0 \<le> drawn_by b 0 fs \<and> drawn_by b 0 fs \<le> BuyEscrow quantity limit b"
proof -
  have qs: "\<forall>(q, p)\<in>set fs. q \<le> (\<Sum>(q, _)\<leftarrow>fs. q)"
    using quantities_le_sum [of fs] assms(1) by fastforce
  have n: "0 \<le> notional_of fs" using notional_of_bound [OF assms(1)] by simp
  have "notional_of fs \<le> (\<Sum>(q, _)\<leftarrow>fs. q) * limit" using notional_of_bound [OF assms(1)] by simp
  also have "\<dots> \<le> quantity * limit" using assms by (intro mult_right_mono) auto
  finally have m: "notional_of fs \<le> quantity * limit" .
  have q0: "0 \<le> quantity"
  proof -
    have "0 \<le> (\<Sum>(q, _)\<leftarrow>fs. q)" using assms(1) by (intro sum_list_nonneg) auto
    with assms(2) show ?thesis by simp
  qed
  have z: "SUPOf 0 = 0" "FeeOf 0 b = 0" using fx_fee.fee_zero_iff [of 0 b] assms by (simp_all add: SUPOf_eq)
  have d: "drawn_by b 0 fs = SUPOf (notional_of fs) + FeeOf (SUPOf (notional_of fs)) b"
    using drawn_by_eq [of fs 0 b] assms qs m z by fastforce
  define s1 s2 where "s1 = SUPOf (notional_of fs)" and "s2 = SUPOf (quantity * limit)"
  have "0 \<le> quantity * limit" using q0 assms(3) by simp
  then have "s2 \<le> 4611686018427387904 div PriceScale"
    unfolding s2_def using assms(5) by (subst SUPOf_eq) (simp_all only: zdiv_mono1)
  then have s3: "s2 \<le> 4611686018428" by simp
  have s: "0 \<le> s1" "s1 \<le> s2"
    using SUPOf_mono [of "notional_of fs" "quantity * limit"] SUPOf_bounds [of "notional_of fs"] SUPOf_bounds [of "quantity * limit"]
      n m assms(5) by (auto simp: s1_def s2_def)
  have f: "0 \<le> FeeOf s1 b" "FeeOf s1 b \<le> FeeOf s2 b" "FeeOf s2 b \<le> s2"
    using fx_fee.fee_bounds [of s1 b] fx_fee.fee_bounds [of s2 b] fx_fee.fee_mono [of s1 s2 b] s s3 assms by auto
  have "BuyEscrow quantity limit b = s2 + FeeOf s2 b"
    using assms q0 f s s3 by (simp add: BuyEscrow_def fx_Notional_eq s2_def [symmetric] add64_def wrap64_nonneg Let_def)
  with d s f show ?thesis by (simp add: s1_def)
qed

theorem fills_within_escrow_witness: "drawn_by 250 0 [(3, 999999), (4, 700001)] \<le> BuyEscrow 7 1000000 250"
  using fills_within_escrow [of "[(3, 999999), (4, 700001)]" 1000000 7 250] by simp

section \<open>The reference rate\<close>

record observation =
  ob_Trades :: int
  ob_VolumeUnits :: int
  ob_Notional :: int
  ob_ValuePPM :: int
  ob_HadTrades :: bool
  ob_XRefBefore :: int
  ob_XRefNext :: int

definition VWAPPrice :: "int \<Rightarrow> int \<Rightarrow> int" where
  "VWAPPrice volumeUnits notional =
     (if volumeUnits \<le> 0 then 0 else quo64 (add64 notional (quo64 volumeUnits 2)) volumeUnits)"

text \<open>The loop over the readings: the sum so far, or the early return at a reading that is not positive.\<close>

fun ref_sum :: "int list \<Rightarrow> int \<Rightarrow> int option" where
  "ref_sum [] acc = Some acc"
| "ref_sum (v # vs) acc = (if v \<le> 0 then None else ref_sum vs (add64 acc v))"

definition NextRef :: "int \<Rightarrow> int list \<Rightarrow> int \<Rightarrow> int \<Rightarrow> int \<Rightarrow> int \<Rightarrow> int \<times> bool" where
  "NextRef current recent padWith trades minTrades window =
     (if recent = [] \<or> trades < minTrades \<or> minTrades < 0 \<or> window < 1 \<or> padWith \<le> 0 then (current, False)
      else let recent = (if int (length recent) > window then drop (length recent - nat window) recent else recent);
               s0 = mul64 (sub64 window (int (length recent))) padWith in
        case ref_sum recent s0 of None \<Rightarrow> (current, False)
        | Some s0 \<Rightarrow> (let nxt = quo64 (add64 s0 (quo64 window 2)) window in
            if nxt \<le> 0 then (current, False) else (nxt, nxt \<noteq> current)))"

lemma ref_sum_Some:
  assumes "\<forall>v\<in>set vs. 0 < v" "0 \<le> acc" "acc + sum_list vs \<le> MaxInt64"
  shows "ref_sum vs acc = Some (acc + sum_list vs)"
  using assms
proof (induction vs arbitrary: acc)
  case Nil
  then show ?case by simp
next
  case (Cons v vs)
  have "0 \<le> sum_list vs" using Cons.prems(1) by (intro sum_list_nonneg) auto
  with Cons show ?case by (simp add: add64_def wrap64_nonneg add.assoc)
qed

lemma sum_list_bounds:
  "\<forall>v\<in>set vs. lo \<le> v \<and> v \<le> (hi::int) \<Longrightarrow> int (length vs) * lo \<le> sum_list vs \<and> sum_list vs \<le> int (length vs) * hi"
  by (induction vs) (auto simp: distrib_right)

lemma average_bounds:
  assumes "0 < w" "w * lo \<le> s0" "s0 \<le> w * (hi::int)"
  shows "lo \<le> (s0 + w div 2) div w" "(s0 + w div 2) div w \<le> hi"
proof -
  have w: "0 \<le> w div 2" "w div 2 < w" using assms(1) by linarith+
  have "lo * w \<le> s0 + w div 2" using assms w by (simp add: mult.commute)
  with assms(1) show "lo \<le> (s0 + w div 2) div w" by (simp add: le_div_iff_int)
  have "s0 + w div 2 < (hi + 1) * w" using assms w by (simp add: algebra_simps)
  with assms(1) show "(s0 + w div 2) div w \<le> hi" by (simp add: div_le_iff_int)
qed

text \<open>
  The reference rate after a period with enough trades is the rounded average of the window, the
  missing readings standing at the padding value; so it never leaves the range its readings and the
  padding span, and one period of trading cannot move it all at once. With too few trades it does
  not move.
\<close>

lemma NextRef_average:
  assumes "recent \<noteq> []" "\<forall>v\<in>set recent. lo \<le> v \<and> v \<le> hi" "lo \<le> pad" "pad \<le> hi" "0 < lo"
    and "0 \<le> minTrades" "0 < window" "window * (hi + 1) \<le> MaxInt64" "window \<le> MaxInt64"
  shows "(if trades < minTrades then NextRef current recent pad trades minTrades window = (current, False)
    else let vs = drop (length recent - nat window) recent in
      fst (NextRef current recent pad trades minTrades window) =
        ((window - int (length vs)) * pad + sum_list vs + window div 2) div window \<and>
      lo \<le> fst (NextRef current recent pad trades minTrades window) \<and>
      fst (NextRef current recent pad trades minTrades window) \<le> hi)"
proof (cases "trades < minTrades")
  case True
  then show ?thesis by (simp add: NextRef_def)
next
  case False
  define vs where "vs = drop (length recent - nat window) recent"
  have vs: "(if int (length recent) > window then drop (length recent - nat window) recent else recent) = vs"
    using assms(7) by (auto simp: vs_def)
  have k: "int (length vs) \<le> window" using assms(7) by (auto simp: vs_def)
  have mem: "\<forall>v\<in>set vs. lo \<le> v \<and> v \<le> hi" using assms(2) in_set_dropD by (fastforce simp: vs_def)
  define m where "m = window - int (length vs)"
  have m: "0 \<le> m" "m \<le> window" "sub64 window (int (length vs)) = m"
    using k assms(9) by (simp_all add: m_def sub64_def wrap64_nonneg)
  have pad: "m * lo \<le> m * pad" "m * pad \<le> m * hi" using m assms(3,4) by (simp_all add: mult_left_mono)
  note sb = sum_list_bounds [OF mem]
  define S where "S = m * pad + sum_list vs"
  have S: "window * lo \<le> S" "S \<le> window * hi" using pad sb by (simp_all add: S_def m_def algebra_simps)
  have hi: "1 \<le> hi" "window * hi \<le> MaxInt64" using assms(3-5,7,8) by (simp_all add: distrib_left)
  have w1: "window * hi + window \<le> MaxInt64" using assms(8) by (simp add: distrib_left)
  have Sm: "0 \<le> m * pad" "m * pad \<le> S" "0 \<le> sum_list vs"
    using m assms(3,5) sb mem by (auto simp: S_def intro!: sum_list_nonneg)
  have "mul64 m pad = m * pad" using Sm S hi by (simp add: mul64_def wrap64_nonneg)
  then have r: "ref_sum vs (mul64 m pad) = Some S"
    using ref_sum_Some [of vs "m * pad"] mem assms(5) Sm S hi by (force simp: S_def)
  have half: "quo64 window 2 = window div 2" "0 \<le> window div 2" using assms(7,9) by (simp_all add: quo64_nonneg)
  show ?thesis
  proof (cases "S + window div 2 \<le> MaxInt64")
    case fits: True
    have "quo64 (add64 S (quo64 window 2)) window = (S + window div 2) div window"
      using fits half Sm S assms(5,7) by (simp add: add64_def wrap64_nonneg quo64_nonneg)
    then have nr: "NextRef current recent pad trades minTrades window =
      (if (S + window div 2) div window \<le> 0 then (current, False) else
        ((S + window div 2) div window, (S + window div 2) div window \<noteq> current))"
      using assms(1,3,5-7) False by (simp add: NextRef_def vs m(3) r Let_def)
    have av: "lo \<le> (S + window div 2) div window" "(S + window div 2) div window \<le> hi"
      using average_bounds [OF assms(7) S] by simp_all
    then have "fst (NextRef current recent pad trades minTrades window) = (S + window div 2) div window"
      using nr assms(5) by simp
    with av have "fst (NextRef current recent pad trades minTrades window) =
        ((window - int (length vs)) * pad + sum_list vs + window div 2) div window \<and>
      lo \<le> fst (NextRef current recent pad trades minTrades window) \<and>
      fst (NextRef current recent pad trades minTrades window) \<le> hi"
      by (simp only: S_def m_def simp_thms)
    then show ?thesis unfolding if_not_P [OF False] Let_def vs_def [symmetric] .
  next
    case no: False
    have "window div 2 \<le> window" using assms(7) by simp
    then show ?thesis using no S w1 by linarith
  qed
qed

section \<open>Typed prices\<close>

record price_scan =
  ps_whole :: int
  ps_frac :: int
  ps_digits :: int
  ps_seenDot :: bool
  ps_any :: bool

definition price_step :: "rune \<Rightarrow> price_scan \<Rightarrow> price_scan option" where
  "price_step r s =
     (if r = 32 \<or> r = 44 \<or> r = 95 then Some s
      else if r = 46 \<and> \<not> ps_seenDot s then Some (s\<lparr>ps_seenDot := True\<rparr>)
      else if r \<ge> 48 \<and> r \<le> 57 then
        (let s = s\<lparr>ps_any := True\<rparr> in
         if \<not> ps_seenDot s then
           (let w = add64 (mul64 (ps_whole s) 10) (r - 48) in
            if w > 1099511627776 then None else Some (s\<lparr>ps_whole := w\<rparr>))
         else if ps_digits s < 6 then
           Some (s\<lparr>ps_frac := add64 (mul64 (ps_frac s) 10) (r - 48), ps_digits := add64 (ps_digits s) 1\<rparr>)
         else Some s)
      else None)"

fun price_scan_all :: "rune list \<Rightarrow> price_scan \<Rightarrow> price_scan option" where
  "price_scan_all [] s = Some s"
| "price_scan_all (r # rs) s = (case price_step r s of None \<Rightarrow> None | Some s' \<Rightarrow> price_scan_all rs s')"

fun pad_frac :: "nat \<Rightarrow> int \<Rightarrow> int" where
  "pad_frac 0 frac = frac"
| "pad_frac (Suc k) frac = pad_frac k (mul64 frac 10)"

text \<open>The loop \<open>for ; digits < 6; digits++\<close> runs \<open>6 - digits\<close> times.\<close>

definition ParsePrice :: "rune list \<Rightarrow> int \<times> bool" where
  "ParsePrice txt =
     (case price_scan_all txt \<lparr>ps_whole = 0, ps_frac = 0, ps_digits = 0, ps_seenDot = False, ps_any = False\<rparr> of
        None \<Rightarrow> (0, False)
      | Some s \<Rightarrow>
        if \<not> ps_any s then (0, False)
        else if \<not> ps_seenDot s then (ps_whole s, ps_whole s > 0)
        else let frac = pad_frac (nat (6 - ps_digits s)) (ps_frac s);
                 p = add64 (mul64 (ps_whole s) PriceScale) frac in (p, p > 0))"

definition scan_ok :: "price_scan \<Rightarrow> bool" where
  "scan_ok s \<longleftrightarrow> 0 \<le> ps_whole s \<and> ps_whole s \<le> 1099511627776 \<and> 0 \<le> ps_frac s \<and> 0 \<le> ps_digits s \<and> ps_digits s \<le> 6 \<and>
     ps_frac s < 10 ^ nat (ps_digits s)"

lemma price_step_ok:
  assumes "scan_ok s" "price_step r s = Some s'"
  shows "scan_ok s'"
proof -
  have pow: "(10::int) ^ nat (ps_digits s) \<le> 10 ^ 6" using assms(1) by (intro power_increasing) (auto simp: scan_ok_def)
  have b: "0 \<le> ps_whole s" "ps_whole s \<le> 1099511627776" "0 \<le> ps_frac s" "ps_frac s < 1000000" "0 \<le> ps_digits s"
    "ps_frac s < 10 ^ nat (ps_digits s)"
    using assms(1) pow by (auto simp: scan_ok_def)
  have w: "add64 (mul64 (ps_whole s) 10) (r - 48) = 10 * ps_whole s + (r - 48)"
    "add64 (mul64 (ps_frac s) 10) (r - 48) = 10 * ps_frac s + (r - 48)" if "48 \<le> r" "r \<le> 57"
    using that b by (simp_all add: add64_def mul64_def wrap64_nonneg)
  have d: "add64 (ps_digits s) 1 = ps_digits s + 1" "nat (ps_digits s + 1) = Suc (nat (ps_digits s))" if "ps_digits s < 6"
    using that b by (simp_all add: add64_def wrap64_nonneg)
  show ?thesis
    using assms b w d unfolding price_step_def scan_ok_def Let_def
    by (auto split: if_splits)
qed

lemma price_scan_all_ok: "scan_ok s \<Longrightarrow> price_scan_all rs s = Some s' \<Longrightarrow> scan_ok s'"
  by (induction rs arbitrary: s) (auto split: option.splits dest: price_step_ok)

lemma pad_frac_eq: "0 \<le> f \<Longrightarrow> f * 10 ^ k \<le> MaxInt64 \<Longrightarrow> pad_frac k f = f * 10 ^ k"
proof (induction k arbitrary: f)
  case 0
  then show ?case by simp
next
  case (Suc k)
  have "10 * f \<le> 10 * f * 10 ^ k" using Suc.prems(1) mult_left_mono [of 1 "10 ^ k" "10 * f"] by simp
  then have "mul64 f 10 = 10 * f" using Suc.prems by (simp add: mul64_def wrap64_nonneg ac_simps)
  with Suc show ?case by (simp add: ac_simps)
qed

text \<open>
  A typed price is never the product of an overflow: whatever the text, an accepted price is the
  exact value of the whole and the six fractional digits the scan kept, positive, and at most
  2^40 SUP and a fraction.
\<close>

lemma ParsePrice_bounds:
  assumes "ParsePrice txt = (p, True)"
  shows "0 < p \<and> p < 1099511627777000000 \<and>
    (\<exists>s. price_scan_all txt \<lparr>ps_whole = 0, ps_frac = 0, ps_digits = 0, ps_seenDot = False, ps_any = False\<rparr> = Some s \<and>
      p = (if ps_seenDot s then ps_whole s * PriceScale + ps_frac s * 10 ^ nat (6 - ps_digits s) else ps_whole s))"
proof -
  let ?init = "\<lparr>ps_whole = 0, ps_frac = 0, ps_digits = 0, ps_seenDot = False, ps_any = False\<rparr>"
  from assms obtain s where s: "price_scan_all txt ?init = Some s"
    by (auto simp: ParsePrice_def split: option.splits)
  have "scan_ok s" using s by (rule price_scan_all_ok [rotated]) (simp add: scan_ok_def)
  then have b: "0 \<le> ps_whole s" "ps_whole s \<le> 1099511627776" "0 \<le> ps_frac s" "0 \<le> ps_digits s" "ps_digits s \<le> 6"
    "ps_frac s < 10 ^ nat (ps_digits s)" by (simp_all add: scan_ok_def)
  have "ps_frac s * 10 ^ nat (6 - ps_digits s) < 10 ^ nat (ps_digits s) * 10 ^ nat (6 - ps_digits s)"
    using b(6) by (intro mult_strict_right_mono) auto
  also have "\<dots> = (10::int) ^ 6" using b by (simp add: power_add [symmetric] nat_add_distrib [symmetric])
  finally have f: "ps_frac s * 10 ^ nat (6 - ps_digits s) < 1000000" by simp
  have pf: "pad_frac (nat (6 - ps_digits s)) (ps_frac s) = ps_frac s * 10 ^ nat (6 - ps_digits s)"
    using f b by (intro pad_frac_eq) auto
  have f0: "0 \<le> ps_frac s * 10 ^ nat (6 - ps_digits s)" using b by simp
  have "add64 (mul64 (ps_whole s) PriceScale) (ps_frac s * 10 ^ nat (6 - ps_digits s)) =
    ps_whole s * PriceScale + ps_frac s * 10 ^ nat (6 - ps_digits s)"
    using b f f0 by (simp add: add64_def mul64_def wrap64_nonneg)
  then have "p = (if ps_seenDot s then ps_whole s * PriceScale + ps_frac s * 10 ^ nat (6 - ps_digits s) else ps_whole s) \<and> 0 < p"
    using assms s pf by (auto simp: ParsePrice_def Let_def split: if_splits)
  note pv = this
  have "ps_whole s * PriceScale + ps_frac s * 10 ^ nat (6 - ps_digits s) < 1099511627777000000" using b f by simp
  moreover have "ps_whole s < 1099511627777000000" using b(2) by simp
  ultimately have "p < 1099511627777000000" using conjunct1 [OF pv] by presburger
  with s pv show ?thesis by blast
qed

end
