(* ===== verification/Reserve.thy ===== *)
theory Reserve
  imports Go_Base
begin

text \<open>
  \<^verbatim>\<open>internal/domain/reserve/reserve.go\<close>: the reserve behind a settlement's money. The package's
  \<open>mulDiv\<close> interprets \<open>floor_mul_div\<close>. A period of the head's purchases is the inductive relation
  \<open>spent\<close>; the properties show that the pot's floor and the period's cap hold however the
  purchases are split, that a wind-down pays out the whole pot and treats no holder worse for coming late,
  and that the macro tick keeps its indices positive and local inflation in its band.
\<close>

abbreviation ResBPS :: int where "ResBPS \<equiv> 10000"
abbreviation ResPPM :: int where "ResPPM \<equiv> 1000000"

definition reserve_mulDiv :: "int \<Rightarrow> int \<Rightarrow> int \<Rightarrow> int \<times> bool" where
  "reserve_mulDiv a b c =
     (if a < 0 \<or> b < 0 \<or> c \<le> 0 then (0, False)
      else case Mul64 a b of (hi, lo) \<Rightarrow>
        if hi \<ge> c then (0, False)
        else case Div64 hi lo c of (qq, rr) \<Rightarrow>
          if qq > MaxInt64 then (0, False) else (qq, True))"

definition reserve_Floor :: "int \<Rightarrow> int \<Rightarrow> int \<Rightarrow> int" where
  "reserve_Floor a b c = (case reserve_mulDiv a b c of (q, _) \<Rightarrow> q)"

lemma reserve_mulDiv_eq:
  "reserve_mulDiv a b c =
    (if a < 0 \<or> b < 0 \<or> c \<le> 0 \<or> MaxInt64 < (a * b) div c then (0, False) else ((a * b) div c, True))"
  by (simp add: reserve_mulDiv_def mul_div_128)

definition reserve_md :: "int \<Rightarrow> int \<Rightarrow> int \<Rightarrow> int option" where
  "reserve_md a b c = (case reserve_mulDiv a b c of (q, ok) \<Rightarrow> if ok then Some q else None)"

interpretation rsv: floor_mul_div reserve_md
  by unfold_locales (simp add: reserve_md_def reserve_mulDiv_eq)

lemma reserve_Floor_md: "reserve_Floor a b c = (case reserve_md a b c of None \<Rightarrow> 0 | Some q \<Rightarrow> q)"
  by (simp add: reserve_Floor_def reserve_md_def reserve_mulDiv_eq)

lemma reserve_Floor_nonneg: "0 \<le> reserve_Floor a b c"
  by (auto simp: reserve_Floor_md dest: rsv.md_nonneg split: option.splits)

lemma reserve_Floor_in64: "in64 (reserve_Floor a b c)"
  by (auto simp: reserve_Floor_md in64_def [of 0] dest: rsv.md_in64 split: option.splits)

lemma reserve_Floor_share:
  assumes "0 \<le> a" "a \<le> MaxInt64" "0 \<le> b" "b \<le> c" "0 < c"
  shows "reserve_Floor a b c = a * b div c" "reserve_Floor a b c \<le> a"
  using rsv.md_share_total [OF assms] by (simp_all add: reserve_Floor_md)

section \<open>The pot and its coverage\<close>

definition Excess :: "int \<Rightarrow> int \<Rightarrow> int" where
  "Excess pot basis = (if pot \<le> basis then 0 else sub64 pot basis)"

definition MarketCap :: "int \<Rightarrow> int \<Rightarrow> int \<Rightarrow> int" where
  "MarketCap supply xRefPPM r0 = (if r0 \<le> 0 then 0 else reserve_Floor supply xRefPPM (mul64 r0 ResPPM))"

definition Coverage :: "int \<Rightarrow> int \<Rightarrow> int \<Rightarrow> int \<Rightarrow> int \<times> bool" where
  "Coverage pot supply xRefPPM r0 =
     (let mc = MarketCap supply xRefPPM r0 in
      if mc \<le> 0 then (0, False) else (reserve_Floor pot ResBPS mc, True))"

lemma Excess_keeps_basis:
  "0 \<le> basis \<Longrightarrow> pot \<le> MaxInt64 \<Longrightarrow> 0 \<le> Excess pot basis \<and> (Excess pot basis = 0 \<or> pot - Excess pot basis = basis)"
  by (auto simp: Excess_def sub64_def wrap64_nonneg)

section \<open>The head's intervention\<close>

definition BuyBudget :: "int \<Rightarrow> int \<Rightarrow> int \<Rightarrow> int \<Rightarrow> int \<Rightarrow> int" where
  "BuyBudget pot basis usedThisPeriod capBPS floorBPS =
     (let periodCap = sub64 (reserve_Floor (add64 pot usedThisPeriod) capBPS ResBPS) usedThisPeriod;
          floor = reserve_Floor basis floorBPS ResBPS;
          room = sub64 pot floor in
      max (min periodCap room) 0)"

definition SellBudget :: "int \<Rightarrow> int \<Rightarrow> int \<Rightarrow> int" where
  "SellBudget held usedThisPeriod capBPS =
     max (sub64 (reserve_Floor (add64 held usedThisPeriod) capBPS ResBPS) usedThisPeriod) 0"

lemma BuyBudget_eq:
  assumes "0 \<le> pot" "0 \<le> used" "pot + used \<le> MaxInt64" "0 \<le> cap" "cap \<le> ResBPS"
  shows "BuyBudget pot basis used cap fl =
    max (min ((pot + used) * cap div ResBPS - used) (pot - reserve_Floor basis fl ResBPS)) 0"
proof -
  have c: "reserve_Floor (pot + used) cap ResBPS = (pot + used) * cap div ResBPS"
    "reserve_Floor (pot + used) cap ResBPS \<le> pot + used"
    using reserve_Floor_share [of "pot + used" cap ResBPS] assms by simp_all
  have n: "0 \<le> reserve_Floor (pot + used) cap ResBPS" by (rule reserve_Floor_nonneg)
  have f: "0 \<le> reserve_Floor basis fl ResBPS" "reserve_Floor basis fl ResBPS \<le> MaxInt64"
    using reserve_Floor_in64 [of basis fl ResBPS] reserve_Floor_nonneg by (simp_all add: in64_def)
  have "add64 pot used = pot + used" using assms by (simp add: add64_def wrap64_nonneg)
  moreover have "sub64 (reserve_Floor (pot + used) cap ResBPS) used = (pot + used) * cap div ResBPS - used"
    using c n assms by (simp add: sub64_def wrap64_id')
  moreover have "sub64 pot (reserve_Floor basis fl ResBPS) = pot - reserve_Floor basis fl ResBPS"
    using assms f by (simp add: sub64_def wrap64_id')
  ultimately show ?thesis by (simp add: BuyBudget_def Let_def)
qed

text \<open>The purchases of one period: each takes at most the budget of the moment out of the pot.\<close>

inductive spent :: "int \<Rightarrow> int \<Rightarrow> int \<Rightarrow> int \<Rightarrow> int \<Rightarrow> int \<Rightarrow> int \<Rightarrow> bool"
  for basis cap fl pot0 used0 where
  none: "spent basis cap fl pot0 used0 pot0 used0"
| buy: "spent basis cap fl pot0 used0 pot used \<Longrightarrow> 0 \<le> s0 \<Longrightarrow> s0 \<le> BuyBudget pot basis used cap fl \<Longrightarrow>
    spent basis cap fl pot0 used0 (pot - s0) (used + s0)"

inductive_cases spent_E: "spent basis cap fl pot0 used0 pot used"

text \<open>
  However a period's purchases are split, together they take at most the cap's share of what the
  pot held at the start (counting what the period had already used), and they never take the pot below its
  floor: unless nothing was bought, the pot still holds the floor's share of the basis.
\<close>

lemma BuyBudget_period:
  assumes "spent basis cap fl pot0 used0 pot used" "0 \<le> pot0" "0 \<le> used0" "pot0 + used0 \<le> MaxInt64" "0 \<le> cap" "cap \<le> ResBPS"
  shows "0 \<le> pot \<and> pot + used = pot0 + used0 \<and> used0 \<le> used \<and>
    (used = used0 \<or> used \<le> (pot0 + used0) * cap div ResBPS \<and> reserve_Floor basis fl ResBPS \<le> pot)"
  using assms
proof induction
  case none
  then show ?case by simp
next
  case (buy pot used s0)
  then have ih: "0 \<le> pot" "pot + used = pot0 + used0" "used0 \<le> used" by simp_all
  have b: "BuyBudget pot basis used cap fl =
    max (min ((pot0 + used0) * cap div ResBPS - used) (pot - reserve_Floor basis fl ResBPS)) 0"
    using BuyBudget_eq [of pot used cap basis fl] ih buy.prems by simp
  have "s0 = 0 \<or> s0 \<le> (pot0 + used0) * cap div ResBPS - used \<and> s0 \<le> pot - reserve_Floor basis fl ResBPS"
    using buy.hyps(2,3) unfolding b by linarith
  moreover have "0 \<le> reserve_Floor basis fl ResBPS" by (rule reserve_Floor_nonneg)
  ultimately show ?case using buy.IH [OF buy.prems] buy.hyps(2) ih by auto
qed

section \<open>Winding down\<close>

definition ClaimShare :: "int \<Rightarrow> int \<Rightarrow> int \<Rightarrow> int" where
  "ClaimShare potRemaining claimable units =
     (if claimable \<le> 0 \<or> units \<le> 0 \<or> units > claimable then 0 else reserve_Floor potRemaining units claimable)"

text \<open>The claims of a wind-down, one after the other, each from what the ones before it left.\<close>

fun claims :: "int \<Rightarrow> int \<Rightarrow> int list \<Rightarrow> int list" where
  "claims pot claimable [] = []"
| "claims pot claimable (u # us) =
     ClaimShare pot claimable u # claims (pot - ClaimShare pot claimable u) (claimable - u) us"

lemma ClaimShare_eq:
  assumes "0 \<le> pot" "pot \<le> MaxInt64" "0 < u" "u \<le> n"
  shows "ClaimShare pot n u = pot * u div n" "0 \<le> ClaimShare pot n u" "ClaimShare pot n u \<le> pot"
    "pot * (n - u) \<le> (pot - ClaimShare pot n u) * n"
proof -
  have f: "reserve_Floor pot u n = pot * u div n" "reserve_Floor pot u n \<le> pot"
    using reserve_Floor_share [of pot u n] assms by simp_all
  then show e: "ClaimShare pot n u = pot * u div n" and "ClaimShare pot n u \<le> pot" and "0 \<le> ClaimShare pot n u"
    using assms reserve_Floor_nonneg [of pot u n] by (simp_all add: ClaimShare_def)
  have "pot * u div n * n \<le> pot * u" using assms by (intro div_mult_le_int) auto
  then show "pot * (n - u) \<le> (pot - ClaimShare pot n u) * n" unfolding e by (simp add: algebra_simps)
qed

lemma claims_share:
  assumes "\<forall>u\<in>set us. 0 < u" "sum_list us \<le> n" "0 \<le> pot" "pot \<le> MaxInt64" "0 < n0" "pot0 * n \<le> pot * n0"
  shows "list_all2 (\<lambda>u c. pot0 * u div n0 \<le> c) us (claims pot n us)"
  using assms
proof (induction us arbitrary: pot n)
  case Nil
  then show ?case by simp
next
  case (Cons u us)
  have us: "0 \<le> sum_list us" using Cons.prems(1) by (intro sum_list_nonneg) auto
  then have u: "0 < u" "u \<le> n" using Cons.prems by auto
  note c = ClaimShare_eq [OF Cons.prems(3,4) u]
  define p1 where "p1 = pot - ClaimShare pot n u"
  have n: "0 < n" using u by simp
  have "pot0 * (n - u) * n \<le> p1 * n0 * n"
  proof -
    have "(pot0 * n) * (n - u) \<le> (pot * n0) * (n - u)" using Cons.prems(6) u by (intro mult_right_mono) auto
    also have "\<dots> \<le> (p1 * n) * n0" using c(4) Cons.prems(5) unfolding p1_def
      by (simp only: mult.assoc mult.commute [of n0] mult.left_commute [of _ n0]) (simp add: mult_left_mono mult.commute)
    finally show ?thesis by (simp only: ac_simps)
  qed
  then have "pot0 * (n - u) \<le> p1 * n0" using n by simp
  moreover have "0 \<le> p1" "p1 \<le> MaxInt64" using c Cons.prems by (simp_all add: p1_def)
  ultimately have "list_all2 (\<lambda>u c. pot0 * u div n0 \<le> c) us (claims p1 (n - u) us)"
    using Cons.prems us by (intro Cons.IH) auto
  moreover have "pot0 * u div n0 \<le> ClaimShare pot n u"
  proof -
    have "pot0 * u div n0 * n0 \<le> pot0 * u" using Cons.prems(5) by (rule div_mult_le_int)
    then have "pot0 * u div n0 * n0 * n \<le> pot0 * u * n" using n by simp
    also have "\<dots> \<le> pot * n0 * u" using mult_right_mono [OF Cons.prems(6), of u] u by (simp add: ac_simps)
    finally have "(pot0 * u div n0 * n) * n0 \<le> (pot * u) * n0" by (simp only: ac_simps)
    then have "pot0 * u div n0 * n \<le> pot * u" using Cons.prems(5) by simp
    then show ?thesis unfolding c(1) using n by (simp add: le_div_iff_int)
  qed
  ultimately show ?case by (simp add: p1_def)
qed

lemma claims_total:
  assumes "\<forall>u\<in>set us. 0 < u" "us \<noteq> []" "sum_list us = n" "0 \<le> pot" "pot \<le> MaxInt64"
  shows "sum_list (claims pot n us) = pot"
  using assms
proof (induction us arbitrary: pot n)
  case Nil
  then show ?case by simp
next
  case (Cons u us)
  have us: "0 \<le> sum_list us" using Cons.prems(1) by (intro sum_list_nonneg) auto
  then have u: "0 < u" "u \<le> n" using Cons.prems by auto
  note c = ClaimShare_eq [OF Cons.prems(4,5) u]
  show ?case
  proof (cases "us = []")
    case True
    then have "n = u" using Cons.prems(3) by simp
    then have "ClaimShare pot n u = pot" using c(1) u by simp
    with True show ?thesis by simp
  next
    case False
    have "sum_list (claims (pot - ClaimShare pot n u) (n - u) us) = pot - ClaimShare pot n u"
      using Cons.prems False c by (intro Cons.IH) auto
    then show ?thesis by simp
  qed
qed

text \<open>
  A wind-down in which every claimable unit claims pays out the whole pot, to the last unit, and
  whatever the order of the claims nobody receives less than the exact share of the opening pot,
  rounded down.
\<close>

lemma ClaimShare_fair:
  assumes "\<forall>u\<in>set us. 0 < u" "us \<noteq> []" "0 \<le> pot" "pot \<le> MaxInt64"
  shows "sum_list (claims pot (sum_list us) us) = pot \<and>
    list_all2 (\<lambda>u c. pot * u div sum_list us \<le> c) us (claims pot (sum_list us) us)"
proof -
  have "0 < sum_list us"
  proof (cases us)
    case (Cons u vs)
    then have "0 \<le> sum_list vs" using assms(1) by (intro sum_list_nonneg) auto
    with Cons assms(1) show ?thesis by auto
  qed (use assms in simp)
  with claims_total [OF assms(1,2) refl assms(3,4)] claims_share [OF assms(1) order_refl assms(3,4), of "sum_list us" pot]
  show ?thesis by simp
qed

section \<open>The macro tick\<close>

record macro =
  mac_SupplyUnits :: int
  mac_Stabilisation :: int
  mac_M :: int
  mac_Y :: int
  mac_XRefPPM :: int
  mac_PrevXRefPPM :: int
  mac_Tradable :: int
  mac_NonTradable :: int
  mac_Price :: int
  mac_PrevSupply :: int

record macro_rules =
  mr_MNormBPS :: int
  mr_KappaBPS :: int
  mr_PiMaxBPS :: int
  mr_WTradableBPS :: int

record reading =
  rd_Tradable :: int
  rd_PiLocalBPS :: int
  rd_NonTradable :: int
  rd_Price :: int
  rd_SupplyGrowthBPS :: int

definition reserve_clamp :: "int \<Rightarrow> int \<Rightarrow> int \<Rightarrow> int" where
  "reserve_clamp v lo hi = max lo (min v hi)"

text \<open>The local inflation of the period: the block under \<open>if m.Y > 0 && r.MNormBPS > 0\<close>.\<close>

definition Tick_pi :: "macro \<Rightarrow> macro_rules \<Rightarrow> int" where
  "Tick_pi m r =
     (if mac_Y m > 0 \<and> mr_MNormBPS r > 0 then
        let num = reserve_Floor (mac_M m) (mac_XRefPPM m) ResPPM;
            den = reserve_Floor (mac_Y m) (mr_MNormBPS r) ResBPS in
        if den > 0 then
          let gapPPM = sub64 (reserve_Floor num ResPPM den) ResPPM in
          reserve_clamp (quo64 (mul64 gapPPM (mr_KappaBPS r)) ResPPM) (neg64 (mr_PiMaxBPS r)) (mr_PiMaxBPS r)
        else 0
      else 0)"

definition Tick :: "macro \<Rightarrow> macro_rules \<Rightarrow> reading" where
  "Tick m r =
     (if mac_XRefPPM m \<le> 0 \<or> mac_PrevXRefPPM m \<le> 0 then
        \<lparr>rd_Tradable = mac_Tradable m, rd_PiLocalBPS = 0, rd_NonTradable = mac_NonTradable m, rd_Price = mac_Price m,
         rd_SupplyGrowthBPS = 0\<rparr>
      else
        let rRatio = reserve_Floor ResPPM (mac_PrevXRefPPM m) (mac_XRefPPM m);
            tradable = reserve_Floor (mac_Tradable m) rRatio ResPPM;
            pi = Tick_pi m r;
            level = add64 ResPPM (mul64 pi 100);
            nt = reserve_Floor (mac_NonTradable m) level ResPPM;
            mix = add64 (reserve_Floor (mr_WTradableBPS r) rRatio ResBPS)
              (reserve_Floor (sub64 ResBPS (mr_WTradableBPS r)) level ResBPS);
            price = reserve_Floor (mac_Price m) mix ResPPM in
        \<lparr>rd_Tradable = tradable, rd_PiLocalBPS = pi,
         rd_NonTradable = (if nt \<le> 0 then mac_NonTradable m else nt),
         rd_Price = (if price \<le> 0 then mac_Price m else price),
         rd_SupplyGrowthBPS = (if mac_PrevSupply m > 0
           then quo64 (mul64 (sub64 (mac_SupplyUnits m) (mac_PrevSupply m)) ResBPS) (mac_PrevSupply m) else 0)\<rparr>)"

lemma Tick_pi_bounds: "0 \<le> mr_PiMaxBPS r \<Longrightarrow> mr_PiMaxBPS r \<le> MaxInt64 \<Longrightarrow> \<bar>Tick_pi m r\<bar> \<le> mr_PiMaxBPS r"
  by (auto simp: Tick_pi_def reserve_clamp_def Let_def neg64_def wrap64_id')

text \<open>
  A macro tick keeps local inflation inside its band and the two cumulative price indices positive,
  whatever it reads; and while local inflation stays within -100%, the new index of non-tradables is the
  old one moved by exactly that inflation, rounded down, or unchanged where that would be zero.
\<close>

lemma Tick_bounds:
  assumes "0 \<le> mr_PiMaxBPS r" "mr_PiMaxBPS r \<le> ResBPS" "0 < mac_NonTradable m" "mac_NonTradable m * 2 \<le> MaxInt64" "0 < mac_Price m"
  shows "\<bar>rd_PiLocalBPS (Tick m r)\<bar> \<le> mr_PiMaxBPS r \<and> 0 < rd_NonTradable (Tick m r) \<and> 0 < rd_Price (Tick m r) \<and>
    rd_NonTradable (Tick m r) \<le> 2 * mac_NonTradable m \<and>
    rd_NonTradable (Tick m r) \<in> {mac_NonTradable m, mac_NonTradable m * (ResPPM + 100 * rd_PiLocalBPS (Tick m r)) div ResPPM}"
proof (cases "mac_XRefPPM m \<le> 0 \<or> mac_PrevXRefPPM m \<le> 0")
  case True
  with assms show ?thesis by (auto simp: Tick_def)
next
  case False
  define pi nt where "pi = Tick_pi m r" and "nt = mac_NonTradable m"
  have pi: "\<bar>pi\<bar> \<le> mr_PiMaxBPS r" using Tick_pi_bounds [of r m] assms by (simp add: pi_def)
  then have b: "- ResBPS \<le> pi" "pi \<le> ResBPS" using assms by auto
  then have lv: "add64 ResPPM (mul64 pi 100) = ResPPM + 100 * pi" by (simp add: add64_def mul64_def wrap64_id')
  have l: "0 \<le> ResPPM + 100 * pi" "ResPPM + 100 * pi \<le> 2 * ResPPM" using b by simp_all
  have "nt * (ResPPM + 100 * pi) \<le> nt * (2 * ResPPM)" using l assms by (intro mult_left_mono) (auto simp: nt_def)
  then have q: "nt * (ResPPM + 100 * pi) div ResPPM \<le> 2 * nt" by (simp add: div_le_iff_int)
  then have f: "reserve_Floor nt (ResPPM + 100 * pi) ResPPM = nt * (ResPPM + 100 * pi) div ResPPM"
    using assms l by (simp add: reserve_Floor_def reserve_mulDiv_eq nt_def)
  have e: "rd_PiLocalBPS (Tick m r) = pi" "rd_NonTradable (Tick m r) =
      (if nt * (ResPPM + 100 * pi) div ResPPM \<le> 0 then nt else nt * (ResPPM + 100 * pi) div ResPPM)"
    "0 < rd_Price (Tick m r)"
    using False assms(5) by (simp_all add: Tick_def Let_def pi_def [symmetric] lv nt_def [symmetric] f)
  show ?thesis unfolding e using pi q e(3) assms(3) by (auto simp: nt_def)
qed

end
