(* ===== verification/Auction.thy ===== *)
theory Auction
  imports Money
begin

text \<open>
  \<^verbatim>\<open>internal/domain/auction/auction.go\<close>: an English auction for one item. The bids on one auction
  are the inductive relation \<open>bidding\<close>, which keeps the escrow the package speaks of: an accepted bid
  is set aside, the outbid one is handed back. The house's fee interprets \<open>ceil_fee\<close>.
\<close>

abbreviation AucBPS :: int where "AucBPS \<equiv> 10000"

datatype auction_error = ErrInvalidAuction | ErrClosed | ErrBidTooLow | ErrOwnAuction | ErrAlreadyWinning

record auction_terms =
  at_Reserve :: amount
  at_StepBPS :: int
  at_MinStep :: amount
  at_OpensAt :: go_time
  at_EndsAt :: go_time

record auction_limits =
  al_MinDuration :: duration
  al_MaxDuration :: duration
  al_MaxReserve :: amount

definition Terms_Validate :: "auction_terms \<Rightarrow> auction_limits \<Rightarrow> auction_error option" where
  "Terms_Validate t l =
     (let d = time_Sub (at_EndsAt t) (at_OpensAt t) in
      if Minor (at_Reserve t) < 1 \<or> Minor (at_Reserve t) > Minor (al_MaxReserve l) then Some ErrInvalidAuction
      else if d < al_MinDuration l \<or> d > al_MaxDuration l then Some ErrInvalidAuction
      else if at_StepBPS t < 0 \<or> at_StepBPS t > AucBPS \<or> Minor (at_MinStep t) < 1 then Some ErrInvalidAuction
      else None)"

record bid =
  bid_Bidder :: string
  bid_Amount :: amount

definition Bid_None :: "bid \<Rightarrow> bool" where
  "Bid_None b \<longleftrightarrow> bid_Bidder b = []"

definition bid_step :: "auction_terms \<Rightarrow> int \<Rightarrow> int" where
  "bid_step t h =
     (let step = (if at_StepBPS t > 0 then
          (if h > quo64 MaxInt64 (at_StepBPS t) then mul64 (quo64 h AucBPS) (at_StepBPS t)
           else quo64 (sub64 (add64 (mul64 h (at_StepBPS t)) AucBPS) 1) AucBPS)
        else 0) in
      max step (Minor (at_MinStep t)))"

definition MinNext :: "auction_terms \<Rightarrow> bid \<Rightarrow> amount" where
  "MinNext t high =
     (if Bid_None high then at_Reserve t
      else let h = Minor (bid_Amount high); step = bid_step t h in
        if h > sub64 MaxInt64 step then FromMinor MaxInt64 else FromMinor (add64 h step))"

definition PlaceBid :: "auction_terms \<Rightarrow> string \<Rightarrow> bid \<Rightarrow> string \<Rightarrow> amount \<Rightarrow> go_time \<Rightarrow> bid \<times> auction_error option" where
  "PlaceBid t seller high bidder amt now =
     (if \<not> now < at_EndsAt t then (high, Some ErrClosed)
      else if bidder = seller then (high, Some ErrOwnAuction)
      else if \<not> Bid_None high \<and> bid_Bidder high = bidder then (high, Some ErrAlreadyWinning)
      else if Minor amt < Minor (MinNext t high) then (high, Some ErrBidTooLow)
      else (\<lparr>bid_Bidder = bidder, bid_Amount = amt\<rparr>, None))"

datatype auction_result = Sold | Unsold

definition auction_Close :: "auction_terms \<Rightarrow> bid \<Rightarrow> go_time \<Rightarrow> auction_error + auction_result" where
  "auction_Close t high now =
     (if now < at_EndsAt t then Inl ErrInvalidAuction
      else if Bid_None high then Inr Unsold else Inr Sold)"

definition auction_fee_of :: "int \<Rightarrow> int \<Rightarrow> int" where
  "auction_fee_of p bps =
     (let q = quo64 p AucBPS; r = rem64 p AucBPS in
      min (add64 (mul64 q bps) (quo64 (sub64 (add64 (mul64 r bps) AucBPS) 1) AucBPS)) p)"

definition auction_Fee :: "amount \<Rightarrow> int \<Rightarrow> amount" where
  "auction_Fee price feeBPS =
     (let p = Minor price in
      if feeBPS \<le> 0 \<or> p \<le> 0 then FromMinor 0
      else FromMinor (auction_fee_of p (min feeBPS AucBPS)))"

interpretation auction_fee: ceil_fee auction_fee_of
proof
  fix n b :: int
  assume h: "0 \<le> n" "n \<le> MaxInt64" "0 \<le> b" "b \<le> 10000"
  then have "ceil_div (n * b) 10000 \<le> n" by (simp add: ceil_div_le_iff mult_left_mono)
  then show "auction_fee_of n b = ceil_div (n * b) 10000"
    using h by (simp add: auction_fee_of_def Let_def bps_split_exact)
qed

lemma auction_Fee_bounds:
  assumes "0 < p" "p \<le> MaxInt64"
  shows "Minor (auction_Fee (FromMinor p) b) = ceil_div (p * max 0 (min b AucBPS)) AucBPS"
    "0 \<le> Minor (auction_Fee (FromMinor p) b)" "Minor (auction_Fee (FromMinor p) b) \<le> p"
proof -
  have b: "0 \<le> max 0 (min b AucBPS)" "max 0 (min b AucBPS) \<le> 10000" by auto
  have f: "auction_fee_of p (max 0 (min b AucBPS)) = ceil_div (p * max 0 (min b AucBPS)) AucBPS"
    using assms b by (intro auction_fee.fee_exact) auto
  show e: "Minor (auction_Fee (FromMinor p) b) = ceil_div (p * max 0 (min b AucBPS)) AucBPS"
    using assms f by (cases "b \<le> 0") (auto simp: auction_Fee_def ceil_div_def min_def max_def split: if_splits)
  show "0 \<le> Minor (auction_Fee (FromMinor p) b)" "Minor (auction_Fee (FromMinor p) b) \<le> p"
    unfolding e f [symmetric] using assms b by (intro auction_fee.fee_bounds; simp)+
qed

section \<open>The step a bid must take\<close>

text \<open>Where the product fits, the step is the exact percentage rounded up, and at least the minimum.\<close>

lemma bid_step_exact:
  assumes "0 \<le> h" "0 \<le> at_StepBPS t" "h * at_StepBPS t + AucBPS \<le> MaxInt64"
  shows "bid_step t h = max (ceil_div (h * at_StepBPS t) AucBPS) (Minor (at_MinStep t))"
proof (cases "at_StepBPS t > 0")
  case True
  have n: "0 \<le> h * at_StepBPS t" using assms by simp
  have "h \<le> quo64 MaxInt64 (at_StepBPS t)" using True assms by (simp add: quo64_nonneg le_div_iff_int)
  moreover have "sub64 (add64 (mul64 h (at_StepBPS t)) AucBPS) 1 = h * at_StepBPS t + AucBPS - 1"
    using n assms by (simp add: add64_def mul64_def sub64_def wrap64_nonneg)
  ultimately show ?thesis
    using True n assms by (simp add: bid_step_def ceil_div_def quo64_nonneg not_less Let_def)
next
  case False
  with assms have "at_StepBPS t = 0" by simp
  then show ?thesis by (simp add: bid_step_def ceil_div_def)
qed

lemma bid_step_min: "Minor (at_MinStep t) \<le> bid_step t h"
  by (simp add: bid_step_def Let_def)

lemma bid_step_in64: "in64 (Minor (at_MinStep t)) \<Longrightarrow> in64 (bid_step t h)"
  by (auto simp: bid_step_def Let_def in64_def [of 0] intro!: in64_max)

lemma MinNext_above:
  assumes "1 \<le> Minor (at_MinStep t)" "in64 (Minor (at_MinStep t))" "\<not> Bid_None high" "0 \<le> Minor (bid_Amount high)"
    and "Minor (bid_Amount high) \<le> MaxInt64"
  shows "Minor (bid_Amount high) \<le> Minor (MinNext t high)"
    and "Minor (bid_Amount high) < MaxInt64 \<Longrightarrow> Minor (bid_Amount high) < Minor (MinNext t high)"
    and "Minor (bid_Amount high) + bid_step t (Minor (bid_Amount high)) \<le> MaxInt64 \<Longrightarrow>
      Minor (MinNext t high) = Minor (bid_Amount high) + bid_step t (Minor (bid_Amount high))"
proof -
  define s where "s = bid_step t (Minor (bid_Amount high))"
  have s: "1 \<le> s" "s \<le> MaxInt64"
    using bid_step_min [of t "Minor (bid_Amount high)"] bid_step_in64 [OF assms(2), of "Minor (bid_Amount high)"] assms(1)
    by (simp_all add: s_def in64_def)
  then have "sub64 MaxInt64 s = MaxInt64 - s" by (simp add: sub64_def wrap64_nonneg)
  then have m: "Minor (MinNext t high) = (if Minor (bid_Amount high) > MaxInt64 - s then MaxInt64 else Minor (bid_Amount high) + s)"
    using s assms by (simp add: MinNext_def s_def [symmetric] Let_def add64_def wrap64_nonneg)
  show "Minor (bid_Amount high) \<le> Minor (MinNext t high)" using m s assms by simp
  show "Minor (bid_Amount high) < MaxInt64 \<Longrightarrow> Minor (bid_Amount high) < Minor (MinNext t high)" using m s by simp
  show "Minor (bid_Amount high) + bid_step t (Minor (bid_Amount high)) \<le> MaxInt64 \<Longrightarrow>
      Minor (MinNext t high) = Minor (bid_Amount high) + bid_step t (Minor (bid_Amount high))"
    using m by (simp add: s_def)
qed

lemma PlaceBid_accepted:
  assumes "PlaceBid t seller high bidder amt now = (high', None)"
  shows "high' = \<lparr>bid_Bidder = bidder, bid_Amount = amt\<rparr>" "now < at_EndsAt t" "bidder \<noteq> seller"
    "Minor (MinNext t high) \<le> Minor amt" "Bid_None high \<or> bid_Bidder high \<noteq> bidder"
  using assms by (auto simp: PlaceBid_def split: if_splits)

text \<open>A refused bid changes nothing.\<close>

lemma PlaceBid_refused: "PlaceBid t seller high bidder amt now = (high', Some e) \<Longrightarrow> high' = high"
  by (auto simp: PlaceBid_def split: if_splits)

text \<open>
  An accepted bid beats the standing one by the whole step: by the auction's percentage of it, rounded
  up, and by at least the minimum step; it came before the close and neither from the seller nor from
  the one already winning.
\<close>

lemma PlaceBid_beats:
  assumes "PlaceBid t seller high bidder amt now = (high', None)" "Terms_Validate t l = None" "valid_amount (at_MinStep t)"
    and "\<not> Bid_None high" "0 \<le> Minor (bid_Amount high)"
    and "Minor (bid_Amount high) * at_StepBPS t + AucBPS \<le> MaxInt64"
    and "Minor (bid_Amount high) * 2 + Minor (at_MinStep t) \<le> MaxInt64"
  shows "high' = \<lparr>bid_Bidder = bidder, bid_Amount = amt\<rparr> \<and> now < at_EndsAt t \<and> bidder \<noteq> seller \<and> bidder \<noteq> bid_Bidder high \<and>
    Minor (bid_Amount high) + Minor (at_MinStep t) \<le> Minor amt \<and>
    Minor (bid_Amount high) * (AucBPS + at_StepBPS t) \<le> Minor amt * AucBPS"
proof -
  define h where "h = Minor (bid_Amount high)"
  note acc = PlaceBid_accepted [OF assms(1)]
  have v: "1 \<le> Minor (at_MinStep t)" "0 \<le> at_StepBPS t" "at_StepBPS t \<le> AucBPS" "in64 (Minor (at_MinStep t))"
    using assms(2,3) by (auto simp: Terms_Validate_def valid_amount_def Let_def split: if_splits)
  have e: "bid_step t h = max (ceil_div (h * at_StepBPS t) AucBPS) (Minor (at_MinStep t))"
    using assms(5,6) v by (intro bid_step_exact) (simp_all add: h_def)
  have "h * at_StepBPS t \<le> h * AucBPS" using assms(5) v by (intro mult_left_mono) (simp_all add: h_def)
  then have "ceil_div (h * at_StepBPS t) AucBPS \<le> h" by (simp add: ceil_div_le_iff)
  moreover have "0 \<le> h" "h * 2 + Minor (at_MinStep t) \<le> MaxInt64" using assms(5,7) by (simp_all add: h_def)
  ultimately have "h + bid_step t h \<le> MaxInt64" using v(1) unfolding e by linarith
  then have "Minor (MinNext t high) = h + bid_step t h"
    using MinNext_above(3) [OF v(1,4) assms(4,5)] assms(5,7) v(1) by (simp add: h_def)
  then have amt: "h + ceil_div (h * at_StepBPS t) AucBPS \<le> Minor amt" "h + Minor (at_MinStep t) \<le> Minor amt"
    using acc(4) by (auto simp: e)
  have "h * (AucBPS + at_StepBPS t) \<le> (h + ceil_div (h * at_StepBPS t) AucBPS) * AucBPS"
    using ceil_div_mult_ge [of AucBPS "h * at_StepBPS t"] by (simp add: algebra_simps)
  also have "\<dots> \<le> Minor amt * AucBPS" using amt by simp
  finally show ?thesis using acc amt assms(4) by (auto simp: h_def)
qed

definition demo_terms :: auction_terms where
  "demo_terms = \<lparr>at_Reserve = FromMinor 100, at_StepBPS = 500, at_MinStep = FromMinor 10, at_OpensAt = 1, at_EndsAt = 101\<rparr>"

definition demo_limits :: auction_limits where
  "demo_limits = \<lparr>al_MinDuration = 10, al_MaxDuration = 1000, al_MaxReserve = FromMinor 1000\<rparr>"

section \<open>An auction from its opening on\<close>

text \<open>The state: the standing bid, the money set aside for it, and what has been handed back so far.\<close>

inductive bidding :: "auction_terms \<Rightarrow> string \<Rightarrow> bid \<Rightarrow> int \<Rightarrow> int \<Rightarrow> int \<Rightarrow> bool" for t seller where
  opened: "bidding t seller \<lparr>bid_Bidder = [], bid_Amount = FromMinor 0\<rparr> 0 0 0"
| bid: "bidding t seller high escrow paid refunded \<Longrightarrow> bidder \<noteq> [] \<Longrightarrow> in64 (Minor amt) \<Longrightarrow>
    PlaceBid t seller high bidder amt now = (high', None) \<Longrightarrow>
    bidding t seller high' (escrow + Minor amt - Minor (bid_Amount high)) (paid + Minor amt) (refunded + Minor (bid_Amount high))"

inductive_cases bidding_E: "bidding t seller high escrow paid refunded"

lemma bidding_facts:
  assumes "bidding t seller high escrow paid refunded" "1 \<le> Minor (at_Reserve t)" "1 \<le> Minor (at_MinStep t)" "valid_amount (at_MinStep t)"
  shows "escrow = Minor (bid_Amount high) \<and> paid = escrow + refunded \<and> 0 \<le> refunded \<and> in64 escrow \<and>
    (if Bid_None high then escrow = 0 else Minor (at_Reserve t) \<le> escrow \<and> bid_Bidder high \<noteq> seller)"
  using assms
proof induction
  case opened
  then show ?case by (simp add: Bid_None_def in64_def)
next
  case (bid high escrow paid refunded bidder amt now high')
  note acc = PlaceBid_accepted [OF bid.hyps(4)] and ih = bid.IH [OF bid.prems]
  have r: "Minor (at_Reserve t) \<le> Minor (MinNext t high)"
  proof (cases "Bid_None high")
    case True
    then show ?thesis by (simp add: MinNext_def)
  next
    case False
    then have h: "Minor (at_Reserve t) \<le> Minor (bid_Amount high)" "in64 (Minor (bid_Amount high))" using ih by auto
    then have "Minor (bid_Amount high) \<le> Minor (MinNext t high)"
      using MinNext_above(1) [OF bid.prems(2) _ False] bid.prems(1,3) by (simp add: valid_amount_def in64_def)
    with h show ?thesis by simp
  qed
  have "0 \<le> Minor (bid_Amount high)" using ih bid.prems(1) by (auto split: if_splits)
  with acc r ih bid.hyps(2,3) show ?case by (auto simp: Bid_None_def)
qed



text \<open>A standing bid just below the guard of \<open>MinNext\<close>: the rounding term overflows, the step wraps to
  a negative number and only the minimum step is asked for instead of 100%.\<close>

lemma bid_step_wraps:
  "bid_step \<lparr>at_Reserve = FromMinor 1, at_StepBPS = 10000, at_MinStep = FromMinor 1, at_OpensAt = 0, at_EndsAt = 1\<rparr>
     922337203685477 = 1"
  by code_simp

end
