(* ===== verification/Trade.thy ===== *)
theory Trade
  imports Go_Base
begin

text \<open>
  \<^verbatim>\<open>internal/domain/trade/trade.go\<close>: the market day, a trader buying a settlement's surplus. The
  standing orders are sorted by item; the order of the items interprets \<open>strict_weak_order\<close>. A Go
  map read at a missing key is 0. The properties bound what a day sells and what it pays.
\<close>

abbreviation TradeBPS :: int where "TradeBPS \<equiv> 10000"

record trade_rules =
  ru_PriceBPS :: int
  ru_CapBase :: int
  ru_CapPerResident :: int

definition Rules_Enabled :: "trade_rules \<Rightarrow> bool" where
  "Rules_Enabled r \<longleftrightarrow> ru_PriceBPS r > 0 \<and> ru_PriceBPS r \<le> TradeBPS \<and> ru_CapBase r > 0"

definition Rules_Cap :: "trade_rules \<Rightarrow> int \<Rightarrow> int" where
  "Rules_Cap r residents = add64 (ru_CapBase r) (mul64 (max residents 0) (ru_CapPerResident r))"

record sale_order =
  so_Item :: string
  so_Keep :: int
  so_On :: bool

record sale_line =
  ln_Item :: string
  ln_Qty :: int
  ln_Unit :: int
  ln_Reference :: int

definition Line_Value :: "sale_line \<Rightarrow> int" where
  "Line_Value l = mul64 (ln_Qty l) (ln_Unit l)"

record sale_plan =
  sp_Lines :: "sale_line list"
  sp_Gross :: int
  sp_Cap :: int
  sp_Capped :: bool

definition UnitPrice :: "int \<Rightarrow> trade_rules \<Rightarrow> int" where
  "UnitPrice reference r =
     (if reference \<le> 0 then 0
      else min (max (quo64 (mul64 reference (ru_PriceBPS r)) TradeBPS) 1) reference)"

fun sale_loop :: "(string \<Rightarrow> int) \<Rightarrow> (string \<Rightarrow> int) \<Rightarrow> trade_rules \<Rightarrow> sale_order list \<Rightarrow> int \<Rightarrow> sale_plan \<Rightarrow> sale_plan" where
  "sale_loop stock reference r [] left p = p"
| "sale_loop stock reference r (o1 # os) left p =
     (if \<not> so_On o1 then sale_loop stock reference r os left p
      else let unit = UnitPrice (reference (so_Item o1)) r in
        if unit \<le> 0 then sale_loop stock reference r os left p
        else let qty = sub64 (stock (so_Item o1)) (max (so_Keep o1) 0) in
          if qty \<le> 0 then sale_loop stock reference r os left p
          else let fits = quo64 left unit;
                   p = (if qty > fits then p\<lparr>sp_Capped := True\<rparr> else p);
                   qty = (if qty > fits then fits else qty) in
            if qty \<le> 0 then sale_loop stock reference r os left p
            else sale_loop stock reference r os (sub64 left (mul64 qty unit))
              (p\<lparr>sp_Lines := sp_Lines p @ [\<lparr>ln_Item = so_Item o1, ln_Qty = qty, ln_Unit = unit,
                   ln_Reference = reference (so_Item o1)\<rparr>],
                 sp_Gross := add64 (sp_Gross p) (mul64 qty unit)\<rparr>))"

definition trade_Make :: "(string \<Rightarrow> int) \<Rightarrow> sale_order list \<Rightarrow> (string \<Rightarrow> int) \<Rightarrow> int \<Rightarrow> trade_rules \<Rightarrow> sale_plan" where
  "trade_Make stock orders reference residents r =
     (let cap = Rules_Cap r residents in
      sale_loop stock reference r (sort_by (\<lambda>a b. so_Item a < so_Item b) orders) cap
        \<lparr>sp_Lines = [], sp_Gross = 0, sp_Cap = cap, sp_Capped = False\<rparr>)"

interpretation items: strict_weak_order "\<lambda>a b. so_Item a < so_Item b"
  by unfold_locales auto

lemma UnitPrice_bounds:
  "0 < reference \<Longrightarrow> 1 \<le> UnitPrice reference r \<and> UnitPrice reference r \<le> reference"
  by (auto simp: UnitPrice_def)

text \<open>Below full price the trader never pays more than his share of the reference price, but for the
  floor of one unit.\<close>

lemma UnitPrice_share:
  assumes "0 < reference" "0 \<le> ru_PriceBPS r" "reference * ru_PriceBPS r \<le> MaxInt64"
  shows "UnitPrice reference r = 1 \<or> UnitPrice reference r * TradeBPS \<le> reference * ru_PriceBPS r"
proof -
  have "0 \<le> reference * ru_PriceBPS r" using assms by simp
  then have e: "quo64 (mul64 reference (ru_PriceBPS r)) TradeBPS = reference * ru_PriceBPS r div TradeBPS"
    using assms by (simp add: mul64_def wrap64_nonneg quo64_nonneg)
  show ?thesis
  proof (cases "reference * ru_PriceBPS r div TradeBPS \<le> 1")
    case True
    with assms show ?thesis by (auto simp: UnitPrice_def e)
  next
    case False
    then have "UnitPrice reference r \<le> reference * ru_PriceBPS r div TradeBPS" using assms by (simp add: UnitPrice_def e)
    then show ?thesis by (simp add: le_div_iff_int)
  qed
qed

definition plan_ok :: "(string \<Rightarrow> int) \<Rightarrow> (string \<Rightarrow> int) \<Rightarrow> sale_order list \<Rightarrow> sale_plan \<Rightarrow> int \<Rightarrow> bool" where
  "plan_ok stock reference done p left \<longleftrightarrow>
     0 \<le> left \<and> sp_Gross p = (\<Sum>l\<leftarrow>sp_Lines p. ln_Qty l * ln_Unit l) \<and> sp_Gross p + left = sp_Cap p \<and> 0 \<le> sp_Gross p \<and>
     (\<forall>l\<in>set (sp_Lines p). 0 < ln_Qty l \<and> 1 \<le> ln_Unit l \<and> ln_Unit l \<le> ln_Reference l \<and> ln_Reference l = reference (ln_Item l) \<and>
        (\<exists>o1\<in>set done. so_On o1 \<and> ln_Item l = so_Item o1 \<and> ln_Qty l \<le> stock (so_Item o1) - max (so_Keep o1) 0)) \<and>
     sorted_wrt (<) (map ln_Item (sp_Lines p))"

lemma sale_loop_ok:
  assumes "plan_ok stock reference done p left" "sp_Cap p \<le> MaxInt64"
    and "sorted_wrt (<) (map so_Item (done @ os))" "\<forall>i. 0 \<le> stock i \<and> stock i \<le> MaxInt64" "\<forall>o1\<in>set os. so_Keep o1 \<le> MaxInt64"
  shows "\<exists>rest. plan_ok stock reference (done @ os) (sale_loop stock reference r os left p) rest \<and>
    sp_Cap (sale_loop stock reference r os left p) = sp_Cap p"
  using assms
proof (induction os arbitrary: "done" p left)
  case Nil
  then show ?case by auto
next
  case (Cons a os)
  have mono: "plan_ok stock reference (done @ [a]) q l" if "plan_ok stock reference done q l" for q l
    using that by (fastforce simp: plan_ok_def)
  have srt: "sorted_wrt (<) (map so_Item ((done @ [a]) @ os))" using Cons.prems(3) by simp
  have skip: "\<exists>rest. plan_ok stock reference (done @ a # os) (sale_loop stock reference r os l q) rest \<and>
      sp_Cap (sale_loop stock reference r os l q) = sp_Cap p"
    if "plan_ok stock reference (done @ [a]) q l" "sp_Cap q = sp_Cap p" for q l
    using Cons.IH [OF that(1) _ srt Cons.prems(4)] that(2) Cons.prems(2,5) by simp
  define unit where "unit = UnitPrice (reference (so_Item a)) r"
  define q0 where "q0 = sub64 (stock (so_Item a)) (max (so_Keep a) 0)"
  define p1 where "p1 = (if q0 > quo64 left unit then p\<lparr>sp_Capped := True\<rparr> else p)"
  define qty where "qty = (if q0 > quo64 left unit then quo64 left unit else q0)"
  have p1: "plan_ok stock reference (done @ [a]) p1 left" "sp_Cap p1 = sp_Cap p" "sp_Lines p1 = sp_Lines p" "sp_Gross p1 = sp_Gross p"
    using mono [OF Cons.prems(1)] by (auto simp: p1_def plan_ok_def)
  show ?case
  proof (cases "so_On a \<and> 0 < unit \<and> 0 < q0 \<and> 0 < qty")
    case False
    then consider "\<not> so_On a" | "so_On a" "unit \<le> 0" | "so_On a" "0 < unit" "q0 \<le> 0" | "so_On a" "0 < unit" "0 < q0" "qty \<le> 0"
      by linarith
    then show ?thesis
      using skip [OF mono [OF Cons.prems(1)] refl] skip [OF p1(1,2)]
      by cases (simp_all add: unit_def [symmetric] q0_def [symmetric] p1_def [symmetric] qty_def [symmetric] Let_def)
  next
    case True
    have ref: "0 < reference (so_Item a)" using True by (auto simp: unit_def UnitPrice_def split: if_splits)
    have ub: "1 \<le> unit" "unit \<le> reference (so_Item a)" using UnitPrice_bounds [OF ref, of r] by (simp_all add: unit_def)
    have l: "0 \<le> left" "left \<le> MaxInt64" "0 \<le> sp_Gross p" "sp_Gross p + left = sp_Cap p"
      using Cons.prems(1,2) by (auto simp: plan_ok_def)
    have "quo64 left unit = left div unit" using l ub by (simp add: quo64_nonneg)
    then have "qty \<le> left div unit" by (auto simp: qty_def)
    then have qu: "qty * unit \<le> left" "0 < qty * unit" using ub True by (simp_all add: le_div_iff_int)
    have keep: "qty \<le> stock (so_Item a) - max (so_Keep a) 0"
    proof -
      have "0 \<le> max (so_Keep a) 0" "max (so_Keep a) 0 \<le> MaxInt64" using Cons.prems(5) by auto
      then have "q0 = stock (so_Item a) - max (so_Keep a) 0"
        unfolding q0_def sub64_def using Cons.prems(4) by (intro wrap64_id') (auto simp: algebra_simps intro: order_trans)
      then show ?thesis by (auto simp: qty_def)
    qed
    have ar: "mul64 qty unit = qty * unit" "sub64 left (qty * unit) = left - qty * unit"
      "add64 (sp_Gross p) (qty * unit) = sp_Gross p + qty * unit"
      using qu l Cons.prems(2) by (simp_all add: mul64_def sub64_def add64_def wrap64_nonneg)
    define ln where "ln = \<lparr>ln_Item = so_Item a, ln_Qty = qty, ln_Unit = unit, ln_Reference = reference (so_Item a)\<rparr>"
    define p2 where "p2 = p1\<lparr>sp_Lines := sp_Lines p1 @ [ln], sp_Gross := sp_Gross p1 + qty * unit\<rparr>"
    have "\<forall>l\<in>set (sp_Lines p). ln_Item l < so_Item a"
      using Cons.prems(1,3) by (auto simp: plan_ok_def sorted_wrt_append)
    then have "plan_ok stock reference (done @ [a]) p2 (left - qty * unit)"
      using p1 qu ub keep True l by (auto simp: plan_ok_def p2_def ln_def sorted_wrt_append)
    moreover have "sp_Cap p2 = sp_Cap p" using p1 by (simp add: p2_def)
    moreover have "sale_loop stock reference r (a # os) left p = sale_loop stock reference r os (left - qty * unit) p2"
      using True p1(3,4) by (simp add: unit_def [symmetric] q0_def [symmetric] p1_def [symmetric] qty_def [symmetric] ar p2_def ln_def Let_def)
    ultimately show ?thesis using skip [of p2 "left - qty * unit"] by simp
  qed
qed

text \<open>
  A market day never pays more than the visit's cap nor sells more than is kept free: the gross is the
  exact total of the lines and at most the cap, every line is for an order that is on, for a positive
  quantity of at most what is held above the kept stock, at a price between 1 and the reference price, and the
  lines come in item order, one per item.
\<close>

lemma trade_Make_bounds:
  fixes reference :: "string \<Rightarrow> int"
  assumes "0 \<le> ru_CapBase r" "0 \<le> ru_CapPerResident r" "ru_CapBase r + max residents 0 * ru_CapPerResident r \<le> MaxInt64"
    and "distinct (map so_Item orders)" "\<forall>i. 0 \<le> stock i \<and> stock i \<le> MaxInt64" "\<forall>o1\<in>set orders. so_Keep o1 \<le> MaxInt64"
  defines "p \<equiv> trade_Make stock orders reference residents r"
  shows "sp_Cap p = ru_CapBase r + max residents 0 * ru_CapPerResident r \<and>
    sp_Gross p = (\<Sum>l\<leftarrow>sp_Lines p. ln_Qty l * ln_Unit l) \<and> 0 \<le> sp_Gross p \<and> sp_Gross p \<le> sp_Cap p \<and>
    sorted_wrt (<) (map ln_Item (sp_Lines p)) \<and>
    (\<forall>l\<in>set (sp_Lines p). 0 < ln_Qty l \<and> 1 \<le> ln_Unit l \<and> ln_Unit l \<le> reference (ln_Item l) \<and>
      (\<exists>o1\<in>set orders. so_On o1 \<and> ln_Item l = so_Item o1 \<and> ln_Qty l \<le> stock (so_Item o1) - max (so_Keep o1) 0))"
proof -
  let ?os = "sort_by (\<lambda>a b. so_Item a < so_Item b) orders"
  define cap where "cap = ru_CapBase r + max residents 0 * ru_CapPerResident r"
  have n: "0 \<le> max residents 0 * ru_CapPerResident r" using assms(2) by simp
  then have c: "Rules_Cap r residents = cap" "0 \<le> cap" "cap \<le> MaxInt64"
    using assms(1,3) by (simp_all add: Rules_Cap_def cap_def mul64_def add64_def wrap64_nonneg)
  have "sorted_wrt (\<lambda>x y. \<not> so_Item y < so_Item x) ?os" by (rule items.sorted_sort_by)
  then have "sorted (map so_Item ?os)" by (simp add: sorted_wrt_map not_less)
  moreover have "distinct (map so_Item ?os)" using assms(4) by simp
  ultimately have srt: "sorted_wrt (<) (map so_Item ?os)" by (simp add: strict_sorted_iff)
  define p0 where "p0 = \<lparr>sp_Lines = [], sp_Gross = 0, sp_Cap = cap, sp_Capped = False\<rparr>"
  have "plan_ok stock reference [] p0 cap" using c by (simp add: plan_ok_def p0_def)
  from sale_loop_ok [OF this, of ?os r] srt assms(5,6) c obtain rest where
    ok: "plan_ok stock reference ?os (sale_loop stock reference r ?os cap p0) rest"
    "sp_Cap (sale_loop stock reference r ?os cap p0) = cap" by (auto simp: p0_def)
  have "p = sale_loop stock reference r ?os cap p0" by (simp add: p_def trade_Make_def c Let_def p0_def)
  with ok show ?thesis by (auto simp: plan_ok_def cap_def)
qed

definition demo_orders :: "sale_order list" where
  "demo_orders = [\<lparr>so_Item = ''wool'', so_Keep = 20, so_On = True\<rparr>, \<lparr>so_Item = ''ale'', so_Keep = 0, so_On = True\<rparr>]"

definition demo_stock :: "string \<Rightarrow> int" where
  "demo_stock i = (if i = ''wool'' then 50 else 9)"

definition demo_rules :: trade_rules where
  "demo_rules = \<lparr>ru_PriceBPS = 8000, ru_CapBase = 100, ru_CapPerResident = 5\<rparr>"

end
