(* ===== verification/Election.thy ===== *)
theory Election
  imports Money
begin

text \<open>
  \<^verbatim>\<open>internal/domain/election/election.go\<close>: the calendar of an election, who may stand and vote, and
  the count. The ranking of the count interprets \<open>strict_weak_order\<close>, which is what makes the
  result independent of the order in which storage returns the candidates.
\<close>

datatype election_error = ElErrInvalidRules | ElErrNotInPhase | ElErrNotEligible

record el_rules =
  el_Candidacy :: duration
  el_Voting :: duration
  el_MinLevel :: int
  el_MinResidency :: duration
  el_CleanRecord :: bool
  el_Deposit :: amount
  el_RefundShareBPS :: int
  el_VoterMinResidency :: duration
  el_ReopenAfter :: duration

text \<open>The joined error is the list of the complaints; it is nil when there is none.\<close>

datatype rules_fault = FaultPeriods | FaultReopen | FaultRequirements | FaultDeposit | FaultRefund

definition el_Rules_Validate :: "el_rules \<Rightarrow> rules_fault list" where
  "el_Rules_Validate r =
     (if el_Candidacy r \<le> 0 \<or> el_Voting r \<le> 0 then [FaultPeriods] else []) @
     (if el_ReopenAfter r \<le> 0 then [FaultReopen] else []) @
     (if el_MinLevel r < 0 \<or> el_MinResidency r < 0 \<or> el_VoterMinResidency r < 0 then [FaultRequirements] else []) @
     (if Minor (el_Deposit r) < 0 then [FaultDeposit] else []) @
     (if el_RefundShareBPS r < 0 \<or> el_RefundShareBPS r > 10000 then [FaultRefund] else [])"

section \<open>The calendar\<close>

datatype phase = Candidacy | Voting | Counting

record el_schedule =
  sch_OpensAt :: go_time
  sch_CandidacyEndsAt :: go_time
  sch_VotingEndsAt :: go_time

definition election_Plan :: "el_rules \<Rightarrow> go_time \<Rightarrow> el_schedule" where
  "election_Plan r opensAt =
     (let c = time_Add opensAt (el_Candidacy r) in
      \<lparr>sch_OpensAt = opensAt, sch_CandidacyEndsAt = c, sch_VotingEndsAt = time_Add c (el_Voting r)\<rparr>)"

definition NextOpening :: "el_rules \<Rightarrow> duration \<Rightarrow> go_time \<Rightarrow> bool \<Rightarrow> go_time \<times> bool" where
  "NextOpening r trm countedAt filled =
     (if trm \<le> 0 then (0, False)
      else if \<not> filled then (time_Add countedAt (el_ReopenAfter r), True)
      else let lead = sub64 (sub64 trm (el_Candidacy r)) (el_Voting r);
               lead = (if lead < 0 then 0 else lead) in
        (time_Add countedAt lead, True))"

definition Schedule_At :: "el_schedule \<Rightarrow> go_time \<Rightarrow> phase" where
  "Schedule_At s now =
     (if now < sch_CandidacyEndsAt s then Candidacy
      else if now < sch_VotingEndsAt s then Voting
      else Counting)"

lemma Schedule_At_iff:
  assumes "el_Rules_Validate r = []"
  shows "Schedule_At (election_Plan r t) now = Candidacy \<longleftrightarrow> now < t + el_Candidacy r"
    "Schedule_At (election_Plan r t) now = Voting \<longleftrightarrow> t + el_Candidacy r \<le> now \<and> now < t + el_Candidacy r + el_Voting r"
    "Schedule_At (election_Plan r t) now = Counting \<longleftrightarrow> t + el_Candidacy r + el_Voting r \<le> now"
  using assms by (auto simp: Schedule_At_def election_Plan_def time_Add_def el_Rules_Validate_def Let_def split: if_splits)

text \<open>
  The cycle closes: after a count that filled a seat, the next election's own count falls exactly
  when the new term ends, so the holder serves the whole term; a term shorter than the calendar opens at
  once and its count comes after the term; an office held at pleasure opens none.
\<close>

lemma NextOpening_cycle:
  assumes "el_Rules_Validate r = []" "trm \<le> MaxInt64" "el_Candidacy r + el_Voting r \<le> MaxInt64"
  shows "if trm \<le> 0 then NextOpening r trm t filled = (0, False)
    else if \<not> filled then NextOpening r trm t filled = (t + el_ReopenAfter r, True)
    else \<exists>opens. NextOpening r trm t filled = (opens, True) \<and> t \<le> opens \<and>
      sch_VotingEndsAt (election_Plan r opens) = t + max trm (el_Candidacy r + el_Voting r) \<and>
      (\<forall>now. Schedule_At (election_Plan r opens) now = Counting \<longleftrightarrow> t + max trm (el_Candidacy r + el_Voting r) \<le> now)"
proof (cases "trm \<le> 0 \<or> \<not> filled")
  case True
  then show ?thesis by (auto simp: NextOpening_def time_Add_def)
next
  case False
  have p: "0 < el_Candidacy r" "0 < el_Voting r"
    using assms(1) by (auto simp: el_Rules_Validate_def split: if_splits)
  have e: "sub64 (sub64 trm (el_Candidacy r)) (el_Voting r) = trm - el_Candidacy r - el_Voting r"
    using p False assms by (simp add: sub64_def wrap64_id')
  define lead where "lead = max 0 (trm - el_Candidacy r - el_Voting r)"
  have n: "NextOpening r trm t filled = (t + lead, True)"
    using False by (auto simp: NextOpening_def e lead_def time_Add_def Let_def)
  have "lead + el_Candidacy r + el_Voting r = max trm (el_Candidacy r + el_Voting r)" by (simp add: lead_def max_def)
  then have "sch_VotingEndsAt (election_Plan r (t + lead)) = t + max trm (el_Candidacy r + el_Voting r)"
    by (simp add: election_Plan_def time_Add_def Let_def)
  moreover from this have "sch_VotingEndsAt (election_Plan r (t + lead)) = t + lead + el_Candidacy r + el_Voting r"
    by (simp add: election_Plan_def time_Add_def Let_def)
  ultimately have "NextOpening r trm t filled = (t + lead, True) \<and> t \<le> t + lead \<and>
      sch_VotingEndsAt (election_Plan r (t + lead)) = t + max trm (el_Candidacy r + el_Voting r) \<and>
      (\<forall>now. Schedule_At (election_Plan r (t + lead)) now = Counting \<longleftrightarrow> t + max trm (el_Candidacy r + el_Voting r) \<le> now)"
    using n Schedule_At_iff(3) [OF assms(1), of "t + lead"] by (simp add: lead_def add.assoc)
  with False show ?thesis by (simp only: de_Morgan_disj if_False not_not if_not_P if_P) blast
qed

definition demo_election :: el_rules where
  "demo_election = \<lparr>el_Candidacy = 3 * Hour, el_Voting = 2 * Hour, el_MinLevel = 1, el_MinResidency = 0, el_CleanRecord = True,
     el_Deposit = FromMinor 100, el_RefundShareBPS = 500, el_VoterMinResidency = 0, el_ReopenAfter = Hour\<rparr>"

section \<open>Who may stand and vote\<close>

datatype refusal = WhyNotResident | WhyTooNew | WhyLevel | WhyRecord | WhyJailed | WhyStanding | WhyVoted | WhyIncompatible

record el_person =
  per_Resident :: bool
  per_ResidentFor :: duration
  per_Level :: int
  per_Owes :: bool
  per_Jailed :: bool

definition CanStand :: "el_rules \<Rightarrow> el_person \<Rightarrow> refusal option" where
  "CanStand r p =
     (if \<not> per_Resident p then Some WhyNotResident
      else if per_ResidentFor p < el_MinResidency r then Some WhyTooNew
      else if per_Level p < el_MinLevel r then Some WhyLevel
      else if el_CleanRecord r \<and> per_Jailed p then Some WhyJailed
      else if el_CleanRecord r \<and> per_Owes p then Some WhyRecord
      else None)"

definition CanVote :: "el_rules \<Rightarrow> el_person \<Rightarrow> refusal option" where
  "CanVote r p =
     (if \<not> per_Resident p then Some WhyNotResident
      else if per_ResidentFor p < el_VoterMinResidency r then Some WhyTooNew
      else None)"

lemma CanStand_iff:
  "CanStand r p = None \<longleftrightarrow> per_Resident p \<and> el_MinResidency r \<le> per_ResidentFor p \<and> el_MinLevel r \<le> per_Level p \<and>
    (el_CleanRecord r \<longrightarrow> \<not> per_Jailed p \<and> \<not> per_Owes p)"
  by (auto simp: CanStand_def)

section \<open>The count\<close>

record candidate =
  cand_PlayerID :: string
  cand_StoodAt :: go_time
  cand_Votes :: int

record count_result =
  cnt_Ranked :: "candidate list"
  cnt_Elected :: "candidate list"
  cnt_Cast :: int

definition ranks_before :: "candidate \<Rightarrow> candidate \<Rightarrow> bool" where
  "ranks_before a b =
     (if cand_Votes a \<noteq> cand_Votes b then cand_Votes a > cand_Votes b
      else if cand_StoodAt a \<noteq> cand_StoodAt b then cand_StoodAt a < cand_StoodAt b
      else cand_PlayerID a < cand_PlayerID b)"

fun count_loop :: "int \<Rightarrow> candidate list \<Rightarrow> candidate list \<Rightarrow> int \<Rightarrow> candidate list \<times> int" where
  "count_loop seats [] elected cast = (elected, cast)"
| "count_loop seats (c # cs) elected cast =
     count_loop seats cs
       (if int (length elected) < seats \<and> cand_Votes c > 0 then elected @ [c] else elected)
       (add64 cast (cand_Votes c))"

definition election_Count :: "candidate list \<Rightarrow> int \<Rightarrow> count_result" where
  "election_Count candidates seats =
     (let ranked = sort_by ranks_before candidates in
      case count_loop seats ranked [] 0 of (elected, cast) \<Rightarrow>
        \<lparr>cnt_Ranked = ranked, cnt_Elected = elected, cnt_Cast = cast\<rparr>)"

definition Refunded :: "el_rules \<Rightarrow> int \<Rightarrow> int \<Rightarrow> bool" where
  "Refunded r votes cast =
     (if cast \<le> 0 then True
      else mul64 votes 10000 \<ge> mul64 cast (el_RefundShareBPS r))"

interpretation ranking: strict_weak_order ranks_before
  by unfold_locales (auto simp: ranks_before_def not_less split: if_splits)

lemma ranks_before_total:
  "\<not> ranks_before a b \<Longrightarrow> \<not> ranks_before b a \<Longrightarrow> cand_PlayerID a = cand_PlayerID b"
  by (auto simp: ranks_before_def not_less split: if_splits)

lemma count_loop_elected:
  assumes "0 \<le> seats" "int (length elected) \<le> seats"
  shows "fst (count_loop seats cs elected cast) =
    elected @ take (nat seats - length elected) (filter (\<lambda>c. 0 < cand_Votes c) cs)"
  using assms
proof (induction cs arbitrary: elected cast)
  case Nil
  then show ?case by simp
next
  case (Cons c cs)
  show ?case
  proof (cases "int (length elected) < seats \<and> cand_Votes c > 0")
    case True
    then have "length elected < nat seats" by linarith
    then have "nat seats - length elected = Suc (nat seats - length (elected @ [c]))" by simp
    with True Cons show ?thesis by simp
  next
    case False
    with Cons.prems(2) have "cand_Votes c \<le> 0 \<or> nat seats - length elected = 0" by auto
    with False Cons show ?thesis by auto
  qed
qed

lemma count_loop_cast:
  assumes "\<forall>c\<in>set cs. 0 \<le> cand_Votes c" "0 \<le> cast" "cast + (\<Sum>c\<leftarrow>cs. cand_Votes c) \<le> MaxInt64"
  shows "snd (count_loop seats cs elected cast) = cast + (\<Sum>c\<leftarrow>cs. cand_Votes c)"
  using assms
proof (induction cs arbitrary: elected cast)
  case Nil
  then show ?case by simp
next
  case (Cons c cs)
  have "0 \<le> (\<Sum>c\<leftarrow>cs. cand_Votes c)" using Cons.prems(1) by (intro sum_list_nonneg) auto
  with Cons show ?case by (simp add: add64_def wrap64_nonneg)
qed


definition demo_candidates :: "candidate list" where
  "demo_candidates = [\<lparr>cand_PlayerID = ''a'', cand_StoodAt = 5, cand_Votes = 3\<rparr>, \<lparr>cand_PlayerID = ''b'', cand_StoodAt = 4, cand_Votes = 3\<rparr>,
     \<lparr>cand_PlayerID = ''c'', cand_StoodAt = 1, cand_Votes = 0\<rparr>]"


text \<open>
  The result of a count does not depend on the order in which the candidates are read: any
  arrangement of the same candidates, each with an id of their own, gives the same ranking, the same
  elected and the same total.
\<close>

lemma election_Count_order_independent:
  assumes "mset cs = mset cs'" "distinct (map cand_PlayerID cs)"
  shows "election_Count cs seats = election_Count cs' seats"
proof -
  have inj: "inj_on cand_PlayerID (set cs)" using assms(2) by (simp add: distinct_map)
  have "sort_by ranks_before cs = sort_by ranks_before cs'"
    using inj_onD [OF inj ranks_before_total] by (intro ranking.sort_by_perm [OF assms(1)]) auto
  then show ?thesis by (simp add: election_Count_def)
qed

lemma Refunded_iff:
  assumes "0 \<le> votes" "votes \<le> cast" "cast * 10000 \<le> MaxInt64" "0 < cast" "0 \<le> el_RefundShareBPS r" "el_RefundShareBPS r \<le> 10000"
  shows "Refunded r votes cast \<longleftrightarrow> cast * el_RefundShareBPS r \<le> votes * 10000"
proof -
  have "0 \<le> cast * el_RefundShareBPS r" "cast * el_RefundShareBPS r \<le> cast * 10000" "votes * 10000 \<le> cast * 10000" using assms by (simp_all add: mult_left_mono)
  then have "wrap64 (cast * el_RefundShareBPS r) = cast * el_RefundShareBPS r" "wrap64 (votes * 10000) = votes * 10000"
    using assms(1,3) by (intro wrap64_nonneg; linarith)+
  with assms(4) show ?thesis by (simp add: Refunded_def mul64_def)
qed

end
