(* ===== verification/Tender.thy ===== *)
theory Tender
  imports Go_Base
begin

text \<open>
  \<^verbatim>\<open>internal/domain/tender/tender.go\<close>: public works by tender. The ranking of the bids interprets
  \<open>strict_weak_order\<close> for each award rule. A price paid in stages is the locale \<open>stage_split\<close>,
  interpreted on the three stages of a work and on the stages of a special project. A Go map read at a missing key is 0.
\<close>

abbreviation TenBPS :: int where "TenBPS \<equiv> 10000"

datatype tender_error = ErrConflict | ErrDebarred | ErrBid

datatype award_rule = LowestPrice | Scored | OtherRule string

definition Rule_Valid :: "award_rule \<Rightarrow> bool" where
  "Rule_Valid r \<longleftrightarrow> r = LowestPrice \<or> r = Scored"

record tender_bid =
  tb_Company :: string
  tb_Price :: int
  tb_Days :: int
  tb_Record :: int
  tb_Bond :: int
  tb_At :: go_time

definition BondFor :: "int \<Rightarrow> int \<Rightarrow> int" where
  "BondFor price bondBPS =
     (if price \<le> 0 \<or> bondBPS \<le> 0 then 0
      else quo64 (sub64 (add64 (mul64 price bondBPS) TenBPS) 1) TenBPS)"

definition tender_Check :: "tender_bid \<Rightarrow> int \<Rightarrow> int \<Rightarrow> tender_error option" where
  "tender_Check b budgetCap bondBPS =
     (if tb_Price b < 1 \<or> tb_Days b < 1 \<or> tb_Bond b < BondFor (tb_Price b) bondBPS \<or>
         (budgetCap > 0 \<and> tb_Price b > budgetCap) then Some ErrBid
      else None)"

lemma BondFor_eq:
  assumes "0 < p" "0 < b" "p * b + TenBPS \<le> MaxInt64"
  shows "BondFor p b = ceil_div (p * b) TenBPS"
proof -
  have "0 \<le> p * b" using assms by simp
  then show ?thesis using assms
    by (simp add: BondFor_def ceil_div_def mul64_def add64_def sub64_def wrap64_nonneg quo64_nonneg)
qed

section \<open>The winner\<close>

definition tender_score :: "tender_bid \<Rightarrow> int \<Rightarrow> int" where
  "tender_score b quickest =
     (let over = max (sub64 (tb_Days b) quickest) 0;
          adj = sub64 (add64 (tb_Price b) (quo64 (mul64 (tb_Price b) over) 100))
            (quo64 (mul64 (tb_Price b) (min (tb_Record b) 50)) 100) in
      max adj (quo64 (tb_Price b) 2))"

definition quickest_of :: "tender_bid list \<Rightarrow> int" where
  "quickest_of bids = fold (\<lambda>b q. min q (tb_Days b)) bids (tb_Days (hd bids))"

definition bid_key :: "award_rule \<Rightarrow> int \<Rightarrow> tender_bid \<Rightarrow> int" where
  "bid_key rule quickest b = (if rule = Scored then tender_score b quickest else tb_Price b)"

definition bid_before :: "award_rule \<Rightarrow> int \<Rightarrow> tender_bid \<Rightarrow> tender_bid \<Rightarrow> bool" where
  "bid_before rule quickest a b =
     (if bid_key rule quickest a \<noteq> bid_key rule quickest b then bid_key rule quickest a < bid_key rule quickest b
      else if tb_At a \<noteq> tb_At b then tb_At a < tb_At b
      else tb_Company a < tb_Company b)"

definition Winner :: "award_rule \<Rightarrow> tender_bid list \<Rightarrow> tender_bid option" where
  "Winner rule bids =
     (if bids = [] then None
      else Some (hd (sort_by (bid_before rule (quickest_of bids)) bids)))"

interpretation award: strict_weak_order "bid_before rule quickest" for rule quickest
  by unfold_locales (auto simp: bid_before_def not_less split: if_splits)

lemma quickest_of_Min: "bids \<noteq> [] \<Longrightarrow> quickest_of bids = Min (tb_Days ` set bids)"
proof -
  assume ne: "bids \<noteq> []"
  have "fold (\<lambda>b q. min q (tb_Days b)) bs q = Min (insert q (tb_Days ` set bs))" for bs q
  proof (induction bs arbitrary: q)
    case Nil
    then show ?case by simp
  next
    case (Cons b bs)
    have "fold (\<lambda>b q. min q (tb_Days b)) (b # bs) q = Min (insert (min q (tb_Days b)) (tb_Days ` set bs))"
      using Cons [of "min q (tb_Days b)"] by simp
    also have "\<dots> = Min (insert q (insert (tb_Days b) (tb_Days ` set bs)))"
      by (cases "bs = []") (simp_all add: min.assoc)
    finally show ?case by simp
  qed
  then have "quickest_of bids = Min (insert (tb_Days (hd bids)) (tb_Days ` set bids))" by (simp add: quickest_of_def)
  with ne show ?thesis by (simp add: insert_absorb)
qed

text \<open>
  The award is determined by the bids alone: the winner is one of them, no bid ranks before it (a
  lower price or score, then an earlier time, then a smaller company id), and the same bids in any
  order, one per company, give the same winner.
\<close>

lemma Winner_best:
  assumes "bids \<noteq> []" "distinct (map tb_Company bids)" "mset bids' = mset bids"
  shows "\<exists>w. Winner rule bids = Some w \<and> w \<in> set bids \<and> (\<forall>b\<in>set bids. \<not> bid_before rule (Min (tb_Days ` set bids)) b w) \<and>
    (\<forall>b\<in>set bids. bid_key rule (Min (tb_Days ` set bids)) w \<le> bid_key rule (Min (tb_Days ` set bids)) b) \<and>
    Winner rule bids' = Some w"
proof -
  let ?q = "Min (tb_Days ` set bids)" and ?lt = "bid_before rule (Min (tb_Days ` set bids))"
  have sets: "set bids' = set bids" "bids' \<noteq> []" using mset_eq_setD [OF assms(3)] assms(1) by auto
  have q: "quickest_of bids = ?q" "quickest_of bids' = ?q" using assms(1) sets by (simp_all add: quickest_of_Min)
  obtain w ws where w: "sort_by ?lt bids = w # ws"
    using assms(1) mset_sort_by [of ?lt bids] by (cases "sort_by ?lt bids") auto
  have "inj_on tb_Company (set bids)" using assms(2) by (simp add: distinct_map)
  then have "sort_by ?lt bids = sort_by ?lt bids'"
    by (intro award.sort_by_perm [OF assms(3) [symmetric]]) (auto simp: bid_before_def not_less inj_on_def split: if_splits)
  then have "hd (sort_by ?lt bids) = w" "hd (sort_by ?lt bids') = w" using w by (metis list.sel(1))+
  then have "Winner rule bids = Some w" "Winner rule bids' = Some w" using assms(1) sets by (simp_all add: Winner_def q)
  moreover have "w \<in> set bids" using set_sort_by [of ?lt bids] w by auto
  moreover have best: "\<forall>b\<in>set bids. \<not> ?lt b w" using award.sort_by_head [OF w] by blast
  moreover have "\<forall>b\<in>set bids. bid_key rule ?q w \<le> bid_key rule ?q b"
    using best by (auto simp: bid_before_def not_less split: if_splits)
  ultimately show ?thesis by blast
qed

definition demo_bids :: "tender_bid list" where
  "demo_bids = [\<lparr>tb_Company = ''a'', tb_Price = 100, tb_Days = 4, tb_Record = 0, tb_Bond = 5, tb_At = 7\<rparr>,
     \<lparr>tb_Company = ''b'', tb_Price = 100, tb_Days = 2, tb_Record = 3, tb_Bond = 5, tb_At = 9\<rparr>]"

text \<open>A score never drops below half the price, and a finished work or a saved day never makes it worse.\<close>

lemma tender_score_bounds:
  assumes "0 < tb_Price b" "0 \<le> tb_Record b" "quickest \<le> tb_Days b" "0 \<le> quickest" "tb_Days b \<le> MaxInt64"
    and "tb_Price b * (tb_Days b - quickest + 100) \<le> MaxInt64"
  shows "tender_score b quickest = max (tb_Price b + tb_Price b * (tb_Days b - quickest) div 100 - tb_Price b * min (tb_Record b) 50 div 100)
      (tb_Price b div 2)"
    "tb_Price b div 2 \<le> tender_score b quickest"
proof -
  define p d where "p = tb_Price b" and "d = tb_Days b - quickest"
  have d: "0 \<le> d" "sub64 (tb_Days b) quickest = d" using assms by (simp_all add: d_def sub64_def wrap64_nonneg)
  have p: "0 < p" "0 \<le> p * d" "p * d + p * 100 \<le> MaxInt64" using assms d by (simp_all add: p_def d_def distrib_left)
  define k where "k = min (tb_Record b) 50"
  have "0 \<le> k" "k \<le> 50" using assms(2) by (simp_all add: k_def)
  then have "0 \<le> p * k" "p * k \<le> p * 50" using p(1) by simp_all
  then have pk: "0 \<le> p * k" "p * k \<le> MaxInt64" using p by linarith+
  have q1: "quo64 (mul64 p d) 100 = p * d div 100" "0 \<le> p * d div 100" "p * d div 100 \<le> p * d"
    using p div_le_self [of "p * d" 100] by (simp_all add: mul64_def wrap64_nonneg quo64_nonneg pos_imp_zdiv_nonneg_iff)
  have q2: "quo64 (mul64 p k) 100 = p * k div 100" "0 \<le> p * k div 100" "p * k div 100 \<le> p * k"
    using pk p div_le_self [of "p * k" 100] by (simp_all add: mul64_def wrap64_nonneg quo64_nonneg pos_imp_zdiv_nonneg_iff)
  have "add64 p (p * d div 100) = p + p * d div 100" using p q1 by (simp add: add64_def wrap64_nonneg)
  moreover have "sub64 (p + p * d div 100) (p * k div 100) = p + p * d div 100 - p * k div 100"
    using p q1 q2 pk by (simp add: sub64_def wrap64_id')
  moreover have "quo64 p 2 = p div 2" using p by (simp add: quo64_nonneg)
  ultimately show e: "tender_score b quickest = max (tb_Price b + tb_Price b * (tb_Days b - quickest) div 100 -
      tb_Price b * min (tb_Record b) 50 div 100) (tb_Price b div 2)"
    using d q1(1) q2(1) by (simp add: tender_score_def p_def [symmetric] d_def [symmetric] k_def [symmetric] Let_def)
  show "tb_Price b div 2 \<le> tender_score b quickest" unfolding e by simp
qed

section \<open>Conflicts of interest\<close>

record tender_company =
  co_Owner :: string
  co_Managers :: "string list"
  co_Stakes :: "string \<Rightarrow> int"

fun Conflicts :: "string list \<Rightarrow> tender_company \<Rightarrow> int \<Rightarrow> bool" where
  "Conflicts [] c refuseFromBPS = False"
| "Conflicts (o1 # os) c refuseFromBPS =
     (if o1 = [] then Conflicts os c refuseFromBPS
      else if o1 = co_Owner c then True
      else if o1 \<in> set (co_Managers c) then True
      else if refuseFromBPS > 0 \<and> co_Stakes c o1 \<ge> refuseFromBPS then True
      else Conflicts os c refuseFromBPS)"

definition Debarred :: "go_time \<Rightarrow> go_time \<Rightarrow> bool" where
  "Debarred until now \<longleftrightarrow> \<not> time_IsZero until \<and> now < until"

definition Overdue :: "go_time \<Rightarrow> duration \<Rightarrow> go_time \<Rightarrow> bool" where
  "Overdue deadline grace now \<longleftrightarrow> \<not> now < time_Add deadline grace"

lemma Conflicts_iff:
  "Conflicts os c from \<longleftrightarrow> (\<exists>o1\<in>set os. o1 \<noteq> [] \<and> (o1 = co_Owner c \<or> o1 \<in> set (co_Managers c) \<or> (0 < from \<and> from \<le> co_Stakes c o1)))"
  by (induction os) auto

section \<open>Payment by stages\<close>

text \<open>
  A price paid in equal shares, the remainder on the last stage. Whoever provides such shares pays
  the price in full, never a negative share, and each but the last the same.
\<close>

locale stage_split =
  fixes share :: "int \<Rightarrow> int \<Rightarrow> int" and n :: int
  assumes stages: "1 \<le> n"
    and share_spec: "1 \<le> p \<Longrightarrow> p \<le> MaxInt64 \<Longrightarrow> 1 \<le> k \<Longrightarrow> k \<le> n \<Longrightarrow> share p k = p div n + (if k = n then p mod n else 0)"
begin

lemma share_bounds:
  assumes "1 \<le> p" "p \<le> MaxInt64" "1 \<le> k" "k \<le> n"
  shows "0 \<le> share p k" "share p k \<le> p"
proof -
  have m: "0 \<le> p mod n" "0 \<le> p div n" using assms(1) stages by (simp_all add: pos_imp_zdiv_nonneg_iff)
  have "p div n * 1 \<le> p div n * n" using m stages by (intro mult_left_mono) auto
  then have "p div n + p mod n \<le> p" using div_mult_mod_eq [of p n] by linarith
  with m show "0 \<le> share p k" "share p k \<le> p" using share_spec [OF assms] by auto
qed

lemma shares_total:
  assumes "1 \<le> p" "p \<le> MaxInt64"
  shows "(\<Sum>k\<in>{1..n}. share p k) = p"
proof -
  have e: "{1..n} = insert n {1..n - 1}" using stages by auto
  have "(\<Sum>k\<in>{1..n}. share p k) = share p n + (\<Sum>k\<in>{1..n - 1}. share p k)" unfolding e by simp
  also have "(\<Sum>k\<in>{1..n - 1}. share p k) = (\<Sum>k\<in>{1..n - 1}. p div n)"
    using assms by (intro sum.cong) (auto simp: share_spec)
  also have "\<dots> = (n - 1) * (p div n)" using stages by simp
  also have "share p n = p div n + p mod n" using assms stages by (simp add: share_spec)
  finally show ?thesis using div_mult_mod_eq [of p n] by (simp add: algebra_simps)
qed

end

abbreviation Stages :: int where "Stages \<equiv> 3"

definition StageShare :: "int \<Rightarrow> int \<Rightarrow> int" where
  "StageShare price stage =
     (if stage < 1 \<or> stage > Stages \<or> price < 1 then 0
      else let s = quo64 price Stages in
        if stage = Stages then add64 s (rem64 price Stages) else s)"

definition StageShareN :: "int \<Rightarrow> int \<Rightarrow> int \<Rightarrow> int" where
  "StageShareN price stage n =
     (if n < 1 \<or> stage < 1 \<or> stage > n \<or> price < 1 then 0
      else let s = quo64 price n in
        if stage = n then add64 s (rem64 price n) else s)"

definition split_held :: "int \<Rightarrow> int \<Rightarrow> int \<times> int" where
  "split_held share retentionBPS =
     (if share = 0 then (0, 0)
      else let held = quo64 (sub64 (add64 (mul64 share (max retentionBPS 0)) TenBPS) 1) TenBPS;
               held = (if held > share then share else held) in
        (sub64 share held, held))"

definition StagePay :: "int \<Rightarrow> int \<Rightarrow> int \<Rightarrow> int \<times> int" where
  "StagePay price stage retentionBPS = split_held (StageShare price stage) retentionBPS"

definition StagePayN :: "int \<Rightarrow> int \<Rightarrow> int \<Rightarrow> int \<Rightarrow> int \<times> int" where
  "StagePayN price stage n retentionBPS = split_held (StageShareN price stage n) retentionBPS"

definition StageDone :: "int \<Rightarrow> int \<Rightarrow> int \<Rightarrow> bool" where
  "StageDone done required stage =
     (if required \<le> 0 \<or> stage < 1 \<or> stage > Stages then False
      else mul64 done Stages \<ge> mul64 required stage)"

text \<open>The loop over the three stages: the last one done wins.\<close>

definition StagesDone :: "int \<Rightarrow> int \<Rightarrow> int" where
  "StagesDone done required = fold (\<lambda>k n. if StageDone done required k then k else n) [1, 2, 3] 0"

lemma StageShareN_eq:
  assumes "1 \<le> n" "1 \<le> p" "p \<le> MaxInt64" "1 \<le> k" "k \<le> n"
  shows "StageShareN p k n = p div n + (if k = n then p mod n else 0)"
proof -
  have m: "0 \<le> p mod n" "0 \<le> p div n" using assms by (simp_all add: pos_imp_zdiv_nonneg_iff)
  have "p div n * 1 \<le> p div n * n" using m assms by (intro mult_left_mono) auto
  then have "p div n + p mod n \<le> p" using div_mult_mod_eq [of p n] by linarith
  with m assms show ?thesis by (simp add: StageShareN_def quo64_nonneg rem64_nonneg add64_def wrap64_nonneg Let_def)
qed

lemma StageShare_N: "StageShare p k = StageShareN p k Stages"
  by (simp add: StageShare_def StageShareN_def)

interpretation work_stages: stage_split StageShare Stages
  by unfold_locales (simp_all add: StageShare_N StageShareN_eq)

interpretation project_stages: stage_split "\<lambda>p k. StageShareN p k (int (Suc m))" "int (Suc m)" for m
  by unfold_locales (use StageShareN_eq [of "int (Suc m)"] in auto)

lemma split_held_ok:
  assumes "0 \<le> s" "s \<le> MaxInt64" "s * max b 0 + TenBPS \<le> MaxInt64"
  shows "fst (split_held s b) + snd (split_held s b) = s" "0 \<le> fst (split_held s b)" "0 \<le> snd (split_held s b)"
    "snd (split_held s b) = min s (ceil_div (s * max b 0) TenBPS)"
proof -
  define c where "c = ceil_div (s * max b 0) TenBPS"
  have n: "0 \<le> s * max b 0" using assms(1) by simp
  then have h: "quo64 (sub64 (add64 (mul64 s (max b 0)) TenBPS) 1) TenBPS = c"
    using assms(3) by (simp add: c_def ceil_div_def mul64_def add64_def sub64_def wrap64_nonneg quo64_nonneg)
  have c: "0 \<le> c" using n by (simp add: c_def ceil_div_nonneg)
  have z: "s = 0 \<Longrightarrow> c = 0" by (simp add: c_def ceil_div_def)
  have "split_held s b = (if s = 0 then (0, 0) else if c > s then (0, s) else (s - c, c))"
    unfolding split_held_def h Let_def using c assms(1,2) by (auto simp: sub64_def wrap64_nonneg)
  then show "fst (split_held s b) + snd (split_held s b) = s" "0 \<le> fst (split_held s b)" "0 \<le> snd (split_held s b)"
    "snd (split_held s b) = min s (ceil_div (s * max b 0) TenBPS)"
    using c z assms(1) by (auto simp: c_def [symmetric])
qed

text \<open>
  C39. A work paid by stages is paid in full and no more: over its \<open>n\<close> stages what is paid now and what
  is held back as retention add up to exactly the price, neither is ever negative, and the retention of a stage
  is its exact rate rounded up, never more than the stage.
\<close>

theorem stages_pay_in_full:
  assumes "1 \<le> n" "1 \<le> p" "p \<le> MaxInt64" "p * max b 0 + TenBPS \<le> MaxInt64"
  shows "(\<Sum>k\<in>{1..n}. fst (StagePayN p k n b) + snd (StagePayN p k n b)) = p \<and>
    (\<forall>k\<in>{1..n}. 0 \<le> fst (StagePayN p k n b) \<and> 0 \<le> snd (StagePayN p k n b) \<and>
      snd (StagePayN p k n b) = min (StageShareN p k n) (ceil_div (StageShareN p k n * max b 0) TenBPS)) \<and>
    (\<forall>k. StagePay p k b = StagePayN p k Stages b)"
proof -
  obtain m where m: "n = int (Suc m)" using assms(1) by (intro that [of "nat (n - 1)"]) simp
  have sh: "0 \<le> StageShareN p k n" "StageShareN p k n \<le> p" if "k \<in> {1..n}" for k
    using project_stages.share_bounds [of p k m] assms(2,3) that by (simp_all add: m)
  have h: "fst (StagePayN p k n b) + snd (StagePayN p k n b) = StageShareN p k n" "0 \<le> fst (StagePayN p k n b)"
    "0 \<le> snd (StagePayN p k n b)" "snd (StagePayN p k n b) = min (StageShareN p k n) (ceil_div (StageShareN p k n * max b 0) TenBPS)"
    if "k \<in> {1..n}" for k
  proof -
    have "StageShareN p k n * max b 0 \<le> p * max b 0" using sh [OF that] by (intro mult_right_mono) auto
    then show "fst (StagePayN p k n b) + snd (StagePayN p k n b) = StageShareN p k n" "0 \<le> fst (StagePayN p k n b)"
      "0 \<le> snd (StagePayN p k n b)" "snd (StagePayN p k n b) = min (StageShareN p k n) (ceil_div (StageShareN p k n * max b 0) TenBPS)"
      unfolding StagePayN_def using sh [OF that] assms(3,4) by (intro split_held_ok; linarith)+
  qed
  have "(\<Sum>k\<in>{1..n}. fst (StagePayN p k n b) + snd (StagePayN p k n b)) = (\<Sum>k\<in>{1..n}. StageShareN p k n)"
    using h(1) by (intro sum.cong) auto
  also have "\<dots> = p" using project_stages.shares_total [of p m] assms(2,3) by (simp add: m)
  finally show ?thesis using h by (simp add: StagePay_def StagePayN_def StageShare_N)
qed

theorem stages_pay_in_full_witness:
  "(\<Sum>k\<in>{1..4}. fst (StagePayN 103 k 4 500) + snd (StagePayN 103 k 4 500)) = 103"
proof -
  have p: "(1::int) \<le> 4" "(1::int) \<le> 103" "(103::int) \<le> MaxInt64" "103 * max 500 0 + TenBPS \<le> MaxInt64" by simp_all
  from stages_pay_in_full [OF p] show ?thesis by blast
qed

text \<open>Stages are done in order: a later one done means every earlier one is.\<close>

lemma StageDone_mono:
  assumes "StageDone done required k" "1 \<le> j" "j \<le> k" "required * Stages \<le> MaxInt64"
  shows "StageDone done required j"
proof -
  have k: "0 < required" "1 \<le> k" "k \<le> Stages" "mul64 required k \<le> mul64 done Stages"
    using assms(1) by (auto simp: StageDone_def split: if_splits)
  have b: "required * j \<le> required * k" "required * k \<le> required * Stages" "0 \<le> required * j"
    using k assms(2,3) by (simp_all add: mult_left_mono)
  then have "mul64 required j \<le> mul64 required k" using assms(4) by (simp add: mul64_def wrap64_nonneg)
  with k assms(2,3) show ?thesis by (simp add: StageDone_def)
qed

lemma StagesDone_eq:
  "StagesDone done required =
    (if StageDone done required 3 then 3 else if StageDone done required 2 then 2 else if StageDone done required 1 then 1 else 0)"
  by (simp add: StagesDone_def)

end
