(* ===== verification/Payment.thy ===== *)
theory Payment
  imports Money
begin

text \<open>
  \<^verbatim>\<open>internal/domain/payment/payment.go\<close>: with which purse a player can pay a charge. A method
  is the closed Go string type with a constructor for any other text; \<open>Parse\<close> works on the lower-cased,
  trimmed text, whose spelling is a parameter (the functions of the standard library's \<open>strings\<close> on bytes outside
  ASCII are not modelled). The lemmas show that a plan offers exactly the accepted methods that cover the sum,
  in display order.
\<close>

datatype pay_method = PayCash | PayCard | PayOther string

definition pay_methods :: "pay_method list" where
  "pay_methods = [PayCash, PayCard]"

definition pay_Valid :: "pay_method \<Rightarrow> bool" where
  "pay_Valid m \<longleftrightarrow> m \<in> set pay_methods"

text \<open>\<open>norm\<close> stands for \<open>strings.ToLower (strings.TrimSpace s)\<close>.\<close>

definition Method_of :: "string \<Rightarrow> pay_method" where
  "Method_of s = (if s = ''cash'' then PayCash else if s = ''card'' then PayCard else PayOther s)"

definition pay_Parse :: "(string \<Rightarrow> string) \<Rightarrow> string \<Rightarrow> pay_method option" where
  "pay_Parse norm s = (let m = Method_of (norm s) in if m \<in> set pay_methods then Some m else None)"

type_synonym accepts = "pay_method list"

definition Accepts_Normalize :: "accepts \<Rightarrow> accepts" where
  "Accepts_Normalize a = (if a = [] then pay_methods else filter (\<lambda>m. m \<in> set a) pay_methods)"

definition Accepts_Has :: "accepts \<Rightarrow> pay_method \<Rightarrow> bool" where
  "Accepts_Has a m \<longleftrightarrow> m \<in> set (Accepts_Normalize a)"

datatype accepts_fault = UnknownMethodFault string | TwiceFault string

fun accepts_loop :: "(string \<Rightarrow> string) \<Rightarrow> string list \<Rightarrow> accepts \<Rightarrow> accepts_fault list \<Rightarrow> accepts \<times> accepts_fault list" where
  "accepts_loop norm [] out errs = (out, errs)"
| "accepts_loop norm (s # ss) out errs =
     (case pay_Parse norm s of None \<Rightarrow> accepts_loop norm ss out (errs @ [UnknownMethodFault s])
      | Some m \<Rightarrow>
        if m \<in> set out then accepts_loop norm ss out (errs @ [TwiceFault s])
        else accepts_loop norm ss (out @ [m]) errs)"

definition ParseAccepts :: "(string \<Rightarrow> string) \<Rightarrow> string list \<Rightarrow> accepts_fault list + accepts" where
  "ParseAccepts norm raw = (case accepts_loop norm raw [] [] of (out, errs) \<Rightarrow> if errs \<noteq> [] then Inl errs else Inr out)"

section \<open>Plans\<close>

record wallet =
  wal_Cash :: amount
  wal_Bank :: amount

definition Wallet_Balance :: "wallet \<Rightarrow> pay_method \<Rightarrow> amount" where
  "Wallet_Balance w m = (if m = PayCard then wal_Bank w else wal_Cash w)"

definition Wallet_Covers :: "wallet \<Rightarrow> pay_method \<Rightarrow> amount \<Rightarrow> bool" where
  "Wallet_Covers w m amt \<longleftrightarrow> \<not> Amount_IsNegative amt \<and> Minor (Wallet_Balance w m) \<ge> Minor amt"

record pay_plan =
  pp_Amount :: amount
  pp_Accepted :: accepts
  pp_Usable :: "pay_method list"

definition PlanFor :: "amount \<Rightarrow> accepts \<Rightarrow> wallet \<Rightarrow> pay_plan" where
  "PlanFor amt accepted w =
     (let acc = Accepts_Normalize accepted in
      \<lparr>pp_Amount = amt, pp_Accepted = acc, pp_Usable = filter (\<lambda>m. Wallet_Covers w m amt) acc\<rparr>)"

definition Plan_CanPay :: "pay_plan \<Rightarrow> pay_method \<Rightarrow> bool" where
  "Plan_CanPay p m \<longleftrightarrow> m \<in> set (pp_Usable p)"

definition Plan_Payable :: "pay_plan \<Rightarrow> bool" where
  "Plan_Payable p \<longleftrightarrow> length (pp_Usable p) > 0"

datatype shortfall = ShortNone | ShortNotAccepted | ShortFunds

definition Plan_Check :: "pay_plan \<Rightarrow> pay_method \<Rightarrow> shortfall" where
  "Plan_Check p m =
     (if \<not> Accepts_Has (pp_Accepted p) m then ShortNotAccepted
      else if \<not> Plan_CanPay p m then ShortFunds
      else ShortNone)"

section \<open>Which methods a plan offers\<close>

lemma Normalize_set:
  "set (Accepts_Normalize a) = (if a = [] then set pay_methods else set a \<inter> set pay_methods)"
  by (auto simp: Accepts_Normalize_def)

lemma Normalize_order:
  "distinct (Accepts_Normalize a) \<and> (\<exists>P. Accepts_Normalize a = filter P pay_methods)"
proof -
  have "filter (\<lambda>_. True) pay_methods = pay_methods" by simp
  then show ?thesis unfolding Accepts_Normalize_def by (auto simp: pay_methods_def)
qed

lemma Normalize_idem:
  assumes "a = [] \<or> (\<exists>m\<in>set a. pay_Valid m)"
  shows "Accepts_Normalize (Accepts_Normalize a) = Accepts_Normalize a"
proof -
  have "Accepts_Normalize a \<noteq> []"
    using assms by (auto simp: Accepts_Normalize_def pay_Valid_def filter_empty_conv pay_methods_def)
  then show ?thesis
    by (cases "a = []") (auto simp: Accepts_Normalize_def intro!: filter_cong)
qed

lemma accepts_loop_ok:
  assumes "accepts_loop norm raw out errs = (res, [])" "\<forall>m\<in>set out. pay_Valid m" "distinct out"
  shows "errs = [] \<and> distinct res \<and> (\<forall>m\<in>set res. pay_Valid m) \<and> set res = set out \<union> {m. \<exists>s\<in>set raw. pay_Parse norm s = Some m} \<and>
    length res = length out + length raw"
  using assms
proof (induction raw arbitrary: out errs)
  case Nil
  then show ?case by simp
next
  case (Cons s ss)
  show ?case
  proof (cases "pay_Parse norm s")
    case None
    with Cons.prems Cons.IH [of out "errs @ [UnknownMethodFault s]"] show ?thesis by simp
  next
    case (Some m)
    have v: "pay_Valid m" using Some by (auto simp: pay_Parse_def pay_Valid_def Let_def split: if_splits)
    show ?thesis
    proof (cases "m \<in> set out")
      case True
      with Some Cons.prems Cons.IH [of out "errs @ [TwiceFault s]"] show ?thesis by simp
    next
      case False
      with Some v Cons.prems Cons.IH [of "out @ [m]" errs] show ?thesis by auto
    qed
  qed
qed

text \<open>
  For a service whose accepted methods were parsed from content, a charge can be paid with a method
  exactly when the service takes it (every method, when content states none) and its purse holds the
  amount; the refusal names the right reason; the player is told they cannot pay only when no accepted
  method covers it.
\<close>

lemma PlanFor_offers:
  assumes "ParseAccepts norm raw = Inr acc"
  defines "taken \<equiv> (\<lambda>m. pay_Valid m \<and> (raw = [] \<or> (\<exists>s\<in>set raw. pay_Parse norm s = Some m)))"
  shows "Plan_Check (PlanFor amt acc w) m =
      (if \<not> taken m then ShortNotAccepted else if \<not> Wallet_Covers w m amt then ShortFunds else ShortNone) \<and>
    (Plan_Payable (PlanFor amt acc w) \<longleftrightarrow> (\<exists>m. taken m \<and> Wallet_Covers w m amt)) \<and>
    distinct (pp_Usable (PlanFor amt acc w))"
proof -
  from assms(1) have "accepts_loop norm raw [] [] = (acc, [])" by (auto simp: ParseAccepts_def split: prod.splits if_splits)
  from accepts_loop_ok [OF this] have acc: "\<forall>m\<in>set acc. pay_Valid m" "set acc = {m. \<exists>s\<in>set raw. pay_Parse norm s = Some m}"
    "length acc = length raw" by simp_all
  then have nil: "acc = [] \<longleftrightarrow> raw = []" by auto
  have t: "m \<in> set (Accepts_Normalize acc) \<longleftrightarrow> taken m" for m
    using acc(1,2) nil by (auto simp: Normalize_set taken_def pay_Valid_def)
  have "acc = [] \<or> (\<exists>m\<in>set acc. pay_Valid m)" using acc(1) by (cases acc) auto
  then have h: "Accepts_Has (Accepts_Normalize acc) m \<longleftrightarrow> taken m" for m
    by (simp only: Accepts_Has_def Normalize_idem t)
  show ?thesis
    using t h Normalize_order [of acc] by (auto simp: Plan_Check_def PlanFor_def Plan_CanPay_def Plan_Payable_def filter_empty_conv Let_def)
qed

text \<open>A set holding only an unknown method normalises to the empty set, which a second normalisation
  reads as "every method": the refusal then blames the funds.\<close>

lemma Normalize_twice:
  "Accepts_Has [PayOther ''ious''] PayCash = False"
  "Plan_Check (PlanFor (FromMinor 1) [PayOther ''ious''] \<lparr>wal_Cash = FromMinor 9, wal_Bank = FromMinor 9\<rparr>) PayCash = ShortFunds"
  by code_simp+

end
