(* ===== verification/Legislature.thy ===== *)
theory Legislature
  imports Go_Base
begin

text \<open>
  \<^verbatim>\<open>internal/domain/legislature/legislature.go\<close>: a body deciding by vote. The kind of a rule is
  the Go string with a constructor for any other text. The lemmas say when each comparison is exact
  (\<open>tally_small\<close> bounds the counts, far above any body's size) and how a vote to come can move it; the
  property is that an early decision is exactly the one no vote to come can change.
\<close>

datatype rule_kind = Majority | Supermajority | Unanimous | OtherKind string

datatype legislature_error = ErrInvalidRule

record rule =
  rl_Kind :: rule_kind
  rl_Num :: int
  rl_Den :: int
  rl_QuorumNum :: int
  rl_QuorumDen :: int

definition Rule_Validate :: "rule \<Rightarrow> legislature_error option" where
  "Rule_Validate r =
     (let bad_quorum = (((rl_QuorumNum r = 0) \<noteq> (rl_QuorumDen r = 0)) \<or> rl_QuorumNum r < 0 \<or> rl_QuorumNum r > rl_QuorumDen r) in
      case rl_Kind r of
        OtherKind _ \<Rightarrow> Some ErrInvalidRule
      | Supermajority \<Rightarrow>
          if rl_Den r \<le> 0 \<or> rl_Num r \<le> 0 \<or> rl_Num r > rl_Den r \<or> mul64 2 (rl_Num r) \<le> rl_Den r then Some ErrInvalidRule
          else if bad_quorum then Some ErrInvalidRule else None
      | _ \<Rightarrow>
          if rl_Num r \<noteq> 0 \<or> rl_Den r \<noteq> 0 then Some ErrInvalidRule
          else if bad_quorum then Some ErrInvalidRule else None)"

record tally =
  ta_Seats :: int
  ta_Held :: int
  ta_Yes :: int
  ta_No :: int

datatype outcome = Pending | Passed | Failed

definition quorumNeeded :: "rule \<Rightarrow> int \<Rightarrow> int" where
  "quorumNeeded r seats =
     (if rl_QuorumDen r = 0 then 1
      else let n = quo64 (sub64 (add64 (mul64 seats (rl_QuorumNum r)) (rl_QuorumDen r)) 1) (rl_QuorumDen r) in max n 1)"

definition rule_passes :: "rule \<Rightarrow> int \<Rightarrow> int \<Rightarrow> int \<Rightarrow> bool" where
  "rule_passes r yes no held =
     (case rl_Kind r of
        Majority \<Rightarrow> yes > no
      | Supermajority \<Rightarrow> mul64 yes (rl_Den r) \<ge> mul64 (rl_Num r) (add64 yes no) \<and> yes > 0
      | Unanimous \<Rightarrow> no = 0 \<and> yes > 0 \<and> yes \<ge> held
      | OtherKind _ \<Rightarrow> False)"

definition Decide :: "rule \<Rightarrow> tally \<Rightarrow> bool \<Rightarrow> outcome" where
  "Decide r t final =
     (let cast = add64 (ta_Yes t) (ta_No t);
          remaining = max (sub64 (ta_Held t) cast) 0;
          need = quorumNeeded r (ta_Seats t) in
      if final then
        (if cast < need \<or> \<not> rule_passes r (ta_Yes t) (ta_No t) (ta_Held t) then Failed else Passed)
      else if add64 cast remaining < need \<or> \<not> rule_passes r (add64 (ta_Yes t) remaining) (ta_No t) (ta_Held t) then Failed
      else if cast \<ge> need \<and> remaining = 0 \<and> rule_passes r (ta_Yes t) (ta_No t) (ta_Held t) then Passed
      else if cast \<ge> need \<and> rl_Kind r \<noteq> Unanimous \<and> rule_passes r (ta_Yes t) (add64 (ta_No t) remaining) (ta_Held t) then Passed
      else Pending)"

text \<open>The loop of \<open>Needs\<close>: the least number of yes votes, or one more than the members.\<close>

fun needs_from :: "rule \<Rightarrow> int \<Rightarrow> nat \<Rightarrow> int \<Rightarrow> int" where
  "needs_from r held 0 yes = add64 held 1"
| "needs_from r held (Suc k) yes =
     (if rule_passes r yes (sub64 held yes) held then yes else needs_from r held k (add64 yes 1))"

definition Needs :: "rule \<Rightarrow> int \<Rightarrow> int" where
  "Needs r held = needs_from r held (nat (held + 1)) 0"

section \<open>Exact comparisons\<close>

definition tally_small :: "rule \<Rightarrow> tally \<Rightarrow> bool" where
  "tally_small r t \<longleftrightarrow> 0 \<le> ta_Yes t \<and> 0 \<le> ta_No t \<and> ta_Yes t + ta_No t \<le> ta_Held t \<and> ta_Held t \<le> 1000000 \<and>
     rl_Den r \<le> 1000000"

definition carries :: "rule \<Rightarrow> int \<Rightarrow> int \<Rightarrow> int \<Rightarrow> bool" where
  "carries r yes no held =
     (case rl_Kind r of
        Majority \<Rightarrow> yes > no
      | Supermajority \<Rightarrow> yes * rl_Den r \<ge> rl_Num r * (yes + no) \<and> yes > 0
      | Unanimous \<Rightarrow> no = 0 \<and> yes > 0 \<and> yes \<ge> held
      | OtherKind _ \<Rightarrow> False)"

lemma passes_carries:
  assumes "Rule_Validate r = None" "0 \<le> yes" "0 \<le> no" "yes + no \<le> 1000000" "rl_Den r \<le> 1000000"
  shows "rule_passes r yes no held \<longleftrightarrow> carries r yes no held"
proof (cases "rl_Kind r = Supermajority")
  case True
  then have d: "0 < rl_Num r" "rl_Num r \<le> rl_Den r" "0 < rl_Den r"
    using assms(1) by (auto simp: Rule_Validate_def Let_def split: if_splits)
  have "yes * rl_Den r \<le> 1000000 * 1000000" "rl_Num r * (yes + no) \<le> 1000000 * 1000000"
    using assms d by (intro mult_mono; linarith)+
  then have "mul64 yes (rl_Den r) = yes * rl_Den r" "mul64 (rl_Num r) (add64 yes no) = rl_Num r * (yes + no)"
    using assms d by (simp_all add: mul64_def add64_def wrap64_nonneg)
  with True show ?thesis by (simp add: rule_passes_def carries_def)
qed (cases "rl_Kind r", simp_all add: rule_passes_def carries_def)

text \<open>How the votes still to come can move the comparison.\<close>

lemma carries_more_yes:
  assumes "Rule_Validate r = None" "carries r (yes + y) (no + n) held" "0 \<le> y" "0 \<le> n" "y + n \<le> m" "0 \<le> yes" "0 \<le> no"
  shows "carries r (yes + m) no held"
proof (cases "rl_Kind r = Supermajority")
  case True
  then have d: "0 < rl_Num r" "rl_Num r \<le> rl_Den r"
    using assms(1) by (auto simp: Rule_Validate_def Let_def split: if_splits)
  have "rl_Num r * ((yes + m) + no) = rl_Num r * ((yes + y) + (no + n)) + rl_Num r * (m - y - n)" by (simp add: algebra_simps)
  also have "\<dots> \<le> (yes + y) * rl_Den r + rl_Den r * (m - y)"
  proof (rule add_mono)
    show "rl_Num r * (yes + y + (no + n)) \<le> (yes + y) * rl_Den r" using True assms(2) by (simp add: carries_def)
    have "rl_Num r * (m - y - n) \<le> rl_Num r * (m - y)" using d assms(4) by (intro mult_left_mono) auto
    also have "\<dots> \<le> rl_Den r * (m - y)" using d assms by (intro mult_right_mono) auto
    finally show "rl_Num r * (m - y - n) \<le> rl_Den r * (m - y)" .
  qed
  finally have "rl_Num r * ((yes + m) + no) \<le> (yes + m) * rl_Den r" by (simp add: algebra_simps)
  with True assms show ?thesis by (simp add: carries_def)
qed (use assms in \<open>auto simp: carries_def split: rule_kind.splits\<close>)

lemma carries_more_no:
  assumes "Rule_Validate r = None" "carries r yes (no + m) held" "0 \<le> y" "0 \<le> n" "y + n \<le> m" "0 \<le> yes" "0 \<le> no" "rl_Kind r \<noteq> Unanimous"
  shows "carries r (yes + y) (no + n) held"
proof (cases "rl_Kind r = Supermajority")
  case True
  then have d: "0 < rl_Num r" "rl_Num r \<le> rl_Den r"
    using assms(1) by (auto simp: Rule_Validate_def Let_def split: if_splits)
  have "rl_Num r * ((yes + y) + (no + n)) \<le> rl_Num r * (yes + (no + m))" using d assms by (intro mult_left_mono) auto
  also have "\<dots> \<le> yes * rl_Den r" using True assms(2) by (simp add: carries_def)
  also have "\<dots> \<le> (yes + y) * rl_Den r" using d assms(3) by (intro mult_right_mono) auto
  finally show ?thesis using True assms by (simp add: carries_def)
qed (use assms in \<open>auto simp: carries_def split: rule_kind.splits\<close>)

lemma needed_bounds: "1 \<le> quorumNeeded r seats"
  by (simp add: quorumNeeded_def Let_def)

lemma quorumNeeded_eq:
  assumes "Rule_Validate r = None" "0 \<le> seats" "seats \<le> 1000000" "rl_QuorumDen r \<le> 1000000" "rl_QuorumDen r \<noteq> 0"
  shows "quorumNeeded r seats = max 1 (ceil_div (seats * rl_QuorumNum r) (rl_QuorumDen r))"
proof -
  have q: "0 \<le> rl_QuorumNum r" "rl_QuorumNum r \<le> rl_QuorumDen r" "0 < rl_QuorumDen r"
    using assms(1,5) by (auto simp: Rule_Validate_def Let_def split: if_splits rule_kind.splits)
  have "seats * rl_QuorumNum r \<le> 1000000 * 1000000" using assms q by (intro mult_mono; linarith)
  moreover have "0 \<le> seats * rl_QuorumNum r" using assms q by simp
  ultimately have "0 \<le> seats * rl_QuorumNum r" "seats * rl_QuorumNum r \<le> 1000000000000" by simp_all
  then have "quo64 (sub64 (add64 (mul64 seats (rl_QuorumNum r)) (rl_QuorumDen r)) 1) (rl_QuorumDen r) =
    ceil_div (seats * rl_QuorumNum r) (rl_QuorumDen r)"
    using q assms(4) by (simp add: ceil_div_def mul64_def add64_def sub64_def wrap64_nonneg quo64_nonneg)
  with assms(5) show ?thesis by (simp add: quorumNeeded_def max.commute)
qed

section \<open>Early decisions\<close>

text \<open>The tally after some of the remaining members voted.\<close>

definition later :: "tally \<Rightarrow> int \<Rightarrow> int \<Rightarrow> tally" where
  "later t y n = t\<lparr>ta_Yes := ta_Yes t + y, ta_No := ta_No t + n\<rparr>"

definition can_vote :: "tally \<Rightarrow> int \<Rightarrow> int \<Rightarrow> bool" where
  "can_vote t y n \<longleftrightarrow> 0 \<le> y \<and> 0 \<le> n \<and> ta_Yes t + ta_No t + y + n \<le> ta_Held t"

lemma Decide_final:
  assumes "Rule_Validate r = None" "tally_small r t" "can_vote t y n"
  shows "Decide r (later t y n) True = Passed \<longleftrightarrow>
    quorumNeeded r (ta_Seats t) \<le> ta_Yes t + ta_No t + y + n \<and> carries r (ta_Yes t + y) (ta_No t + n) (ta_Held t)"
    "Decide r (later t y n) True \<noteq> Pending"
proof -
  have a: "add64 (ta_Yes t + y) (ta_No t + n) = ta_Yes t + ta_No t + y + n"
    using assms by (simp add: tally_small_def can_vote_def add64_def wrap64_nonneg)
  have "rule_passes r (ta_Yes t + y) (ta_No t + n) (ta_Held t) = carries r (ta_Yes t + y) (ta_No t + n) (ta_Held t)"
    using assms by (intro passes_carries) (auto simp: tally_small_def can_vote_def)
  then show "Decide r (later t y n) True = Passed \<longleftrightarrow>
    quorumNeeded r (ta_Seats t) \<le> ta_Yes t + ta_No t + y + n \<and> carries r (ta_Yes t + y) (ta_No t + n) (ta_Held t)"
    "Decide r (later t y n) True \<noteq> Pending"
    by (auto simp: Decide_def later_def a Let_def not_less)
qed

lemma Decide_open:
  assumes "Rule_Validate r = None" "tally_small r t"
  defines "cast \<equiv> ta_Yes t + ta_No t"
  defines "rem \<equiv> ta_Held t - cast"
  shows "Decide r t False =
    (if ta_Held t < quorumNeeded r (ta_Seats t) \<or> \<not> carries r (ta_Yes t + rem) (ta_No t) (ta_Held t) then Failed
     else if quorumNeeded r (ta_Seats t) \<le> cast \<and> rem = 0 \<and> carries r (ta_Yes t) (ta_No t) (ta_Held t) then Passed
     else if quorumNeeded r (ta_Seats t) \<le> cast \<and> rl_Kind r \<noteq> Unanimous \<and> carries r (ta_Yes t) (ta_No t + rem) (ta_Held t) then Passed
     else Pending)"
proof -
  have b: "0 \<le> ta_Yes t" "0 \<le> ta_No t" "0 \<le> rem" "cast + rem = ta_Held t" "ta_Held t \<le> 1000000" "rl_Den r \<le> 1000000" "0 \<le> cast"
    using assms(2) by (auto simp: tally_small_def cast_def rem_def)
  have a: "add64 (ta_Yes t) (ta_No t) = cast" "sub64 (ta_Held t) cast = rem" "add64 cast rem = ta_Held t"
    "add64 (ta_Yes t) rem = ta_Yes t + rem" "add64 (ta_No t) rem = ta_No t + rem" "max rem 0 = rem"
    using b by (auto simp: add64_def sub64_def cast_def rem_def wrap64_nonneg)
  have p: "rule_passes r (ta_Yes t + rem) (ta_No t) (ta_Held t) = carries r (ta_Yes t + rem) (ta_No t) (ta_Held t)"
    "rule_passes r (ta_Yes t) (ta_No t) (ta_Held t) = carries r (ta_Yes t) (ta_No t) (ta_Held t)"
    "rule_passes r (ta_Yes t) (ta_No t + rem) (ta_Held t) = carries r (ta_Yes t) (ta_No t + rem) (ta_Held t)"
    using b by (intro passes_carries [OF assms(1)]; auto simp: cast_def)+
  show ?thesis by (simp add: Decide_def a p Let_def)
qed

text \<open>
  Deciding early is exact: while members may still vote, the vote is called passed exactly when it
  would pass whatever they do (every continuation, closed, is \<open>Passed\<close>), and failed exactly when it would
  fail whatever they do. So an early result is never contradicted later, and a vote is left open only
  while both outcomes are possible.
\<close>

lemma Decide_early_exact:
  assumes "Rule_Validate r = None" "tally_small r t"
  shows "(Decide r t False = Passed \<longleftrightarrow> (\<forall>y n. can_vote t y n \<longrightarrow> Decide r (later t y n) True = Passed)) \<and>
    (Decide r t False = Failed \<longleftrightarrow> (\<forall>y n. can_vote t y n \<longrightarrow> Decide r (later t y n) True = Failed))"
proof -
  define need cast rem where "need = quorumNeeded r (ta_Seats t)" and "cast = ta_Yes t + ta_No t" and "rem = ta_Held t - cast"
  have b: "0 \<le> ta_Yes t" "0 \<le> ta_No t" "0 \<le> rem" "cast + rem = ta_Held t"
    using assms(2) by (auto simp: tally_small_def cast_def rem_def)
  have cv: "can_vote t y n \<longleftrightarrow> 0 \<le> y \<and> 0 \<le> n \<and> y + n \<le> rem" for y n
    by (auto simp: can_vote_def rem_def cast_def)
  let ?pass = "\<lambda>y n. need \<le> cast + y + n \<and> carries r (ta_Yes t + y) (ta_No t + n) (ta_Held t)"
  have fin: "Decide r (later t y n) True = (if ?pass y n then Passed else Failed)" if "can_vote t y n" for y n
    using Decide_final [OF assms that] by (cases "Decide r (later t y n) True") (auto simp: need_def cast_def)
  note op = Decide_open [OF assms, folded need_def cast_def, folded rem_def]
  have failed: "Decide r t False = Failed \<longleftrightarrow> (\<forall>y n. can_vote t y n \<longrightarrow> \<not> ?pass y n)"
  proof
    assume "Decide r t False = Failed"
    then have f: "ta_Held t < need \<or> \<not> carries r (ta_Yes t + rem) (ta_No t) (ta_Held t)" by (simp add: op split: if_splits)
    show "\<forall>y n. can_vote t y n \<longrightarrow> \<not> ?pass y n"
    proof (intro allI impI)
      fix y n assume "can_vote t y n"
      with f b show "\<not> ?pass y n" using carries_more_yes [OF assms(1), of "ta_Yes t" y "ta_No t" n "ta_Held t" rem] by (auto simp: cv)
    qed
  next
    assume "\<forall>y n. can_vote t y n \<longrightarrow> \<not> ?pass y n"
    moreover have "can_vote t rem 0" using b by (simp add: cv)
    ultimately have "\<not> ?pass rem 0" by blast
    with b have "ta_Held t < need \<or> \<not> carries r (ta_Yes t + rem) (ta_No t) (ta_Held t)" by auto
    then show "Decide r t False = Failed" by (auto simp: op)
  qed
  have passed: "Decide r t False = Passed \<longleftrightarrow> (\<forall>y n. can_vote t y n \<longrightarrow> ?pass y n)"
  proof
    assume P: "Decide r t False = Passed"
    show "\<forall>y n. can_vote t y n \<longrightarrow> ?pass y n"
    proof (intro allI impI)
      fix y n assume yn: "can_vote t y n"
      from P have nc: "need \<le> cast" and or: "rem = 0 \<and> carries r (ta_Yes t) (ta_No t) (ta_Held t) \<or>
        rl_Kind r \<noteq> Unanimous \<and> carries r (ta_Yes t) (ta_No t + rem) (ta_Held t)"
        by (auto simp: op split: if_splits)
      have "carries r (ta_Yes t + y) (ta_No t + n) (ta_Held t)"
        using or
      proof
        assume z: "rem = 0 \<and> carries r (ta_Yes t) (ta_No t) (ta_Held t)"
        then have "y = 0" "n = 0" using yn unfolding cv by linarith+
        with z show ?thesis by simp
      next
        assume "rl_Kind r \<noteq> Unanimous \<and> carries r (ta_Yes t) (ta_No t + rem) (ta_Held t)"
        then show ?thesis using carries_more_no [OF assms(1), of "ta_Yes t" "ta_No t" rem "ta_Held t" y n] yn b by (simp add: cv)
      qed
      then show "?pass y n" using nc yn by (simp add: cv)
    qed
  next
    assume A: "\<forall>y n. can_vote t y n \<longrightarrow> ?pass y n"
    have v: "can_vote t 0 0" "can_vote t 0 rem" "can_vote t rem 0" using b by (simp_all add: cv)
    have p: "?pass 0 0" "?pass 0 rem" "?pass rem 0" using A v by blast+
    have q: "rem = 0" if "rl_Kind r = Unanimous" using p(2) b that by (simp add: carries_def)
    have c: "need \<le> cast" "carries r (ta_Yes t) (ta_No t) (ta_Held t)"
      "carries r (ta_Yes t) (ta_No t + rem) (ta_Held t)" "carries r (ta_Yes t + rem) (ta_No t) (ta_Held t)"
      using p by simp_all
    moreover have "\<not> ta_Held t < need" using c(1) b by linarith
    ultimately show "Decide r t False = Passed" unfolding op using q by (cases "rl_Kind r = Unanimous") simp_all
  qed
  have fp: "Decide r (later t y n) True = Passed \<longleftrightarrow> ?pass y n" "Decide r (later t y n) True = Failed \<longleftrightarrow> \<not> ?pass y n"
    if "can_vote t y n" for y n
    by (simp_all only: fin [OF that] split: if_split) simp_all
  show ?thesis unfolding passed failed using fp by meson
qed

section \<open>What a screen shows\<close>

lemma needs_from_ok:
  assumes "0 \<le> yes" "yes + int k = held + 1" "held < MaxInt64" "0 \<le> held"
  shows "yes \<le> needs_from r held k yes \<and> needs_from r held k yes \<le> held + 1 \<and>
    (needs_from r held k yes \<le> held \<longrightarrow> rule_passes r (needs_from r held k yes) (held - needs_from r held k yes) held) \<and>
    (\<forall>x. yes \<le> x \<and> x < needs_from r held k yes \<longrightarrow> \<not> rule_passes r x (held - x) held)"
  using assms
proof (induction k arbitrary: yes)
  case 0
  then show ?case by (auto simp: add64_def wrap64_nonneg)
next
  case (Suc k)
  have a: "sub64 held yes = held - yes" "add64 yes 1 = yes + 1"
    using Suc.prems by (simp_all add: sub64_def add64_def wrap64_nonneg)
  show ?case
  proof (cases "rule_passes r yes (held - yes) held")
    case True
    with Suc.prems show ?thesis by (auto simp: a)
  next
    case False
    have ih: "yes + 1 \<le> needs_from r held k (yes + 1) \<and> needs_from r held k (yes + 1) \<le> held + 1 \<and>
      (needs_from r held k (yes + 1) \<le> held \<longrightarrow> rule_passes r (needs_from r held k (yes + 1)) (held - needs_from r held k (yes + 1)) held) \<and>
      (\<forall>x. yes + 1 \<le> x \<and> x < needs_from r held k (yes + 1) \<longrightarrow> \<not> rule_passes r x (held - x) held)"
      using Suc.prems by (intro Suc.IH) auto
    have "\<not> rule_passes r x (held - x) held" if "yes \<le> x" "x < needs_from r held k (yes + 1)" for x
      using that ih False by (cases "x = yes") auto
    with ih False show ?thesis by (simp add: a)
  qed
qed

lemma Needs_least:
  assumes "0 \<le> held" "held < MaxInt64"
  shows "0 \<le> Needs r held \<and> Needs r held \<le> held + 1 \<and>
    (Needs r held \<le> held \<longrightarrow> rule_passes r (Needs r held) (held - Needs r held) held) \<and>
    (\<forall>x. 0 \<le> x \<and> x < Needs r held \<longrightarrow> \<not> rule_passes r x (held - x) held)"
  unfolding Needs_def using assms by (intro needs_from_ok) auto

end
