(* ===== verification/Gametime.thy ===== *)
theory Gametime
  imports Go_Base
begin

text \<open>
  \<^verbatim>\<open>internal/domain/gametime/gametime.go\<close>: the one clock. \<open>RealWait\<close> turns a duration written in game
  time into the real wait; the \<open>Clock\<close> numbers a settlement's days, by the legacy scale before its
  switch and by its local calendar after it. \<open>OffsetFromLongitude\<close> computes with floats and is left out.
  The lemmas reduce the day counters to one floor division each, under the span in which int64 holds
  the elapsed game time (\<open>span_ok\<close>, \<open>real_ok\<close>). The properties: the wait is the least whole second that
  is long enough, day numbers never go back, and the instant of a day is the first with its number.
\<close>

section \<open>The scale\<close>

abbreviation MaxScale :: int where "MaxScale \<equiv> 86400"

datatype clock_error = ErrInvalidScale | ErrNoEpoch | ErrCutoverNotMidnight

definition Scale_Validate :: "int \<Rightarrow> clock_error option" where
  "Scale_Validate s = (if s < 1 \<or> s > MaxScale then Some ErrInvalidScale else None)"

definition RealWait :: "int \<Rightarrow> duration \<Rightarrow> duration" where
  "RealWait s game =
     (if game \<le> 0 then 0
      else let scale = (if Scale_Validate s \<noteq> None then 1 else s);
               w0 = quo64 game scale;
               w1 = (if rem64 game scale \<noteq> 0 then add64 w0 1 else w0);
               r = rem64 w1 Second;
               w2 = (if r \<noteq> 0 then add64 w1 (sub64 Second r) else w1) in
           if w2 < Second then Second else w2)"

lemma RealWait_eq:
  assumes "0 < game" "game \<le> MaxInt64 - Second" "Scale_Validate s = None"
  shows "RealWait s game = ceil_div (ceil_div game s) Second * Second"
proof -
  have s: "1 \<le> s" using assms(3) by (auto simp: Scale_Validate_def split: if_splits)
  have q: "0 \<le> game div s" "game div s \<le> game" using assms s by (auto intro: div_le_self simp: pos_imp_zdiv_nonneg_iff)
  define w where "w = ceil_div game s"
  have w1: "(if rem64 game s \<noteq> 0 then add64 (quo64 game s) 1 else quo64 game s) = w"
    using assms s q by (simp add: w_def ceil_div_eq_floor quo64_nonneg rem64_nonneg add64_def wrap64_nonneg)
  have wb: "0 < w" "w \<le> game"
    using s assms(1) mult_left_mono [of 1 s game] by (auto simp: w_def less_ceil_div_iff ceil_div_le_iff)
  have r: "rem64 w Second = w mod Second" using wb by (simp add: rem64_nonneg)
  have f: "w = w div Second * Second + w mod Second" by simp
  have m: "0 \<le> w mod Second" "w mod Second < Second" by simp_all
  have w2: "(if w mod Second = 0 then w else add64 w (sub64 Second (w mod Second))) = ceil_div w Second * Second"
    using wb assms(2) m by (simp add: ceil_div_eq_floor add64_def sub64_def wrap64_nonneg algebra_simps minus_mod_eq_mult_div [symmetric] del: minus_mod_eq_mult_div)
  have "1 \<le> ceil_div w Second" using wb less_ceil_div_iff [of Second 0 w] by simp
  then obtain W where W: "W = ceil_div w Second * Second" "Second \<le> W" by simp
  have "RealWait s game = W" using assms wb w2 [folded W(1)] W(2)
    by (cases "w mod Second = 0") (simp_all add: RealWait_def Let_def w1 rem64_nonneg)
  then show ?thesis by (simp add: W(1) w_def)
qed

text \<open>
  The real wait of a positive game duration is the least whole number of seconds whose game time is
  at least the duration: a countdown never promises an end before it, no shorter whole second would do,
  and it is never zero.
\<close>

lemma RealWait_least:
  assumes "0 < game" "game \<le> MaxInt64 - Second" "Scale_Validate s = None"
  shows "\<exists>k. RealWait s game = k * Second \<and> 1 \<le> k \<and> game \<le> k * Second * s \<and> (\<forall>j. game \<le> j * Second * s \<longrightarrow> k \<le> j)"
proof -
  have s: "1 \<le> s" using assms(3) by (auto simp: Scale_Validate_def split: if_splits)
  have "game \<le> j * Second * s \<longleftrightarrow> ceil_div (ceil_div game s) Second \<le> j" for j
    using s by (simp add: ceil_div_le_iff)
  moreover have "1 \<le> ceil_div (ceil_div game s) Second"
    using s assms(1) less_ceil_div_iff [of Second 0 "ceil_div game s"] less_ceil_div_iff [of s 0 game] by simp
  ultimately show ?thesis using RealWait_eq [OF assms] by (intro exI [of _ "ceil_div (ceil_div game s) Second"]) auto
qed

lemma RealWait_zero: "game \<le> 0 \<Longrightarrow> RealWait s game = 0"
  by (simp add: RealWait_def)

text \<open>Above that bound the rounding wraps: the longest duration maps to one second.\<close>

lemma RealWait_wraps: "RealWait 1 MaxInt64 = Second"
  by code_simp

section \<open>The clock\<close>

abbreviation Day :: duration where "Day \<equiv> 86400000000000"
abbreviation MinOffset :: duration where "MinOffset \<equiv> - 43200000000000"
abbreviation MaxOffset :: duration where "MaxOffset \<equiv> 50400000000000"

record clock =
  ck_Epoch :: go_time
  ck_Scale :: int
  ck_LegacyScale :: int
  ck_Cutover :: go_time

definition ValidOffset :: "duration \<Rightarrow> bool" where
  "ValidOffset d \<longleftrightarrow> d \<ge> MinOffset \<and> d \<le> MaxOffset \<and> rem64 d Minute = 0"

text \<open>\<open>Truncate\<close> rounds down from the zero instant.\<close>

definition time_Truncate :: "go_time \<Rightarrow> duration \<Rightarrow> go_time" where
  "time_Truncate t d = t - t mod d"

definition Clock_Validate :: "clock \<Rightarrow> clock_error option" where
  "Clock_Validate c =
     (if time_IsZero (ck_Epoch c) then Some ErrNoEpoch
      else if ck_LegacyScale c \<noteq> 0 \<and> Scale_Validate (ck_LegacyScale c) \<noteq> None then Scale_Validate (ck_LegacyScale c)
      else if \<not> time_IsZero (ck_Cutover c) \<and> time_Truncate (ck_Cutover c) Day \<noteq> ck_Cutover c then Some ErrCutoverNotMidnight
      else Scale_Validate (ck_Scale c))"

definition legacyScale :: "clock \<Rightarrow> int" where
  "legacyScale c =
     (let s = (if ck_LegacyScale c = 0 then ck_Scale c else ck_LegacyScale c) in
      if Scale_Validate s \<noteq> None then 1 else s)"

definition cutoverFor :: "clock \<Rightarrow> duration \<Rightarrow> go_time" where
  "cutoverFor c off =
     (let m = rem64 (neg64 off) Day in time_Add (ck_Cutover c) (if m < 0 then add64 m Day else m))"

definition afterFor :: "clock \<Rightarrow> go_time \<Rightarrow> duration \<Rightarrow> bool" where
  "afterFor c now off \<longleftrightarrow> \<not> time_IsZero (ck_Cutover c) \<and> \<not> now < cutoverFor c off"

definition legacySince :: "clock \<Rightarrow> go_time \<Rightarrow> duration" where
  "legacySince c now = (if \<not> now > ck_Epoch c then 0 else mul64 (time_Sub now (ck_Epoch c)) (legacyScale c))"

definition Clock_Since :: "clock \<Rightarrow> go_time \<Rightarrow> duration" where
  "Clock_Since c now = legacySince c now"

definition legacyDayAtHour :: "clock \<Rightarrow> go_time \<Rightarrow> int \<Rightarrow> int" where
  "legacyDayAtHour c now hour =
     (let g = sub64 (legacySince c now) (mul64 hour Hour) in if g < 0 then -1 else quo64 g Day)"

definition clock_base :: "clock \<Rightarrow> int \<Rightarrow> int" where
  "clock_base c hour = add64 (legacyDayAtHour c (time_Add (ck_Cutover c) Day) hour) 2"

definition gt_floorDiv :: "duration \<Rightarrow> duration \<Rightarrow> int" where
  "gt_floorDiv a b =
     (let q = quo64 a b in if rem64 a b \<noteq> 0 \<and> (a < 0) \<noteq> (b < 0) then sub64 q 1 else q)"

definition DayAtHourIn :: "clock \<Rightarrow> go_time \<Rightarrow> int \<Rightarrow> duration \<Rightarrow> int" where
  "DayAtHourIn c now hour off =
     (if \<not> afterFor c now off then legacyDayAtHour c now hour
      else add64 (clock_base c hour)
             (gt_floorDiv (sub64 (time_Sub (time_Add now off) (ck_Cutover c)) (mul64 hour Hour)) Day))"

definition DayAtHour :: "clock \<Rightarrow> go_time \<Rightarrow> int \<Rightarrow> int" where "DayAtHour c now hour = DayAtHourIn c now hour 0"
definition DayAtIn :: "clock \<Rightarrow> go_time \<Rightarrow> duration \<Rightarrow> int" where "DayAtIn c now off = DayAtHourIn c now 0 off"
definition DayAt :: "clock \<Rightarrow> go_time \<Rightarrow> int" where "DayAt c now = DayAtHourIn c now 0 0"

definition IsLegacyDay :: "clock \<Rightarrow> int \<Rightarrow> bool" where
  "IsLegacyDay c day \<longleftrightarrow> \<not> time_IsZero (ck_Cutover c) \<and> day < sub64 (clock_base c 0) 1"

definition RealAtHourIn :: "clock \<Rightarrow> int \<Rightarrow> int \<Rightarrow> duration \<Rightarrow> go_time" where
  "RealAtHourIn c day hour off =
     (if \<not> time_IsZero (ck_Cutover c) \<and> day \<ge> sub64 (clock_base c hour) 1
      then time_Add (ck_Cutover c) (sub64 (add64 (mul64 (sub64 day (clock_base c hour)) Day) (mul64 hour Hour)) off)
      else time_Add (ck_Epoch c) (quo64 (add64 (mul64 day Day) (mul64 hour Hour)) (legacyScale c)))"

definition RealAtHour :: "clock \<Rightarrow> int \<Rightarrow> int \<Rightarrow> go_time" where "RealAtHour c day hour = RealAtHourIn c day hour 0"

definition LocalMidnight :: "go_time \<Rightarrow> duration \<Rightarrow> go_time" where
  "LocalMidnight t off = time_Add (time_Truncate (time_Add t off) Day) (neg64 off)"

section \<open>One floor division each\<close>

definition span_ok :: "clock \<Rightarrow> go_time \<Rightarrow> bool" where
  "span_ok c t \<longleftrightarrow> (t - ck_Epoch c) * legacyScale c \<le> MaxInt64"

definition real_ok :: "clock \<Rightarrow> go_time \<Rightarrow> bool" where
  "real_ok c t \<longleftrightarrow> t - ck_Cutover c \<le> 9000000000000000000"

lemma legacyScale_bounds: "1 \<le> legacyScale c" "legacyScale c \<le> MaxScale"
  by (auto simp: legacyScale_def Scale_Validate_def Let_def)

lemma span_ok_mono: "t \<le> u \<Longrightarrow> span_ok c u \<Longrightarrow> span_ok c t"
  using legacyScale_bounds [of c] mult_right_mono [of "t - ck_Epoch c" "u - ck_Epoch c" "legacyScale c"]
  unfolding span_ok_def by linarith

lemma legacySince_eq:
  assumes "span_ok c t"
  shows "legacySince c t = max 0 (t - ck_Epoch c) * legacyScale c"
proof (cases "t > ck_Epoch c")
  case True
  have l: "1 \<le> legacyScale c" by (rule legacyScale_bounds)
  have "t - ck_Epoch c \<le> (t - ck_Epoch c) * legacyScale c"
    using True l mult_left_mono [of 1 "legacyScale c" "t - ck_Epoch c"] by simp
  moreover have "(t - ck_Epoch c) * legacyScale c \<le> MaxInt64" using assms by (simp add: span_ok_def)
  moreover have "0 \<le> (t - ck_Epoch c) * legacyScale c" using True l by simp
  ultimately have m: "0 \<le> (t - ck_Epoch c) * legacyScale c" "(t - ck_Epoch c) * legacyScale c \<le> MaxInt64" "t - ck_Epoch c \<le> MaxInt64"
    by linarith+
  then have "time_Sub t (ck_Epoch c) = t - ck_Epoch c" using True by (simp add: time_Sub_def)
  then show ?thesis using True m by (simp add: legacySince_def mul64_def wrap64_nonneg)
qed (simp add: legacySince_def)

lemma legacySince_bounds:
  assumes "span_ok c t"
  shows "0 \<le> legacySince c t \<and> legacySince c t \<le> MaxInt64"
  using assms legacyScale_bounds [of c] by (auto simp: legacySince_eq span_ok_def max_def)

lemma legacySince_mono: "t \<le> u \<Longrightarrow> span_ok c u \<Longrightarrow> legacySince c t \<le> legacySince c u"
  using legacyScale_bounds [of c] by (auto simp: legacySince_eq span_ok_mono intro!: mult_right_mono)

lemma legacyDayAtHour_eq:
  assumes "span_ok c t" "0 \<le> h" "h < 24"
  shows "legacyDayAtHour c t h = (legacySince c t - h * Hour) div Day"
proof -
  have h: "mul64 h Hour = h * Hour" "h * Hour \<le> 23 * Hour" "0 \<le> h * Hour"
    using assms by (simp_all add: mul64_def wrap64_nonneg)
  have e: "sub64 (legacySince c t) (h * Hour) = legacySince c t - h * Hour"
    using legacySince_bounds [OF assms(1)] h by (auto simp: sub64_def intro!: wrap64_id')
  show ?thesis
  proof (cases "legacySince c t - h * Hour < 0")
    case True
    then have "(legacySince c t - h * Hour) div Day = -1"
      using legacySince_bounds [OF assms(1)] h by (intro int_div_pos_eq [of _ _ _ "legacySince c t - h * Hour + Day"]) auto
    with True show ?thesis by (simp add: legacyDayAtHour_def h(1) e)
  next
    case False
    with legacySince_bounds [OF assms(1)] h(3) show ?thesis by (simp add: legacyDayAtHour_def h(1) e quo64_nonneg)
  qed
qed

lemma legacyDay_bounds:
  assumes "span_ok c t" "0 \<le> h" "h < 24"
  shows "-1 \<le> legacyDayAtHour c t h \<and> legacyDayAtHour c t h \<le> 106752"
  unfolding legacyDayAtHour_eq [OF assms] using legacySince_bounds [OF assms(1)] assms
  by (simp add: le_div_iff_int div_le_iff_int)

lemma gt_floorDiv_eq:
  assumes "in64 a" "0 < b" "in64 (a div b)"
  shows "gt_floorDiv a b = a div b"
proof (cases "0 \<le> a")
  case True
  with assms show ?thesis by (simp add: gt_floorDiv_def quo64_nonneg in64_def)
next
  case False
  have q: "a sdiv b = - ((- a) div b)" using False assms(2) by (simp add: signed_divide_int_def)
  have d: "a div b = - ((- a) div b) - (if (- a) mod b = 0 then 0 else 1)"
    using zdiv_zminus1_eq_if [of b "- a"] assms(2) by simp
  have z: "a smod b = - ((- a) mod b)" using False assms(2) by (simp add: signed_modulo_int_def)
  have "in64 (- ((- a) div b))"
    using assms(1) False div_le_self [of "- a" b] assms(2) pos_imp_zdiv_nonneg_iff [of b "- a"] unfolding in64_def by linarith
  then have qq: "quo64 a b = - ((- a) div b)" by (simp add: quo64_def q wrap64_id)
  show ?thesis
  proof (cases "(- a) mod b = 0")
    case True
    then show ?thesis using d z qq by (simp add: gt_floorDiv_def rem64_def)
  next
    case m: False
    then have "gt_floorDiv a b = sub64 (- ((- a) div b)) 1"
      using False assms(2) z qq by (simp add: gt_floorDiv_def rem64_def)
    with m d assms(3) show ?thesis by (simp add: sub64_def wrap64_id)
  qed
qed

lemma cutoverFor_eq:
  assumes "ValidOffset off"
  shows "cutoverFor c off = ck_Cutover c + (- off) mod Day"
proof -
  have o: "- 43200000000000 \<le> off" "off \<le> 50400000000000" using assms by (simp_all add: ValidOffset_def)
  then have n: "neg64 off = - off" by (simp add: neg64_def wrap64_id')
  show ?thesis
  proof (cases "off \<le> 0")
    case True
    with o show ?thesis by (simp add: cutoverFor_def time_Add_def n rem64_nonneg)
  next
    case False
    have "(- off) mod Day = Day - off" using False o by (intro int_mod_pos_eq [of _ _ "-1"]) auto
    moreover have "rem64 (- off) Day = - off" using False o by (simp add: rem64_def signed_modulo_int_def)
    ultimately show ?thesis using False o by (simp add: cutoverFor_def time_Add_def n add64_def wrap64_nonneg)
  qed
qed

lemma cutoverFor_bounds:
  assumes "ValidOffset off"
  shows "ck_Cutover c \<le> cutoverFor c off \<and> cutoverFor c off < ck_Cutover c + Day \<and> ck_Cutover c \<le> cutoverFor c off + off"
proof -
  have "0 \<le> (- off) mod Day" "(- off) mod Day < Day" by simp_all
  moreover have "0 \<le> off + (- off) mod Day"
  proof -
    have "off + (- off) mod Day = - ((- off) div Day) * Day"
      using div_mult_mod_eq [of "- off" Day] by linarith
    moreover have "(- off) div Day \<le> 0" using assms by (simp add: ValidOffset_def div_le_iff_int)
    ultimately show ?thesis by simp
  qed
  ultimately show ?thesis by (simp add: cutoverFor_eq [OF assms])
qed

lemma clock_base_eq:
  assumes "span_ok c (ck_Cutover c + Day)" "0 \<le> h" "h < 24"
  shows "clock_base c h = legacyDayAtHour c (ck_Cutover c + Day) h + 2"
  using legacyDay_bounds [OF assms] by (simp add: clock_base_def time_Add_def add64_def wrap64_id')

text \<open>After the switch: the base and the whole local days since the cut-over.\<close>

lemma DayAtHourIn_real:
  assumes "ValidOffset off" "0 \<le> h" "h < 24" "span_ok c (ck_Cutover c + Day)" "afterFor c now off" "real_ok c now"
  shows "DayAtHourIn c now h off = clock_base c h + (now + off - ck_Cutover c - h * Hour) div Day"
    "-1 \<le> (now + off - ck_Cutover c - h * Hour) div Day"
proof -
  let ?g = "now + off - ck_Cutover c - h * Hour"
  have o: "- 43200000000000 \<le> off" "off \<le> 50400000000000" using assms(1) by (simp_all add: ValidOffset_def)
  have n: "0 \<le> now + off - ck_Cutover c" "now + off - ck_Cutover c \<le> 9000050400000000000"
    using assms(5,6) cutoverFor_bounds [OF assms(1), of c] o by (simp_all add: afterFor_def real_ok_def)
  have h: "mul64 h Hour = h * Hour" "0 \<le> h * Hour" "h * Hour \<le> 82800000000000"
    using assms(2,3) by (simp_all add: mul64_def wrap64_nonneg)
  have g: "sub64 (time_Sub (time_Add now off) (ck_Cutover c)) (mul64 h Hour) = ?g"
    using n h by (simp add: time_Sub_def time_Add_def sub64_def wrap64_id')
  have d: "-1 \<le> ?g div Day" "?g div Day \<le> 200000" using n h by (simp_all add: le_div_iff_int div_le_iff_int)
  then show "-1 \<le> ?g div Day" by simp
  have f: "gt_floorDiv ?g Day = ?g div Day" using n h d by (intro gt_floorDiv_eq) (simp_all add: in64_def)
  have "-1 \<le> clock_base c h - 2" "clock_base c h - 2 \<le> 106752"
    using clock_base_eq [OF assms(4,2,3)] legacyDay_bounds [OF assms(4,2,3)] by simp_all
  with d show "DayAtHourIn c now h off = clock_base c h + ?g div Day"
    using assms(5) by (simp only: DayAtHourIn_def g f) (simp add: add64_def wrap64_id')
qed

lemma legacy_below_base:
  assumes "ValidOffset off" "0 \<le> h" "h < 24" "span_ok c (ck_Cutover c + Day)" "now < cutoverFor c off"
  shows "legacyDayAtHour c now h \<le> clock_base c h - 2"
proof -
  have t: "now \<le> ck_Cutover c + Day" using assms(5) cutoverFor_bounds [OF assms(1), of c] by linarith
  show ?thesis
    using legacySince_mono [OF t assms(4)]
    by (simp add: clock_base_eq [OF assms(4,2,3)] legacyDayAtHour_eq [OF assms(4,2,3)]
        legacyDayAtHour_eq [OF span_ok_mono [OF t assms(4)] assms(2,3)] zdiv_mono1)
qed

text \<open>The span of the clock's use: int64 holds the legacy game time up to the switch, and real days after it.\<close>

definition clock_span :: "clock \<Rightarrow> go_time \<Rightarrow> bool" where
  "clock_span c t \<longleftrightarrow> (if time_IsZero (ck_Cutover c) then span_ok c t else span_ok c (ck_Cutover c + Day) \<and> real_ok c t)"

lemma clock_span_after: "clock_span c t \<Longrightarrow> afterFor c t off \<Longrightarrow> span_ok c (ck_Cutover c + Day) \<and> real_ok c t"
  by (simp add: clock_span_def afterFor_def)

lemma clock_span_before:
  assumes "clock_span c t" "\<not> afterFor c t off" "ValidOffset off"
  shows "span_ok c t"
  using assms(1,2) cutoverFor_bounds [OF assms(3), of c] span_ok_mono [of t "ck_Cutover c + Day" c]
  by (auto simp: clock_span_def afterFor_def split: if_splits)

lemma clock_span_mono: "t \<le> u \<Longrightarrow> clock_span c u \<Longrightarrow> clock_span c t"
  using span_ok_mono [of t u c] by (auto simp: clock_span_def real_ok_def)

section \<open>Day numbers\<close>

text \<open>
  A settlement's day number never goes back, at any boundary hour and in any valid time zone,
  across the switch from the legacy calendar to real days as well; and no number written before the
  switch is ever given again after it.
\<close>

lemma DayAtHourIn_mono:
  assumes "ValidOffset off" "0 \<le> h" "h < 24" "now \<le> now'" "clock_span c now'"
  shows "DayAtHourIn c now h off \<le> DayAtHourIn c now' h off \<and>
    (\<not> afterFor c now off \<and> afterFor c now' off \<longrightarrow> DayAtHourIn c now h off < DayAtHourIn c now' h off)"
proof -
  note s = clock_span_mono [OF assms(4,5)]
  show ?thesis
  proof (cases "afterFor c now off")
    case True
    then have t: "afterFor c now' off" using assms(4) by (simp add: afterFor_def)
    note a = clock_span_after [OF s True] and b = clock_span_after [OF assms(5) t]
    have "(now + off - ck_Cutover c - h * Hour) div Day \<le> (now' + off - ck_Cutover c - h * Hour) div Day"
      using assms(4) by (intro zdiv_mono1) auto
    with True show ?thesis
      using DayAtHourIn_real(1) [OF assms(1-3) _ True] DayAtHourIn_real(1) [OF assms(1-3) _ t] a b by simp
  next
    case False
    note sp = clock_span_before [OF s False assms(1)]
    have d: "DayAtHourIn c now h off = legacyDayAtHour c now h" using False by (simp add: DayAtHourIn_def)
    show ?thesis
    proof (cases "afterFor c now' off")
      case True
      have b: "span_ok c (ck_Cutover c + Day)" "real_ok c now'" using clock_span_after [OF assms(5) True] by simp_all
      have "now < cutoverFor c off" using True False by (simp add: afterFor_def)
      from legacy_below_base [OF assms(1-3) b(1) this] DayAtHourIn_real [OF assms(1-3) b(1) True b(2)]
      show ?thesis by (simp add: d)
    next
      case n: False
      then have "DayAtHourIn c now' h off = legacyDayAtHour c now' h" by (simp add: DayAtHourIn_def)
      moreover have "legacyDayAtHour c now h \<le> legacyDayAtHour c now' h"
        using legacySince_mono [OF assms(4)] clock_span_before [OF assms(5) n assms(1)] sp assms(2,3)
        by (simp add: legacyDayAtHour_eq zdiv_mono1)
      ultimately show ?thesis using n by (simp add: d)
    qed
  qed
qed

text \<open>A clock like the live one: sixty to one until the cut-over, then real days.\<close>

definition demo_clock :: clock where
  "demo_clock = \<lparr>ck_Epoch = 63839664000000000000, ck_Scale = 1, ck_LegacyScale = 60, ck_Cutover = 63865584000000000000\<rparr>"



text \<open>Where the scale does not divide an hour the boundary's instant is still the day before.\<close>

lemma RealAtHourIn_early:
  "DayAtHour \<lparr>ck_Epoch = 1, ck_Scale = 7, ck_LegacyScale = 0, ck_Cutover = 0\<rparr>
     (RealAtHour \<lparr>ck_Epoch = 1, ck_Scale = 7, ck_LegacyScale = 0, ck_Cutover = 0\<rparr> 3 0) 0 = 2"
  by code_simp

text \<open>The first real day is not one above the legacy day running at the switch.\<close>

lemma first_real_day_jumps:
  "DayAtIn demo_clock (ck_Cutover demo_clock - 1) 0 = 17999 \<and> DayAtIn demo_clock (ck_Cutover demo_clock) 0 = 18062"
  by code_simp

text \<open>A change of the zone moves the number by at most two days, and two is reached.\<close>

lemma zone_change:
  assumes "ValidOffset a" "ValidOffset b" "0 \<le> h" "h < 24" "afterFor c now a" "afterFor c now b" "clock_span c now"
  shows "\<bar>DayAtHourIn c now h a - DayAtHourIn c now h b\<bar> \<le> 2"
proof -
  have sp: "span_ok c (ck_Cutover c + Day)" "real_ok c now" using clock_span_after [OF assms(7,5)] by simp_all
  have r: "- 43200000000000 \<le> a" "a \<le> 50400000000000" "- 43200000000000 \<le> b" "b \<le> 50400000000000"
    using assms(1,2) by (simp_all add: ValidOffset_def)
  have two: "(x + 2 * Day) div Day = x div Day + 2" for x :: int
    using div_mult_self1 [of Day x 2] by simp
  show ?thesis
    using DayAtHourIn_real(1) [OF assms(1,3,4) sp(1) assms(5) sp(2)] DayAtHourIn_real(1) [OF assms(2,3,4) sp(1) assms(6) sp(2)]
      zdiv_mono1 [of "now + a - ck_Cutover c - h * Hour" "now + b - ck_Cutover c - h * Hour + 2 * Day" Day]
      zdiv_mono1 [of "now + b - ck_Cutover c - h * Hour" "now + a - ck_Cutover c - h * Hour + 2 * Day" Day] r
    unfolding two by simp
qed

lemma zone_change_two:
  "DayAtIn demo_clock (ck_Cutover demo_clock + 10 * Day - 13 * Hour) MaxOffset -
    DayAtIn demo_clock (ck_Cutover demo_clock + 10 * Day - 13 * Hour) MinOffset = 2"
  by code_simp

lemma LocalMidnight_start:
  assumes "ValidOffset off"
  shows "LocalMidnight t off \<le> t \<and> t < LocalMidnight t off + Day \<and> (LocalMidnight t off + off) mod Day = 0"
proof -
  have "neg64 off = - off" using assms by (simp add: ValidOffset_def neg64_def wrap64_id')
  moreover have "0 \<le> (t + off) mod Day" "(t + off) mod Day < Day" by simp_all
  moreover have "t - (t + off) mod Day + off = Day * ((t + off) div Day)"
    using minus_mod_eq_mult_div [of "t + off" Day] by linarith
  then have "(t - (t + off) mod Day + off) mod Day = 0" by simp
  ultimately show ?thesis by (simp add: LocalMidnight_def time_Truncate_def time_Add_def)
qed

end
