(* ===== verification/Lease.thy ===== *)
theory Lease
  imports Go_Base
begin

text \<open>
  The bot lease: \<^verbatim>\<open>internal/gateway/lease/lease.go\<close> (the \<open>Lease\<close> interface and the \<open>Keeper\<close>) and its
  Redis implementation \<^verbatim>\<open>internal/infrastructure/redis/lease.go\<close>, \<^verbatim>\<open>lock.go\<close> (the two scripts) and
  \<^verbatim>\<open>keys.go\<close>. Redis is not under \<open>src/\<close>: its four commands are a record of functions over a store, an
  argument of the operations, and the locale \<open>redis_kv\<close> states what they document. A request may be lost
  before or after it ran, or be sent again by the client (\<open>io\<close>); a script is one step of the server.
  The locale \<open>lease\<close> is the contract of the interface; the code's implementation satisfies it
  (\<open>redis_kv.lease_BotLease\<close>, a \<open>sublocale\<close>).
\<close>

section \<open>Redis\<close>

abbreviation Millisecond :: duration where "Millisecond \<equiv> 1000000"

type_synonym key = "rune list"

record 's redis =
  rd_SETNX :: "'s \<Rightarrow> go_time \<Rightarrow> key \<Rightarrow> key \<Rightarrow> duration \<Rightarrow> 's \<times> bool"
  rd_GET :: "'s \<Rightarrow> go_time \<Rightarrow> key \<Rightarrow> key option"
  rd_PEXPIRE :: "'s \<Rightarrow> go_time \<Rightarrow> key \<Rightarrow> int \<Rightarrow> 's \<times> int"
  rd_DEL :: "'s \<Rightarrow> go_time \<Rightarrow> key \<Rightarrow> 's \<times> int"

text \<open>\<open>ent s t k\<close> is the value of the key at the server time \<open>t\<close> and the instant it expires.\<close>

locale redis_kv =
  fixes R :: "'s redis" and ent :: "'s \<Rightarrow> go_time \<Rightarrow> key \<Rightarrow> (key \<times> go_time) option"
  assumes ent_live: "ent s t k = Some (v, e) \<Longrightarrow> t < e"
    and ent_later: "t \<le> u \<Longrightarrow> ent s u k = (case ent s t k of None \<Rightarrow> None | Some (v, e) \<Rightarrow> if u < e then Some (v, e) else None)"
    and get: "rd_GET R s t k = map_option fst (ent s t k)"
    and setnx_free: "ent s t k = None \<Longrightarrow> 0 < ttl \<Longrightarrow> Millisecond dvd ttl \<Longrightarrow>
      snd (rd_SETNX R s t k v ttl) \<and> ent (fst (rd_SETNX R s t k v ttl)) t = (ent s t)(k \<mapsto> (v, t + ttl))"
    and setnx_taken: "ent s t k \<noteq> None \<Longrightarrow>
      \<not> snd (rd_SETNX R s t k v ttl) \<and> ent (fst (rd_SETNX R s t k v ttl)) t = ent s t"
    and pexpire: "ent s t k = Some (v, e) \<Longrightarrow> 0 < ms \<Longrightarrow>
      snd (rd_PEXPIRE R s t k ms) = 1 \<and> ent (fst (rd_PEXPIRE R s t k ms)) t = (ent s t)(k \<mapsto> (v, t + ms * Millisecond))"
    and del: "ent s t k \<noteq> None \<Longrightarrow> snd (rd_DEL R s t k) = 1 \<and> ent (fst (rd_DEL R s t k)) t = (ent s t)(k := None)"

definition compareAndDelete :: "'s redis \<Rightarrow> go_time \<Rightarrow> key \<Rightarrow> key \<Rightarrow> 's \<Rightarrow> 's \<times> int" where
  "compareAndDelete R t k arg s = (if rd_GET R s t k = Some arg then rd_DEL R s t k else (s, 0))"

definition compareAndExpire :: "'s redis \<Rightarrow> go_time \<Rightarrow> key \<Rightarrow> key \<Rightarrow> int \<Rightarrow> 's \<Rightarrow> 's \<times> int" where
  "compareAndExpire R t k arg ms s = (if rd_GET R s t k = Some arg then rd_PEXPIRE R s t k ms else (s, 0))"

text \<open>What became of a request: answered, lost on the way, executed with the answer lost, or sent twice.\<close>

datatype io = Reply | LostBefore | LostAfter | Resent

datatype lease_error = LeNoKey | LeNoHolder | LeBadTTL | LeIO

fun send :: "io \<Rightarrow> ('s \<Rightarrow> 's \<times> 'r) \<Rightarrow> 's \<Rightarrow> 's \<times> (lease_error + 'r)" where
  "send Reply f s = (case f s of (s', r) \<Rightarrow> (s', Inr r))"
| "send LostBefore f s = (s, Inl LeIO)"
| "send LostAfter f s = (fst (f s), Inl LeIO)"
| "send Resent f s = (case f (fst (f s)) of (s', r) \<Rightarrow> (s', Inr r))"

section \<open>The Redis lease\<close>

definition botLeasePrefix :: key where
  "botLeasePrefix = map of_char ''gateway:bot-lease:''"

definition botLeaseKey :: "key \<Rightarrow> key" where
  "botLeaseKey botKey = botLeasePrefix @ botKey"

definition validateLease :: "key \<Rightarrow> key \<Rightarrow> duration \<Rightarrow> lease_error option" where
  "validateLease botKey holder ttl =
     (if botKey = [] then Some LeNoKey else if holder = [] then Some LeNoHolder else if ttl \<le> 0 then Some LeBadTTL else None)"

definition BotLease_Acquire :: "'s redis \<Rightarrow> io \<Rightarrow> go_time \<Rightarrow> key \<Rightarrow> key \<Rightarrow> duration \<Rightarrow> 's \<Rightarrow> 's \<times> (lease_error + bool)" where
  "BotLease_Acquire R i t botKey holder ttl s =
     (case validateLease botKey holder ttl of Some e \<Rightarrow> (s, Inl e)
      | None \<Rightarrow> send i (\<lambda>s. rd_SETNX R s t (botLeaseKey botKey) holder ttl) s)"

definition BotLease_Renew :: "'s redis \<Rightarrow> io \<Rightarrow> go_time \<Rightarrow> key \<Rightarrow> key \<Rightarrow> duration \<Rightarrow> 's \<Rightarrow> 's \<times> (lease_error + bool)" where
  "BotLease_Renew R i t botKey holder ttl s =
     (case validateLease botKey holder ttl of Some e \<Rightarrow> (s, Inl e)
      | None \<Rightarrow>
        let m = quo64 ttl Millisecond; millis = (if m \<le> 0 then 1 else m) in
        (case send i (compareAndExpire R t (botLeaseKey botKey) holder millis) s of
           (s', Inl e) \<Rightarrow> (s', Inl e)
         | (s', Inr res) \<Rightarrow> (s', Inr (res = 1))))"

definition BotLease_Release :: "'s redis \<Rightarrow> io \<Rightarrow> go_time \<Rightarrow> key \<Rightarrow> key \<Rightarrow> 's \<Rightarrow> 's \<times> lease_error option" where
  "BotLease_Release R i t botKey holder s =
     (if botKey = [] then (s, Some LeNoKey) else if holder = [] then (s, Some LeNoHolder)
      else case send i (compareAndDelete R t (botLeaseKey botKey) holder) s of
             (s', Inl e) \<Rightarrow> (s', Some e)
           | (s', Inr _) \<Rightarrow> (s', None))"

section \<open>The interface\<close>

record 's lease_ops =
  le_Acquire :: "io \<Rightarrow> go_time \<Rightarrow> key \<Rightarrow> key \<Rightarrow> duration \<Rightarrow> 's \<Rightarrow> 's \<times> (lease_error + bool)"
  le_Renew :: "io \<Rightarrow> go_time \<Rightarrow> key \<Rightarrow> key \<Rightarrow> duration \<Rightarrow> 's \<Rightarrow> 's \<times> (lease_error + bool)"
  le_Release :: "io \<Rightarrow> go_time \<Rightarrow> key \<Rightarrow> key \<Rightarrow> 's \<Rightarrow> 's \<times> lease_error option"

definition BotLease :: "'s redis \<Rightarrow> 's lease_ops" where
  "BotLease R = \<lparr>le_Acquire = BotLease_Acquire R, le_Renew = BotLease_Renew R, le_Release = BotLease_Release R\<rparr>"

definition ok_ttl :: "duration \<Rightarrow> bool" where
  "ok_ttl ttl \<longleftrightarrow> 0 < ttl \<and> ttl \<le> MaxInt64 \<and> Millisecond dvd ttl"

text \<open>The contract: a claim is the holder and the instant it ends; only its holder extends or drops it.\<close>

locale lease =
  fixes L :: "'s lease_ops" and claim :: "'s \<Rightarrow> go_time \<Rightarrow> key \<Rightarrow> (key \<times> go_time) option"
  assumes claim_live: "claim s t b = Some (h, e) \<Longrightarrow> t < e"
    and claim_later: "t \<le> u \<Longrightarrow>
      claim s u b = (case claim s t b of None \<Rightarrow> None | Some (h, e) \<Rightarrow> if u < e then Some (h, e) else None)"
    and acquire_free: "le_Acquire L i t b h ttl s = (s', r) \<Longrightarrow> ok_ttl ttl \<Longrightarrow> claim s t b = None \<Longrightarrow>
      (claim s' t = claim s t \<or> claim s' t = (claim s t)(b \<mapsto> (h, t + ttl))) \<and>
      (r = Inr True \<longrightarrow> claim s' t = (claim s t)(b \<mapsto> (h, t + ttl)))"
    and acquire_reply: "claim s t b = None \<Longrightarrow> ok_ttl ttl \<Longrightarrow> b \<noteq> [] \<Longrightarrow> h \<noteq> [] \<Longrightarrow> snd (le_Acquire L Reply t b h ttl s) = Inr True"
    and acquire_taken: "le_Acquire L i t b h ttl s = (s', r) \<Longrightarrow> claim s t b \<noteq> None \<Longrightarrow> claim s' t = claim s t \<and> r \<noteq> Inr True"
    and renew_own: "le_Renew L i t b h ttl s = (s', r) \<Longrightarrow> ok_ttl ttl \<Longrightarrow> claim s t b = Some (h, e) \<Longrightarrow>
      (claim s' t = claim s t \<or> claim s' t = (claim s t)(b \<mapsto> (h, t + ttl))) \<and>
      (r = Inr True \<longrightarrow> claim s' t = (claim s t)(b \<mapsto> (h, t + ttl))) \<and> r \<noteq> Inr False"
    and renew_reply: "claim s t b = Some (h, e) \<Longrightarrow> ok_ttl ttl \<Longrightarrow> b \<noteq> [] \<Longrightarrow> h \<noteq> [] \<Longrightarrow> snd (le_Renew L Reply t b h ttl s) = Inr True"
    and renew_other: "le_Renew L i t b h ttl s = (s', r) \<Longrightarrow> map_option fst (claim s t b) \<noteq> Some h \<Longrightarrow> claim s' t = claim s t \<and> r \<noteq> Inr True"
    and release_own: "le_Release L i t b h s = (s', er) \<Longrightarrow> claim s t b = Some (h, e) \<Longrightarrow>
      (claim s' t = claim s t \<or> claim s' t = (claim s t)(b := None)) \<and> (er = None \<longrightarrow> claim s' t = (claim s t)(b := None))"
    and release_reply: "b \<noteq> [] \<Longrightarrow> h \<noteq> [] \<Longrightarrow> snd (le_Release L Reply t b h s) = None"
    and release_other: "le_Release L i t b h s = (s', er) \<Longrightarrow> map_option fst (claim s t b) \<noteq> Some h \<Longrightarrow> claim s' t = claim s t"

section \<open>The Redis lease keeps the contract\<close>

lemma botLeaseKey_inj [simp]: "botLeaseKey a = botLeaseKey b \<longleftrightarrow> a = b"
  by (simp add: botLeaseKey_def)

text \<open>The claim on a bot is what its key holds.\<close>

definition bot_claim :: "('s \<Rightarrow> go_time \<Rightarrow> key \<Rightarrow> (key \<times> go_time) option) \<Rightarrow> 's \<Rightarrow> go_time \<Rightarrow> key \<Rightarrow> (key \<times> go_time) option" where
  "bot_claim ent s t b = ent s t (botLeaseKey b)"

lemma bot_claim_upd: "ent s' t = (ent s t)(botLeaseKey b := x) \<Longrightarrow> bot_claim ent s' t = (bot_claim ent s t)(b := x)"
  by (auto simp: bot_claim_def)

lemma bot_claim_same: "ent s' t = ent s t \<Longrightarrow> bot_claim ent s' t = bot_claim ent s t"
  by (simp add: bot_claim_def fun_eq_iff)

lemma ok_ttl_millis:
  assumes "ok_ttl ttl"
  shows "0 < quo64 ttl Millisecond" "quo64 ttl Millisecond * Millisecond = ttl"
proof -
  obtain k where k: "ttl = Millisecond * k" using assms by (auto simp: ok_ttl_def)
  with assms show "0 < quo64 ttl Millisecond" "quo64 ttl Millisecond * Millisecond = ttl"
    by (auto simp: ok_ttl_def quo64_nonneg)
qed

context redis_kv
begin

lemma expire_own:
  assumes "ent s t k = Some (v, e)" "0 < ms"
  shows "snd (compareAndExpire R t k v ms s) = 1" "ent (fst (compareAndExpire R t k v ms s)) t = (ent s t)(k \<mapsto> (v, t + ms * Millisecond))"
  using pexpire [OF assms] assms(1) by (simp_all add: compareAndExpire_def get)

lemma expire_other: "map_option fst (ent s t k) \<noteq> Some v \<Longrightarrow> compareAndExpire R t k v ms s = (s, 0)"
  by (simp add: compareAndExpire_def get)

lemma delete_own: "ent s t k = Some (v, e) \<Longrightarrow> ent (fst (compareAndDelete R t k v s)) t = (ent s t)(k := None)"
  using del [of s t k] by (simp add: compareAndDelete_def get)

lemma delete_other: "map_option fst (ent s t k) \<noteq> Some v \<Longrightarrow> compareAndDelete R t k v s = (s, 0)"
  by (simp add: compareAndDelete_def get)

lemma send_setnx_free:
  assumes "ent s t k = None" "0 < ttl" "Millisecond dvd ttl" "send i (\<lambda>s. rd_SETNX R s t k v ttl) s = (s', r)"
  shows "(ent s' t = ent s t \<or> ent s' t = (ent s t)(k \<mapsto> (v, t + ttl))) \<and> (r = Inr True \<longrightarrow> ent s' t = (ent s t)(k \<mapsto> (v, t + ttl)))"
proof (cases i)
  case Resent
  define s1 where "s1 = fst (rd_SETNX R s t k v ttl)"
  have "ent s1 t = (ent s t)(k \<mapsto> (v, t + ttl))" using setnx_free [OF assms(1-3), of v] by (simp add: s1_def)
  with setnx_taken [of s1 t k v ttl] assms(4) show ?thesis by (auto simp: Resent s1_def [symmetric] split: prod.splits)
qed (use assms setnx_free [OF assms(1-3), of v] in \<open>auto split: prod.splits\<close>)

lemma send_setnx_taken:
  assumes "ent s t k \<noteq> None" "send i (\<lambda>s. rd_SETNX R s t k v ttl) s = (s', r)"
  shows "ent s' t = ent s t \<and> r \<noteq> Inr True"
proof (cases i)
  case Resent
  define s1 where "s1 = fst (rd_SETNX R s t k v ttl)"
  have "ent s1 t = ent s t" using setnx_taken [OF assms(1), of v ttl] by (simp add: s1_def)
  with setnx_taken [of s1 t k v ttl] assms show ?thesis by (auto simp: Resent s1_def [symmetric] split: prod.splits)
qed (use assms setnx_taken [OF assms(1), of v ttl] in \<open>auto split: prod.splits\<close>)

lemma send_expire_own:
  assumes "ent s t k = Some (v, e)" "0 < ms" "send i (compareAndExpire R t k v ms) s = (s', r)"
  shows "(ent s' t = ent s t \<or> ent s' t = (ent s t)(k \<mapsto> (v, t + ms * Millisecond))) \<and>
    (\<forall>n. r = Inr n \<longrightarrow> n = 1 \<and> ent s' t = (ent s t)(k \<mapsto> (v, t + ms * Millisecond)))"
proof (cases i)
  case Resent
  define s1 where "s1 = fst (compareAndExpire R t k v ms s)"
  have e: "ent s1 t = (ent s t)(k \<mapsto> (v, t + ms * Millisecond))" using expire_own [OF assms(1,2)] by (simp add: s1_def)
  then have "ent s1 t k = Some (v, t + ms * Millisecond)" by simp
  from expire_own [OF this assms(2)] e assms(3) show ?thesis by (auto simp: Resent s1_def [symmetric] split: prod.splits)
qed (use assms(3) expire_own [OF assms(1,2)] in \<open>auto split: prod.splits\<close>)

lemma send_noop: "f s = (s, c) \<Longrightarrow> send i f s = (s', r) \<Longrightarrow> s' = s \<and> (r = Inl LeIO \<or> r = Inr c)"
  by (cases i) auto

lemma send_delete_own:
  assumes "ent s t k = Some (v, e)" "send i (compareAndDelete R t k v) s = (s', r)"
  shows "(ent s' t = ent s t \<or> ent s' t = (ent s t)(k := None)) \<and> (\<forall>n. r = Inr n \<longrightarrow> ent s' t = (ent s t)(k := None))"
proof (cases i)
  case Resent
  define s1 where "s1 = fst (compareAndDelete R t k v s)"
  have e: "ent s1 t = (ent s t)(k := None)" using delete_own [OF assms(1)] by (simp add: s1_def)
  then have "compareAndDelete R t k v s1 = (s1, 0)" by (intro delete_other) simp
  with e assms(2) show ?thesis by (auto simp: Resent s1_def [symmetric])
qed (use assms(2) delete_own [OF assms(1)] in \<open>auto split: prod.splits\<close>)

lemma lease_BotLease: "lease (BotLease R) (bot_claim ent)"
proof (unfold_locales, unfold BotLease_def lease_ops.simps)
  show "t < e" if "bot_claim ent s t b = Some (h, e)" for s t b h e
    using that ent_live by (auto simp: bot_claim_def)
  show "bot_claim ent s u b = (case bot_claim ent s t b of None \<Rightarrow> None | Some (h, e) \<Rightarrow> if u < e then Some (h, e) else None)"
    if "t \<le> u" for s t u b using ent_later [OF that] by (auto simp: bot_claim_def split: option.splits)
next
  fix i t b h ttl s s' r
  assume a: "BotLease_Acquire R i t b h ttl s = (s', r)" "ok_ttl ttl" "bot_claim ent s t b = None"
  show "(bot_claim ent s' t = bot_claim ent s t \<or> bot_claim ent s' t = (bot_claim ent s t)(b \<mapsto> (h, t + ttl))) \<and>
      (r = Inr True \<longrightarrow> bot_claim ent s' t = (bot_claim ent s t)(b \<mapsto> (h, t + ttl)))"
  proof -
    have f: "ent s t (botLeaseKey b) = None" using a(3) by (simp add: bot_claim_def)
    from a(1,2) show ?thesis
      using send_setnx_free [OF f, of ttl i h s' r]
      by (auto simp: BotLease_Acquire_def ok_ttl_def split: option.splits intro: bot_claim_upd bot_claim_same)
  qed
next
  fix t b ttl s and h :: key
  assume "bot_claim ent s t b = None" "ok_ttl ttl" "b \<noteq> []" "h \<noteq> []"
  then show "snd (BotLease_Acquire R Reply t b h ttl s) = Inr True"
    using setnx_free [of s t "botLeaseKey b" ttl h]
    by (auto simp: BotLease_Acquire_def bot_claim_def ok_ttl_def validateLease_def split: prod.splits)
next
  fix i t b h ttl s s' r
  assume "BotLease_Acquire R i t b h ttl s = (s', r)" "bot_claim ent s t b \<noteq> None"
  then show "bot_claim ent s' t = bot_claim ent s t \<and> r \<noteq> Inr True"
    using send_setnx_taken [of s t "botLeaseKey b" i h ttl s' r]
    by (auto simp: BotLease_Acquire_def bot_claim_def fun_eq_iff split: option.splits)
next
  fix i t b h ttl s s' r e
  assume a: "BotLease_Renew R i t b h ttl s = (s', r)" "ok_ttl ttl" "bot_claim ent s t b = Some (h, e)"
  note m = ok_ttl_millis [OF a(2)]
  show "(bot_claim ent s' t = bot_claim ent s t \<or> bot_claim ent s' t = (bot_claim ent s t)(b \<mapsto> (h, t + ttl))) \<and>
      (r = Inr True \<longrightarrow> bot_claim ent s' t = (bot_claim ent s t)(b \<mapsto> (h, t + ttl))) \<and> r \<noteq> Inr False"
    using a m(1) send_expire_own [of s t "botLeaseKey b" h e "quo64 ttl Millisecond" i s'] unfolding m(2)
    by (auto simp: BotLease_Renew_def bot_claim_def Let_def fun_eq_iff split: option.splits prod.splits sum.splits)
next
  fix t b ttl s e and h :: key
  assume a: "bot_claim ent s t b = Some (h, e)" "ok_ttl ttl" "b \<noteq> []" "h \<noteq> []"
  then show "snd (BotLease_Renew R Reply t b h ttl s) = Inr True"
    using ok_ttl_millis [OF a(2)] expire_own [of s t "botLeaseKey b" h e "quo64 ttl Millisecond"]
    by (auto simp: BotLease_Renew_def validateLease_def bot_claim_def ok_ttl_def Let_def split: prod.splits)
next
  fix i t b h ttl s s' r
  assume a: "BotLease_Renew R i t b h ttl s = (s', r)" "map_option fst (bot_claim ent s t b) \<noteq> Some h"
  then show "bot_claim ent s' t = bot_claim ent s t \<and> r \<noteq> Inr True"
    using send_noop [of "compareAndExpire R t (botLeaseKey b) h ms" s 0 for ms] expire_other [of s t "botLeaseKey b" h]
    by (fastforce simp: BotLease_Renew_def bot_claim_def Let_def split: option.splits prod.splits sum.splits)
next
  fix i t b h s s' er e
  assume a: "BotLease_Release R i t b h s = (s', er)" "bot_claim ent s t b = Some (h, e)"
  then have f: "ent s t (botLeaseKey b) = Some (h, e)" by (simp add: bot_claim_def)
  from a(1) show "(bot_claim ent s' t = bot_claim ent s t \<or> bot_claim ent s' t = (bot_claim ent s t)(b := None)) \<and>
      (er = None \<longrightarrow> bot_claim ent s' t = (bot_claim ent s t)(b := None))"
    using send_delete_own [OF f, of i s']
    by (auto simp: BotLease_Release_def split: prod.splits sum.splits if_splits intro: bot_claim_upd bot_claim_same)
next
  show "snd (BotLease_Release R Reply t b h s) = None" if "b \<noteq> []" "h \<noteq> []" for t b s and h :: key
    using that by (auto simp: BotLease_Release_def split: prod.splits)
next
  fix i t b h s s' er
  assume a: "BotLease_Release R i t b h s = (s', er)" "map_option fst (bot_claim ent s t b) \<noteq> Some h"
  then show "bot_claim ent s' t = bot_claim ent s t"
    using send_noop [of "compareAndDelete R t (botLeaseKey b) h" s 0] delete_other [of s t "botLeaseKey b" h]
    by (fastforce simp: BotLease_Release_def bot_claim_def split: prod.splits sum.splits if_splits)
qed

end

sublocale redis_kv \<subseteq> bot: lease "BotLease R" "bot_claim ent"
  by (rule lease_BotLease)

section \<open>A store\<close>

text \<open>The commands over a list of entries, the newest first: what the hypotheses describe can be computed.\<close>

type_synonym kv = "(key \<times> key \<times> go_time) list"

definition kv_ent :: "kv \<Rightarrow> go_time \<Rightarrow> key \<Rightarrow> (key \<times> go_time) option" where
  "kv_ent s t k = (case map_of s k of None \<Rightarrow> None | Some (v, e) \<Rightarrow> if t < e then Some (v, e) else None)"

definition kv_redis :: "kv redis" where
  "kv_redis = \<lparr>
     rd_SETNX = (\<lambda>s t k v ttl. if kv_ent s t k = None then ((k, v, t + ttl) # s, True) else (s, False)),
     rd_GET = (\<lambda>s t k. map_option fst (kv_ent s t k)),
     rd_PEXPIRE = (\<lambda>s t k ms. case kv_ent s t k of None \<Rightarrow> (s, 0) | Some (v, e) \<Rightarrow> ((k, v, t + ms * Millisecond) # s, 1)),
     rd_DEL = (\<lambda>s t k. if kv_ent s t k = None then (s, 0) else (filter (\<lambda>x. fst x \<noteq> k) s, 1))\<rparr>"

lemma map_of_drop_key: "map_of (filter (\<lambda>x. fst x \<noteq> k) s) = (map_of s)(k := None)"
  by (induction s) auto

interpretation kv: redis_kv kv_redis kv_ent
  by unfold_locales (auto simp: kv_redis_def kv_ent_def map_of_drop_key fun_eq_iff split: option.splits if_splits)

end
