(* ===== verification/Lease_System.thy ===== *)
theory Lease_System
  imports Lease
begin

text \<open>
  The \<open>Keeper\<close> of \<^verbatim>\<open>internal/gateway/lease/lease.go\<close> and a fleet of gateway instances on one Redis. \<open>Run\<close> is
  split at its blocking points: the acquisition, one renewal, the release; \<open>run_loop\<close> puts them together as
  the \<open>select\<close> does. A fleet step is one of them at the server's time, the passing of time, or a crash.
  \<open>sy_grant\<close> is a history variable: the end of the last grant a keeper was told of. What a keeper learns
  late it learns here at once, so \<open>Holding\<close> before the end of a grant is what a poller may rely on.
\<close>

section \<open>The keeper\<close>

abbreviation DefaultTTL :: duration where "DefaultTTL \<equiv> 30000000000"
abbreviation DefaultRenewDivisor :: int where "DefaultRenewDivisor \<equiv> 3"
abbreviation DefaultReleaseTimeout :: duration where "DefaultReleaseTimeout \<equiv> 5000000000"

datatype keeper_error = ErrNoLease | ErrNoBotKey | ErrNoOwnerID | ErrBadTTL | RenewTooLong duration duration

record 's keeper_config =
  kc_Lease :: "'s lease_ops option"
  kc_BotKey :: key
  kc_OwnerID :: key
  kc_TTL :: duration
  kc_RenewEvery :: duration
  kc_ReleaseTimeout :: duration

record 's keeper =
  kp_lease :: "'s lease_ops"
  kp_botKey :: key
  kp_ownerID :: key
  kp_ttl :: duration
  kp_renewEvery :: duration
  kp_releaseTimeout :: duration

definition NewKeeper :: "'s keeper_config \<Rightarrow> keeper_error + 's keeper" where
  "NewKeeper cfg =
     (case kc_Lease cfg of None \<Rightarrow> Inl ErrNoLease
      | Some L \<Rightarrow>
        if TrimSpace (kc_BotKey cfg) = [] then Inl ErrNoBotKey
        else if TrimSpace (kc_OwnerID cfg) = [] then Inl ErrNoOwnerID
        else if kc_TTL cfg < 0 then Inl ErrBadTTL
        else
          let ttl = (if kc_TTL cfg = 0 then DefaultTTL else kc_TTL cfg);
              renewEvery = (if kc_RenewEvery cfg \<le> 0 then quo64 ttl DefaultRenewDivisor else kc_RenewEvery cfg) in
          if renewEvery \<le> 0 \<or> renewEvery \<ge> ttl then Inl (RenewTooLong renewEvery ttl)
          else Inr \<lparr>kp_lease = L, kp_botKey = kc_BotKey cfg, kp_ownerID = kc_OwnerID cfg, kp_ttl = ttl,
                    kp_renewEvery = renewEvery,
                    kp_releaseTimeout = (if kc_ReleaseTimeout cfg \<le> 0 then DefaultReleaseTimeout else kc_ReleaseTimeout cfg)\<rparr>)"

datatype run_result = RunClean | RunNotAcquired | RunLost | RunAcquireErr lease_error | RunRenewErr lease_error

datatype run = Idle | Holding | Returned run_result | Crashed

definition Run_acquire :: "'s keeper \<Rightarrow> io \<Rightarrow> go_time \<Rightarrow> 's \<Rightarrow> 's \<times> run" where
  "Run_acquire k i t s =
     (case le_Acquire (kp_lease k) i t (kp_botKey k) (kp_ownerID k) (kp_ttl k) s of
        (s', Inl e) \<Rightarrow> (s', Returned (RunAcquireErr e))
      | (s', Inr acquired) \<Rightarrow> if \<not> acquired then (s', Returned RunNotAcquired) else (s', Holding))"

definition keeper_release :: "'s keeper \<Rightarrow> io \<Rightarrow> go_time \<Rightarrow> 's \<Rightarrow> 's" where
  "keeper_release k i t s = fst (le_Release (kp_lease k) i t (kp_botKey k) (kp_ownerID k) s)"

definition Run_done :: "'s keeper \<Rightarrow> io \<Rightarrow> go_time \<Rightarrow> 's \<Rightarrow> 's \<times> run" where
  "Run_done k i t s = (keeper_release k i t s, Returned RunClean)"

text \<open>\<open>cancelled\<close> is what \<open>ctx.Err()\<close> says after a failed renewal; \<open>j\<close> is the fate of the release then sent.\<close>

definition Run_tick :: "'s keeper \<Rightarrow> bool \<Rightarrow> io \<Rightarrow> io \<Rightarrow> go_time \<Rightarrow> 's \<Rightarrow> 's \<times> run" where
  "Run_tick k cancelled i j t s =
     (case le_Renew (kp_lease k) i t (kp_botKey k) (kp_ownerID k) (kp_ttl k) s of
        (s', Inl e) \<Rightarrow> if cancelled then Run_done k j t s' else (s', Returned (RunRenewErr e))
      | (s', Inr renewed) \<Rightarrow> if \<not> renewed then (s', Returned RunLost) else (s', Holding))"

datatype event = Tick bool io io go_time | Done io go_time

fun run_event :: "'s keeper \<Rightarrow> event \<Rightarrow> 's \<Rightarrow> 's \<times> run" where
  "run_event k (Tick cancelled i j t) s = Run_tick k cancelled i j t s"
| "run_event k (Done i t) s = Run_done k i t s"

fun run_loop :: "'s keeper \<Rightarrow> event list \<Rightarrow> 's \<Rightarrow> 's \<times> run" where
  "run_loop k [] s = (s, Holding)"
| "run_loop k (e # es) s = (case run_event k e s of (s', Holding) \<Rightarrow> run_loop k es s' | (s', r) \<Rightarrow> (s', r))"

definition Run :: "'s keeper \<Rightarrow> io \<Rightarrow> go_time \<Rightarrow> event list \<Rightarrow> 's \<Rightarrow> 's \<times> run" where
  "Run k i t es s = (case Run_acquire k i t s of (s', Holding) \<Rightarrow> run_loop k es s' | (s', r) \<Rightarrow> (s', r))"

text \<open>
  A keeper that is built renews inside its lease: the interval is positive and shorter than the TTL, and
  the default leaves room for three renewals in one TTL. It is built exactly when it has a lease, a bot,
  an owner and a TTL that is not negative, and the interval fits.
\<close>

lemma NewKeeper_renews_in_time:
  assumes "in64 (kc_TTL cfg)" "in64 (kc_RenewEvery cfg)"
  shows "case NewKeeper cfg of
      Inr k \<Rightarrow> 0 < kp_renewEvery k \<and> kp_renewEvery k < kp_ttl k \<and> 0 < kp_releaseTimeout k \<and> kp_botKey k \<noteq> [] \<and> kp_ownerID k \<noteq> [] \<and>
        Some (kp_lease k) = kc_Lease cfg \<and> (kc_RenewEvery cfg \<le> 0 \<longrightarrow> 3 * kp_renewEvery k \<le> kp_ttl k \<and> kp_ttl k < 3 * kp_renewEvery k + 3)
    | Inl e \<Rightarrow> kc_Lease cfg = None \<or> TrimSpace (kc_BotKey cfg) = [] \<or> TrimSpace (kc_OwnerID cfg) = [] \<or> kc_TTL cfg < 0 \<or>
        (0 < kc_TTL cfg \<and> kc_TTL cfg < 3 \<and> kc_RenewEvery cfg \<le> 0) \<or> kc_RenewEvery cfg \<ge> (if kc_TTL cfg = 0 then DefaultTTL else kc_TTL cfg)"
proof -
  have d: "quo64 t 3 = t div 3" if "0 \<le> t" "t \<le> MaxInt64" for t using that by (simp add: quo64_nonneg)
  have e: "TrimSpace [] = []" by (simp add: TrimSpace_def)
  show ?thesis
    using assms e by (auto simp: NewKeeper_def Let_def in64_def d split: option.splits)
qed

section \<open>One call of a keeper\<close>

definition call_ok :: "('s \<Rightarrow> go_time \<Rightarrow> key \<Rightarrow> (key \<times> go_time) option) \<Rightarrow> 's keeper \<Rightarrow> go_time \<Rightarrow> 's \<Rightarrow> 's \<times> run \<Rightarrow> bool" where
  "call_ok claim k t s res \<longleftrightarrow>
     (\<forall>b. b \<noteq> kp_botKey k \<longrightarrow> claim (fst res) t b = claim s t b) \<and>
     (\<forall>h e. claim s t (kp_botKey k) = Some (h, e) \<and> h \<noteq> kp_ownerID k \<longrightarrow> claim (fst res) t = claim s t \<and> snd res \<noteq> Holding) \<and>
     (snd res = Holding \<longrightarrow> claim (fst res) t (kp_botKey k) = Some (kp_ownerID k, t + kp_ttl k)) \<and>
     claim (fst res) t (kp_botKey k) \<in> {claim s t (kp_botKey k), None, Some (kp_ownerID k, t + kp_ttl k)}"

context lease
begin

lemma call_acquire:
  assumes "kp_lease k = L" "ok_ttl (kp_ttl k)"
  shows "call_ok claim k t s (Run_acquire k i t s)"
proof -
  obtain s' r where a: "le_Acquire L i t (kp_botKey k) (kp_ownerID k) (kp_ttl k) s = (s', r)" by fastforce
  have R: "Run_acquire k i t s = (s', if r = Inr True then Holding else case r of Inl e \<Rightarrow> Returned (RunAcquireErr e) | Inr _ \<Rightarrow> Returned RunNotAcquired)"
    by (cases r) (simp_all add: Run_acquire_def assms(1) a)
  show ?thesis
  proof (cases "claim s t (kp_botKey k)")
    case None
    from acquire_free [OF a assms(2) None] show ?thesis by (auto simp: call_ok_def R None split: sum.splits)
  next
    case (Some c)
    then have "claim s' t = claim s t \<and> r \<noteq> Inr True" using acquire_taken [OF a] by simp
    then show ?thesis by (auto simp: call_ok_def R split: sum.splits)
  qed
qed

lemma call_release:
  assumes "kp_lease k = L"
  shows "claim (keeper_release k i t s) t = claim s t \<or>
    map_option fst (claim s t (kp_botKey k)) = Some (kp_ownerID k) \<and> claim (keeper_release k i t s) t = (claim s t)(kp_botKey k := None)"
proof -
  obtain s' r where a: "le_Release L i t (kp_botKey k) (kp_ownerID k) s = (s', r)" by fastforce
  then have R: "keeper_release k i t s = s'" by (simp add: keeper_release_def assms)
  show ?thesis
  proof (cases "map_option fst (claim s t (kp_botKey k)) = Some (kp_ownerID k)")
    case True
    then obtain e where "claim s t (kp_botKey k) = Some (kp_ownerID k, e)" by auto
    from release_own [OF a this] True show ?thesis by (auto simp: R)
  next
    case False
    from release_other [OF a False] show ?thesis by (simp add: R)
  qed
qed

lemma call_done:
  assumes "kp_lease k = L"
  shows "call_ok claim k t s (Run_done k i t s)"
  using call_release [OF assms, of i t s] by (auto simp: call_ok_def Run_done_def)

lemma call_tick:
  assumes "kp_lease k = L" "ok_ttl (kp_ttl k)"
  shows "call_ok claim k t s (Run_tick k c i j t s)"
proof -
  obtain s' r where a: "le_Renew L i t (kp_botKey k) (kp_ownerID k) (kp_ttl k) s = (s', r)" by fastforce
  have R: "Run_tick k c i j t s = (case r of Inl e \<Rightarrow> if c then Run_done k j t s' else (s', Returned (RunRenewErr e))
      | Inr renewed \<Rightarrow> if \<not> renewed then (s', Returned RunLost) else (s', Holding))"
    by (simp add: Run_tick_def assms(1) a)
  note d = call_release [OF assms(1), of j t s']
  show ?thesis
  proof (cases "map_option fst (claim s t (kp_botKey k)) = Some (kp_ownerID k)")
    case True
    then obtain e where e: "claim s t (kp_botKey k) = Some (kp_ownerID k, e)" by auto
    from renew_own [OF a assms(2) e] d show ?thesis
      by (cases r) (auto simp: R call_ok_def e Run_done_def)
  next
    case False
    from renew_other [OF a False] d False show ?thesis
      by (cases r) (auto simp: R call_ok_def Run_done_def)
  qed
qed

end

section \<open>A fleet of keepers\<close>

record ('i, 's) fleet =
  fl_now :: go_time
  fl_store :: 's
  fl_run :: "'i \<Rightarrow> run"
  fl_grant :: "'i \<Rightarrow> go_time"

text \<open>What keeper \<open>i\<close>'s call leaves: the store, its run, and the grant if it now holds the lease.\<close>

definition after_call :: "('i \<Rightarrow> 's keeper) \<Rightarrow> ('i, 's) fleet \<Rightarrow> 'i \<Rightarrow> 's \<times> run \<Rightarrow> ('i, 's) fleet" where
  "after_call K x i res = x\<lparr>fl_store := fst res, fl_run := (fl_run x)(i := snd res),
     fl_grant := (if snd res = Holding then (fl_grant x)(i := fl_now x + kp_ttl (K i)) else fl_grant x)\<rparr>"

inductive fleet_step :: "('i \<Rightarrow> 's keeper) \<Rightarrow> ('i, 's) fleet \<Rightarrow> ('i, 's) fleet \<Rightarrow> bool" for K where
  pass: "fl_now x \<le> t \<Longrightarrow> fleet_step K x (x\<lparr>fl_now := t\<rparr>)"
| start: "fl_run x i \<noteq> Holding \<Longrightarrow> fleet_step K x (after_call K x i (Run_acquire (K i) io (fl_now x) (fl_store x)))"
| tick: "fl_run x i = Holding \<Longrightarrow> fleet_step K x (after_call K x i (Run_tick (K i) c io io' (fl_now x) (fl_store x)))"
| cancel: "fl_run x i = Holding \<Longrightarrow> fleet_step K x (after_call K x i (Run_done (K i) io (fl_now x) (fl_store x)))"
| crash: "fleet_step K x (x\<lparr>fl_run := (fl_run x)(i := Crashed)\<rparr>)"

text \<open>A fleet starts with no keeper holding and no claim on its bots.\<close>

definition fleet_init :: "('s \<Rightarrow> go_time \<Rightarrow> key \<Rightarrow> (key \<times> go_time) option) \<Rightarrow> ('i \<Rightarrow> 's keeper) \<Rightarrow> ('i, 's) fleet \<Rightarrow> bool" where
  "fleet_init claim K x \<longleftrightarrow> (\<forall>i. fl_run x i = Idle \<and> claim (fl_store x) (fl_now x) (kp_botKey (K i)) = None)"

inductive fleet_reach :: "('s \<Rightarrow> go_time \<Rightarrow> key \<Rightarrow> (key \<times> go_time) option) \<Rightarrow> ('i \<Rightarrow> 's keeper) \<Rightarrow> ('i, 's) fleet \<Rightarrow> bool"
  for claim K where
  init: "fleet_init claim K x \<Longrightarrow> fleet_reach claim K x"
| more: "fleet_reach claim K x \<Longrightarrow> fleet_step K x y \<Longrightarrow> fleet_reach claim K y"

inductive_cases fleet_stepE [elim!]: "fleet_step K x y"

text \<open>Every keeper uses the lease \<open>L\<close>, its TTL is in milliseconds, and the owner ids of one bot differ.\<close>

definition fleet_ok :: "'s lease_ops \<Rightarrow> ('i \<Rightarrow> 's keeper) \<Rightarrow> bool" where
  "fleet_ok L K \<longleftrightarrow>
     (\<forall>i. kp_lease (K i) = L \<and> ok_ttl (kp_ttl (K i)) \<and> kp_botKey (K i) \<noteq> [] \<and> kp_ownerID (K i) \<noteq> []) \<and>
     (\<forall>i j. kp_botKey (K i) = kp_botKey (K j) \<and> kp_ownerID (K i) = kp_ownerID (K j) \<longrightarrow> i = j)"

definition fleet_inv :: "('s \<Rightarrow> go_time \<Rightarrow> key \<Rightarrow> (key \<times> go_time) option) \<Rightarrow> ('i \<Rightarrow> 's keeper) \<Rightarrow> ('i, 's) fleet \<Rightarrow> bool" where
  "fleet_inv claim K x \<longleftrightarrow>
     (\<forall>i. fl_run x i = Holding \<and> fl_now x < fl_grant x i \<longrightarrow>
        claim (fl_store x) (fl_now x) (kp_botKey (K i)) = Some (kp_ownerID (K i), fl_grant x i)) \<and>
     (\<forall>j h e. claim (fl_store x) (fl_now x) (kp_botKey (K j)) = Some (h, e) \<longrightarrow>
        (\<exists>i. kp_botKey (K i) = kp_botKey (K j) \<and> kp_ownerID (K i) = h \<and> e \<le> fl_now x + kp_ttl (K i)))"

context lease
begin

lemma inv_pass:
  assumes "fleet_inv claim K x" "fl_now x \<le> t"
  shows "fleet_inv claim K (x\<lparr>fl_now := t\<rparr>)"
  unfolding fleet_inv_def
proof (intro conjI allI impI)
  fix i assume "fl_run (x\<lparr>fl_now := t\<rparr>) i = Holding \<and> fl_now (x\<lparr>fl_now := t\<rparr>) < fl_grant (x\<lparr>fl_now := t\<rparr>) i"
  then have h: "fl_run x i = Holding" "t < fl_grant x i" by simp_all
  then have "claim (fl_store x) (fl_now x) (kp_botKey (K i)) = Some (kp_ownerID (K i), fl_grant x i)"
    using assms by (simp add: fleet_inv_def)
  then show "claim (fl_store (x\<lparr>fl_now := t\<rparr>)) (fl_now (x\<lparr>fl_now := t\<rparr>)) (kp_botKey (K i)) = Some (kp_ownerID (K i), fl_grant (x\<lparr>fl_now := t\<rparr>) i)"
    using h claim_later [OF assms(2)] by simp
next
  fix j h e assume "claim (fl_store (x\<lparr>fl_now := t\<rparr>)) (fl_now (x\<lparr>fl_now := t\<rparr>)) (kp_botKey (K j)) = Some (h, e)"
  then have "claim (fl_store x) (fl_now x) (kp_botKey (K j)) = Some (h, e)"
    using claim_later [OF assms(2), of "fl_store x" "kp_botKey (K j)"] by (simp split: option.splits prod.splits if_splits)
  then obtain i where "kp_botKey (K i) = kp_botKey (K j)" "kp_ownerID (K i) = h" "e \<le> fl_now x + kp_ttl (K i)"
    using assms(1) unfolding fleet_inv_def by blast
  with assms(2) show "\<exists>i. kp_botKey (K i) = kp_botKey (K j) \<and> kp_ownerID (K i) = h \<and> e \<le> fl_now (x\<lparr>fl_now := t\<rparr>) + kp_ttl (K i)"
    by (intro exI [of _ i]) simp
qed

lemma inv_call:
  assumes "fleet_inv claim K x" "fleet_ok L K" "call_ok claim (K i) (fl_now x) (fl_store x) res"
  shows "fleet_inv claim K (after_call K x i res)"
proof -
  obtain s' r where res: "res = (s', r)" by fastforce
  let ?c = "claim (fl_store x) (fl_now x)" and ?c' = "claim s' (fl_now x)" and ?b = "kp_botKey (K i)"
  have other: "?c' b = ?c b" if "b \<noteq> ?b" for b using assms(3) that by (simp add: call_ok_def res)
  have foreign: "?c' = ?c" "r \<noteq> Holding" if "?c ?b = Some (h, e)" "h \<noteq> kp_ownerID (K i)" for h e
    using assms(3) that by (auto simp: call_ok_def res)
  have own: "r = Holding \<Longrightarrow> ?c' ?b = Some (kp_ownerID (K i), fl_now x + kp_ttl (K i))"
    "?c' ?b = ?c ?b \<or> ?c' ?b = None \<or> ?c' ?b = Some (kp_ownerID (K i), fl_now x + kp_ttl (K i))"
    using assms(3) by (auto simp: call_ok_def res)
  have hold: "?c' (kp_botKey (K j)) = Some (kp_ownerID (K j), fl_grant (after_call K x i res) j)"
    if "fl_run (after_call K x i res) j = Holding" "fl_now x < fl_grant (after_call K x i res) j" for j
  proof (cases "j = i")
    case True
    with that own(1) show ?thesis by (auto simp: after_call_def res)
  next
    case False
    with that have c: "?c (kp_botKey (K j)) = Some (kp_ownerID (K j), fl_grant x j)" and
      g: "fl_grant (after_call K x i res) j = fl_grant x j"
      using assms(1) by (auto simp: after_call_def res fleet_inv_def split: if_splits)
    show ?thesis
    proof (cases "kp_botKey (K j) = ?b")
      case True
      then have "kp_ownerID (K j) \<noteq> kp_ownerID (K i)" using assms(2) False by (auto simp: fleet_ok_def)
      with foreign(1) c True show ?thesis by (simp add: g)
    qed (simp add: other c g)
  qed
  have bound: "\<exists>k. kp_botKey (K k) = kp_botKey (K j) \<and> kp_ownerID (K k) = h \<and> e \<le> fl_now x + kp_ttl (K k)"
    if c: "?c' (kp_botKey (K j)) = Some (h, e)" for j h e
  proof (cases "?c (kp_botKey (K j)) = Some (h, e)")
    case True
    then show ?thesis using assms(1) by (simp add: fleet_inv_def)
  next
    case False
    with c other have "kp_botKey (K j) = ?b" by force
    with c False own(2) show ?thesis by (intro exI [of _ i]) auto
  qed
  show ?thesis using hold bound unfolding fleet_inv_def by (simp add: after_call_def res)
qed

lemma reach_inv:
  assumes "fleet_reach claim K x" "fleet_ok L K"
  shows "fleet_inv claim K x"
  using assms(1)
proof (induction rule: fleet_reach.induct)
  case (init x)
  then show ?case by (simp add: fleet_init_def fleet_inv_def)
next
  case (more x y)
  have ok: "kp_lease (K i) = L" "ok_ttl (kp_ttl (K i))" for i using assms(2) by (simp_all add: fleet_ok_def)
  note c = inv_call [OF more.IH assms(2)]
  from more.hyps(2) show ?case
  proof cases
    case (pass t)
    then show ?thesis using inv_pass [OF more.IH] by simp
  next
    case (start i io)
    show ?thesis unfolding start(1) by (rule c, rule call_acquire [OF ok])
  next
    case (tick i c' io io')
    show ?thesis unfolding tick(1) by (rule c, rule call_tick [OF ok])
  next
    case (cancel i io)
    show ?thesis unfolding cancel(1) by (rule c, rule call_done [OF ok(1)])
  next
    case (crash i)
    then show ?thesis using more.IH by (simp add: fleet_inv_def)
  qed
qed

lemma acquires_free:
  assumes "kp_lease k = L" "ok_ttl (kp_ttl k)" "kp_botKey k \<noteq> []" "kp_ownerID k \<noteq> []" "claim s t (kp_botKey k) = None"
  shows "snd (Run_acquire k Reply t s) = Holding"
  using acquire_reply [OF assms(5,2,3,4)] by (auto simp: Run_acquire_def assms(1) split: prod.splits)

lemma claim_gone: "t \<le> u \<Longrightarrow> (\<forall>h e. claim s t b = Some (h, e) \<longrightarrow> e \<le> u) \<Longrightarrow> claim s u b = None"
  using claim_later [of t u s b] by (auto split: option.splits)

lemma kept:
  assumes "fleet_ok L K" "fleet_inv claim K x" "fl_run x i = Holding" "fl_now x < fl_grant x i"
  shows "snd (Run_tick (K i) c Reply io' (fl_now x) (fl_store x)) = Holding"
proof -
  have "claim (fl_store x) (fl_now x) (kp_botKey (K i)) = Some (kp_ownerID (K i), fl_grant x i)"
    using assms(2-4) by (simp add: fleet_inv_def)
  from renew_reply [OF this, of "kp_ttl (K i)"] assms(1)
  have "snd (le_Renew L Reply (fl_now x) (kp_botKey (K i)) (kp_ownerID (K i)) (kp_ttl (K i)) (fl_store x)) = Inr True"
    by (simp add: fleet_ok_def)
  with assms(1) show ?thesis by (auto simp: Run_tick_def fleet_ok_def split: prod.splits)
qed

lemma takeover:
  assumes "fleet_ok L K" "fleet_inv claim K x" "\<forall>j. kp_botKey (K j) = kp_botKey (K i) \<longrightarrow> kp_ttl (K j) \<le> T" "0 \<le> T"
  shows "snd (Run_acquire (K i) Reply (fl_now x + T) (fl_store x)) = Holding"
proof -
  have "e \<le> fl_now x + T" if "claim (fl_store x) (fl_now x) (kp_botKey (K i)) = Some (h, e)" for h e
    using assms(2,3) that by (fastforce simp: fleet_inv_def)
  then have "claim (fl_store x) (fl_now x + T) (kp_botKey (K i)) = None"
    using assms(4) by (intro claim_gone [of "fl_now x"]) auto
  then show ?thesis using assms(1) by (intro acquires_free) (simp_all add: fleet_ok_def)
qed

lemma handover:
  assumes "fleet_ok L K" "fleet_inv claim K x" "fl_run x j = Holding" "fl_now x < fl_grant x j"
    "kp_botKey (K i) = kp_botKey (K j)" "fl_now x \<le> t"
  shows "snd (Run_acquire (K i) Reply t (fst (Run_done (K j) Reply (fl_now x) (fl_store x)))) = Holding"
proof -
  let ?s = "fst (Run_done (K j) Reply (fl_now x) (fl_store x))"
  have c: "claim (fl_store x) (fl_now x) (kp_botKey (K j)) = Some (kp_ownerID (K j), fl_grant x j)"
    using assms(2-4) by (simp add: fleet_inv_def)
  obtain s' er where r: "le_Release L Reply (fl_now x) (kp_botKey (K j)) (kp_ownerID (K j)) (fl_store x) = (s', er)" by fastforce
  have "?s = s'" using assms(1) by (simp add: Run_done_def keeper_release_def fleet_ok_def r)
  moreover have "er = None" using release_reply [of "kp_botKey (K j)" "kp_ownerID (K j)" "fl_now x" "fl_store x"] assms(1)
    by (simp add: r fleet_ok_def)
  ultimately have "claim ?s (fl_now x) (kp_botKey (K i)) = None" using release_own [OF r c] assms(5) by simp
  then have "claim ?s t (kp_botKey (K i)) = None" using assms(6) by (intro claim_gone [of "fl_now x"]) auto
  then show ?thesis using assms(1) by (intro acquires_free) (simp_all add: fleet_ok_def)
qed

end

section \<open>One poller per bot\<close>

text \<open>
  C29. Two keepers of one bot that both hold the lease before the end of their grants are the same keeper,
  in every state the fleet can reach: whatever requests are lost, answered late or sent twice, whoever
  crashes, restarts or shuts down, and however the calls interleave.
\<close>

theorem lease_exclusive:
  assumes "redis_kv R ent" "fleet_ok (BotLease R) K" "fleet_reach (bot_claim ent) K x"
    and "kp_botKey (K i) = kp_botKey (K j)"
    and "fl_run x i = Holding" "fl_now x < fl_grant x i"
    and "fl_run x j = Holding" "fl_now x < fl_grant x j"
  shows "i = j"
proof -
  have inv: "fleet_inv (bot_claim ent) K x"
    using lease.reach_inv [OF redis_kv.lease_BotLease [OF assms(1)] assms(3,2)] .
  then have "Some (kp_ownerID (K i), fl_grant x i) = Some (kp_ownerID (K j), fl_grant x j)"
    using assms(4-8) unfolding fleet_inv_def by metis
  then show ?thesis using assms(2,4) unfolding fleet_ok_def by blast
qed

text \<open>Two gateways on one bot: the first acquires, the second is refused, the first renews.\<close>

definition demo_keeper :: "bool \<Rightarrow> kv keeper" where
  "demo_keeper i = \<lparr>kp_lease = BotLease kv_redis, kp_botKey = [98, 49], kp_ownerID = (if i then [65] else [66]), kp_ttl = DefaultTTL,
     kp_renewEvery = 10000000000, kp_releaseTimeout = DefaultReleaseTimeout\<rparr>"

definition demo_fleet :: "(bool, kv) fleet" where
  "demo_fleet = \<lparr>fl_now = 0, fl_store = [], fl_run = (\<lambda>_. Idle), fl_grant = (\<lambda>_. 0)\<rparr>"

definition demo_fleet1 :: "(bool, kv) fleet" where
  "demo_fleet1 = after_call demo_keeper demo_fleet True (Run_acquire (demo_keeper True) Reply (fl_now demo_fleet) (fl_store demo_fleet))"

lemma demo_fleet_ok: "fleet_ok (BotLease kv_redis) demo_keeper"
  by (auto simp: fleet_ok_def demo_keeper_def ok_ttl_def)

lemma demo_fleet1_reach: "fleet_reach (bot_claim kv_ent) demo_keeper demo_fleet1"
proof (rule fleet_reach.more)
  show "fleet_reach (bot_claim kv_ent) demo_keeper demo_fleet"
    by (rule fleet_reach.init) (simp add: fleet_init_def demo_fleet_def bot_claim_def kv_ent_def)
  show "fleet_step demo_keeper demo_fleet demo_fleet1"
    unfolding demo_fleet1_def by (rule fleet_step.start) (simp add: demo_fleet_def)
qed

lemma demo_fleet1_holds: "fl_run demo_fleet1 True = Holding" "fl_now demo_fleet1 = 0" "fl_grant demo_fleet1 True = DefaultTTL"
  by code_simp+

theorem lease_exclusive_witness:
  "fl_run demo_fleet1 True = Holding \<and> \<not> (fl_run demo_fleet1 False = Holding \<and> fl_now demo_fleet1 < fl_grant demo_fleet1 False)"
proof -
  have "kp_botKey (demo_keeper False) = kp_botKey (demo_keeper True)" by (simp add: demo_keeper_def)
  with lease_exclusive [OF kv.redis_kv_axioms demo_fleet_ok demo_fleet1_reach, of False True] demo_fleet1_holds
  show ?thesis by auto
qed

text \<open>
  A keeper whose renewal reaches Redis and is answered before the end of its grant keeps the lease, in
  every reachable state: no other keeper can take, extend or drop its claim.
\<close>

lemma lease_kept:
  assumes "redis_kv R ent" "fleet_ok (BotLease R) K" "fleet_reach (bot_claim ent) K x"
    and "fl_run x i = Holding" "fl_now x < fl_grant x i"
  shows "snd (Run_tick (K i) c Reply io' (fl_now x) (fl_store x)) = Holding"
  using lease.kept [OF redis_kv.lease_BotLease [OF assms(1)] assms(2)
      lease.reach_inv [OF redis_kv.lease_BotLease [OF assms(1)] assms(3,2)] assms(4,5)] .

text \<open>
  C30. A bot is never stranded. From any reachable state, crashes included, once the longest TTL of its
  keepers has passed without a call, an acquisition that is answered succeeds; and after a clean
  shutdown that was answered it succeeds at once.
\<close>

theorem lease_takeover:
  assumes "redis_kv R ent" "fleet_ok (BotLease R) K" "fleet_reach (bot_claim ent) K x" "0 \<le> T"
    and "\<forall>j. kp_botKey (K j) = kp_botKey (K i) \<longrightarrow> kp_ttl (K j) \<le> T"
  shows "snd (Run_acquire (K i) Reply (fl_now x + T) (fl_store x)) = Holding \<and>
    (\<forall>j. kp_botKey (K j) = kp_botKey (K i) \<and> fl_run x j = Holding \<and> fl_now x < fl_grant x j \<longrightarrow>
       snd (Run_acquire (K i) Reply (fl_now x) (fst (Run_done (K j) Reply (fl_now x) (fl_store x)))) = Holding)"
proof -
  note L = redis_kv.lease_BotLease [OF assms(1)]
  note inv = lease.reach_inv [OF L assms(3,2)]
  show ?thesis
    using lease.takeover [OF L assms(2) inv assms(5,4)] lease.handover [OF L assms(2) inv, of _ i] by force
qed

theorem lease_takeover_witness:
  "snd (Run_acquire (demo_keeper False) Reply (0 + DefaultTTL) (fl_store demo_fleet1)) = Holding \<and>
   snd (Run_acquire (demo_keeper False) Reply 0 (fst (Run_done (demo_keeper True) Reply 0 (fl_store demo_fleet1)))) = Holding"
proof -
  have "\<forall>j. kp_botKey (demo_keeper j) = kp_botKey (demo_keeper False) \<longrightarrow> kp_ttl (demo_keeper j) \<le> DefaultTTL"
    "kp_botKey (demo_keeper True) = kp_botKey (demo_keeper False)" by (simp_all add: demo_keeper_def)
  with lease_takeover [OF kv.redis_kv_axioms demo_fleet_ok demo_fleet1_reach _ this(1)] demo_fleet1_holds show ?thesis by simp
qed

end
