(* ===== verification/Budget.thy ===== *)
theory Budget
  imports Go_Base
begin

text \<open>
  \<^verbatim>\<open>internal/domain/budget/budget.go\<close>: a city's treasury divided among the lines of its budget. The
  allocation is a map from codes to basis points, 0 where it names no share. The property is that a
  period spends no more than its budget whatever the shares say, and buys no more than each line's whole.
\<close>

datatype effect = EffectInvestigation | EffectHospitalPrice | EffectTransitFare | EffectCourseFee
  | EffectWarRepair | EffectNPCDemand | EffectDefenceFund | OtherEffect string

definition Effects :: "effect list" where
  "Effects = [EffectInvestigation, EffectHospitalPrice, EffectTransitFare, EffectCourseFee,
     EffectWarRepair, EffectNPCDemand, EffectDefenceFund]"

abbreviation BasisPoints :: int where "BasisPoints \<equiv> 10000"

record budget_line =
  bl_Code :: string
  bl_Effect :: effect
  bl_FullAt :: int
  bl_MaxBPS :: int

record budget_rules =
  br_SpendShareBPS :: int
  br_Lines :: "budget_line list"

datatype budget_error = ErrShare | ErrNoLines | ErrLineCode string | ErrLineEffect string | ErrDefenceBuys string | ErrLineBounds string

fun lines_fault :: "string list \<Rightarrow> budget_line list \<Rightarrow> budget_error option" where
  "lines_fault seen [] = None"
| "lines_fault seen (l # ls) =
     (if bl_Code l = '''' \<or> bl_Code l \<in> set seen then Some (ErrLineCode (bl_Code l))
      else if bl_Effect l \<notin> set Effects then Some (ErrLineEffect (bl_Code l))
      else if bl_Effect l = EffectDefenceFund then
        (if bl_FullAt l \<noteq> 0 \<or> bl_MaxBPS l \<noteq> 0 then Some (ErrDefenceBuys (bl_Code l)) else lines_fault (bl_Code l # seen) ls)
      else if bl_FullAt l < 1 \<or> bl_MaxBPS l < 1 \<or> bl_MaxBPS l > BasisPoints then Some (ErrLineBounds (bl_Code l))
      else lines_fault (bl_Code l # seen) ls)"

definition budget_Validate :: "budget_rules \<Rightarrow> budget_error option" where
  "budget_Validate r =
     (if br_SpendShareBPS r < 1 \<or> br_SpendShareBPS r > BasisPoints then Some ErrShare
      else if br_Lines r = [] then Some ErrNoLines
      else lines_fault [] (br_Lines r))"

record paid =
  pd_Code :: string
  pd_Effect :: effect
  pd_ShareBPS :: int
  pd_Spent :: int
  pd_EffectBPS :: int

record period =
  pe_Treasury :: int
  pe_Spendable :: int
  pe_Spent :: int
  pe_Defence :: int
  pe_Lines :: "paid list"

definition EffectOf :: "budget_line \<Rightarrow> int \<Rightarrow> int" where
  "EffectOf l spent =
     (if bl_Effect l = EffectDefenceFund \<or> spent \<le> 0 \<or> bl_FullAt l \<le> 0 then 0
      else if spent \<ge> bl_FullAt l then bl_MaxBPS l
      else quo64 (mul64 (bl_MaxBPS l) spent) (bl_FullAt l))"

fun spend_loop :: "(string \<Rightarrow> int) \<Rightarrow> budget_line list \<Rightarrow> int \<Rightarrow> period \<Rightarrow> period" where
  "spend_loop shares [] left p = p"
| "spend_loop shares (l # ls) left p =
     (let share = min (max (shares (bl_Code l)) 0) BasisPoints;
          spent = min (quo64 (mul64 (pe_Spendable p) share) BasisPoints) left;
          pd = \<lparr>pd_Code = bl_Code l, pd_Effect = bl_Effect l, pd_ShareBPS = share, pd_Spent = spent, pd_EffectBPS = EffectOf l spent\<rparr>
      in spend_loop shares ls (sub64 left spent)
           (p\<lparr>pe_Spent := add64 (pe_Spent p) spent,
              pe_Defence := (if bl_Effect l = EffectDefenceFund then add64 (pe_Defence p) spent else pe_Defence p),
              pe_Lines := pe_Lines p @ [pd]\<rparr>))"

definition Spend :: "budget_rules \<Rightarrow> int \<Rightarrow> (string \<Rightarrow> int) \<Rightarrow> period" where
  "Spend r treasury shares =
     (let t = max treasury 0; s = quo64 (mul64 t (br_SpendShareBPS r)) BasisPoints in
      spend_loop shares (br_Lines r) s \<lparr>pe_Treasury = t, pe_Spendable = s, pe_Spent = 0, pe_Defence = 0, pe_Lines = []\<rparr>)"

definition budget_Lower :: "int \<Rightarrow> int \<Rightarrow> int" where
  "budget_Lower amount effectBPS =
     (let e = min (max effectBPS 0) BasisPoints in sub64 amount (quo64 (mul64 amount e) BasisPoints))"

definition budget_Raise :: "int \<Rightarrow> int \<Rightarrow> int" where
  "budget_Raise amount effectBPS = add64 amount (quo64 (mul64 amount (max effectBPS 0)) BasisPoints)"

section \<open>Bounds\<close>

text \<open>A product with at most the whole is exact up to 922337203685477 and its share is at most the amount.\<close>

lemma bps_share:
  assumes "0 \<le> a" "a \<le> 922337203685477" "0 \<le> b" "b \<le> BasisPoints"
  shows "quo64 (mul64 a b) BasisPoints = a * b div BasisPoints" "0 \<le> a * b div BasisPoints" "a * b div BasisPoints \<le> a"
proof -
  have "a * b \<le> a * BasisPoints" "0 \<le> a * b" using assms by (auto intro: mult_left_mono)
  with assms(2) show "quo64 (mul64 a b) BasisPoints = a * b div BasisPoints" "0 \<le> a * b div BasisPoints" "a * b div BasisPoints \<le> a"
    by (simp_all add: mul64_def wrap64_nonneg quo64_nonneg div_le_iff_int)
qed

lemma EffectOf_bounds:
  assumes "0 \<le> bl_MaxBPS l" "bl_MaxBPS l \<le> BasisPoints" "spent \<le> 922337203685477"
  shows "0 \<le> EffectOf l spent" "EffectOf l spent \<le> bl_MaxBPS l"
proof -
  have "0 \<le> EffectOf l spent \<and> EffectOf l spent \<le> bl_MaxBPS l"
  proof (cases "bl_Effect l = EffectDefenceFund \<or> spent \<le> 0 \<or> bl_FullAt l \<le> 0 \<or> bl_FullAt l \<le> spent")
    case True
    with assms show ?thesis by (auto simp: EffectOf_def)
  next
    case False
    have "bl_MaxBPS l * spent \<le> BasisPoints * 922337203685477" using assms False by (intro mult_mono) auto
    moreover have "0 \<le> bl_MaxBPS l * spent" "bl_MaxBPS l * spent \<le> bl_MaxBPS l * bl_FullAt l"
      using assms False by (auto intro: mult_left_mono)
    ultimately show ?thesis using False
      by (simp add: EffectOf_def mul64_def wrap64_nonneg quo64_nonneg div_le_iff_int algebra_simps pos_imp_zdiv_nonneg_iff)
  qed
  then show "0 \<le> EffectOf l spent" "EffectOf l spent \<le> bl_MaxBPS l" by simp_all
qed

definition line_ok :: "budget_line \<Rightarrow> bool" where
  "line_ok l \<longleftrightarrow> 0 \<le> bl_MaxBPS l \<and> bl_MaxBPS l \<le> BasisPoints"

lemma lines_fault_ok: "lines_fault seen ls = None \<Longrightarrow> \<forall>l\<in>set ls. line_ok l"
  by (induction seen ls rule: lines_fault.induct) (auto simp: line_ok_def split: if_splits)

text \<open>What the loop keeps: the books of the period and what is left of its budget.\<close>

definition period_ok :: "int \<Rightarrow> period \<Rightarrow> bool" where
  "period_ok left p \<longleftrightarrow> 0 \<le> left \<and> left = pe_Spendable p - pe_Spent p \<and> 0 \<le> pe_Spent p \<and> pe_Spendable p \<le> 922337203685477 \<and>
     pe_Spent p = (\<Sum>x\<leftarrow>pe_Lines p. pd_Spent x) \<and>
     pe_Defence p = (\<Sum>x\<leftarrow>filter (\<lambda>x. pd_Effect x = EffectDefenceFund) (pe_Lines p). pd_Spent x) \<and>
     0 \<le> pe_Defence p \<and> pe_Defence p \<le> pe_Spent p \<and>
     (\<forall>x\<in>set (pe_Lines p). 0 \<le> pd_Spent x \<and> pd_Spent x * BasisPoints \<le> pe_Spendable p * pd_ShareBPS x \<and> 0 \<le> pd_EffectBPS x \<and> pd_EffectBPS x \<le> BasisPoints)"

lemma spend_loop_ok:
  assumes "period_ok left p" "\<forall>l\<in>set ls. line_ok l"
  shows "(\<exists>left'. period_ok left' (spend_loop shares ls left p)) \<and>
    pe_Treasury (spend_loop shares ls left p) = pe_Treasury p \<and> pe_Spendable (spend_loop shares ls left p) = pe_Spendable p \<and>
    map pd_Code (pe_Lines (spend_loop shares ls left p)) = map pd_Code (pe_Lines p) @ map bl_Code ls"
  using assms
proof (induction ls arbitrary: left p)
  case Nil
  then show ?case by auto
next
  case (Cons l ls)
  define share where "share = min (max (shares (bl_Code l)) 0) BasisPoints"
  define full where "full = quo64 (mul64 (pe_Spendable p) share) BasisPoints"
  define spent where "spent = min full left"
  have sh: "0 \<le> share" "share \<le> BasisPoints" by (auto simp: share_def)
  have sp: "0 \<le> pe_Spendable p" "pe_Spendable p \<le> 922337203685477" "0 \<le> left" "left = pe_Spendable p - pe_Spent p"
    using Cons.prems(1) by (auto simp: period_ok_def)
  have f: "full = pe_Spendable p * share div BasisPoints" "0 \<le> full"
    using bps_share [OF sp(1,2) sh] by (simp_all add: full_def)
  have s: "0 \<le> spent" "spent \<le> left" "spent * BasisPoints \<le> pe_Spendable p * share"
  proof -
    show "0 \<le> spent" "spent \<le> left" using f(2) sp(3) by (simp_all add: spent_def)
    have "spent \<le> pe_Spendable p * share div BasisPoints" by (simp add: spent_def f(1) [symmetric])
    then show "spent * BasisPoints \<le> pe_Spendable p * share" using le_div_iff_int [of BasisPoints spent "pe_Spendable p * share"] by simp
  qed
  have e: "0 \<le> EffectOf l spent" "EffectOf l spent \<le> BasisPoints"
    using EffectOf_bounds [of l spent] Cons.prems(2) s sp Cons.prems(1) by (auto simp: line_ok_def period_ok_def)
  let ?p = "p\<lparr>pe_Spent := pe_Spent p + spent,
      pe_Defence := (if bl_Effect l = EffectDefenceFund then pe_Defence p + spent else pe_Defence p),
      pe_Lines := pe_Lines p @ [\<lparr>pd_Code = bl_Code l, pd_Effect = bl_Effect l, pd_ShareBPS = share, pd_Spent = spent, pd_EffectBPS = EffectOf l spent\<rparr>]\<rparr>"
  have a: "sub64 left spent = left - spent" "add64 (pe_Spent p) spent = pe_Spent p + spent" "add64 (pe_Defence p) spent = pe_Defence p + spent"
    using s sp Cons.prems(1) by (auto simp: period_ok_def sub64_def add64_def wrap64_nonneg)
  have "period_ok (left - spent) ?p"
    using Cons.prems(1) s sh sp e unfolding period_ok_def by simp
  note ih = Cons.IH [OF this]
  have "spend_loop shares (l # ls) left p = spend_loop shares ls (left - spent) ?p"
    by (simp only: spend_loop.simps Let_def share_def [symmetric] full_def [symmetric] spent_def [symmetric] a)
  with ih Cons.prems(2) show ?case by simp
qed

text \<open>
  A period never spends more than its budget, nor the budget more than the treasury, whatever shares
  the allocation names (more than the whole together, negative or for no line). Its books add up: the
  total is what its lines were paid, the defence part what its defence lines were paid; no line is paid
  more than its share or buys more than the whole, and every line of the rules is in the period.
\<close>

lemma Spend_bounded:
  fixes shares :: "string \<Rightarrow> int"
  assumes "budget_Validate r = None" "treasury \<le> 922337203685477"
  defines "p \<equiv> Spend r treasury shares"
  shows "0 \<le> pe_Spent p \<and> pe_Spent p \<le> pe_Spendable p \<and> pe_Spendable p \<le> max treasury 0 \<and>
    pe_Spent p = (\<Sum>x\<leftarrow>pe_Lines p. pd_Spent x) \<and>
    pe_Defence p = (\<Sum>x\<leftarrow>filter (\<lambda>x. pd_Effect x = EffectDefenceFund) (pe_Lines p). pd_Spent x) \<and>
    (\<forall>x\<in>set (pe_Lines p). 0 \<le> pd_Spent x \<and> pd_Spent x * BasisPoints \<le> pe_Spendable p * pd_ShareBPS x \<and>
       0 \<le> pd_EffectBPS x \<and> pd_EffectBPS x \<le> BasisPoints) \<and>
    map pd_Code (pe_Lines p) = map bl_Code (br_Lines r)"
proof -
  let ?t = "max treasury 0"
  have s: "1 \<le> br_SpendShareBPS r" "br_SpendShareBPS r \<le> BasisPoints" and l: "lines_fault [] (br_Lines r) = None"
    using assms(1) by (auto simp: budget_Validate_def split: if_splits)
  define b where "b = quo64 (mul64 ?t (br_SpendShareBPS r)) BasisPoints"
  have b: "0 \<le> b" "b \<le> ?t" using bps_share [of ?t "br_SpendShareBPS r"] s assms(2) by (auto simp: b_def)
  have ok: "period_ok b \<lparr>pe_Treasury = ?t, pe_Spendable = b, pe_Spent = 0, pe_Defence = 0, pe_Lines = []\<rparr>"
    using b assms(2) by (simp add: period_ok_def)
  have p: "p = spend_loop shares (br_Lines r) b \<lparr>pe_Treasury = ?t, pe_Spendable = b, pe_Spent = 0, pe_Defence = 0, pe_Lines = []\<rparr>"
    by (simp add: p_def Spend_def b_def Let_def)
  note q = spend_loop_ok [OF ok lines_fault_ok [OF l], of shares, folded p]
  then obtain left' where e: "period_ok left' p" by blast
  have sp: "pe_Spendable p = b" and codes: "map pd_Code (pe_Lines p) = map bl_Code (br_Lines r)" using q by simp_all
  show ?thesis
  proof (intro conjI)
    show "pe_Spent p \<le> pe_Spendable p" "pe_Spendable p \<le> max treasury 0" "0 \<le> pe_Spent p"
      using e b unfolding period_ok_def sp by linarith+
  qed (use e codes in \<open>unfold period_ok_def, blast+\<close>)
qed

definition demo_budget :: budget_rules where
  "demo_budget = \<lparr>br_SpendShareBPS = 2000, br_Lines =
     [\<lparr>bl_Code = ''police'', bl_Effect = EffectInvestigation, bl_FullAt = 5000, bl_MaxBPS = 3000\<rparr>,
      \<lparr>bl_Code = ''defence'', bl_Effect = EffectDefenceFund, bl_FullAt = 0, bl_MaxBPS = 0\<rparr>]\<rparr>"

lemma budget_Lower_bounds:
  assumes "0 \<le> a" "a \<le> 922337203685477"
  shows "0 \<le> budget_Lower a e \<and> budget_Lower a e \<le> a"
proof -
  define b where "b = min (max e 0) BasisPoints"
  have b: "0 \<le> b" "b \<le> BasisPoints" by (auto simp: b_def)
  define q where "q = quo64 (mul64 a b) BasisPoints"
  have q: "0 \<le> q" "q \<le> a" using bps_share [OF assms b] by (simp_all only: q_def)
  have "budget_Lower a e = sub64 a q" by (simp add: budget_Lower_def q_def b_def Let_def)
  with q assms show ?thesis by (simp add: sub64_def wrap64_nonneg)
qed

end
