(* ===== verification/Idempotency.thy ===== *)
theory Idempotency
  imports Go_Base "HOL-Library.Word"
begin

text \<open>
  \<^verbatim>\<open>internal/shared/idempotency/idempotency.go\<close>: the key of a command. A Go string is its bytes; the hash
  of the standard library is the argument \<open>sha256\<close>. The lemmas show that the encoding of a length and
  the hex text of a digest can be read back; the property is that the key tells any two triples apart
  unless the hash itself collides.
\<close>

type_synonym byte = "8 word"

definition PutUint64 :: "64 word \<Rightarrow> byte list" where
  "PutUint64 v = map (\<lambda>i. ucast (drop_bit (56 - 8 * i) v)) [0..<8]"

definition writeField :: "byte list \<Rightarrow> byte list \<Rightarrow> byte list" where
  "writeField h field = h @ PutUint64 (of_nat (length field)) @ field"

definition hex_digits :: string where
  "hex_digits = ''0123456789abcdef''"

definition hex_byte :: "byte \<Rightarrow> string" where
  "hex_byte b = [hex_digits ! (unat b div 16), hex_digits ! (unat b mod 16)]"

definition EncodeToString :: "byte list \<Rightarrow> string" where
  "EncodeToString bs = concat (map hex_byte bs)"

definition hash_input :: "byte list \<Rightarrow> byte list \<Rightarrow> byte list \<Rightarrow> byte list" where
  "hash_input playerID requestID idempotencyKey = writeField (writeField (writeField [] playerID) requestID) idempotencyKey"

definition Derive :: "(byte list \<Rightarrow> byte list) \<Rightarrow> byte list \<Rightarrow> byte list \<Rightarrow> byte list \<Rightarrow> string" where
  "Derive sha256 playerID requestID idempotencyKey = EncodeToString (sha256 (hash_input playerID requestID idempotencyKey))"

definition Key_IsZero :: "string \<Rightarrow> bool" where
  "Key_IsZero k \<longleftrightarrow> k = ''''"

section \<open>Reading back\<close>

lemma length_PutUint64 [simp]: "length (PutUint64 v) = 8"
  by (simp add: PutUint64_def)

lemma PutUint64_inj: "PutUint64 v = PutUint64 w \<Longrightarrow> v = w"
proof (rule bit_word_eqI)
  fix n assume e: "PutUint64 v = PutUint64 w" and n: "n < LENGTH(64)"
  let ?i = "7 - n div 8"
  have d: "56 - 8 * ?i = 8 * (n div 8)" using n by simp
  have u: "[0..<8] ! ?i = ?i" using nth_upt [of 0 ?i 8] by (simp del: upt_Suc upt_rec_numeral)
  have "PutUint64 x ! ?i = ucast (drop_bit (8 * (n div 8)) x)" for x
  proof -
    have "?i < length [0..<8]" by simp
    then have "PutUint64 x ! ?i = ucast (drop_bit (56 - 8 * ([0..<8] ! ?i)) x)"
      unfolding PutUint64_def by (rule nth_map)
    then show ?thesis by (simp only: u d)
  qed
  with e have "(ucast (drop_bit (8 * (n div 8)) v) :: byte) = ucast (drop_bit (8 * (n div 8)) w)" by metis
  then have "bit (ucast (drop_bit (8 * (n div 8)) v) :: byte) (n mod 8) = bit (ucast (drop_bit (8 * (n div 8)) w) :: byte) (n mod 8)" by simp
  then show "bit v n = bit w n" by (simp add: bit_ucast_iff bit_drop_bit_eq)
qed

lemma length_field_inj:
  assumes "PutUint64 (of_nat (length f)) @ f @ r = PutUint64 (of_nat (length g)) @ g @ r'" "length f < 2 ^ 64" "length g < 2 ^ 64"
  shows "f = g \<and> r = r'"
proof -
  have "(of_nat (length f) :: 64 word) = of_nat (length g)" and e: "f @ r = g @ r'" using assms(1) by (auto dest: PutUint64_inj)
  then have "unat (of_nat (length f) :: 64 word) = unat (of_nat (length g) :: 64 word)" by simp
  then have "length f = length g" using assms(2,3) by (simp add: unat_of_nat)
  with e show ?thesis by simp
qed

lemma hash_input_inj:
  assumes "hash_input a b c = hash_input a' b' c'"
    and "length a < 2 ^ 64" "length b < 2 ^ 64" "length c < 2 ^ 64" "length a' < 2 ^ 64" "length b' < 2 ^ 64" "length c' < 2 ^ 64"
  shows "a = a' \<and> b = b' \<and> c = c'"
proof -
  note d = assms(1) [unfolded hash_input_def writeField_def append_assoc append_Nil]
  from length_field_inj [OF d assms(2,5)] have a: "a = a'"
    and r: "PutUint64 (of_nat (length b)) @ b @ PutUint64 (of_nat (length c)) @ c = PutUint64 (of_nat (length b')) @ b' @ PutUint64 (of_nat (length c')) @ c'" by simp_all
  from length_field_inj [OF r assms(3,6)] have b: "b = b'"
    and r2: "PutUint64 (of_nat (length c)) @ c @ [] = PutUint64 (of_nat (length c')) @ c' @ []" by simp_all
  from length_field_inj [OF r2 assms(4,7)] a b show ?thesis by simp
qed

lemma hex_digits_inj: "i < 16 \<Longrightarrow> j < 16 \<Longrightarrow> hex_digits ! i = hex_digits ! j \<Longrightarrow> i = j"
proof -
  have "distinct hex_digits" "length hex_digits = 16" by code_simp+
  then show "i < 16 \<Longrightarrow> j < 16 \<Longrightarrow> hex_digits ! i = hex_digits ! j \<Longrightarrow> i = j" by (simp add: nth_eq_iff_index_eq)
qed

lemma hex_byte_inj: "hex_byte b = hex_byte c \<Longrightarrow> b = c"
proof -
  assume e: "hex_byte b = hex_byte c"
  have "unat x div 16 < 16" for x :: byte
  proof -
    have "unat x < 2 ^ LENGTH(8)" by (rule unsigned_less)
    then show ?thesis by simp
  qed
  then have "unat b div 16 = unat c div 16" "unat b mod 16 = unat c mod 16"
    using e by (auto simp: hex_byte_def intro: hex_digits_inj)
  then have "unat b = unat c" by (metis mod_mult_div_eq)
  then show "b = c" by (rule word_eq_iff_unsigned [THEN iffD2])
qed

lemma EncodeToString_inj: "EncodeToString bs = EncodeToString cs \<Longrightarrow> bs = cs"
proof (induction bs arbitrary: cs)
  case Nil
  then show ?case by (cases cs) (simp_all add: EncodeToString_def hex_byte_def)
next
  case (Cons b bs)
  then obtain c cs' where cs: "cs = c # cs'" by (cases cs) (simp_all add: EncodeToString_def hex_byte_def)
  from Cons.prems have "hex_byte b @ EncodeToString bs = hex_byte c @ EncodeToString cs'" by (simp add: EncodeToString_def cs)
  then have "hex_byte b = hex_byte c" "EncodeToString bs = EncodeToString cs'" by (simp_all add: hex_byte_def)
  with Cons.IH hex_byte_inj show ?case by (simp add: cs)
qed

text \<open>
  Two commands get the same key only if they are the same triple of player, request and token, or the
  hash collides on two different inputs: no field can be shifted into its neighbour.
\<close>

lemma Derive_separates:
  assumes "Derive sha256 a b c = Derive sha256 a' b' c'"
    and "length a < 2 ^ 64" "length b < 2 ^ 64" "length c < 2 ^ 64" "length a' < 2 ^ 64" "length b' < 2 ^ 64" "length c' < 2 ^ 64"
  shows "(a, b, c) = (a', b', c') \<or>
    (\<exists>x y. x = hash_input a b c \<and> y = hash_input a' b' c' \<and> x \<noteq> y \<and> sha256 x = sha256 y)"
proof -
  have "sha256 (hash_input a b c) = sha256 (hash_input a' b' c')"
    using assms(1) by (simp add: Derive_def EncodeToString_inj)
  with hash_input_inj [OF _ assms(2-)] show ?thesis by blast
qed

lemma length_EncodeToString: "length (EncodeToString bs) = 2 * length bs"
  by (induction bs) (simp_all add: EncodeToString_def hex_byte_def)

lemma Derive_length: "length (sha256 (hash_input a b c)) = 32 \<Longrightarrow> length (Derive sha256 a b c) = 64"
  by (simp add: Derive_def length_EncodeToString)

end
