(* ===== verification/Ledger_Reasons.thy ===== *)
theory Ledger_Reasons
  imports Go_Base
begin

text \<open>
  The closed set of reasons for which money may move: the map literal of
  \<^verbatim>\<open>internal/application/ports_ledger.go\<close> and what the \<open>init\<close> functions of the package add to it. A reason is
  its Go string.
\<close>

type_synonym reason = string

definition knownReasons_literal :: "reason list" where
  "knownReasons_literal = [
    ''lodging_fee'', ''bank_capital'', ''loan_disbursement'', ''loan_repayment'', ''loan_interest'',
    ''loan_penalty'', ''loan_recovery'', ''savings_deposit'', ''savings_withdrawal'', ''savings_interest'',
    ''insurance_premium'', ''insurance_claim'', ''listing_fee'', ''share_escrow'', ''share_release'',
    ''share_trade'', ''dividend'', ''gold_purchase'', ''gold_sale'', ''recruitment_ad'', ''specialist_signing'',
    ''specialist_relocation'', ''specialist_salary'', ''specialist_equity'', ''budget_spending'',
    ''defence_contribution'', ''property_purchase'', ''property_sale'', ''property_tax'', ''property_upkeep'',
    ''rent'', ''border_tariff'', ''fuel'', ''vehicle_repair'', ''military_wage'', ''npc_purchase'',
    ''mission_reward'', ''event_reward'', ''achievement_reward'', ''base_employer_salary'', ''admin_grant'',
    ''starting_grant'', ''tax'', ''cost_of_living'', ''maintenance'', ''market_fee'', ''service_fee'', ''logistics'',
    ''travel_fare'', ''house_edge'', ''penalty'', ''bank_deposit'', ''bank_withdrawal'', ''bank_fee'',
    ''cash_payment'', ''card_payment'', ''transit_fare'', ''income_tax'', ''crime_proceeds'', ''theft'',
    ''restitution'', ''crime_fine'', ''report_fee'', ''bail'', ''shop_purchase'', ''sales_tax'', ''shop_buyback'',
    ''market_escrow'', ''market_release'', ''market_trade'', ''auction_bid'', ''auction_refund'', ''auction_sale'',
    ''election_deposit'', ''election_refund'', ''election_forfeit'', ''company_registration'', ''company_deposit'',
    ''company_withdrawal'', ''corporate_tax'', ''company_wage'', ''citizen_wage'', ''research'',
    ''supplier_purchase'', ''technology_license'', ''company_sale'', ''design_improvement'', ''national_levy'',
    ''defence_appropriation'', ''arms_procurement'', ''military_upkeep'', ''war_levy'', ''military_repair'',
    ''hospital_fee'', ''treatment_fee'', ''faction_registration'', ''faction_deposit'', ''faction_withdrawal'',
    ''payment_hold'', ''payment_release'', ''payment_return'', ''settlement_construction'', ''settlement_salvage'',
    ''settlement_grant'', ''settlement_donation'', ''settlement_topup'', ''settlement_lot_sale'',
    ''settlement_permit_fee'', ''citizen_construction'', ''citizen_materials'', ''settlement_property_tax'',
    ''settlement_lot_road'', ''settlement_lot_refund'', ''settlement_material_purchase'', ''settlement_wage'',
    ''labor_escrow'', ''labor_wage'', ''labor_wage_npc'', ''shopkeeper_wage'', ''bag_repair'', ''charter_fee'',
    ''reserve_deposit'', ''currency_mint'', ''local_wage'', ''local_payment'', ''fx_desk_sup'', ''fx_desk_local'',
    ''local_transfer'', ''currency_burn'', ''fx_escrow'', ''fx_release'', ''fx_trade_sup'', ''fx_trade_vc'',
    ''intervention_buy'', ''reserve_release'', ''wind_down_claim'', ''course_fee'', ''tuition'', ''teacher_wage'',
    ''teacher_wage_npc'', ''training_fee'', ''trainer_wage'', ''use_change_fee'', ''parcel_change_fee'',
    ''zone_open_fee'', ''settlement_claim'', ''foundation_works'', ''claim_upkeep'']"

definition reasons_levy :: "reason list" where
  "reasons_levy = [
    ''levy_refund'']"

definition reasons_apprentice :: "reason list" where
  "reasons_apprentice = [
    ''apprentice_fee'', ''apprentice_refund'']"

definition reasons_household :: "reason list" where
  "reasons_household = [
    ''household_welcome'', ''household_purchase'', ''household_income_tax'', ''household_rent'', ''household_depart'']"

definition reasons_land :: "reason list" where
  "reasons_land = [
    ''clearing_fee'']"

definition reasons_law :: "reason list" where
  "reasons_law = [
    ''court_fee'', ''court_fee_refund'', ''appeal_fee'', ''appeal_refund'', ''fine_verdict'', ''fine_refund'',
    ''restitution_verdict'', ''forfeiture'', ''forfeiture_police_share'', ''bribe'', ''bribe_forfeit'',
    ''informant_pay'', ''informant_retaliation'', ''jail_food'', ''defender_fee'', ''audit_fee'',
    ''black_listing_fee'', ''escrow_hold'', ''black_trade'', ''escrow_fee'', ''escrow_refund'', ''escrow_scam'',
    ''launder'', ''launder_fee'', ''customs_duty'', ''customs_penalty'']"

definition reasons_mining :: "reason list" where
  "reasons_mining = [
    ''survey_fee'', ''mine_works_wage'', ''rail_works_wage'', ''freight_fee'', ''freight_escrow'', ''track_fee'',
    ''road_toll'', ''team_purchase'', ''carter_wage'']"

definition reasons_polity :: "reason list" where
  "reasons_polity = [
    ''union_registration_fee'', ''union_dues'', ''union_exit_settlement'', ''union_dissolution_payout'',
    ''tender_fee'', ''works_escrow_fund'', ''works_bond_post'', ''works_bond_return'', ''works_bond_forfeit'',
    ''works_escrow_refund'', ''works_milestone'', ''works_retention_release'', ''sovereign_loan_disbursement'',
    ''sovereign_loan_repayment'', ''sovereign_loan_interest'', ''sovereign_loan_penalty'']"

definition reasons_raid :: "reason list" where
  "reasons_raid = [
    ''raid_fee'', ''raid_wage'', ''raid_tribute'', ''raid_loot_cash'', ''death_cash_transfer'', ''insurance_surplus'']"

definition reasons_research :: "reason list" where
  "reasons_research = [
    ''scholar_wage'', ''scholar_wage_npc'']"

definition reasons_serviceday :: "reason list" where
  "reasons_serviceday = [
    ''service_wage'']"

definition reasons_special :: "reason list" where
  "reasons_special = [
    ''project_fee'', ''project_fund_allocation'', ''project_pledge'', ''project_pledge_refund'',
    ''project_stage_pay'', ''intel_op_fee'', ''intel_agent_wage'', ''sabotage_cost'', ''licence_issue_fee'',
    ''licence_auction_escrow'', ''licence_auction_refund'', ''licence_auction_award'', ''licence_transfer'',
    ''licence_transfer_fee'', ''licence_renewal'', ''licence_revoke_refund'', ''licence_listing_fee'',
    ''licence_application_hold'']"

definition reasons_stallkeeper :: "reason list" where
  "reasons_stallkeeper = [
    ''stall_keeper_wage'', ''stall_keeper_day_wage'']"

definition reasons_trade :: "reason list" where
  "reasons_trade = [
    ''export_sale'', ''market_clerk_wage'']"

definition reasons_vmarket :: "reason list" where
  "reasons_vmarket = [
    ''village_market_listing_fee'', ''village_market_dues'']"

definition reasons_vstorage :: "reason list" where
  "reasons_vstorage = [
    ''storekeeper_wage'']"

definition knownReasons :: "reason list" where
  "knownReasons = knownReasons_literal @ reasons_levy @
    reasons_apprentice @
    reasons_household @
    reasons_land @
    reasons_law @
    reasons_mining @
    reasons_polity @
    reasons_raid @
    reasons_research @
    reasons_serviceday @
    reasons_special @
    reasons_stallkeeper @
    reasons_trade @
    reasons_vmarket @
    reasons_vstorage"

definition Reason_Known :: "reason \<Rightarrow> bool" where
  "Reason_Known r \<longleftrightarrow> r \<in> set knownReasons"

text \<open>\<open>Reasons\<close> is the set, sorted.\<close>

definition Reasons :: "reason list" where
  "Reasons = sort (remdups knownReasons)"

lemma Reasons_known: "set Reasons = Collect Reason_Known" "distinct Reasons" "sorted Reasons"
  by (auto simp: Reasons_def Reason_Known_def)

lemma known_literal: "r \<in> set knownReasons_literal \<Longrightarrow> Reason_Known r"
  by (simp add: Reason_Known_def knownReasons_def)

end
