(* ===== verification/Ledger.thy ===== *)
theory Ledger
  imports Ledger_Reasons Money
begin

text \<open>
  The double-entry ledger: the port of \<^verbatim>\<open>internal/application/ports_ledger.go\<close> and its PostgreSQL repository
  \<^verbatim>\<open>internal/infrastructure/postgres/ledger.go\<close>. The state is the rows of \<open>accounts\<close>, \<open>ledger_entries\<close> and
  \<open>reward_grants\<close>, with what the repository reads of the other tables: which owners and currencies exist.
  Each SQL statement of the file is a definition over the rows, with the constraints of
  \<^verbatim>\<open>migrations/0006_ledger.up.sql\<close>, \<^verbatim>\<open>0047\<close> and \<^verbatim>\<open>0130\<close> that it meets: the check of the balance, the range of
  \<open>bigint\<close> and the unique keys of an account. The environment \<open>env\<close> holds what the code takes from outside:
  how PostgreSQL reads the text of a uuid, a fresh id and the clock. An operation inside \<open>inTx\<close> returns
  the rows as they were when it fails. The id column of an entry, random and read by nothing, is left out.
\<close>

section \<open>Accounts\<close>

datatype account_kind =
    AccountPlayerCash | AccountPlayerBank | AccountCompanyTreasury | AccountFactionTreasury | AccountCityTreasury
  | AccountSystemSink | AccountSystemSource | AccountPlayerEscrow | AccountStateTreasury | AccountDefenceFund
  | AccountNationalBank | AccountInsuranceFund | AccountPlayerSavings | AccountForeignHolding | AccountReservePot
  | AccountFXEscrow | AccountHouseholdWallet | AccountWorksEscrow | AccountProjectFund | AccountProjectEscrow
  | AccountLicenceEscrow | AccountPlayerDirty | AccountEscrowBlack | AccountPolicePurse | OtherAccount string

definition kind_Valid :: "account_kind \<Rightarrow> bool" where
  "kind_Valid k = (case k of OtherAccount _ \<Rightarrow> False | _ \<Rightarrow> True)"

definition IsSystem :: "account_kind \<Rightarrow> bool" where
  "IsSystem k \<longleftrightarrow> k = AccountSystemSink \<or> k = AccountSystemSource"

definition MultiCurrency :: "account_kind \<Rightarrow> bool" where
  "MultiCurrency k \<longleftrightarrow> IsSystem k \<or> k = AccountForeignHolding \<or> k = AccountFXEscrow"

definition DefaultCurrency :: string where "DefaultCurrency = ''SUP''"

datatype ledger_error = ErrUnbalancedTransaction | ErrUnknownReason | ErrInvalidLedgerTransaction | ErrUnknownCurrency
  | ErrCurrencyNotAllowed | ErrMixedCurrencies | ErrUnknownAccountKind | ErrAccountNotFound | ErrAccountOwnerNotFound
  | ErrInsufficientFunds | ErrPlayerNotFound | ErrPostgres

record account =
  ac_ID :: string
  ac_Kind :: account_kind
  ac_OwnerID :: string
  ac_Currency :: string
  ac_Balance :: int

section \<open>Transactions\<close>

record ledger_leg =
  leg_AccountID :: string
  leg_Amount :: amount

record ledger_tx =
  lt_ID :: string
  lt_Reason :: reason
  lt_ReferenceType :: string
  lt_ReferenceID :: string
  lt_Entries :: "ledger_leg list"
  lt_CreatedAt :: go_time

fun entries_fault :: "ledger_leg list \<Rightarrow> ledger_error option" where
  "entries_fault [] = None"
| "entries_fault (e # es) =
     (if leg_AccountID e = '''' then Some ErrInvalidLedgerTransaction
      else if Amount_IsZero (leg_Amount e) then Some ErrInvalidLedgerTransaction
      else entries_fault es)"

definition ledger_Validate :: "ledger_tx \<Rightarrow> ledger_error option" where
  "ledger_Validate t =
     (if \<not> Reason_Known (lt_Reason t) then Some ErrUnknownReason
      else if length (lt_Entries t) < 2 then Some ErrUnbalancedTransaction
      else if (lt_ReferenceType t = '''') \<noteq> (lt_ReferenceID t = '''') then Some ErrInvalidLedgerTransaction
      else case entries_fault (lt_Entries t) of
        Some e \<Rightarrow> Some e
      | None \<Rightarrow>
          (case Amount_Sum (map leg_Amount (lt_Entries t)) of
             Inl _ \<Rightarrow> Some ErrUnbalancedTransaction
           | Inr tot \<Rightarrow> if \<not> Amount_IsZero tot then Some ErrUnbalancedTransaction else None))"

section \<open>The rows\<close>

record entry_row =
  er_TransactionID :: string
  er_AccountID :: string
  er_Amount :: int
  er_Currency :: string
  er_Reason :: reason
  er_ReferenceType :: string
  er_ReferenceID :: string
  er_CreatedAt :: go_time

datatype reward_source = RewardMission | RewardEvent | RewardAchievement | RewardAdmin | RewardStartingGrant

record reward_grant =
  rg_ID :: string
  rg_PlayerID :: string
  rg_Source :: reward_source
  rg_SourceReferenceID :: string
  rg_Amount :: amount
  rg_LedgerTransactionID :: string
  rg_GrantedBy :: string
  rg_CreatedAt :: go_time

record ledger_db =
  db_accounts :: "account list"
  db_entries :: "entry_row list"
  db_grants :: "reward_grant list"
  db_currencies :: "string list"
  db_owner :: "account_kind \<Rightarrow> string \<Rightarrow> bool"

record ledger_env =
  env_uuid :: "string \<Rightarrow> string option"
  env_newID :: string
  env_now :: go_time

definition ensureID :: "ledger_env \<Rightarrow> string \<Rightarrow> string" where
  "ensureID env i = (if i \<noteq> '''' then i else env_newID env)"

section \<open>Post\<close>

text \<open>The scan of the locked rows, in id order: the currency so far and how many rows.\<close>

fun lock_rows :: "account list \<Rightarrow> string \<Rightarrow> nat \<Rightarrow> (string \<times> nat) option" where
  "lock_rows [] currency found = Some (currency, found)"
| "lock_rows (a # rows) currency found =
     (if found > 0 \<and> ac_Currency a \<noteq> currency then None else lock_rows rows (ac_Currency a) (found + 1))"

definition lockAccountsSQL :: "ledger_env \<Rightarrow> ledger_db \<Rightarrow> string list \<Rightarrow> account list option" where
  "lockAccountsSQL env db ids =
     (if \<exists>i\<in>set ids. env_uuid env i = None then None
      else Some (sort_by (\<lambda>a b. ac_ID a < ac_ID b)
             (filter (\<lambda>a. \<exists>i\<in>set ids. env_uuid env i = Some (ac_ID a)) (db_accounts db))))"

definition lockAccounts :: "ledger_env \<Rightarrow> ledger_db \<Rightarrow> string list \<Rightarrow> ledger_error + string" where
  "lockAccounts env db ids =
     (case lockAccountsSQL env db ids of
        None \<Rightarrow> Inl ErrAccountNotFound
      | Some rows \<Rightarrow>
          (case lock_rows rows '''' 0 of
             None \<Rightarrow> Inl ErrMixedCurrencies
           | Some (currency, found) \<Rightarrow> if found \<noteq> length ids then Inl ErrAccountNotFound else Inr currency))"

definition delta :: "entry_row list \<Rightarrow> string \<Rightarrow> int" where
  "delta es a = (\<Sum>e\<leftarrow>filter (\<lambda>e. er_AccountID e = a) es. er_Amount e)"

definition leg_row :: "ledger_env \<Rightarrow> ledger_tx \<Rightarrow> string \<Rightarrow> string \<Rightarrow> ledger_leg \<Rightarrow> entry_row" where
  "leg_row env t txID currency e =
     \<lparr>er_TransactionID = txID, er_AccountID = the (env_uuid env (leg_AccountID e)), er_Amount = Minor (leg_Amount e),
      er_Currency = currency, er_Reason = lt_Reason t, er_ReferenceType = lt_ReferenceType t, er_ReferenceID = lt_ReferenceID t,
      er_CreatedAt = (if time_IsZero (lt_CreatedAt t) then env_now env else lt_CreatedAt t)\<rparr>"

text \<open>The statement: the inserted legs, the sums that fit in \<open>bigint\<close>, the check of the balances; it
  returns the rows and how many balances it moved.\<close>

definition postSQL :: "ledger_env \<Rightarrow> ledger_db \<Rightarrow> ledger_tx \<Rightarrow> string \<Rightarrow> string \<Rightarrow> ledger_error + ledger_db \<times> nat" where
  "postSQL env db t txID currency =
     (if env_uuid env txID = None \<or> lt_ReferenceType t \<noteq> '''' \<and> env_uuid env (lt_ReferenceID t) = None
      then Inl ErrAccountNotFound
      else
        let legs = map (leg_row env t txID currency) (lt_Entries t);
            touched = filter (\<lambda>a. \<exists>l\<in>set legs. er_AccountID l = ac_ID a) (db_accounts db);
            moved = (\<lambda>a. ac_Balance a + delta legs (ac_ID a)) in
        if \<exists>a\<in>set touched. \<not> in64 (delta legs (ac_ID a)) \<or> \<not> in64 (moved a) then Inl ErrPostgres
        else if \<exists>a\<in>set touched. \<not> (ac_Kind a = AccountSystemSource \<or> moved a \<ge> 0) then Inl ErrInsufficientFunds
        else Inr (db\<lparr>db_accounts := map (\<lambda>a. if a \<in> set touched then a\<lparr>ac_Balance := moved a\<rparr> else a) (db_accounts db),
                     db_entries := db_entries db @ legs\<rparr>, length touched))"

definition Post :: "ledger_env \<Rightarrow> ledger_db \<Rightarrow> ledger_tx \<Rightarrow> ledger_db \<times> (ledger_error + string)" where
  "Post env db t =
     (case ledger_Validate t of
        Some e \<Rightarrow> (db, Inl e)
      | None \<Rightarrow>
          let txID = ensureID env (lt_ID t);
              toLock = sort (remdups (map leg_AccountID (lt_Entries t))) in
          (case lockAccounts env db toLock of
             Inl e \<Rightarrow> (db, Inl e)
           | Inr currency \<Rightarrow>
               (case postSQL env db t txID currency of
                  Inl e \<Rightarrow> (db, Inl e)
                | Inr (db', affected) \<Rightarrow> if affected \<noteq> length toLock then (db, Inl ErrPostgres) else (db', Inr txID))))"

section \<open>Opening an account\<close>

definition find_account :: "ledger_db \<Rightarrow> account_kind \<Rightarrow> string \<Rightarrow> string \<Rightarrow> account option" where
  "find_account db k owner currency =
     find (\<lambda>a. ac_Kind a = k \<and> ac_OwnerID a = owner \<and> ac_Currency a = currency) (db_accounts db)"

text \<open>\<open>INSERT ... ON CONFLICT DO NOTHING\<close>: nothing is written where a unique key already has the row.\<close>

definition account_conflict :: "account \<Rightarrow> account \<Rightarrow> bool" where
  "account_conflict a b \<longleftrightarrow> ac_ID a = ac_ID b \<or>
     ac_Kind a = ac_Kind b \<and> ac_OwnerID a = ac_OwnerID b \<and> (ac_Currency a = ac_Currency b \<or> \<not> MultiCurrency (ac_Kind a))"

definition insert_account :: "ledger_db \<Rightarrow> account \<Rightarrow> ledger_db" where
  "insert_account db a =
     (if \<exists>b\<in>set (db_accounts db). account_conflict a b then db else db\<lparr>db_accounts := db_accounts db @ [a]\<rparr>)"

definition notFoundOwner :: "account_kind \<Rightarrow> ledger_error" where
  "notFoundOwner k =
     (if k \<in> {AccountPlayerCash, AccountPlayerBank, AccountPlayerEscrow, AccountPlayerSavings} then ErrPlayerNotFound
      else ErrAccountOwnerNotFound)"

definition explainMissing :: "ledger_db \<Rightarrow> account_kind \<Rightarrow> string \<Rightarrow> string \<Rightarrow> ledger_error" where
  "explainMissing db k owner currency =
     (if currency \<notin> set (db_currencies db) then ErrUnknownCurrency
      else if \<exists>a\<in>set (db_accounts db). ac_Kind a = k \<and> ac_OwnerID a = owner then ErrCurrencyNotAllowed
      else notFoundOwner k)"

definition AccountForCurrency :: "ledger_env \<Rightarrow> ledger_db \<Rightarrow> account_kind \<Rightarrow> string \<Rightarrow> string \<Rightarrow> ledger_db \<times> (ledger_error + account)" where
  "AccountForCurrency env db k ownerID currency =
     (if \<not> kind_Valid k then (db, Inl ErrUnknownAccountKind)
      else if currency = '''' then (db, Inl ErrUnknownCurrency)
      else if IsSystem k then
        (if ownerID \<noteq> '''' then (db, Inl ErrUnknownAccountKind)
         else
           let db' = (if currency \<in> set (db_currencies db)
                      then insert_account db \<lparr>ac_ID = env_newID env, ac_Kind = k, ac_OwnerID = '''', ac_Currency = currency, ac_Balance = 0\<rparr>
                      else db) in
           case find_account db' k '''' currency of None \<Rightarrow> (db', Inl ErrUnknownCurrency) | Some a \<Rightarrow> (db', Inr a))
      else if ownerID = '''' then (db, Inl (notFoundOwner k))
      else
        (case env_uuid env ownerID of
           None \<Rightarrow> (db, Inl (notFoundOwner k))
         | Some owner \<Rightarrow>
             let db' = (if db_owner db k owner \<and> currency \<in> set (db_currencies db)
                        then insert_account db \<lparr>ac_ID = env_newID env, ac_Kind = k, ac_OwnerID = owner, ac_Currency = currency, ac_Balance = 0\<rparr>
                        else db) in
             (case find_account db' k owner currency of
                None \<Rightarrow> (db', Inl (explainMissing db' k owner currency))
              | Some a \<Rightarrow> (db', Inr a))))"

definition AccountFor :: "ledger_env \<Rightarrow> ledger_db \<Rightarrow> account_kind \<Rightarrow> string \<Rightarrow> ledger_db \<times> (ledger_error + account)" where
  "AccountFor env db k ownerID = AccountForCurrency env db k ownerID DefaultCurrency"

definition ledger_Balance :: "ledger_env \<Rightarrow> ledger_db \<Rightarrow> string \<Rightarrow> ledger_error + amount" where
  "ledger_Balance env db accountID =
     (case env_uuid env accountID of
        None \<Rightarrow> Inl ErrAccountNotFound
      | Some i \<Rightarrow>
          (case find (\<lambda>a. ac_ID a = i) (db_accounts db) of
             None \<Rightarrow> Inl ErrAccountNotFound
           | Some a \<Rightarrow> Inr (FromMinor (ac_Balance a))))"

section \<open>Grants\<close>

text \<open>None is a grant that is not fresh. \<open>player\<close> says whether the players table has the row the foreign key names.\<close>

definition RecordGrant :: "ledger_env \<Rightarrow> string \<Rightarrow> (string \<Rightarrow> bool) \<Rightarrow> ledger_db \<Rightarrow> reward_grant \<Rightarrow> ledger_db \<times> (ledger_error + reward_grant option)" where
  "RecordGrant env newTx player db g =
     (if Amount_IsZero (rg_Amount g) \<or> Amount_IsNegative (rg_Amount g) then (db, Inl ErrInvalidLedgerTransaction)
      else
        let g' = g\<lparr>rg_ID := ensureID env (rg_ID g),
                   rg_LedgerTransactionID := (if rg_LedgerTransactionID g \<noteq> '''' then rg_LedgerTransactionID g else newTx),
                   rg_CreatedAt := (if time_IsZero (rg_CreatedAt g) then env_now env else rg_CreatedAt g)\<rparr> in
        if env_uuid env (rg_ID g') = None \<or> env_uuid env (rg_PlayerID g') = None \<or> env_uuid env (rg_LedgerTransactionID g') = None \<or>
           rg_SourceReferenceID g' \<noteq> '''' \<and> env_uuid env (rg_SourceReferenceID g') = None
        then (db, Inl ErrPlayerNotFound)
        else if rg_Source g' = RewardStartingGrant \<and>
           (\<exists>x\<in>set (db_grants db). rg_Source x = RewardStartingGrant \<and> rg_PlayerID x = the (env_uuid env (rg_PlayerID g')))
        then (db, Inr None)
        else if \<not> player (the (env_uuid env (rg_PlayerID g'))) then (db, Inl ErrPlayerNotFound)
        else (db\<lparr>db_grants := db_grants db @ [g'\<lparr>rg_PlayerID := the (env_uuid env (rg_PlayerID g'))\<rparr>]\<rparr>, Inr (Some g')))"

end
