(* ===== verification/Ledger_Spec.thy ===== *)
theory Ledger_Spec
  imports Ledger
begin

text \<open>
  What the ledger promises. The abstract ledger has no balances: it is the accounts and the journal of
  entries, and the balance of an account is the sum of its entries. \<open>ledger_abs\<close> forgets the cached
  balances; \<open>ledger_ok\<close> is the invariant of the rows. The property is that the code's \<open>Post\<close>, which
  locks, scans, and moves cached balances, is the abstract booking, and that every sequence of the
  repository's operations keeps the invariant, so no money is created or lost.
\<close>

section \<open>The abstract ledger\<close>

record ledger_abs =
  la_accounts :: "string \<Rightarrow> (account_kind \<times> string \<times> string) option"
  la_journal :: "entry_row list"

definition abs_accounts :: "account list \<Rightarrow> string \<Rightarrow> (account_kind \<times> string \<times> string) option" where
  "abs_accounts as = map_of (map (\<lambda>a. (ac_ID a, ac_Kind a, ac_OwnerID a, ac_Currency a)) as)"

definition ledger_abs :: "ledger_db \<Rightarrow> ledger_abs" where
  "ledger_abs db = \<lparr>la_accounts = abs_accounts (db_accounts db), la_journal = db_entries db\<rparr>"

definition tx_keys :: "ledger_env \<Rightarrow> ledger_tx \<Rightarrow> string set" where
  "tx_keys env t = (\<lambda>e. the (env_uuid env (leg_AccountID e))) ` set (lt_Entries t)"

definition tx_texts :: "ledger_tx \<Rightarrow> string set" where
  "tx_texts t = leg_AccountID ` set (lt_Entries t)"

definition tx_currencies :: "ledger_env \<Rightarrow> ledger_abs \<Rightarrow> ledger_tx \<Rightarrow> string set" where
  "tx_currencies env L t = {c. \<exists>i\<in>tx_keys env t. \<exists>k ow. la_accounts L i = Some (k, ow, c)}"

text \<open>Booking on the journal: refuse, or append the legs.\<close>

definition book :: "ledger_env \<Rightarrow> ledger_abs \<Rightarrow> ledger_tx \<Rightarrow> ledger_abs \<times> (ledger_error + string)" where
  "book env L t =
     (let txID = ensureID env (lt_ID t);
          legs = map (leg_row env t txID (the_elem (tx_currencies env L t))) (lt_Entries t);
          journal = la_journal L @ legs in
      case ledger_Validate t of Some e \<Rightarrow> (L, Inl e)
      | None \<Rightarrow>
          if \<exists>x\<in>tx_texts t. env_uuid env x = None then (L, Inl ErrAccountNotFound)
          else if 1 < card (tx_currencies env L t) then (L, Inl ErrMixedCurrencies)
          else if (\<exists>i\<in>tx_keys env t. la_accounts L i = None) \<or> card (tx_keys env t) \<noteq> card (tx_texts t) then (L, Inl ErrAccountNotFound)
          else if env_uuid env txID = None \<or> lt_ReferenceType t \<noteq> '''' \<and> env_uuid env (lt_ReferenceID t) = None then (L, Inl ErrAccountNotFound)
          else if \<exists>i\<in>tx_keys env t. \<not> in64 (delta legs i) \<or> \<not> in64 (delta journal i) then (L, Inl ErrPostgres)
          else if \<exists>i\<in>tx_keys env t. fst (the (la_accounts L i)) \<noteq> AccountSystemSource \<and> delta journal i < 0 then (L, Inl ErrInsufficientFunds)
          else (L\<lparr>la_journal := journal\<rparr>, Inr txID))"

section \<open>The invariant of the rows\<close>

definition balance_of :: "ledger_db \<Rightarrow> string \<Rightarrow> int" where
  "balance_of db i = (\<Sum>a\<leftarrow>filter (\<lambda>a. ac_ID a = i) (db_accounts db). ac_Balance a)"

definition currency_total :: "ledger_db \<Rightarrow> string \<Rightarrow> int" where
  "currency_total db c = (\<Sum>a\<leftarrow>filter (\<lambda>a. ac_Currency a = c) (db_accounts db). ac_Balance a)"

definition ledger_ok :: "ledger_db \<Rightarrow> bool" where
  "ledger_ok db \<longleftrightarrow>
     distinct (map ac_ID (db_accounts db)) \<and>
     (\<forall>a\<in>set (db_accounts db). ac_Balance a = delta (db_entries db) (ac_ID a) \<and> in64 (ac_Balance a) \<and>
        (ac_Kind a = AccountSystemSource \<or> 0 \<le> ac_Balance a)) \<and>
     (\<forall>e\<in>set (db_entries db). er_Amount e \<noteq> 0 \<and> (\<exists>a\<in>set (db_accounts db). ac_ID a = er_AccountID e \<and> ac_Currency a = er_Currency e)) \<and>
     (\<forall>c. currency_total db c = 0)"

lemma delta_append: "delta (es @ fs) i = delta es i + delta fs i"
  by (simp add: delta_def)

lemma sum_list_0_eq: "\<forall>x\<in>set xs. f x = 0 \<Longrightarrow> (\<Sum>x\<leftarrow>xs. f x) = (0 :: int)"
  by (induction xs) auto

lemma sum_delta:
  assumes "distinct is" "\<forall>e\<in>set es. er_AccountID e \<in> set is"
  shows "(\<Sum>i\<leftarrow>is. delta es i) = (\<Sum>e\<leftarrow>es. er_Amount e)"
  using assms(2)
proof (induction es)
  case Nil
  then show ?case by (simp add: delta_def sum_list_0)
next
  case (Cons e es)
  have "(\<Sum>i\<leftarrow>is. delta (e # es) i) = (\<Sum>i\<leftarrow>is. (if er_AccountID e = i then er_Amount e else 0) + delta es i)"
    by (rule arg_cong [where f = sum_list]) (simp add: delta_def)
  also have "\<dots> = (\<Sum>i\<leftarrow>is. if er_AccountID e = i then er_Amount e else 0) + (\<Sum>i\<leftarrow>is. delta es i)"
    by (rule sum_list_addf)
  also have "(\<Sum>i\<leftarrow>is. if er_AccountID e = i then er_Amount e else 0) = er_Amount e"
    using Cons.prems assms(1) by (simp add: sum_list_distinct_conv_sum_set)
  finally show ?case using Cons by simp
qed

lemma Validate_balanced:
  assumes "ledger_Validate t = None" "\<forall>e\<in>set (lt_Entries t). valid_amount (leg_Amount e)"
  shows "(\<Sum>e\<leftarrow>lt_Entries t. Minor (leg_Amount e)) = 0"
proof -
  obtain s where s: "Amount_Sum (map leg_Amount (lt_Entries t)) = Inr s" "Amount_IsZero s"
    using assms(1) by (auto simp: ledger_Validate_def split: option.splits sum.splits if_splits)
  have "Minor s = Minor (FromMinor 0) + (\<Sum>x\<leftarrow>map leg_Amount (lt_Entries t). Minor x) \<and> valid_amount s"
    using s(1) assms(2) unfolding Amount_Sum_def
    by (intro Amount_sum_from_exact) (auto simp: valid_amount_def in64_def list_all_iff)
  with s(2) show ?thesis by (simp add: Amount_IsZero_def comp_def)
qed

lemma entries_fault_None: "entries_fault es = None \<longleftrightarrow> (\<forall>e\<in>set es. leg_AccountID e \<noteq> '''' \<and> Minor (leg_Amount e) \<noteq> 0)"
  by (induction es) (auto simp: Amount_IsZero_def)

lemma Validate_entries:
  assumes "ledger_Validate t = None"
  shows "\<forall>e\<in>set (lt_Entries t). Minor (leg_Amount e) \<noteq> 0" "lt_Entries t \<noteq> []"
  using assms by (auto simp: ledger_Validate_def entries_fault_None split: option.splits if_splits)

section \<open>What the lock finds\<close>

lemma abs_accounts_Some:
  assumes "distinct (map ac_ID as)"
  shows "abs_accounts as i = Some (k, ow, c) \<longleftrightarrow> (\<exists>a\<in>set as. ac_ID a = i \<and> ac_Kind a = k \<and> ac_OwnerID a = ow \<and> ac_Currency a = c)"
  using assms by (auto simp: abs_accounts_def map_of_eq_Some_iff comp_def)

lemma abs_accounts_None: "abs_accounts as i = None \<longleftrightarrow> i \<notin> ac_ID ` set as"
  by (simp add: abs_accounts_def map_of_eq_None_iff image_image)

lemma lock_rows_Suc:
  "lock_rows rows c (Suc n) = (if \<forall>a\<in>set rows. ac_Currency a = c then Some (c, Suc n + length rows) else None)"
  by (induction rows arbitrary: n) auto

lemma lock_rows_0:
  "lock_rows rows c 0 =
    (case rows of [] \<Rightarrow> Some (c, 0)
     | a # _ \<Rightarrow> if \<forall>b\<in>set rows. ac_Currency b = ac_Currency a then Some (ac_Currency a, length rows) else None)"
  by (cases rows) (simp_all add: lock_rows_Suc)

definition to_lock :: "ledger_tx \<Rightarrow> string list" where
  "to_lock t = sort (remdups (map leg_AccountID (lt_Entries t)))"

definition locked :: "ledger_env \<Rightarrow> ledger_db \<Rightarrow> ledger_tx \<Rightarrow> account set" where
  "locked env db t = {a \<in> set (db_accounts db). ac_ID a \<in> tx_keys env t}"

lemma to_lock_simps: "set (to_lock t) = tx_texts t" "length (to_lock t) = card (tx_texts t)"
  by (simp_all add: to_lock_def tx_texts_def length_remdups_card_conv)

lemma keys_parsed:
  assumes "\<forall>x\<in>tx_texts t. env_uuid env x \<noteq> None"
  shows "i \<in> tx_keys env t \<longleftrightarrow> (\<exists>x\<in>tx_texts t. env_uuid env x = Some i)"
  using assms by (force simp: tx_keys_def tx_texts_def)

lemma keys_card: "card (tx_keys env t) \<le> card (tx_texts t)"
proof -
  have "tx_keys env t = (the \<circ> env_uuid env) ` tx_texts t" by (simp add: tx_keys_def tx_texts_def image_image)
  moreover have "finite (tx_texts t)" by (simp add: tx_texts_def)
  ultimately show ?thesis by (simp add: card_image_le)
qed

lemma card_locked:
  assumes "distinct (map ac_ID (db_accounts db))"
  shows "card (locked env db t) = card {i \<in> tx_keys env t. la_accounts (ledger_abs db) i \<noteq> None}"
proof -
  have "inj_on ac_ID (locked env db t)" using assms by (auto simp: locked_def distinct_map inj_on_def)
  moreover have "ac_ID ` locked env db t = {i \<in> tx_keys env t. la_accounts (ledger_abs db) i \<noteq> None}"
    unfolding locked_def ledger_abs_def by (auto simp: abs_accounts_None)
  ultimately show ?thesis by (metis card_image)
qed

lemma card_locked_full:
  assumes "distinct (map ac_ID (db_accounts db))"
  shows "card (locked env db t) \<noteq> card (tx_texts t) \<longleftrightarrow>
    (\<exists>i\<in>tx_keys env t. la_accounts (ledger_abs db) i = None) \<or> card (tx_keys env t) \<noteq> card (tx_texts t)"
proof -
  let ?A = "{i \<in> tx_keys env t. la_accounts (ledger_abs db) i \<noteq> None}"
  have f: "finite (tx_keys env t)" by (simp add: tx_keys_def)
  show ?thesis
  proof (cases "\<exists>i\<in>tx_keys env t. la_accounts (ledger_abs db) i = None")
    case True
    then obtain i where "i \<in> tx_keys env t" "i \<notin> ?A" by blast
    then have "?A \<subset> tx_keys env t" by blast
    then have "card ?A < card (tx_keys env t)" using f by (rule psubset_card_mono [rotated])
    then show ?thesis using True keys_card [of env t] by (simp add: card_locked [OF assms])
  next
    case False
    then have "?A = tx_keys env t" by (metis (mono_tags, lifting) Collect_cong Collect_mem_eq)
    then show ?thesis using False by (simp add: card_locked [OF assms] del: not_None_eq)
  qed
qed

lemma tx_currencies_locked:
  assumes "distinct (map ac_ID (db_accounts db))"
  shows "tx_currencies env (ledger_abs db) t = ac_Currency ` locked env db t"
proof -
  have "c \<in> tx_currencies env (ledger_abs db) t \<longleftrightarrow> (\<exists>a\<in>set (db_accounts db). ac_ID a \<in> tx_keys env t \<and> ac_Currency a = c)" for c
    by (auto simp: tx_currencies_def ledger_abs_def abs_accounts_Some [OF assms])
  then show ?thesis by (auto simp: locked_def)
qed

lemma card_gt_1: "finite A \<Longrightarrow> a \<in> A \<Longrightarrow> 1 < card A \<longleftrightarrow> (\<exists>x\<in>A. x \<noteq> a)"
  by (metis One_nat_def card_le_Suc0_iff_eq not_le)

lemma lockAccounts_spec:
  assumes "distinct (map ac_ID (db_accounts db))" "lt_Entries t \<noteq> []"
  shows "lockAccounts env db (to_lock t) =
    (if \<exists>x\<in>tx_texts t. env_uuid env x = None then Inl ErrAccountNotFound
     else if 1 < card (tx_currencies env (ledger_abs db) t) then Inl ErrMixedCurrencies
     else if (\<exists>i\<in>tx_keys env t. la_accounts (ledger_abs db) i = None) \<or> card (tx_keys env t) \<noteq> card (tx_texts t) then Inl ErrAccountNotFound
     else Inr (the_elem (tx_currencies env (ledger_abs db) t)))"
proof (cases "\<exists>x\<in>tx_texts t. env_uuid env x = None")
  case True
  then show ?thesis by (simp add: lockAccounts_def lockAccountsSQL_def to_lock_simps)
next
  case False
  define rows where "rows = sort_by (\<lambda>a b. ac_ID a < ac_ID b)
      (filter (\<lambda>a. \<exists>i\<in>set (to_lock t). env_uuid env i = Some (ac_ID a)) (db_accounts db))"
  have rs: "set rows = locked env db t"
    using False keys_parsed [of t env] by (auto simp: rows_def to_lock_simps locked_def)
  have "distinct (db_accounts db)" using assms(1) by (simp add: distinct_map)
  then have len: "length rows = card (locked env db t)"
    unfolding rs [symmetric] by (simp add: rows_def distinct_card flip: set_filter)
  have tc: "tx_currencies env (ledger_abs db) t = ac_Currency ` set rows" using tx_currencies_locked [OF assms(1)] rs by simp
  have sql: "lockAccountsSQL env db (to_lock t) = Some rows"
    using False by (simp add: lockAccountsSQL_def rows_def to_lock_simps)
  note full = card_locked_full [OF assms(1), of env t]
  show ?thesis
  proof (cases rows)
    case Nil
    then have "tx_currencies env (ledger_abs db) t = {}" by (simp add: tc)
    moreover have "card (tx_texts t) \<noteq> 0" using assms(2) by (simp add: tx_texts_def card_eq_0_iff)
    ultimately show ?thesis using False full len Nil
      by (auto simp: lockAccounts_def sql lock_rows_0 to_lock_simps)
  next
    case (Cons a r)
    have mixed: "1 < card (ac_Currency ` set rows) \<longleftrightarrow> \<not> (\<forall>b\<in>set rows. ac_Currency b = ac_Currency a)"
      using card_gt_1 [of "ac_Currency ` set rows" "ac_Currency a"] by (simp add: Cons)
    have one: "the_elem (ac_Currency ` set rows) = ac_Currency a" if "\<forall>b\<in>set rows. ac_Currency b = ac_Currency a"
    proof -
      have "ac_Currency ` set rows = {ac_Currency a}" using that by (auto simp: Cons)
      then show ?thesis by simp
    qed
    have lr: "lock_rows rows '''' 0 = (if \<forall>b\<in>set rows. ac_Currency b = ac_Currency a then Some (ac_Currency a, length rows) else None)"
      by (simp add: lock_rows_0 Cons)
    show ?thesis
      using False full len one mixed
      by (simp add: lockAccounts_def sql lr tc to_lock_simps del: not_None_eq)
  qed
qed

section \<open>Posting is booking\<close>

definition tx_legs :: "ledger_env \<Rightarrow> ledger_abs \<Rightarrow> ledger_tx \<Rightarrow> entry_row list" where
  "tx_legs env L t = map (leg_row env t (ensureID env (lt_ID t)) (the_elem (tx_currencies env L t))) (lt_Entries t)"

lemma legs_keys: "er_AccountID ` set (tx_legs env L t) = tx_keys env t"
  by (simp add: tx_legs_def tx_keys_def image_image leg_row_def)

lemma delta_other: "i \<notin> er_AccountID ` set es \<Longrightarrow> delta es i = 0"
  by (induction es) (auto simp: delta_def)

lemma ledger_ok_balance: "ledger_ok db \<Longrightarrow> a \<in> set (db_accounts db) \<Longrightarrow> ac_Balance a = delta (db_entries db) (ac_ID a)"
  by (simp add: ledger_ok_def)

lemma ledger_ok_range: "ledger_ok db \<Longrightarrow> a \<in> set (db_accounts db) \<Longrightarrow> in64 (ac_Balance a) \<and> (ac_Kind a = AccountSystemSource \<or> 0 \<le> ac_Balance a)"
  unfolding ledger_ok_def by blast

text \<open>The statement's moved rows, as the journal tells them.\<close>

definition moved_account :: "entry_row list \<Rightarrow> account \<Rightarrow> account" where
  "moved_account journal a = a\<lparr>ac_Balance := delta journal (ac_ID a)\<rparr>"

lemma postSQL_spec:
  fixes env t
  assumes "ledger_ok db" "\<forall>i\<in>tx_keys env t. la_accounts (ledger_abs db) i \<noteq> None" "card (tx_keys env t) = card (tx_texts t)"
  defines "txID \<equiv> ensureID env (lt_ID t)" and "legs \<equiv> tx_legs env (ledger_abs db) t"
  defines "journal \<equiv> db_entries db @ legs"
  shows "postSQL env db t txID (the_elem (tx_currencies env (ledger_abs db) t)) =
    (if env_uuid env txID = None \<or> lt_ReferenceType t \<noteq> '''' \<and> env_uuid env (lt_ReferenceID t) = None then Inl ErrAccountNotFound
     else if \<exists>i\<in>tx_keys env t. \<not> in64 (delta legs i) \<or> \<not> in64 (delta journal i) then Inl ErrPostgres
     else if \<exists>i\<in>tx_keys env t. fst (the (la_accounts (ledger_abs db) i)) \<noteq> AccountSystemSource \<and> delta journal i < 0 then Inl ErrInsufficientFunds
     else Inr (db\<lparr>db_accounts := map (moved_account journal) (db_accounts db), db_entries := journal\<rparr>, card (tx_texts t)))"
proof -
  have dist: "distinct (map ac_ID (db_accounts db))" using assms(1) by (simp add: ledger_ok_def)
  define touched where "touched = filter (\<lambda>a. \<exists>l\<in>set legs. er_AccountID l = ac_ID a) (db_accounts db)"
  have tm: "a \<in> set touched \<longleftrightarrow> a \<in> set (db_accounts db) \<and> ac_ID a \<in> tx_keys env t" for a
    unfolding touched_def legs_keys [of env "ledger_abs db" t, folded legs_def, symmetric] by (force simp: image_iff)
  have mv: "ac_Balance a + delta legs (ac_ID a) = delta journal (ac_ID a)" if "a \<in> set (db_accounts db)" for a
    using ledger_ok_balance [OF assms(1) that] by (simp add: journal_def delta_append)
  have kt: "i \<in> tx_keys env t \<longleftrightarrow> (\<exists>a\<in>set touched. ac_ID a = i)" for i
    using assms(2) tm by (fastforce simp: ledger_abs_def abs_accounts_None)
  have kind: "fst (the (la_accounts (ledger_abs db) (ac_ID a))) = ac_Kind a" if "a \<in> set touched" for a
  proof -
    have "la_accounts (ledger_abs db) (ac_ID a) = Some (ac_Kind a, ac_OwnerID a, ac_Currency a)"
      using that tm by (auto simp: ledger_abs_def abs_accounts_Some [OF dist])
    then show ?thesis by simp
  qed
  have c1: "(\<exists>a\<in>set touched. \<not> in64 (delta legs (ac_ID a)) \<or> \<not> in64 (ac_Balance a + delta legs (ac_ID a))) \<longleftrightarrow>
      (\<exists>i\<in>tx_keys env t. \<not> in64 (delta legs i) \<or> \<not> in64 (delta journal i))"
    using kt tm mv by metis
  have c2: "(\<exists>a\<in>set touched. \<not> (ac_Kind a = AccountSystemSource \<or> ac_Balance a + delta legs (ac_ID a) \<ge> 0)) \<longleftrightarrow>
      (\<exists>i\<in>tx_keys env t. fst (the (la_accounts (ledger_abs db) i)) \<noteq> AccountSystemSource \<and> delta journal i < 0)"
    using kt tm mv kind by (metis not_le)
  have upd: "map (\<lambda>a. if a \<in> set touched then a\<lparr>ac_Balance := ac_Balance a + delta legs (ac_ID a)\<rparr> else a) (db_accounts db) =
      map (moved_account journal) (db_accounts db)"
  proof (rule map_cong [OF refl])
    fix a assume a: "a \<in> set (db_accounts db)"
    show "(if a \<in> set touched then a\<lparr>ac_Balance := ac_Balance a + delta legs (ac_ID a)\<rparr> else a) = moved_account journal a"
    proof (cases "a \<in> set touched")
      case False
      then have "delta legs (ac_ID a) = 0" using a tm by (intro delta_other) (auto simp: legs_def legs_keys)
      then show ?thesis using False mv [OF a] by (simp add: moved_account_def)
    qed (simp add: moved_account_def mv [OF a])
  qed
  have "length touched = card (tx_keys env t)"
  proof -
    have "distinct (map ac_ID touched)" using dist by (simp add: touched_def distinct_map_filter)
    then have "length touched = card (ac_ID ` set touched)" by (metis distinct_card length_map set_map)
    moreover have "ac_ID ` set touched = tx_keys env t" using kt by auto
    ultimately show ?thesis by simp
  qed
  then have len: "length touched = card (tx_texts t)" using assms(3) by simp
  have l: "map (leg_row env t txID (the_elem (tx_currencies env (ledger_abs db) t))) (lt_Entries t) = legs"
    by (simp add: legs_def tx_legs_def txID_def)
  show ?thesis
    unfolding postSQL_def Let_def l touched_def [symmetric] c1 c2 upd len journal_def [symmetric] by (rule refl)
qed

lemma Post_spec:
  fixes env t
  assumes "ledger_ok db"
  defines "journal \<equiv> db_entries db @ tx_legs env (ledger_abs db) t"
  shows "Post env db t =
    (case book env (ledger_abs db) t of
       (L, Inl e) \<Rightarrow> (db, Inl e)
     | (L, Inr i) \<Rightarrow> (db\<lparr>db_accounts := map (moved_account journal) (db_accounts db), db_entries := journal\<rparr>, Inr i))"
proof (cases "ledger_Validate t")
  case (Some e)
  then show ?thesis by (simp add: Post_def book_def Let_def)
next
  case None
  have dist: "distinct (map ac_ID (db_accounts db))" using assms(1) by (simp add: ledger_ok_def)
  note lock = lockAccounts_spec [OF dist Validate_entries(2) [OF None], of env, unfolded to_lock_def]
  have L: "la_journal (ledger_abs db) = db_entries db" by (simp add: ledger_abs_def)
  show ?thesis
  proof (cases "(\<exists>x\<in>tx_texts t. env_uuid env x = None) \<or> 1 < card (tx_currencies env (ledger_abs db) t) \<or>
      (\<exists>i\<in>tx_keys env t. la_accounts (ledger_abs db) i = None) \<or> card (tx_keys env t) \<noteq> card (tx_texts t)")
    case True
    then show ?thesis unfolding Post_def book_def Let_def None option.case lock by auto
  next
    case False
    then have k: "\<forall>i\<in>tx_keys env t. la_accounts (ledger_abs db) i \<noteq> None" "card (tx_keys env t) = card (tx_texts t)" by auto
    note sql = postSQL_spec [OF assms(1) k]
    have nf: "\<not> (\<exists>x\<in>tx_texts t. env_uuid env x = None)" "\<not> 1 < card (tx_currencies env (ledger_abs db) t)"
      "\<not> ((\<exists>i\<in>tx_keys env t. la_accounts (ledger_abs db) i = None) \<or> card (tx_keys env t) \<noteq> card (tx_texts t))"
      using False by blast+
    have n: "length (sort (remdups (map leg_AccountID (lt_Entries t)))) = card (tx_texts t)"
      using to_lock_simps(2) [of t] by (simp add: to_lock_def)
    show ?thesis
      unfolding Post_def book_def Let_def None option.case lock if_not_P [OF nf(1)] if_not_P [OF nf(2)] if_not_P [OF nf(3)] sum.case sql n
        tx_legs_def [symmetric] L journal_def
      by (simp only: split: if_split prod.split) simp
  qed
qed

lemma abs_moved: "abs_accounts (map (moved_account j) as) = abs_accounts as"
  by (simp add: abs_accounts_def moved_account_def comp_def)

lemma tx_currency_of:
  assumes "distinct (map ac_ID (db_accounts db))" "\<not> 1 < card (tx_currencies env (ledger_abs db) t)"
    "a \<in> set (db_accounts db)" "ac_ID a \<in> tx_keys env t"
  shows "the_elem (tx_currencies env (ledger_abs db) t) = ac_Currency a"
proof -
  let ?C = "tx_currencies env (ledger_abs db) t"
  have m: "ac_Currency a \<in> ?C" using assms(3,4) by (auto simp: tx_currencies_locked [OF assms(1)] locked_def)
  have "finite ?C" by (simp add: tx_currencies_locked [OF assms(1)] locked_def)
  then have "?C = {ac_Currency a}" using m assms(2) card_gt_1 [of ?C "ac_Currency a"] by blast
  then show ?thesis by simp
qed

lemma total_moved:
  assumes ok: "ledger_ok db" and legs: "\<forall>e\<in>set legs. \<exists>a\<in>set (db_accounts db). ac_ID a = er_AccountID e \<and> ac_Currency a = cur"
    and zero: "(\<Sum>e\<leftarrow>legs. er_Amount e) = 0"
  shows "currency_total (db\<lparr>db_accounts := map (moved_account (db_entries db @ legs)) (db_accounts db), db_entries := db_entries db @ legs\<rparr>) c = 0"
proof -
  define as where "as = filter (\<lambda>a. ac_Currency a = c) (db_accounts db)"
  have dist: "distinct (map ac_ID (db_accounts db))" using ok by (simp add: ledger_ok_def)
  then have da: "distinct (map ac_ID as)" by (simp add: as_def distinct_map_filter)
  have "currency_total (db\<lparr>db_accounts := map (moved_account (db_entries db @ legs)) (db_accounts db), db_entries := db_entries db @ legs\<rparr>) c =
      (\<Sum>a\<leftarrow>as. delta (db_entries db @ legs) (ac_ID a))"
    by (simp add: currency_total_def as_def filter_map moved_account_def comp_def)
  also have "\<dots> = (\<Sum>a\<leftarrow>as. ac_Balance a + delta legs (ac_ID a))"
    using ledger_ok_balance [OF ok] by (intro arg_cong [where f = sum_list] map_cong) (auto simp: as_def delta_append)
  also have "\<dots> = (\<Sum>a\<leftarrow>as. ac_Balance a) + (\<Sum>a\<leftarrow>as. delta legs (ac_ID a))" by (rule sum_list_addf)
  also have "(\<Sum>a\<leftarrow>as. ac_Balance a) = 0" using ok by (simp add: ledger_ok_def currency_total_def as_def)
  also have "(\<Sum>a\<leftarrow>as. delta legs (ac_ID a)) = 0"
  proof (cases "c = cur")
    case True
    have "\<forall>e\<in>set legs. er_AccountID e \<in> set (map ac_ID as)"
    proof
      fix e assume "e \<in> set legs"
      then obtain a where "a \<in> set as" "er_AccountID e = ac_ID a" using legs True by (auto simp: as_def)
      then show "er_AccountID e \<in> set (map ac_ID as)" by simp
    qed
    with sum_delta [OF da] zero show ?thesis by (simp add: comp_def)
  next
    case False
    have "delta legs (ac_ID a) = 0" if "a \<in> set as" for a
    proof (rule delta_other, rule notI)
      assume "ac_ID a \<in> er_AccountID ` set legs"
      then obtain e where e: "e \<in> set legs" "ac_ID a = er_AccountID e" by blast
      with legs obtain b where b: "b \<in> set (db_accounts db)" "ac_ID b = ac_ID a" "ac_Currency b = cur" by metis
      have "a \<in> set (db_accounts db)" "ac_Currency a = c" using that by (simp_all add: as_def)
      with b dist False show False by (auto simp: distinct_map inj_on_def)
    qed
    then show ?thesis by (simp add: sum_list_0 cong: map_cong)
  qed
  finally show ?thesis by simp
qed

lemma book_Inr:
  assumes "book env L t = (L', Inr i)"
  shows "ledger_Validate t = None" "\<not> 1 < card (tx_currencies env L t)" "\<forall>i\<in>tx_keys env t. la_accounts L i \<noteq> None"
    "\<forall>i\<in>tx_keys env t. in64 (delta (la_journal L @ tx_legs env L t) i)"
    "\<forall>i\<in>tx_keys env t. fst (the (la_accounts L i)) = AccountSystemSource \<or> 0 \<le> delta (la_journal L @ tx_legs env L t) i"
    "L' = L\<lparr>la_journal := la_journal L @ tx_legs env L t\<rparr>" "i = ensureID env (lt_ID t)"
  using assms unfolding book_def Let_def tx_legs_def [symmetric]
  by (auto simp: not_less split: option.splits if_splits)

lemma Post_ok:
  assumes ok: "ledger_ok db" and valid: "\<forall>e\<in>set (lt_Entries t). valid_amount (leg_Amount e)"
  shows "ledger_ok (fst (Post env db t))"
proof (cases "snd (book env (ledger_abs db) t)")
  case (Inl e)
  then show ?thesis using ok by (auto simp: Post_spec [OF ok] split: prod.splits)
next
  case (Inr i)
  define L where "L = ledger_abs db"
  define legs where "legs = tx_legs env L t"
  obtain L' where bk: "book env L t = (L', Inr i)" using Inr by (cases "book env (ledger_abs db) t") (auto simp: L_def)
  note b = book_Inr [OF bk]
  have j: "la_journal L = db_entries db" by (simp add: L_def ledger_abs_def)
  let ?j = "db_entries db @ legs"
  let ?db = "db\<lparr>db_accounts := map (moved_account ?j) (db_accounts db), db_entries := ?j\<rparr>"
  have post: "fst (Post env db t) = ?db" using bk by (simp add: Post_spec [OF ok] L_def legs_def)
  have dist: "distinct (map ac_ID (db_accounts db))" using ok by (simp add: ledger_ok_def)
  have lk: "er_AccountID ` set legs = tx_keys env t" by (simp add: legs_def legs_keys)
  have acc: "la_accounts L (ac_ID a) = Some (ac_Kind a, ac_OwnerID a, ac_Currency a)" if "a \<in> set (db_accounts db)" for a
    using that by (auto simp: L_def ledger_abs_def abs_accounts_Some [OF dist])
  have home: "\<exists>a\<in>set (db_accounts db). ac_ID a = er_AccountID e \<and> ac_Currency a = er_Currency e"
    and home': "\<exists>a\<in>set (db_accounts db). ac_ID a = er_AccountID e \<and> ac_Currency a = the_elem (tx_currencies env L t)"
    if "e \<in> set legs" for e
  proof -
    have k: "er_AccountID e \<in> tx_keys env t" using that lk by blast
    then have "abs_accounts (db_accounts db) (er_AccountID e) \<noteq> None" using b(3) by (simp add: L_def ledger_abs_def)
    then obtain a where a: "a \<in> set (db_accounts db)" "ac_ID a = er_AccountID e"
      unfolding abs_accounts_None not_not by (elim imageE) simp
    moreover have "er_Currency e = the_elem (tx_currencies env L t)" using that by (auto simp: legs_def tx_legs_def leg_row_def)
    moreover have "the_elem (tx_currencies env L t) = ac_Currency a"
      using tx_currency_of [OF dist b(2) [unfolded L_def] a(1)] k a(2) by (simp add: L_def)
    ultimately show "\<exists>a\<in>set (db_accounts db). ac_ID a = er_AccountID e \<and> ac_Currency a = er_Currency e"
      "\<exists>a\<in>set (db_accounts db). ac_ID a = er_AccountID e \<and> ac_Currency a = the_elem (tx_currencies env L t)" by auto
  qed
  have bal: "in64 (delta ?j (ac_ID a)) \<and> (ac_Kind a = AccountSystemSource \<or> 0 \<le> delta ?j (ac_ID a))" if a: "a \<in> set (db_accounts db)" for a
  proof (cases "ac_ID a \<in> tx_keys env t")
    case True
    then show ?thesis using b(4,5) acc [OF a] by (auto simp: j legs_def)
  next
    case False
    then have "delta ?j (ac_ID a) = ac_Balance a" using lk ledger_ok_balance [OF ok a] by (simp add: delta_append delta_other)
    then show ?thesis using ledger_ok_range [OF ok a] by simp
  qed
  have nz: "er_Amount e \<noteq> 0" if "e \<in> set legs" for e
    using that Validate_entries(1) [OF b(1)] by (auto simp: legs_def tx_legs_def leg_row_def)
  have "(\<Sum>e\<leftarrow>legs. er_Amount e) = 0"
    using Validate_balanced [OF b(1) valid] by (simp add: legs_def tx_legs_def leg_row_def comp_def)
  then have tot: "currency_total ?db c = 0" for c using total_moved [OF ok, of legs] home' by blast
  show ?thesis unfolding post ledger_ok_def
  proof (intro conjI allI)
    show "distinct (map ac_ID (db_accounts ?db))" using dist by (simp add: moved_account_def comp_def)
    show "\<forall>a\<in>set (db_accounts ?db). ac_Balance a = delta (db_entries ?db) (ac_ID a) \<and> in64 (ac_Balance a) \<and>
        (ac_Kind a = AccountSystemSource \<or> 0 \<le> ac_Balance a)"
      using bal by (auto simp: moved_account_def)
    show "\<forall>e\<in>set (db_entries ?db). er_Amount e \<noteq> 0 \<and> (\<exists>a\<in>set (db_accounts ?db). ac_ID a = er_AccountID e \<and> ac_Currency a = er_Currency e)"
      using home nz ok by (auto simp: ledger_ok_def moved_account_def)
  qed (rule tot)
qed

text \<open>
  C2. Posting a transaction is booking it in a journal without balances. For rows that keep the invariant,
  the code's \<open>Post\<close> returns exactly what the abstract ledger returns, error by error, and leaves the rows
  that stand for the abstract ledger it leaves; the invariant is kept, and a refused transaction changes
  no row.
\<close>

theorem Post_refines_book:
  assumes "ledger_ok db" "\<forall>e\<in>set (lt_Entries t). valid_amount (leg_Amount e)"
  shows "book env (ledger_abs db) t = (ledger_abs (fst (Post env db t)), snd (Post env db t)) \<and> ledger_ok (fst (Post env db t)) \<and>
    (\<forall>e. snd (Post env db t) = Inl e \<longrightarrow> fst (Post env db t) = db)"
proof -
  have "book env (ledger_abs db) t = (ledger_abs (fst (Post env db t)), snd (Post env db t)) \<and>
      (\<forall>e. snd (Post env db t) = Inl e \<longrightarrow> fst (Post env db t) = db)"
  proof (cases "book env (ledger_abs db) t")
    case (Pair L' r)
    show ?thesis
    proof (cases r)
      case (Inl e)
      then have "L' = ledger_abs db" using Pair unfolding book_def Let_def by (auto split: option.splits if_splits)
      then show ?thesis using Pair Inl by (simp add: Post_spec [OF assms(1)])
    next
      case (Inr i)
      note b = book_Inr [OF Pair [unfolded Inr]]
      show ?thesis using Pair Inr b(6) by (simp add: Post_spec [OF assms(1)] ledger_abs_def abs_moved)
    qed
  qed
  with Post_ok [OF assms] show ?thesis by blast
qed

text \<open>A ledger with two purses and a treasury, the uuids being their own text.\<close>

definition demo_env :: ledger_env where
  "demo_env = \<lparr>env_uuid = (\<lambda>x. if x = ''?'' then None else Some x), env_newID = ''n1'', env_now = 5\<rparr>"

definition demo_ledger :: ledger_db where
  "demo_ledger = \<lparr>db_accounts = [
     \<lparr>ac_ID = ''s'', ac_Kind = AccountSystemSource, ac_OwnerID = '''', ac_Currency = ''SUP'', ac_Balance = -100\<rparr>,
     \<lparr>ac_ID = ''a'', ac_Kind = AccountPlayerCash, ac_OwnerID = ''p'', ac_Currency = ''SUP'', ac_Balance = 100\<rparr>,
     \<lparr>ac_ID = ''b'', ac_Kind = AccountPlayerBank, ac_OwnerID = ''p'', ac_Currency = ''SUP'', ac_Balance = 0\<rparr>],
   db_entries = [
     \<lparr>er_TransactionID = ''t0'', er_AccountID = ''s'', er_Amount = -100, er_Currency = ''SUP'', er_Reason = ''starting_grant'',
       er_ReferenceType = '''', er_ReferenceID = '''', er_CreatedAt = 1\<rparr>,
     \<lparr>er_TransactionID = ''t0'', er_AccountID = ''a'', er_Amount = 100, er_Currency = ''SUP'', er_Reason = ''starting_grant'',
       er_ReferenceType = '''', er_ReferenceID = '''', er_CreatedAt = 1\<rparr>],
   db_grants = [], db_currencies = [''SUP''], db_owner = (\<lambda>_ _. True)\<rparr>"

definition demo_deposit :: ledger_tx where
  "demo_deposit = \<lparr>lt_ID = '''', lt_Reason = ''bank_deposit'', lt_ReferenceType = '''', lt_ReferenceID = '''',
     lt_Entries = [\<lparr>leg_AccountID = ''a'', leg_Amount = FromMinor (-30)\<rparr>, \<lparr>leg_AccountID = ''b'', leg_Amount = FromMinor 30\<rparr>],
     lt_CreatedAt = 9\<rparr>"

lemma demo_ledger_ok: "ledger_ok demo_ledger"
  by (auto simp: ledger_ok_def demo_ledger_def delta_def currency_total_def in64_def)

theorem Post_refines_book_witness:
  "snd (book demo_env (ledger_abs demo_ledger) demo_deposit) = Inr ''n1'' \<and> ledger_ok (fst (Post demo_env demo_ledger demo_deposit))"
proof -
  have v: "\<forall>e\<in>set (lt_Entries demo_deposit). valid_amount (leg_Amount e)" by code_simp
  have "snd (Post demo_env demo_ledger demo_deposit) = Inr ''n1''" by code_simp
  with Post_refines_book [OF demo_ledger_ok v, of demo_env] show ?thesis by simp
qed

section \<open>Every reachable ledger\<close>

lemma find_account_Some:
  "find_account db k ow c = Some a \<Longrightarrow> a \<in> set (db_accounts db) \<and> ac_Kind a = k \<and> ac_OwnerID a = ow \<and> ac_Currency a = c"
  by (auto simp: find_account_def find_Some_iff)

lemma insert_account_ok:
  assumes "ledger_ok db" "ac_Balance a = 0"
  shows "ledger_ok (insert_account db a)"
proof (cases "\<exists>b\<in>set (db_accounts db). account_conflict a b")
  case True
  then show ?thesis using assms(1) by (simp add: insert_account_def)
next
  case False
  then have n: "ac_ID a \<notin> ac_ID ` set (db_accounts db)" by (auto simp: account_conflict_def)
  then have "ac_ID a \<notin> er_AccountID ` set (db_entries db)" using assms(1) by (force simp: ledger_ok_def)
  then have "delta (db_entries db) (ac_ID a) = 0" by (rule delta_other)
  then show ?thesis using assms False n
    by (auto simp: insert_account_def ledger_ok_def currency_total_def in64_def)
qed

lemma AccountForCurrency_ok:
  assumes "ledger_ok db"
  shows "ledger_ok (fst (AccountForCurrency env db k ow c))"
  using assms by (auto simp: AccountForCurrency_def Let_def insert_account_ok split: option.splits)

lemma ledger_ok_other [simp]: "ledger_ok (db\<lparr>db_grants := gs\<rparr>) = ledger_ok db" "ledger_ok (db\<lparr>db_currencies := cs, db_owner := own\<rparr>) = ledger_ok db"
  by (simp_all add: ledger_ok_def currency_total_def)

lemma RecordGrant_ok:
  assumes "ledger_ok db"
  shows "ledger_ok (fst (RecordGrant env n player db g))"
proof -
  have "fst (RecordGrant env n player db g) = db \<or> (\<exists>gs. fst (RecordGrant env n player db g) = db\<lparr>db_grants := gs\<rparr>)"
    unfolding RecordGrant_def Let_def by (simp split: if_split) blast
  with assms show ?thesis by auto
qed

text \<open>
  What the repository can do, one operation at a time; \<open>others\<close> is a change of the other tables. A unit of
  work is a sequence of these, and its failure is the rows it started from.
\<close>

inductive ledger_step :: "ledger_db \<Rightarrow> ledger_db \<Rightarrow> bool" where
  post: "\<forall>e\<in>set (lt_Entries t). valid_amount (leg_Amount e) \<Longrightarrow> ledger_step db (fst (Post env db t))"
| open_account: "ledger_step db (fst (AccountForCurrency env db k ow c))"
| grant: "ledger_step db (fst (RecordGrant env n player db g))"
| others: "ledger_step db (db\<lparr>db_currencies := cs, db_owner := own\<rparr>)"

definition ledger_init :: "ledger_db \<Rightarrow> bool" where
  "ledger_init db \<longleftrightarrow> db_entries db = [] \<and> distinct (map ac_ID (db_accounts db)) \<and> (\<forall>a\<in>set (db_accounts db). ac_Balance a = 0)"

inductive ledger_reach :: "ledger_db \<Rightarrow> bool" where
  init: "ledger_init db \<Longrightarrow> ledger_reach db"
| step: "ledger_reach db \<Longrightarrow> ledger_step db db' \<Longrightarrow> ledger_reach db'"

lemma reach_ok: "ledger_reach db \<Longrightarrow> ledger_ok db"
proof (induction rule: ledger_reach.induct)
  case (init db)
  then have "currency_total db c = 0" for c
    unfolding currency_total_def ledger_init_def by (intro sum_list_0_eq) auto
  with init show ?case by (auto simp: ledger_init_def ledger_ok_def delta_def in64_def)
next
  case (step db db')
  from step.hyps(2) step.IH show ?case
    by cases (simp_all add: Post_ok AccountForCurrency_ok RecordGrant_ok)
qed

definition money_supply :: "ledger_db \<Rightarrow> string \<Rightarrow> int" where
  "money_supply db c = (\<Sum>a\<leftarrow>filter (\<lambda>a. ac_Currency a = c \<and> ac_Kind a \<noteq> AccountSystemSource) (db_accounts db). ac_Balance a)"

definition money_issued :: "ledger_db \<Rightarrow> string \<Rightarrow> int" where
  "money_issued db c = - (\<Sum>a\<leftarrow>filter (\<lambda>a. ac_Currency a = c \<and> ac_Kind a = AccountSystemSource) (db_accounts db). ac_Balance a)"

lemma currency_total_split: "currency_total db c = money_supply db c - money_issued db c"
proof -
  have "(\<Sum>a\<leftarrow>filter (\<lambda>a. ac_Currency a = c) as. ac_Balance a) =
      (\<Sum>a\<leftarrow>filter (\<lambda>a. ac_Currency a = c \<and> ac_Kind a \<noteq> AccountSystemSource) as. ac_Balance a) +
      (\<Sum>a\<leftarrow>filter (\<lambda>a. ac_Currency a = c \<and> ac_Kind a = AccountSystemSource) as. ac_Balance a)" for as
    by (induction as) auto
  then show ?thesis by (simp add: currency_total_def money_supply_def money_issued_def)
qed

text \<open>
  C1. No money is made or lost. In every ledger the repository can reach, in every currency, what all
  accounts but the source hold is exactly what the source has issued; no account but the source is below
  zero; and every cached balance is the sum of the account's entries, all of them in its currency.
\<close>

theorem money_conserved:
  assumes "ledger_reach db"
  shows "money_supply db c = money_issued db c \<and>
    (\<forall>a\<in>set (db_accounts db). ac_Balance a = delta (db_entries db) (ac_ID a) \<and> (ac_Kind a \<noteq> AccountSystemSource \<longrightarrow> 0 \<le> ac_Balance a)) \<and>
    (\<forall>e\<in>set (db_entries db). \<exists>a\<in>set (db_accounts db). ac_ID a = er_AccountID e \<and> ac_Currency a = er_Currency e)"
proof -
  note ok = reach_ok [OF assms]
  then have "currency_total db c = 0" by (simp add: ledger_ok_def)
  then have "money_supply db c = money_issued db c" by (simp add: currency_total_split)
  with ok show ?thesis by (auto simp: ledger_ok_def)
qed

definition demo_ledger0 :: ledger_db where
  "demo_ledger0 = demo_ledger\<lparr>db_accounts := map (\<lambda>a. a\<lparr>ac_Balance := 0\<rparr>) (db_accounts demo_ledger), db_entries := []\<rparr>"

definition demo_grant :: ledger_tx where
  "demo_grant = demo_deposit\<lparr>lt_Reason := ''starting_grant'',
     lt_Entries := [\<lparr>leg_AccountID = ''s'', leg_Amount = FromMinor (-70)\<rparr>, \<lparr>leg_AccountID = ''a'', leg_Amount = FromMinor 70\<rparr>]\<rparr>"

theorem money_conserved_witness:
  "money_supply (fst (Post demo_env demo_ledger0 demo_grant)) ''SUP'' = 70 \<and>
   money_issued (fst (Post demo_env demo_ledger0 demo_grant)) ''SUP'' = 70"
proof -
  have "ledger_init demo_ledger0" by code_simp
  moreover have "\<forall>e\<in>set (lt_Entries demo_grant). valid_amount (leg_Amount e)" by code_simp
  ultimately have "ledger_reach (fst (Post demo_env demo_ledger0 demo_grant))"
    using ledger_reach.step [OF ledger_reach.init ledger_step.post] by blast
  from money_conserved [OF this, of "''SUP''"] have "money_supply (fst (Post demo_env demo_ledger0 demo_grant)) ''SUP'' = money_issued (fst (Post demo_env demo_ledger0 demo_grant)) ''SUP''" by blast
  moreover have "money_supply (fst (Post demo_env demo_ledger0 demo_grant)) ''SUP'' = 70" by code_simp
  ultimately show ?thesis by simp
qed

section \<open>What a posted transaction moves\<close>

lemma balance_delta:
  assumes "ledger_ok db"
  shows "balance_of db j = delta (db_entries db) j"
proof -
  have dist: "distinct (map ac_ID (db_accounts db))" using assms by (simp add: ledger_ok_def)
  show ?thesis
  proof (cases "j \<in> ac_ID ` set (db_accounts db)")
    case True
    then obtain a where a: "a \<in> set (db_accounts db)" "ac_ID a = j" by blast
    have "filter (\<lambda>x. ac_ID x = j) as = [a]" if "distinct (map ac_ID as)" "a \<in> set as" for as
      using that
    proof (induction as)
      case (Cons x as)
      have "filter (\<lambda>x. ac_ID x = j) as = []" if "ac_ID x = j"
        using Cons.prems(1) that by (force simp: filter_empty_conv image_iff)
      with Cons a(2) show ?case by (cases "x = a") auto
    qed simp
    from this [OF dist a(1)] show ?thesis using ledger_ok_balance [OF assms a(1)] a(2) by (simp add: balance_of_def)
  next
    case False
    then have "filter (\<lambda>a. ac_ID a = j) (db_accounts db) = []" by (auto simp: filter_empty_conv)
    moreover have "j \<notin> er_AccountID ` set (db_entries db)" using False assms by (force simp: ledger_ok_def)
    ultimately show ?thesis by (simp add: balance_of_def delta_other)
  qed
qed

definition leg_sum :: "ledger_env \<Rightarrow> ledger_leg list \<Rightarrow> string \<Rightarrow> int" where
  "leg_sum env es j = (\<Sum>e\<leftarrow>filter (\<lambda>e. env_uuid env (leg_AccountID e) = Some j) es. Minor (leg_Amount e))"

lemma delta_legs:
  assumes "\<forall>e\<in>set es. env_uuid env (leg_AccountID e) \<noteq> None"
  shows "delta (map (leg_row env t i c) es) j = leg_sum env es j"
  using assms by (induction es) (auto simp: delta_def leg_sum_def leg_row_def)

lemma Post_Inr:
  assumes ok: "ledger_ok db" and p: "Post env db t = (db', Inr i)"
  shows "\<exists>L'. book env (ledger_abs db) t = (L', Inr i)" "db' = db\<lparr>db_accounts := map (moved_account (db_entries db @ tx_legs env (ledger_abs db) t)) (db_accounts db),
      db_entries := db_entries db @ tx_legs env (ledger_abs db) t\<rparr>"
  using p by (auto simp: Post_spec [OF ok] split: prod.splits sum.splits)

lemma book_parsed: "book env L t = (L', Inr i) \<Longrightarrow> \<forall>e\<in>set (lt_Entries t). env_uuid env (leg_AccountID e) \<noteq> None"
  unfolding book_def Let_def tx_texts_def by (auto split: option.splits if_splits)

lemma Post_moves:
  assumes ok: "ledger_ok db" and valid: "\<forall>e\<in>set (lt_Entries t). valid_amount (leg_Amount e)" and p: "Post env db t = (db', Inr i)"
  shows "balance_of db' j = balance_of db j + leg_sum env (lt_Entries t) j"
proof -
  obtain L' where b: "book env (ledger_abs db) t = (L', Inr i)" using Post_Inr(1) [OF ok p] by blast
  have "ledger_ok db'" using Post_ok [OF ok valid, of env] p by simp
  then have "balance_of db' j = delta (db_entries db') j" by (rule balance_delta)
  moreover have "db_entries db' = db_entries db @ tx_legs env (ledger_abs db) t" using Post_Inr(2) [OF ok p] by simp
  moreover have "delta (tx_legs env (ledger_abs db) t) j = leg_sum env (lt_Entries t) j"
    unfolding tx_legs_def by (rule delta_legs [OF book_parsed [OF b]])
  ultimately show ?thesis by (simp add: balance_delta [OF ok] delta_append)
qed

lemma Post_Inl: "Post env db t = (db', Inl e) \<Longrightarrow> db' = db"
  by (auto simp: Post_def Let_def split: option.splits sum.splits if_splits prod.splits)

lemma Post_keeps_accounts:
  assumes "ledger_ok db" "Post env db t = (db', Inr i)"
  shows "map (\<lambda>a. (ac_ID a, ac_Kind a, ac_OwnerID a, ac_Currency a)) (db_accounts db') = map (\<lambda>a. (ac_ID a, ac_Kind a, ac_OwnerID a, ac_Currency a)) (db_accounts db)"
  using Post_Inr(2) [OF assms] by (simp add: moved_account_def comp_def)

end
