(* ===== verification/Wallet.thy ===== *)
theory Wallet
  imports Ledger_Spec Payment
begin

text \<open>
  \<^verbatim>\<open>internal/application/payment.go\<close>: the one way a player pays a service. \<open>purses\<close> is the Go \<open>Wallet\<close>, the two
  accounts as they were read; \<open>Pay\<close> turns a charge into one ledger transaction from the purse of the
  chosen method. The properties say that a payment takes exactly the sum of its credits from that purse,
  and that each refusal comes before anything is written.
\<close>

section \<open>The purses\<close>

record purses =
  pu_PlayerID :: string
  pu_Cash :: account
  pu_Bank :: account

datatype charge_error = ErrPaymentNotAccepted | ErrPaymentDeclined | ErrChargeInternal | ChargeLedger ledger_error

text \<open>The second id is minted when the bank account is opened.\<close>

definition OpenWallet :: "ledger_env \<Rightarrow> string \<Rightarrow> ledger_db \<Rightarrow> string \<Rightarrow> ledger_db \<times> (ledger_error + purses)" where
  "OpenWallet env newID2 db playerID =
     (case AccountFor env db AccountPlayerCash playerID of
        (db1, Inl e) \<Rightarrow> (db1, Inl e)
      | (db1, Inr cash) \<Rightarrow>
          (case AccountFor (env\<lparr>env_newID := newID2\<rparr>) db1 AccountPlayerBank playerID of
             (db2, Inl e) \<Rightarrow> (db2, Inl e)
           | (db2, Inr bank) \<Rightarrow> (db2, Inr \<lparr>pu_PlayerID = playerID, pu_Cash = cash, pu_Bank = bank\<rparr>)))"

definition Balances :: "purses \<Rightarrow> wallet" where
  "Balances w = \<lparr>wal_Cash = FromMinor (ac_Balance (pu_Cash w)), wal_Bank = FromMinor (ac_Balance (pu_Bank w))\<rparr>"

definition Wallet_Account :: "purses \<Rightarrow> pay_method \<Rightarrow> account" where
  "Wallet_Account w m = (if m = PayCard then pu_Bank w else pu_Cash w)"

definition Wallet_Plan :: "purses \<Rightarrow> amount \<Rightarrow> accepts \<Rightarrow> pay_plan" where
  "Wallet_Plan w amt accepted = PlanFor amt accepted (Balances w)"

section \<open>Charges\<close>

record charge =
  ch_Method :: pay_method
  ch_Accepted :: accepts
  ch_Reason :: reason
  ch_ReferenceType :: string
  ch_ReferenceID :: string
  ch_To :: "ledger_leg list"
  ch_CreatedAt :: go_time
  ch_ID :: string

definition Charge_Amount :: "charge \<Rightarrow> money_error + amount" where
  "Charge_Amount c = Amount_Sum (map leg_Amount (filter (\<lambda>e. \<not> Amount_IsNegative (leg_Amount e) \<and> \<not> Amount_IsZero (leg_Amount e)) (ch_To c)))"

text \<open>The loop over the credits: nothing is skipped but zeros, and a negative credit is an error.\<close>

fun credit_legs :: "ledger_leg list \<Rightarrow> ledger_leg list option" where
  "credit_legs [] = Some []"
| "credit_legs (e # es) =
     (if Amount_IsZero (leg_Amount e) then credit_legs es
      else if Amount_IsNegative (leg_Amount e) then None
      else map_option (\<lambda>r. e # r) (credit_legs es))"

definition take_from :: "purses \<Rightarrow> pay_method \<Rightarrow> amount \<Rightarrow> purses" where
  "take_from w m amt =
     (let less_by = (\<lambda>a. a\<lparr>ac_Balance := (case Amount_Sub (FromMinor (ac_Balance a)) amt of Inl _ \<Rightarrow> 0 | Inr b \<Rightarrow> Minor b)\<rparr>) in
      if m = PayCard then w\<lparr>pu_Bank := less_by (pu_Bank w)\<rparr> else w\<lparr>pu_Cash := less_by (pu_Cash w)\<rparr>)"

definition charge_tx :: "purses \<Rightarrow> charge \<Rightarrow> amount \<Rightarrow> ledger_leg list \<Rightarrow> ledger_tx" where
  "charge_tx w c debit credits =
     \<lparr>lt_ID = ch_ID c, lt_Reason = ch_Reason c, lt_ReferenceType = ch_ReferenceType c, lt_ReferenceID = ch_ReferenceID c,
      lt_Entries = \<lparr>leg_AccountID = ac_ID (Wallet_Account w (ch_Method c)), leg_Amount = debit\<rparr> # credits, lt_CreatedAt = ch_CreatedAt c\<rparr>"

definition Wallet_Pay :: "ledger_env \<Rightarrow> ledger_db \<Rightarrow> purses \<Rightarrow> charge \<Rightarrow> (ledger_db \<times> purses) \<times> (charge_error + string)" where
  "Wallet_Pay env db w c =
     (if \<not> pay_Valid (ch_Method c) then ((db, w), Inl ErrPaymentNotAccepted)
      else if \<not> Accepts_Has (ch_Accepted c) (ch_Method c) then ((db, w), Inl ErrPaymentNotAccepted)
      else case Charge_Amount c of
        Inl _ \<Rightarrow> ((db, w), Inl ErrChargeInternal)
      | Inr amt \<Rightarrow>
          if Amount_IsZero amt then ((db, w), Inr '''')
          else if \<not> Wallet_Covers (Balances w) (ch_Method c) amt then ((db, w), Inl ErrPaymentDeclined)
          else (case Amount_Neg amt of
             Inl _ \<Rightarrow> ((db, w), Inl ErrChargeInternal)
           | Inr debit \<Rightarrow>
               (case credit_legs (ch_To c) of
                  None \<Rightarrow> ((db, w), Inl ErrChargeInternal)
                | Some credits \<Rightarrow>
                    (case Post env db (charge_tx w c debit credits) of
                       (db', Inl e) \<Rightarrow> ((db', w), Inl (if e = ErrInsufficientFunds then ErrPaymentDeclined else ChargeLedger e))
                     | (db', Inr i) \<Rightarrow> ((db', take_from w (ch_Method c) amt), Inr i)))))"

section \<open>What a payment takes\<close>

lemma credit_legs_eq:
  "credit_legs es = (if \<exists>e\<in>set es. Minor (leg_Amount e) < 0 then None else Some (filter (\<lambda>e. Minor (leg_Amount e) \<noteq> 0) es))"
  by (induction es) (auto simp: Amount_IsZero_def Amount_IsNegative_def)

lemma credit_sum:
  assumes "credit_legs es = Some cs" "\<forall>e\<in>set es. valid_amount (leg_Amount e)"
    "Amount_Sum (map leg_Amount (filter (\<lambda>e. \<not> Amount_IsNegative (leg_Amount e) \<and> \<not> Amount_IsZero (leg_Amount e)) es)) = Inr amt"
  shows "Minor amt = (\<Sum>e\<leftarrow>es. Minor (leg_Amount e))" "valid_amount amt" "0 \<le> Minor amt" "\<forall>e\<in>set cs. valid_amount (leg_Amount e)"
proof -
  define fs where "fs = filter (\<lambda>e. \<not> Amount_IsNegative (leg_Amount e) \<and> \<not> Amount_IsZero (leg_Amount e)) es"
  have nn: "\<forall>e\<in>set es. 0 \<le> Minor (leg_Amount e)" and cs: "cs = filter (\<lambda>e. Minor (leg_Amount e) \<noteq> 0) es"
    using assms(1) by (auto simp: credit_legs_eq split: if_splits)
  have "Minor amt = Minor (FromMinor 0) + (\<Sum>x\<leftarrow>map leg_Amount fs. Minor x) \<and> valid_amount amt"
    using assms(2,3) unfolding Amount_Sum_def fs_def
    by (intro Amount_sum_from_exact) (auto simp: valid_amount_def in64_def list_all_iff)
  moreover have "(\<Sum>e\<leftarrow>fs. Minor (leg_Amount e)) = (\<Sum>e\<leftarrow>es. Minor (leg_Amount e))"
    unfolding fs_def using nn by (induction es) (auto simp: Amount_IsNegative_def Amount_IsZero_def)
  moreover have "0 \<le> (\<Sum>e\<leftarrow>es. Minor (leg_Amount e))" using nn by (induction es) auto
  ultimately show "Minor amt = (\<Sum>e\<leftarrow>es. Minor (leg_Amount e))" "valid_amount amt" "0 \<le> Minor amt" by (simp_all add: comp_def)
  show "\<forall>e\<in>set cs. valid_amount (leg_Amount e)" using assms(2) by (simp add: cs)
qed

lemma leg_sum_nonzero: "leg_sum env (filter (\<lambda>e. Minor (leg_Amount e) \<noteq> 0) es) j = leg_sum env es j"
  by (induction es) (auto simp: leg_sum_def)

lemma leg_sum_Cons: "leg_sum env (e # es) j = (if env_uuid env (leg_AccountID e) = Some j then Minor (leg_Amount e) else 0) + leg_sum env es j"
  by (simp add: leg_sum_def)

lemma charged_sum:
  assumes "Amount_Sum (map leg_Amount (filter (\<lambda>e. \<not> Amount_IsNegative (leg_Amount e) \<and> \<not> Amount_IsZero (leg_Amount e)) es)) = Inr amt"
    "\<forall>e\<in>set es. valid_amount (leg_Amount e)"
  shows "Minor amt = (\<Sum>e\<leftarrow>es. max 0 (Minor (leg_Amount e)))"
proof -
  define fs where "fs = filter (\<lambda>e. \<not> Amount_IsNegative (leg_Amount e) \<and> \<not> Amount_IsZero (leg_Amount e)) es"
  have "Minor amt = Minor (FromMinor 0) + (\<Sum>x\<leftarrow>map leg_Amount fs. Minor x) \<and> valid_amount amt"
    using assms unfolding Amount_Sum_def fs_def
    by (intro Amount_sum_from_exact) (auto simp: valid_amount_def in64_def list_all_iff)
  moreover have "(\<Sum>e\<leftarrow>fs. Minor (leg_Amount e)) = (\<Sum>e\<leftarrow>es. max 0 (Minor (leg_Amount e)))"
    unfolding fs_def by (induction es) (auto simp: Amount_IsNegative_def Amount_IsZero_def)
  ultimately show ?thesis by (simp add: comp_def)
qed

text \<open>
  C20. A payment that returns took exactly the sum of its credits from the purse of the chosen method and
  gave every credited account exactly its credits, no other balance moving; a payment that is refused
  changed neither the ledger nor the wallet, and one for nothing writes nothing.
\<close>

theorem Pay_exact:
  assumes "ledger_ok db" "\<forall>e\<in>set (ch_To c). valid_amount (leg_Amount e)"
    and "env_uuid env (ac_ID (Wallet_Account w (ch_Method c))) = Some (ac_ID (Wallet_Account w (ch_Method c)))"
  defines "paid \<equiv> (\<Sum>e\<leftarrow>ch_To c. max 0 (Minor (leg_Amount e)))"
  shows "case Wallet_Pay env db w c of
      ((db', w'), Inl e) \<Rightarrow> db' = db \<and> w' = w
    | ((db', w'), Inr i) \<Rightarrow> ledger_ok db' \<and>
        (if paid = 0 then db' = db \<and> w' = w
         else \<forall>j. balance_of db' j = balance_of db j + leg_sum env (ch_To c) j - (if j = ac_ID (Wallet_Account w (ch_Method c)) then paid else 0))"
proof (cases "Wallet_Pay env db w c")
  case (Pair s r)
  obtain db' w' where s: "s = (db', w')" by fastforce
  show ?thesis
  proof (cases r)
    case (Inl e)
    have "db' = db \<and> w' = w"
      using Pair unfolding s Inl by (auto simp: Wallet_Pay_def dest: Post_Inl split: sum.splits option.splits prod.splits if_splits)
    then show ?thesis by (simp add: Pair s Inl)
  next
    case (Inr i)
    obtain amt where amt: "Charge_Amount c = Inr amt" using Pair by (auto simp: Inr Wallet_Pay_def split: sum.splits if_splits)
    have p: "paid = Minor amt" using charged_sum [OF amt [unfolded Charge_Amount_def] assms(2)] by (simp add: paid_def)
    show ?thesis
    proof (cases "Minor amt = 0")
      case True
      then have "db' = db \<and> w' = w"
        using Pair unfolding s Inr by (auto simp: Wallet_Pay_def amt Amount_IsZero_def split: if_splits)
      then show ?thesis using assms(1) True by (simp add: Pair s Inr p)
    next
      case False
      then obtain debit credits where d: "Amount_Neg amt = Inr debit" "credit_legs (ch_To c) = Some credits"
          "Post env db (charge_tx w c debit credits) = (db', Inr i)"
        using Pair unfolding s Inr by (auto simp: Wallet_Pay_def amt Amount_IsZero_def split: if_splits sum.splits option.splits prod.splits)
      note cr = credit_sum [OF d(2) assms(2) amt [unfolded Charge_Amount_def]]
      have deb: "Minor debit = - Minor amt" "valid_amount debit"
        using d(1) cr(2,3) by (auto simp: Amount_Neg_eq valid_amount_def in64_def split: if_splits)
      have v: "\<forall>e\<in>set (lt_Entries (charge_tx w c debit credits)). valid_amount (leg_Amount e)"
        using cr(4) deb(2) by (simp add: charge_tx_def)
      have "credits = filter (\<lambda>e. Minor (leg_Amount e) \<noteq> 0) (ch_To c)" using d(2) by (simp add: credit_legs_eq split: if_splits)
      then have "balance_of db' j = balance_of db j + (leg_sum env (ch_To c) j - (if j = ac_ID (Wallet_Account w (ch_Method c)) then Minor amt else 0))" for j
        using Post_moves [OF assms(1) v d(3), of j] deb(1) assms(3) by (simp add: charge_tx_def leg_sum_Cons leg_sum_nonzero)
      moreover have "ledger_ok db'" using Post_ok [OF assms(1) v, of env] d(3) by simp
      ultimately show ?thesis using False by (simp add: Pair s Inr p)
    qed
  qed
qed

definition demo_purses :: purses where
  "demo_purses = \<lparr>pu_PlayerID = ''p'', pu_Cash = db_accounts demo_ledger ! 1, pu_Bank = db_accounts demo_ledger ! 2\<rparr>"

definition demo_charge :: charge where
  "demo_charge = \<lparr>ch_Method = PayCash, ch_Accepted = [], ch_Reason = ''bail'', ch_ReferenceType = '''', ch_ReferenceID = '''',
     ch_To = [\<lparr>leg_AccountID = ''b'', leg_Amount = FromMinor 40\<rparr>], ch_CreatedAt = 9, ch_ID = ''''\<rparr>"

theorem Pay_exact_witness:
  "\<exists>db' w'. Wallet_Pay demo_env demo_ledger demo_purses demo_charge = ((db', w'), Inr ''n1'') \<and> balance_of db' ''a'' = 60 \<and> balance_of db' ''b'' = 40"
proof -
  have v: "\<forall>e\<in>set (ch_To demo_charge). valid_amount (leg_Amount e)" by code_simp
  have u: "env_uuid demo_env (ac_ID (Wallet_Account demo_purses (ch_Method demo_charge))) = Some (ac_ID (Wallet_Account demo_purses (ch_Method demo_charge)))"
    by code_simp
  obtain db' w' r where p: "Wallet_Pay demo_env demo_ledger demo_purses demo_charge = ((db', w'), r)" by (metis surj_pair)
  have "snd (Wallet_Pay demo_env demo_ledger demo_purses demo_charge) = Inr ''n1''" by code_simp
  then have r: "r = Inr ''n1''" by (simp add: p)
  have f: "(\<Sum>e\<leftarrow>ch_To demo_charge. max 0 (Minor (leg_Amount e))) = 40" "ac_ID (Wallet_Account demo_purses (ch_Method demo_charge)) = ''a''"
    "leg_sum demo_env (ch_To demo_charge) ''a'' = 0" "leg_sum demo_env (ch_To demo_charge) ''b'' = 40"
    "balance_of demo_ledger ''a'' = 100" "balance_of demo_ledger ''b'' = 0" by code_simp+
  from Pay_exact [OF demo_ledger_ok v u] have "\<forall>j. balance_of db' j = balance_of demo_ledger j + leg_sum demo_env (ch_To demo_charge) j - (if j = ''a'' then 40 else 0)"
    by (simp add: p r f)
  then show ?thesis using p r f by simp
qed

text \<open>When a payment is refused.\<close>

lemma Pay_declined:
  assumes "pay_Valid (ch_Method c)" "Accepts_Has (ch_Accepted c) (ch_Method c)" "Charge_Amount c = Inr amt" "0 < Minor amt"
    and "ac_Balance (Wallet_Account w (ch_Method c)) < Minor amt"
  shows "Wallet_Pay env db w c = ((db, w), Inl ErrPaymentDeclined)"
  using assms by (auto simp: Wallet_Pay_def Amount_IsZero_def Wallet_Covers_def Wallet_Balance_def Balances_def Wallet_Account_def split: if_splits)

lemma Pay_not_accepted:
  "\<not> pay_Valid (ch_Method c) \<or> \<not> Accepts_Has (ch_Accepted c) (ch_Method c) \<Longrightarrow> Wallet_Pay env db w c = ((db, w), Inl ErrPaymentNotAccepted)"
  by (auto simp: Wallet_Pay_def)

end
