(* ===== verification/Unit_Of_Work.thy ===== *)
theory Unit_Of_Work
  imports Go_Base
begin

text \<open>
  \<^verbatim>\<open>internal/infrastructure/postgres/uow.go\<close>: one database transaction. A function run inside it is a
  \<open>tx\<close>: from the rows to the rows and either an error or a value, \<open>tx_bind\<close> being the
  \<^verbatim>\<open>if err != nil { return err }\<close> between two calls. \<open>uow_Do\<close> commits what succeeds and gives back the rows it
  started from when anything fails. \<open>tx_keeps\<close> says a transaction keeps an invariant of the rows,
  whether it succeeds or not; its rules are the collection \<open>tx_rules\<close>.
\<close>

type_synonym ('s, 'e, 'a) tx = "'s \<Rightarrow> 's \<times> ('e + 'a)"

named_theorems tx_rules "what keeps an invariant through a transaction"

definition tx_return :: "'a \<Rightarrow> ('s, 'e, 'a) tx" where
  "tx_return a s = (s, Inr a)"

definition tx_fail :: "'e \<Rightarrow> ('s, 'e, 'a) tx" where
  "tx_fail e s = (s, Inl e)"

definition tx_bind :: "('s, 'e, 'a) tx \<Rightarrow> ('a \<Rightarrow> ('s, 'e, 'b) tx) \<Rightarrow> ('s, 'e, 'b) tx" where
  "tx_bind m f s = (case m s of (s', r) \<Rightarrow> (case r of Inl e \<Rightarrow> (s', Inl e) | Inr a \<Rightarrow> f a s'))"

text \<open>An answer that was read and changes nothing, and a check that may refuse.\<close>

definition tx_lift :: "'e + 'a \<Rightarrow> ('s, 'e, 'a) tx" where
  "tx_lift r s = (s, r)"

definition tx_check :: "'e option \<Rightarrow> ('s, 'e, unit) tx" where
  "tx_check c s = (s, case c of Some e \<Rightarrow> Inl e | None \<Rightarrow> Inr ())"

definition tx_get :: "('s, 'e, 's) tx" where
  "tx_get s = (s, Inr s)"

definition tx_put :: "'s \<Rightarrow> ('s, 'e, unit) tx" where
  "tx_put s' s = (s', Inr ())"

text \<open>\<open>cannot_begin\<close> and \<open>cannot_commit\<close> are the database's answers to \<open>BEGIN\<close> and \<open>COMMIT\<close>.\<close>

definition uow_Do :: "'e option \<Rightarrow> 'e option \<Rightarrow> ('s, 'e, 'a) tx \<Rightarrow> ('s, 'e, 'a) tx" where
  "uow_Do cannot_begin cannot_commit m s =
     (case cannot_begin of
        Some e \<Rightarrow> (s, Inl e)
      | None \<Rightarrow>
          (case m s of
             (_, Inl e) \<Rightarrow> (s, Inl e)
           | (s', Inr a) \<Rightarrow> (case cannot_commit of Some e \<Rightarrow> (s, Inl e) | None \<Rightarrow> (s', Inr a))))"

text \<open>A loop over values that stops at the first error, and a caller that goes on after one.\<close>

fun tx_each :: "('a \<Rightarrow> ('s, 'e, unit) tx) \<Rightarrow> 'a list \<Rightarrow> ('s, 'e, unit) tx" where
  "tx_each f [] = tx_return ()"
| "tx_each f (x # xs) = tx_bind (f x) (\<lambda>_. tx_each f xs)"

definition tx_catch :: "('s, 'e, 'a) tx \<Rightarrow> ('e \<Rightarrow> ('s, 'e, 'a) tx) \<Rightarrow> ('s, 'e, 'a) tx" where
  "tx_catch m f s = (case m s of (s', r) \<Rightarrow> (case r of Inl e \<Rightarrow> f e s' | Inr a \<Rightarrow> (s', Inr a)))"

section \<open>Running\<close>

lemma tx_simps [simp]:
  "tx_return a s = (s, Inr a)" "tx_fail e s = (s, Inl e)" "tx_lift r s = (s, r)" "tx_get s = (s, Inr s)" "tx_put s' s = (s', Inr ())"
  "tx_check None s = (s, Inr ())" "tx_check (Some e) s = (s, Inl e)"
  by (simp_all add: tx_return_def tx_fail_def tx_lift_def tx_get_def tx_put_def tx_check_def)

lemma tx_bind_run: "m s = (s', Inr a) \<Longrightarrow> tx_bind m f s = f a s'" "m s = (s', Inl e) \<Longrightarrow> tx_bind m f s = (s', Inl e)"
  by (simp_all add: tx_bind_def)

lemma tx_bind_simps [simp]:
  "tx_bind (tx_return a) f s = f a s" "tx_bind (tx_fail e) f1 s = (s, Inl e)" "tx_bind (tx_lift (Inr a)) f s = f a s"
  "tx_bind (tx_lift (Inl e)) f1 s = (s, Inl e)" "tx_bind (tx_check (Some e)) f2 s = (s, Inl e)"
  by (simp_all add: tx_bind_def)

lemma tx_bind_state [simp]: "tx_bind tx_get f s = f s s" "tx_bind (tx_put s') g s = g () s'" "tx_bind (tx_check None) g s = g () s"
  by (simp_all add: tx_bind_def)

lemma tx_bind_Inr: "tx_bind m f s = (s', Inr b) \<longleftrightarrow> (\<exists>s1 a. m s = (s1, Inr a) \<and> f a s1 = (s', Inr b))"
  by (auto simp: tx_bind_def split: prod.splits sum.splits)

lemma tx_bind_InrE:
  assumes "tx_bind m f s = (s', Inr b)"
  obtains s1 a where "m s = (s1, Inr a)" "f a s1 = (s', Inr b)"
  using assms by (auto simp: tx_bind_Inr)

lemma tx_lift_Inr [simp]: "tx_lift r s = (s', Inr a) \<longleftrightarrow> s' = s \<and> r = Inr a"
  by (auto simp: tx_lift_def)

lemma tx_check_Inr [simp]: "tx_check c s = (s', Inr a) \<longleftrightarrow> s' = s \<and> c = None"
  by (auto simp: tx_check_def split: option.splits)

lemma tx_if_Inr: "(if b then m else n) s = (s', r) \<longleftrightarrow> (if b then m s = (s', r) else n s = (s', r))"
  by simp

lemma uow_Do_Inl: "uow_Do cb cc m s = (s', Inl e) \<Longrightarrow> s' = s"
  by (auto simp: uow_Do_def split: option.splits prod.splits sum.splits)

lemma uow_Do_Inr: "uow_Do cb cc m s = (s', Inr a) \<longleftrightarrow> cb = None \<and> cc = None \<and> m s = (s', Inr a)"
  by (auto simp: uow_Do_def split: option.splits prod.splits sum.splits)

section \<open>Keeping an invariant\<close>

definition tx_keeps :: "('s \<Rightarrow> bool) \<Rightarrow> ('s, 'e, 'a) tx \<Rightarrow> bool" where
  "tx_keeps I m \<longleftrightarrow> (\<forall>s. I s \<longrightarrow> I (fst (m s)))"

lemma tx_keepsD: "tx_keeps I m \<Longrightarrow> I s \<Longrightarrow> m s = (s', r) \<Longrightarrow> I s'"
  unfolding tx_keeps_def by force

lemma tx_keeps_bind [tx_rules]: "tx_keeps I m \<Longrightarrow> (\<And>a. tx_keeps I (f a)) \<Longrightarrow> tx_keeps I (tx_bind m f)"
  unfolding tx_keeps_def tx_bind_def by (force split: prod.splits sum.splits)

lemma tx_keeps_basic [tx_rules]:
  "tx_keeps I (tx_return a)" "tx_keeps I (tx_fail e)" "tx_keeps I (tx_lift r)" "tx_keeps I (tx_check c)" "tx_keeps I tx_get"
  by (simp_all add: tx_keeps_def tx_check_def)

lemma tx_keeps_if [tx_rules]: "(b \<Longrightarrow> tx_keeps I m) \<Longrightarrow> (\<not> b \<Longrightarrow> tx_keeps I n) \<Longrightarrow> tx_keeps I (if b then m else n)"
  by simp

lemma tx_keeps_each [tx_rules]: "(\<And>x. x \<in> set xs \<Longrightarrow> tx_keeps I (f x)) \<Longrightarrow> tx_keeps I (tx_each f xs)"
  by (induction xs) (auto intro: tx_keeps_bind tx_keeps_basic)

lemma tx_keeps_catch [tx_rules]: "tx_keeps I m \<Longrightarrow> (\<And>e. tx_keeps I (f e)) \<Longrightarrow> tx_keeps I (tx_catch m f)"
  unfolding tx_keeps_def tx_catch_def by (force split: prod.splits sum.splits)

lemma tx_keeps_Do [tx_rules]: "tx_keeps I m \<Longrightarrow> tx_keeps I (uow_Do cb cc m)"
  unfolding tx_keeps_def uow_Do_def by (force split: option.splits prod.splits sum.splits)

end
