(* ===== verification/Outbox.thy ===== *)
theory Outbox
  imports Ledger Unit_Of_Work
begin

text \<open>
  The transactional outbox and the consumers' inbox: \<^verbatim>\<open>internal/infrastructure/postgres/outbox.go\<close> and
  \<^verbatim>\<open>inbox.go\<close>, the envelope of \<^verbatim>\<open>internal/messaging/nats/envelope\<close>, the event of
  \<^verbatim>\<open>internal/shared/events\<close> and the worker of \<^verbatim>\<open>cmd/worker\<close>. The state is the rows of \<open>outbox\<close> and
  \<open>inbox_messages\<close> and the \<open>wire\<close>, every message the broker took. \<open>outbox_step\<close> interleaves the committed
  transactions and any number of workers statement by statement, crashes included; the properties say
  what is never lost and what may be repeated. JSON is taken as a value; the broker's duplicate window
  is not modelled, so that nothing rests on it.
\<close>

section \<open>Envelopes and events\<close>

datatype json = JNull | JBool bool | JInt int | JText string | JArr "json list" | JObj "(string \<times> json) list"

record metadata =
  md_RequestID :: string
  md_TraceID :: string
  md_PlayerID :: string
  md_TelegramUserID :: int
  md_TelegramChatID :: int
  md_BotID :: string
  md_ChatType :: string
  md_Command :: string
  md_Language :: string
  md_IdempotencyKey :: string
  md_SchemaVersion :: int
  md_EventID :: string

definition Metadata_MessageID :: "metadata \<Rightarrow> string" where
  "Metadata_MessageID m = (if md_EventID m \<noteq> '''' then md_EventID m else md_RequestID m)"

definition InGroup :: "metadata \<Rightarrow> bool" where
  "InGroup m \<longleftrightarrow> md_ChatType m = ''group'' \<or> md_ChatType m = ''supergroup'' \<or> md_TelegramChatID m < 0"

definition Metadata_Validate :: "metadata \<Rightarrow> bool" where
  "Metadata_Validate m \<longleftrightarrow> md_RequestID m \<noteq> '''' \<and> md_TraceID m \<noteq> '''' \<and> md_Command m \<noteq> '''' \<and> md_SchemaVersion m = 1"

record domain_event =
  de_ID :: string
  de_Name :: string
  de_SchemaVersion :: int
  de_OccurredAt :: go_time
  de_AggregateType :: string
  de_AggregateID :: string
  de_Payload :: json

definition Event_Validate :: "domain_event \<Rightarrow> bool" where
  "Event_Validate e \<longleftrightarrow> de_Name e \<noteq> '''' \<and> de_SchemaVersion e \<noteq> 0 \<and> \<not> time_IsZero (de_OccurredAt e) \<and> de_AggregateType e \<noteq> '''' \<and> de_AggregateID e \<noteq> ''''"

definition events_New :: "string \<Rightarrow> go_time \<Rightarrow> string \<Rightarrow> string \<Rightarrow> string \<Rightarrow> json \<Rightarrow> domain_event option" where
  "events_New i at name aggregateType aggregateID payload =
     (let e = \<lparr>de_ID = i, de_Name = name, de_SchemaVersion = 1, de_OccurredAt = at, de_AggregateType = aggregateType,
               de_AggregateID = aggregateID, de_Payload = payload\<rparr> in
      if Event_Validate e then Some e else None)"

definition subjects_Event :: "string \<Rightarrow> string \<Rightarrow> string" where
  "subjects_Event domain event = ''game.event.'' @ domain @ ''.'' @ event @ ''.v1''"

section \<open>The rows\<close>

datatype outbox_status = StatusPending | StatusPublished | StatusFailed

datatype raw_payload = RawEmpty | RawJSON json | RawInvalid

record outbox_record =
  ore_EventID :: string
  ore_Subject :: string
  ore_Metadata :: metadata
  ore_Payload :: raw_payload

record outbox_row =
  ob_ID :: int
  ob_EventID :: string
  ob_Subject :: string
  ob_Metadata :: metadata
  ob_Payload :: json
  ob_Status :: outbox_status
  ob_Attempts :: int
  ob_CreatedAt :: go_time
  ob_PublishedAt :: "go_time option"

datatype outbox_error = ErrSubjectRequired | ErrPayloadJSON | ErrFetchLimit | OutboxPostgres

definition normalizeJSON :: "raw_payload \<Rightarrow> outbox_error + json" where
  "normalizeJSON raw = (case raw of RawEmpty \<Rightarrow> Inr (JObj []) | RawJSON j \<Rightarrow> Inr j | RawInvalid \<Rightarrow> Inl ErrPayloadJSON)"

text \<open>\<open>no\<close> is the next value of the sequence behind \<open>bigserial\<close>.\<close>

definition outbox_Append :: "ledger_env \<Rightarrow> int \<Rightarrow> outbox_row list \<Rightarrow> outbox_record \<Rightarrow> outbox_row list \<times> outbox_error option" where
  "outbox_Append env no rows rec =
     (let eventID = ensureID env (ore_EventID rec) in
      if ore_Subject rec = '''' then (rows, Some ErrSubjectRequired)
      else case normalizeJSON (ore_Payload rec) of
        Inl e \<Rightarrow> (rows, Some e)
      | Inr payload \<Rightarrow>
          (case env_uuid env eventID of
             None \<Rightarrow> (rows, Some OutboxPostgres)
           | Some i \<Rightarrow>
               if \<exists>r\<in>set rows. ob_ID r = no \<or> ob_EventID r = i then (rows, Some OutboxPostgres)
               else (rows @ [\<lparr>ob_ID = no, ob_EventID = i, ob_Subject = ore_Subject rec, ob_Metadata = ore_Metadata rec, ob_Payload = payload,
                       ob_Status = StatusPending, ob_Attempts = 0, ob_CreatedAt = env_now env, ob_PublishedAt = None\<rparr>], None)))"

section \<open>The publisher's store\<close>

record pending_event =
  pe_ID :: int
  pe_EventID :: string
  pe_Subject :: string
  pe_Metadata :: metadata
  pe_Payload :: json
  pe_Attempts :: int

definition row_event :: "outbox_row \<Rightarrow> pending_event" where
  "row_event r = \<lparr>pe_ID = ob_ID r, pe_EventID = ob_EventID r, pe_Subject = ob_Subject r, pe_Metadata = ob_Metadata r,
     pe_Payload = ob_Payload r, pe_Attempts = ob_Attempts r\<rparr>"

text \<open>
  \<open>locked\<close> are the rows another statement holds at that moment, which are skipped; \<open>plan\<close> is the order
  in which the planner's join returns the claimed rows, which SQL leaves open.
\<close>

definition claimed :: "int set \<Rightarrow> nat \<Rightarrow> outbox_row list \<Rightarrow> outbox_row list" where
  "claimed locked limit rows =
     take limit (sort_by (\<lambda>a b. ob_ID a < ob_ID b) (filter (\<lambda>r. ob_Status r = StatusPending \<and> ob_ID r \<notin> locked) rows))"

definition FetchPending :: "int set \<Rightarrow> (pending_event list \<Rightarrow> pending_event list) \<Rightarrow> nat \<Rightarrow> outbox_row list \<Rightarrow> outbox_row list \<times> (outbox_error + pending_event list)" where
  "FetchPending locked plan limit rows =
     (if limit = 0 then (rows, Inl ErrFetchLimit)
      else
        let ids = set (map ob_ID (claimed locked limit rows));
            bump = (\<lambda>r. r\<lparr>ob_Attempts := ob_Attempts r + 1\<rparr>) in
        if \<exists>r\<in>set (claimed locked limit rows). ob_Attempts r + 1 > MaxInt32 then (rows, Inl OutboxPostgres)
        else (map (\<lambda>r. if ob_ID r \<in> ids then bump r else r) rows,
              Inr (plan (map (row_event \<circ> bump) (claimed locked limit rows)))))"

definition MarkPublished :: "ledger_env \<Rightarrow> outbox_row list \<Rightarrow> string list \<Rightarrow> outbox_row list \<times> outbox_error option" where
  "MarkPublished env rows eventIDs =
     (if eventIDs = [] then (rows, None)
      else if \<exists>i\<in>set eventIDs. env_uuid env i = None then (rows, Some OutboxPostgres)
      else (map (\<lambda>r. if (\<exists>i\<in>set eventIDs. env_uuid env i = Some (ob_EventID r)) \<and> ob_Status r = StatusPending
                 then r\<lparr>ob_Status := StatusPublished, ob_PublishedAt := Some (env_now env)\<rparr> else r) rows, None))"

section \<open>The worker\<close>

record message =
  ms_Subject :: string
  ms_Metadata :: metadata
  ms_Payload :: json
  ms_MsgID :: string

definition event_message :: "pending_event \<Rightarrow> message" where
  "event_message ev = \<lparr>ms_Subject = pe_Subject ev, ms_Metadata = (pe_Metadata ev)\<lparr>md_EventID := pe_EventID ev\<rparr>,
     ms_Payload = pe_Payload ev, ms_MsgID = pe_EventID ev\<rparr>"

text \<open>What the broker does with one publish: takes it, takes it and the acknowledgement is lost, or never gets it.\<close>

datatype broker_answer = Acked | AckLost | Refused

definition broker_publish :: "broker_answer \<Rightarrow> pending_event \<Rightarrow> message list \<Rightarrow> message list \<times> bool" where
  "broker_publish a ev wire = ((if a = Refused then wire else wire @ [event_message ev]), a = Acked)"

fun publish_all :: "(pending_event \<Rightarrow> broker_answer) \<Rightarrow> pending_event list \<Rightarrow> message list \<Rightarrow> message list \<times> string list \<times> bool" where
  "publish_all br [] wire = (wire, [], True)"
| "publish_all br (ev # evs) wire =
     (case broker_publish (br ev) ev wire of (wire', ok) \<Rightarrow>
        (case publish_all br evs wire' of (wire'', published, all_ok) \<Rightarrow>
           (wire'', (if ok then pe_EventID ev # published else published), ok \<and> all_ok)))"

text \<open>How many events reached the broker, and whether nothing failed. \<open>mark_fails\<close> is the database refusing the last statement.\<close>

definition publishBatch :: "ledger_env \<Rightarrow> int set \<Rightarrow> (pending_event list \<Rightarrow> pending_event list) \<Rightarrow> nat \<Rightarrow> (pending_event \<Rightarrow> broker_answer) \<Rightarrow> bool \<Rightarrow>
    outbox_row list \<times> message list \<Rightarrow> (outbox_row list \<times> message list) \<times> nat \<times> bool" where
  "publishBatch env locked plan batch br mark_fails s =
     (case s of (rows, wire) \<Rightarrow>
        (case FetchPending locked plan batch rows of
           (rows1, Inl e) \<Rightarrow> ((rows1, wire), 0, False)
         | (rows1, Inr pending) \<Rightarrow>
             if pending = [] then ((rows1, wire), 0, True)
             else (case publish_all br pending wire of (wire', published, all_ok) \<Rightarrow>
               if published = [] then ((rows1, wire'), 0, all_ok)
               else if mark_fails then ((rows1, wire'), length published, False)
               else (case MarkPublished env rows1 published of
                 (rows2, Some e) \<Rightarrow> ((rows2, wire'), length published, False)
               | (rows2, None) \<Rightarrow> ((rows2, wire'), length published, all_ok)))))"

section \<open>The inbox\<close>

definition MarkProcessed :: "(string \<times> string) list \<Rightarrow> string \<Rightarrow> string \<Rightarrow> (string \<times> string) list \<times> bool option" where
  "MarkProcessed inbox messageID consumer =
     (if messageID = '''' \<or> consumer = '''' then (inbox, None)
      else if (messageID, consumer) \<in> set inbox then (inbox, Some False)
      else (inbox @ [(messageID, consumer)], Some True))"

definition inbox_Processed :: "(string \<times> string) list \<Rightarrow> string \<Rightarrow> string \<Rightarrow> bool option" where
  "inbox_Processed inbox messageID consumer =
     (if messageID = '''' \<or> consumer = '''' then None else Some ((messageID, consumer) \<in> set inbox))"

section \<open>Workers and transactions, interleaved\<close>

text \<open>\<open>rl_todo\<close> is what a worker has fetched and not tried yet, \<open>rl_done\<close> what it saw acknowledged.\<close>

record relay =
  rl_rows :: "outbox_row list"
  rl_wire :: "message list"
  rl_todo :: "nat \<Rightarrow> pending_event list"
  rl_done :: "nat \<Rightarrow> string list"

text \<open>\<open>uuid\<close> is how the database reads the text of a uuid, the same for every statement.\<close>

inductive relay_step :: "(string \<Rightarrow> string option) \<Rightarrow> relay \<Rightarrow> relay \<Rightarrow> bool" for uuid where
  commit: "env_uuid env = uuid \<Longrightarrow> outbox_Append env no (rl_rows s) rec = (rows', None) \<Longrightarrow> relay_step uuid s (s\<lparr>rl_rows := rows'\<rparr>)"
| fetch: "\<forall>xs. set (plan xs) = set xs \<Longrightarrow> FetchPending locked plan limit (rl_rows s) = (rows', Inr evs) \<Longrightarrow>
    relay_step uuid s (s\<lparr>rl_rows := rows', rl_todo := (rl_todo s)(w := evs), rl_done := (rl_done s)(w := [])\<rparr>)"
| publish: "rl_todo s w = ev # evs \<Longrightarrow> broker_publish a ev (rl_wire s) = (wire', ok) \<Longrightarrow>
    relay_step uuid s (s\<lparr>rl_wire := wire', rl_todo := (rl_todo s)(w := evs),
      rl_done := (rl_done s)(w := (if ok then rl_done s w @ [pe_EventID ev] else rl_done s w))\<rparr>)"
| mark: "env_uuid env = uuid \<Longrightarrow> rl_todo s w = [] \<Longrightarrow> MarkPublished env (rl_rows s) (rl_done s w) = (rows', None) \<Longrightarrow>
    relay_step uuid s (s\<lparr>rl_rows := rows', rl_done := (rl_done s)(w := [])\<rparr>)"
| crash: "relay_step uuid s (s\<lparr>rl_todo := (rl_todo s)(w := []), rl_done := (rl_done s)(w := [])\<rparr>)"

definition relay_init :: relay where
  "relay_init = \<lparr>rl_rows = [], rl_wire = [], rl_todo = (\<lambda>_. []), rl_done = (\<lambda>_. [])\<rparr>"

inductive relay_reach :: "(string \<Rightarrow> string option) \<Rightarrow> relay \<Rightarrow> bool" for uuid where
  init: "relay_reach uuid relay_init"
| step: "relay_reach uuid s \<Longrightarrow> relay_step uuid s s' \<Longrightarrow> relay_reach uuid s'"

text \<open>What a row says of its event never changes; only the status, the attempts and the time of publication do.\<close>

definition row_content :: "outbox_row \<Rightarrow> int \<times> string \<times> string \<times> metadata \<times> json" where
  "row_content r = (ob_ID r, ob_EventID r, ob_Subject r, ob_Metadata r, ob_Payload r)"

definition event_content :: "pending_event \<Rightarrow> int \<times> string \<times> string \<times> metadata \<times> json" where
  "event_content e = (pe_ID e, pe_EventID e, pe_Subject e, pe_Metadata e, pe_Payload e)"

definition message_of :: "outbox_row \<Rightarrow> message" where
  "message_of r = event_message (row_event r)"

lemma row_event_content [simp]: "event_content (row_event r) = row_content r"
  by (simp add: event_content_def row_content_def row_event_def)

lemma event_message_content: "event_content e = row_content r \<Longrightarrow> event_message e = message_of r"
  by (simp add: event_content_def row_content_def message_of_def event_message_def row_event_def)

lemma message_of_content: "row_content r = row_content r' \<Longrightarrow> message_of r = message_of r'"
  by (simp add: row_content_def message_of_def event_message_def row_event_def)

lemma message_of_id [simp]: "ms_MsgID (message_of r) = ob_EventID r"
  by (simp add: message_of_def event_message_def row_event_def)

lemma row_content_id: "row_content r = row_content r' \<Longrightarrow> ob_EventID r = ob_EventID r' \<and> ob_ID r = ob_ID r'"
  by (simp add: row_content_def)

definition rows_ok :: "(string \<Rightarrow> string option) \<Rightarrow> outbox_row list \<Rightarrow> message list \<Rightarrow> bool" where
  "rows_ok uuid rows wire \<longleftrightarrow>
     distinct (map ob_ID rows) \<and> distinct (map ob_EventID rows) \<and>
     (\<forall>r\<in>set rows. uuid (ob_EventID r) = Some (ob_EventID r)) \<and>
     (\<forall>r\<in>set rows. ob_Status r \<noteq> StatusPending \<longrightarrow> message_of r \<in> set wire) \<and>
     set wire \<subseteq> message_of ` set rows"

definition todo_ok :: "outbox_row list \<Rightarrow> pending_event list \<Rightarrow> bool" where
  "todo_ok rows evs \<longleftrightarrow> event_content ` set evs \<subseteq> row_content ` set rows"

definition done_ok :: "outbox_row list \<Rightarrow> message list \<Rightarrow> string list \<Rightarrow> bool" where
  "done_ok rows wire is \<longleftrightarrow> set is \<subseteq> ob_EventID ` {r \<in> set rows. message_of r \<in> set wire}"

definition relay_ok :: "(string \<Rightarrow> string option) \<Rightarrow> relay \<Rightarrow> bool" where
  "relay_ok uuid s \<longleftrightarrow> rows_ok uuid (rl_rows s) (rl_wire s) \<and>
     (\<forall>w. todo_ok (rl_rows s) (rl_todo s w)) \<and> (\<forall>w. done_ok (rl_rows s) (rl_wire s) (rl_done s w))"

text \<open>An update of rows that keeps their contents keeps everything said of contents.\<close>

lemma content_map:
  assumes f: "\<And>r. row_content (f r) = row_content r"
  shows "map ob_ID (map f rows) = map ob_ID rows" "map ob_EventID (map f rows) = map ob_EventID rows"
    "row_content ` set (map f rows) = row_content ` set rows" "message_of (f r) = message_of r" "ob_EventID (f r) = ob_EventID r"
proof -
  show "map ob_ID (map f rows) = map ob_ID rows" "map ob_EventID (map f rows) = map ob_EventID rows"
    using row_content_id [OF f] by simp_all
  show "row_content ` set (map f rows) = row_content ` set rows" using f by (simp add: image_image)
  show "message_of (f r) = message_of r" "ob_EventID (f r) = ob_EventID r"
    using message_of_content [OF f] row_content_id [OF f] by simp_all
qed

lemma claimed_pending: "r \<in> set (claimed locked limit rows) \<Longrightarrow> r \<in> set rows \<and> ob_Status r = StatusPending"
  unfolding claimed_def by (auto dest: in_set_takeD)

lemma FetchPending_Inr:
  assumes "FetchPending locked plan limit rows = (rows', Inr evs)" "\<forall>xs. set (plan xs) = set xs"
  shows "\<exists>f. (\<forall>r. row_content (f r) = row_content r \<and> ob_Status (f r) = ob_Status r) \<and> rows' = map f rows"
    "\<forall>e\<in>set evs. event_content e \<in> row_content ` set rows"
proof -
  let ?c = "claimed locked limit rows"
  let ?f = "\<lambda>r. if ob_ID r \<in> set (map ob_ID ?c) then r\<lparr>ob_Attempts := ob_Attempts r + 1\<rparr> else r"
  have r: "rows' = map ?f rows" and e: "evs = plan (map (row_event \<circ> (\<lambda>r. r\<lparr>ob_Attempts := ob_Attempts r + 1\<rparr>)) ?c)"
    using assms(1) by (auto simp: FetchPending_def Let_def split: if_splits)
  have "\<forall>r. row_content (?f r) = row_content r \<and> ob_Status (?f r) = ob_Status r" by (simp add: row_content_def)
  with r show "\<exists>f. (\<forall>r. row_content (f r) = row_content r \<and> ob_Status (f r) = ob_Status r) \<and> rows' = map f rows"
    by (intro exI [of _ ?f] conjI)
  have "row_content (r\<lparr>ob_Attempts := n\<rparr>) = row_content r" for r n by (simp add: row_content_def)
  with e assms(2) claimed_pending show "\<forall>e\<in>set evs. event_content e \<in> row_content ` set rows" by fastforce
qed

lemma MarkPublished_None:
  assumes "MarkPublished env rows is = (rows', None)"
  shows "\<exists>f. (\<forall>r. row_content (f r) = row_content r \<and> (ob_Status (f r) = ob_Status r \<or> (\<exists>i\<in>set is. env_uuid env i = Some (ob_EventID r)))) \<and> rows' = map f rows"
proof -
  let ?f = "\<lambda>r. if (\<exists>i\<in>set is. env_uuid env i = Some (ob_EventID r)) \<and> ob_Status r = StatusPending
                 then r\<lparr>ob_Status := StatusPublished, ob_PublishedAt := Some (env_now env)\<rparr> else r"
  have "rows' = map ?f rows \<or> rows' = map id rows" using assms by (auto simp: MarkPublished_def split: if_splits)
  moreover have "\<forall>r. row_content (?f r) = row_content r \<and> (ob_Status (?f r) = ob_Status r \<or> (\<exists>i\<in>set is. env_uuid env i = Some (ob_EventID r)))"
    by (simp add: row_content_def)
  moreover have "\<forall>r. row_content (id r) = row_content r \<and> (ob_Status (id r) = ob_Status r \<or> (\<exists>i\<in>set is. env_uuid env i = Some (ob_EventID r)))"
    by simp
  ultimately show ?thesis by (elim disjE) (intro exI [of _ ?f] conjI, assumption+, intro exI [of _ id] conjI, assumption+)
qed

lemma Append_None:
  assumes "outbox_Append env no rows rec = (rows', None)"
  obtains r where "rows' = rows @ [r]" "ob_ID r \<notin> set (map ob_ID rows)" "ob_EventID r \<notin> set (map ob_EventID rows)"
    "ob_Status r = StatusPending" "env_uuid env (ensureID env (ore_EventID rec)) = Some (ob_EventID r)"
  using assms by (force simp: outbox_Append_def Let_def split: if_splits sum.splits option.splits)

lemma rows_ok_map:
  assumes ok: "rows_ok uuid rows wire" and f: "\<And>r. row_content (f r) = row_content r"
    and st: "\<forall>r\<in>set rows. ob_Status (f r) \<noteq> StatusPending \<longrightarrow> message_of r \<in> set wire"
  shows "rows_ok uuid (map f rows) wire"
proof -
  note cm = content_map [where f = f, OF f]
  have "message_of ` set (map f rows) = message_of ` set rows" by (simp add: image_image cm)
  then show ?thesis using ok st unfolding rows_ok_def cm by (auto simp: cm)
qed

lemma todo_ok_map: "(\<And>r. row_content (f r) = row_content r) \<Longrightarrow> todo_ok (map f rows) evs = todo_ok rows evs"
  unfolding todo_ok_def using content_map(3) [where f = f] by metis

lemma done_ok_map:
  assumes f: "\<And>r. row_content (f r) = row_content r"
  shows "done_ok (map f rows) wire is = done_ok rows wire is"
proof -
  note cm = content_map [where f = f, OF f]
  have "{r \<in> set (map f rows). message_of r \<in> set wire} = f ` {r \<in> set rows. message_of r \<in> set wire}" by (auto simp: cm)
  then show ?thesis by (simp add: done_ok_def image_image cm)
qed

lemma more_rows: "todo_ok rows evs \<Longrightarrow> todo_ok (rows @ rs) evs" "done_ok rows wire is \<Longrightarrow> done_ok (rows @ rs) wire is"
  by (auto simp: todo_ok_def done_ok_def)

lemma done_ok_wire: "done_ok rows wire is \<Longrightarrow> set wire \<subseteq> set wire' \<Longrightarrow> done_ok rows wire' is"
  by (auto simp: done_ok_def)

lemma rows_ok_commit:
  assumes "rows_ok uuid rows wire" "ob_ID r \<notin> set (map ob_ID rows)" "ob_EventID r \<notin> set (map ob_EventID rows)"
    "ob_Status r = StatusPending" "uuid (ob_EventID r) = Some (ob_EventID r)"
  shows "rows_ok uuid (rows @ [r]) wire"
  using assms by (auto simp: rows_ok_def)

lemma rows_ok_wire: "rows_ok uuid rows wire \<Longrightarrow> r \<in> set rows \<Longrightarrow> rows_ok uuid rows (wire @ [message_of r])"
  by (auto simp: rows_ok_def)

lemma relay_ok_step:
  assumes ok: "relay_ok uuid s" and canonical: "\<And>x y. uuid x = Some y \<Longrightarrow> uuid y = Some y" and "relay_step uuid s s'"
  shows "relay_ok uuid s'"
  using assms(3)
proof cases
  case (commit env no rec rows')
  obtain r where r: "rows' = rl_rows s @ [r]" "ob_ID r \<notin> set (map ob_ID (rl_rows s))" "ob_EventID r \<notin> set (map ob_EventID (rl_rows s))"
      "ob_Status r = StatusPending" "env_uuid env (ensureID env (ore_EventID rec)) = Some (ob_EventID r)"
    using Append_None [OF commit(3)] by blast
  then have c: "uuid (ob_EventID r) = Some (ob_EventID r)" using canonical commit(2) by blast
  have "rows_ok uuid (rl_rows s @ [r]) (rl_wire s)" using ok c r(2-4) by (intro rows_ok_commit) (simp_all add: relay_ok_def)
  then show ?thesis using ok by (simp add: commit(1) r(1) relay_ok_def more_rows)
next
  case (fetch plan locked limit rows' evs w)
  note F = FetchPending_Inr [OF fetch(3,2)]
  obtain f where f: "\<And>r. row_content (f r) = row_content r" "\<And>r. ob_Status (f r) = ob_Status r" and rows': "rows' = map f (rl_rows s)"
    using F(1) by blast
  have "rows_ok uuid (map f (rl_rows s)) (rl_wire s)"
    by (rule rows_ok_map [where f = f, OF _ f(1)]) (use ok in \<open>auto simp: relay_ok_def rows_ok_def f(2)\<close>)
  moreover have "todo_ok (rl_rows s) evs" using F(2) by (auto simp: todo_ok_def)
  moreover have "done_ok rows wire []" for rows wire by (simp add: done_ok_def)
  ultimately show ?thesis
    using ok by (simp add: relay_ok_def fetch(1) rows' todo_ok_map [where f = f, OF f(1)] done_ok_map [where f = f, OF f(1)])
next
  case (publish w ev evs a wire' ok')
  have t: "todo_ok (rl_rows s) (ev # evs)" using ok publish(2) by (metis relay_ok_def)
  then obtain r where r: "r \<in> set (rl_rows s)" "event_content ev = row_content r" by (auto simp: todo_ok_def)
  then have e: "event_message ev = message_of r" "pe_EventID ev = ob_EventID r"
    by (simp add: event_message_content, simp add: event_content_def row_content_def)
  have w: "wire' = (if a = Refused then rl_wire s else rl_wire s @ [message_of r])" "ok' \<longleftrightarrow> a = Acked"
    using publish(3) e(1) by (auto simp: broker_publish_def)
  have "rows_ok uuid (rl_rows s) wire'" using ok r(1) by (simp add: w(1) relay_ok_def rows_ok_wire)
  moreover have "todo_ok (rl_rows s) evs" using t by (simp add: todo_ok_def)
  moreover have d: "done_ok (rl_rows s) wire' (rl_done s v)" for v
    using ok done_ok_wire [of "rl_rows s" "rl_wire s" "rl_done s v" wire'] by (cases "a = Refused") (auto simp: w(1) relay_ok_def)
  moreover have "done_ok (rl_rows s) wire' (if ok' then rl_done s w @ [pe_EventID ev] else rl_done s w)"
    using d [of w] r(1) w e(2) by (auto simp: done_ok_def)
  ultimately show ?thesis using ok by (simp add: publish(1) relay_ok_def split: if_splits)
next
  case (mark env w rows')
  obtain f where f: "\<And>r. row_content (f r) = row_content r"
      "\<And>r. ob_Status (f r) = ob_Status r \<or> (\<exists>i\<in>set (rl_done s w). env_uuid env i = Some (ob_EventID r))" and rows': "rows' = map f (rl_rows s)"
    using MarkPublished_None [OF mark(4)] by blast
  have R: "rows_ok uuid (rl_rows s) (rl_wire s)" using ok by (simp add: relay_ok_def)
  have D: "done_ok (rl_rows s) (rl_wire s) (rl_done s w)" using ok by (simp add: relay_ok_def)
  have "message_of r \<in> set (rl_wire s)" if r: "r \<in> set (rl_rows s)" "ob_Status (f r) \<noteq> StatusPending" for r
  proof (cases "ob_Status (f r) = ob_Status r")
    case True
    then show ?thesis using R r by (simp add: rows_ok_def)
  next
    case False
    then obtain i where i: "i \<in> set (rl_done s w)" "uuid i = Some (ob_EventID r)" using f(2) [of r] mark(2) by blast
    then obtain q where q: "q \<in> set (rl_rows s)" "ob_EventID q = i" "message_of q \<in> set (rl_wire s)" using D by (auto simp: done_ok_def)
    then have "ob_EventID q = ob_EventID r" using R i(2) unfolding rows_ok_def by fastforce
    then have "q = r" using R q(1) r(1) unfolding rows_ok_def distinct_map inj_on_def by blast
    with q show ?thesis by simp
  qed
  then have "rows_ok uuid (map f (rl_rows s)) (rl_wire s)" by (intro rows_ok_map [OF R f(1)]) blast
  moreover have "done_ok rows wire []" for rows wire by (simp add: done_ok_def)
  ultimately show ?thesis
    using ok by (simp add: relay_ok_def mark(1) rows' todo_ok_map [where f = f, OF f(1)] done_ok_map [where f = f, OF f(1)])
next
  case (crash w)
  then show ?thesis using ok by (simp add: relay_ok_def todo_ok_def done_ok_def)
qed

lemma relay_reach_ok: "relay_reach uuid s \<Longrightarrow> (\<And>x y. uuid x = Some y \<Longrightarrow> uuid y = Some y) \<Longrightarrow> relay_ok uuid s"
proof (induction rule: relay_reach.induct)
  case init
  show ?case by (simp add: relay_ok_def relay_init_def rows_ok_def todo_ok_def done_ok_def)
next
  case (step s s')
  then show ?case by (blast intro: relay_ok_step)
qed

section \<open>Nothing lost, nothing made up\<close>

text \<open>
  C18. However the transactions and the workers interleave, whatever the broker refuses and wherever a
  worker dies: a row that is marked published is on the wire with exactly its subject, payload and
  event id; a row that is not there yet is still pending, so a later poll takes it; and every
  message on the wire is a committed row's.
\<close>

theorem outbox_nothing_lost:
  assumes "relay_reach uuid s" "\<And>x y. uuid x = Some y \<Longrightarrow> uuid y = Some y"
  shows "(\<forall>r\<in>set (rl_rows s). ob_Status r \<noteq> StatusPending \<longrightarrow> event_message (row_event r) \<in> set (rl_wire s)) \<and>
    (\<forall>m\<in>set (rl_wire s). \<exists>r\<in>set (rl_rows s). ms_MsgID m = ob_EventID r \<and> ms_Subject m = ob_Subject r \<and> ms_Payload m = ob_Payload r)"
proof -
  have "rows_ok uuid (rl_rows s) (rl_wire s)" using relay_reach_ok [OF assms] by (simp add: relay_ok_def)
  then show ?thesis by (fastforce simp: rows_ok_def message_of_def event_message_def row_event_def)
qed

definition demo_metadata :: metadata where
  "demo_metadata = \<lparr>md_RequestID = ''r'', md_TraceID = ''t'', md_PlayerID = ''p'', md_TelegramUserID = 7, md_TelegramChatID = 7, md_BotID = ''b'',
     md_ChatType = ''private'', md_Command = ''bank.deposit'', md_Language = ''fa'', md_IdempotencyKey = ''k'', md_SchemaVersion = 1, md_EventID = ''''\<rparr>"

definition demo_record :: outbox_record where
  "demo_record = \<lparr>ore_EventID = '''', ore_Subject = subjects_Event ''bank'' ''deposited'', ore_Metadata = demo_metadata, ore_Payload = RawEmpty\<rparr>"

definition demo_outbox_env :: ledger_env where
  "demo_outbox_env = \<lparr>env_uuid = Some, env_newID = ''e1'', env_now = 5\<rparr>"

definition demo_rows :: "outbox_row list" where
  "demo_rows = fst (outbox_Append demo_outbox_env 1 [] demo_record)"

theorem outbox_nothing_lost_witness:
  "\<exists>s. relay_reach Some s \<and> map ob_Status (rl_rows s) = [StatusPublished] \<and> rl_wire s \<noteq> []"
proof -
  let ?s1 = "relay_init\<lparr>rl_rows := demo_rows\<rparr>"
  have "outbox_Append demo_outbox_env 1 [] demo_record = (demo_rows, None)" by code_simp
  then have s1: "relay_reach Some ?s1"
    using relay_reach.step [OF relay_reach.init relay_step.commit [of demo_outbox_env Some 1 relay_init demo_record demo_rows]]
    by (simp add: relay_init_def demo_outbox_env_def)
  obtain rows2 ev where f: "FetchPending {} id 1 demo_rows = (rows2, Inr [ev])" "pe_EventID ev = ''e1''" "map ob_Status rows2 = [StatusPending]" "map ob_EventID rows2 = [''e1'']"
  proof -
    have "snd (FetchPending {} id 1 demo_rows) = Inr [(row_event (hd demo_rows))\<lparr>pe_Attempts := 1\<rparr>]" by code_simp
    moreover have "pe_EventID ((row_event (hd demo_rows))\<lparr>pe_Attempts := 1\<rparr>) = ''e1''" "map ob_Status (fst (FetchPending {} id 1 demo_rows)) = [StatusPending]"
      "map ob_EventID (fst (FetchPending {} id 1 demo_rows)) = [''e1'']" by code_simp+
    ultimately show ?thesis using that by (metis prod.collapse)
  qed
  let ?s2 = "?s1\<lparr>rl_rows := rows2, rl_todo := (rl_todo ?s1)(0 := [ev]), rl_done := (rl_done ?s1)(0 := [])\<rparr>"
  have s2: "relay_reach Some ?s2" using relay_reach.step [OF s1 relay_step.fetch [of id "{}" 1 ?s1 rows2 "[ev]" Some 0]] f(1) by simp
  let ?s3 = "?s2\<lparr>rl_wire := [event_message ev], rl_todo := (rl_todo ?s2)(0 := []), rl_done := (rl_done ?s2)(0 := [''e1''])\<rparr>"
  have s3: "relay_reach Some ?s3"
    using relay_reach.step [OF s2 relay_step.publish [of ?s2 0 ev "[]" Acked "[event_message ev]" True Some]] f(2)
    by (simp add: broker_publish_def relay_init_def)
  obtain rows4 where m: "MarkPublished demo_outbox_env rows2 [''e1''] = (rows4, None)" "map ob_Status rows4 = [StatusPublished]"
    using f(3,4) by (cases rows2) (auto simp: MarkPublished_def demo_outbox_env_def)
  let ?s4 = "?s3\<lparr>rl_rows := rows4, rl_done := (rl_done ?s3)(0 := [])\<rparr>"
  have s4: "relay_reach Some ?s4"
    using relay_reach.step [OF s3 relay_step.mark [of demo_outbox_env Some ?s3 0 rows4]] m(1) by (simp add: demo_outbox_env_def)
  obtain r where r: "rl_rows ?s4 = [r]" "ob_Status r = StatusPublished" using m(2) by auto
  have "\<forall>r\<in>set (rl_rows ?s4). ob_Status r \<noteq> StatusPending \<longrightarrow> event_message (row_event r) \<in> set (rl_wire ?s4)"
    by (rule outbox_nothing_lost [THEN conjunct1, OF s4]) simp
  then have "event_message (row_event r) \<in> set (rl_wire ?s4)" unfolding r(1) using r(2) by simp
  then have w: "rl_wire ?s4 \<noteq> []" by (rule length_pos_if_in_set [THEN length_greater_0_conv [THEN iffD1]])
  have p: "map ob_Status (rl_rows ?s4) = [StatusPublished]" using m(2) by simp
  show ?thesis by (rule exI, rule conjI, rule s4, rule conjI, rule p, rule w)
qed

text \<open>A claim does not keep a second worker off: until the first one marks its rows, a second fetch returns them again.\<close>

lemma fetch_again:
  "map_sum id (map pe_EventID) (snd (FetchPending {} id 1 demo_rows)) = Inr [''e1'']"
  "map_sum id (map pe_EventID) (snd (FetchPending {} id 1 (fst (FetchPending {} id 1 demo_rows)))) = Inr [''e1'']"
  by code_simp+

section \<open>A batch drains the backlog\<close>

lemma publish_all_acked: "\<forall>e\<in>set evs. br e = Acked \<Longrightarrow> publish_all br evs wire = (wire @ map event_message evs, map pe_EventID evs, True)"
  by (induction evs arbitrary: wire) (simp_all add: broker_publish_def)

definition backlog :: "outbox_row list \<Rightarrow> outbox_row list" where
  "backlog rows = filter (\<lambda>r. ob_Status r = StatusPending) rows"

lemma claimed_all: "length (backlog rows) \<le> limit \<Longrightarrow> set (claimed {} limit rows) = set (backlog rows)"
  by (simp add: claimed_def backlog_def)

lemma FetchPending_all:
  assumes "0 < limit" "length (backlog rows) \<le> limit" "\<forall>r\<in>set rows. ob_Attempts r < MaxInt32" "\<forall>xs. set (plan xs) = set xs"
  obtains f evs where "FetchPending {} plan limit rows = (map f rows, Inr evs)" "\<And>r. row_content (f r) = row_content r" "\<And>r. ob_Status (f r) = ob_Status r"
    "event_content ` set evs = row_content ` set (backlog rows)"
proof -
  let ?up = "\<lambda>r. r\<lparr>ob_Attempts := ob_Attempts r + 1\<rparr>"
  let ?f = "\<lambda>r. if ob_ID r \<in> set (map ob_ID (claimed {} limit rows)) then ?up r else r"
  let ?evs = "plan (map (row_event \<circ> ?up) (claimed {} limit rows))"
  have "\<not> (\<exists>r\<in>set (claimed {} limit rows). ob_Attempts r + 1 > MaxInt32)" using assms(3) claimed_pending by fastforce
  then have "FetchPending {} plan limit rows = (map ?f rows, Inr ?evs)" using assms(1) by (simp add: FetchPending_def Let_def)
  moreover have "row_content (?f r) = row_content r" "ob_Status (?f r) = ob_Status r" for r by (simp_all add: row_content_def)
  moreover have "event_content ` set ?evs = row_content ` set (backlog rows)"
    using assms(4) claimed_all [OF assms(2)] by (simp add: image_image row_content_def)
  ultimately show ?thesis using that by blast
qed



end
