(* ===== verification/Watch.thy ===== *)
theory Watch
  imports Ledger_Spec
begin

text \<open>
  The watch on payments: the rules of \<^verbatim>\<open>internal/domain/watch/watch.go\<close>, and the flags and held payments of
  \<^verbatim>\<open>internal/infrastructure/postgres/watch.go\<close> over the rows of \<open>watch_flags\<close>, \<open>payment_holds\<close> and the ledger, with
  the constraints of \<^verbatim>\<open>migrations/0023\<close> and \<^verbatim>\<open>0029\<close>. A rule's arithmetic is the code's, unchecked and wrapping.
  The number of a row (\<open>GENERATED ALWAYS AS IDENTITY\<close>) is an argument, like a fresh id; a taken one is refused
  by its unique key.
\<close>

section \<open>The rules\<close>

datatype watch_rule = OneWay | OffMarket | SinglePartner | CommandRate | WashTrade | OtherRule string

definition Rules :: "watch_rule list" where
  "Rules = [OneWay, OffMarket, SinglePartner, CommandRate, WashTrade]"

definition Rule_Valid :: "watch_rule \<Rightarrow> bool" where
  "Rule_Valid r \<longleftrightarrow> (\<exists>k\<in>set Rules. k = r)"

record thresholds =
  th_Window :: int
  th_OneWayCount :: int
  th_OneWayMinTotal :: int
  th_OneWayRatioBPS :: int
  th_OffMarketBPS :: int
  th_OffMarketMinValue :: int
  th_SinglePartnerMinCount :: int
  th_SinglePartnerShareBPS :: int
  th_CommandsPerMinute :: int
  th_WashTradeCount :: int
  th_HoldAbove :: int

definition Thresholds_Validate :: "thresholds \<Rightarrow> bool" where
  "Thresholds_Validate t \<longleftrightarrow>
     \<not> (th_Window t \<le> 0) \<and>
     \<not> (th_OneWayCount t < 2 \<or> th_OneWayMinTotal t < 0 \<or> th_OneWayRatioBPS t < 5000 \<or> th_OneWayRatioBPS t > 10000) \<and>
     \<not> (th_OffMarketBPS t < 1 \<or> th_OffMarketMinValue t < 0) \<and>
     \<not> (th_SinglePartnerMinCount t < 2 \<or> th_SinglePartnerShareBPS t < 5000 \<or> th_SinglePartnerShareBPS t > 10000) \<and>
     \<not> (th_WashTradeCount t < 1) \<and>
     \<not> (th_CommandsPerMinute t < 1 \<or> th_HoldAbove t < 0)"

record flow =
  fl_Count :: int
  fl_Total :: int

record watch_finding =
  fi_Rule :: watch_rule
  fi_Score :: int
  fi_Evidence :: "(string \<times> int) list"

definition window_seconds :: "thresholds \<Rightarrow> int" where
  "window_seconds t = quo64 (th_Window t) 1000000000"

definition OneWayTransfers :: "thresholds \<Rightarrow> flow \<Rightarrow> flow \<Rightarrow> watch_finding option" where
  "OneWayTransfers t there away =
     (if fl_Count there < th_OneWayCount t \<or> fl_Total there < th_OneWayMinTotal t \<or> fl_Total there \<le> 0 then None
      else
        let ratio = quo64 (mul64 (fl_Total there) 10000) (add64 (fl_Total there) (max (fl_Total away) 0)) in
        if ratio < th_OneWayRatioBPS t then None
        else Some \<lparr>fi_Rule = OneWay, fi_Score = fl_Count there, fi_Evidence =
          [(''transfers'', fl_Count there), (''total'', fl_Total there), (''returned'', fl_Total away),
           (''returned_transfers'', fl_Count away), (''one_way_bps'', ratio), (''window_seconds'', window_seconds t)]\<rparr>)"

definition OffMarketTrade :: "thresholds \<Rightarrow> int \<Rightarrow> int \<Rightarrow> int \<Rightarrow> watch_finding option" where
  "OffMarketTrade t price reference qty =
     (if reference \<le> 0 \<or> qty \<le> 0 \<or> price < 0 then None
      else if mul64 (max price reference) qty < th_OffMarketMinValue t then None
      else
        let diff = sub64 price reference;
            dist = (if diff < 0 then neg64 diff else diff);
            dev = quo64 (mul64 dist 10000) reference in
        if dev < th_OffMarketBPS t then None
        else Some \<lparr>fi_Rule = OffMarket, fi_Score = min (quo64 dev 100) 10000, fi_Evidence =
          [(''price'', price), (''reference'', reference), (''quantity'', qty), (''deviation_bps'', dev)]\<rparr>)"

definition Concentration :: "thresholds \<Rightarrow> int \<Rightarrow> int \<Rightarrow> watch_finding option" where
  "Concentration t toPartner all_out =
     (if all_out < th_SinglePartnerMinCount t \<or> toPartner \<le> 0 then None
      else
        let share = quo64 (mul64 toPartner 10000) all_out in
        if share < th_SinglePartnerShareBPS t then None
        else Some \<lparr>fi_Rule = SinglePartner, fi_Score = toPartner, fi_Evidence =
          [(''to_partner'', toPartner), (''transfers'', all_out), (''share_bps'', share), (''window_seconds'', window_seconds t)]\<rparr>)"

definition watch_Rate :: "thresholds \<Rightarrow> int \<Rightarrow> watch_finding option" where
  "watch_Rate t cnt =
     (if cnt \<le> th_CommandsPerMinute t then None
      else Some \<lparr>fi_Rule = CommandRate, fi_Score = sub64 cnt (th_CommandsPerMinute t), fi_Evidence =
        [(''commands'', cnt), (''limit'', th_CommandsPerMinute t)]\<rparr>)"

definition Thresholds_Hold :: "thresholds \<Rightarrow> int \<Rightarrow> bool \<Rightarrow> bool" where
  "Thresholds_Hold t amt linked \<longleftrightarrow> linked \<and> th_HoldAbove t > 0 \<and> amt \<ge> th_HoldAbove t"

definition WashTrades :: "thresholds \<Rightarrow> int \<Rightarrow> int \<Rightarrow> watch_finding option" where
  "WashTrades t there away =
     (if there < th_WashTradeCount t \<or> away < th_WashTradeCount t then None
      else Some \<lparr>fi_Rule = WashTrade, fi_Score = min there away, fi_Evidence =
        [(''sold'', there), (''bought_back'', away), (''window_seconds'', window_seconds t)]\<rparr>)"

section \<open>Flags\<close>

datatype flag_status = FlagOpen | FlagCleared

record watch_flag =
  wf_ID :: string
  wf_No :: int
  wf_Rule :: watch_rule
  wf_PlayerID :: string
  wf_OtherPlayerID :: string
  wf_Score :: int
  wf_Hits :: int
  wf_Evidence :: "(string \<times> int) list"
  wf_Status :: flag_status
  wf_CreatedAt :: go_time
  wf_UpdatedAt :: go_time
  wf_ClearedAt :: "go_time option"
  wf_ClearedBy :: string
  wf_Note :: string

datatype watch_error = ErrFlagNotFound | ErrHoldNotFound | WatchPostgres

definition pairRules :: "watch_rule list" where
  "pairRules = [OneWay, OffMarket, SinglePartner]"

definition same_open :: "watch_flag \<Rightarrow> watch_flag \<Rightarrow> bool" where
  "same_open f g \<longleftrightarrow> wf_Status f = FlagOpen \<and> wf_Rule f = wf_Rule g \<and> wf_PlayerID f = wf_PlayerID g \<and> wf_OtherPlayerID f = wf_OtherPlayerID g"

text \<open>\<open>player\<close> is the foreign key: whether the players table has the row. An empty other account is NULL.\<close>

definition raise_row :: "ledger_env \<Rightarrow> int \<Rightarrow> watch_flag \<Rightarrow> watch_flag" where
  "raise_row env no f =
     (let at = (if time_IsZero (wf_UpdatedAt f) then env_now env else wf_UpdatedAt f) in
      f\<lparr>wf_ID := the (env_uuid env (ensureID env (wf_ID f))), wf_No := no, wf_PlayerID := the (env_uuid env (wf_PlayerID f)),
        wf_OtherPlayerID := (if wf_OtherPlayerID f = '''' then '''' else the (env_uuid env (wf_OtherPlayerID f))),
        wf_Hits := 1, wf_Status := FlagOpen, wf_CreatedAt := at, wf_UpdatedAt := at,
        wf_ClearedAt := None, wf_ClearedBy := '''', wf_Note := ''''\<rparr>)"

text \<open>The \<open>DO UPDATE\<close> of the open flag \<open>x\<close> by the row \<open>g\<close> that met it.\<close>

definition raise_hit :: "watch_flag \<Rightarrow> watch_flag \<Rightarrow> watch_flag" where
  "raise_hit x g = x\<lparr>wf_Hits := wf_Hits x + 1, wf_Score := max (wf_Score x) (wf_Score g), wf_Evidence := wf_Evidence g, wf_UpdatedAt := wf_UpdatedAt g\<rparr>"

definition Raise :: "ledger_env \<Rightarrow> int \<Rightarrow> (string \<Rightarrow> bool) \<Rightarrow> watch_flag list \<Rightarrow> watch_flag \<Rightarrow> watch_flag list \<times> (watch_error + watch_flag)" where
  "Raise env no player flags f =
     (if env_uuid env (ensureID env (wf_ID f)) = None \<or> env_uuid env (wf_PlayerID f) = None \<or> wf_OtherPlayerID f \<noteq> '''' \<and> env_uuid env (wf_OtherPlayerID f) = None
      then (flags, Inl WatchPostgres)
      else
        let g = raise_row env no f in
        if \<not> Rule_Valid (wf_Rule g) \<or> wf_Score g < 0 \<or> wf_Score g > MaxInt32 \<or> wf_OtherPlayerID g = wf_PlayerID g
        then (flags, Inl WatchPostgres)
        else (case find (\<lambda>x. same_open x g) flags of
          Some x \<Rightarrow>
            if wf_Hits x + 1 > MaxInt32 then (flags, Inl WatchPostgres)
            else (map (\<lambda>y. if wf_ID y = wf_ID x then raise_hit x g else y) flags, Inr (raise_hit x g))
        | None \<Rightarrow>
            if \<not> player (wf_PlayerID g) \<or> wf_OtherPlayerID g \<noteq> '''' \<and> \<not> player (wf_OtherPlayerID g) \<or>
               (\<exists>x\<in>set flags. wf_ID x = wf_ID g \<or> wf_No x = no)
            then (flags, Inl WatchPostgres)
            else (flags @ [g], Inr g)))"

definition links :: "string \<Rightarrow> string \<Rightarrow> watch_flag \<Rightarrow> bool" where
  "links a b f \<longleftrightarrow> wf_Status f = FlagOpen \<and> wf_Rule f \<in> set pairRules \<and>
     (wf_PlayerID f = a \<and> wf_OtherPlayerID f = b \<or> wf_PlayerID f = b \<and> wf_OtherPlayerID f = a)"

definition flag_before :: "watch_flag \<Rightarrow> watch_flag \<Rightarrow> bool" where
  "flag_before f g \<longleftrightarrow> wf_Score f > wf_Score g \<or> wf_Score f = wf_Score g \<and> wf_No f < wf_No g"

definition Linking :: "ledger_env \<Rightarrow> watch_flag list \<Rightarrow> string \<Rightarrow> string \<Rightarrow> watch_error + watch_flag" where
  "Linking env flags a b =
     (case (env_uuid env a, env_uuid env b) of
        (Some x, Some y) \<Rightarrow> (case sort_by flag_before (filter (links x y) flags) of [] \<Rightarrow> Inl ErrFlagNotFound | f # _ \<Rightarrow> Inr f)
      | _ \<Rightarrow> Inl ErrFlagNotFound)"

definition FlagByNo :: "watch_flag list \<Rightarrow> int \<Rightarrow> watch_error + watch_flag" where
  "FlagByNo flags no = (case find (\<lambda>f. wf_No f = no) flags of None \<Rightarrow> Inl ErrFlagNotFound | Some f \<Rightarrow> Inr f)"

definition flag_Clear :: "watch_flag list \<Rightarrow> int \<Rightarrow> string \<Rightarrow> string \<Rightarrow> go_time \<Rightarrow> watch_flag list \<times> watch_error option" where
  "flag_Clear flags no by_whom note at =
     (let hit = (\<lambda>f. wf_No f = no \<and> wf_Status f = FlagOpen) in
      (map (\<lambda>f. if hit f then f\<lparr>wf_Status := FlagCleared, wf_ClearedAt := Some at, wf_ClearedBy := by_whom, wf_Note := note, wf_UpdatedAt := at\<rparr> else f) flags,
       if \<exists>f\<in>set flags. hit f then None else Some ErrFlagNotFound))"

section \<open>What moved\<close>

datatype hold_status = HoldHeld | HoldReleased | HoldReturned

record payment_hold =
  ph_ID :: string
  ph_No :: int
  ph_PayerID :: string
  ph_PayeeID :: string
  ph_Method :: string
  ph_Amount :: int
  ph_FlagID :: string
  ph_Status :: hold_status
  ph_HoldTransactionID :: string
  ph_SettleTransactionID :: string
  ph_CreatedAt :: go_time
  ph_SettledAt :: "go_time option"
  ph_SettledBy :: string
  ph_Note :: string

definition player_purse :: "account_kind \<Rightarrow> bool" where
  "player_purse k \<longleftrightarrow> k = AccountPlayerCash \<or> k = AccountPlayerBank"

text \<open>The rows of \<open>out_legs\<close>: the transaction, the amount and the payee of every payment out of the purses of \<open>payer\<close>.\<close>

definition paymentsFrom :: "ledger_db \<Rightarrow> payment_hold list \<Rightarrow> string \<Rightarrow> go_time \<Rightarrow> (string \<times> int \<times> string) list" where
  "paymentsFrom db holds payer since =
     [(er_TransactionID d, er_Amount c, ac_OwnerID ca).
        da \<leftarrow> filter (\<lambda>a. ac_OwnerID a = payer \<and> player_purse (ac_Kind a)) (db_accounts db),
        d \<leftarrow> filter (\<lambda>e. er_AccountID e = ac_ID da \<and> er_Amount e < 0 \<and> er_CreatedAt e \<ge> since \<and>
              (er_Reason e = ''cash_payment'' \<or> er_Reason e = ''card_payment'')) (db_entries db),
        c \<leftarrow> filter (\<lambda>e. er_TransactionID e = er_TransactionID d \<and> er_Amount e > 0) (db_entries db),
        ca \<leftarrow> filter (\<lambda>a. ac_ID a = er_AccountID c \<and> player_purse (ac_Kind a)) (db_accounts db)] @
     [(ph_HoldTransactionID h, ph_Amount h, ph_PayeeID h). h \<leftarrow> filter (\<lambda>h. ph_PayerID h = payer \<and> ph_CreatedAt h \<ge> since) holds]"

definition payee_count :: "(string \<times> int \<times> string) list \<Rightarrow> string \<Rightarrow> int" where
  "payee_count rows payee = int (length (remdups (map fst (filter (\<lambda>r. snd (snd r) = payee) rows))))"

definition watch_Flow :: "ledger_env \<Rightarrow> ledger_db \<Rightarrow> payment_hold list \<Rightarrow> string \<Rightarrow> string \<Rightarrow> go_time \<Rightarrow> watch_error + flow" where
  "watch_Flow env db holds from_id to_id since =
     (case (env_uuid env from_id, env_uuid env to_id) of
        (Some x, Some y) \<Rightarrow>
          let rows = paymentsFrom db holds x since;
              tot = (\<Sum>r\<leftarrow>filter (\<lambda>r. snd (snd r) = y) rows. fst (snd r)) in
          if \<not> in64 tot then Inl WatchPostgres else Inr \<lparr>fl_Count = payee_count rows y, fl_Total = tot\<rparr>
      | _ \<Rightarrow> Inr \<lparr>fl_Count = 0, fl_Total = 0\<rparr>)"

text \<open>All payments, the most frequent payee (the smaller id on a tie) and the payments to it.\<close>

definition Outgoing :: "ledger_env \<Rightarrow> ledger_db \<Rightarrow> payment_hold list \<Rightarrow> string \<Rightarrow> go_time \<Rightarrow> int \<times> string \<times> int" where
  "Outgoing env db holds from_id since =
     (case env_uuid env from_id of
        None \<Rightarrow> (0, '''', 0)
      | Some x \<Rightarrow>
          let rows = paymentsFrom db holds x since;
              groups = sort_by (\<lambda>(p, n) (q, m). n > m \<or> n = m \<and> p < q)
                (map (\<lambda>p. (p, payee_count rows p)) (remdups (map (snd \<circ> snd) rows))) in
          (case groups of
             [] \<Rightarrow> (0, '''', 0)
           | (p, n) # _ \<Rightarrow> ((\<Sum>g\<leftarrow>groups. snd g), p, n)))"

section \<open>Held payments\<close>

definition watch_Hold :: "ledger_env \<Rightarrow> int \<Rightarrow> (string \<Rightarrow> bool) \<Rightarrow> watch_flag list \<Rightarrow> payment_hold list \<Rightarrow> payment_hold \<Rightarrow> payment_hold list \<times> (watch_error + payment_hold)" where
  "watch_Hold env no player flags holds h =
     (let h1 = h\<lparr>ph_ID := ensureID env (ph_ID h), ph_Status := HoldHeld\<rparr> in
      if env_uuid env (ph_ID h1) = None \<or> env_uuid env (ph_PayerID h) = None \<or> env_uuid env (ph_PayeeID h) = None \<or>
         ph_FlagID h \<noteq> '''' \<and> env_uuid env (ph_FlagID h) = None \<or> env_uuid env (ph_HoldTransactionID h) = None
      then (holds, Inl WatchPostgres)
      else
        let row = h1\<lparr>ph_ID := the (env_uuid env (ph_ID h1)), ph_No := no, ph_PayerID := the (env_uuid env (ph_PayerID h)),
              ph_PayeeID := the (env_uuid env (ph_PayeeID h)), ph_FlagID := (if ph_FlagID h = '''' then '''' else the (env_uuid env (ph_FlagID h))),
              ph_HoldTransactionID := the (env_uuid env (ph_HoldTransactionID h)), ph_SettleTransactionID := '''', ph_SettledAt := None,
              ph_SettledBy := '''', ph_Note := ''''\<rparr> in
        if ph_Method row \<notin> {''cash'', ''card''} \<or> ph_Amount row \<le> 0 \<or> ph_PayerID row = ph_PayeeID row \<or>
           \<not> player (ph_PayerID row) \<or> \<not> player (ph_PayeeID row) \<or>
           ph_FlagID row \<noteq> '''' \<and> (\<forall>f\<in>set flags. wf_ID f \<noteq> ph_FlagID row) \<or>
           (\<exists>x\<in>set holds. ph_ID x = ph_ID row \<or> ph_No x = no)
        then (holds, Inl WatchPostgres)
        else (holds @ [row], Inr (h1\<lparr>ph_No := no\<rparr>)))"

definition HoldByNo :: "payment_hold list \<Rightarrow> int \<Rightarrow> watch_error + payment_hold" where
  "HoldByNo holds no = (case find (\<lambda>h. ph_No h = no) holds of None \<Rightarrow> Inl ErrHoldNotFound | Some h \<Rightarrow> Inr h)"

text \<open>The statement's check: a row that is held has no settling transaction, and any other has one.\<close>

definition watch_SettleHold :: "ledger_env \<Rightarrow> payment_hold list \<Rightarrow> payment_hold \<Rightarrow> payment_hold list \<times> watch_error option" where
  "watch_SettleHold env holds h =
     (let at = (case ph_SettledAt h of None \<Rightarrow> env_now env | Some a \<Rightarrow> a);
          hit = (\<lambda>x. Some (ph_ID x) = env_uuid env (ph_ID h) \<and> ph_Status x = HoldHeld) in
      if env_uuid env (ph_ID h) = None \<or> env_uuid env (ph_SettleTransactionID h) = None then (holds, Some WatchPostgres)
      else if \<not> (\<exists>x\<in>set holds. hit x) then (holds, Some ErrHoldNotFound)
      else if ph_Status h = HoldHeld then (holds, Some WatchPostgres)
      else (map (\<lambda>x. if hit x then x\<lparr>ph_Status := ph_Status h, ph_SettleTransactionID := the (env_uuid env (ph_SettleTransactionID h)),
              ph_SettledAt := Some at, ph_SettledBy := ph_SettledBy h, ph_Note := ph_Note h\<rparr> else x) holds, None))"

section \<open>The one-way rule\<close>

lemma OneWay_fires_iff:
  assumes "0 \<le> fl_Total away" "fl_Total there \<le> 922337203685477" "fl_Total there + fl_Total away \<le> MaxInt64" "0 \<le> th_OneWayRatioBPS t"
  shows "OneWayTransfers t there away \<noteq> None \<longleftrightarrow>
    th_OneWayCount t \<le> fl_Count there \<and> th_OneWayMinTotal t \<le> fl_Total there \<and> 0 < fl_Total there \<and>
    th_OneWayRatioBPS t * (fl_Total there + fl_Total away) \<le> fl_Total there * 10000"
proof (cases "fl_Total there \<le> 0")
  case True
  then show ?thesis by (simp add: OneWayTransfers_def)
next
  case False
  have a: "mul64 (fl_Total there) 10000 = fl_Total there * 10000" "max (fl_Total away) 0 = fl_Total away" "add64 (fl_Total there) (fl_Total away) = fl_Total there + fl_Total away"
    using False assms by (simp_all add: mul64_def add64_def wrap64_nonneg)
  have q: "quo64 (fl_Total there * 10000) (fl_Total there + fl_Total away) = fl_Total there * 10000 div (fl_Total there + fl_Total away)"
    using False assms by (intro quo64_nonneg) simp_all
  have "th_OneWayRatioBPS t \<le> fl_Total there * 10000 div (fl_Total there + fl_Total away) \<longleftrightarrow>
      th_OneWayRatioBPS t * (fl_Total there + fl_Total away) \<le> fl_Total there * 10000"
    using False assms(1) by (intro le_div_iff_int) simp
  then show ?thesis using False by (auto simp: OneWayTransfers_def Let_def a q not_less linorder_not_le)
qed

text \<open>
  The one-way rule accuses one side at most. With a threshold above one half of the value, the flows of a
  pair cannot fire it in both directions, whatever the counts: one account gave more than it got.
\<close>

lemma OneWay_one_side:
  assumes "5000 < th_OneWayRatioBPS t" "0 \<le> fl_Total there" "0 \<le> fl_Total away" "fl_Total there \<le> 922337203685477" "fl_Total away \<le> 922337203685477"
  shows "OneWayTransfers t there away = None \<or> OneWayTransfers t away there = None"
proof (rule ccontr)
  assume "\<not> ?thesis"
  then have "OneWayTransfers t there away \<noteq> None" "OneWayTransfers t away there \<noteq> None" by simp_all
  then have h: "0 < fl_Total there" "th_OneWayRatioBPS t * (fl_Total there + fl_Total away) \<le> fl_Total there * 10000"
    "th_OneWayRatioBPS t * (fl_Total away + fl_Total there) \<le> fl_Total away * 10000"
    using OneWay_fires_iff [of away there t] OneWay_fires_iff [of there away t] assms by simp_all
  have "5001 * (fl_Total there + fl_Total away) \<le> th_OneWayRatioBPS t * (fl_Total there + fl_Total away)"
    using assms by (intro mult_right_mono) simp_all
  with h show False by (simp add: algebra_simps)
qed

definition demo_thresholds :: thresholds where
  "demo_thresholds = \<lparr>th_Window = 1000000000, th_OneWayCount = 2, th_OneWayMinTotal = 10, th_OneWayRatioBPS = 8000, th_OffMarketBPS = 500,
     th_OffMarketMinValue = 10, th_SinglePartnerMinCount = 5, th_SinglePartnerShareBPS = 9000, th_CommandsPerMinute = 60,
     th_WashTradeCount = 2, th_HoldAbove = 40\<rparr>"

text \<open>Above that the product wraps, and the rule is silent on a flow that went one way only.\<close>

lemma OneWay_overflow: "OneWayTransfers demo_thresholds \<lparr>fl_Count = 3, fl_Total = 922337203685478\<rparr> \<lparr>fl_Count = 0, fl_Total = 0\<rparr> = None"
  by code_simp

section \<open>The flags\<close>

definition flags_ok :: "watch_flag list \<Rightarrow> bool" where
  "flags_ok flags \<longleftrightarrow> distinct (map wf_ID flags) \<and> distinct (map wf_No flags) \<and>
     (\<forall>f\<in>set flags. Rule_Valid (wf_Rule f) \<and> 1 \<le> wf_Hits f \<and> 0 \<le> wf_Score f \<and> wf_OtherPlayerID f \<noteq> wf_PlayerID f \<and>
        (wf_Status f = FlagCleared \<longleftrightarrow> wf_ClearedAt f \<noteq> None)) \<and>
     (\<forall>f\<in>set flags. \<forall>g\<in>set flags. same_open f g \<and> same_open g f \<longrightarrow> f = g)"

lemma same_open_trans: "same_open x g \<Longrightarrow> same_open y g \<Longrightarrow> wf_Status g = FlagOpen \<Longrightarrow> same_open x y \<and> same_open y x"
  by (simp add: same_open_def)

text \<open>A row rewritten in place, keyed by its id.\<close>

lemma flags_ok_update:
  assumes ok: "flags_ok flags" and x: "\<And>x. x \<in> set flags \<Longrightarrow> wf_ID (u x) = wf_ID x \<and> wf_No (u x) = wf_No x \<and> wf_Rule (u x) = wf_Rule x \<and>
      wf_PlayerID (u x) = wf_PlayerID x \<and> wf_OtherPlayerID (u x) = wf_OtherPlayerID x \<and> 1 \<le> wf_Hits (u x) \<and> 0 \<le> wf_Score (u x) \<and>
      (wf_Status (u x) = FlagOpen \<longrightarrow> wf_Status x = FlagOpen) \<and> (wf_Status (u x) = FlagCleared \<longleftrightarrow> wf_ClearedAt (u x) \<noteq> None)"
  shows "flags_ok (map u flags)"
proof -
  have m: "map wf_ID (map u flags) = map wf_ID flags" "map wf_No (map u flags) = map wf_No flags" using x by simp_all
  have d: "distinct (map wf_ID (map u flags))" "distinct (map wf_No (map u flags))" unfolding m using ok by (simp_all add: flags_ok_def)
  have "u a = u b" if "a \<in> set flags" "b \<in> set flags" "same_open (u a) (u b)" "same_open (u b) (u a)" for a b
  proof -
    have "same_open a b \<and> same_open b a" using x [OF that(1)] x [OF that(2)] that(3,4) by (simp add: same_open_def)
    then have "a = b" using ok that(1,2) unfolding flags_ok_def by blast
    then show ?thesis by simp
  qed
  moreover have "\<forall>f\<in>set (map u flags). Rule_Valid (wf_Rule f) \<and> 1 \<le> wf_Hits f \<and> 0 \<le> wf_Score f \<and> wf_OtherPlayerID f \<noteq> wf_PlayerID f \<and>
        (wf_Status f = FlagCleared \<longleftrightarrow> wf_ClearedAt f \<noteq> None)" using x ok by (auto simp: flags_ok_def)
  ultimately show ?thesis using d by (auto simp: flags_ok_def)
qed

lemma raise_row_simps [simp]:
  "wf_Rule (raise_row env no f) = wf_Rule f" "wf_Score (raise_row env no f) = wf_Score f" "wf_Status (raise_row env no f) = FlagOpen"
  "wf_Hits (raise_row env no f) = 1" "wf_ClearedAt (raise_row env no f) = None" "wf_No (raise_row env no f) = no"
  "wf_PlayerID (raise_row env no f) = the (env_uuid env (wf_PlayerID f))"
  "wf_OtherPlayerID f \<noteq> '''' \<Longrightarrow> wf_OtherPlayerID (raise_row env no f) = the (env_uuid env (wf_OtherPlayerID f))"
  by (simp_all add: raise_row_def Let_def)

lemma raise_hit_simps [simp]:
  "wf_ID (raise_hit x g) = wf_ID x" "wf_No (raise_hit x g) = wf_No x" "wf_Rule (raise_hit x g) = wf_Rule x" "wf_PlayerID (raise_hit x g) = wf_PlayerID x"
  "wf_OtherPlayerID (raise_hit x g) = wf_OtherPlayerID x" "wf_Hits (raise_hit x g) = wf_Hits x + 1" "wf_Score (raise_hit x g) = max (wf_Score x) (wf_Score g)"
  "wf_Status (raise_hit x g) = wf_Status x" "wf_ClearedAt (raise_hit x g) = wf_ClearedAt x"
  by (simp_all add: raise_hit_def)

text \<open>The three ways \<open>Raise\<close> ends.\<close>

lemma Raise_cases:
  fixes env no f
  defines "g \<equiv> raise_row env no f"
  obtains (refused) e where "Raise env no player flags f = (flags, Inl e)"
  | (hit) x where "find (\<lambda>x. same_open x g) flags = Some x"
      "Raise env no player flags f = (map (\<lambda>y. if wf_ID y = wf_ID x then raise_hit x g else y) flags, Inr (raise_hit x g))"
  | (opened) "find (\<lambda>x. same_open x g) flags = None" "Raise env no player flags f = (flags @ [g], Inr g)" "Rule_Valid (wf_Rule g)" "0 \<le> wf_Score g"
      "wf_OtherPlayerID g \<noteq> wf_PlayerID g" "\<forall>x\<in>set flags. wf_ID x \<noteq> wf_ID g \<and> wf_No x \<noteq> no"
proof (cases "snd (Raise env no player flags f)")
  case (Inl e)
  then have "fst (Raise env no player flags f) = flags" by (auto simp: Raise_def Let_def split: if_splits option.splits)
  with Inl show ?thesis using refused by (metis prod.collapse)
next
  case (Inr r)
  show ?thesis
  proof (cases "find (\<lambda>x. same_open x g) flags")
    case None
    then show ?thesis using Inr opened by (auto simp: Raise_def Let_def g_def [symmetric] split: if_splits)
  next
    case (Some x)
    then show ?thesis using Inr hit by (auto simp: Raise_def Let_def g_def [symmetric] split: if_splits)
  qed
qed

lemma Raise_ok:
  assumes "flags_ok flags"
  shows "flags_ok (fst (Raise env no player flags f))"
proof (cases rule: Raise_cases [of env no player flags f])
  case (refused e)
  then show ?thesis using assms by simp
next
  case (hit x)
  have x: "x \<in> set flags" using hit(1) by (auto simp: find_Some_iff)
  have same: "y = x" if "y \<in> set flags" "wf_ID y = wf_ID x" for y
    using assms x that unfolding flags_ok_def distinct_map inj_on_def by blast
  have p: "0 \<le> wf_Hits x" "0 \<le> wf_Score x" using assms x by (auto simp: flags_ok_def)
  show ?thesis unfolding hit(2) fst_conv
    by (rule flags_ok_update [OF assms]) (use assms same p in \<open>auto simp: flags_ok_def max_def\<close>)
next
  case opened
  have "\<forall>x\<in>set flags. \<not> same_open x (raise_row env no f)" using opened(1) by (simp add: find_None_iff)
  then show ?thesis using assms opened(3-6) unfolding opened(2) fst_conv flags_ok_def by auto
qed

lemma Clear_ok: "flags_ok flags \<Longrightarrow> flags_ok (fst (flag_Clear flags no who note at))"
  unfolding flag_Clear_def Let_def fst_conv by (rule flags_ok_update) (auto simp: flags_ok_def)

lemma Linking_iff:
  assumes "env_uuid env a = Some x" "env_uuid env b = Some y"
  shows "(\<exists>f. Linking env flags a b = Inr f) \<longleftrightarrow> (\<exists>f\<in>set flags. links x y f)"
proof -
  have "sort_by flag_before (filter (links x y) flags) = [] \<longleftrightarrow> filter (links x y) flags = []"
    using arg_cong [where f = set] by (metis set_empty2 set_sort_by)
  then show ?thesis using assms by (auto simp: Linking_def filter_empty_conv split: list.splits)
qed

lemma Raise_links:
  assumes "Raise env no player flags f = (flags', Inr r)" "wf_Rule f \<in> set pairRules" "wf_OtherPlayerID f \<noteq> ''''"
  shows "\<exists>x y. env_uuid env (wf_PlayerID f) = Some x \<and> env_uuid env (wf_OtherPlayerID f) = Some y \<and> (\<exists>g\<in>set flags'. links x y g)"
proof -
  obtain x y where p: "env_uuid env (wf_PlayerID f) = Some x" "env_uuid env (wf_OtherPlayerID f) = Some y"
    using assms(1,3) by (auto simp: Raise_def split: if_splits)
  have "\<exists>g\<in>set flags'. links x y g"
  proof (cases rule: Raise_cases [of env no player flags f])
    case (refused e)
    with assms(1) show ?thesis by simp
  next
    case (hit z)
    then have "z \<in> set flags" "links x y z" using assms(2,3) p by (auto simp: find_Some_iff same_open_def links_def)
    then have "links x y (raise_hit z (raise_row env no f))" "raise_hit z (raise_row env no f) \<in> set flags'" using hit(2) assms(1) by (auto simp: links_def)
    then show ?thesis by blast
  next
    case opened
    then show ?thesis using assms p by (auto simp: links_def)
  qed
  with p show ?thesis by blast
qed

section \<open>A held payment is settled once\<close>

lemma SettleHold_settled:
  assumes "watch_SettleHold env holds h = (holds', None)" "x \<in> set holds'" "Some (ph_ID x) = env_uuid env (ph_ID h)"
  shows "ph_Status x \<noteq> HoldHeld"
proof -
  have "holds' = map (\<lambda>x. if Some (ph_ID x) = env_uuid env (ph_ID h) \<and> ph_Status x = HoldHeld
      then x\<lparr>ph_Status := ph_Status h, ph_SettleTransactionID := the (env_uuid env (ph_SettleTransactionID h)),
              ph_SettledAt := Some (case ph_SettledAt h of None \<Rightarrow> env_now env | Some a \<Rightarrow> a), ph_SettledBy := ph_SettledBy h, ph_Note := ph_Note h\<rparr> else x) holds"
    "ph_Status h \<noteq> HoldHeld"
    using assms(1) by (simp_all add: watch_SettleHold_def Let_def split: if_splits)
  with assms(2,3) show ?thesis by (auto split: if_splits)
qed

end
