(* ===== verification/Bank_Service.thy ===== *)
theory Bank_Service
  imports Watch Outbox Bank Idempotency
begin

text \<open>
  The bank's commands, \<^verbatim>\<open>internal/application/handlers/bank.go\<close>, over the rows they touch: the ledger, the
  players and where they are, the cities, the idempotency keys, the flags and the held payments of the
  watch, and the outbox; with \<^verbatim>\<open>internal/infrastructure/postgres/bank.go\<close> (\<open>LockPresence\<close>), \<^verbatim>\<open>idempotency.go\<close>
  (\<open>Reserve\<close>), \<^verbatim>\<open>internal/application/watch.go\<close> (\<open>SettleHold\<close>) and \<^verbatim>\<open>internal/application/handlers/watch.go\<close>
  (\<open>watchPayment\<close>). A command is one \<open>tx\<close> run by \<open>uow_Do\<close>. The answers of the parts that are not modelled
  here (the policy resolver, the jail, the sanctions, the player search, the service gate) are \<open>bank_ports\<close>;
  fresh ids, sequence numbers, the clock and SHA-256 are \<open>bank_calls\<close>. Rendering a screen is left out.
\<close>

section \<open>The state\<close>

record bank_player =
  bp_ID :: string
  bp_TelegramUserID :: int
  bp_CityID :: string
  bp_Status :: string
  bp_Name :: string
  bp_PublicCode :: string

record bank_city =
  bct_ID :: string
  bct_Code :: string
  bct_JurisdictionID :: string

record bank_db =
  bd_ledger :: ledger_db
  bd_players :: "bank_player list"
  bd_stats :: "string list"
  bd_transit :: "string list"
  bd_cities :: "bank_city list"
  bd_keys :: "(string \<times> string) list"
  bd_flags :: "watch_flag list"
  bd_holds :: "payment_hold list"
  bd_outbox :: "outbox_row list"

datatype bank_fault =
    MalformedRequest | NoTelegramUser | UnknownMethodInput | PaymentRefused | FaultInternal
  | AppInvalidMoneyAmount | AppAmountBelowMinimum | AppAmountAboveMaximum | AppBankNotInCity | AppBankPolicyUnavailable
  | AppNotEnoughCash | AppNotEnoughInBank | AppSelfPayment | AppNotTogether | AppPayeeNotFound | AppPlayerNotFound | AppCityNotFound
  | FaultLedger ledger_error | FaultWatch watch_error | FaultOutbox outbox_error | FaultEvent | FaultReserve | FaultStats | FaultPort string

datatype policy_fault = ErrWrongJurisdiction | PolicyFault string

record bank_handler =
  bh_limits :: limits
  bh_bankCity :: string
  bh_idempotencyTTL :: int
  bh_watch :: "thresholds option"
  bh_gated :: bool

record bank_ports =
  bpt_policy :: "string \<Rightarrow> string \<Rightarrow> policy_fault + int"
  bpt_jailed :: "string \<Rightarrow> bank_fault option"
  bpt_sanctioned :: "string \<Rightarrow> string \<Rightarrow> bank_fault option"
  bpt_search :: "rune list \<Rightarrow> (bank_fault + bank_player) option"
  bpt_gate :: "string \<Rightarrow> bank_fault + bool"

record bank_calls =
  bc_env :: ledger_env
  bc_ids :: "nat \<Rightarrow> string"
  bc_nos :: "nat \<Rightarrow> int"
  bc_now :: go_time
  bc_sha256 :: "byte list \<Rightarrow> byte list"
  bc_cannot_begin :: "bank_fault option"
  bc_cannot_commit :: "bank_fault option"

type_synonym 'a bank_tx = "(bank_db, bank_fault, 'a) tx"

definition call :: "bank_calls \<Rightarrow> nat \<Rightarrow> ledger_env" where
  "call c i = (bc_env c)\<lparr>env_newID := bc_ids c i\<rparr>"

definition on_ledger :: "(ledger_db \<Rightarrow> ledger_db \<times> (ledger_error + 'a)) \<Rightarrow> 'a bank_tx" where
  "on_ledger f w = (case f (bd_ledger w) of (l, r) \<Rightarrow> (w\<lparr>bd_ledger := l\<rparr>, case r of Inl e \<Rightarrow> Inl (FaultLedger e) | Inr a \<Rightarrow> Inr a))"

section \<open>Repositories\<close>

definition player_exists :: "bank_db \<Rightarrow> string \<Rightarrow> bool" where
  "player_exists w i \<longleftrightarrow> (\<exists>p\<in>set (bd_players w). bp_ID p = i)"

definition GetByTelegramUserID :: "int \<Rightarrow> bank_player bank_tx" where
  "GetByTelegramUserID u w =
     (w, case find (\<lambda>p. bp_TelegramUserID p = u) (bd_players w) of None \<Rightarrow> Inl AppPlayerNotFound | Some p \<Rightarrow> Inr p)"

definition player_GetByID :: "ledger_env \<Rightarrow> string \<Rightarrow> bank_player bank_tx" where
  "player_GetByID env i w =
     (w, case env_uuid env i of
           None \<Rightarrow> Inl AppPlayerNotFound
         | Some x \<Rightarrow> (case find (\<lambda>p. bp_ID p = x) (bd_players w) of None \<Rightarrow> Inl AppPlayerNotFound | Some p \<Rightarrow> Inr p))"

definition city_ByID :: "ledger_env \<Rightarrow> string \<Rightarrow> bank_city bank_tx" where
  "city_ByID env i w =
     (w, case env_uuid env i of
           None \<Rightarrow> Inl AppCityNotFound
         | Some x \<Rightarrow> (case find (\<lambda>c. bct_ID c = x) (bd_cities w) of None \<Rightarrow> Inl AppCityNotFound | Some c \<Rightarrow> Inr c))"

definition city_ByCode :: "bank_city list \<Rightarrow> string \<Rightarrow> bank_city option" where
  "city_ByCode cities code = find (\<lambda>c. bct_Code c = code) cities"

text \<open>A key is fresh when the statement inserted it.\<close>

definition keys_Reserve :: "ledger_env \<Rightarrow> string \<Rightarrow> string \<Rightarrow> int \<Rightarrow> bool bank_tx" where
  "keys_Reserve env key playerID ttl w =
     (if key = '''' \<or> playerID = '''' \<or> ttl \<le> 0 then (w, Inl FaultReserve)
      else case env_uuid env playerID of
        None \<Rightarrow> (w, Inl FaultReserve)
      | Some p \<Rightarrow>
          if (p, key) \<in> set (bd_keys w) then (w, Inr False)
          else if \<not> player_exists w p then (w, Inl FaultReserve)
          else (w\<lparr>bd_keys := bd_keys w @ [(p, key)]\<rparr>, Inr True))"

definition EnsureDefaults :: "ledger_env \<Rightarrow> string \<Rightarrow> unit bank_tx" where
  "EnsureDefaults env playerID w =
     (case env_uuid env playerID of
        None \<Rightarrow> (w, Inl FaultStats)
      | Some p \<Rightarrow>
          if playerID = '''' then (w, Inl FaultStats)
          else if p \<in> set (bd_stats w) then (w, Inr ())
          else if \<not> player_exists w p then (w, Inl FaultStats)
          else (w\<lparr>bd_stats := bd_stats w @ [p]\<rparr>, Inr ()))"

definition LockPresence :: "ledger_env \<Rightarrow> string list \<Rightarrow> (presence list) bank_tx" where
  "LockPresence env ids w =
     (w, if \<exists>i\<in>set ids. env_uuid env i = None then Inl AppPlayerNotFound
         else
           let cities = filter (\<lambda>p. \<exists>i\<in>set ids. env_uuid env i = Some (bp_ID p)) (bd_players w);
               at = (\<lambda>i. map_option (\<lambda>p. \<lparr>prs_CityID = bp_CityID p, prs_Travelling = (i \<in> set (bd_transit w))\<rparr>) (find (\<lambda>p. bp_ID p = i) cities)) in
           if \<exists>i\<in>set ids. at i = None then Inl AppPlayerNotFound else Inr (map (the \<circ> at) ids))"

section \<open>Helpers of the handler\<close>

definition bank_checkMeta :: "metadata \<Rightarrow> bank_fault option" where
  "bank_checkMeta meta = (if \<not> Metadata_Validate meta then Some MalformedRequest else if md_TelegramUserID meta = 0 then Some NoTelegramUser else None)"

definition bank_parseAmount :: "bank_handler \<Rightarrow> rune list \<Rightarrow> bank_fault + amount" where
  "bank_parseAmount h raw =
     (case ParseAmount raw of
        Inl _ \<Rightarrow> Inl AppInvalidMoneyAmount
      | Inr amt \<Rightarrow>
          (case Limits_Check (bh_limits h) amt of
             Some ErrBelowMinimum \<Rightarrow> Inl AppAmountBelowMinimum
           | Some ErrAboveMaximum \<Rightarrow> Inl AppAmountAboveMaximum
           | Some _ \<Rightarrow> Inl AppInvalidMoneyAmount
           | None \<Rightarrow> Inr amt))"

definition go_bytes :: "string \<Rightarrow> byte list" where
  "go_bytes s = map of_char s"

definition reserve_key :: "bank_calls \<Rightarrow> string \<Rightarrow> metadata \<Rightarrow> string \<Rightarrow> string" where
  "reserve_key c playerID meta nonce =
     (if nonce \<noteq> '''' then Derive (bc_sha256 c) (go_bytes playerID) (go_bytes (md_Command meta)) (go_bytes nonce)
      else Derive (bc_sha256 c) (go_bytes playerID) (go_bytes (md_RequestID meta)) (go_bytes (md_IdempotencyKey meta)))"

definition bank_reserve :: "bank_handler \<Rightarrow> bank_calls \<Rightarrow> string \<Rightarrow> metadata \<Rightarrow> string \<Rightarrow> bool bank_tx" where
  "bank_reserve h c playerID meta nonce = keys_Reserve (bc_env c) (reserve_key c playerID meta nonce) playerID (bh_idempotencyTTL h)"

fun ensure_all :: "ledger_env \<Rightarrow> string list \<Rightarrow> unit bank_tx" where
  "ensure_all env [] = tx_return ()"
| "ensure_all env (i # is) = tx_bind (EnsureDefaults env i) (\<lambda>_. ensure_all env is)"

definition lockPresence :: "bank_calls \<Rightarrow> string list \<Rightarrow> (presence list) bank_tx" where
  "lockPresence c ids = tx_bind (ensure_all (bc_env c) (sort ids)) (\<lambda>_. LockPresence (bc_env c) ids)"

text \<open>
  The fee of a city's bank. A place without the levers pays the bank city's: the call repeats, once at
  most, because the city it repeats on has the code it stops at.
\<close>

function bank_fee :: "bank_handler \<Rightarrow> bank_ports \<Rightarrow> bank_city list \<Rightarrow> bank_city \<Rightarrow> string \<Rightarrow> bank_fault + int \<times> bank_city" where
  "bank_fee h pt cities city lever =
     (if bct_JurisdictionID city = '''' then Inl AppBankPolicyUnavailable
      else case bpt_policy pt (bct_JurisdictionID city) lever of
        Inl ErrWrongJurisdiction \<Rightarrow>
          if bh_bankCity h \<noteq> '''' \<and> bct_Code city \<noteq> bh_bankCity h
          then (case city_ByCode cities (bh_bankCity h) of
                  None \<Rightarrow> Inl AppBankPolicyUnavailable
                | Some home \<Rightarrow> bank_fee h pt cities home lever)
          else Inl AppBankPolicyUnavailable
      | Inl (PolicyFault _) \<Rightarrow> Inl AppBankPolicyUnavailable
      | Inr v \<Rightarrow> if v < 0 \<or> v > BankMaxFeeBps then Inl AppBankPolicyUnavailable else Inr (v, city))"
  by pat_completeness auto
termination
  by (relation "measure (\<lambda>(h, _, _, city, _). if bct_Code city = bh_bankCity h then 0 else 1)")
    (auto simp: city_ByCode_def find_Some_iff)

declare bank_fee.simps [simp del]

abbreviation LeverBankWithdrawalFee :: string where "LeverBankWithdrawalFee \<equiv> ''city.bank_withdrawal_fee''"
abbreviation LeverCardTransferFee :: string where "LeverCardTransferFee \<equiv> ''city.card_transfer_fee''"

definition city_fee :: "bank_handler \<Rightarrow> bank_ports \<Rightarrow> bank_city \<Rightarrow> string \<Rightarrow> (int \<times> bank_city) bank_tx" where
  "city_fee h pt city lever w = (w, bank_fee h pt (bd_cities w) city lever)"

definition cardFee :: "bank_handler \<Rightarrow> bank_ports \<Rightarrow> bank_calls \<Rightarrow> presence \<Rightarrow> (int \<times> bank_city) bank_tx" where
  "cardFee h pt c payer =
     (if prs_CityID payer = '''' then tx_fail AppBankPolicyUnavailable
      else tx_bind (city_ByID (bc_env c) (prs_CityID payer)) (\<lambda>city. city_fee h pt city LeverCardTransferFee))"

definition checkFunds :: "account \<Rightarrow> quote \<Rightarrow> bool \<Rightarrow> bank_fault option" where
  "checkFunds from q fromCash =
     (if ac_Balance from \<ge> Minor (quo_Total q) then None else if fromCash then Some AppNotEnoughCash else Some AppNotEnoughInBank)"

definition playerAccounts :: "bank_calls \<Rightarrow> nat \<Rightarrow> string \<Rightarrow> (account \<times> account) bank_tx" where
  "playerAccounts c i playerID =
     tx_bind (on_ledger (\<lambda>l. AccountFor (call c i) l AccountPlayerCash playerID)) (\<lambda>cash.
     tx_bind (on_ledger (\<lambda>l. AccountFor (call c (i + 1)) l AccountPlayerBank playerID)) (\<lambda>bankAcct.
     tx_return (cash, bankAcct)))"

definition transfer_tx :: "bank_calls \<Rightarrow> reason \<Rightarrow> string \<Rightarrow> amount \<Rightarrow> string \<Rightarrow> amount \<Rightarrow> string \<Rightarrow> string \<Rightarrow> ledger_tx" where
  "transfer_tx c reason fromID debit toID amt refType refID =
     \<lparr>lt_ID = '''', lt_Reason = reason, lt_ReferenceType = refType, lt_ReferenceID = refID,
      lt_Entries = [\<lparr>leg_AccountID = fromID, leg_Amount = debit\<rparr>, \<lparr>leg_AccountID = toID, leg_Amount = amt\<rparr>], lt_CreatedAt = bc_now c\<rparr>"

definition transfer :: "bank_calls \<Rightarrow> nat \<Rightarrow> reason \<Rightarrow> string \<Rightarrow> string \<Rightarrow> amount \<Rightarrow> string \<Rightarrow> string \<Rightarrow> string bank_tx" where
  "transfer c i reason fromID toID amt refType refID =
     (case Amount_Neg amt of
        Inl _ \<Rightarrow> tx_fail FaultInternal
      | Inr debit \<Rightarrow> on_ledger (\<lambda>l. Post (call c i) l (transfer_tx c reason fromID debit toID amt refType refID)))"

definition chargeFee :: "bank_calls \<Rightarrow> string \<Rightarrow> string \<Rightarrow> amount \<Rightarrow> string \<Rightarrow> unit bank_tx" where
  "chargeFee c fromID cityID fee chargedOn =
     (if Amount_IsZero fee then tx_return ()
      else tx_bind (on_ledger (\<lambda>l. AccountFor (call c 20) l AccountCityTreasury cityID)) (\<lambda>treasury.
           tx_bind (transfer c 21 ''bank_fee'' fromID (ac_ID treasury) fee ''ledger_transaction'' chargedOn) (\<lambda>_. tx_return ())))"

definition bank_announce :: "bank_calls \<Rightarrow> metadata \<Rightarrow> string \<Rightarrow> string \<Rightarrow> json \<Rightarrow> unit bank_tx" where
  "bank_announce c meta event txID payload w =
     (case events_New (bc_ids c 22) (env_now (bc_env c)) (''bank.'' @ event) ''ledger_transaction'' txID payload of
        None \<Rightarrow> (w, Inl FaultEvent)
      | Some ev \<Rightarrow>
          (case outbox_Append (bc_env c) (bc_nos c 22) (bd_outbox w)
              \<lparr>ore_EventID = de_ID ev, ore_Subject = subjects_Event ''bank'' event, ore_Metadata = meta, ore_Payload = RawJSON (de_Payload ev)\<rparr> of
             (rows, None) \<Rightarrow> (w\<lparr>bd_outbox := rows\<rparr>, Inr ())
           | (rows, Some e) \<Rightarrow> (w\<lparr>bd_outbox := rows\<rparr>, Inl (FaultOutbox e))))"

section \<open>The watch on a payment\<close>

definition read_Flow :: "bank_calls \<Rightarrow> string \<Rightarrow> string \<Rightarrow> go_time \<Rightarrow> flow bank_tx" where
  "read_Flow c from_id to_id since w =
     (w, case watch_Flow (bc_env c) (bd_ledger w) (bd_holds w) from_id to_id since of Inl e \<Rightarrow> Inl (FaultWatch e) | Inr f \<Rightarrow> Inr f)"

definition watch_raise :: "bank_calls \<Rightarrow> nat \<Rightarrow> watch_finding option \<Rightarrow> string \<Rightarrow> string \<Rightarrow> unit bank_tx" where
  "watch_raise c i found playerID otherID w =
     (case found of
        None \<Rightarrow> (w, Inr ())
      | Some f \<Rightarrow>
          (case Raise (call c i) (bc_nos c i) (player_exists w) (bd_flags w)
              \<lparr>wf_ID = '''', wf_No = 0, wf_Rule = fi_Rule f, wf_PlayerID = playerID, wf_OtherPlayerID = otherID, wf_Score = fi_Score f, wf_Hits = 0,
               wf_Evidence = fi_Evidence f, wf_Status = FlagOpen, wf_CreatedAt = 0, wf_UpdatedAt = bc_now c, wf_ClearedAt = None, wf_ClearedBy = '''', wf_Note = ''''\<rparr> of
             (flags, Inl e) \<Rightarrow> (w\<lparr>bd_flags := flags\<rparr>, Inl (FaultWatch e))
           | (flags, Inr _) \<Rightarrow> (w\<lparr>bd_flags := flags\<rparr>, Inr ())))"

definition read_Linking :: "bank_calls \<Rightarrow> string \<Rightarrow> string \<Rightarrow> (watch_flag option) bank_tx" where
  "read_Linking c a b w =
     (w, case Linking (bc_env c) (bd_flags w) a b of
           Inl e \<Rightarrow> if e = ErrFlagNotFound then Inr None else Inl (FaultWatch e)
         | Inr f \<Rightarrow> Inr (Some f))"

definition read_Outgoing :: "bank_calls \<Rightarrow> string \<Rightarrow> go_time \<Rightarrow> (int \<times> string \<times> int) bank_tx" where
  "read_Outgoing c from_id since w = (w, Inr (Outgoing (bc_env c) (bd_ledger w) (bd_holds w) from_id since))"

definition watchPayment :: "bank_calls \<Rightarrow> thresholds option \<Rightarrow> string \<Rightarrow> string \<Rightarrow> int \<Rightarrow> (watch_flag option) bank_tx" where
  "watchPayment c th payer payee amt =
     (case th of
        None \<Rightarrow> tx_return None
      | Some t \<Rightarrow>
          let since = time_Add (bc_now c) (neg64 (th_Window t)) in
          tx_bind (read_Flow c payer payee since) (\<lambda>there.
          tx_bind (read_Flow c payee payer since) (\<lambda>away.
          tx_bind (watch_raise c 30 (OneWayTransfers t \<lparr>fl_Count = add64 (fl_Count there) 1, fl_Total = add64 (fl_Total there) amt\<rparr> away) payer payee) (\<lambda>_.
          tx_bind (read_Outgoing c payer since) (\<lambda>(all_out, partner, toPartner).
          let (p, n) = (if partner = '''' \<or> partner = payee then (payee, add64 toPartner 1) else (partner, toPartner)) in
          tx_bind (watch_raise c 31 (Concentration t n (add64 all_out 1)) payer p) (\<lambda>_.
          read_Linking c payer payee))))))"

definition method_text :: "payment_method \<Rightarrow> string" where
  "method_text m = (case m of MethodCash \<Rightarrow> ''cash'' | MethodCard \<Rightarrow> ''card'' | OtherMethod s \<Rightarrow> s)"

definition put_Hold :: "bank_calls \<Rightarrow> payment_hold \<Rightarrow> payment_hold bank_tx" where
  "put_Hold c hold w =
     (case watch_Hold (bc_env c) (bc_nos c 40) (player_exists w) (bd_flags w) (bd_holds w) hold of
        (holds, Inl e) \<Rightarrow> (w\<lparr>bd_holds := holds\<rparr>, Inl (FaultWatch e))
      | (holds, Inr h) \<Rightarrow> (w\<lparr>bd_holds := holds\<rparr>, Inr h))"

definition new_hold :: "bank_calls \<Rightarrow> string \<Rightarrow> string \<Rightarrow> payment_method \<Rightarrow> amount \<Rightarrow> watch_flag option \<Rightarrow> string \<Rightarrow> payment_hold" where
  "new_hold c payerID payeeID m amt flag txID =
     \<lparr>ph_ID = bc_ids c 41, ph_No = 0, ph_PayerID = payerID, ph_PayeeID = payeeID, ph_Method = method_text m, ph_Amount = Minor amt,
      ph_FlagID = (case flag of None \<Rightarrow> '''' | Some f \<Rightarrow> wf_ID f), ph_Status = HoldHeld, ph_HoldTransactionID = txID, ph_SettleTransactionID = '''',
      ph_CreatedAt = bc_now c, ph_SettledAt = None, ph_SettledBy = '''', ph_Note = ''''\<rparr>"

text \<open>The negation's error is dropped in the source; a failed one is the zero amount.\<close>

definition bank_hold :: "bank_calls \<Rightarrow> account \<Rightarrow> string \<Rightarrow> string \<Rightarrow> payment_method \<Rightarrow> amount \<Rightarrow> watch_flag option \<Rightarrow> payment_hold bank_tx" where
  "bank_hold c from payerID payeeID m amt flag =
     tx_bind (on_ledger (\<lambda>l. AccountFor (call c 42) l AccountPlayerEscrow payerID)) (\<lambda>escrow.
     let neg = (case Amount_Neg amt of Inl _ \<Rightarrow> FromMinor 0 | Inr n \<Rightarrow> n) in
     tx_bind (on_ledger (\<lambda>l. Post (call c 43) l (transfer_tx c ''payment_hold'' (ac_ID from) neg (ac_ID escrow) amt ''payment_holds'' (bc_ids c 41)))) (\<lambda>txID.
     put_Hold c (new_hold c payerID payeeID m amt flag txID)))"

text \<open>\<open>SettleHold\<close> of the application: an operator ends a held payment, one way or the other.\<close>

definition hold_purse :: "payment_hold \<Rightarrow> account_kind" where
  "hold_purse h = (if ph_Method h = ''card'' then AccountPlayerBank else AccountPlayerCash)"

definition hold_whom :: "bool \<Rightarrow> payment_hold \<Rightarrow> string" where
  "hold_whom release h = (if release then ph_PayeeID h else ph_PayerID h)"

definition settled_hold :: "bank_calls \<Rightarrow> bool \<Rightarrow> string \<Rightarrow> string \<Rightarrow> payment_hold \<Rightarrow> string \<Rightarrow> payment_hold" where
  "settled_hold c release by_whom note h txID =
     h\<lparr>ph_Status := (if release then HoldReleased else HoldReturned), ph_SettleTransactionID := txID, ph_SettledAt := Some (bc_now c),
       ph_SettledBy := by_whom, ph_Note := note\<rparr>"

definition close_Hold :: "bank_calls \<Rightarrow> payment_hold \<Rightarrow> unit bank_tx" where
  "close_Hold c h w =
     (case watch_SettleHold (bc_env c) (bd_holds w) h of
        (holds, None) \<Rightarrow> (w\<lparr>bd_holds := holds\<rparr>, Inr ())
      | (holds, Some e) \<Rightarrow> (w\<lparr>bd_holds := holds\<rparr>, Inl (FaultWatch e)))"

definition read_HoldByNo :: "int \<Rightarrow> payment_hold bank_tx" where
  "read_HoldByNo no w = (w, case HoldByNo (bd_holds w) no of Inl e \<Rightarrow> Inl (FaultWatch e) | Inr h \<Rightarrow> Inr h)"

definition SettleHold :: "bank_calls \<Rightarrow> int \<Rightarrow> bool \<Rightarrow> string \<Rightarrow> string \<Rightarrow> payment_hold bank_tx" where
  "SettleHold c no release by_whom note =
     tx_bind (read_HoldByNo no) (\<lambda>h.
     tx_bind (tx_check (if ph_Status h \<noteq> HoldHeld then Some (FaultWatch ErrHoldNotFound) else None)) (\<lambda>_.
     tx_bind (on_ledger (\<lambda>l. AccountFor (call c 0) l AccountPlayerEscrow (ph_PayerID h))) (\<lambda>escrow.
     tx_bind (on_ledger (\<lambda>l. AccountFor (call c 1) l (hold_purse h) (hold_whom release h))) (\<lambda>dest.
     tx_bind (on_ledger (\<lambda>l. Post (call c 2) l (transfer_tx c (if release then ''payment_release'' else ''payment_return'') (ac_ID escrow)
       (FromMinor (neg64 (ph_Amount h))) (ac_ID dest) (FromMinor (ph_Amount h)) ''payment_holds'' (ph_ID h)))) (\<lambda>txID.
     tx_bind (close_Hold c (settled_hold c release by_whom note h txID)) (\<lambda>_.
     tx_return (settled_hold c release by_whom note h txID)))))))"

section \<open>Deposit and withdrawal\<close>

record amount_request =
  arq_Amount :: "rune list"
  arq_Nonce :: string

text \<open>What a command ends in: a movement and its fee, a payment held, the press that was already done, or no bank here.\<close>

datatype bank_result = Moved int | Held int | Replayed | NotOffered

definition move_quote :: "bank_handler \<Rightarrow> bank_ports \<Rightarrow> bank_city \<Rightarrow> amount \<Rightarrow> bool \<Rightarrow> (quote \<times> bank_city) bank_tx" where
  "move_quote h pt city amt deposit =
     (if deposit then tx_return (\<lparr>quo_Amount = amt, quo_Fee = FromMinor 0, quo_Total = amt\<rparr>, city)
      else tx_bind (city_fee h pt city LeverBankWithdrawalFee) (\<lambda>(feeBPS, charging).
        case QuoteFor amt feeBPS of Inl _ \<Rightarrow> tx_fail FaultInternal | Inr q \<Rightarrow> tx_return (q, charging)))"

definition move_rows :: "bank_handler \<Rightarrow> bank_ports \<Rightarrow> bank_calls \<Rightarrow> metadata \<Rightarrow> amount \<Rightarrow> bool \<Rightarrow> bank_player \<Rightarrow> bank_result bank_tx" where
  "move_rows h pt c meta amt deposit p =
     tx_bind (lockPresence c [bp_ID p]) (\<lambda>here.
     tx_bind (tx_check (if CheckAtBank (here ! 0) \<noteq> None then Some AppBankNotInCity else None)) (\<lambda>_.
     tx_bind (tx_check (if deposit then None else bpt_jailed pt (bp_ID p))) (\<lambda>_.
     tx_bind (city_ByID (bc_env c) (prs_CityID (here ! 0))) (\<lambda>city.
     tx_bind (playerAccounts c 0 (bp_ID p)) (\<lambda>(cash, bankAcct).
     let reason = (if deposit then ''bank_deposit'' else ''bank_withdrawal'');
         from = (if deposit then cash else bankAcct);
         dest = (if deposit then bankAcct else cash) in
     tx_bind (move_quote h pt city amt deposit) (\<lambda>(q, feeCity).
     tx_bind (tx_check (checkFunds from q deposit)) (\<lambda>_.
     tx_bind (transfer c 4 reason (ac_ID from) (ac_ID dest) (quo_Amount q) '''' '''') (\<lambda>txID.
     tx_bind (chargeFee c (ac_ID from) (bct_ID feeCity) (quo_Fee q) txID) (\<lambda>_.
     tx_bind (bank_announce c meta (if deposit then ''deposited'' else ''withdrawn'') txID
       (JObj [(''player_id'', JText (bp_ID p)), (''city_id'', JText (bct_ID city)), (''amount'', JInt (Minor (quo_Amount q))),
              (''fee'', JInt (Minor (quo_Fee q))), (''transaction_id'', JText txID)])) (\<lambda>_.
     tx_return (Moved (Minor (quo_Fee q)))))))))))))"

definition move_tx :: "bank_handler \<Rightarrow> bank_ports \<Rightarrow> bank_calls \<Rightarrow> metadata \<Rightarrow> amount \<Rightarrow> string \<Rightarrow> bool \<Rightarrow> bank_result bank_tx" where
  "move_tx h pt c meta amt nonce deposit =
     tx_bind (GetByTelegramUserID (md_TelegramUserID meta)) (\<lambda>p.
     tx_bind (bank_reserve h c (bp_ID p) meta nonce) (\<lambda>fresh.
     if \<not> fresh then tx_return Replayed else move_rows h pt c meta amt deposit p))"

text \<open>\<open>bankHere\<close>: without a gate the bank is offered everywhere.\<close>

definition bankHere :: "bank_handler \<Rightarrow> bank_ports \<Rightarrow> metadata \<Rightarrow> bool bank_tx" where
  "bankHere h pt meta =
     (if \<not> bh_gated h then tx_return True
      else tx_bind (GetByTelegramUserID (md_TelegramUserID meta)) (\<lambda>p. tx_lift (bpt_gate pt (bp_ID p))))"

definition bank_move :: "bank_handler \<Rightarrow> bank_ports \<Rightarrow> bank_calls \<Rightarrow> metadata \<Rightarrow> amount_request \<Rightarrow> bool \<Rightarrow> bank_result bank_tx" where
  "bank_move h pt c meta req deposit =
     tx_bind (tx_check (bank_checkMeta meta)) (\<lambda>_.
     tx_bind (tx_lift (bank_parseAmount h (arq_Amount req))) (\<lambda>amt.
     tx_bind (bankHere h pt meta) (\<lambda>offered.
     if \<not> offered then tx_return NotOffered
     else uow_Do (bc_cannot_begin c) (bc_cannot_commit c) (move_tx h pt c meta amt (arq_Nonce req) deposit))))"

definition Deposit :: "bank_handler \<Rightarrow> bank_ports \<Rightarrow> bank_calls \<Rightarrow> metadata \<Rightarrow> amount_request \<Rightarrow> bank_result bank_tx" where
  "Deposit h pt c meta req = bank_move h pt c meta req True"

definition Withdraw :: "bank_handler \<Rightarrow> bank_ports \<Rightarrow> bank_calls \<Rightarrow> metadata \<Rightarrow> amount_request \<Rightarrow> bank_result bank_tx" where
  "Withdraw h pt c meta req = bank_move h pt c meta req False"

section \<open>Payments\<close>

record pay_request =
  prq_To :: "rune list"
  prq_Player :: string
  prq_Amount :: "rune list"
  prq_Method :: payment_method
  prq_Nonce :: string
  prq_Origin :: string

definition bank_payee :: "bank_ports \<Rightarrow> bank_calls \<Rightarrow> pay_request \<Rightarrow> bank_player bank_tx" where
  "bank_payee pt c req w =
     (let found = (if prq_Player req \<noteq> '''' then snd (player_GetByID (bc_env c) (prq_Player req) w)
                   else case bpt_search pt (prq_To req) of None \<Rightarrow> Inl AppPayeeNotFound | Some r \<Rightarrow> r) in
      (w, case found of
            Inl e \<Rightarrow> Inl (if e = AppPlayerNotFound then AppPayeeNotFound else e)
          | Inr p \<Rightarrow> if bp_Status p \<noteq> ''active'' then Inl AppPayeeNotFound else Inr p))"

definition paymentRefusal :: "bank_error \<Rightarrow> bank_fault" where
  "paymentRefusal e = (case e of ErrSelfPayment \<Rightarrow> AppSelfPayment | ErrNotTogether \<Rightarrow> AppNotTogether | _ \<Rightarrow> PaymentRefused)"

record pay_quote =
  pq_payee :: bank_player
  pq_reason :: reason
  pq_from :: account
  pq_to :: account
  pq_quote :: quote
  pq_feeCity :: string

definition cash_quote :: "bank_player \<Rightarrow> amount \<Rightarrow> account \<Rightarrow> account \<Rightarrow> pay_quote" where
  "cash_quote payee amt from dest =
     \<lparr>pq_payee = payee, pq_reason = ''cash_payment'', pq_from = from, pq_to = dest,
      pq_quote = \<lparr>quo_Amount = amt, quo_Fee = FromMinor 0, quo_Total = amt\<rparr>, pq_feeCity = ''''\<rparr>"

definition card_quote :: "bank_handler \<Rightarrow> bank_ports \<Rightarrow> bank_calls \<Rightarrow> bank_player \<Rightarrow> bank_player \<Rightarrow> presence \<Rightarrow> amount \<Rightarrow> account \<Rightarrow> account \<Rightarrow> pay_quote bank_tx" where
  "card_quote h pt c p payee here amt from dest =
     tx_bind (tx_check (bpt_sanctioned pt (bp_ID p) (bp_ID payee))) (\<lambda>_.
     tx_bind (cardFee h pt c here) (\<lambda>(feeBPS, city).
     case QuoteFor amt feeBPS of
       Inl _ \<Rightarrow> tx_fail FaultInternal
     | Inr q \<Rightarrow> tx_return \<lparr>pq_payee = payee, pq_reason = ''card_payment'', pq_from = from, pq_to = dest, pq_quote = q, pq_feeCity = bct_ID city\<rparr>))"

definition payQuote :: "bank_handler \<Rightarrow> bank_ports \<Rightarrow> bank_calls \<Rightarrow> bank_player \<Rightarrow> payment_method \<Rightarrow> amount \<Rightarrow> pay_request \<Rightarrow> pay_quote bank_tx" where
  "payQuote h pt c p m amt req =
     tx_bind (bank_payee pt c req) (\<lambda>payee.
     tx_bind (tx_check (if bp_ID payee = bp_ID p then Some AppSelfPayment else None)) (\<lambda>_.
     tx_bind (lockPresence c [bp_ID p, bp_ID payee]) (\<lambda>here.
     tx_bind (tx_check (map_option paymentRefusal (CheckPayment (bp_ID p) (bp_ID payee) m (here ! 0) (here ! 1)))) (\<lambda>_.
     tx_bind (playerAccounts c 0 (bp_ID p)) (\<lambda>(payerCash, payerBank).
     tx_bind (playerAccounts c 2 (bp_ID payee)) (\<lambda>(payeeCash, payeeBank).
     tx_bind (if m = MethodCard then card_quote h pt c p payee (here ! 0) amt payerBank payeeBank
              else tx_return (cash_quote payee amt payerCash payeeCash)) (\<lambda>q.
     tx_bind (tx_check (checkFunds (pq_from q) (pq_quote q) (m = MethodCash))) (\<lambda>_.
     tx_return q))))))))"

text \<open>\<open>strconv.ParseInt\<close> in base ten, for the id of the group a payment started in.\<close>

fun dec_digits :: "string \<Rightarrow> int \<Rightarrow> int option" where
  "dec_digits [] n = Some n"
| "dec_digits (ch # cs) n =
     (let d = of_char ch in if 48 \<le> d \<and> d \<le> (57 :: int) then dec_digits cs (n * 10 + (d - 48)) else None)"

definition ParseInt :: "string \<Rightarrow> int option" where
  "ParseInt s =
     (case s of
        [] \<Rightarrow> None
      | ch # cs \<Rightarrow>
          let (sign, ds) = (if ch = CHR ''-'' then (-1, cs) else if ch = CHR ''+'' then (1, cs) else (1, s)) in
          if ds = [] then None
          else case dec_digits ds 0 of None \<Rightarrow> None | Some n \<Rightarrow> if in64 (sign * n) then Some (sign * n) else None)"

definition cleanOrigin :: "string \<Rightarrow> string" where
  "cleanOrigin origin = (case ParseInt origin of None \<Rightarrow> '''' | Some i \<Rightarrow> if i \<ge> 0 then '''' else origin)"

definition payment_payload :: "bank_player \<Rightarrow> pay_quote \<Rightarrow> payment_method \<Rightarrow> string \<Rightarrow> pay_request \<Rightarrow> json" where
  "payment_payload p q m txID req =
     JObj ([(''payer_id'', JText (bp_ID p)), (''payer_name'', JText (bp_Name p)), (''payer_code'', JText (bp_PublicCode p)),
            (''payee_id'', JText (bp_ID (pq_payee q))), (''payee_name'', JText (bp_Name (pq_payee q))), (''method'', JText (method_text m)),
            (''amount'', JInt (Minor (quo_Amount (pq_quote q)))), (''fee'', JInt (Minor (quo_Fee (pq_quote q)))), (''transaction_id'', JText txID)] @
           (if cleanOrigin (prq_Origin req) \<noteq> '''' then [(''origin_chat_id'', JText (cleanOrigin (prq_Origin req)))] else []))"

text \<open>The two ways a priced payment goes on: held in the payer's escrow, or paid and announced.\<close>

definition pay_held :: "bank_calls \<Rightarrow> payment_method \<Rightarrow> bank_player \<Rightarrow> pay_quote \<Rightarrow> watch_flag option \<Rightarrow> bank_result bank_tx" where
  "pay_held c m p q linked =
     tx_bind (bank_hold c (pq_from q) (bp_ID p) (bp_ID (pq_payee q)) m (quo_Amount (pq_quote q)) linked) (\<lambda>held.
     tx_bind (chargeFee c (ac_ID (pq_from q)) (pq_feeCity q) (quo_Fee (pq_quote q)) (ph_HoldTransactionID held)) (\<lambda>_.
     tx_return (Held (Minor (quo_Fee (pq_quote q))))))"

definition pay_paid :: "bank_calls \<Rightarrow> metadata \<Rightarrow> payment_method \<Rightarrow> pay_request \<Rightarrow> bank_player \<Rightarrow> pay_quote \<Rightarrow> bank_result bank_tx" where
  "pay_paid c meta m req p q =
     tx_bind (transfer c 4 (pq_reason q) (ac_ID (pq_from q)) (ac_ID (pq_to q)) (quo_Amount (pq_quote q)) '''' '''') (\<lambda>txID.
     tx_bind (chargeFee c (ac_ID (pq_from q)) (pq_feeCity q) (quo_Fee (pq_quote q)) txID) (\<lambda>_.
     tx_bind (bank_announce c meta ''payment_received'' txID (payment_payload p q m txID req)) (\<lambda>_.
     tx_return (Moved (Minor (quo_Fee (pq_quote q)))))))"

definition pays_hold :: "bank_handler \<Rightarrow> amount \<Rightarrow> watch_flag option \<Rightarrow> bool" where
  "pays_hold h amt linked \<longleftrightarrow> (case bh_watch h of None \<Rightarrow> False | Some t \<Rightarrow> Thresholds_Hold t (Minor amt) (linked \<noteq> None))"

definition pay_rows :: "bank_handler \<Rightarrow> bank_ports \<Rightarrow> bank_calls \<Rightarrow> metadata \<Rightarrow> payment_method \<Rightarrow> amount \<Rightarrow> pay_request \<Rightarrow> bank_player \<Rightarrow> bank_result bank_tx" where
  "pay_rows h pt c meta m amt req p =
     tx_bind (payQuote h pt c p m amt req) (\<lambda>q.
     tx_bind (watchPayment c (bh_watch h) (bp_ID p) (bp_ID (pq_payee q)) (Minor (quo_Amount (pq_quote q)))) (\<lambda>linked.
     if pays_hold h (quo_Amount (pq_quote q)) linked then pay_held c m p q linked else pay_paid c meta m req p q))"

definition pay_tx :: "bank_handler \<Rightarrow> bank_ports \<Rightarrow> bank_calls \<Rightarrow> metadata \<Rightarrow> payment_method \<Rightarrow> amount \<Rightarrow> pay_request \<Rightarrow> bank_result bank_tx" where
  "pay_tx h pt c meta m amt req =
     tx_bind (GetByTelegramUserID (md_TelegramUserID meta)) (\<lambda>p.
     tx_bind (bank_reserve h c (bp_ID p) meta (prq_Nonce req)) (\<lambda>fresh.
     if \<not> fresh then tx_return Replayed else pay_rows h pt c meta m amt req p))"

definition PaySend :: "bank_handler \<Rightarrow> bank_ports \<Rightarrow> bank_calls \<Rightarrow> metadata \<Rightarrow> pay_request \<Rightarrow> bank_result bank_tx" where
  "PaySend h pt c meta req =
     tx_bind (tx_check (bank_checkMeta meta)) (\<lambda>_.
     tx_bind (tx_lift (bank_parseAmount h (prq_Amount req))) (\<lambda>amt.
     tx_bind (tx_check (if \<not> Method_Valid (prq_Method req) then Some UnknownMethodInput else None)) (\<lambda>_.
     uow_Do (bc_cannot_begin c) (bc_cannot_commit c) (pay_tx h pt c meta (prq_Method req) amt req))))"

end
