(* ===== verification/Bank_Correct.thy ===== *)
theory Bank_Correct
  imports Bank_Service
begin

text \<open>
  What the bank's commands guarantee: a command that fails changes nothing, one that is repeated changes
  nothing more, a movement takes exactly the amount and the fee from one purse and puts them exactly
  where they belong, and the money of a held payment lies in its payer's escrow until an operator ends it.
\<close>

section \<open>The purses of the ledger\<close>

definition acct_id :: "ledger_db \<Rightarrow> account_kind \<Rightarrow> string \<Rightarrow> string option" where
  "acct_id l k owner = map_option ac_ID (find_account l k owner DefaultCurrency)"

definition uuids_ok :: "(string \<Rightarrow> string option) \<Rightarrow> ledger_db \<Rightarrow> bool" where
  "uuids_ok uuid l \<longleftrightarrow> (\<forall>a\<in>set (db_accounts l). uuid (ac_ID a) = Some (ac_ID a))"

lemma find_map_same:
  "(\<And>x. x \<in> set xs \<Longrightarrow> P (f x) = P x) \<Longrightarrow> find P (map f xs) = map_option f (find P xs)"
  by (induction xs) auto

lemma find_append: "find P (xs @ ys) = (case find P xs of Some x \<Rightarrow> Some x | None \<Rightarrow> find P ys)"
  by (induction xs) auto

lemma Post_acct_id:
  assumes "ledger_ok l" "Post env l t = (l', Inr i)"
  shows "acct_id l' = acct_id l" "uuids_ok uuid l' = uuids_ok uuid l"
proof -
  define f where "f = moved_account (db_entries l @ tx_legs env (ledger_abs l) t)"
  have a: "db_accounts l' = map f (db_accounts l)" using Post_Inr(2) [OF assms] by (simp add: f_def)
  have f: "ac_ID (f x) = ac_ID x" "ac_Kind (f x) = ac_Kind x" "ac_OwnerID (f x) = ac_OwnerID x" "ac_Currency (f x) = ac_Currency x" for x
    by (simp_all add: f_def moved_account_def)
  show "acct_id l' = acct_id l"
    by (intro ext) (simp add: acct_id_def find_account_def a find_map_same f option.map_comp comp_def)
  show "uuids_ok uuid l' = uuids_ok uuid l" by (simp add: uuids_ok_def a f)
qed

text \<open>What opening an account leaves as it was, and what it adds.\<close>

definition opens :: "(string \<Rightarrow> string option) \<Rightarrow> ledger_db \<Rightarrow> ledger_db \<Rightarrow> bool" where
  "opens uuid l l' \<longleftrightarrow> ledger_ok l' \<and> uuids_ok uuid l' \<and> (\<forall>j. balance_of l' j = balance_of l j) \<and>
     (\<forall>k ow i. acct_id l k ow = Some i \<longrightarrow> acct_id l' k ow = Some i) \<and> map_le (abs_accounts (db_accounts l)) (abs_accounts (db_accounts l'))"

lemma opens_refl: "ledger_ok l \<Longrightarrow> uuids_ok uuid l \<Longrightarrow> opens uuid l l"
  by (simp add: opens_def)

lemma opens_trans: "opens uuid l1 l2 \<Longrightarrow> opens uuid l2 l3 \<Longrightarrow> opens uuid l1 l3"
  unfolding opens_def using map_le_trans by (metis (no_types, lifting))

lemma insert_account_opens:
  assumes "ledger_ok l" "uuids_ok uuid l" "ac_Balance a = 0" "uuid (ac_ID a) = Some (ac_ID a)"
  shows "opens uuid l (insert_account l a)"
proof -
  have "balance_of (insert_account l a) j = balance_of l j" for j using assms(3) by (simp add: insert_account_def balance_of_def)
  moreover have "acct_id (insert_account l a) k ow = Some i" if "acct_id l k ow = Some i" for k ow i
    using that by (auto simp: acct_id_def find_account_def insert_account_def find_append)
  moreover have "uuids_ok uuid (insert_account l a)" using assms(2,4) by (auto simp: uuids_ok_def insert_account_def)
  moreover have "map_le (abs_accounts (db_accounts l)) (abs_accounts (db_accounts (insert_account l a)))"
    by (auto simp: insert_account_def abs_accounts_def map_le_def account_conflict_def map_of_append map_add_def dom_def image_image
        dest!: map_of_SomeD split: option.splits)
  ultimately show ?thesis using insert_account_ok [OF assms(1,3)] by (simp add: opens_def)
qed

lemma AccountFor_opens:
  assumes "ledger_ok l" "uuids_ok (env_uuid env) l" "env_uuid env (env_newID env) = Some (env_newID env)" "AccountFor env l k ow = (l', r)"
  shows "opens (env_uuid env) l l'"
proof -
  have o: "opens (env_uuid env) l l" by (rule opens_refl [OF assms(1,2)])
  have i: "opens (env_uuid env) l (insert_account l \<lparr>ac_ID = env_newID env, ac_Kind = k, ac_OwnerID = own, ac_Currency = DefaultCurrency, ac_Balance = 0\<rparr>)" for own
    using assms(1-3) by (intro insert_account_opens) simp_all
  show ?thesis
    using assms(4) o i unfolding AccountFor_def AccountForCurrency_def Let_def
    by (auto split: if_splits option.splits)
qed

lemma AccountFor_Inr:
  assumes "AccountFor env l k ow = (l', Inr a)" "\<not> IsSystem k"
  shows "\<exists>o'. env_uuid env ow = Some o' \<and> acct_id l' k o' = Some (ac_ID a) \<and> a \<in> set (db_accounts l') \<and> ac_Kind a = k \<and> ac_OwnerID a = o'"
  using assms by (auto simp: AccountFor_def AccountForCurrency_def Let_def acct_id_def dest: find_account_Some split: if_splits option.splits)

lemma balance_member:
  assumes "ledger_ok l" "a \<in> set (db_accounts l)"
  shows "balance_of l (ac_ID a) = ac_Balance a"
  using ledger_ok_balance [OF assms] balance_delta [OF assms(1)] by simp

text \<open>A posted two-legged movement.\<close>

lemma Post_transfer:
  assumes "ledger_ok l" "uuids_ok (env_uuid env) l" "in64 n" "- MaxInt64 \<le> n"
    and "lt_Entries t = [\<lparr>leg_AccountID = x, leg_Amount = FromMinor (- n)\<rparr>, \<lparr>leg_AccountID = y, leg_Amount = FromMinor n\<rparr>]"
    and "env_uuid env x = Some x" "env_uuid env y = Some y" "Post env l t = (l', Inr i)"
  shows "ledger_ok l'" "uuids_ok (env_uuid env) l'" "acct_id l' = acct_id l"
    "balance_of l' j = balance_of l j - (if j = x then n else 0) + (if j = y then n else 0)"
    "abs_accounts (db_accounts l') = abs_accounts (db_accounts l)"
proof -
  show "abs_accounts (db_accounts l') = abs_accounts (db_accounts l)"
    using Post_keeps_accounts [OF assms(1,8)] by (simp add: abs_accounts_def)
  have v: "\<forall>e\<in>set (lt_Entries t). valid_amount (leg_Amount e)" using assms(3-5) by (auto simp: valid_amount_def in64_def)
  show "ledger_ok l'" using Post_ok [OF assms(1) v, of env] assms(8) by simp
  show "uuids_ok (env_uuid env) l'" "acct_id l' = acct_id l" using Post_acct_id [OF assms(1,8)] assms(2) by simp_all
  show "balance_of l' j = balance_of l j - (if j = x then n else 0) + (if j = y then n else 0)"
    using Post_moves [OF assms(1) v assms(8), of j] assms(5-7) by (simp add: leg_sum_def)
qed

section \<open>Operations that leave the ledger alone\<close>

abbreviation keeps_ledger :: "ledger_db \<Rightarrow> 'a bank_tx \<Rightarrow> bool" where
  "keeps_ledger l \<equiv> tx_keeps (\<lambda>w. bd_ledger w = l)"

lemma keeps_ledgerD: "(\<And>l. keeps_ledger l m) \<Longrightarrow> m w = (w', r) \<Longrightarrow> bd_ledger w' = bd_ledger w"
  using tx_keepsD [where I = "\<lambda>v. bd_ledger v = bd_ledger w" and m = m and s = w] by blast

lemma tx_keeps_simpleI: "(\<And>w. I w \<Longrightarrow> I (fst (m w))) \<Longrightarrow> tx_keeps I m"
  by (simp add: tx_keeps_def)

lemma keeps_reads [tx_rules]:
  "tx_keeps I (GetByTelegramUserID u)" "tx_keeps I (player_GetByID env i)" "tx_keeps I (city_ByID env i)" "tx_keeps I (LockPresence env is)"
  "tx_keeps I (city_fee h pt city lever)" "tx_keeps I (read_Flow c a b since)" "tx_keeps I (read_Linking c a b)" "tx_keeps I (read_Outgoing c a since)"
  "tx_keeps I (bank_payee pt c req)"
  by (simp_all add: tx_keeps_def GetByTelegramUserID_def player_GetByID_def city_ByID_def LockPresence_def city_fee_def read_Flow_def
      read_Linking_def read_Outgoing_def bank_payee_def Let_def)

lemma keeps_ledger_Reserve [tx_rules]: "keeps_ledger l (keys_Reserve env k p ttl)"
  by (rule tx_keeps_simpleI) (auto simp: keys_Reserve_def split: option.splits)

lemma keeps_ledger_Ensure [tx_rules]: "keeps_ledger l (EnsureDefaults env i)"
  by (rule tx_keeps_simpleI) (auto simp: EnsureDefaults_def split: option.splits)

lemma keeps_ledger_reserve [tx_rules]: "keeps_ledger l (bank_reserve h c p meta nonce)"
  unfolding bank_reserve_def by (rule tx_rules)

lemma keeps_ledger_ensure_all [tx_rules]: "keeps_ledger l (ensure_all env is)"
  by (induction "is") (unfold ensure_all.simps, intro tx_rules, intro tx_rules)

lemma keeps_ledger_lockPresence [tx_rules]: "keeps_ledger l (lockPresence c is)"
  unfolding lockPresence_def by (intro tx_rules)

lemma keeps_ledger_announce [tx_rules]: "keeps_ledger l (bank_announce c meta ev txID payload)"
  by (rule tx_keeps_simpleI) (auto simp: bank_announce_def split: option.splits prod.splits)

lemma keeps_ledger_raise [tx_rules]: "keeps_ledger l (watch_raise c i found a b)"
  by (rule tx_keeps_simpleI) (auto simp: watch_raise_def split: option.splits prod.splits sum.splits)

lemma keeps_ledger_watch [tx_rules]: "keeps_ledger l (watchPayment c th a b n)"
  unfolding watchPayment_def Let_def by (cases th) (auto intro!: tx_rules split: prod.splits)

lemma keeps_ledger_put_Hold [tx_rules]: "keeps_ledger l (put_Hold c hold)"
  by (rule tx_keeps_simpleI) (auto simp: put_Hold_def split: prod.splits sum.splits)

lemma keeps_ledger_cardFee [tx_rules]: "keeps_ledger l (cardFee h pt c here)"
  unfolding cardFee_def by (intro tx_rules)

lemma keeps_ledger_Here [tx_rules]: "keeps_ledger l (bankHere h pt meta)"
  unfolding bankHere_def by (intro tx_rules)

section \<open>Operations that leave the keys and the held payments alone\<close>

abbreviation keeps_kh :: "(string \<times> string) list \<Rightarrow> payment_hold list \<Rightarrow> 'a bank_tx \<Rightarrow> bool" where
  "keeps_kh K H \<equiv> tx_keeps (\<lambda>w. bd_keys w = K \<and> bd_holds w = H)"

lemma keeps_khD: "(\<And>K H. keeps_kh K H m) \<Longrightarrow> m w = (w', r) \<Longrightarrow> bd_keys w' = bd_keys w \<and> bd_holds w' = bd_holds w"
  using tx_keepsD [where I = "\<lambda>v. bd_keys v = bd_keys w \<and> bd_holds v = bd_holds w" and m = m and s = w] by blast

lemma keeps_kh_ledger [tx_rules]: "keeps_kh K H (on_ledger f)"
  by (rule tx_keeps_simpleI) (auto simp: on_ledger_def split: prod.splits)

lemma keeps_kh_Ensure [tx_rules]: "keeps_kh K H (EnsureDefaults env i)"
  by (rule tx_keeps_simpleI) (auto simp: EnsureDefaults_def split: option.splits)

lemma keeps_kh_ensure_all [tx_rules]: "keeps_kh K H (ensure_all env is)"
  by (induction "is") (unfold ensure_all.simps, intro tx_rules, intro tx_rules)

lemma keeps_kh_announce [tx_rules]: "keeps_kh K H (bank_announce c meta ev txID payload)"
  by (rule tx_keeps_simpleI) (auto simp: bank_announce_def split: option.splits prod.splits)

lemma keeps_kh_raise [tx_rules]: "keeps_kh K H (watch_raise c i found a b)"
  by (rule tx_keeps_simpleI) (auto simp: watch_raise_def split: option.splits prod.splits sum.splits)

lemma keeps_kh_transfer [tx_rules]: "keeps_kh K H (transfer c i reason x y amt rt ri)"
  unfolding transfer_def by (cases "Amount_Neg amt") (simp_all only: sum.case, intro tx_rules, intro tx_rules)

lemma keeps_kh_parts [tx_rules]:
  "keeps_kh K H (lockPresence c is)" "keeps_kh K H (playerAccounts c i p)" "keeps_kh K H (chargeFee c x city fee charged)" "keeps_kh K H (cardFee h pt c here)"
  unfolding lockPresence_def playerAccounts_def chargeFee_def cardFee_def by (intro tx_rules)+

lemma keeps_kh_card_quote [tx_rules]: "keeps_kh K H (card_quote h pt c p payee here amt a b)"
  unfolding card_quote_def by (intro tx_rules) (auto intro!: tx_rules split: sum.splits simp del: tx_simps)

lemma keeps_kh_payQuote [tx_rules]: "keeps_kh K H (payQuote h pt c p m amt req)"
  unfolding payQuote_def by (auto intro!: tx_rules split: prod.splits simp del: tx_simps)

lemma keeps_kh_watch [tx_rules]: "keeps_kh K H (watchPayment c th a b n)"
  unfolding watchPayment_def Let_def by (cases th) (auto intro!: tx_rules split: prod.splits simp del: tx_simps)

section \<open>Movements inside a transaction\<close>

lemma env_uuid_call [simp]: "env_uuid (call c i) = env_uuid (bc_env c)" "env_newID (call c i) = bc_ids c i"
  by (simp_all add: call_def)

definition calls_ok :: "bank_calls \<Rightarrow> bool" where
  "calls_ok c \<longleftrightarrow> (\<forall>i. env_uuid (bc_env c) (bc_ids c i) = Some (bc_ids c i))"

definition bank_ok :: "bank_calls \<Rightarrow> ledger_db \<Rightarrow> bool" where
  "bank_ok c l \<longleftrightarrow> ledger_ok l \<and> uuids_ok (env_uuid (bc_env c)) l"

lemma on_ledger_Inr: "on_ledger f w = (w', Inr a) \<longleftrightarrow> (\<exists>l. f (bd_ledger w) = (l, Inr a) \<and> w' = w\<lparr>bd_ledger := l\<rparr>)"
  by (auto simp: on_ledger_def split: prod.splits sum.splits)

text \<open>\<open>grows\<close> is how a ledger changes inside a command: accounts are opened, none moves to another id.\<close>

definition grows :: "bank_calls \<Rightarrow> ledger_db \<Rightarrow> ledger_db \<Rightarrow> bool" where
  "grows c l l' \<longleftrightarrow> bank_ok c l' \<and> (\<forall>k ow i. acct_id l k ow = Some i \<longrightarrow> acct_id l' k ow = Some i) \<and>
     map_le (abs_accounts (db_accounts l)) (abs_accounts (db_accounts l'))"

lemma grows_trans: "grows c l1 l2 \<Longrightarrow> grows c l2 l3 \<Longrightarrow> grows c l1 l3"
  unfolding grows_def using map_le_trans by (metis (no_types, lifting))

lemma grows_acct: "grows c l l' \<Longrightarrow> acct_id l k ow = Some i \<Longrightarrow> acct_id l' k ow = Some i"
  by (simp add: grows_def)

lemma grows_ok: "grows c l l' \<Longrightarrow> bank_ok c l'"
  by (simp add: grows_def)

lemma open_Inr:
  assumes "on_ledger (\<lambda>l. AccountFor (call c i) l k ow) w = (w', Inr a)" "bank_ok c (bd_ledger w)" "calls_ok c" "\<not> IsSystem k"
  shows "grows c (bd_ledger w) (bd_ledger w')" "balance_of (bd_ledger w') = balance_of (bd_ledger w)"
    "\<exists>o'. env_uuid (bc_env c) ow = Some o' \<and> acct_id (bd_ledger w') k o' = Some (ac_ID a)"
    "env_uuid (bc_env c) (ac_ID a) = Some (ac_ID a)" "balance_of (bd_ledger w') (ac_ID a) = ac_Balance a"
proof -
  obtain l where l: "AccountFor (call c i) (bd_ledger w) k ow = (l, Inr a)" "w' = w\<lparr>bd_ledger := l\<rparr>"
    using assms(1) by (auto simp: on_ledger_Inr)
  have o: "opens (env_uuid (bc_env c)) (bd_ledger w) l"
    using AccountFor_opens [of "bd_ledger w" "call c i"] l(1) assms(2,3) by (simp add: bank_ok_def calls_ok_def)
  from AccountFor_Inr [OF l(1) assms(4)] obtain o' where a: "env_uuid (bc_env c) ow = Some o'" "acct_id l k o' = Some (ac_ID a)" "a \<in> set (db_accounts l)" by auto
  show "grows c (bd_ledger w) (bd_ledger w')" "balance_of (bd_ledger w') = balance_of (bd_ledger w)"
    using o by (auto simp: opens_def grows_def bank_ok_def l(2))
  show "\<exists>o'. env_uuid (bc_env c) ow = Some o' \<and> acct_id (bd_ledger w') k o' = Some (ac_ID a)" using a(1,2) by (simp add: l(2))
  show "env_uuid (bc_env c) (ac_ID a) = Some (ac_ID a)" using o a(3) by (simp add: opens_def uuids_ok_def)
  show "balance_of (bd_ledger w') (ac_ID a) = ac_Balance a" 
    using balance_member [OF _ a(3)] o by (simp add: opens_def l(2))
qed

lemma transfer_Inr:
  assumes "transfer c i reason x y (FromMinor n) rt ri w = (w', Inr tx)" "bank_ok c (bd_ledger w)" "0 \<le> n" "n \<le> MaxInt64"
    and "env_uuid (bc_env c) x = Some x" "env_uuid (bc_env c) y = Some y"
  shows "grows c (bd_ledger w) (bd_ledger w')"
    "balance_of (bd_ledger w') j = balance_of (bd_ledger w) j - (if j = x then n else 0) + (if j = y then n else 0)"
proof -
  have neg: "Amount_Neg (FromMinor n) = Inr (FromMinor (- n))" using assms(3,4) by (simp add: Amount_Neg_eq valid_amount_def in64_def)
  obtain l where l: "Post (call c i) (bd_ledger w) (transfer_tx c reason x (FromMinor (- n)) y (FromMinor n) rt ri) = (l, Inr tx)" "w' = w\<lparr>bd_ledger := l\<rparr>"
    using assms(1) by (auto simp: transfer_def neg on_ledger_Inr)
  have h: "ledger_ok (bd_ledger w)" "uuids_ok (env_uuid (call c i)) (bd_ledger w)" "in64 n" "- MaxInt64 \<le> n"
    "lt_Entries (transfer_tx c reason x (FromMinor (- n)) y (FromMinor n) rt ri) = [\<lparr>leg_AccountID = x, leg_Amount = FromMinor (- n)\<rparr>, \<lparr>leg_AccountID = y, leg_Amount = FromMinor n\<rparr>]"
    "env_uuid (call c i) x = Some x" "env_uuid (call c i) y = Some y"
    using assms(2-6) by (simp_all add: bank_ok_def transfer_tx_def in64_def)
  note T = Post_transfer [OF h l(1)]
  show "grows c (bd_ledger w) (bd_ledger w')" using T(1-3,5) by (simp add: grows_def bank_ok_def l(2))
  show "balance_of (bd_ledger w') j = balance_of (bd_ledger w) j - (if j = x then n else 0) + (if j = y then n else 0)"
    using T(4) by (simp add: l(2))
qed

lemma chargeFee_Inr:
  assumes "chargeFee c x city (FromMinor n) charged w = (w', Inr u)" "bank_ok c (bd_ledger w)" "calls_ok c" "0 \<le> n" "n \<le> MaxInt64"
    and "env_uuid (bc_env c) x = Some x"
  shows "grows c (bd_ledger w) (bd_ledger w')"
    "\<exists>t. (n \<noteq> 0 \<longrightarrow> (\<exists>o'. env_uuid (bc_env c) city = Some o' \<and> acct_id (bd_ledger w') AccountCityTreasury o' = Some t)) \<and>
      (\<forall>j. balance_of (bd_ledger w') j = balance_of (bd_ledger w) j - (if j = x then n else 0) + (if j = t then n else 0))"
proof -
  have "grows c (bd_ledger w) (bd_ledger w') \<and> (\<exists>t. (n \<noteq> 0 \<longrightarrow> (\<exists>o'. env_uuid (bc_env c) city = Some o' \<and> acct_id (bd_ledger w') AccountCityTreasury o' = Some t)) \<and>
      (\<forall>j. balance_of (bd_ledger w') j = balance_of (bd_ledger w) j - (if j = x then n else 0) + (if j = t then n else 0)))"
  proof (cases "n = 0")
    case True
    then have "w' = w" using assms(1) by (simp add: chargeFee_def Amount_IsZero_def)
    then show ?thesis using assms(2) True by (simp add: grows_def)
  next
    case False
    obtain w1 a tx where o: "on_ledger (\<lambda>l. AccountFor (call c 20) l AccountCityTreasury city) w = (w1, Inr a)"
      and t: "transfer c 21 ''bank_fee'' x (ac_ID a) (FromMinor n) ''ledger_transaction'' charged w1 = (w', Inr tx)"
      using assms(1) False by (auto simp: chargeFee_def Amount_IsZero_def tx_bind_Inr)
    note O = open_Inr [OF o assms(2,3)]
    have sys: "\<not> IsSystem AccountCityTreasury" by (simp add: IsSystem_def)
    note T = transfer_Inr [OF t grows_ok [OF O(1) [OF sys]] assms(4,5,6) O(4) [OF sys]]
    show ?thesis using grows_trans [OF O(1) [OF sys] T(1)] O(3) [OF sys] T O(2) [OF sys] grows_acct [OF T(1)] by auto
  qed
  then show "grows c (bd_ledger w) (bd_ledger w')"
    "\<exists>t. (n \<noteq> 0 \<longrightarrow> (\<exists>o'. env_uuid (bc_env c) city = Some o' \<and> acct_id (bd_ledger w') AccountCityTreasury o' = Some t)) \<and>
      (\<forall>j. balance_of (bd_ledger w') j = balance_of (bd_ledger w) j - (if j = x then n else 0) + (if j = t then n else 0))" by blast+
qed

lemma playerAccounts_Inr:
  assumes "playerAccounts c i p w = (w', Inr (cash, bankAcct))" "bank_ok c (bd_ledger w)" "calls_ok c"
  shows "grows c (bd_ledger w) (bd_ledger w')" "balance_of (bd_ledger w') = balance_of (bd_ledger w)"
    "\<exists>o'. env_uuid (bc_env c) p = Some o' \<and> acct_id (bd_ledger w') AccountPlayerCash o' = Some (ac_ID cash) \<and> acct_id (bd_ledger w') AccountPlayerBank o' = Some (ac_ID bankAcct)"
    "env_uuid (bc_env c) (ac_ID cash) = Some (ac_ID cash)" "env_uuid (bc_env c) (ac_ID bankAcct) = Some (ac_ID bankAcct)"
    "balance_of (bd_ledger w) (ac_ID cash) = ac_Balance cash" "balance_of (bd_ledger w) (ac_ID bankAcct) = ac_Balance bankAcct"
proof -
  obtain w1 where o1: "on_ledger (\<lambda>l. AccountFor (call c i) l AccountPlayerCash p) w = (w1, Inr cash)"
    and o2: "on_ledger (\<lambda>l. AccountFor (call c (i + 1)) l AccountPlayerBank p) w1 = (w', Inr bankAcct)"
    using assms(1) by (auto simp: playerAccounts_def tx_bind_Inr)
  have sys: "\<not> IsSystem AccountPlayerCash" "\<not> IsSystem AccountPlayerBank" by (simp_all add: IsSystem_def)
  note A = open_Inr [OF o1 assms(2,3) sys(1)]
  note B = open_Inr [OF o2 grows_ok [OF A(1)] assms(3) sys(2)]
  show "grows c (bd_ledger w) (bd_ledger w')" using A(1) B(1) by (rule grows_trans)
  show "balance_of (bd_ledger w') = balance_of (bd_ledger w)" using A(2) B(2) by simp
  show "\<exists>o'. env_uuid (bc_env c) p = Some o' \<and> acct_id (bd_ledger w') AccountPlayerCash o' = Some (ac_ID cash) \<and> acct_id (bd_ledger w') AccountPlayerBank o' = Some (ac_ID bankAcct)"
    using A(3) B(3) grows_acct [OF B(1)] by auto
  show "env_uuid (bc_env c) (ac_ID cash) = Some (ac_ID cash)" "env_uuid (bc_env c) (ac_ID bankAcct) = Some (ac_ID bankAcct)" by (rule A(4), rule B(4))
  show "balance_of (bd_ledger w) (ac_ID cash) = ac_Balance cash" "balance_of (bd_ledger w) (ac_ID bankAcct) = ac_Balance bankAcct"
    using A(2,5) B(2,5) by simp_all
qed

section \<open>Deposits and withdrawals are exact\<close>

lemma QuoteFor_parts:
  assumes "QuoteFor (FromMinor n) bps = Inr q" "0 < n" "n \<le> MaxInt64"
  obtains fee where "q = \<lparr>quo_Amount = FromMinor n, quo_Fee = FromMinor fee, quo_Total = FromMinor (n + fee)\<rparr>" "0 \<le> fee" "n + fee \<le> MaxInt64"
proof -
  have b: "0 \<le> bps" "bps \<le> 10000"
    using assms(1) by (auto simp: QuoteFor_def bank_Fee_def split: if_splits sum.splits)
  have "0 \<le> bank_fee_of n bps" using assms(2,3) b by (intro bank_fee.fee_bounds) simp_all
  then show ?thesis using assms(1) QuoteFor_eq [OF assms(2,3) b] that by (auto split: if_splits)
qed

text \<open>
  What a movement did to the ledger: \<open>n\<close> left the purse \<open>src\<close> for the account \<open>dst\<close>, the fee left it for a city's treasury,
  and the purse had both.
\<close>

definition moved_exactly :: "ledger_db \<Rightarrow> ledger_db \<Rightarrow> string \<Rightarrow> string \<Rightarrow> int \<Rightarrow> int \<Rightarrow> bool" where
  "moved_exactly l l' src dst n fee \<longleftrightarrow> 0 \<le> fee \<and> n + fee \<le> balance_of l src \<and>
     (\<exists>tre. (fee \<noteq> 0 \<longrightarrow> (\<exists>city. acct_id l' AccountCityTreasury city = Some tre)) \<and>
        (\<forall>j. balance_of l' j = balance_of l j - (if j = src then n + fee else 0) + (if j = dst then n else 0) + (if j = tre then fee else 0)))"

lemma moved_exactlyI:
  assumes a: "\<And>j. balance_of l1 j = balance_of l j - (if j = src then n else 0) + (if j = dst then n else 0)"
    and b: "\<exists>t. (fee \<noteq> 0 \<longrightarrow> (\<exists>o'. u city = Some o' \<and> acct_id l' AccountCityTreasury o' = Some t)) \<and>
      (\<forall>j. balance_of l' j = balance_of l1 j - (if j = src then fee else 0) + (if j = t then fee else 0))"
    and "0 \<le> fee" "n + fee \<le> balance_of l src"
  shows "moved_exactly l l' src dst n fee"
proof -
  obtain t where t: "fee \<noteq> 0 \<longrightarrow> (\<exists>o'. u city = Some o' \<and> acct_id l' AccountCityTreasury o' = Some t)"
    "\<And>j. balance_of l' j = balance_of l1 j - (if j = src then fee else 0) + (if j = t then fee else 0)" using b by blast
  then have "\<forall>j. balance_of l' j = balance_of l j - (if j = src then n + fee else 0) + (if j = dst then n else 0) + (if j = t then fee else 0)"
    by (simp add: a)
  with t(1) assms(3,4) show ?thesis unfolding moved_exactly_def by blast
qed

lemma move_quote_Inr:
  assumes "move_quote h pt city (FromMinor n) deposit w = (w', Inr (q, feeCity))" "0 < n" "n \<le> MaxInt64"
  shows "w' = w \<and> (\<exists>fee. q = \<lparr>quo_Amount = FromMinor n, quo_Fee = FromMinor fee, quo_Total = FromMinor (n + fee)\<rparr> \<and> 0 \<le> fee \<and> fee \<le> MaxInt64 \<and> (deposit \<longrightarrow> fee = 0))"
proof (cases deposit)
  case True
  then show ?thesis using assms(1) by (auto simp: move_quote_def)
next
  case False
  then obtain bps where "w' = w" "QuoteFor (FromMinor n) bps = Inr q"
    using assms(1) by (auto simp: move_quote_def city_fee_def tx_bind_def split: sum.splits)
  with QuoteFor_parts [OF this(2) assms(2,3)] show ?thesis using False assms(2) by fastforce
qed

lemma move_rows_steps:
  assumes "move_rows h pt c meta amt deposit p w = (w', Inr r)"
  shows "\<exists>here w1 city w2 cash bankAcct w3 q feeCity w4 txID w5 w6 u. lockPresence c [bp_ID p] w = (w1, Inr here) \<and>
    city_ByID (bc_env c) (prs_CityID (here ! 0)) w1 = (w2, Inr city) \<and>
    playerAccounts c 0 (bp_ID p) w2 = (w3, Inr (cash, bankAcct)) \<and>
    move_quote h pt city amt deposit w3 = (w4, Inr (q, feeCity)) \<and>
    checkFunds (if deposit then cash else bankAcct) q deposit = None \<and>
    transfer c 4 (if deposit then ''bank_deposit'' else ''bank_withdrawal'') (ac_ID (if deposit then cash else bankAcct))
       (ac_ID (if deposit then bankAcct else cash)) (quo_Amount q) '''' '''' w4 = (w5, Inr txID) \<and>
    chargeFee c (ac_ID (if deposit then cash else bankAcct)) (bct_ID feeCity) (quo_Fee q) txID w5 = (w6, Inr u) \<and>
    bd_ledger w' = bd_ledger w6 \<and> r = Moved (Minor (quo_Fee q))"
proof -
  have k: "keeps_ledger l (bank_announce c meta e i d)" for l e i d by (rule tx_rules)
  show ?thesis
    using assms unfolding move_rows_def Let_def tx_bind_Inr tx_check_Inr tx_return_def split_paired_Ex prod.case prod.inject sum.inject
    apply -
    apply (elim exE conjE)
    apply (drule keeps_ledgerD [OF k])
    apply hypsubst
    apply (intro exI conjI)
    apply assumption+
    apply (rule refl)
    done
qed

text \<open>A transfer and the fee charged on it, between two purses.\<close>

lemma transfer_and_fee:
  assumes t: "transfer c i reason (ac_ID a) (ac_ID b) (FromMinor n) rt ri w = (w1, Inr tx)"
    and f: "chargeFee c (ac_ID a) city (FromMinor fee) charged w1 = (w2, Inr u)"
    and ok: "bank_ok c (bd_ledger w)" "calls_ok c" "0 < n" "n \<le> MaxInt64" "0 \<le> fee" "fee \<le> MaxInt64"
    and ids: "env_uuid (bc_env c) (ac_ID a) = Some (ac_ID a)" "env_uuid (bc_env c) (ac_ID b) = Some (ac_ID b)"
    and cover: "n + fee \<le> balance_of (bd_ledger w) (ac_ID a)"
  shows "grows c (bd_ledger w) (bd_ledger w2) \<and> moved_exactly (bd_ledger w) (bd_ledger w2) (ac_ID a) (ac_ID b) n fee"
proof -
  note T = transfer_Inr [OF t ok(1) less_imp_le [OF ok(3)] ok(4) ids]
  note F = chargeFee_Inr [OF f grows_ok [OF T(1)] ok(2) ok(5,6) ids(1)]
  have "moved_exactly (bd_ledger w) (bd_ledger w2) (ac_ID a) (ac_ID b) n fee"
    by (rule moved_exactlyI [where u = "env_uuid (bc_env c)" and city = city, OF _ F(2) ok(5) cover]) (rule T(2))
  with grows_trans [OF T(1) F(1)] show ?thesis by blast
qed

lemma move_rows_Inr:
  assumes m: "move_rows h pt c meta (FromMinor n) deposit p w = (w', Inr r)" and ok: "bank_ok c (bd_ledger w)" "calls_ok c" and n: "0 < n" "n \<le> MaxInt64"
  defines "src_kind \<equiv> if deposit then AccountPlayerCash else AccountPlayerBank" and "dst_kind \<equiv> if deposit then AccountPlayerBank else AccountPlayerCash"
  shows "\<exists>fee pid src dst. r = Moved fee \<and> (deposit \<longrightarrow> fee = 0) \<and> env_uuid (bc_env c) (bp_ID p) = Some pid \<and>
    acct_id (bd_ledger w') src_kind pid = Some src \<and> acct_id (bd_ledger w') dst_kind pid = Some dst \<and>
    moved_exactly (bd_ledger w) (bd_ledger w') src dst n fee \<and> grows c (bd_ledger w) (bd_ledger w')"
proof -
  obtain here w1 city w2 cash bankAcct w3 q feeCity w4 txID w5 w6 u where
    s: "lockPresence c [bp_ID p] w = (w1, Inr here)" "city_ByID (bc_env c) (prs_CityID (here ! 0)) w1 = (w2, Inr city)"
      "playerAccounts c 0 (bp_ID p) w2 = (w3, Inr (cash, bankAcct))" "move_quote h pt city (FromMinor n) deposit w3 = (w4, Inr (q, feeCity))"
      "checkFunds (if deposit then cash else bankAcct) q deposit = None"
      "transfer c 4 (if deposit then ''bank_deposit'' else ''bank_withdrawal'') (ac_ID (if deposit then cash else bankAcct))
         (ac_ID (if deposit then bankAcct else cash)) (quo_Amount q) '''' '''' w4 = (w5, Inr txID)"
      "chargeFee c (ac_ID (if deposit then cash else bankAcct)) (bct_ID feeCity) (quo_Fee q) txID w5 = (w6, Inr u)"
      "bd_ledger w' = bd_ledger w6" "r = Moved (Minor (quo_Fee q))"
    using move_rows_steps [OF m] by blast
  define a b where "a = (if deposit then cash else bankAcct)" and "b = (if deposit then bankAcct else cash)"
  have l2: "bd_ledger w2 = bd_ledger w"
    using keeps_ledgerD [OF keeps_ledger_lockPresence s(1)] keeps_ledgerD [OF keeps_reads(3) s(2)] by simp
  note A = playerAccounts_Inr [OF s(3), unfolded l2, OF ok]
  obtain fee where q: "q = \<lparr>quo_Amount = FromMinor n, quo_Fee = FromMinor fee, quo_Total = FromMinor (n + fee)\<rparr>" "0 \<le> fee" "fee \<le> MaxInt64" "deposit \<longrightarrow> fee = 0"
    and w4: "w4 = w3" using move_quote_Inr [OF s(4) n] by blast
  obtain pid where pid: "env_uuid (bc_env c) (bp_ID p) = Some pid" "acct_id (bd_ledger w3) src_kind pid = Some (ac_ID a)" "acct_id (bd_ledger w3) dst_kind pid = Some (ac_ID b)"
    using A(3) unfolding a_def b_def src_kind_def dst_kind_def by (cases deposit) auto
  have ids: "env_uuid (bc_env c) (ac_ID a) = Some (ac_ID a)" "env_uuid (bc_env c) (ac_ID b) = Some (ac_ID b)"
    using A(4,5) by (simp_all add: a_def b_def)
  have cover: "n + fee \<le> balance_of (bd_ledger w3) (ac_ID a)"
    using s(5) A(2,6,7) q(1) by (auto simp: checkFunds_def a_def split: if_splits)
  have t: "transfer c 4 (if deposit then ''bank_deposit'' else ''bank_withdrawal'') (ac_ID a) (ac_ID b) (FromMinor n) '''' '''' w3 = (w5, Inr txID)"
    and f: "chargeFee c (ac_ID a) (bct_ID feeCity) (FromMinor fee) txID w5 = (w6, Inr u)"
    using s(6,7) by (simp_all add: w4 q(1) a_def b_def)
  note TF = transfer_and_fee [OF t f grows_ok [OF A(1)] ok(2) n q(2,3) ids cover]
  then have g: "grows c (bd_ledger w3) (bd_ledger w')" "moved_exactly (bd_ledger w) (bd_ledger w') (ac_ID a) (ac_ID b) n fee"
    by (simp_all add: s(8) moved_exactly_def A(2))
  show ?thesis
    using g grows_trans [OF A(1) g(1)] grows_acct [OF g(1) pid(2)] grows_acct [OF g(1) pid(3)] pid(1) q s(9) by auto
qed

lemma parse_loop_in64: "parse_loop s n k = Inr (m, j) \<Longrightarrow> in64 n \<Longrightarrow> in64 m"
  by (induction s n k rule: parse_loop.induct) (auto split: option.splits if_splits)

lemma parseAmount_range:
  assumes "bank_parseAmount h raw = Inr amt"
  obtains n where "amt = FromMinor n" "0 < n" "n \<le> MaxInt64" "ParseAmount raw = Inr (FromMinor n)"
proof -
  have p: "ParseAmount raw = Inr amt" "Limits_Check (bh_limits h) amt = None"
    using assms by (auto simp: bank_parseAmount_def split: sum.splits option.splits bank_error.splits)
  then have "in64 (Minor amt)"
    using parse_loop_in64 [of "TrimSpace raw" 0 0] by (auto simp: ParseAmount_def Let_def in64_def split: if_splits sum.splits prod.splits)
  moreover have "0 < Minor amt" using p(2) by (auto simp: Limits_Check_def Amount_IsZero_def Amount_IsNegative_def split: if_splits)
  ultimately show ?thesis using that [of "Minor amt"] p(1) by (simp add: in64_def)
qed

lemma reserve_cases:
  assumes "bank_reserve h c p meta nonce w = (w', Inr fresh)"
  obtains pid where "env_uuid (bc_env c) p = Some pid"
    "fresh \<and> w' = w\<lparr>bd_keys := bd_keys w @ [(pid, reserve_key c p meta nonce)]\<rparr> \<and> (pid, reserve_key c p meta nonce) \<notin> set (bd_keys w) \<or>
     \<not> fresh \<and> w' = w \<and> (pid, reserve_key c p meta nonce) \<in> set (bd_keys w)"
  using assms by (auto simp: bank_reserve_def keys_Reserve_def split: if_splits option.splits)

lemma GetBy_Inr: "GetByTelegramUserID u w = (w', Inr p) \<longleftrightarrow> w' = w \<and> find (\<lambda>p. bp_TelegramUserID p = u) (bd_players w) = Some p"
  by (auto simp: GetByTelegramUserID_def split: option.splits)

lemma bankHere_state: "bankHere h pt meta w = (w', r) \<Longrightarrow> w' = w"
  by (auto simp: bankHere_def tx_bind_def GetByTelegramUserID_def tx_lift_def split: if_splits option.splits)

text \<open>Every end of a deposit or a withdrawal.\<close>

lemma bank_move_Inl: "bank_move h pt c meta req deposit w = (w', Inl e) \<Longrightarrow> w' = w"
  unfolding bank_move_def tx_bind_def
  by (auto split: prod.splits sum.splits if_splits simp: tx_lift_def tx_check_def tx_return_def dest: bankHere_state uow_Do_Inl)

lemma bank_move_Inr:
  assumes "bank_move h pt c meta req deposit w = (w', Inr r)"
  shows "(r = NotOffered \<and> w' = w) \<or>
    (\<exists>n. ParseAmount (arq_Amount req) = Inr (FromMinor n) \<and> 0 < n \<and> n \<le> MaxInt64 \<and> move_tx h pt c meta (FromMinor n) (arq_Nonce req) deposit w = (w', Inr r))"
proof -
  obtain amt off where a: "bank_parseAmount h (arq_Amount req) = Inr amt" "bankHere h pt meta w = (w, Inr off)"
    "(if \<not> off then tx_return NotOffered else uow_Do (bc_cannot_begin c) (bc_cannot_commit c) (move_tx h pt c meta amt (arq_Nonce req) deposit)) w = (w', Inr r)"
    using assms unfolding bank_move_def by (auto simp: tx_bind_Inr dest: bankHere_state)
  show ?thesis
  proof (cases off)
    case True
    then have "move_tx h pt c meta amt (arq_Nonce req) deposit w = (w', Inr r)" using a(3) by (simp add: uow_Do_Inr)
    then show ?thesis using parseAmount_range [OF a(1)] by metis
  next
    case False
    then show ?thesis using a(3) by simp
  qed
qed

lemma move_tx_Inr:
  assumes "move_tx h pt c meta amt nonce deposit w = (w', Inr r)"
  obtains p pid where "find (\<lambda>p. bp_TelegramUserID p = md_TelegramUserID meta) (bd_players w) = Some p" "env_uuid (bc_env c) (bp_ID p) = Some pid"
    "r = Replayed \<and> w' = w \<and> (pid, reserve_key c (bp_ID p) meta nonce) \<in> set (bd_keys w) \<or>
     (pid, reserve_key c (bp_ID p) meta nonce) \<notin> set (bd_keys w) \<and>
     move_rows h pt c meta amt deposit p (w\<lparr>bd_keys := bd_keys w @ [(pid, reserve_key c (bp_ID p) meta nonce)]\<rparr>) = (w', Inr r)"
proof -
  obtain p w1 fresh where p: "find (\<lambda>p. bp_TelegramUserID p = md_TelegramUserID meta) (bd_players w) = Some p"
    "bank_reserve h c (bp_ID p) meta nonce w = (w1, Inr fresh)"
    "(if \<not> fresh then tx_return Replayed else move_rows h pt c meta amt deposit p) w1 = (w', Inr r)"
    using assms unfolding move_tx_def by (auto simp: tx_bind_Inr GetBy_Inr)
  from reserve_cases [OF p(2)] obtain pid where pid: "env_uuid (bc_env c) (bp_ID p) = Some pid"
    "fresh \<and> w1 = w\<lparr>bd_keys := bd_keys w @ [(pid, reserve_key c (bp_ID p) meta nonce)]\<rparr> \<and> (pid, reserve_key c (bp_ID p) meta nonce) \<notin> set (bd_keys w) \<or>
     \<not> fresh \<and> w1 = w \<and> (pid, reserve_key c (bp_ID p) meta nonce) \<in> set (bd_keys w)" by blast
  show ?thesis
  proof (rule that [OF p(1) pid(1)], cases fresh)
    case True
    then show "r = Replayed \<and> w' = w \<and> (pid, reserve_key c (bp_ID p) meta nonce) \<in> set (bd_keys w) \<or>
     (pid, reserve_key c (bp_ID p) meta nonce) \<notin> set (bd_keys w) \<and>
     move_rows h pt c meta amt deposit p (w\<lparr>bd_keys := bd_keys w @ [(pid, reserve_key c (bp_ID p) meta nonce)]\<rparr>) = (w', Inr r)"
      using p(3) pid(2) by simp
  next
    case False
    then show "r = Replayed \<and> w' = w \<and> (pid, reserve_key c (bp_ID p) meta nonce) \<in> set (bd_keys w) \<or>
     (pid, reserve_key c (bp_ID p) meta nonce) \<notin> set (bd_keys w) \<and>
     move_rows h pt c meta amt deposit p (w\<lparr>bd_keys := bd_keys w @ [(pid, reserve_key c (bp_ID p) meta nonce)]\<rparr>) = (w', Inr r)"
      using p(3) pid(2) by simp
  qed
qed


section \<open>Concrete runs\<close>

definition demo_bank :: bank_db where
  "demo_bank = \<lparr>bd_ledger = demo_ledger,
     bd_players = [\<lparr>bp_ID = ''p'', bp_TelegramUserID = 7, bp_CityID = ''c'', bp_Status = ''active'', bp_Name = ''P'', bp_PublicCode = ''P1''\<rparr>,
       \<lparr>bp_ID = ''q'', bp_TelegramUserID = 8, bp_CityID = ''c'', bp_Status = ''active'', bp_Name = ''Q'', bp_PublicCode = ''Q1''\<rparr>],
     bd_stats = [], bd_transit = [], bd_cities = [\<lparr>bct_ID = ''c'', bct_Code = ''home'', bct_JurisdictionID = ''j''\<rparr>],
     bd_keys = [], bd_flags = [], bd_holds = [], bd_outbox = []\<rparr>"

definition demo_calls :: "char \<Rightarrow> bank_calls" where
  "demo_calls ch = \<lparr>bc_env = \<lparr>env_uuid = Some, env_newID = '''', env_now = 5\<rparr>, bc_ids = (\<lambda>i. replicate (i + 1) ch), bc_nos = int, bc_now = 6,
     bc_sha256 = (\<lambda>b. take 32 (b @ replicate 32 0)), bc_cannot_begin = None, bc_cannot_commit = None\<rparr>"

definition demo_handler :: bank_handler where
  "demo_handler = \<lparr>bh_limits = \<lparr>lim_Min = FromMinor 1, lim_Max = FromMinor 1000\<rparr>, bh_bankCity = ''home'', bh_idempotencyTTL = 60,
     bh_watch = Some demo_thresholds, bh_gated = False\<rparr>"

definition demo_ports :: bank_ports where
  "demo_ports = \<lparr>bpt_policy = (\<lambda>_ _. Inr 1000), bpt_jailed = (\<lambda>_. None), bpt_sanctioned = (\<lambda>_ _. None), bpt_search = (\<lambda>_. None), bpt_gate = (\<lambda>_. Inr True)\<rparr>"

definition demo_deposit_request :: amount_request where
  "demo_deposit_request = \<lparr>arq_Amount = [51, 48], arq_Nonce = ''n''\<rparr>"

definition demo_payment_request :: pay_request where
  "demo_payment_request = \<lparr>prq_To = [], prq_Player = ''q'', prq_Amount = [53, 48], prq_Method = MethodCash, prq_Nonce = ''m'', prq_Origin = ''''\<rparr>"

definition demo_watched :: bank_db where
  "demo_watched = demo_bank\<lparr>bd_flags := [\<lparr>wf_ID = ''f'', wf_No = 1, wf_Rule = OneWay, wf_PlayerID = ''q'', wf_OtherPlayerID = ''p'', wf_Score = 9000,
     wf_Hits = 1, wf_Evidence = [], wf_Status = FlagOpen, wf_CreatedAt = 1, wf_UpdatedAt = 1, wf_ClearedAt = None, wf_ClearedBy = '''', wf_Note = ''''\<rparr>]\<rparr>"

definition demo_held :: bank_db where
  "demo_held = fst (PaySend demo_handler demo_ports (demo_calls CHR ''x'') demo_metadata demo_payment_request demo_watched)"

lemma demo_calls_ok: "calls_ok (demo_calls ch)"
  by (simp add: calls_ok_def demo_calls_def)

lemma demo_bank_ok: "bank_ok (demo_calls ch) (bd_ledger demo_bank)" "bank_ok (demo_calls ch) (bd_ledger demo_watched)"
  by (simp_all add: bank_ok_def uuids_ok_def demo_calls_def demo_bank_def demo_watched_def demo_ledger_ok)

abbreviation demo_deposit_run :: "bank_db \<times> (bank_fault + bank_result)" where
  "demo_deposit_run \<equiv> bank_move demo_handler demo_ports (demo_calls CHR ''x'') demo_metadata demo_deposit_request True demo_bank"

abbreviation demo_payment_run :: "bank_db \<times> (bank_fault + bank_result)" where
  "demo_payment_run \<equiv> PaySend demo_handler demo_ports (demo_calls CHR ''x'') demo_metadata demo_payment_request demo_watched"

lemma demo_runs: "snd demo_deposit_run = Inr (Moved 0)" "snd demo_payment_run = Inr (Held 0)"
  by code_simp+


section \<open>Payments are exact\<close>

lemma keeps_ledger_card_quote [tx_rules]: "keeps_ledger l (card_quote h pt c p payee here amt a b)"
  unfolding card_quote_def by (intro tx_rules) (auto intro!: tx_rules split: sum.splits simp del: tx_simps)

lemma payQuote_steps:
  assumes "payQuote h pt c p m amt req w = (w', Inr q)"
  shows "\<exists>payee w1 here w2 pc pb w3 qc qb w4. bank_payee pt c req w = (w1, Inr payee) \<and> bp_ID payee \<noteq> bp_ID p \<and>
    lockPresence c [bp_ID p, bp_ID payee] w1 = (w2, Inr here) \<and>
    CheckPayment (bp_ID p) (bp_ID payee) m (here ! 0) (here ! 1) = None \<and>
    playerAccounts c 0 (bp_ID p) w2 = (w3, Inr (pc, pb)) \<and> playerAccounts c 2 (bp_ID payee) w3 = (w4, Inr (qc, qb)) \<and>
    (if m = MethodCard then card_quote h pt c p payee (here ! 0) amt pb qb else tx_return (cash_quote payee amt pc qc)) w4 = (w', Inr q) \<and>
    checkFunds (pq_from q) (pq_quote q) (m = MethodCash) = None"
  using assms unfolding payQuote_def tx_bind_Inr tx_check_Inr tx_return_def split_paired_Ex prod.case prod.inject sum.inject
  apply -
  apply (elim exE conjE)
  apply hypsubst
  apply (intro exI conjI)
  apply assumption
  apply (simp split: if_splits)
  apply assumption
  apply simp
  apply assumption+
  done

lemma card_quote_Inr:
  assumes "card_quote h pt c p payee here (FromMinor n) a b w = (w', Inr q)" "0 < n" "n \<le> MaxInt64"
  shows "\<exists>fee. pq_payee q = payee \<and> pq_reason q = ''card_payment'' \<and> pq_from q = a \<and> pq_to q = b \<and> 0 \<le> fee \<and> fee \<le> MaxInt64 \<and>
    pq_quote q = \<lparr>quo_Amount = FromMinor n, quo_Fee = FromMinor fee, quo_Total = FromMinor (n + fee)\<rparr>"
proof -
  obtain bps and city :: bank_city and qq where q: "QuoteFor (FromMinor n) bps = Inr qq"
    "q = \<lparr>pq_payee = payee, pq_reason = ''card_payment'', pq_from = a, pq_to = b, pq_quote = qq, pq_feeCity = bct_ID city\<rparr>"
  proof -
    from assms(1) obtain w1 bc where c: "(case bc of (feeBPS, city :: bank_city) \<Rightarrow> case QuoteFor (FromMinor n) feeBPS of Inl _ \<Rightarrow> tx_fail FaultInternal
      | Inr q \<Rightarrow> tx_return \<lparr>pq_payee = payee, pq_reason = ''card_payment'', pq_from = a, pq_to = b, pq_quote = q, pq_feeCity = bct_ID city\<rparr>) w1 = (w', Inr q)"
      unfolding card_quote_def by (elim tx_bind_InrE)
    then show ?thesis using that by (cases bc; cases "QuoteFor (FromMinor n) (fst bc)") auto
  qed
  from QuoteFor_parts [OF q(1) assms(2,3)] obtain fee where
    "qq = \<lparr>quo_Amount = FromMinor n, quo_Fee = FromMinor fee, quo_Total = FromMinor (n + fee)\<rparr>" "0 \<le> fee" "n + fee \<le> MaxInt64" by blast
  then show ?thesis using assms(2) q(2) by auto
qed

abbreviation purse_kind :: "payment_method \<Rightarrow> account_kind" where
  "purse_kind m \<equiv> if m = MethodCard then AccountPlayerBank else AccountPlayerCash"

lemma payQuote_Inr:
  assumes m: "payQuote h pt c p m (FromMinor n) req w = (w', Inr q)" and ok: "bank_ok c (bd_ledger w)" "calls_ok c" and n: "0 < n" "n \<le> MaxInt64"
  shows "\<exists>fee pid qid. pq_quote q = \<lparr>quo_Amount = FromMinor n, quo_Fee = FromMinor fee, quo_Total = FromMinor (n + fee)\<rparr> \<and> 0 \<le> fee \<and> fee \<le> MaxInt64 \<and>
    (m \<noteq> MethodCard \<longrightarrow> fee = 0) \<and> env_uuid (bc_env c) (bp_ID p) = Some pid \<and> env_uuid (bc_env c) (bp_ID (pq_payee q)) = Some qid \<and> bp_ID (pq_payee q) \<noteq> bp_ID p \<and>
    acct_id (bd_ledger w') (purse_kind m) pid = Some (ac_ID (pq_from q)) \<and> acct_id (bd_ledger w') (purse_kind m) qid = Some (ac_ID (pq_to q)) \<and>
    env_uuid (bc_env c) (ac_ID (pq_from q)) = Some (ac_ID (pq_from q)) \<and> env_uuid (bc_env c) (ac_ID (pq_to q)) = Some (ac_ID (pq_to q)) \<and>
    grows c (bd_ledger w) (bd_ledger w') \<and> balance_of (bd_ledger w') = balance_of (bd_ledger w) \<and> n + fee \<le> balance_of (bd_ledger w) (ac_ID (pq_from q))"
proof -
  obtain payee w1 here w2 pc pb w3 qc qb w4 where
    s: "bank_payee pt c req w = (w1, Inr payee)" "bp_ID payee \<noteq> bp_ID p" "lockPresence c [bp_ID p, bp_ID payee] w1 = (w2, Inr here)"
      "playerAccounts c 0 (bp_ID p) w2 = (w3, Inr (pc, pb))" "playerAccounts c 2 (bp_ID payee) w3 = (w4, Inr (qc, qb))"
      "(if m = MethodCard then card_quote h pt c p payee (here ! 0) (FromMinor n) pb qb else tx_return (cash_quote payee (FromMinor n) pc qc)) w4 = (w', Inr q)"
      "checkFunds (pq_from q) (pq_quote q) (m = MethodCash) = None"
    using payQuote_steps [OF m] by blast
  have l2: "bd_ledger w2 = bd_ledger w"
    using keeps_ledgerD [OF keeps_ledger_lockPresence s(3)] keeps_ledgerD [OF keeps_reads(9) s(1)] by simp
  have l4: "bd_ledger w' = bd_ledger w4" using s(6) keeps_ledgerD [OF keeps_ledger_card_quote] by (auto split: if_splits)
  note A = playerAccounts_Inr [OF s(4), unfolded l2, OF ok]
  note B = playerAccounts_Inr [OF s(5) grows_ok [OF A(1)] ok(2)]
  obtain fee where q: "pq_payee q = payee" "pq_from q = (if m = MethodCard then pb else pc)" "pq_to q = (if m = MethodCard then qb else qc)"
    "pq_quote q = \<lparr>quo_Amount = FromMinor n, quo_Fee = FromMinor fee, quo_Total = FromMinor (n + fee)\<rparr>" "0 \<le> fee" "fee \<le> MaxInt64" "m \<noteq> MethodCard \<longrightarrow> fee = 0"
  proof (cases "m = MethodCard")
    case True
    with s(6) card_quote_Inr [of h pt c p payee "here ! 0" n pb qb w4 w' q] n that show ?thesis by auto
  next
    case False
    with s(6) that [of 0] show ?thesis by (auto simp: cash_quote_def)
  qed
  have cover: "n + fee \<le> ac_Balance (pq_from q)" using s(7) q(4) by (auto simp: checkFunds_def split: if_splits)
  have bal: "balance_of (bd_ledger w) (ac_ID (pq_from q)) = ac_Balance (pq_from q)" using A(6,7) q(2) by simp
  obtain pid where pid: "env_uuid (bc_env c) (bp_ID p) = Some pid" "acct_id (bd_ledger w4) (purse_kind m) pid = Some (ac_ID (pq_from q))"
    using A(3) grows_acct [OF B(1)] q(2) by (cases "m = MethodCard") auto
  obtain qid where qid: "env_uuid (bc_env c) (bp_ID payee) = Some qid" "acct_id (bd_ledger w4) (purse_kind m) qid = Some (ac_ID (pq_to q))"
    using B(3) q(3) by (cases "m = MethodCard") auto
  show ?thesis
    using q cover bal pid qid s(2) A(2,4,5) B(2,4,5) grows_trans [OF A(1) B(1)] by (auto simp: l4)
qed

lemma bank_hold_eq:
  assumes "0 < n" "n \<le> MaxInt64"
  shows "bank_hold c from payerID payeeID m (FromMinor n) flag =
    tx_bind (on_ledger (\<lambda>l. AccountFor (call c 42) l AccountPlayerEscrow payerID)) (\<lambda>escrow.
    tx_bind (transfer c 43 ''payment_hold'' (ac_ID from) (ac_ID escrow) (FromMinor n) ''payment_holds'' (bc_ids c 41)) (\<lambda>txID.
    put_Hold c (new_hold c payerID payeeID m (FromMinor n) flag txID)))"
proof -
  have "Amount_Neg (FromMinor n) = Inr (FromMinor (- n))" using assms by (simp add: Amount_Neg_eq valid_amount_def in64_def)
  then show ?thesis by (simp add: bank_hold_def transfer_def)
qed

lemma put_Hold_Inr:
  assumes "put_Hold c hold w = (w', Inr h)"
  obtains row where "w' = w\<lparr>bd_holds := bd_holds w @ [row]\<rparr>" "env_uuid (bc_env c) (ph_PayerID hold) = Some (ph_PayerID row)"
    "env_uuid (bc_env c) (ph_PayeeID hold) = Some (ph_PayeeID row)" "ph_Amount row = ph_Amount hold" "ph_Method row = ph_Method hold" "ph_Status row = HoldHeld"
    "ph_No row = bc_nos c 40" "\<forall>x\<in>set (bd_holds w). ph_ID x \<noteq> ph_ID row \<and> ph_No x \<noteq> ph_No row" "0 < ph_Amount row" "ph_PayerID row \<noteq> ph_PayeeID row"
    "ph_Method row \<in> {''cash'', ''card''}" "env_uuid (bc_env c) (ensureID (bc_env c) (ph_ID hold)) = Some (ph_ID row)"
proof -
  define h1 where "h1 = hold\<lparr>ph_ID := ensureID (bc_env c) (ph_ID hold), ph_Status := HoldHeld\<rparr>"
  define row where "row = h1\<lparr>ph_ID := the (env_uuid (bc_env c) (ph_ID h1)), ph_No := bc_nos c 40, ph_PayerID := the (env_uuid (bc_env c) (ph_PayerID hold)),
              ph_PayeeID := the (env_uuid (bc_env c) (ph_PayeeID hold)), ph_FlagID := (if ph_FlagID hold = '''' then '''' else the (env_uuid (bc_env c) (ph_FlagID hold))),
              ph_HoldTransactionID := the (env_uuid (bc_env c) (ph_HoldTransactionID hold)), ph_SettleTransactionID := '''', ph_SettledAt := None,
              ph_SettledBy := '''', ph_Note := ''''\<rparr>"
  have r: "w' = w\<lparr>bd_holds := bd_holds w @ [row]\<rparr>" "env_uuid (bc_env c) (ph_ID h1) \<noteq> None" "env_uuid (bc_env c) (ph_PayerID hold) \<noteq> None"
    "env_uuid (bc_env c) (ph_PayeeID hold) \<noteq> None" "ph_Method row \<in> {''cash'', ''card''}" "0 < ph_Amount row" "ph_PayerID row \<noteq> ph_PayeeID row"
    "\<forall>x\<in>set (bd_holds w). ph_ID x \<noteq> ph_ID row \<and> ph_No x \<noteq> bc_nos c 40"
    using assms unfolding put_Hold_def watch_Hold_def Let_def h1_def [symmetric] row_def [symmetric]
    by (auto split: if_splits)
  have f: "ph_PayerID row = the (env_uuid (bc_env c) (ph_PayerID hold))" "ph_PayeeID row = the (env_uuid (bc_env c) (ph_PayeeID hold))"
    "ph_Amount row = ph_Amount hold" "ph_Method row = ph_Method hold" "ph_Status row = HoldHeld" "ph_No row = bc_nos c 40" "ph_ID row = the (env_uuid (bc_env c) (ph_ID h1))"
    by (simp_all add: row_def h1_def)
  show ?thesis by (rule that [of row]) (use r f in \<open>auto simp: h1_def\<close>)
qed

lemma pay_rows_steps:
  assumes "pay_rows h pt c meta m amt req p w = (w', Inr r)"
  obtains q w1 linked w2 where "payQuote h pt c p m amt req w = (w1, Inr q)"
    "watchPayment c (bh_watch h) (bp_ID p) (bp_ID (pq_payee q)) (Minor (quo_Amount (pq_quote q))) w1 = (w2, Inr linked)"
    "(if pays_hold h (quo_Amount (pq_quote q)) linked then pay_held c m p q linked else pay_paid c meta m req p q) w2 = (w', Inr r)"
  using assms unfolding pay_rows_def by (elim tx_bind_InrE)

lemma pay_paid_Inr:
  assumes "pay_paid c meta m req p q w = (w', Inr r)" "pq_quote q = \<lparr>quo_Amount = FromMinor n, quo_Fee = FromMinor fee, quo_Total = FromMinor (n + fee)\<rparr>"
    and ok: "bank_ok c (bd_ledger w)" "calls_ok c" "0 < n" "n \<le> MaxInt64" "0 \<le> fee" "fee \<le> MaxInt64"
    and ids: "env_uuid (bc_env c) (ac_ID (pq_from q)) = Some (ac_ID (pq_from q))" "env_uuid (bc_env c) (ac_ID (pq_to q)) = Some (ac_ID (pq_to q))"
    and cover: "n + fee \<le> balance_of (bd_ledger w) (ac_ID (pq_from q))"
  shows "r = Moved fee" "grows c (bd_ledger w) (bd_ledger w')" "moved_exactly (bd_ledger w) (bd_ledger w') (ac_ID (pq_from q)) (ac_ID (pq_to q)) n fee"
    "bd_keys w' = bd_keys w" "bd_holds w' = bd_holds w"
proof -
  from assms(1) obtain w1 txID w2 u v where t: "transfer c 4 (pq_reason q) (ac_ID (pq_from q)) (ac_ID (pq_to q)) (FromMinor n) '''' '''' w = (w1, Inr txID)"
    and f: "chargeFee c (ac_ID (pq_from q)) (pq_feeCity q) (FromMinor fee) txID w1 = (w2, Inr u)"
    and a: "bank_announce c meta ''payment_received'' txID (payment_payload p q m txID req) w2 = (w', Inr v)" and r: "r = Moved fee"
    unfolding pay_paid_def assms(2) by (auto simp: tx_bind_Inr)
  note TF = transfer_and_fee [OF t f ok ids cover]
  have l: "bd_ledger w' = bd_ledger w2" by (rule keeps_ledgerD [OF keeps_ledger_announce a])
  show "r = Moved fee" "grows c (bd_ledger w) (bd_ledger w')" "moved_exactly (bd_ledger w) (bd_ledger w') (ac_ID (pq_from q)) (ac_ID (pq_to q)) n fee"
    using r TF by (simp_all add: l)
  show "bd_keys w' = bd_keys w" "bd_holds w' = bd_holds w"
    using keeps_khD [OF keeps_kh_transfer t] keeps_khD [OF keeps_kh_parts(3) f] keeps_khD [OF keeps_kh_announce a] by simp_all
qed

lemma pay_held_Inr:
  assumes "pay_held c m p q linked w = (w', Inr r)" "pq_quote q = \<lparr>quo_Amount = FromMinor n, quo_Fee = FromMinor fee, quo_Total = FromMinor (n + fee)\<rparr>"
    and ok: "bank_ok c (bd_ledger w)" "calls_ok c" "0 < n" "n \<le> MaxInt64" "0 \<le> fee" "fee \<le> MaxInt64"
    and ids: "env_uuid (bc_env c) (ac_ID (pq_from q)) = Some (ac_ID (pq_from q))" and pid: "env_uuid (bc_env c) (bp_ID p) = Some pid" "env_uuid (bc_env c) (bp_ID (pq_payee q)) = Some qid"
    and cover: "n + fee \<le> balance_of (bd_ledger w) (ac_ID (pq_from q))"
  shows "\<exists>esc row. r = Held fee \<and> acct_id (bd_ledger w') AccountPlayerEscrow pid = Some esc \<and> grows c (bd_ledger w) (bd_ledger w') \<and>
    moved_exactly (bd_ledger w) (bd_ledger w') (ac_ID (pq_from q)) esc n fee \<and> bd_keys w' = bd_keys w \<and> bd_holds w' = bd_holds w @ [row] \<and>
    ph_PayerID row = pid \<and> ph_PayeeID row = qid \<and> ph_Amount row = n \<and> ph_Status row = HoldHeld \<and> ph_Method row = method_text m \<and>
    pid \<noteq> qid \<and> (\<exists>i. env_uuid (bc_env c) i = Some (ph_ID row)) \<and>
    (\<forall>x\<in>set (bd_holds w). ph_ID x \<noteq> ph_ID row \<and> ph_No x \<noteq> ph_No row)"
proof -
  have sys: "\<not> IsSystem AccountPlayerEscrow" by (simp add: IsSystem_def)
  from assms(1) obtain w1 hold u where b: "bank_hold c (pq_from q) (bp_ID p) (bp_ID (pq_payee q)) m (FromMinor n) linked w = (w1, Inr hold)"
    and f: "chargeFee c (ac_ID (pq_from q)) (pq_feeCity q) (FromMinor fee) (ph_HoldTransactionID hold) w1 = (w', Inr u)" and r: "r = Held fee"
    unfolding pay_held_def assms(2) by (auto simp: tx_bind_Inr)
  from b obtain w2 esc w3 txID where o: "on_ledger (\<lambda>l. AccountFor (call c 42) l AccountPlayerEscrow (bp_ID p)) w = (w2, Inr esc)"
    and t: "transfer c 43 ''payment_hold'' (ac_ID (pq_from q)) (ac_ID esc) (FromMinor n) ''payment_holds'' (bc_ids c 41) w2 = (w3, Inr txID)"
    and ph: "put_Hold c (new_hold c (bp_ID p) (bp_ID (pq_payee q)) m (FromMinor n) linked txID) w3 = (w1, Inr hold)"
    unfolding bank_hold_eq [OF ok(3,4)] by (auto simp: tx_bind_Inr)
  note O = open_Inr [OF o ok(1,2) sys]
  from put_Hold_Inr [OF ph, unfolded new_hold_def payment_hold.simps amount.sel] obtain row where row: "w1 = w3\<lparr>bd_holds := bd_holds w3 @ [row]\<rparr>"
    "env_uuid (bc_env c) (bp_ID p) = Some (ph_PayerID row)" "env_uuid (bc_env c) (bp_ID (pq_payee q)) = Some (ph_PayeeID row)" "ph_Amount row = n"
    "ph_Method row = method_text m" "ph_Status row = HoldHeld" "\<forall>x\<in>set (bd_holds w3). ph_ID x \<noteq> ph_ID row \<and> ph_No x \<noteq> ph_No row"
    "ph_PayerID row \<noteq> ph_PayeeID row" "\<exists>i. env_uuid (bc_env c) i = Some (ph_ID row)"
    by blast
  have f': "chargeFee c (ac_ID (pq_from q)) (pq_feeCity q) (FromMinor fee) (ph_HoldTransactionID hold) w1 = (w', Inr u)" by (rule f)
  have kh: "bd_keys w2 = bd_keys w" "bd_holds w2 = bd_holds w" "bd_keys w3 = bd_keys w2" "bd_holds w3 = bd_holds w2" "bd_keys w' = bd_keys w1" "bd_holds w' = bd_holds w1"
    using keeps_khD [OF keeps_kh_ledger o] keeps_khD [OF keeps_kh_transfer t] keeps_khD [OF keeps_kh_parts(3) f] by simp_all
  note T = transfer_Inr [OF t grows_ok [OF O(1)] less_imp_le [OF ok(3)] ok(4) ids O(4)]
  have l1: "bd_ledger w1 = bd_ledger w3" by (simp add: row(1))
  note F = chargeFee_Inr [OF f, unfolded l1, OF grows_ok [OF T(1)] ok(2) ok(5,6) ids]
  have g: "grows c (bd_ledger w2) (bd_ledger w')" using T(1) F(1) by (rule grows_trans)
  have "moved_exactly (bd_ledger w2) (bd_ledger w') (ac_ID (pq_from q)) (ac_ID esc) n fee"
    by (rule moved_exactlyI [where u = "env_uuid (bc_env c)" and city = "pq_feeCity q", OF _ F(2) ok(5)]) (use T(2) cover O(2) in simp_all)
  then have "moved_exactly (bd_ledger w) (bd_ledger w') (ac_ID (pq_from q)) (ac_ID esc) n fee" by (simp add: moved_exactly_def O(2))
  moreover have "acct_id (bd_ledger w') AccountPlayerEscrow pid = Some (ac_ID esc)" using O(3) pid(1) grows_acct [OF g] by auto
  ultimately show ?thesis using r grows_trans [OF O(1) g] row kh pid by auto
qed

text \<open>What a payment ends in, in the rows: \<open>src\<close> is the payer's purse of the method.\<close>

definition paid_rows :: "bank_calls \<Rightarrow> payment_method \<Rightarrow> int \<Rightarrow> string \<Rightarrow> string \<Rightarrow> bank_db \<Rightarrow> bank_db \<Rightarrow> bank_result \<Rightarrow> bool" where
  "paid_rows c m n pid qid w w' r \<longleftrightarrow>
     (\<exists>fee src dst. r = Moved fee \<and> (m \<noteq> MethodCard \<longrightarrow> fee = 0) \<and> acct_id (bd_ledger w') (purse_kind m) pid = Some src \<and>
        acct_id (bd_ledger w') (purse_kind m) qid = Some dst \<and> moved_exactly (bd_ledger w) (bd_ledger w') src dst n fee \<and> bd_holds w' = bd_holds w) \<or>
     (\<exists>fee src esc row. r = Held fee \<and> (m \<noteq> MethodCard \<longrightarrow> fee = 0) \<and> acct_id (bd_ledger w') (purse_kind m) pid = Some src \<and>
        acct_id (bd_ledger w') AccountPlayerEscrow pid = Some esc \<and> moved_exactly (bd_ledger w) (bd_ledger w') src esc n fee \<and>
        bd_holds w' = bd_holds w @ [row] \<and> ph_PayerID row = pid \<and> ph_PayeeID row = qid \<and> ph_Amount row = n \<and> ph_Status row = HoldHeld \<and>
        ph_Method row = method_text m \<and> pid \<noteq> qid \<and> (\<exists>i. env_uuid (bc_env c) i = Some (ph_ID row)) \<and>
        (\<forall>x\<in>set (bd_holds w). ph_ID x \<noteq> ph_ID row \<and> ph_No x \<noteq> ph_No row))"

lemma pay_rows_Inr:
  assumes m: "pay_rows h pt c meta m (FromMinor n) req p w = (w', Inr r)" and ok: "bank_ok c (bd_ledger w)" "calls_ok c" and n: "0 < n" "n \<le> MaxInt64"
  shows "\<exists>(payee :: bank_player) pid qid. env_uuid (bc_env c) (bp_ID p) = Some pid \<and> env_uuid (bc_env c) (bp_ID payee) = Some qid \<and> bp_ID payee \<noteq> bp_ID p \<and>
    paid_rows c m n pid qid w w' r \<and> grows c (bd_ledger w) (bd_ledger w') \<and> bd_keys w' = bd_keys w"
proof -
  obtain q w1 linked w2 where s: "payQuote h pt c p m (FromMinor n) req w = (w1, Inr q)"
    "watchPayment c (bh_watch h) (bp_ID p) (bp_ID (pq_payee q)) (Minor (quo_Amount (pq_quote q))) w1 = (w2, Inr linked)"
    "(if pays_hold h (quo_Amount (pq_quote q)) linked then pay_held c m p q linked else pay_paid c meta m req p q) w2 = (w', Inr r)"
    by (rule pay_rows_steps [OF m])
  from payQuote_Inr [OF s(1) ok n] obtain fee pid qid where q: "pq_quote q = \<lparr>quo_Amount = FromMinor n, quo_Fee = FromMinor fee, quo_Total = FromMinor (n + fee)\<rparr>"
    "0 \<le> fee" "fee \<le> MaxInt64" "m \<noteq> MethodCard \<longrightarrow> fee = 0" "env_uuid (bc_env c) (bp_ID p) = Some pid" "env_uuid (bc_env c) (bp_ID (pq_payee q)) = Some qid"
    "bp_ID (pq_payee q) \<noteq> bp_ID p" "acct_id (bd_ledger w1) (purse_kind m) pid = Some (ac_ID (pq_from q))" "acct_id (bd_ledger w1) (purse_kind m) qid = Some (ac_ID (pq_to q))"
    "env_uuid (bc_env c) (ac_ID (pq_from q)) = Some (ac_ID (pq_from q))" "env_uuid (bc_env c) (ac_ID (pq_to q)) = Some (ac_ID (pq_to q))"
    "grows c (bd_ledger w) (bd_ledger w1)" "balance_of (bd_ledger w1) = balance_of (bd_ledger w)" "n + fee \<le> balance_of (bd_ledger w) (ac_ID (pq_from q))"
    by (elim exE conjE) (rule that; assumption)
  have l2: "bd_ledger w2 = bd_ledger w1" by (rule keeps_ledgerD [OF keeps_ledger_watch s(2)])
  have kh: "bd_keys w2 = bd_keys w" "bd_holds w2 = bd_holds w" using keeps_khD [OF keeps_kh_payQuote s(1)] keeps_khD [OF keeps_kh_watch s(2)] by simp_all
  have ok2: "bank_ok c (bd_ledger w2)" "n + fee \<le> balance_of (bd_ledger w2) (ac_ID (pq_from q))" using grows_ok [OF q(12)] q(13,14) by (simp_all add: l2)
  have me: "moved_exactly (bd_ledger w2) l' a b n fee = moved_exactly (bd_ledger w) l' a b n fee" for l' a b by (simp add: moved_exactly_def l2 q(13))
  show ?thesis
  proof (cases "pays_hold h (quo_Amount (pq_quote q)) linked")
    case False
    then have p: "pay_paid c meta m req p q w2 = (w', Inr r)" using s(3) by simp
    note P = pay_paid_Inr [OF p q(1) ok2(1) ok(2) n q(2,3,10,11) ok2(2)]
    have g: "grows c (bd_ledger w1) (bd_ledger w')" using P(2) by (simp add: l2)
    have "paid_rows c m n pid qid w w' r"
      unfolding paid_rows_def using P q(4) grows_acct [OF g q(8)] grows_acct [OF g q(9)] kh by (auto simp: me)
    then show ?thesis using q(5-7) P(4) kh grows_trans [OF q(12) g] by auto
  next
    case True
    then have p: "pay_held c m p q linked w2 = (w', Inr r)" using s(3) by simp
    from pay_held_Inr [OF p q(1) ok2(1) ok(2) n q(2,3,10,5,6) ok2(2)] obtain esc row where P: "r = Held fee"
      "acct_id (bd_ledger w') AccountPlayerEscrow pid = Some esc" "grows c (bd_ledger w2) (bd_ledger w')"
      "moved_exactly (bd_ledger w2) (bd_ledger w') (ac_ID (pq_from q)) esc n fee" "bd_keys w' = bd_keys w2" "bd_holds w' = bd_holds w2 @ [row]"
      "ph_PayerID row = pid" "ph_PayeeID row = qid" "ph_Amount row = n" "ph_Status row = HoldHeld" "ph_Method row = method_text m"
      "pid \<noteq> qid" "\<exists>i. env_uuid (bc_env c) i = Some (ph_ID row)" "\<forall>x\<in>set (bd_holds w2). ph_ID x \<noteq> ph_ID row \<and> ph_No x \<noteq> ph_No row" by blast
    have g: "grows c (bd_ledger w1) (bd_ledger w')" using P(3) by (simp add: l2)
    have "paid_rows c m n pid qid w w' r"
      unfolding paid_rows_def using P q(4) grows_acct [OF g q(8)] kh by (auto simp: me)
    then show ?thesis using q(5-7) P(5) kh grows_trans [OF q(12) g] by auto
  qed
qed

lemma pay_tx_Inr:
  assumes "pay_tx h pt c meta m amt req w = (w', Inr r)"
  obtains p pid where "find (\<lambda>p. bp_TelegramUserID p = md_TelegramUserID meta) (bd_players w) = Some p" "env_uuid (bc_env c) (bp_ID p) = Some pid"
    "r = Replayed \<and> w' = w \<and> (pid, reserve_key c (bp_ID p) meta (prq_Nonce req)) \<in> set (bd_keys w) \<or>
     (pid, reserve_key c (bp_ID p) meta (prq_Nonce req)) \<notin> set (bd_keys w) \<and>
     pay_rows h pt c meta m amt req p (w\<lparr>bd_keys := bd_keys w @ [(pid, reserve_key c (bp_ID p) meta (prq_Nonce req))]\<rparr>) = (w', Inr r)"
proof -
  obtain p w1 fresh where p: "find (\<lambda>p. bp_TelegramUserID p = md_TelegramUserID meta) (bd_players w) = Some p"
    "bank_reserve h c (bp_ID p) meta (prq_Nonce req) w = (w1, Inr fresh)"
    "(if \<not> fresh then tx_return Replayed else pay_rows h pt c meta m amt req p) w1 = (w', Inr r)"
    using assms unfolding pay_tx_def by (auto simp: tx_bind_Inr GetBy_Inr)
  from reserve_cases [OF p(2)] obtain pid where pid: "env_uuid (bc_env c) (bp_ID p) = Some pid"
    "fresh \<and> w1 = w\<lparr>bd_keys := bd_keys w @ [(pid, reserve_key c (bp_ID p) meta (prq_Nonce req))]\<rparr> \<and> (pid, reserve_key c (bp_ID p) meta (prq_Nonce req)) \<notin> set (bd_keys w) \<or>
     \<not> fresh \<and> w1 = w \<and> (pid, reserve_key c (bp_ID p) meta (prq_Nonce req)) \<in> set (bd_keys w)" by blast
  show ?thesis by (rule that [OF p(1) pid(1)]) (use p(3) pid(2) in \<open>cases fresh; simp\<close>)
qed

lemma PaySend_Inl: "PaySend h pt c meta req w = (w', Inl e) \<Longrightarrow> w' = w"
  unfolding PaySend_def tx_bind_def
  by (auto split: prod.splits sum.splits if_splits simp: tx_lift_def tx_check_def dest: uow_Do_Inl)

lemma PaySend_Inr:
  assumes "PaySend h pt c meta req w = (w', Inr r)"
  obtains n where "ParseAmount (prq_Amount req) = Inr (FromMinor n)" "0 < n" "n \<le> MaxInt64" "Method_Valid (prq_Method req)"
    "pay_tx h pt c meta (prq_Method req) (FromMinor n) req w = (w', Inr r)"
proof -
  obtain amt where a: "bank_parseAmount h (prq_Amount req) = Inr amt" "Method_Valid (prq_Method req)" "pay_tx h pt c meta (prq_Method req) amt req w = (w', Inr r)"
    using assms unfolding PaySend_def by (auto simp: tx_bind_Inr uow_Do_Inr split: if_splits)
  from parseAmount_range [OF a(1)] show ?thesis using a(2,3) that by metis
qed




end
