(* ===== verification/Bank_System.thy ===== *)
theory Bank_System
  imports Bank_Correct
begin

text \<open>
  The bank as a system: any sequence of commands and settlements over the same rows. A command is done once
  whatever is pressed again; a held payment is settled once; and in every reachable state the escrow of a
  player holds exactly the payments of that player the watch holds.
\<close>

section \<open>Commands\<close>

datatype bank_command = MoveCmd amount_request bool | PayCmd pay_request

fun bank_run :: "bank_handler \<Rightarrow> bank_ports \<Rightarrow> bank_calls \<Rightarrow> metadata \<Rightarrow> bank_command \<Rightarrow> bank_result bank_tx" where
  "bank_run h pt c meta (MoveCmd req deposit) w = bank_move h pt c meta req deposit w"
| "bank_run h pt c meta (PayCmd req) w = PaySend h pt c meta req w"

fun cmd_nonce :: "bank_command \<Rightarrow> string" where
  "cmd_nonce (MoveCmd req _) = arq_Nonce req"
| "cmd_nonce (PayCmd req) = prq_Nonce req"

definition found_player :: "bank_db \<Rightarrow> metadata \<Rightarrow> bank_player option" where
  "found_player w meta = find (\<lambda>p. bp_TelegramUserID p = md_TelegramUserID meta) (bd_players w)"

lemma keeps_kh_move_quote [tx_rules]: "keeps_kh K H (move_quote h pt city amt deposit)"
  unfolding move_quote_def by (intro tx_rules) (auto intro!: tx_rules split: sum.splits simp del: tx_simps)

lemma keeps_kh_move_rows [tx_rules]: "keeps_kh K H (move_rows h pt c meta amt deposit p)"
  unfolding move_rows_def Let_def by (auto intro!: tx_rules split: prod.splits simp del: tx_simps)

lemma kh_keys: "(\<And>H. keeps_kh K H m) \<Longrightarrow> tx_keeps (\<lambda>w. bd_keys w = K) m"
  unfolding tx_keeps_def by blast

lemma keeps_keys_put_Hold: "tx_keeps (\<lambda>w. bd_keys w = K) (put_Hold c hold)"
  by (rule tx_keeps_simpleI) (auto simp: put_Hold_def split: prod.splits sum.splits)

lemma keeps_keys_pay_rows: "tx_keeps (\<lambda>w. bd_keys w = K) (pay_rows h pt c meta m amt req p)"
  unfolding pay_rows_def pay_held_def pay_paid_def bank_hold_def Let_def
  by (intro tx_keeps_bind tx_keeps_if keeps_keys_put_Hold tx_keeps_basic kh_keys keeps_kh_payQuote keeps_kh_watch keeps_kh_ledger keeps_kh_parts
      keeps_kh_transfer keeps_kh_announce)

lemma pay_rows_keys: "pay_rows h pt c meta m amt req p w = (w', r) \<Longrightarrow> bd_keys w' = bd_keys w"
  using tx_keepsD [OF keeps_keys_pay_rows [of "bd_keys w"]] by blast

text \<open>The three kinds of end, and the key.\<close>

lemma bank_run_cases:
  assumes "bank_run h pt c meta cmd w = (w', res)"
  obtains (failed) e where "res = Inl e" "w' = w"
  | (idle) "res = Inr NotOffered" "w' = w"
  | (again) p pid where "res = Inr Replayed" "w' = w" "found_player w meta = Some p" "env_uuid (bc_env c) (bp_ID p) = Some pid"
      "(pid, reserve_key c (bp_ID p) meta (cmd_nonce cmd)) \<in> set (bd_keys w)"
  | (worked) r p pid where "res = Inr r" "found_player w meta = Some p" "env_uuid (bc_env c) (bp_ID p) = Some pid"
      "(pid, reserve_key c (bp_ID p) meta (cmd_nonce cmd)) \<notin> set (bd_keys w)"
      "bd_keys w' = bd_keys w @ [(pid, reserve_key c (bp_ID p) meta (cmd_nonce cmd))]"
proof (cases res)
  case (Inl e)
  then show ?thesis using assms failed by (cases cmd) (auto dest: bank_move_Inl PaySend_Inl)
next
  case (Inr r)
  show ?thesis
  proof (cases cmd)
    case (MoveCmd req deposit)
    then have run: "bank_move h pt c meta req deposit w = (w', Inr r)" using assms Inr by simp
    show ?thesis
    proof (cases "r = NotOffered \<and> w' = w")
      case True
      then show ?thesis using idle Inr by simp
    next
      case False
      then obtain n where t: "move_tx h pt c meta (FromMinor n) (arq_Nonce req) deposit w = (w', Inr r)" using bank_move_Inr [OF run] by blast
      obtain p pid where p: "find (\<lambda>p. bp_TelegramUserID p = md_TelegramUserID meta) (bd_players w) = Some p" "env_uuid (bc_env c) (bp_ID p) = Some pid"
        "r = Replayed \<and> w' = w \<and> (pid, reserve_key c (bp_ID p) meta (arq_Nonce req)) \<in> set (bd_keys w) \<or>
         (pid, reserve_key c (bp_ID p) meta (arq_Nonce req)) \<notin> set (bd_keys w) \<and>
         move_rows h pt c meta (FromMinor n) deposit p (w\<lparr>bd_keys := bd_keys w @ [(pid, reserve_key c (bp_ID p) meta (arq_Nonce req))]\<rparr>) = (w', Inr r)"
        by (rule move_tx_Inr [OF t])
      from p(3) show ?thesis
      proof (elim disjE conjE)
        assume "r = Replayed" "w' = w" "(pid, reserve_key c (bp_ID p) meta (arq_Nonce req)) \<in> set (bd_keys w)"
        then show ?thesis using again p(1,2) Inr MoveCmd by (simp add: found_player_def)
      next
        assume k: "(pid, reserve_key c (bp_ID p) meta (arq_Nonce req)) \<notin> set (bd_keys w)"
          and m: "move_rows h pt c meta (FromMinor n) deposit p (w\<lparr>bd_keys := bd_keys w @ [(pid, reserve_key c (bp_ID p) meta (arq_Nonce req))]\<rparr>) = (w', Inr r)"
        show ?thesis using worked [OF Inr] p(1,2) k keeps_khD [OF keeps_kh_move_rows m] MoveCmd by (simp add: found_player_def)
      qed
    qed
  next
    case (PayCmd req)
    then have run: "PaySend h pt c meta req w = (w', Inr r)" using assms Inr by simp
    obtain n where n: "0 < n" "n \<le> MaxInt64" and t: "pay_tx h pt c meta (prq_Method req) (FromMinor n) req w = (w', Inr r)" by (rule PaySend_Inr [OF run])
    obtain p pid where p: "find (\<lambda>p. bp_TelegramUserID p = md_TelegramUserID meta) (bd_players w) = Some p" "env_uuid (bc_env c) (bp_ID p) = Some pid"
      "r = Replayed \<and> w' = w \<and> (pid, reserve_key c (bp_ID p) meta (prq_Nonce req)) \<in> set (bd_keys w) \<or>
       (pid, reserve_key c (bp_ID p) meta (prq_Nonce req)) \<notin> set (bd_keys w) \<and>
       pay_rows h pt c meta (prq_Method req) (FromMinor n) req p (w\<lparr>bd_keys := bd_keys w @ [(pid, reserve_key c (bp_ID p) meta (prq_Nonce req))]\<rparr>) = (w', Inr r)"
      by (rule pay_tx_Inr [OF t])
    from p(3) show ?thesis
    proof (elim disjE conjE)
      assume "r = Replayed" "w' = w" "(pid, reserve_key c (bp_ID p) meta (prq_Nonce req)) \<in> set (bd_keys w)"
      then show ?thesis using again p(1,2) Inr PayCmd by (simp add: found_player_def)
    next
      assume k: "(pid, reserve_key c (bp_ID p) meta (prq_Nonce req)) \<notin> set (bd_keys w)"
        and m: "pay_rows h pt c meta (prq_Method req) (FromMinor n) req p (w\<lparr>bd_keys := bd_keys w @ [(pid, reserve_key c (bp_ID p) meta (prq_Nonce req))]\<rparr>) = (w', Inr r)"
      show ?thesis using worked [OF Inr] p(1,2) k pay_rows_keys [OF m] PayCmd by (simp add: found_player_def)
    qed
  qed
qed

text \<open>
  C6. A command is done once. When a command did its work and its rows were committed, any later command of the
  same player under the same key (the same button pressed again, or the same update delivered again), of
  either kind, with any amount, in any later state that still has the key, changes nothing at all.
\<close>

theorem bank_once:
  assumes first: "bank_run h pt c meta cmd w = (w1, Inr r)" "r \<noteq> Replayed" "r \<noteq> NotOffered"
    and later: "set (bd_keys w1) \<subseteq> set (bd_keys w2)" "found_player w2 meta2 = found_player w meta" "env_uuid (bc_env c2) = env_uuid (bc_env c)"
    and key: "\<And>p. found_player w meta = Some p \<Longrightarrow> reserve_key c2 (bp_ID p) meta2 (cmd_nonce cmd2) = reserve_key c (bp_ID p) meta (cmd_nonce cmd)"
    and second: "bank_run h2 pt2 c2 meta2 cmd2 w2 = (w3, res)"
  shows "w3 = w2 \<and> (\<exists>e. res = Inl e \<or> res = Inr Replayed \<or> res = Inr NotOffered)"
proof -
  obtain p pid where p: "found_player w meta = Some p" "env_uuid (bc_env c) (bp_ID p) = Some pid"
    "(pid, reserve_key c (bp_ID p) meta (cmd_nonce cmd)) \<in> set (bd_keys w1)"
    by (rule bank_run_cases [OF first(1)]) (use first(2,3) in auto)
  show ?thesis
    by (rule bank_run_cases [OF second]) (use p later key in auto)
qed

theorem bank_once_witness:
  "snd demo_deposit_run = Inr (Moved 0) \<and>
   fst (bank_run demo_handler demo_ports (demo_calls CHR ''y'') demo_metadata (MoveCmd demo_deposit_request False) (fst demo_deposit_run)) = fst demo_deposit_run"
proof -
  have first: "bank_run demo_handler demo_ports (demo_calls CHR ''x'') demo_metadata (MoveCmd demo_deposit_request True) demo_bank = (fst demo_deposit_run, Inr (Moved 0))"
    unfolding bank_run.simps by (metis demo_runs(1) prod.collapse)
  let ?again = "bank_run demo_handler demo_ports (demo_calls CHR ''y'') demo_metadata (MoveCmd demo_deposit_request False) (fst demo_deposit_run)"
  have second: "?again = (fst ?again, snd ?again)" by simp
  have p: "bd_players (fst demo_deposit_run) = bd_players demo_bank" by code_simp
  have "fst ?again = fst demo_deposit_run \<and> (\<exists>e. snd ?again = Inl e \<or> snd ?again = Inr Replayed \<or> snd ?again = Inr NotOffered)"
    by (rule bank_once [OF first _ _ subset_refl _ _ _ second]) (simp_all add: found_player_def p reserve_key_def, simp_all add: demo_calls_def)
  then show ?thesis using demo_runs(1) by blast
qed

section \<open>The balance of a purse\<close>

definition purse_balance :: "ledger_db \<Rightarrow> account_kind \<Rightarrow> string \<Rightarrow> int" where
  "purse_balance l k ow = (case acct_id l k ow of None \<Rightarrow> 0 | Some i \<Rightarrow> balance_of l i)"

lemma acct_id_abs:
  assumes "ledger_ok l" "acct_id l k ow = Some i"
  shows "abs_accounts (db_accounts l) i = Some (k, ow, DefaultCurrency)"
  using assms by (auto simp: acct_id_def ledger_ok_def abs_accounts_Some dest: find_account_Some)

lemma acct_id_inj: "ledger_ok l \<Longrightarrow> acct_id l k ow = Some i \<Longrightarrow> acct_id l k' ow' = Some i \<Longrightarrow> k = k' \<and> ow = ow'"
  by (drule (1) acct_id_abs [rotated], drule (1) acct_id_abs [rotated]) simp

lemma purse_grows:
  assumes "bank_ok c l" "grows c l l'" "acct_id l' k ow = Some i"
  shows "purse_balance l k ow = balance_of l i"
proof (cases "acct_id l k ow")
  case (Some j)
  then show ?thesis using grows_acct [OF assms(2) Some] assms(3) by (simp add: purse_balance_def)
next
  case None
  have l: "ledger_ok l" "ledger_ok l'" using assms(1,2) by (simp_all add: bank_ok_def grows_def)
  have "i \<notin> ac_ID ` set (db_accounts l)"
  proof
    assume "i \<in> ac_ID ` set (db_accounts l)"
    then obtain a where a: "a \<in> set (db_accounts l)" "ac_ID a = i" by blast
    then have "abs_accounts (db_accounts l) i = Some (ac_Kind a, ac_OwnerID a, ac_Currency a)"
      using l(1) by (auto simp: ledger_ok_def abs_accounts_Some)
    then have "abs_accounts (db_accounts l') i = Some (ac_Kind a, ac_OwnerID a, ac_Currency a)"
      using assms(2) by (auto simp: grows_def map_le_def dom_def)
    then have "ac_Kind a = k \<and> ac_OwnerID a = ow \<and> ac_Currency a = DefaultCurrency" using acct_id_abs [OF l(2) assms(3)] by simp
    then have "find_account l k ow DefaultCurrency \<noteq> None" using a(1) by (auto simp: find_account_def find_None_iff)
    then show False using None by (simp add: acct_id_def)
  qed
  then have "filter (\<lambda>a. ac_ID a = i) (db_accounts l) = []" by (auto simp: filter_empty_conv)
  then show ?thesis using None by (simp add: purse_balance_def balance_of_def)
qed

lemma purse_None: "grows c l l' \<Longrightarrow> acct_id l' k ow = None \<Longrightarrow> purse_balance l k ow = 0 \<and> purse_balance l' k ow = 0"
  by (cases "acct_id l k ow") (auto simp: purse_balance_def dest: grows_acct)

text \<open>What an exact movement does to a purse.\<close>

lemma moved_purse:
  assumes "bank_ok c l" "grows c l l'" "moved_exactly l l' src dst n fee"
    and "acct_id l' ks os = Some src" "acct_id l' kd od = Some dst" "k \<noteq> AccountCityTreasury"
  shows "purse_balance l' k ow = purse_balance l k ow - (if (k, ow) = (ks, os) then n + fee else 0) + (if (k, ow) = (kd, od) then n else 0)"
proof (cases "acct_id l' k ow")
  case None
  then show ?thesis using purse_None [OF assms(2) None] assms(4,5) by auto
next
  case (Some i)
  have l: "ledger_ok l'" using assms(2) by (simp add: bank_ok_def grows_def)
  obtain tre where t: "fee \<noteq> 0 \<longrightarrow> (\<exists>city. acct_id l' AccountCityTreasury city = Some tre)"
    "balance_of l' i = balance_of l i - (if i = src then n + fee else 0) + (if i = dst then n else 0) + (if i = tre then fee else 0)"
    using assms(3) unfolding moved_exactly_def by blast
  have "i = src \<longleftrightarrow> (k, ow) = (ks, os)"
  proof
    assume "i = src" then show "(k, ow) = (ks, os)" using acct_id_inj [OF l Some, of ks os] assms(4) by simp
  next
    assume "(k, ow) = (ks, os)" then show "i = src" using Some assms(4) by simp
  qed
  moreover have "i = dst \<longleftrightarrow> (k, ow) = (kd, od)"
  proof
    assume "i = dst" then show "(k, ow) = (kd, od)" using acct_id_inj [OF l Some, of kd od] assms(5) by simp
  next
    assume "(k, ow) = (kd, od)" then show "i = dst" using Some assms(5) by simp
  qed
  moreover have "i = tre \<Longrightarrow> fee = 0" using t(1) acct_id_inj [OF l Some, of AccountCityTreasury] assms(6) by fastforce
  ultimately show ?thesis using t(2) purse_grows [OF assms(1,2) Some] Some by (simp add: purse_balance_def)
qed

lemma purse_moved:
  assumes "bank_ok c l" "grows c l l'" "acct_id l' ks os = Some src" "acct_id l' kd od = Some dst"
    and "\<forall>j. balance_of l' j = balance_of l j - (if j = src then n else 0) + (if j = dst then n else 0)"
  shows "purse_balance l' k ow = purse_balance l k ow - (if (k, ow) = (ks, os) then n else 0) + (if (k, ow) = (kd, od) then n else 0)"
proof (cases "acct_id l' k ow")
  case None
  then show ?thesis using purse_None [OF assms(2) None] assms(3,4) by auto
next
  case (Some i)
  have l: "ledger_ok l'" using assms(2) by (simp add: bank_ok_def grows_def)
  have "i = src \<longleftrightarrow> (k, ow) = (ks, os)" using acct_id_inj [OF l Some, of ks os] Some assms(3) by auto
  moreover have "i = dst \<longleftrightarrow> (k, ow) = (kd, od)" using acct_id_inj [OF l Some, of kd od] Some assms(4) by auto
  ultimately show ?thesis using assms(5) purse_grows [OF assms(1,2) Some] Some by (simp add: purse_balance_def)
qed

section \<open>Settling a held payment\<close>

lemma SettleHold_steps:
  assumes "SettleHold c no release who note w = (w', Inr h')"
  obtains h w1 escrow w2 dest w3 txID u where "HoldByNo (bd_holds w) no = Inr h" "ph_Status h = HoldHeld"
    "on_ledger (\<lambda>l. AccountFor (call c 0) l AccountPlayerEscrow (ph_PayerID h)) w = (w1, Inr escrow)"
    "on_ledger (\<lambda>l. AccountFor (call c 1) l (hold_purse h) (hold_whom release h)) w1 = (w2, Inr dest)"
    "on_ledger (\<lambda>l. Post (call c 2) l (transfer_tx c (if release then ''payment_release'' else ''payment_return'') (ac_ID escrow)
       (FromMinor (neg64 (ph_Amount h))) (ac_ID dest) (FromMinor (ph_Amount h)) ''payment_holds'' (ph_ID h))) w2 = (w3, Inr txID)"
    "h' = settled_hold c release who note h txID" "close_Hold c (settled_hold c release who note h txID) w3 = (w', Inr u)"
proof -
  have r: "read_HoldByNo no w = (v, Inr h) \<longleftrightarrow> v = w \<and> HoldByNo (bd_holds w) no = Inr h" for v h
    by (auto simp: read_HoldByNo_def split: sum.splits)
  show ?thesis
    using assms unfolding SettleHold_def tx_bind_Inr tx_check_Inr tx_return_def prod.inject sum.inject r
    apply -
    apply (elim exE conjE)
    apply hypsubst
    apply (rule that)
    apply assumption
    apply (simp split: if_splits)
    apply assumption+
    done
qed

definition hold_ok :: "(string \<Rightarrow> string option) \<Rightarrow> payment_hold \<Rightarrow> bool" where
  "hold_ok u h \<longleftrightarrow> u (ph_ID h) = Some (ph_ID h) \<and> u (ph_PayerID h) = Some (ph_PayerID h) \<and>
     u (ph_PayeeID h) = Some (ph_PayeeID h) \<and> 0 < ph_Amount h \<and> ph_Amount h \<le> MaxInt64 \<and> ph_PayerID h \<noteq> ph_PayeeID h"

definition holds_ok :: "(string \<Rightarrow> string option) \<Rightarrow> payment_hold list \<Rightarrow> bool" where
  "holds_ok u holds \<longleftrightarrow> distinct (map ph_ID holds) \<and> distinct (map ph_No holds) \<and> (\<forall>h\<in>set holds. hold_ok u h)"

lemma settled_hold_simps [simp]:
  "ph_ID (settled_hold c release who note h txID) = ph_ID h" "ph_Status (settled_hold c release who note h txID) = (if release then HoldReleased else HoldReturned)"
  "ph_SettleTransactionID (settled_hold c release who note h txID) = txID" "ph_SettledAt (settled_hold c release who note h txID) = Some (bc_now c)"
  "ph_SettledBy (settled_hold c release who note h txID) = who" "ph_Note (settled_hold c release who note h txID) = note"
  by (simp_all add: settled_hold_def)

lemma SettleHold_Inr:
  assumes run: "SettleHold c no release who note w = (w', Inr h')" and ok: "bank_ok c (bd_ledger w)" "calls_ok c" "holds_ok (env_uuid (bc_env c)) (bd_holds w)"
  shows "\<exists>h esc dst f. h \<in> set (bd_holds w) \<and> ph_No h = no \<and> ph_Status h = HoldHeld \<and> grows c (bd_ledger w) (bd_ledger w') \<and>
    acct_id (bd_ledger w') AccountPlayerEscrow (ph_PayerID h) = Some esc \<and> acct_id (bd_ledger w') (hold_purse h) (hold_whom release h) = Some dst \<and>
    (\<forall>j. balance_of (bd_ledger w') j = balance_of (bd_ledger w) j - (if j = esc then ph_Amount h else 0) + (if j = dst then ph_Amount h else 0)) \<and>
    bd_holds w' = map f (bd_holds w) \<and> (\<forall>x\<in>set (bd_holds w). ph_ID (f x) = ph_ID x \<and> ph_No (f x) = ph_No x \<and> ph_PayerID (f x) = ph_PayerID x \<and>
      ph_PayeeID (f x) = ph_PayeeID x \<and> ph_Amount (f x) = ph_Amount x \<and> (x \<noteq> h \<longrightarrow> f x = x)) \<and> ph_Status (f h) \<noteq> HoldHeld"
proof -
  obtain h w1 escrow w2 dest w3 txID u where s: "HoldByNo (bd_holds w) no = Inr h" "ph_Status h = HoldHeld"
    "on_ledger (\<lambda>l. AccountFor (call c 0) l AccountPlayerEscrow (ph_PayerID h)) w = (w1, Inr escrow)"
    "on_ledger (\<lambda>l. AccountFor (call c 1) l (hold_purse h) (hold_whom release h)) w1 = (w2, Inr dest)"
    "on_ledger (\<lambda>l. Post (call c 2) l (transfer_tx c (if release then ''payment_release'' else ''payment_return'') (ac_ID escrow)
       (FromMinor (neg64 (ph_Amount h))) (ac_ID dest) (FromMinor (ph_Amount h)) ''payment_holds'' (ph_ID h))) w2 = (w3, Inr txID)"
    "h' = settled_hold c release who note h txID" "close_Hold c (settled_hold c release who note h txID) w3 = (w', Inr u)"
    by (rule SettleHold_steps [OF run])
  have h: "h \<in> set (bd_holds w)" "ph_No h = no" using s(1) by (auto simp: HoldByNo_def find_Some_iff split: option.splits)
  then have hk: "env_uuid (bc_env c) (ph_ID h) = Some (ph_ID h)" "env_uuid (bc_env c) (ph_PayerID h) = Some (ph_PayerID h)"
    "env_uuid (bc_env c) (hold_whom release h) = Some (hold_whom release h)" "0 < ph_Amount h" "ph_Amount h \<le> MaxInt64"
    using ok(3) by (auto simp: holds_ok_def hold_ok_def hold_whom_def)
  have sys: "\<not> IsSystem AccountPlayerEscrow" "\<not> IsSystem (hold_purse h)" by (simp_all add: IsSystem_def hold_purse_def)
  note A = open_Inr [OF s(3) ok(1,2) sys(1)]
  note B = open_Inr [OF s(4) grows_ok [OF A(1)] ok(2) sys(2)]
  have n: "neg64 (ph_Amount h) = - ph_Amount h" "Amount_Neg (FromMinor (ph_Amount h)) = Inr (FromMinor (- ph_Amount h))"
    using hk(4,5) by (simp_all add: neg64_def wrap64_id' Amount_Neg_eq valid_amount_def in64_def)
  have t: "transfer c 2 (if release then ''payment_release'' else ''payment_return'') (ac_ID escrow) (ac_ID dest) (FromMinor (ph_Amount h)) ''payment_holds'' (ph_ID h) w2 = (w3, Inr txID)"
    using s(5) by (simp add: transfer_def n)
  note T = transfer_Inr [OF t grows_ok [OF B(1)] less_imp_le [OF hk(4)] hk(5) A(4) B(4)]
  have kh: "bd_holds w3 = bd_holds w" using keeps_khD [OF keeps_kh_ledger s(3)] keeps_khD [OF keeps_kh_ledger s(4)] keeps_khD [OF keeps_kh_transfer t] by simp
  obtain holds where c: "watch_SettleHold (bc_env c) (bd_holds w) (settled_hold c release who note h txID) = (holds, None)" "w' = w3\<lparr>bd_holds := holds\<rparr>"
    using s(7) by (auto simp: close_Hold_def kh split: prod.splits option.splits)
  define f :: "payment_hold \<Rightarrow> payment_hold" where "f = (\<lambda>x. if Some (ph_ID x) = env_uuid (bc_env c) (ph_ID h) \<and> ph_Status x = HoldHeld
      then x\<lparr>ph_Status := (if release then HoldReleased else HoldReturned), ph_SettleTransactionID := the (env_uuid (bc_env c) txID),
              ph_SettledAt := Some (bc_now c), ph_SettledBy := who, ph_Note := note\<rparr> else x)"
  have holds: "holds = map f (bd_holds w)"
    using c(1) unfolding watch_SettleHold_def Let_def f_def settled_hold_simps option.case
    by (simp split: if_split_asm)
  have one: "x = h" if "x \<in> set (bd_holds w)" "ph_ID x = ph_ID h" for x
    using ok(3) that h(1) unfolding holds_ok_def distinct_map inj_on_def by blast
  have fx: "\<forall>x\<in>set (bd_holds w). ph_ID (f x) = ph_ID x \<and> ph_No (f x) = ph_No x \<and> ph_PayerID (f x) = ph_PayerID x \<and>
      ph_PayeeID (f x) = ph_PayeeID x \<and> ph_Amount (f x) = ph_Amount x \<and> (x \<noteq> h \<longrightarrow> f x = x)" "ph_Status (f h) \<noteq> HoldHeld"
    using one hk(1) by (auto simp: f_def s(2))
  have l': "bd_ledger w' = bd_ledger w3" "bd_holds w' = map f (bd_holds w)" by (simp_all add: c(2) holds)
  have g: "grows c (bd_ledger w1) (bd_ledger w')" using B(1) T(1) unfolding l'(1) by (rule grows_trans)
  have e: "acct_id (bd_ledger w') AccountPlayerEscrow (ph_PayerID h) = Some (ac_ID escrow)" using A(3) hk(2) grows_acct [OF g] by simp
  have d: "acct_id (bd_ledger w') (hold_purse h) (hold_whom release h) = Some (ac_ID dest)"
    using B(3) hk(3) grows_acct [OF T(1)] by (simp add: l'(1))
  have b: "\<forall>j. balance_of (bd_ledger w') j = balance_of (bd_ledger w) j - (if j = ac_ID escrow then ph_Amount h else 0) + (if j = ac_ID dest then ph_Amount h else 0)"
    using T(2) by (simp add: l'(1) A(2) B(2))
  show ?thesis using h s(2) grows_trans [OF A(1) g] e d b l'(2) fx by blast
qed

text \<open>
  C7. A held payment is settled once, in full and to one side. The operator's decision moves exactly the held
  amount out of the payer's escrow, to the payee when released and back to the payer when returned, into the
  purse the payment was made from; no other purse changes. A decision that fails changes nothing. After a
  decision, any further decision on the same payment, by anyone and in either direction, fails and changes
  nothing.
\<close>

theorem SettleHold_exact:
  assumes "bank_ok c (bd_ledger w)" "calls_ok c" "holds_ok (env_uuid (bc_env c)) (bd_holds w)"
    and run: "uow_Do cb cc (SettleHold c no release who remark) w = (w', res)"
  shows "case res of
      Inl e \<Rightarrow> w' = w
    | Inr h' \<Rightarrow> (\<exists>h\<in>set (bd_holds w). ph_No h = no \<and> ph_Status h = HoldHeld \<and>
        (\<forall>k ow. purse_balance (bd_ledger w') k ow = purse_balance (bd_ledger w) k ow -
           (if (k, ow) = (AccountPlayerEscrow, ph_PayerID h) then ph_Amount h else 0) +
           (if (k, ow) = (if ph_Method h = ''card'' then AccountPlayerBank else AccountPlayerCash, if release then ph_PayeeID h else ph_PayerID h)
            then ph_Amount h else 0)) \<and>
        (\<forall>c2 release2 who2 remark2 cb2 cc2. \<exists>e. uow_Do cb2 cc2 (SettleHold c2 no release2 who2 remark2) w' = (w', Inl e)))"
proof (cases res)
  case (Inl e)
  then show ?thesis using run by (auto dest: uow_Do_Inl)
next
  case (Inr h')
  then have s: "SettleHold c no release who remark w = (w', Inr h')" using run by (simp add: uow_Do_Inr)
  obtain h esc dst and f :: "payment_hold \<Rightarrow> payment_hold" where h: "h \<in> set (bd_holds w)" "ph_No h = no" "ph_Status h = HoldHeld" and g: "grows c (bd_ledger w) (bd_ledger w')"
    and a: "acct_id (bd_ledger w') AccountPlayerEscrow (ph_PayerID h) = Some esc" "acct_id (bd_ledger w') (hold_purse h) (hold_whom release h) = Some dst"
    and b: "\<forall>j. balance_of (bd_ledger w') j = balance_of (bd_ledger w) j - (if j = esc then ph_Amount h else 0) + (if j = dst then ph_Amount h else 0)"
    and f: "bd_holds w' = map f (bd_holds w)" "\<forall>x\<in>set (bd_holds w). ph_ID (f x) = ph_ID x \<and> ph_No (f x) = ph_No x \<and> ph_PayerID (f x) = ph_PayerID x \<and>
      ph_PayeeID (f x) = ph_PayeeID x \<and> ph_Amount (f x) = ph_Amount x \<and> (x \<noteq> h \<longrightarrow> f x = x)" "ph_Status (f h) \<noteq> HoldHeld"
    using SettleHold_Inr [OF s assms(1-3)] by blast
  have one: "x = h" if "x \<in> set (bd_holds w)" "ph_No x = no" for x
    using assms(3) that h(1,2) unfolding holds_ok_def distinct_map inj_on_def by blast
  have closed: "ph_Status y \<noteq> HoldHeld" if "y \<in> set (bd_holds w')" "ph_No y = no" for y
  proof -
    from that(1) f(1) have "y \<in> f ` set (bd_holds w)" by simp
    then obtain x where x: "y = f x" "x \<in> set (bd_holds w)" by (rule imageE)
    then have "x = h" using one f(2) that(2) by simp
    then show ?thesis using x(1) f(3) by simp
  qed
  have again: "\<exists>e. uow_Do cb2 cc2 (SettleHold c2 no release2 who2 remark2) w' = (w', Inl e)" for c2 release2 who2 remark2 cb2 cc2
  proof (cases "uow_Do cb2 cc2 (SettleHold c2 no release2 who2 remark2) w'")
    case (Pair v r)
    show ?thesis
    proof (cases r)
      case (Inl e)
      then show ?thesis using Pair uow_Do_Inl by auto
    next
      case (Inr x)
      then have r: "SettleHold c2 no release2 who2 remark2 w' = (v, Inr x)" using Pair by (simp add: uow_Do_Inr)
      obtain y where "HoldByNo (bd_holds w') no = Inr y" "ph_Status y = HoldHeld" by (rule SettleHold_steps [OF r])
      then have False using closed by (auto simp: HoldByNo_def find_Some_iff split: option.splits)
      then show ?thesis ..
    qed
  qed
  show ?thesis
    unfolding Inr sum.case
    by (rule bexI [OF _ h(1)]) (use h again purse_moved [OF assms(1) g a b] in \<open>simp add: hold_purse_def hold_whom_def\<close>)
qed

section \<open>The escrow backs the held payments\<close>

definition held_sum :: "payment_hold list \<Rightarrow> string \<Rightarrow> int" where
  "held_sum holds p = (\<Sum>h\<leftarrow>filter (\<lambda>h. ph_PayerID h = p \<and> ph_Status h = HoldHeld) holds. ph_Amount h)"

lemma held_sum_settle:
  assumes "distinct hs" "h \<in> set hs" "ph_Status h = HoldHeld" "ph_Status (f h) \<noteq> HoldHeld" "\<forall>x\<in>set hs. x \<noteq> h \<longrightarrow> f x = x"
  shows "held_sum (map f hs) p = held_sum hs p - (if ph_PayerID h = p then ph_Amount h else 0)"
  using assms
proof (induction hs)
  case Nil
  then show ?case by simp
next
  case (Cons x hs)
  show ?case
  proof (cases "x = h")
    case True
    then have "h \<notin> set hs" using Cons.prems(1) by simp
    then have "map f hs = hs" using Cons.prems(5) by (induction hs) auto
    then show ?thesis using True Cons.prems by (simp add: held_sum_def)
  next
    case False
    then have "held_sum (map f hs) p = held_sum hs p - (if ph_PayerID h = p then ph_Amount h else 0)" using Cons by auto
    then show ?thesis using False Cons.prems(5) by (auto simp: held_sum_def)
  qed
qed

definition backed :: "bank_db \<Rightarrow> bool" where
  "backed w \<longleftrightarrow> (\<forall>p. purse_balance (bd_ledger w) AccountPlayerEscrow p = held_sum (bd_holds w) p)"

definition system_ok :: "(string \<Rightarrow> string option) \<Rightarrow> bank_db \<Rightarrow> bool" where
  "system_ok u w \<longleftrightarrow> ledger_ok (bd_ledger w) \<and> uuids_ok u (bd_ledger w) \<and> holds_ok u (bd_holds w) \<and> backed w"

text \<open>What a command that worked leaves: one exact movement, into a purse, or into the escrow with its row.\<close>

definition run_effect :: "bank_calls \<Rightarrow> bank_db \<Rightarrow> bank_db \<Rightarrow> bool" where
  "run_effect c w w' \<longleftrightarrow> (\<exists>ks os kd od src dst n fee. grows c (bd_ledger w) (bd_ledger w') \<and> acct_id (bd_ledger w') ks os = Some src \<and>
     acct_id (bd_ledger w') kd od = Some dst \<and> moved_exactly (bd_ledger w) (bd_ledger w') src dst n fee \<and> 0 < n \<and> n \<le> MaxInt64 \<and>
     ks \<in> {AccountPlayerCash, AccountPlayerBank} \<and>
     (kd \<in> {AccountPlayerCash, AccountPlayerBank} \<and> bd_holds w' = bd_holds w \<or>
      kd = AccountPlayerEscrow \<and> (\<exists>row qid i j k. bd_holds w' = bd_holds w @ [row] \<and> ph_PayerID row = od \<and> ph_PayeeID row = qid \<and> ph_Amount row = n \<and>
        ph_Status row = HoldHeld \<and> od \<noteq> qid \<and> env_uuid (bc_env c) i = Some (ph_ID row) \<and> env_uuid (bc_env c) j = Some od \<and> env_uuid (bc_env c) k = Some qid \<and>
        (\<forall>x\<in>set (bd_holds w). ph_ID x \<noteq> ph_ID row \<and> ph_No x \<noteq> ph_No row))))"

lemma run_effect_keys: "run_effect c (w\<lparr>bd_keys := ks\<rparr>) w' = run_effect c w w'"
  by (simp add: run_effect_def)

lemma move_rows_effect:
  assumes m: "move_rows h pt c meta (FromMinor n) deposit p w = (w', Inr r)" and ok: "bank_ok c (bd_ledger w)" "calls_ok c" and n: "0 < n" "n \<le> MaxInt64"
  shows "run_effect c w w'"
proof -
  from move_rows_Inr [OF m ok n] obtain fee pid src dst where e:
    "acct_id (bd_ledger w') (if deposit then AccountPlayerCash else AccountPlayerBank) pid = Some src"
    "acct_id (bd_ledger w') (if deposit then AccountPlayerBank else AccountPlayerCash) pid = Some dst"
    "moved_exactly (bd_ledger w) (bd_ledger w') src dst n fee" "grows c (bd_ledger w) (bd_ledger w')" by blast
  show ?thesis
    unfolding run_effect_def
    by (rule exI [of _ "if deposit then AccountPlayerCash else AccountPlayerBank"], rule exI [of _ pid],
        rule exI [of _ "if deposit then AccountPlayerBank else AccountPlayerCash"], rule exI [of _ pid], rule exI [of _ src], rule exI [of _ dst],
        rule exI [of _ n], rule exI [of _ fee]) (use e n keeps_khD [OF keeps_kh_move_rows m] in simp)
qed

lemma pay_rows_effect:
  assumes m: "pay_rows h pt c meta m (FromMinor n) req p w = (w', Inr r)" and ok: "bank_ok c (bd_ledger w)" "calls_ok c" and n: "0 < n" "n \<le> MaxInt64"
  shows "run_effect c w w'"
proof -
  from pay_rows_Inr [OF m ok n] obtain payee :: bank_player and pid qid where e: "env_uuid (bc_env c) (bp_ID p) = Some pid" "env_uuid (bc_env c) (bp_ID payee) = Some qid"
    "paid_rows c m n pid qid w w' r" "grows c (bd_ledger w) (bd_ledger w')" by blast
  from e(3)[unfolded paid_rows_def] show ?thesis
  proof (elim disjE exE conjE)
    fix fee src dst
    assume d: "acct_id (bd_ledger w') (purse_kind m) pid = Some src" "acct_id (bd_ledger w') (purse_kind m) qid = Some dst"
      "moved_exactly (bd_ledger w) (bd_ledger w') src dst n fee" "bd_holds w' = bd_holds w"
    show ?thesis
      unfolding run_effect_def
      by (rule exI [of _ "purse_kind m"], rule exI [of _ pid], rule exI [of _ "purse_kind m"], rule exI [of _ qid], rule exI [of _ src], rule exI [of _ dst],
          rule exI [of _ n], rule exI [of _ fee]) (use d e(4) n in simp)
  next
    fix fee src esc row i
    assume d: "acct_id (bd_ledger w') (purse_kind m) pid = Some src" "acct_id (bd_ledger w') AccountPlayerEscrow pid = Some esc"
      "moved_exactly (bd_ledger w) (bd_ledger w') src esc n fee"
      and row: "bd_holds w' = bd_holds w @ [row]" "ph_PayerID row = pid" "ph_PayeeID row = qid" "ph_Amount row = n" "ph_Status row = HoldHeld"
        "pid \<noteq> qid" "env_uuid (bc_env c) i = Some (ph_ID row)" "\<forall>x\<in>set (bd_holds w). ph_ID x \<noteq> ph_ID row \<and> ph_No x \<noteq> ph_No row"
    have "\<exists>row qid i j k. bd_holds w' = bd_holds w @ [row] \<and> ph_PayerID row = pid \<and> ph_PayeeID row = qid \<and> ph_Amount row = n \<and>
        ph_Status row = HoldHeld \<and> pid \<noteq> qid \<and> env_uuid (bc_env c) i = Some (ph_ID row) \<and> env_uuid (bc_env c) j = Some pid \<and> env_uuid (bc_env c) k = Some qid \<and>
        (\<forall>x\<in>set (bd_holds w). ph_ID x \<noteq> ph_ID row \<and> ph_No x \<noteq> ph_No row)"
      using row e(1,2) by blast
    then show ?thesis
      unfolding run_effect_def
      by - (rule exI [of _ "purse_kind m"], rule exI [of _ pid], rule exI [of _ AccountPlayerEscrow], rule exI [of _ pid], rule exI [of _ src], rule exI [of _ esc],
          rule exI [of _ n], rule exI [of _ fee], use d e(4) n in simp)
  qed
qed

lemma bank_run_effect:
  assumes run: "bank_run h pt c meta cmd w = (w', res)" and ok: "bank_ok c (bd_ledger w)" "calls_ok c"
  shows "w' = w \<or> run_effect c w w'"
proof (cases res)
  case (Inl e)
  then show ?thesis using run by (cases cmd) (auto dest: bank_move_Inl PaySend_Inl)
next
  case (Inr r)
  show ?thesis
  proof (cases cmd)
    case (MoveCmd req deposit)
    then have m: "bank_move h pt c meta req deposit w = (w', Inr r)" using run Inr by simp
    from bank_move_Inr [OF m] show ?thesis
    proof (elim disjE exE conjE)
      fix n assume n: "0 < n" "n \<le> MaxInt64" and t: "move_tx h pt c meta (FromMinor n) (arq_Nonce req) deposit w = (w', Inr r)"
      from move_tx_Inr [OF t] obtain p pid where "w' = w \<or> move_rows h pt c meta (FromMinor n) deposit p (w\<lparr>bd_keys := bd_keys w @ [(pid, reserve_key c (bp_ID p) meta (arq_Nonce req))]\<rparr>) = (w', Inr r)" by metis
      then show ?thesis
      proof
        assume "move_rows h pt c meta (FromMinor n) deposit p (w\<lparr>bd_keys := bd_keys w @ [(pid, reserve_key c (bp_ID p) meta (arq_Nonce req))]\<rparr>) = (w', Inr r)"
        from move_rows_effect [OF this _ ok(2) n] show ?thesis using ok(1) by (simp add: run_effect_keys)
      qed simp
    qed simp
  next
    case (PayCmd req)
    then have m: "PaySend h pt c meta req w = (w', Inr r)" using run Inr by simp
    obtain n where n: "0 < n" "n \<le> MaxInt64" and t: "pay_tx h pt c meta (prq_Method req) (FromMinor n) req w = (w', Inr r)" by (rule PaySend_Inr [OF m])
    from pay_tx_Inr [OF t] obtain p pid where "w' = w \<or> pay_rows h pt c meta (prq_Method req) (FromMinor n) req p (w\<lparr>bd_keys := bd_keys w @ [(pid, reserve_key c (bp_ID p) meta (prq_Nonce req))]\<rparr>) = (w', Inr r)" by metis
    then show ?thesis
    proof
      assume "pay_rows h pt c meta (prq_Method req) (FromMinor n) req p (w\<lparr>bd_keys := bd_keys w @ [(pid, reserve_key c (bp_ID p) meta (prq_Nonce req))]\<rparr>) = (w', Inr r)"
      from pay_rows_effect [OF this _ ok(2) n] show ?thesis using ok(1) by (simp add: run_effect_keys)
    qed simp
  qed
qed

text \<open>Both kinds of change keep the rows well formed and the escrow backed.\<close>

lemma held_sum_append: "held_sum (hs @ [h]) p = held_sum hs p + (if ph_PayerID h = p \<and> ph_Status h = HoldHeld then ph_Amount h else 0)"
  by (simp add: held_sum_def)

lemma effect_keeps:
  assumes ok: "system_ok (env_uuid (bc_env c)) w" and e: "run_effect c w w'" and u: "\<And>x y. env_uuid (bc_env c) x = Some y \<Longrightarrow> env_uuid (bc_env c) y = Some y"
  shows "system_ok (env_uuid (bc_env c)) w'"
proof -
  have l: "bank_ok c (bd_ledger w)" "holds_ok (env_uuid (bc_env c)) (bd_holds w)" "backed w" using ok by (simp_all add: system_ok_def bank_ok_def)
  obtain ks os kd od src dst n fee where g: "grows c (bd_ledger w) (bd_ledger w')" and a: "acct_id (bd_ledger w') ks os = Some src" "acct_id (bd_ledger w') kd od = Some dst"
    and m: "moved_exactly (bd_ledger w) (bd_ledger w') src dst n fee" and n: "0 < n" "n \<le> MaxInt64" and ks: "ks \<in> {AccountPlayerCash, AccountPlayerBank}"
    and d: "kd \<in> {AccountPlayerCash, AccountPlayerBank} \<and> bd_holds w' = bd_holds w \<or>
      kd = AccountPlayerEscrow \<and> (\<exists>row qid i j k. bd_holds w' = bd_holds w @ [row] \<and> ph_PayerID row = od \<and> ph_PayeeID row = qid \<and> ph_Amount row = n \<and>
        ph_Status row = HoldHeld \<and> od \<noteq> qid \<and> env_uuid (bc_env c) i = Some (ph_ID row) \<and> env_uuid (bc_env c) j = Some od \<and> env_uuid (bc_env c) k = Some qid \<and>
        (\<forall>x\<in>set (bd_holds w). ph_ID x \<noteq> ph_ID row \<and> ph_No x \<noteq> ph_No row))"
    using e unfolding run_effect_def by blast
  have p: "purse_balance (bd_ledger w') AccountPlayerEscrow x = purse_balance (bd_ledger w) AccountPlayerEscrow x + (if kd = AccountPlayerEscrow \<and> x = od then n else 0)" for x
    using moved_purse [OF l(1) g m a, of AccountPlayerEscrow x] ks by auto
  have "holds_ok (env_uuid (bc_env c)) (bd_holds w') \<and> backed w'"
    using d
  proof (elim disjE conjE exE)
    assume "kd \<in> {AccountPlayerCash, AccountPlayerBank}" "bd_holds w' = bd_holds w"
    then show ?thesis using l(2,3) p by (auto simp: backed_def)
  next
    fix row qid i j k
    assume kd: "kd = AccountPlayerEscrow" and row: "bd_holds w' = bd_holds w @ [row]" "ph_PayerID row = od" "ph_PayeeID row = qid" "ph_Amount row = n"
        "ph_Status row = HoldHeld" "od \<noteq> qid" "env_uuid (bc_env c) i = Some (ph_ID row)" "env_uuid (bc_env c) j = Some od" "env_uuid (bc_env c) k = Some qid"
        "\<forall>x\<in>set (bd_holds w). ph_ID x \<noteq> ph_ID row \<and> ph_No x \<noteq> ph_No row"
    have "hold_ok (env_uuid (bc_env c)) row" using row n u by (simp add: hold_ok_def)
    then have "holds_ok (env_uuid (bc_env c)) (bd_holds w')" using l(2) row(1,10) by (fastforce simp: holds_ok_def)
    moreover have "backed w'" using l(3) p kd row by (auto simp: backed_def held_sum_append)
    ultimately show ?thesis by blast
  qed
  then show ?thesis using g by (simp add: system_ok_def grows_def bank_ok_def)
qed
lemma settle_keeps:
  assumes ok: "system_ok (env_uuid (bc_env c)) w" "calls_ok c" and run: "SettleHold c no release who note w = (w', Inr h')"
  shows "system_ok (env_uuid (bc_env c)) w'"
proof -
  have l: "bank_ok c (bd_ledger w)" "holds_ok (env_uuid (bc_env c)) (bd_holds w)" "backed w" using ok(1) by (simp_all add: system_ok_def bank_ok_def)
  obtain h esc dst and f :: "payment_hold \<Rightarrow> payment_hold" where h: "h \<in> set (bd_holds w)" "ph_Status h = HoldHeld" and g: "grows c (bd_ledger w) (bd_ledger w')"
    and a: "acct_id (bd_ledger w') AccountPlayerEscrow (ph_PayerID h) = Some esc" "acct_id (bd_ledger w') (hold_purse h) (hold_whom release h) = Some dst"
    and b: "\<forall>j. balance_of (bd_ledger w') j = balance_of (bd_ledger w) j - (if j = esc then ph_Amount h else 0) + (if j = dst then ph_Amount h else 0)"
    and f: "bd_holds w' = map f (bd_holds w)" "\<forall>x\<in>set (bd_holds w). ph_ID (f x) = ph_ID x \<and> ph_No (f x) = ph_No x \<and> ph_PayerID (f x) = ph_PayerID x \<and>
      ph_PayeeID (f x) = ph_PayeeID x \<and> ph_Amount (f x) = ph_Amount x \<and> (x \<noteq> h \<longrightarrow> f x = x)" "ph_Status (f h) \<noteq> HoldHeld"
    using SettleHold_Inr [OF run l(1) ok(2) l(2)] by blast
  have m: "purse_balance (bd_ledger w') AccountPlayerEscrow x = purse_balance (bd_ledger w) AccountPlayerEscrow x - (if x = ph_PayerID h then ph_Amount h else 0)" for x
    using purse_moved [OF l(1) g a b] by (simp add: hold_purse_def)
  have ids: "map ph_ID (map f (bd_holds w)) = map ph_ID (bd_holds w)" "map ph_No (map f (bd_holds w)) = map ph_No (bd_holds w)" using f(2) by simp_all
  have "holds_ok (env_uuid (bc_env c)) (bd_holds w')"
    using l(2) f(2) unfolding holds_ok_def f(1) ids by (auto simp: hold_ok_def)
  moreover have "backed w'"
  proof -
    have "distinct (bd_holds w)" using l(2) by (simp add: holds_ok_def distinct_map)
    then show ?thesis using held_sum_settle [of "bd_holds w" h f] h f(2,3) l(3) m by (auto simp: backed_def f(1))
  qed
  ultimately show ?thesis using g by (simp add: system_ok_def grows_def bank_ok_def)
qed

text \<open>The steps: a command, or an operator's settlement, each in its unit of work.\<close>

inductive bank_step :: "(string \<Rightarrow> string option) \<Rightarrow> bank_db \<Rightarrow> bank_db \<Rightarrow> bool" for u where
  command: "env_uuid (bc_env c) = u \<Longrightarrow> calls_ok c \<Longrightarrow> bank_run h pt c meta cmd w = (w', res) \<Longrightarrow> bank_step u w w'"
| settle: "env_uuid (bc_env c) = u \<Longrightarrow> calls_ok c \<Longrightarrow> uow_Do cb cc (SettleHold c no release who note) w = (w', res) \<Longrightarrow> bank_step u w w'"

inductive bank_reach :: "(string \<Rightarrow> string option) \<Rightarrow> bank_db \<Rightarrow> bool" for u where
  init: "ledger_ok (bd_ledger w) \<Longrightarrow> uuids_ok u (bd_ledger w) \<Longrightarrow> bd_holds w = [] \<Longrightarrow>
    \<forall>p. purse_balance (bd_ledger w) AccountPlayerEscrow p = 0 \<Longrightarrow> bank_reach u w"
| step: "bank_reach u w \<Longrightarrow> bank_step u w w' \<Longrightarrow> bank_reach u w'"

lemma step_keeps:
  assumes "\<And>x y. u x = Some y \<Longrightarrow> u y = Some y" "system_ok u w" "bank_step u w w'"
  shows "system_ok u w'"
  using assms(3)
proof cases
  case (command c h pt meta cmd res)
  then show ?thesis using bank_run_effect [OF command(3) _ command(2)] effect_keeps [of c w w'] assms(1,2) by (auto simp: system_ok_def bank_ok_def)
next
  case (settle c cb cc no release who remark res)
  then show ?thesis using settle_keeps [of c w] assms(2) by (cases res) (auto simp: uow_Do_Inr dest: uow_Do_Inl)
qed



lemma demo_held_reach: "bank_reach Some demo_held" "system_ok Some demo_held"
proof -
  have l: "bd_ledger demo_watched = demo_ledger" "bd_holds demo_watched = []" by (simp_all add: demo_watched_def demo_bank_def)
  have e: "purse_balance demo_ledger AccountPlayerEscrow p = 0" for p
    by (simp add: purse_balance_def acct_id_def find_account_def demo_ledger_def)
  have i: "bank_reach Some demo_watched"
    by (rule bank_reach.init) (simp_all add: l e demo_ledger_ok uuids_ok_def)
  have s: "bank_step Some demo_watched demo_held"
    by (rule bank_step.command [where c = "demo_calls CHR ''x''" and h = demo_handler and pt = demo_ports and meta = demo_metadata
          and cmd = "PayCmd demo_payment_request" and res = "snd demo_payment_run"])
      (simp_all add: demo_calls_ok demo_held_def, simp add: demo_calls_def)
  show "bank_reach Some demo_held" by (rule bank_reach.step [OF i s])
  have "system_ok Some demo_watched"
    by (simp add: system_ok_def holds_ok_def backed_def held_sum_def l e demo_ledger_ok uuids_ok_def)
  then show "system_ok Some demo_held" using s by (rule step_keeps [rotated]) simp
qed


theorem SettleHold_exact_witness:
  "\<exists>w' h'. SettleHold (demo_calls CHR ''y'') 40 True ''op'' '''' demo_held = (w', Inr h') \<and>
     purse_balance (bd_ledger w') AccountPlayerCash ''q'' = purse_balance (bd_ledger demo_held) AccountPlayerCash ''q'' + 50"
proof -
  let ?run = "SettleHold (demo_calls CHR ''y'') 40 True ''op'' '''' demo_held"
  have "\<not> isl (snd ?run)" "map (\<lambda>h. (ph_No h, ph_PayeeID h, ph_Method h, ph_Amount h)) (bd_holds demo_held) = [(40, ''q'', ''cash'', 50)]" by code_simp+
  then obtain h' h where s: "snd ?run = Inr h'" and h: "bd_holds demo_held = [h]" "ph_PayeeID h = ''q''" "ph_Method h = ''cash''" "ph_Amount h = 50"
    by (cases "snd ?run") (auto simp: map_eq_Cons_conv)
  obtain w' where r: "?run = (w', Inr h')" using s by (metis prod.collapse)
  have u: "uow_Do None None (SettleHold (demo_calls CHR ''y'') 40 True ''op'' '''') demo_held = (w', Inr h')" using r by (simp add: uow_Do_def)
  have ok: "bank_ok (demo_calls CHR ''y'') (bd_ledger demo_held)" "holds_ok (env_uuid (bc_env (demo_calls CHR ''y''))) (bd_holds demo_held)"
    using demo_held_reach(2) by (simp_all add: system_ok_def bank_ok_def demo_calls_def)
  show ?thesis using SettleHold_exact [OF ok(1) demo_calls_ok ok(2) u] r h by auto
qed

end
