(* ===== verification/Finance.thy ===== *)
theory Finance
  imports Go_Base "HOL-Library.Word"
begin

unbundle bit_operations_syntax

text \<open>
  \<^verbatim>\<open>internal/domain/finance\<close> without its loans: the exact proportions every formula takes, the credit score
  and its bands, premiums and claims of insurance, the walk of the gold price, and the rules of a listed
  company. The package's \<open>mulDiv\<close> interprets \<open>floor_mul_div\<close>. The lemmas show that a score keeps its
  range and never rises by missing an instalment, that the band is the highest one reached, that claims
  stay within the fund as long as the product in \<open>ProRata\<close> fits, that a round trip at the gold dealer
  loses, and that a dividend adds up.
\<close>

section \<open>Proportions\<close>

datatype finance_error = FinErrInvalid | FinErrArithmetic

abbreviation FinBPS :: int where "FinBPS \<equiv> 10000"

definition finance_mulDiv :: "int \<Rightarrow> int \<Rightarrow> int \<Rightarrow> finance_error + int" where
  "finance_mulDiv a num den =
     (if a < 0 \<or> num < 0 \<or> den \<le> 0 then Inl FinErrArithmetic
      else case Mul64 a num of (hi, lo) \<Rightarrow>
        if hi \<ge> den then Inl FinErrArithmetic
        else case Div64 hi lo den of (q, _) \<Rightarrow> if q > MaxInt64 then Inl FinErrArithmetic else Inr q)"

definition finance_mulDivCeil :: "int \<Rightarrow> int \<Rightarrow> int \<Rightarrow> finance_error + int" where
  "finance_mulDivCeil a num den =
     (case finance_mulDiv a num den of
        Inl e \<Rightarrow> Inl e
      | Inr q \<Rightarrow>
          (case Mul64 a num of (hi, lo) \<Rightarrow> case Div64 hi lo den of (_, rem) \<Rightarrow>
             if rem \<noteq> 0 then (if q = MaxInt64 then Inl FinErrArithmetic else Inr (q + 1)) else Inr q))"

definition OfBPS :: "int \<Rightarrow> int \<Rightarrow> int" where
  "OfBPS amt bps =
     (if amt \<le> 0 \<or> bps \<le> 0 then 0 else case finance_mulDiv amt bps FinBPS of Inl _ \<Rightarrow> MaxInt64 | Inr v \<Rightarrow> v)"

definition fin_clamp :: "int \<Rightarrow> int \<Rightarrow> int \<Rightarrow> int" where
  "fin_clamp v lo hi = min (max v lo) hi"

lemma finance_mulDiv_eq:
  "finance_mulDiv a b c =
    (if a < 0 \<or> b < 0 \<or> c \<le> 0 \<or> MaxInt64 < (a * b) div c then Inl FinErrArithmetic else Inr ((a * b) div c))"
  by (simp add: finance_mulDiv_def mul_div_128 [where f = "\<lambda>q _. Inr q", simplified])

definition finance_md :: "int \<Rightarrow> int \<Rightarrow> int \<Rightarrow> int option" where
  "finance_md a b c = (case finance_mulDiv a b c of Inl _ \<Rightarrow> None | Inr q \<Rightarrow> Some q)"

interpretation fin: floor_mul_div finance_md
  by unfold_locales (simp add: finance_md_def finance_mulDiv_eq)

lemma finance_mulDiv_md: "finance_mulDiv a b c = (case finance_md a b c of None \<Rightarrow> Inl FinErrArithmetic | Some q \<Rightarrow> Inr q)"
  by (simp add: finance_md_def finance_mulDiv_eq)

lemma finance_mulDivCeil_eq:
  "finance_mulDivCeil a b c =
    (if a < 0 \<or> b < 0 \<or> c \<le> 0 \<or> MaxInt64 < ceil_div (a * b) c then Inl FinErrArithmetic else Inr (ceil_div (a * b) c))"
proof (cases "a < 0 \<or> b < 0 \<or> c \<le> 0")
  case True
  then show ?thesis by (auto simp: finance_mulDivCeil_def finance_mulDiv_eq)
next
  case False
  then have c: "0 < c" by simp
  obtain hi lo where h: "Mul64 a b = (hi, lo)" by (cases "Mul64 a b")
  have d: "Div64 hi lo c = ((a * b) div c, (a * b) mod c)" using h Div64_Mul64 by (metis case_prod_conv)
  show ?thesis using False by (auto simp: finance_mulDivCeil_def finance_mulDiv_eq h d ceil_div_eq_floor [OF c])
qed

lemma OfBPS_exact:
  assumes "0 \<le> n" "n \<le> MaxInt64" "0 \<le> b" "b \<le> FinBPS"
  shows "OfBPS n b = n * b div FinBPS" "0 \<le> OfBPS n b" "OfBPS n b \<le> n"
proof -
  show e: "OfBPS n b = n * b div FinBPS"
    using assms fin.md_share_total [of n b FinBPS] by (auto simp: OfBPS_def finance_mulDiv_md)
  show "0 \<le> OfBPS n b" "OfBPS n b \<le> n"
    using assms fin.md_share_total(2) [of n b FinBPS] by (simp_all add: e pos_imp_zdiv_nonneg_iff)
qed

lemma OfBPS_nonneg: "0 \<le> OfBPS n b"
  by (auto simp: OfBPS_def finance_mulDiv_eq pos_imp_zdiv_nonneg_iff)

lemma OfBPS_max: "OfBPS n b \<le> MaxInt64"
  by (auto simp: OfBPS_def finance_mulDiv_eq)

lemma fin_clamp_range: "lo \<le> hi \<Longrightarrow> lo \<le> fin_clamp v lo hi \<and> fin_clamp v lo hi \<le> hi"
  by (auto simp: fin_clamp_def)

lemma fin_clamp_mono: "v \<le> v' \<Longrightarrow> fin_clamp v lo hi \<le> fin_clamp v' lo hi"
  by (auto simp: fin_clamp_def min_def max_def)

section \<open>The credit score\<close>

record credit_weights =
  cw_Payment :: int
  cw_Debt :: int
  cw_History :: int
  cw_Income :: int
  cw_Worth :: int
  cw_NewCredit :: int

definition credit_Sum :: "credit_weights \<Rightarrow> int" where
  "credit_Sum w = add64 (add64 (add64 (add64 (add64 (cw_Payment w) (cw_Debt w)) (cw_History w)) (cw_Income w)) (cw_Worth w)) (cw_NewCredit w)"

record credit_rules =
  cr_Min :: int
  cr_Max :: int
  cr_Weights :: credit_weights
  cr_NeutralPaymentBPS :: int
  cr_HistoryFull :: duration
  cr_IncomeFull :: int
  cr_WorthFull :: int
  cr_NewCreditStepBPS :: int
  cr_MissedPoints :: int
  cr_DefaultPoints :: int

definition CreditRules_Validate :: "credit_rules \<Rightarrow> bool" where
  "CreditRules_Validate r \<longleftrightarrow>
     \<not> (cr_Min r < 0 \<or> cr_Max r \<le> cr_Min r \<or> cr_Max r > 10000) \<and>
     \<not> (cw_Payment (cr_Weights r) < 0 \<or> cw_Debt (cr_Weights r) < 0 \<or> cw_History (cr_Weights r) < 0 \<or> cw_Income (cr_Weights r) < 0 \<or>
        cw_Worth (cr_Weights r) < 0 \<or> cw_NewCredit (cr_Weights r) < 0 \<or> credit_Sum (cr_Weights r) \<noteq> FinBPS) \<and>
     \<not> (cr_NeutralPaymentBPS r < 0 \<or> cr_NeutralPaymentBPS r > FinBPS) \<and>
     \<not> (cr_HistoryFull r \<le> 0 \<or> cr_IncomeFull r < 1 \<or> cr_WorthFull r < 1) \<and>
     \<not> (cr_NewCreditStepBPS r < 0 \<or> cr_NewCreditStepBPS r > FinBPS) \<and>
     \<not> (cr_MissedPoints r < 0 \<or> cr_DefaultPoints r < 0 \<or> cr_MissedPoints r > sub64 (cr_Max r) (cr_Min r) \<or>
        cr_DefaultPoints r > sub64 (cr_Max r) (cr_Min r))"

record credit_history =
  ch_OnTime :: int
  ch_Missed :: int
  ch_Defaults :: int
  ch_Opened :: int
  ch_Age :: duration
  ch_Shifts :: int
  ch_NetWorth :: int
  ch_Owed :: int

record credit_score =
  cs_Score :: int
  cs_PaymentBPS :: int
  cs_DebtBPS :: int
  cs_HistoryBPS :: int
  cs_IncomeBPS :: int
  cs_WorthBPS :: int
  cs_NewCreditBPS :: int
  cs_Penalty :: int

definition credit_ratio :: "int \<Rightarrow> int \<Rightarrow> int" where
  "credit_ratio n full =
     (if n \<le> 0 \<or> full \<le> 0 then 0 else if n \<ge> full then FinBPS
      else case finance_mulDiv n FinBPS full of Inl _ \<Rightarrow> 0 | Inr v \<Rightarrow> v)"

definition payment_factor :: "credit_rules \<Rightarrow> credit_history \<Rightarrow> int" where
  "payment_factor r h =
     (if add64 (ch_OnTime h) (ch_Missed h) = 0 then cr_NeutralPaymentBPS r
      else credit_ratio (max (ch_OnTime h) 0) (add64 (max (ch_OnTime h) 0) (max (ch_Missed h) 0)))"

definition debt_factor :: "credit_history \<Rightarrow> int" where
  "debt_factor h =
     (let assets = add64 (max (ch_NetWorth h) 0) (max (ch_Owed h) 0) in
      if ch_Owed h > 0 then sub64 FinBPS (credit_ratio (ch_Owed h) (max assets 1)) else FinBPS)"

definition credit_weighted :: "credit_weights \<Rightarrow> int \<Rightarrow> int \<Rightarrow> int \<Rightarrow> int \<Rightarrow> int \<Rightarrow> int \<Rightarrow> int" where
  "credit_weighted w p d h i n c =
     add64 (add64 (add64 (add64 (add64 (mul64 (cw_Payment w) p) (mul64 (cw_Debt w) d)) (mul64 (cw_History w) h)) (mul64 (cw_Income w) i))
       (mul64 (cw_Worth w) n)) (mul64 (cw_NewCredit w) c)"

definition credit_penalty :: "credit_rules \<Rightarrow> credit_history \<Rightarrow> int" where
  "credit_penalty r h = add64 (mul64 (max (ch_Missed h) 0) (cr_MissedPoints r)) (mul64 (max (ch_Defaults h) 0) (cr_DefaultPoints r))"

definition credit_Score :: "credit_rules \<Rightarrow> credit_history \<Rightarrow> credit_score" where
  "credit_Score r h =
     (let p = payment_factor r h;
          d = debt_factor h;
          hi = credit_ratio (quo64 (ch_Age h) Second) (quo64 (cr_HistoryFull r) Second);
          i = credit_ratio (ch_Shifts h) (cr_IncomeFull r);
          n = credit_ratio (ch_NetWorth h) (cr_WorthFull r);
          c = max (sub64 FinBPS (mul64 (max (ch_Opened h) 0) (cr_NewCreditStepBPS r))) 0;
          gain = (case finance_mulDiv (sub64 (cr_Max r) (cr_Min r)) (credit_weighted (cr_Weights r) p d hi i n c) (FinBPS * FinBPS) of
                    Inl _ \<Rightarrow> 0 | Inr v \<Rightarrow> v);
          penalty = credit_penalty r h in
      \<lparr>cs_Score = fin_clamp (sub64 (add64 (cr_Min r) gain) penalty) (cr_Min r) (cr_Max r), cs_PaymentBPS = p, cs_DebtBPS = d,
       cs_HistoryBPS = hi, cs_IncomeBPS = i, cs_WorthBPS = n, cs_NewCreditBPS = c, cs_Penalty = penalty\<rparr>)"

record credit_band =
  cb_MinScore :: int
  cb_LimitBPS :: int
  cb_PremiumBPS :: int

definition BandFor :: "credit_band list \<Rightarrow> int \<Rightarrow> credit_band \<times> bool" where
  "BandFor bands score =
     (case foldl (\<lambda>acc b. if score \<ge> cb_MinScore b then (b, True) else acc)
        (\<lparr>cb_MinScore = 0, cb_LimitBPS = 0, cb_PremiumBPS = 0\<rparr>, False) (sort_by (\<lambda>a b. cb_MinScore a < cb_MinScore b) bands) of
      (out, found) \<Rightarrow> (out, found \<and> cb_LimitBPS out > 0))"

fun bands_valid :: "credit_rules \<Rightarrow> int set \<Rightarrow> credit_band list \<Rightarrow> bool" where
  "bands_valid r seen [] = True"
| "bands_valid r seen (b # bs) =
     (if cb_MinScore b < cr_Min r \<or> cb_MinScore b > cr_Max r \<or> cb_MinScore b \<in> seen then False
      else if cb_LimitBPS b < 0 \<or> cb_LimitBPS b > FinBPS \<or> cb_PremiumBPS b < 0 \<or> cb_PremiumBPS b > FinBPS then False
      else bands_valid r (insert (cb_MinScore b) seen) bs)"

definition ValidateBands :: "credit_band list \<Rightarrow> credit_rules \<Rightarrow> bool" where
  "ValidateBands bands r \<longleftrightarrow> bands_valid r {} bands \<and> bands \<noteq> []"

section \<open>Insurance\<close>

definition Premium :: "int \<Rightarrow> int \<Rightarrow> int \<Rightarrow> int" where
  "Premium fixed bps insured = add64 (max fixed 0) (OfBPS insured bps)"

definition insurance_Claim :: "int \<Rightarrow> int \<Rightarrow> int \<Rightarrow> int \<Rightarrow> int \<times> int" where
  "insurance_Claim loss coverBPS maxClaim fund =
     (let due0 = OfBPS loss (fin_clamp coverBPS 0 FinBPS);
          due = (if maxClaim > 0 then min due0 maxClaim else due0) in
      (due, min due (max fund 0)))"

definition ClaimDue :: "int \<Rightarrow> int \<Rightarrow> int \<Rightarrow> int \<Rightarrow> int" where
  "ClaimDue loss0 coverBPS deductibleBPS maxClaim =
     (let loss = max loss0 0;
          above = sub64 loss (OfBPS loss (fin_clamp deductibleBPS 0 FinBPS));
          due = OfBPS above (fin_clamp coverBPS 0 FinBPS) in
      if maxClaim > 0 then min due maxClaim else due)"

definition ProRata :: "int list \<Rightarrow> int \<Rightarrow> int list" where
  "ProRata dues fund0 =
     (let tot = foldl (\<lambda>t d. add64 t (max d 0)) 0 dues;
          fund = max fund0 0 in
      map (\<lambda>d0. let d = max d0 0 in
        if tot \<le> fund then d else if tot > 0 then quo64 (mul64 d fund) tot else 0) dues)"

section \<open>Gold\<close>

record gold_rules =
  gr_Min :: int
  gr_Max :: int
  gr_StepBPS :: int
  gr_DemandBPSPerKG :: int
  gr_DemandCapBPS :: int
  gr_SpreadBPS :: int

definition GoldRules_Validate :: "gold_rules \<Rightarrow> bool" where
  "GoldRules_Validate r \<longleftrightarrow>
     \<not> (gr_Min r < 1 \<or> gr_Max r < gr_Min r) \<and>
     \<not> (gr_StepBPS r < 0 \<or> gr_StepBPS r > 5000 \<or> gr_DemandBPSPerKG r < 0 \<or> gr_DemandCapBPS r < 0 \<or> gr_DemandCapBPS r > 5000) \<and>
     \<not> (gr_SpreadBPS r < 0 \<or> gr_SpreadBPS r \<ge> FinBPS)"

text \<open>\<open>Roll\<close> is splitmix64: the words wrap, \<open>z ^ z >> 31\<close> shifts in zeros.\<close>

definition gold_Roll :: "64 word \<Rightarrow> int" where
  "gold_Roll seed =
     (let z0 = seed + 0x9e3779b97f4a7c15;
          z1 = (z0 XOR drop_bit 30 z0) * 0xbf58476d1ce4e5b9;
          z2 = (z1 XOR drop_bit 27 z1) * 0x94d049bb133111eb;
          z3 = z2 XOR drop_bit 31 z2 in
      uint (z3 mod 20001) - 10000)"

definition gold_Next :: "gold_rules \<Rightarrow> int \<Rightarrow> int \<Rightarrow> int \<Rightarrow> int" where
  "gold_Next r price roll netGrams =
     (let step = quo64 (mul64 (fin_clamp roll (- FinBPS) FinBPS) (gr_StepBPS r)) FinBPS;
          pull = fin_clamp (quo64 (mul64 netGrams (gr_DemandBPSPerKG r)) 1000) (neg64 (gr_DemandCapBPS r)) (gr_DemandCapBPS r);
          move = add64 step pull;
          delta0 = quo64 (mul64 price move) FinBPS;
          delta = (if move \<noteq> 0 \<and> delta0 = 0 then (if move < 0 then -1 else 1) else delta0) in
      fin_clamp (add64 price delta) (gr_Min r) (gr_Max r))"

definition gold_Quote :: "gold_rules \<Rightarrow> int \<Rightarrow> int \<times> int" where
  "gold_Quote r mid =
     (let half = quo64 (OfBPS mid (gr_SpreadBPS r)) 2;
          buy = add64 mid (max half 1);
          sell = max (sub64 mid (max half 1)) 1 in
      if gr_SpreadBPS r = 0 then (mid, mid) else (buy, sell))"


section \<open>Listed companies\<close>

record listing_rules =
  lr_MinAge :: duration
  lr_MinRevenue :: int
  lr_MinFloatBPS :: int
  lr_MaxFloatBPS :: int
  lr_TakeoverBPS :: int

definition ListingRules_Validate :: "listing_rules \<Rightarrow> bool" where
  "ListingRules_Validate r \<longleftrightarrow>
     \<not> (lr_MinAge r < 0 \<or> lr_MinRevenue r < 0) \<and>
     \<not> (lr_MinFloatBPS r < 1 \<or> lr_MaxFloatBPS r < lr_MinFloatBPS r \<or> lr_MaxFloatBPS r \<ge> FinBPS) \<and>
     \<not> (lr_TakeoverBPS r \<le> FinBPS div 2 \<or> lr_TakeoverBPS r > FinBPS)"

datatype listing_answer = ListTooYoung | ListTooSmall | ListInDebt | ListBadFloat | ListCompliant

definition listing_Eligible :: "listing_rules \<Rightarrow> duration \<Rightarrow> int \<Rightarrow> int \<Rightarrow> int \<Rightarrow> listing_answer" where
  "listing_Eligible r age revenue debt floatBPS =
     (if age < lr_MinAge r then ListTooYoung
      else if revenue < lr_MinRevenue r then ListTooSmall
      else if debt > 0 then ListInDebt
      else if floatBPS < lr_MinFloatBPS r \<or> floatBPS > lr_MaxFloatBPS r then ListBadFloat
      else ListCompliant)"

definition FloatShares :: "int \<Rightarrow> int \<Rightarrow> int" where
  "FloatShares tot bps = max (OfBPS tot bps) 1"

definition stock_Controls :: "int \<Rightarrow> int \<Rightarrow> int \<Rightarrow> bool" where
  "stock_Controls shares tot takeoverBPS =
     (if tot < 1 \<or> shares < 1 then False
      else case finance_mulDivCeil tot takeoverBPS FinBPS of Inl _ \<Rightarrow> False | Inr need \<Rightarrow> shares \<ge> need)"

record dividend =
  dv_PerShare :: int
  dv_Paid :: int
  dv_Payments :: "(string \<times> int) list"

text \<open>
  The holdings are a Go map: a list of its entries with distinct keys, in whatever order the map yields
  them; the payments are listed in the order the code makes them, by holder.
\<close>

fun holdings_sum :: "int \<Rightarrow> (string \<times> int) list \<Rightarrow> int option" where
  "holdings_sum acc [] = Some acc"
| "holdings_sum acc ((_, n) # hs) = (if n < 0 then None else holdings_sum (add64 acc n) hs)"

definition SplitDividend :: "int \<Rightarrow> int \<Rightarrow> (string \<times> int) list \<Rightarrow> finance_error + dividend" where
  "SplitDividend amt tot holdings =
     (case holdings_sum 0 holdings of
        None \<Rightarrow> Inl FinErrInvalid
      | Some hsum \<Rightarrow>
          if tot < 1 \<or> hsum \<noteq> tot then Inl FinErrInvalid
          else
            let per = quo64 (max amt 0) tot in
            if per = 0 then Inr \<lparr>dv_PerShare = 0, dv_Paid = 0, dv_Payments = []\<rparr>
            else
              let paid = map (\<lambda>h. (h, mul64 (the (map_of holdings h)) per)) (filter (\<lambda>h. the (map_of holdings h) > 0) (sort (map fst holdings))) in
              Inr \<lparr>dv_PerShare = per, dv_Paid = foldl (\<lambda>t (_, v). add64 t v) 0 paid, dv_Payments = paid\<rparr>)"

definition BookPerShare :: "int \<Rightarrow> int \<Rightarrow> int" where
  "BookPerShare book tot = (if tot < 1 then 1 else max (quo64 (max book 0) tot) 1)"

section \<open>Scores\<close>

lemma credit_ratio_eq:
  "credit_ratio n full = (if n \<le> 0 \<or> full \<le> 0 then 0 else if n \<ge> full then FinBPS else n * FinBPS div full)"
proof -
  have b: "n * FinBPS div full \<le> MaxInt64" if "0 < n" "n < full"
    using that div_le_iff_int [of full "n * FinBPS" FinBPS] by simp
  show ?thesis
    by (cases "0 < n \<and> n < full") (use b in \<open>auto simp: credit_ratio_def finance_mulDiv_eq not_less\<close>)
qed

lemma credit_ratio_range: "0 \<le> credit_ratio n full \<and> credit_ratio n full \<le> FinBPS"
  by (auto simp: credit_ratio_eq pos_imp_zdiv_nonneg_iff div_le_iff_int)

lemma credit_ratio_more: "0 \<le> a \<Longrightarrow> 0 \<le> m \<Longrightarrow> m \<le> m' \<Longrightarrow> credit_ratio a (a + m') \<le> credit_ratio a (a + m)"
proof -
  assume h: "0 \<le> a" "0 \<le> m" "m \<le> m'"
  have "a * FinBPS div (a + m') \<le> a * FinBPS div (a + m)" if "0 < a" using that h by (intro zdiv_mono2) simp_all
  moreover have "a * FinBPS div (a + m') \<le> FinBPS" if "0 < a" using that h by (simp add: div_le_iff_int)
  ultimately show ?thesis using h by (auto simp: credit_ratio_eq)
qed

lemma debt_factor_range: "0 \<le> debt_factor h \<and> debt_factor h \<le> FinBPS"
proof -
  have "sub64 FinBPS (credit_ratio a b) = FinBPS - credit_ratio a b" for a b
    using credit_ratio_range [of a b] by (simp add: sub64_def wrap64_nonneg)
  then show ?thesis using credit_ratio_range by (simp add: debt_factor_def Let_def)
qed

definition rules_ok :: "credit_rules \<Rightarrow> bool" where
  "rules_ok r \<longleftrightarrow> 0 \<le> cr_Min r \<and> cr_Min r < cr_Max r \<and> cr_Max r \<le> 10000 \<and>
     0 \<le> cw_Payment (cr_Weights r) \<and> 0 \<le> cw_Debt (cr_Weights r) \<and> 0 \<le> cw_History (cr_Weights r) \<and> 0 \<le> cw_Income (cr_Weights r) \<and>
     0 \<le> cw_Worth (cr_Weights r) \<and> 0 \<le> cw_NewCredit (cr_Weights r) \<and>
     cw_Payment (cr_Weights r) + cw_Debt (cr_Weights r) + cw_History (cr_Weights r) + cw_Income (cr_Weights r) + cw_Worth (cr_Weights r) + cw_NewCredit (cr_Weights r) = FinBPS \<and>
     0 \<le> cr_NeutralPaymentBPS r \<and> cr_NeutralPaymentBPS r \<le> FinBPS \<and> 0 \<le> cr_MissedPoints r \<and> cr_MissedPoints r \<le> 10000 \<and>
     0 \<le> cr_DefaultPoints r \<and> cr_DefaultPoints r \<le> 10000 \<and> 0 \<le> cr_NewCreditStepBPS r \<and> cr_NewCreditStepBPS r \<le> FinBPS"

text \<open>A factor-weighted sum never wraps: six products of at most \<open>10000\<close> each way.\<close>

lemma credit_weighted_exact:
  assumes w: "0 \<le> cw_Payment w" "0 \<le> cw_Debt w" "0 \<le> cw_History w" "0 \<le> cw_Income w" "0 \<le> cw_Worth w" "0 \<le> cw_NewCredit w"
    "cw_Payment w + cw_Debt w + cw_History w + cw_Income w + cw_Worth w + cw_NewCredit w = FinBPS"
    and f: "0 \<le> p" "p \<le> FinBPS" "0 \<le> d" "d \<le> FinBPS" "0 \<le> h" "h \<le> FinBPS" "0 \<le> i" "i \<le> FinBPS" "0 \<le> n" "n \<le> FinBPS" "0 \<le> c" "c \<le> FinBPS"
  shows "credit_weighted w p d h i n c = cw_Payment w * p + cw_Debt w * d + cw_History w * h + cw_Income w * i + cw_Worth w * n + cw_NewCredit w * c"
    and "0 \<le> credit_weighted w p d h i n c" "credit_weighted w p d h i n c \<le> FinBPS * FinBPS"
proof -
  have m: "0 \<le> cw_Payment w * p" "cw_Payment w * p \<le> cw_Payment w * FinBPS" "0 \<le> cw_Debt w * d" "cw_Debt w * d \<le> cw_Debt w * FinBPS"
    "0 \<le> cw_History w * h" "cw_History w * h \<le> cw_History w * FinBPS" "0 \<le> cw_Income w * i" "cw_Income w * i \<le> cw_Income w * FinBPS"
    "0 \<le> cw_Worth w * n" "cw_Worth w * n \<le> cw_Worth w * FinBPS" "0 \<le> cw_NewCredit w * c" "cw_NewCredit w * c \<le> cw_NewCredit w * FinBPS"
    using w f by (simp_all add: mult_left_mono)
  show e: "credit_weighted w p d h i n c = cw_Payment w * p + cw_Debt w * d + cw_History w * h + cw_Income w * i + cw_Worth w * n + cw_NewCredit w * c"
    using m w(7) by (simp add: credit_weighted_def mul64_def add64_def wrap64_nonneg)
  show "0 \<le> credit_weighted w p d h i n c" "credit_weighted w p d h i n c \<le> FinBPS * FinBPS"
    unfolding e using m w(7) by simp_all
qed

lemma credit_gain_mono:
  assumes "0 \<le> s" "s \<le> 10000" "0 \<le> x" "x \<le> y" "y \<le> FinBPS * FinBPS"
  shows "(case finance_mulDiv s x (FinBPS * FinBPS) of Inl _ \<Rightarrow> 0 | Inr v \<Rightarrow> v) \<le> (case finance_mulDiv s y (FinBPS * FinBPS) of Inl _ \<Rightarrow> 0 | Inr v \<Rightarrow> v)"
    and "0 \<le> (case finance_mulDiv s x (FinBPS * FinBPS) of Inl _ \<Rightarrow> 0 | Inr v \<Rightarrow> v)" "(case finance_mulDiv s y (FinBPS * FinBPS) of Inl _ \<Rightarrow> 0 | Inr v \<Rightarrow> v) \<le> s"
proof -
  have "s * x \<le> s * y" "s * y \<le> s * (FinBPS * FinBPS)" "0 \<le> s * x" using assms by (simp_all add: mult_left_mono)
  then have "s * x div (FinBPS * FinBPS) \<le> s * y div (FinBPS * FinBPS)" "s * y div (FinBPS * FinBPS) \<le> s" "0 \<le> s * x div (FinBPS * FinBPS)"
    by (simp_all add: zdiv_mono1 div_le_iff_int pos_imp_zdiv_nonneg_iff)
  then show "(case finance_mulDiv s x (FinBPS * FinBPS) of Inl _ \<Rightarrow> 0 | Inr v \<Rightarrow> v) \<le> (case finance_mulDiv s y (FinBPS * FinBPS) of Inl _ \<Rightarrow> 0 | Inr v \<Rightarrow> v)"
    "0 \<le> (case finance_mulDiv s x (FinBPS * FinBPS) of Inl _ \<Rightarrow> 0 | Inr v \<Rightarrow> v)" "(case finance_mulDiv s y (FinBPS * FinBPS) of Inl _ \<Rightarrow> 0 | Inr v \<Rightarrow> v) \<le> s"
    using assms by (auto simp: finance_mulDiv_eq)
qed


text \<open>
  Missed instalments and defaults never raise a credit score, however many are added to a record, and a
  score stays within its range with the penalty taken in full. Counts below \<open>2^40\<close>, far above what a game holds,
  keep every product of the formula within \<open>int64\<close>.
\<close>

lemma credit_Score_monotone:
  assumes r: "rules_ok r"
    and h: "0 \<le> ch_OnTime h" "0 \<le> ch_Missed h" "0 \<le> ch_Defaults h" "ch_OnTime h \<le> 1099511627776" "ch_Missed h \<le> 1099511627776" "ch_Defaults h \<le> 1099511627776"
      "0 \<le> ch_Opened h" "ch_Opened h \<le> 1099511627776" "ch_NetWorth h + max (ch_Owed h) 0 \<le> MaxInt64" "ch_Owed h \<le> MaxInt64"
    and g: "g = h\<lparr>ch_Missed := ch_Missed h + m, ch_Defaults := ch_Defaults h + d\<rparr>" "0 \<le> m" "0 \<le> d" "ch_Missed h + m \<le> 1099511627776" "ch_Defaults h + d \<le> 1099511627776"
  shows "cr_Min r \<le> cs_Score (credit_Score r g) \<and> cs_Score (credit_Score r g) \<le> cs_Score (credit_Score r h) \<and> cs_Score (credit_Score r h) \<le> cr_Max r"
proof -
  have rr: "0 \<le> cr_Min r" "cr_Min r < cr_Max r" "cr_Max r \<le> 10000" "0 \<le> cr_NeutralPaymentBPS r" "cr_NeutralPaymentBPS r \<le> FinBPS"
    "0 \<le> cr_MissedPoints r" "cr_MissedPoints r \<le> 10000" "0 \<le> cr_DefaultPoints r" "cr_DefaultPoints r \<le> 10000" "0 \<le> cr_NewCreditStepBPS r" "cr_NewCreditStepBPS r \<le> FinBPS"
    and ww: "0 \<le> cw_Payment (cr_Weights r)" "0 \<le> cw_Debt (cr_Weights r)" "0 \<le> cw_History (cr_Weights r)" "0 \<le> cw_Income (cr_Weights r)"
      "0 \<le> cw_Worth (cr_Weights r)" "0 \<le> cw_NewCredit (cr_Weights r)"
      "cw_Payment (cr_Weights r) + cw_Debt (cr_Weights r) + cw_History (cr_Weights r) + cw_Income (cr_Weights r) + cw_Worth (cr_Weights r) + cw_NewCredit (cr_Weights r) = FinBPS"
    using r by (simp_all add: rules_ok_def)
  define p where "p = payment_factor r h"
  define p' where "p' = payment_factor r g"
  define D where "D = debt_factor h"
  define H where "H = credit_ratio (quo64 (ch_Age h) Second) (quo64 (cr_HistoryFull r) Second)"
  define I where "I = credit_ratio (ch_Shifts h) (cr_IncomeFull r)"
  define N where "N = credit_ratio (ch_NetWorth h) (cr_WorthFull r)"
  define C where "C = max (sub64 FinBPS (mul64 (max (ch_Opened h) 0) (cr_NewCreditStepBPS r))) 0"
  have pf: "p = (if ch_OnTime h + ch_Missed h = 0 then cr_NeutralPaymentBPS r else credit_ratio (ch_OnTime h) (ch_OnTime h + ch_Missed h))"
    "p' = (if ch_OnTime h + (ch_Missed h + m) = 0 then cr_NeutralPaymentBPS r else credit_ratio (ch_OnTime h) (ch_OnTime h + (ch_Missed h + m)))"
    using h g by (simp_all add: p_def p'_def payment_factor_def add64_def wrap64_nonneg)
  have p: "0 \<le> p" "p \<le> FinBPS" "0 \<le> p'" "p' \<le> FinBPS" using rr credit_ratio_range by (simp_all add: pf)
  have pp: "p' \<le> p"
  proof (cases "ch_OnTime h + ch_Missed h = 0")
    case True
    then have "ch_OnTime h = 0" using h by simp
    then show ?thesis using True rr g(2) by (auto simp: pf credit_ratio_eq)
  next
    case False
    then have "ch_OnTime h + (ch_Missed h + m) \<noteq> 0" using h g by linarith
    then show ?thesis using False credit_ratio_more [of "ch_OnTime h" "ch_Missed h" "ch_Missed h + m"] h g(2) by (simp add: pf)
  qed
  have D: "0 \<le> D" "D \<le> FinBPS" using debt_factor_range by (simp_all add: D_def)
  have HIN: "0 \<le> H" "H \<le> FinBPS" "0 \<le> I" "I \<le> FinBPS" "0 \<le> N" "N \<le> FinBPS" using credit_ratio_range by (simp_all add: H_def I_def N_def)
  have "ch_Opened h * cr_NewCreditStepBPS r \<le> 1099511627776 * FinBPS" "0 \<le> ch_Opened h * cr_NewCreditStepBPS r"
    using h rr mult_mono [of "ch_Opened h" 1099511627776 "cr_NewCreditStepBPS r" FinBPS] by simp_all
  then have C: "0 \<le> C" "C \<le> FinBPS"
    using h by (simp_all add: C_def mul64_def sub64_def wrap64_id')
  note W = credit_weighted_exact [OF ww p(1,2) D HIN C] and W' = credit_weighted_exact [OF ww p(3,4) D HIN C]
  have wm: "credit_weighted (cr_Weights r) p' D H I N C \<le> credit_weighted (cr_Weights r) p D H I N C"
    unfolding W(1) W'(1) using pp ww(1) by (simp add: mult_left_mono)
  have span: "sub64 (cr_Max r) (cr_Min r) = cr_Max r - cr_Min r" "0 \<le> cr_Max r - cr_Min r" "cr_Max r - cr_Min r \<le> 10000"
    using rr by (simp_all add: sub64_def wrap64_nonneg)
  define gain where "gain = (\<lambda>x. case finance_mulDiv (cr_Max r - cr_Min r) x (FinBPS * FinBPS) of Inl _ \<Rightarrow> 0 | Inr v \<Rightarrow> v)"
  have G: "0 \<le> gain (credit_weighted (cr_Weights r) p' D H I N C)" "gain (credit_weighted (cr_Weights r) p' D H I N C) \<le> gain (credit_weighted (cr_Weights r) p D H I N C)"
    "gain (credit_weighted (cr_Weights r) p D H I N C) \<le> cr_Max r - cr_Min r"
    using credit_gain_mono [OF span(2,3) W'(2) wm W(3)] by (simp_all add: gain_def)
  have pen: "ch_Missed h * cr_MissedPoints r \<le> (ch_Missed h + m) * cr_MissedPoints r" "ch_Defaults h * cr_DefaultPoints r \<le> (ch_Defaults h + d) * cr_DefaultPoints r"
    "0 \<le> ch_Missed h * cr_MissedPoints r" "0 \<le> ch_Defaults h * cr_DefaultPoints r"
    "(ch_Missed h + m) * cr_MissedPoints r \<le> 1099511627776 * 10000" "(ch_Defaults h + d) * cr_DefaultPoints r \<le> 1099511627776 * 10000"
    using h g rr mult_mono [of "ch_Missed h + m" 1099511627776 "cr_MissedPoints r" 10000]
      mult_mono [of "ch_Defaults h + d" 1099511627776 "cr_DefaultPoints r" 10000] by (simp_all add: mult_right_mono)
  have P: "credit_penalty r h = ch_Missed h * cr_MissedPoints r + ch_Defaults h * cr_DefaultPoints r"
    "credit_penalty r g = (ch_Missed h + m) * cr_MissedPoints r + (ch_Defaults h + d) * cr_DefaultPoints r"
    using pen h g by (simp_all add: credit_penalty_def mul64_def add64_def wrap64_nonneg)
  have s: "cs_Score (credit_Score r h) = fin_clamp (cr_Min r + gain (credit_weighted (cr_Weights r) p D H I N C) - credit_penalty r h) (cr_Min r) (cr_Max r)"
    "cs_Score (credit_Score r g) = fin_clamp (cr_Min r + gain (credit_weighted (cr_Weights r) p' D H I N C) - credit_penalty r g) (cr_Min r) (cr_Max r)"
  proof -
    have sel: "ch_Age g = ch_Age h" "ch_Shifts g = ch_Shifts h" "ch_NetWorth g = ch_NetWorth h" "ch_Opened g = ch_Opened h" "debt_factor g = D"
      by (simp_all add: g(1) D_def debt_factor_def)
    have e: "cs_Score (credit_Score r h) = fin_clamp (sub64 (add64 (cr_Min r) (gain (credit_weighted (cr_Weights r) p D H I N C))) (credit_penalty r h)) (cr_Min r) (cr_Max r)"
      "cs_Score (credit_Score r g) = fin_clamp (sub64 (add64 (cr_Min r) (gain (credit_weighted (cr_Weights r) p' D H I N C))) (credit_penalty r g)) (cr_Min r) (cr_Max r)"
      by (simp_all add: credit_Score_def Let_def span(1) p_def p'_def D_def [symmetric] H_def I_def N_def C_def gain_def sel)
    have "0 \<le> credit_penalty r h \<and> credit_penalty r h \<le> 40000000000000000" "0 \<le> credit_penalty r g \<and> credit_penalty r g \<le> 40000000000000000"
      unfolding P using pen by simp_all
    then show "cs_Score (credit_Score r h) = fin_clamp (cr_Min r + gain (credit_weighted (cr_Weights r) p D H I N C) - credit_penalty r h) (cr_Min r) (cr_Max r)"
      "cs_Score (credit_Score r g) = fin_clamp (cr_Min r + gain (credit_weighted (cr_Weights r) p' D H I N C) - credit_penalty r g) (cr_Min r) (cr_Max r)"
      unfolding e using G rr by (simp_all add: add64_def sub64_def wrap64_id')
  qed
  have "cs_Score (credit_Score r g) \<le> cs_Score (credit_Score r h)"
    unfolding s by (rule fin_clamp_mono) (use G pen P in linarith)
  then show ?thesis using fin_clamp_range [of "cr_Min r" "cr_Max r"] rr(2) by (simp add: s)
qed


definition demo_credit :: credit_rules where
  "demo_credit = \<lparr>cr_Min = 300, cr_Max = 850,
     cr_Weights = \<lparr>cw_Payment = 3500, cw_Debt = 3000, cw_History = 1500, cw_Income = 1000, cw_Worth = 500, cw_NewCredit = 500\<rparr>,
     cr_NeutralPaymentBPS = 6000, cr_HistoryFull = 2592000000000000, cr_IncomeFull = 20, cr_WorthFull = 200000, cr_NewCreditStepBPS = 2500,
     cr_MissedPoints = 40, cr_DefaultPoints = 150\<rparr>"

definition demo_record :: credit_history where
  "demo_record = \<lparr>ch_OnTime = 20, ch_Missed = 0, ch_Defaults = 0, ch_Opened = 0, ch_Age = 5184000000000000, ch_Shifts = 30, ch_NetWorth = 500000, ch_Owed = 0\<rparr>"

text \<open>The band a score gets is the highest it reaches.\<close>

lemma band_fold:
  "sorted_wrt (\<lambda>a b. \<not> cb_MinScore b < cb_MinScore a) bs \<Longrightarrow>
   foldl (\<lambda>acc b. if score \<ge> cb_MinScore b then (b, True) else acc) (o0, f0) bs = (b, f) \<Longrightarrow>
   (\<forall>x\<in>set bs. score < cb_MinScore x) \<and> b = o0 \<and> f = f0 \<or>
   f \<and> b \<in> set bs \<and> cb_MinScore b \<le> score \<and> (\<forall>x\<in>set bs. cb_MinScore x \<le> score \<longrightarrow> cb_MinScore x \<le> cb_MinScore b)"
proof (induction bs arbitrary: o0 f0)
  case Nil
  then show ?case by simp
next
  case (Cons x bs)
  show ?case
  proof (cases "score \<ge> cb_MinScore x")
    case True
    then have "foldl (\<lambda>acc b. if score \<ge> cb_MinScore b then (b, True) else acc) (x, True) bs = (b, f)" using Cons.prems(2) by simp
    from Cons.IH [OF _ this] Cons.prems(1) True show ?thesis by (auto simp: not_less)
  next
    case False
    then have "foldl (\<lambda>acc b. if score \<ge> cb_MinScore b then (b, True) else acc) (o0, f0) bs = (b, f)" using Cons.prems(2) by simp
    from Cons.IH [OF _ this] Cons.prems(1) False show ?thesis by (auto simp: not_le)
  qed
qed

interpretation band_order: strict_weak_order "\<lambda>a b :: credit_band. cb_MinScore a < cb_MinScore b"
  by unfold_locales auto

lemma BandFor_highest:
  assumes "BandFor bands score = (b, ok)"
  shows "ok \<longleftrightarrow> b \<in> set bands \<and> cb_MinScore b \<le> score \<and> 0 < cb_LimitBPS b \<and> (\<forall>x\<in>set bands. cb_MinScore x \<le> score \<longrightarrow> cb_MinScore x \<le> cb_MinScore b)"
    and "(\<exists>x\<in>set bands. cb_MinScore x \<le> score) \<Longrightarrow> b \<in> set bands \<and> cb_MinScore b \<le> score \<and> (\<forall>x\<in>set bands. cb_MinScore x \<le> score \<longrightarrow> cb_MinScore x \<le> cb_MinScore b)"
proof -
  obtain f where f: "foldl (\<lambda>acc b. if score \<ge> cb_MinScore b then (b, True) else acc)
        (\<lparr>cb_MinScore = 0, cb_LimitBPS = 0, cb_PremiumBPS = 0\<rparr>, False) (sort_by (\<lambda>a b. cb_MinScore a < cb_MinScore b) bands) = (b, f)"
    "ok \<longleftrightarrow> f \<and> 0 < cb_LimitBPS b"
    using assms by (auto simp: BandFor_def split: prod.splits)
  note F = band_fold [OF band_order.sorted_sort_by f(1)]
  show "(\<exists>x\<in>set bands. cb_MinScore x \<le> score) \<Longrightarrow> b \<in> set bands \<and> cb_MinScore b \<le> score \<and> (\<forall>x\<in>set bands. cb_MinScore x \<le> score \<longrightarrow> cb_MinScore x \<le> cb_MinScore b)"
    using F by force
  show "ok \<longleftrightarrow> b \<in> set bands \<and> cb_MinScore b \<le> score \<and> 0 < cb_LimitBPS b \<and> (\<forall>x\<in>set bands. cb_MinScore x \<le> score \<longrightarrow> cb_MinScore x \<le> cb_MinScore b)"
    using F f(2) by force
qed

section \<open>Claims\<close>

lemma sum_list_div_le:
  assumes "0 < (c::int)" "\<forall>x\<in>set xs. 0 \<le> f x"
  shows "(\<Sum>x\<leftarrow>xs. f x div c) \<le> (\<Sum>x\<leftarrow>xs. f x) div c"
  using assms(2)
proof (induction xs)
  case Nil
  then show ?case by simp
next
  case (Cons x xs)
  then have "(\<Sum>x\<leftarrow>x # xs. f x div c) \<le> f x div c + (\<Sum>x\<leftarrow>xs. f x) div c" by simp
  also have "\<dots> \<le> (f x + (\<Sum>x\<leftarrow>xs. f x)) div c"
    using assms(1) div_mult_le_int [OF assms(1), of "f x"] div_mult_le_int [OF assms(1), of "\<Sum>x\<leftarrow>xs. f x"]
    by (simp add: le_div_iff_int distrib_right)
  finally show ?case by simp
qed

text \<open>
  Claims paid in one go stay within the fund. When the largest claim times the fund fits an \<open>int64\<close>, no claim
  gets more than its due, together they get at most what the fund holds, and either all are paid in full or each gets
  the same share of its due, rounded down.
\<close>

lemma ProRata_solvent:
  assumes "(\<Sum>d\<leftarrow>dues. max d 0) \<le> MaxInt64" "\<forall>d\<in>set dues. max d 0 * max fund 0 \<le> MaxInt64"
  shows "(\<Sum>p\<leftarrow>ProRata dues fund. p) \<le> max fund 0 \<and> length (ProRata dues fund) = length dues \<and>
    (\<forall>i<length dues. 0 \<le> ProRata dues fund ! i \<and> ProRata dues fund ! i \<le> max (dues ! i) 0 \<and>
      ProRata dues fund ! i = (if (\<Sum>d\<leftarrow>dues. max d 0) \<le> max fund 0 then max (dues ! i) 0
        else max (dues ! i) 0 * max fund 0 div (\<Sum>d\<leftarrow>dues. max d 0)))"
proof -
  let ?t = "\<Sum>d\<leftarrow>dues. max d 0" and ?f = "max fund 0"
  have t: "foldl (\<lambda>t d. add64 t (max d 0)) 0 dues = ?t" using foldl_add64 [of 0 dues "\<lambda>d. max d 0"] assms(1) by simp
  have t0: "0 \<le> ?t" by (rule sum_list_nonneg) auto
  show ?thesis
  proof (cases "?t \<le> ?f")
    case True
    then have "ProRata dues fund = map (\<lambda>d. max d 0) dues" by (simp add: ProRata_def Let_def t)
    then show ?thesis using True by simp
  next
    case False
    then have tp: "0 < ?t" by simp
    have p: "ProRata dues fund = map (\<lambda>d. max d 0 * ?f div ?t) dues"
    proof -
      have "quo64 (mul64 (max d 0) ?f) ?t = max d 0 * ?f div ?t" if "d \<in> set dues" for d
      proof -
        have "max d 0 * ?f \<le> MaxInt64" using assms(2) that by blast
        moreover have "0 \<le> max d 0 * ?f" by simp
        ultimately show ?thesis using tp by (simp only: mul64_def wrap64_nonneg quo64_nonneg)
      qed
      then show ?thesis using False tp by (simp add: ProRata_def Let_def t)
    qed
    have "(\<Sum>d\<leftarrow>dues. max d 0 * ?f div ?t) \<le> (\<Sum>d\<leftarrow>dues. max d 0 * ?f) div ?t" by (rule sum_list_div_le) (use tp in auto)
    also have "(\<Sum>d\<leftarrow>dues. max d 0 * ?f) = ?t * ?f" by (simp add: sum_list_mult_const)
    finally have "(\<Sum>p\<leftarrow>ProRata dues fund. p) \<le> ?f" using tp by (simp add: p)
    moreover have "max d 0 * ?f div ?t \<le> max d 0 \<and> 0 \<le> max d 0 * ?f div ?t" for d
    proof -
      have "max d 0 * ?f \<le> max d 0 * ?t" by (rule mult_left_mono) (use False in auto)
      moreover have "max d 0 * ?t < (max d 0 + 1) * ?t" using tp by (simp only: mult_less_cancel_right_pos less_add_one)
      ultimately have "max d 0 * ?f < (max d 0 + 1) * ?t" by (rule le_less_trans)
      then show ?thesis unfolding div_le_iff_int [OF tp] using tp by (simp add: pos_imp_zdiv_nonneg_iff)
    qed
    ultimately show ?thesis using False by (simp add: p)
  qed
qed

text \<open>Beyond that the product wraps: a fund of four thousand million minor units answers two equal claims of as much with negative payments, that is with none.\<close>

lemma ProRata_overflow: "ProRata [4000000000, 4000000000] 4000000000 = [- 305843009, - 305843009]"
  by code_simp


section \<open>The gold price\<close>

definition gold_ok :: "gold_rules \<Rightarrow> bool" where
  "gold_ok r \<longleftrightarrow> 1 \<le> gr_Min r \<and> gr_Min r \<le> gr_Max r \<and> gr_Max r \<le> 400000000000000 \<and> 0 \<le> gr_StepBPS r \<and> gr_StepBPS r \<le> 5000 \<and>
     0 \<le> gr_DemandBPSPerKG r \<and> 0 \<le> gr_DemandCapBPS r \<and> gr_DemandCapBPS r \<le> 5000 \<and> 0 \<le> gr_SpreadBPS r \<and> gr_SpreadBPS r < FinBPS"

lemma gold_ok_valid: "GoldRules_Validate r \<Longrightarrow> gr_Max r \<le> 400000000000000 \<Longrightarrow> gold_ok r"
  by (auto simp: GoldRules_Validate_def gold_ok_def)

lemma quo64_abs_le:
  assumes "\<bar>a\<bar> \<le> b * c" "0 < c" "0 \<le> b" "b \<le> MaxInt64"
  shows "\<bar>quo64 a c\<bar> \<le> b"
proof -
  have d: "\<bar>a\<bar> div c \<le> b" using assms by (simp add: div_le_iff_int distrib_right)
  have "0 \<le> \<bar>a\<bar> div c" using assms(2) by (simp add: pos_imp_zdiv_nonneg_iff)
  moreover have "a sdiv c = sgn a * (\<bar>a\<bar> div c)" using assms(2) by (simp add: signed_divide_int_def)
  ultimately have "\<bar>a sdiv c\<bar> \<le> b" using d by (cases "a = 0") (auto simp: abs_mult)
  then show ?thesis using assms(4) by (simp add: quo64_def wrap64_id' abs_le_iff)
qed

text \<open>
  The gold price never leaves its bounds, and in one period it moves by at most the random step and the capped
  pull of demand together, or by one unit where that share of the price is less than one, whatever was
  bought and sold: even a demand that overflows is capped. Whoever buys a gram and sells it at once loses, as long
  as there is a spread.
\<close>

lemma gold_walk_bounded:
  assumes r: "gold_ok r" and p: "gr_Min r \<le> price" "price \<le> gr_Max r"
  shows "gr_Min r \<le> gold_Next r price roll netGrams \<and> gold_Next r price roll netGrams \<le> gr_Max r \<and>
    \<bar>gold_Next r price roll netGrams - price\<bar> \<le> max 1 (price * (gr_StepBPS r + gr_DemandCapBPS r) div FinBPS) \<and>
    (case gold_Quote r price of (buy, sell) \<Rightarrow> sell \<le> price \<and> price \<le> buy \<and> (gr_SpreadBPS r > 0 \<longrightarrow> sell < buy))"
proof -
  have rr: "1 \<le> gr_Min r" "gr_Max r \<le> 400000000000000" "gr_Min r \<le> gr_Max r" "0 \<le> gr_StepBPS r" "gr_StepBPS r \<le> 5000" "0 \<le> gr_DemandCapBPS r" "gr_DemandCapBPS r \<le> 5000"
    "0 \<le> gr_SpreadBPS r" "gr_SpreadBPS r < FinBPS" using r by (simp_all add: gold_ok_def)
  define ro where "ro = fin_clamp roll (- FinBPS) FinBPS"
  have ro: "\<bar>ro\<bar> \<le> FinBPS" by (auto simp: ro_def fin_clamp_def)
  define step where "step = quo64 (mul64 ro (gr_StepBPS r)) FinBPS"
  have "\<bar>ro * gr_StepBPS r\<bar> \<le> gr_StepBPS r * FinBPS" using ro rr by (simp add: abs_mult mult.commute mult_left_mono)
  moreover from this have "mul64 ro (gr_StepBPS r) = ro * gr_StepBPS r" using rr by (simp add: mul64_def wrap64_id' abs_le_iff)
  ultimately have step: "\<bar>step\<bar> \<le> gr_StepBPS r" unfolding step_def using rr by (intro quo64_abs_le) simp_all
  define pull where "pull = fin_clamp (quo64 (mul64 netGrams (gr_DemandBPSPerKG r)) 1000) (neg64 (gr_DemandCapBPS r)) (gr_DemandCapBPS r)"
  have "neg64 (gr_DemandCapBPS r) = - gr_DemandCapBPS r" using rr by (simp add: neg64_def wrap64_id')
  then have pull: "\<bar>pull\<bar> \<le> gr_DemandCapBPS r" using rr by (auto simp: pull_def fin_clamp_def)
  define move where "move = add64 step pull"
  have move: "\<bar>move\<bar> \<le> gr_StepBPS r + gr_DemandCapBPS r" "\<bar>move\<bar> \<le> FinBPS"
    using step pull rr by (simp_all add: move_def add64_def wrap64_id' abs_le_iff)
  define bound where "bound = price * (gr_StepBPS r + gr_DemandCapBPS r) div FinBPS"
  have pm: "\<bar>price * move\<bar> \<le> price * (gr_StepBPS r + gr_DemandCapBPS r)" "\<bar>price * move\<bar> \<le> price * FinBPS"
    using move p rr by (simp_all add: abs_mult mult_left_mono)
  have m: "mul64 price move = price * move"
    unfolding mul64_def by (rule wrap64_id') (use pm(2) p rr in linarith)+
  have pb: "price * (gr_StepBPS r + gr_DemandCapBPS r) \<le> price * FinBPS" using p rr by (simp add: mult_left_mono)
  have b0: "0 \<le> bound" "bound \<le> price"
  proof -
    show "0 \<le> bound" unfolding bound_def using p rr by (simp add: pos_imp_zdiv_nonneg_iff)
    have "price * (gr_StepBPS r + gr_DemandCapBPS r) < (price + 1) * FinBPS" using pb by (simp only: distrib_right)
    then show "bound \<le> price" unfolding bound_def by (subst div_le_iff_int) simp_all
  qed
  define delta0 where "delta0 = quo64 (mul64 price move) FinBPS"
  have d0: "\<bar>delta0\<bar> \<le> bound"
  proof -
    have "\<bar>price * move\<bar> div FinBPS \<le> bound" unfolding bound_def by (rule zdiv_mono1 [OF pm(1)]) simp
    moreover have "(price * move) sdiv FinBPS = sgn (price * move) * (\<bar>price * move\<bar> div FinBPS)" by (simp add: signed_divide_int_def)
    moreover have "0 \<le> \<bar>price * move\<bar> div FinBPS" by simp
    ultimately have "\<bar>(price * move) sdiv FinBPS\<bar> \<le> bound" by (cases "price * move = 0") (auto simp: abs_mult sgn_if)
    then show ?thesis unfolding delta0_def m quo64_def using b0 p rr by (simp add: wrap64_id' abs_le_iff)
  qed
  define delta where "delta = (if move \<noteq> 0 \<and> delta0 = 0 then (if move < 0 then -1 else 1) else delta0)"
  have d: "\<bar>delta\<bar> \<le> max 1 bound" using d0 by (auto simp: delta_def)
  have n: "gold_Next r price roll netGrams = fin_clamp (price + delta) (gr_Min r) (gr_Max r)"
  proof -
    have "add64 price delta = price + delta" using d b0 p rr by (simp add: add64_def wrap64_id' abs_le_iff max_def split: if_splits)
    then show ?thesis
      by (simp only: gold_Next_def Let_def ro_def [symmetric] step_def [symmetric] pull_def [symmetric] move_def [symmetric] delta0_def [symmetric] delta_def [symmetric])
  qed
  have q: "\<bar>gold_Next r price roll netGrams - price\<bar> \<le> max 1 bound"
    unfolding n using d p by (auto simp: fin_clamp_def min_def max_def abs_le_iff split: if_splits)
  define half where "half = quo64 (OfBPS price (gr_SpreadBPS r)) 2"
  have ob: "0 \<le> OfBPS price (gr_SpreadBPS r)" "OfBPS price (gr_SpreadBPS r) \<le> price" using OfBPS_exact [of price "gr_SpreadBPS r"] p rr by simp_all
  then have half: "0 \<le> half" "half \<le> price" unfolding half_def using p rr by (simp_all add: quo64_nonneg)
  define g where "g = max half 1"
  have g: "1 \<le> g" "g \<le> price" using half p rr by (simp_all add: g_def)
  then have "add64 price g = price + g" "sub64 price g = price - g" using p rr by (simp_all add: add64_def sub64_def wrap64_id')
  then have "case gold_Quote r price of (buy, sell) \<Rightarrow> sell \<le> price \<and> price \<le> buy \<and> (gr_SpreadBPS r > 0 \<longrightarrow> sell < buy)"
    using p rr g by (simp add: gold_Quote_def Let_def half_def [symmetric] g_def [symmetric])
  then show ?thesis using q fin_clamp_range [OF rr(3), of "price + delta"] by (simp add: n bound_def)
qed

definition demo_gold :: gold_rules where
  "demo_gold = \<lparr>gr_Min = 100, gr_Max = 1000, gr_StepBPS = 300, gr_DemandBPSPerKG = 50, gr_DemandCapBPS = 200, gr_SpreadBPS = 400\<rparr>"

lemma gold_Roll_range: "- 10000 \<le> gold_Roll seed \<and> gold_Roll seed \<le> 10000"
proof -
  have "0 \<le> uint (z mod 20001) \<and> uint (z mod 20001) \<le> 20000" for z :: "64 word"
  proof -
    have "uint (z mod 20001) < 20001" by (simp add: uint_mod)
    then show ?thesis by (intro conjI uint_ge_0) linarith
  qed
  then show ?thesis by (simp add: gold_Roll_def Let_def)
qed

section \<open>Dividends\<close>

lemma holdings_sum_exact:
  assumes "0 \<le> acc" "acc + (\<Sum>(_, n)\<leftarrow>hs. max n 0) \<le> MaxInt64"
  shows "holdings_sum acc hs = (if \<exists>(_, n)\<in>set hs. n < 0 then None else Some (acc + (\<Sum>(_, n)\<leftarrow>hs. n)))"
  using assms
proof (induction hs arbitrary: acc)
  case Nil
  then show ?case by simp
next
  case (Cons x hs)
  obtain k n where x: "x = (k, n)" by (cases x)
  have s: "0 \<le> (\<Sum>(_, n)\<leftarrow>hs. max n 0)" by (rule sum_list_nonneg) auto
  show ?case
  proof (cases "n < 0")
    case True
    then show ?thesis by (simp add: x)
  next
    case False
    then have "add64 acc n = acc + n" using Cons.prems s by (simp add: x add64_def wrap64_nonneg)
    then show ?thesis using Cons.IH [of "acc + n"] Cons.prems False by (auto simp: x algebra_simps)
  qed
qed

lemma sum_sorted_keys:
  assumes "distinct (map fst hs)" "\<forall>(_, n)\<in>set hs. 0 \<le> (n :: int)"
  shows "(\<Sum>h\<leftarrow>filter (\<lambda>h. the (map_of hs h) > 0) (sort (map fst hs)). the (map_of hs h) * c) = (\<Sum>(_, n)\<leftarrow>hs. n) * (c :: int)"
proof -
  have "(\<Sum>h\<leftarrow>filter (\<lambda>h. the (map_of hs h) > 0) ks. the (map_of hs h) * c) = (\<Sum>h\<leftarrow>ks. the (map_of hs h) * c)" if "set ks \<subseteq> set (map fst hs)" for ks
    using that
  proof (induction ks)
    case (Cons k ks)
    have "0 \<le> the (map_of hs k)"
    proof -
      have "k \<in> set (map fst hs)" using Cons.prems by simp
      then obtain n where n: "(k, n) \<in> set hs" by auto
      then have "map_of hs k = Some n" using assms(1) by simp
      then show ?thesis using assms(2) n by auto
    qed
    then show ?case using Cons by auto
  qed simp
  then have "(\<Sum>h\<leftarrow>filter (\<lambda>h. the (map_of hs h) > 0) (sort (map fst hs)). the (map_of hs h) * c) = (\<Sum>h\<leftarrow>sort (map fst hs). the (map_of hs h) * c)" by simp
  also have "\<dots> = (\<Sum>h\<leftarrow>map fst hs. the (map_of hs h) * c)" by (rule sum_list_map_mset) simp
  also have "\<dots> = (\<Sum>(_, n)\<leftarrow>hs. n * c)"
  proof -
    have "map (\<lambda>x. the (map_of hs (fst x)) * c) hs = map (\<lambda>(_, n). n * c) hs" using assms(1) by (intro map_cong) auto
    then show ?thesis by (simp only: map_map o_def)
  qed
  also have "\<dots> = (\<Sum>(_, n)\<leftarrow>hs. n) * c" by (simp add: case_prod_unfold sum_list_mult_const)
  finally show ?thesis .
qed

text \<open>
  C36. A dividend adds up. Every share gets the same whole amount, each holder exactly their shares' worth and no one
  else anything; together the payments are what the dividend says was paid, at most the amount declared, and what stays
  with the company is less than one unit per share. It does not matter in what order the map of holders is read.
\<close>

theorem SplitDividend_exact:
  assumes "distinct (map fst hs)" "(\<Sum>(_, n)\<leftarrow>hs. max n 0) \<le> MaxInt64" "amt \<le> MaxInt64" "SplitDividend amt tot hs = Inr d"
  shows "dv_PerShare d = max amt 0 div tot \<and> dv_Paid d = dv_PerShare d * tot \<and> dv_Paid d \<le> max amt 0 \<and> max amt 0 - dv_Paid d < tot \<and>
    dv_Paid d = (\<Sum>(_, v)\<leftarrow>dv_Payments d. v) \<and>
    (\<forall>h v. (h, v) \<in> set (dv_Payments d) \<longleftrightarrow> (\<exists>n. (h, n) \<in> set hs \<and> 0 < n \<and> v = n * dv_PerShare d \<and> 0 < v))"
proof -
  obtain hsum where hs0: "holdings_sum 0 hs = Some hsum" and tot: "1 \<le> tot" "hsum = tot"
    using assms(4) by (auto simp: SplitDividend_def split: option.splits if_splits)
  then have nn: "\<forall>(_, n)\<in>set hs. 0 \<le> n" and sum: "(\<Sum>(_, n)\<leftarrow>hs. n) = tot"
    using holdings_sum_exact [of 0 hs] assms(2) by (auto split: if_splits)
  have mx: "map (\<lambda>(_, n). max n 0) hs = map (\<lambda>(_, n). n) hs" using nn by (intro map_cong) auto
  have tb: "tot \<le> MaxInt64" using assms(2) sum unfolding mx by simp
  define per where "per = max amt 0 div tot"
  have per: "quo64 (max amt 0) tot = per" "0 \<le> per" using assms(3) tot by (simp_all add: per_def quo64_nonneg pos_imp_zdiv_nonneg_iff)
  have pt: "per * tot \<le> max amt 0" "max amt 0 < (per + 1) * tot" unfolding per_def using tot div_mult_le_int [of tot] div_mult_less_int [of tot] by simp_all
  show ?thesis
  proof (cases "per = 0")
    case True
    then have d: "d = \<lparr>dv_PerShare = 0, dv_Paid = 0, dv_Payments = []\<rparr>"
      using assms(4) hs0 tot per(1) by (simp add: SplitDividend_def Let_def)
    show ?thesis using pt(2) True by (auto simp: d per_def)
  next
    case False
    then have pp: "0 < per" using per(2) by simp
    let ?val = "\<lambda>h. the (map_of hs h)"
    have vals: "0 \<le> ?val h \<and> ?val h \<le> tot \<and> mul64 (?val h) per = ?val h * per" if "h \<in> fst ` set hs" for h
    proof -
      from that obtain n where n: "(h, n) \<in> set hs" by auto
      then have v: "?val h = n" "0 \<le> n" using assms(1) nn by auto
      have "n \<le> (\<Sum>(_, n)\<leftarrow>hs. n)" using n nn
      proof (induction hs)
        case (Cons x xs)
        have "0 \<le> (\<Sum>(_, n)\<leftarrow>xs. n)" by (rule sum_list_nonneg) (use Cons.prems(2) in auto)
        then show ?case using Cons by (cases "x = (h, n)") (auto split: prod.splits)
      qed simp
      then have "n \<le> tot" using sum by simp
      moreover from this have "n * per \<le> tot * per" "0 \<le> n * per" using pp v by simp_all
      ultimately show ?thesis using v pt(1) assms(3) by (simp add: mul64_def wrap64_nonneg mult.commute)
    qed
    define ps where "ps = map (\<lambda>h. (h, mul64 (?val h) per)) (filter (\<lambda>h. ?val h > 0) (sort (map fst hs)))"
    have d: "d = \<lparr>dv_PerShare = per, dv_Paid = foldl (\<lambda>t (_, v). add64 t v) 0 ps, dv_Payments = ps\<rparr>"
      using assms(4) hs0 tot per(1) False by (simp add: SplitDividend_def Let_def ps_def)
    have ps: "ps = map (\<lambda>h. (h, ?val h * per)) (filter (\<lambda>h. ?val h > 0) (sort (map fst hs)))"
      unfolding ps_def using vals by (intro map_cong) auto
    have total: "(\<Sum>(_, v)\<leftarrow>ps. v) = tot * per"
      using sum_sorted_keys [OF assms(1) nn, of per] sum by (simp add: ps o_def)
    have "foldl (\<lambda>t x. add64 t (case x of (_, v) \<Rightarrow> v)) 0 ps = 0 + (\<Sum>(_, v)\<leftarrow>ps. v)"
      by (rule foldl_add64) (use total pt(1) assms(3) pp in \<open>auto simp: ps mult.commute\<close>)
    then have "foldl (\<lambda>t (_, v). add64 t v) 0 ps = 0 + (\<Sum>(_, v)\<leftarrow>ps. v)" by (simp add: case_prod_unfold)
    then have paid: "dv_Paid d = per * tot" using total by (simp add: d mult.commute)
    have mem: "(h, v) \<in> set ps \<longleftrightarrow> (\<exists>n. (h, n) \<in> set hs \<and> 0 < n \<and> v = n * per \<and> 0 < v)" for h v
      using assms(1) pp by (auto simp: ps image_iff) force
    have "max amt 0 - per * tot < tot" using pt(2) unfolding distrib_right by linarith
    then show ?thesis using paid pt(1) total mem by (simp add: d per_def [symmetric] mult.commute)
  qed
qed

theorem SplitDividend_exact_witness:
  "\<exists>d. SplitDividend 100 7 [(''b'', 4), (''a'', 3)] = Inr d \<and> dv_Paid d = 98 \<and> dv_Payments d = [(''a'', 42), (''b'', 56)]"
proof -
  let ?d = "\<lparr>dv_PerShare = 14, dv_Paid = 98, dv_Payments = [(''a'', 42), (''b'', 56)]\<rparr>"
  have "SplitDividend 100 7 [(''b'', 4), (''a'', 3)] = Inr ?d" by code_simp
  then show ?thesis using SplitDividend_exact [of "[(''b'', 4), (''a'', 3)]" 100 7 ?d] by (intro exI [of _ ?d]) simp
qed

lemma stock_Controls_iff:
  assumes "1 \<le> tot" "0 \<le> b" "b \<le> FinBPS" "tot \<le> MaxInt64" "1 \<le> shares"
  shows "stock_Controls shares tot b \<longleftrightarrow> tot * b \<le> shares * FinBPS"
proof -
  have "tot * b \<le> tot * FinBPS" using assms by (simp add: mult_left_mono)
  also have "\<dots> \<le> MaxInt64 * FinBPS" using assms(4) by (simp only: mult_right_mono)
  finally have "\<not> MaxInt64 < ceil_div (tot * b) FinBPS" by (simp add: not_less ceil_div_le_iff)
  then show ?thesis using assms by (auto simp: stock_Controls_def finance_mulDivCeil_eq ceil_div_le_iff)
qed

text \<open>Two holders cannot both control: a takeover share is a majority.\<close>

lemma one_controls:
  assumes "1 \<le> tot" "FinBPS div 2 < b" "b \<le> FinBPS" "tot \<le> MaxInt64" "1 \<le> x" "1 \<le> y" "x + y \<le> tot" "stock_Controls x tot b"
  shows "\<not> stock_Controls y tot b"
proof
  assume "stock_Controls y tot b"
  then have "tot * b \<le> x * FinBPS" "tot * b \<le> y * FinBPS" using assms stock_Controls_iff [of tot b x] stock_Controls_iff [of tot b y] by simp_all
  moreover have "tot * 5001 \<le> tot * b" using assms by simp
  ultimately have "tot * 5001 \<le> x * FinBPS" "tot * 5001 \<le> y * FinBPS" by (blast intro: order_trans)+
  then show False using assms(1,7) by simp
qed

end
