(* ===== verification/Loan.thy ===== *)
theory Loan
  imports Finance
begin

text \<open>
  \<^verbatim>\<open>internal/domain/finance/loan.go\<close>, and the life of a loan in \<^verbatim>\<open>handlers/finance_collect.go\<close> and
  \<^verbatim>\<open>handlers/finance_loanview.go\<close>: a loan's schedule, what one period collects from what the borrower has, a
  row of loans through its periods, its early repayment and its default. The lemmas show that the instalments
  add up to principal and interest exactly, that a collection takes the oldest instalments whole and never more
  than there is, and that the books of a loan balance in every state it can reach.
\<close>

section \<open>Schedules\<close>

record loan_terms =
  lo_Principal :: int
  lo_RateBPS :: int
  lo_Periods :: int
  lo_PeriodsPerYear :: int

record schedule =
  sc_Principal :: int
  sc_Interest :: int
  sc_Periods :: int

definition loan_Schedule :: "loan_terms \<Rightarrow> finance_error + schedule" where
  "loan_Schedule t =
     (if lo_Principal t < 1 \<or> lo_RateBPS t < 0 \<or> lo_RateBPS t > 100 * FinBPS \<or> lo_Periods t < 1 \<or> lo_Periods t > 10000 \<or>
         lo_PeriodsPerYear t < 1 then Inl FinErrInvalid
      else case finance_mulDiv (lo_RateBPS t) (lo_Periods t) 1 of
        Inl e \<Rightarrow> Inl e
      | Inr num \<Rightarrow>
          (case finance_mulDivCeil (lo_Principal t) num (mul64 FinBPS (lo_PeriodsPerYear t)) of
             Inl e \<Rightarrow> Inl e
           | Inr interest \<Rightarrow>
               if interest > sub64 4611686018427387904 (lo_Principal t) then Inl FinErrArithmetic
               else Inr \<lparr>sc_Principal = lo_Principal t, sc_Interest = interest, sc_Periods = lo_Periods t\<rparr>))"

definition Instalment :: "schedule \<Rightarrow> int \<Rightarrow> int \<times> int" where
  "Instalment s k =
     (if k < 1 \<or> k > sc_Periods s \<or> sc_Periods s < 1 then (0, 0)
      else
        let p = quo64 (sc_Principal s) (sc_Periods s); i = quo64 (sc_Interest s) (sc_Periods s) in
        if k = sc_Periods s then (add64 p (rem64 (sc_Principal s) (sc_Periods s)), add64 i (rem64 (sc_Interest s) (sc_Periods s))) else (p, i))"

definition Schedule_Amount :: "schedule \<Rightarrow> int \<Rightarrow> int" where
  "Schedule_Amount s k = (case Instalment s k of (p, i) \<Rightarrow> add64 p i)"

definition Schedule_Total :: "schedule \<Rightarrow> int" where
  "Schedule_Total s = add64 (sc_Principal s) (sc_Interest s)"

text \<open>The loop of \<open>Remaining\<close>; a schedule of \<open>MaxInt64\<close> periods would never leave it.\<close>

partial_function (option) remaining_loop :: "schedule \<Rightarrow> int \<Rightarrow> int \<Rightarrow> int \<Rightarrow> (int \<times> int) option" where
  "remaining_loop s k p i =
     (if k \<le> sc_Periods s then remaining_loop s (add64 k 1) (add64 p (fst (Instalment s k))) (add64 i (snd (Instalment s k))) else Some (p, i))"

definition Remaining :: "schedule \<Rightarrow> int \<Rightarrow> (int \<times> int) option" where
  "Remaining s paid = remaining_loop s (add64 (max paid 0) 1) 0 0"

section \<open>Collection\<close>

record loan_state =
  ls_Schedule :: schedule
  ls_Paid :: int
  ls_Arrears :: int
  ls_FeesDue :: int

record loan_rules =
  lu_LateFeeBPS :: int
  lu_DefaultAfter :: int

record paid_instalment =
  pi_K :: int
  pi_Principal :: int
  pi_Interest :: int

record collection =
  co_Instalments :: "paid_instalment list"
  co_Fees :: int
  co_NewFee :: int
  co_Missed :: bool
  co_Arrears :: int
  co_FeesDue :: int
  co_Defaulted :: bool
  co_Repaid :: bool

definition Taken :: "collection \<Rightarrow> int" where
  "Taken c = foldl (\<lambda>t p. add64 t (add64 (pi_Principal p) (pi_Interest p))) (co_Fees c) (co_Instalments c)"

text \<open>The loop of \<open>Collect\<close>, with the instalments still due as its counter.\<close>

fun collect_loop :: "nat \<Rightarrow> schedule \<Rightarrow> int \<Rightarrow> int \<Rightarrow> paid_instalment list \<times> int \<times> int" where
  "collect_loop 0 s k left = ([], left, k)"
| "collect_loop (Suc n) s k left =
     (if Schedule_Amount s (add64 k 1) > left then ([], left, k)
      else
        let (ps, left', k') = collect_loop n s (add64 k 1) (sub64 left (Schedule_Amount s (add64 k 1))) in
        (\<lparr>pi_K = add64 k 1, pi_Principal = fst (Instalment s (add64 k 1)), pi_Interest = snd (Instalment s (add64 k 1))\<rparr> # ps, left', k'))"

definition Collect :: "loan_state \<Rightarrow> int \<Rightarrow> int \<Rightarrow> loan_rules \<Rightarrow> collection" where
  "Collect s dueNow available r =
     (let unpaid = max (sub64 (sc_Periods (ls_Schedule s)) (ls_Paid s)) 0;
          due = min (add64 (max (ls_Arrears s) 0) (max dueNow 0)) unpaid;
          (ps, left, k) = collect_loop (nat due) (ls_Schedule s) (ls_Paid s) (max available 0);
          arrears = sub64 due (int (length ps));
          fees = (if arrears = 0 \<and> ls_FeesDue s > 0 then min (ls_FeesDue s) left else 0);
          feesDue = (if arrears = 0 \<and> ls_FeesDue s > 0 then sub64 (ls_FeesDue s) fees else ls_FeesDue s);
          newFee = (if arrears > 0 then OfBPS (Schedule_Amount (ls_Schedule s) (add64 k 1)) (lu_LateFeeBPS r) else 0);
          feesDue' = (if arrears > 0 then add64 feesDue newFee else feesDue) in
      \<lparr>co_Instalments = ps, co_Fees = fees, co_NewFee = newFee, co_Missed = (arrears > 0), co_Arrears = arrears, co_FeesDue = feesDue',
       co_Defaulted = (arrears > 0 \<and> lu_DefaultAfter r > 0 \<and> arrears \<ge> lu_DefaultAfter r),
       co_Repaid = (k \<ge> sc_Periods (ls_Schedule s) \<and> feesDue' = 0)\<rparr>)"

definition Payoff :: "loan_state \<Rightarrow> (int \<times> int \<times> int) option" where
  "Payoff s = (case Remaining (ls_Schedule s) (ls_Paid s) of None \<Rightarrow> None | Some (p, i) \<Rightarrow> Some (p, i, max (ls_FeesDue s) 0))"

definition RateOf :: "int \<Rightarrow> int \<Rightarrow> int \<Rightarrow> int" where
  "RateOf policyBPS spreadBPS premiumBPS = max (add64 (add64 policyBPS spreadBPS) premiumBPS) 0"

definition PeriodInterest :: "int \<Rightarrow> int \<Rightarrow> int \<Rightarrow> int" where
  "PeriodInterest bal rateBPS periodsPerYear =
     (if bal \<le> 0 \<or> rateBPS \<le> 0 \<or> periodsPerYear < 1 then 0
      else case finance_mulDiv bal rateBPS (mul64 FinBPS periodsPerYear) of Inl _ \<Rightarrow> 0 | Inr v \<Rightarrow> v)"

definition Lendable :: "int \<Rightarrow> int \<Rightarrow> int \<Rightarrow> int" where
  "Lendable bal outstanding reserveBPS =
     (let reserve = OfBPS (add64 (max bal 0) (max outstanding 0)) (fin_clamp reserveBPS 0 FinBPS) in max (sub64 bal reserve) 0)"

definition Recovery :: "int \<Rightarrow> int \<Rightarrow> int \<Rightarrow> int \<Rightarrow> int" where
  "Recovery outstanding val recoveryBPS payer = max (min (min outstanding (OfBPS val recoveryBPS)) payer) 0"

section \<open>A loan's row\<close>

datatype loan_status = LoanActive | LoanRepaid | LoanDefaulted

record loan =
  ln_Schedule :: schedule
  ln_PaidPeriods :: int
  ln_Arrears :: int
  ln_MissedTotal :: int
  ln_PrincipalPaid :: int
  ln_InterestPaid :: int
  ln_FeesDue :: int
  ln_FeesPaid :: int
  ln_Status :: loan_status
  ln_Recovered :: int
  ln_WrittenOff :: int

definition loan_State :: "loan \<Rightarrow> loan_state" where
  "loan_State l = \<lparr>ls_Schedule = ln_Schedule l, ls_Paid = ln_PaidPeriods l, ls_Arrears = ln_Arrears l, ls_FeesDue = ln_FeesDue l\<rparr>"

definition loan_repay :: "loan \<Rightarrow> int \<Rightarrow> int \<Rightarrow> int \<Rightarrow> loan" where
  "loan_repay l princ interest fees =
     l\<lparr>ln_PrincipalPaid := add64 (ln_PrincipalPaid l) princ, ln_InterestPaid := add64 (ln_InterestPaid l) interest,
       ln_FeesPaid := add64 (ln_FeesPaid l) fees\<rparr>"

text \<open>\<open>pledge\<close>: the value of a mortgaged property still the borrower's, the share recovered, and what the city that takes it holds.\<close>

definition defaultLoan :: "loan \<Rightarrow> (int \<times> int \<times> int) option \<Rightarrow> loan" where
  "defaultLoan l pledge =
     (let outstanding = sub64 (sc_Principal (ln_Schedule l)) (ln_PrincipalPaid l);
          recovered = (case pledge of None \<Rightarrow> ln_Recovered l | Some (val, bps, payer) \<Rightarrow> Recovery outstanding val bps payer) in
      l\<lparr>ln_Recovered := recovered, ln_WrittenOff := sub64 outstanding recovered, ln_FeesDue := 0, ln_Status := LoanDefaulted\<rparr>)"

definition collectLoan :: "loan_rules \<Rightarrow> (int \<times> int \<times> int) option \<Rightarrow> loan \<Rightarrow> int \<Rightarrow> loan \<times> collection" where
  "collectLoan r pledge l available =
     (let due = (if add64 (ln_PaidPeriods l) (ln_Arrears l) < sc_Periods (ln_Schedule l) then 1 else 0);
          c = Collect (loan_State l) due available r;
          princ = foldl (\<lambda>t p. add64 t (pi_Principal p)) 0 (co_Instalments c);
          interest = foldl (\<lambda>t p. add64 t (pi_Interest p)) 0 (co_Instalments c);
          l1 = loan_repay l princ interest (co_Fees c);
          l2 = l1\<lparr>ln_PaidPeriods := add64 (ln_PaidPeriods l1) (int (length (co_Instalments c))), ln_Arrears := co_Arrears c, ln_FeesDue := co_FeesDue c,
                 ln_MissedTotal := (if co_Missed c then add64 (ln_MissedTotal l1) 1 else ln_MissedTotal l1)\<rparr> in
      (if co_Defaulted c then defaultLoan l2 pledge else if co_Repaid c then l2\<lparr>ln_Status := LoanRepaid\<rparr> else l2, c))"

text \<open>\<open>Repay\<close>: everything left, at once, when the purse holds it.\<close>

definition loan_Repay :: "loan \<Rightarrow> int \<Rightarrow> (loan \<times> int) option" where
  "loan_Repay l purse =
     (if ln_Status l \<noteq> LoanActive then Some (l, 0)
      else case Payoff (loan_State l) of
        None \<Rightarrow> None
      | Some (p, i, f) \<Rightarrow>
          if purse < add64 (add64 p i) f then Some (l, 0)
          else Some ((loan_repay l p i f)\<lparr>ln_PaidPeriods := sc_Periods (ln_Schedule l), ln_Arrears := 0, ln_FeesDue := 0, ln_Status := LoanRepaid\<rparr>,
                     add64 (add64 p i) f))"

section \<open>Instalments add up\<close>

definition sched_ok :: "schedule \<Rightarrow> bool" where
  "sched_ok s \<longleftrightarrow> 0 \<le> sc_Principal s \<and> 0 \<le> sc_Interest s \<and> sc_Principal s + sc_Interest s \<le> 4611686018427387904 \<and> 1 \<le> sc_Periods s \<and> sc_Periods s \<le> 10000"

text \<open>What a share of \<open>total\<close> over \<open>n\<close> instalments is at instalment \<open>k\<close>, and what is left of it after \<open>a\<close>.\<close>

definition part :: "int \<Rightarrow> int \<Rightarrow> int \<Rightarrow> int" where
  "part tot n k = tot div n + (if k = n then tot mod n else 0)"

definition rest :: "int \<Rightarrow> int \<Rightarrow> int \<Rightarrow> int" where
  "rest tot n a = (if a < n then (n - a) * (tot div n) + tot mod n else 0)"

lemma rest_start: "1 \<le> n \<Longrightarrow> rest tot n 0 = tot"
  by (simp add: rest_def)

lemma rest_step: "0 \<le> a \<Longrightarrow> a < n \<Longrightarrow> rest tot n a = part tot n (a + 1) + rest tot n (a + 1)"
proof (cases "a + 1 = n")
  case False
  assume "0 \<le> a" "a < n"
  then have "(n - a) * (tot div n) = tot div n + (n - (a + 1)) * (tot div n)" by (simp add: left_diff_distrib distrib_right)
  then show ?thesis using False \<open>a < n\<close> by (simp add: rest_def part_def)
qed (simp add: rest_def part_def)

lemma rest_bounds:
  assumes "0 \<le> tot" "1 \<le> n" "0 \<le> a"
  shows "0 \<le> rest tot n a" "rest tot n a \<le> tot"
proof -
  have d: "0 \<le> tot div n" "0 \<le> tot mod n" using assms by (simp_all add: pos_imp_zdiv_nonneg_iff)
  show "0 \<le> rest tot n a" using d by (simp add: rest_def)
  have "(n - a) * (tot div n) \<le> n * (tot div n)" using assms d by (intro mult_right_mono) simp_all
  moreover have "n * (tot div n) + tot mod n = tot" by simp
  ultimately have "(n - a) * (tot div n) + tot mod n \<le> tot" by linarith
  then show "rest tot n a \<le> tot" using assms by (simp add: rest_def)
qed

lemma rest_mono:
  assumes "0 \<le> tot" "1 \<le> n" "0 \<le> a" "a \<le> b" "b \<le> n"
  shows "rest tot n b \<le> rest tot n a"
proof (cases "b < n")
  case True
  have "0 \<le> tot div n" using assms by (simp add: pos_imp_zdiv_nonneg_iff)
  then have "(n - b) * (tot div n) \<le> (n - a) * (tot div n)" using assms by (intro mult_right_mono) simp_all
  then show ?thesis using True assms by (simp add: rest_def)
next
  case False
  then show ?thesis using rest_bounds(1) [OF assms(1-3)] by (simp add: rest_def)
qed

lemma part_bounds:
  assumes "0 \<le> tot" "1 \<le> n" "1 \<le> k" "k \<le> n"
  shows "0 \<le> part tot n k" "part tot n k \<le> tot"
proof -
  have "rest tot n (k - 1) = part tot n k + rest tot n k" using assms rest_step [of "k - 1" n tot] by simp
  moreover have "rest tot n (k - 1) \<le> tot" "0 \<le> rest tot n k" using assms rest_bounds [of tot n "k - 1"] rest_bounds [of tot n k] by simp_all
  ultimately show "part tot n k \<le> tot" by linarith
  show "0 \<le> part tot n k" using assms by (simp add: part_def pos_imp_zdiv_nonneg_iff)
qed

abbreviation inst_p :: "schedule \<Rightarrow> int \<Rightarrow> int" where "inst_p s \<equiv> part (sc_Principal s) (sc_Periods s)"
abbreviation inst_i :: "schedule \<Rightarrow> int \<Rightarrow> int" where "inst_i s \<equiv> part (sc_Interest s) (sc_Periods s)"
abbreviation rem_p :: "schedule \<Rightarrow> int \<Rightarrow> int" where "rem_p s \<equiv> rest (sc_Principal s) (sc_Periods s)"
abbreviation rem_i :: "schedule \<Rightarrow> int \<Rightarrow> int" where "rem_i s \<equiv> rest (sc_Interest s) (sc_Periods s)"

lemma Instalment_exact:
  assumes "sched_ok s" "1 \<le> k" "k \<le> sc_Periods s"
  shows "Instalment s k = (inst_p s k, inst_i s k)" "Schedule_Amount s k = inst_p s k + inst_i s k"
    "0 \<le> inst_p s k" "0 \<le> inst_i s k" "inst_p s k + inst_i s k \<le> 4611686018427387904"
proof -
  have s: "0 \<le> sc_Principal s" "0 \<le> sc_Interest s" "sc_Principal s + sc_Interest s \<le> 4611686018427387904" "1 \<le> sc_Periods s"
    using assms(1) by (simp_all add: sched_ok_def)
  note P = part_bounds [OF s(1,4) assms(2,3)] part_bounds [OF s(2,4) assms(2,3)]
  have l: "inst_p s (sc_Periods s) \<le> sc_Principal s" "inst_i s (sc_Periods s) \<le> sc_Interest s"
    using part_bounds [OF s(1,4), of "sc_Periods s"] part_bounds [OF s(2,4), of "sc_Periods s"] s(4) by simp_all
  have d: "0 \<le> sc_Principal s div sc_Periods s" "0 \<le> sc_Interest s div sc_Periods s" "0 \<le> sc_Principal s mod sc_Periods s" "0 \<le> sc_Interest s mod sc_Periods s"
    using s by (simp_all add: pos_imp_zdiv_nonneg_iff)
  show e: "Instalment s k = (inst_p s k, inst_i s k)"
    using assms(2,3) s d l
    by (auto simp: Instalment_def Let_def quo64_nonneg rem64_nonneg part_def add64_def wrap64_nonneg)
  show "0 \<le> inst_p s k" "0 \<le> inst_i s k" "inst_p s k + inst_i s k \<le> 4611686018427387904" using P s(3) by linarith+
  then show "Schedule_Amount s k = inst_p s k + inst_i s k" by (simp add: Schedule_Amount_def e add64_def wrap64_nonneg)
qed

lemma remaining_loop_exact:
  assumes "sched_ok s" "1 \<le> k" "k \<le> sc_Periods s + 1" "p + rem_p s (k - 1) \<le> 4611686018427387904" "i + rem_i s (k - 1) \<le> 4611686018427387904" "0 \<le> p" "0 \<le> i"
  shows "remaining_loop s k p i = Some (p + rem_p s (k - 1), i + rem_i s (k - 1))"
  using assms(2-7)
proof (induction "nat (sc_Periods s + 1 - k)" arbitrary: k p i)
  case 0
  then have "k = sc_Periods s + 1" by simp
  then show ?case by (subst remaining_loop.simps) (simp add: rest_def)
next
  case (Suc n)
  then have k: "k \<le> sc_Periods s" by linarith
  note I = Instalment_exact [OF assms(1) Suc.prems(1) k]
  have s: "sc_Periods s \<le> 10000" "0 \<le> sc_Principal s" "0 \<le> sc_Interest s" "1 \<le> sc_Periods s" using assms(1) by (simp_all add: sched_ok_def)
  have r: "rem_p s (k - 1) = inst_p s k + rem_p s k" "rem_i s (k - 1) = inst_i s k + rem_i s k"
    using rest_step [of "k - 1" "sc_Periods s"] Suc.prems(1) k by simp_all
  have b: "0 \<le> rem_p s k" "0 \<le> rem_i s k" using rest_bounds [of _ "sc_Periods s" k] s Suc.prems(1) by simp_all
  have a: "add64 k 1 = k + 1" "add64 p (inst_p s k) = p + inst_p s k" "add64 i (inst_i s k) = i + inst_i s k"
    using k s Suc.prems r b I(3,4) by (simp_all add: add64_def wrap64_nonneg)
  have "remaining_loop s (k + 1) (p + inst_p s k) (i + inst_i s k) = Some (p + inst_p s k + rem_p s k, i + inst_i s k + rem_i s k)"
    using Suc.hyps(1) [of "k + 1" "p + inst_p s k" "i + inst_i s k"] Suc.hyps(2) Suc.prems k r b I(3,4) by simp
  then show ?case using k by (subst remaining_loop.simps) (simp add: I(1) a r)
qed

lemma Remaining_exact:
  assumes "sched_ok s" "0 \<le> paid" "paid \<le> sc_Periods s"
  shows "Remaining s paid = Some (rem_p s paid, rem_i s paid)"
proof -
  have s: "sc_Periods s \<le> 10000" "0 \<le> sc_Principal s" "0 \<le> sc_Interest s" "1 \<le> sc_Periods s" "sc_Principal s + sc_Interest s \<le> 4611686018427387904"
    using assms(1) by (simp_all add: sched_ok_def)
  have "add64 (max paid 0) 1 = paid + 1" using assms s by (simp add: add64_def wrap64_nonneg)
  moreover have "rem_p s paid \<le> sc_Principal s" "rem_i s paid \<le> sc_Interest s" using rest_bounds(2) s assms(2) by simp_all
  ultimately show ?thesis using remaining_loop_exact [OF assms(1), of "paid + 1" 0 0] assms s by (simp add: Remaining_def)
qed




section \<open>A collection\<close>

definition instalments :: "schedule \<Rightarrow> int \<Rightarrow> int \<Rightarrow> paid_instalment list" where
  "instalments s a b = map (\<lambda>k. \<lparr>pi_K = k, pi_Principal = inst_p s k, pi_Interest = inst_i s k\<rparr>) [a + 1..b]"

lemma length_instalments: "a \<le> b \<Longrightarrow> length (instalments s a b) = nat (b - a)"
  by (simp add: instalments_def)

lemma collect_loop_exact:
  assumes "sched_ok s" "0 \<le> k" "k + int n \<le> sc_Periods s" "0 \<le> left" "left \<le> MaxInt64"
  shows "\<exists>k'. collect_loop n s k left = (instalments s k k', left - (rem_p s k - rem_p s k') - (rem_i s k - rem_i s k'), k') \<and> k \<le> k' \<and> k' \<le> k + int n \<and>
    (rem_p s k - rem_p s k') + (rem_i s k - rem_i s k') \<le> left \<and>
    (k' < k + int n \<longrightarrow> left - (rem_p s k - rem_p s k') - (rem_i s k - rem_i s k') < inst_p s (k' + 1) + inst_i s (k' + 1))"
  using assms(2-5)
proof (induction n arbitrary: k left)
  case 0
  then show ?case by (simp add: instalments_def)
next
  case (Suc n)
  have s: "sc_Periods s \<le> 10000" using assms(1) by (simp add: sched_ok_def)
  have a: "add64 k 1 = k + 1" using Suc.prems s by (simp add: add64_def wrap64_nonneg)
  have k1: "1 \<le> k + 1" "k + 1 \<le> sc_Periods s" using Suc.prems by simp_all
  note I = Instalment_exact [OF assms(1) k1]
  have r: "rem_p s k = inst_p s (k + 1) + rem_p s (k + 1)" "rem_i s k = inst_i s (k + 1) + rem_i s (k + 1)"
    using rest_step [of k "sc_Periods s"] Suc.prems by simp_all
  show ?case
  proof (cases "inst_p s (k + 1) + inst_i s (k + 1) > left")
    case True
    then have c: "collect_loop (Suc n) s k left = ([], left, k)" by (simp add: a I(2))
    show ?thesis unfolding c by (rule exI [of _ k]) (use True Suc.prems in \<open>simp add: instalments_def\<close>)
  next
    case False
    define l' where "l' = left - (inst_p s (k + 1) + inst_i s (k + 1))"
    have l': "sub64 left (Schedule_Amount s (k + 1)) = l'" "0 \<le> l'" "l' \<le> MaxInt64"
      using False Suc.prems I by (simp_all add: sub64_def l'_def wrap64_nonneg)
    obtain k' where k': "collect_loop n s (k + 1) l' = (instalments s (k + 1) k', l' - (rem_p s (k + 1) - rem_p s k') - (rem_i s (k + 1) - rem_i s k'), k')"
      "k + 1 \<le> k'" "k' \<le> k + 1 + int n" "(rem_p s (k + 1) - rem_p s k') + (rem_i s (k + 1) - rem_i s k') \<le> l'"
      "k' < k + 1 + int n \<longrightarrow> l' - (rem_p s (k + 1) - rem_p s k') - (rem_i s (k + 1) - rem_i s k') < inst_p s (k' + 1) + inst_i s (k' + 1)"
      using Suc.IH [of "k + 1" l'] Suc.prems l' by auto
    have i: "instalments s k k' = \<lparr>pi_K = k + 1, pi_Principal = inst_p s (k + 1), pi_Interest = inst_i s (k + 1)\<rparr> # instalments s (k + 1) k'"
      using k'(2) by (simp add: instalments_def upto_rec1 [of "k + 1"])
    have c: "collect_loop (Suc n) s k left = (instalments s k k', l' - (rem_p s (k + 1) - rem_p s k') - (rem_i s (k + 1) - rem_i s k'), k')"
      using False by (simp add: a I(1,2) l'(1) k'(1) i) (simp add: I(2) [symmetric] l'(1) k'(1))
    have e: "l' - (rem_p s (k + 1) - rem_p s k') - (rem_i s (k + 1) - rem_i s k') = left - (rem_p s k - rem_p s k') - (rem_i s k - rem_i s k')"
      by (simp add: l'_def r)
    show ?thesis unfolding c by (rule exI [of _ k']) (use k' e r in \<open>auto simp: l'_def\<close>)
  qed
qed


text \<open>What a loan's counters keep to between periods.\<close>

definition state_ok :: "loan_state \<Rightarrow> bool" where
  "state_ok s \<longleftrightarrow> sched_ok (ls_Schedule s) \<and> 0 \<le> ls_Paid s \<and> 0 \<le> ls_Arrears s \<and> ls_Paid s + ls_Arrears s \<le> sc_Periods (ls_Schedule s) \<and>
     0 \<le> ls_FeesDue s \<and> ls_FeesDue s \<le> 2305843009213693952"

text \<open>The closed form of a collection: \<open>k\<close> is the instalment it stops after.\<close>

definition collected :: "loan_state \<Rightarrow> int \<Rightarrow> int \<Rightarrow> loan_rules \<Rightarrow> int \<Rightarrow> collection \<Rightarrow> bool" where
  "collected s dueNow available r k c \<longleftrightarrow>
     (let sched = ls_Schedule s; a = ls_Paid s; due = min (ls_Arrears s + dueNow) (sc_Periods sched - a);
          cost = (rem_p sched a - rem_p sched k) + (rem_i sched a - rem_i sched k) in
      a \<le> k \<and> k \<le> a + due \<and> co_Instalments c = instalments sched a k \<and> co_Arrears c = a + due - k \<and>
      Taken c = cost + co_Fees c \<and> 0 \<le> cost \<and> 0 \<le> co_Fees c \<and> cost + co_Fees c \<le> max available 0 \<and>
      (co_Arrears c > 0 \<longleftrightarrow> co_Missed c) \<and> (co_Arrears c > 0 \<longrightarrow> max available 0 - cost < inst_p sched (k + 1) + inst_i sched (k + 1)) \<and>
      0 \<le> co_NewFee c \<and> co_NewFee c \<le> inst_p sched (k + 1) + inst_i sched (k + 1) \<and>
      co_FeesDue c + co_Fees c = ls_FeesDue s + co_NewFee c \<and> 0 \<le> co_FeesDue c \<and> (co_Arrears c > 0 \<longrightarrow> co_Fees c = 0) \<and>
      (co_Arrears c = 0 \<longrightarrow> co_NewFee c = 0 \<and> co_Fees c = min (ls_FeesDue s) (max available 0 - cost)) \<and>
      (co_Defaulted c \<longleftrightarrow> co_Arrears c > 0 \<and> lu_DefaultAfter r > 0 \<and> co_Arrears c \<ge> lu_DefaultAfter r) \<and>
      (co_Repaid c \<longleftrightarrow> k = sc_Periods sched \<and> co_FeesDue c = 0))"

lemma instalment_sums:
  assumes "0 \<le> a" "a \<le> b" "b \<le> sc_Periods s"
  shows "(\<Sum>p\<leftarrow>instalments s a b. pi_Principal p) = rem_p s a - rem_p s b" "(\<Sum>p\<leftarrow>instalments s a b. pi_Interest p) = rem_i s a - rem_i s b"
proof -
  have g: "(\<Sum>k\<leftarrow>[a + 1..b]. part tot (sc_Periods s) k) = rest tot (sc_Periods s) a - rest tot (sc_Periods s) b" for tot
    using assms
  proof (induction "nat (b - a)" arbitrary: a)
    case 0
    then show ?case by simp
  next
    case (Suc n)
    then have a: "a + 1 \<le> b" by linarith
    then have "[a + 1..b] = (a + 1) # [(a + 1) + 1..b]" by (simp add: upto_rec1)
    then show ?case using Suc.hyps(1) [of "a + 1"] Suc.hyps(2) Suc.prems a rest_step [of a "sc_Periods s" tot] by simp
  qed
  show "(\<Sum>p\<leftarrow>instalments s a b. pi_Principal p) = rem_p s a - rem_p s b" "(\<Sum>p\<leftarrow>instalments s a b. pi_Interest p) = rem_i s a - rem_i s b"
    using g by (simp_all add: instalments_def o_def)
qed

lemma instalment_nonneg:
  assumes "sched_ok s" "0 \<le> a" "b \<le> sc_Periods s" "p \<in> set (instalments s a b)"
  shows "0 \<le> pi_Principal p" "0 \<le> pi_Interest p" "add64 (pi_Principal p) (pi_Interest p) = pi_Principal p + pi_Interest p"
proof -
  obtain k where k: "1 \<le> k" "k \<le> sc_Periods s" "p = \<lparr>pi_K = k, pi_Principal = inst_p s k, pi_Interest = inst_i s k\<rparr>"
    using assms(2-4) by (auto simp: instalments_def)
  show "0 \<le> pi_Principal p" "0 \<le> pi_Interest p" "add64 (pi_Principal p) (pi_Interest p) = pi_Principal p + pi_Interest p"
    using Instalment_exact(3-5) [OF assms(1) k(1,2)] by (simp_all add: k(3) add64_def wrap64_nonneg)
qed

lemma foldl_instalments:
  assumes s: "sched_ok s" and t: "0 \<le> t" "t \<le> 2305843009213693952" and ab: "0 \<le> a" "a \<le> b" "b \<le> sc_Periods s"
  shows "foldl (\<lambda>t p. add64 t (add64 (pi_Principal p) (pi_Interest p))) t (instalments s a b) = t + (rem_p s a - rem_p s b) + (rem_i s a - rem_i s b)"
    "foldl (\<lambda>t p. add64 t (pi_Principal p)) 0 (instalments s a b) = rem_p s a - rem_p s b"
    "foldl (\<lambda>t p. add64 t (pi_Interest p)) 0 (instalments s a b) = rem_i s a - rem_i s b"
    "0 \<le> rem_p s a - rem_p s b" "0 \<le> rem_i s a - rem_i s b" "(rem_p s a - rem_p s b) + (rem_i s a - rem_i s b) \<le> 4611686018427387904"
proof -
  have sp: "0 \<le> sc_Principal s" "0 \<le> sc_Interest s" "1 \<le> sc_Periods s" "sc_Principal s + sc_Interest s \<le> 4611686018427387904"
    using s by (simp_all add: sched_ok_def)
  show b: "0 \<le> rem_p s a - rem_p s b" "0 \<le> rem_i s a - rem_i s b"
    using rest_mono [OF sp(1,3) ab] rest_mono [OF sp(2,3) ab] by simp_all
  have "rem_p s a \<le> sc_Principal s" "0 \<le> rem_p s b" "rem_i s a \<le> sc_Interest s" "0 \<le> rem_i s b"
    using rest_bounds [OF sp(1,3)] rest_bounds [OF sp(2,3)] ab by simp_all
  then show m: "(rem_p s a - rem_p s b) + (rem_i s a - rem_i s b) \<le> 4611686018427387904" using sp(4) by linarith
  note S = instalment_sums [OF ab] and N = instalment_nonneg [OF s ab(1,3)]
  have x: "(\<Sum>p\<leftarrow>instalments s a b. add64 (pi_Principal p) (pi_Interest p)) = (rem_p s a - rem_p s b) + (rem_i s a - rem_i s b)"
  proof -
    have "map (\<lambda>p. add64 (pi_Principal p) (pi_Interest p)) (instalments s a b) = map (\<lambda>p. pi_Principal p + pi_Interest p) (instalments s a b)"
      using N(3) by (intro map_cong) auto
    then have "(\<Sum>p\<leftarrow>instalments s a b. add64 (pi_Principal p) (pi_Interest p)) = (\<Sum>p\<leftarrow>instalments s a b. pi_Principal p + pi_Interest p)" by (simp only:)
    then show ?thesis using S by (simp add: sum_list_addf)
  qed
  show "foldl (\<lambda>t p. add64 t (add64 (pi_Principal p) (pi_Interest p))) t (instalments s a b) = t + (rem_p s a - rem_p s b) + (rem_i s a - rem_i s b)"
    by (subst foldl_add64) (use t x m N in auto)
  show "foldl (\<lambda>t p. add64 t (pi_Principal p)) 0 (instalments s a b) = rem_p s a - rem_p s b"
    "foldl (\<lambda>t p. add64 t (pi_Interest p)) 0 (instalments s a b) = rem_i s a - rem_i s b"
    using m b N S by (subst foldl_add64; auto)+
qed

lemma Collect_collected:
  assumes s: "state_ok s" and d: "0 \<le> dueNow" "dueNow \<le> 1" and r: "0 \<le> lu_LateFeeBPS r" "lu_LateFeeBPS r \<le> FinBPS" and av: "available \<le> MaxInt64"
  shows "\<exists>k. collected s dueNow available r k (Collect s dueNow available r)"
proof -
  define sched a where "sched = ls_Schedule s" and "a = ls_Paid s"
  have ok: "sched_ok sched" "0 \<le> a" "0 \<le> ls_Arrears s" "a + ls_Arrears s \<le> sc_Periods sched" "0 \<le> ls_FeesDue s" "ls_FeesDue s \<le> 2305843009213693952"
    "sc_Periods sched \<le> 10000" using s by (simp_all add: state_ok_def sched_def a_def sched_ok_def)
  define due where "due = min (ls_Arrears s + dueNow) (sc_Periods sched - a)"
  have due: "0 \<le> due" "a + due \<le> sc_Periods sched" using ok d by (simp_all add: due_def)
  have due': "min (add64 (max (ls_Arrears s) 0) (max dueNow 0)) (max (sub64 (sc_Periods sched) a) 0) = due"
    using ok d by (simp add: due_def add64_def sub64_def wrap64_nonneg)
  define av' where "av' = max available 0"
  have av': "0 \<le> av'" "av' \<le> MaxInt64" using av by (simp_all add: av'_def)
  obtain k where k: "collect_loop (nat due) sched a av' = (instalments sched a k, av' - (rem_p sched a - rem_p sched k) - (rem_i sched a - rem_i sched k), k)"
    "a \<le> k" "k \<le> a + due" "(rem_p sched a - rem_p sched k) + (rem_i sched a - rem_i sched k) \<le> av'"
    "k < a + due \<Longrightarrow> av' - (rem_p sched a - rem_p sched k) - (rem_i sched a - rem_i sched k) < inst_p sched (k + 1) + inst_i sched (k + 1)"
    using collect_loop_exact [OF ok(1,2) _ av', of "nat due"] due by auto
  define cost where "cost = (rem_p sched a - rem_p sched k) + (rem_i sched a - rem_i sched k)"
  define left where "left = av' - cost"
  have left: "av' - (rem_p sched a - rem_p sched k) - (rem_i sched a - rem_i sched k) = left" by (simp add: left_def cost_def)
  define arr where "arr = a + due - k"
  have kp: "k \<le> sc_Periods sched" using k(3) due by linarith
  have arr: "sub64 due (int (length (instalments sched a k))) = arr" "0 \<le> arr"
    using k(2,3) due ok by (simp_all add: arr_def length_instalments sub64_def wrap64_nonneg)
  have F: "0 \<le> cost" "cost \<le> 4611686018427387904"
    using foldl_instalments(4-6) [OF ok(1) _ _ ok(2) k(2) kp, of 0] by (simp_all add: cost_def)
  define amt where "amt = Schedule_Amount sched (add64 k 1)"
  define newFee where "newFee = (if arr > 0 then OfBPS amt (lu_LateFeeBPS r) else 0)"
  have amt: "arr > 0 \<Longrightarrow> amt = inst_p sched (k + 1) + inst_i sched (k + 1) \<and> 0 \<le> amt \<and> amt \<le> 4611686018427387904"
  proof -
    assume "arr > 0"
    then have k1: "1 \<le> k + 1" "k + 1 \<le> sc_Periods sched" using k(2) ok(2) due(2) by (simp_all add: arr_def)
    have "add64 k 1 = k + 1" using k1 ok by (simp add: add64_def wrap64_nonneg)
    then show ?thesis using Instalment_exact [OF ok(1) k1] by (simp add: amt_def)
  qed
  have kn: "0 \<le> inst_p sched (k + 1) + inst_i sched (k + 1)"
    using ok(1) by (simp add: part_def sched_ok_def pos_imp_zdiv_nonneg_iff)
  have newFee: "0 \<le> newFee" "newFee \<le> inst_p sched (k + 1) + inst_i sched (k + 1)" "newFee \<le> 4611686018427387904" "arr = 0 \<Longrightarrow> newFee = 0"
    using amt OfBPS_exact [of amt "lu_LateFeeBPS r"] r kn by (auto simp: newFee_def)
  define fees where "fees = (if arr = 0 \<and> ls_FeesDue s > 0 then min (ls_FeesDue s) left else 0)"
  have left0: "0 \<le> left" using k(4) by (simp add: left_def cost_def)
  have fees: "0 \<le> fees" "fees \<le> left" "fees \<le> ls_FeesDue s" "arr = 0 \<Longrightarrow> fees = min (ls_FeesDue s) left" "arr > 0 \<Longrightarrow> fees = 0"
    using left0 ok(5) by (auto simp: fees_def)
  define c where "c = Collect s dueNow available r"
  have c: "c = \<lparr>co_Instalments = instalments sched a k, co_Fees = fees, co_NewFee = newFee, co_Missed = (arr > 0), co_Arrears = arr,
      co_FeesDue = ls_FeesDue s - fees + newFee, co_Defaulted = (arr > 0 \<and> lu_DefaultAfter r > 0 \<and> arr \<ge> lu_DefaultAfter r),
      co_Repaid = (k \<ge> sc_Periods sched \<and> ls_FeesDue s - fees + newFee = 0)\<rparr>"
  proof -
    have f1: "(if arr = 0 \<and> ls_FeesDue s > 0 then sub64 (ls_FeesDue s) fees else ls_FeesDue s) = ls_FeesDue s - fees"
      using fees ok(5,6) left0 arr(2) by (cases "arr = 0") (auto simp: sub64_def wrap64_nonneg)
    have f2: "(if arr > 0 then add64 (ls_FeesDue s - fees) newFee else ls_FeesDue s - fees) = ls_FeesDue s - fees + newFee"
      using fees newFee ok(5,6) arr(2) by (auto simp: add64_def wrap64_nonneg)
    show ?thesis
      unfolding c_def Collect_def Let_def sched_def [symmetric] a_def [symmetric] due' av'_def [symmetric] k(1) prod.case left arr(1)
        amt_def [symmetric] newFee_def [symmetric] fees_def [symmetric] f1 f2 ..
  qed
  have t: "Taken c = cost + fees"
  proof -
    have "fees \<le> 2305843009213693952" using fees(3) ok(6) by linarith
    from foldl_instalments(1) [OF ok(1) fees(1) this ok(2) k(2) kp] show ?thesis
      by (simp only: Taken_def c collection.simps cost_def)
  qed
  have "collected s dueNow available r k c"
    unfolding collected_def Let_def sched_def [symmetric] a_def [symmetric] due_def [symmetric] cost_def [symmetric] av'_def [symmetric]
    using k(2,3,5) t F fees newFee arr(2) left0 kp ok(5) by (auto simp: c left arr_def left_def)
  then show ?thesis unfolding c_def by blast
qed


section \<open>The books of a loan\<close>

definition loan_open :: "schedule \<Rightarrow> loan" where
  "loan_open s = \<lparr>ln_Schedule = s, ln_PaidPeriods = 0, ln_Arrears = 0, ln_MissedTotal = 0, ln_PrincipalPaid = 0, ln_InterestPaid = 0,
     ln_FeesDue = 0, ln_FeesPaid = 0, ln_Status = LoanActive, ln_Recovered = 0, ln_WrittenOff = 0\<rparr>"

text \<open>The periods of a loan, one list entry each: what the borrower's purse holds then. Only an active loan is collected.\<close>

fun loan_run :: "loan_rules \<Rightarrow> (int \<times> int \<times> int) option \<Rightarrow> loan \<Rightarrow> int list \<Rightarrow> loan \<times> int" where
  "loan_run r pledge l [] = (l, 0)"
| "loan_run r pledge l (av # avs) =
     (if ln_Status l \<noteq> LoanActive then (l, 0)
      else case collectLoan r pledge l av of (l', c) \<Rightarrow> (case loan_run r pledge l' avs of (l'', t) \<Rightarrow> (l'', Taken c + t)))"

definition loan_ok :: "int \<Rightarrow> loan \<Rightarrow> bool" where
  "loan_ok b l \<longleftrightarrow> sched_ok (ln_Schedule l) \<and> 0 \<le> ln_PaidPeriods l \<and> 0 \<le> ln_Arrears l \<and> ln_PaidPeriods l + ln_Arrears l \<le> sc_Periods (ln_Schedule l) \<and>
     0 \<le> ln_FeesDue l \<and> 0 \<le> ln_FeesPaid l \<and> ln_FeesDue l + ln_FeesPaid l \<le> b \<and>
     ln_PrincipalPaid l = sc_Principal (ln_Schedule l) - rem_p (ln_Schedule l) (ln_PaidPeriods l) \<and>
     ln_InterestPaid l = sc_Interest (ln_Schedule l) - rem_i (ln_Schedule l) (ln_PaidPeriods l) \<and>
     (case ln_Status l of
        LoanActive \<Rightarrow> ln_Recovered l = 0 \<and> ln_WrittenOff l = 0
      | LoanRepaid \<Rightarrow> ln_PaidPeriods l = sc_Periods (ln_Schedule l) \<and> ln_FeesDue l = 0 \<and> ln_Recovered l = 0 \<and> ln_WrittenOff l = 0
      | LoanDefaulted \<Rightarrow> 0 \<le> ln_Recovered l \<and> 0 \<le> ln_WrittenOff l \<and>
          ln_PrincipalPaid l + ln_Recovered l + ln_WrittenOff l = sc_Principal (ln_Schedule l))"

lemma loan_open_ok: "sched_ok s \<Longrightarrow> loan_ok 0 (loan_open s)"
  by (simp add: loan_ok_def loan_open_def sched_ok_def rest_start)

lemma collectLoan_ok:
  assumes l: "loan_ok b l" "ln_Status l = LoanActive" and b: "b \<le> 1152921504606846976"
    and small: "sc_Principal (ln_Schedule l) + sc_Interest (ln_Schedule l) \<le> 1099511627776"
    and r: "0 \<le> lu_LateFeeBPS r" "lu_LateFeeBPS r \<le> FinBPS" and av: "av \<le> MaxInt64" and mt: "0 \<le> ln_MissedTotal l" "ln_MissedTotal l \<le> 1099511627776"
    and run: "collectLoan r pledge l av = (l', c)"
  shows "loan_ok (b + 1099511627776) l'" "ln_Schedule l' = ln_Schedule l" "Taken c \<le> max av 0" "0 \<le> Taken c"
    "ln_PrincipalPaid l' + ln_InterestPaid l' + ln_FeesPaid l' = ln_PrincipalPaid l + ln_InterestPaid l + ln_FeesPaid l + Taken c"
    "0 \<le> ln_MissedTotal l' \<and> ln_MissedTotal l' \<le> ln_MissedTotal l + 1"
    "\<lbrakk>ln_Arrears l = 0; ln_FeesDue l = 0; ln_PaidPeriods l < sc_Periods (ln_Schedule l); Schedule_Amount (ln_Schedule l) (ln_PaidPeriods l + 1) \<le> av\<rbrakk> \<Longrightarrow>
      ln_PaidPeriods l' = ln_PaidPeriods l + 1 \<and> ln_Arrears l' = 0 \<and> ln_FeesDue l' = 0 \<and> ln_MissedTotal l' = ln_MissedTotal l \<and> ln_FeesPaid l' = ln_FeesPaid l \<and>
      ln_Status l' = (if ln_PaidPeriods l + 1 = sc_Periods (ln_Schedule l) then LoanRepaid else LoanActive)"
proof -
  define s where "s = ln_Schedule l"
  have ok: "sched_ok s" "0 \<le> ln_PaidPeriods l" "0 \<le> ln_Arrears l" "ln_PaidPeriods l + ln_Arrears l \<le> sc_Periods s" "0 \<le> ln_FeesDue l" "0 \<le> ln_FeesPaid l"
    "ln_FeesDue l + ln_FeesPaid l \<le> b" "ln_PrincipalPaid l = sc_Principal s - rem_p s (ln_PaidPeriods l)" "ln_InterestPaid l = sc_Interest s - rem_i s (ln_PaidPeriods l)"
    "ln_Recovered l = 0" "ln_WrittenOff l = 0"
    using l by (simp_all add: loan_ok_def s_def)
  have sp: "0 \<le> sc_Principal s" "0 \<le> sc_Interest s" "1 \<le> sc_Periods s" "sc_Periods s \<le> 10000" using ok(1) by (simp_all add: sched_ok_def)
  have st: "state_ok (loan_State l)" using ok b by (simp add: state_ok_def loan_State_def s_def)
  define d :: int where "d = (if ln_PaidPeriods l + ln_Arrears l < sc_Periods s then 1 else 0)"
  have d: "(if add64 (ln_PaidPeriods l) (ln_Arrears l) < sc_Periods (ln_Schedule l) then 1 else 0) = d"
    using ok sp by (simp add: d_def s_def add64_def wrap64_nonneg)
  have d01: "0 \<le> d" "d \<le> 1" by (simp_all add: d_def)
  obtain k where k: "collected (loan_State l) d av r k (Collect (loan_State l) d av r)" using Collect_collected [OF st d01 r av] by blast
  have c: "c = Collect (loan_State l) d av r" using run by (simp add: collectLoan_def Let_def d)
  have min_due: "min (ln_Arrears l + d) (sc_Periods s - ln_PaidPeriods l) = ln_Arrears l + d" using ok by (simp add: d_def)
  define cost where "cost = (rem_p s (ln_PaidPeriods l) - rem_p s k) + (rem_i s (ln_PaidPeriods l) - rem_i s k)"
  have "collected (loan_State l) d av r k c" using k by (simp only: c)
  note K = this [unfolded collected_def Let_def loan_State_def loan_state.simps s_def [symmetric] min_due cost_def [symmetric]]
  have C: "ln_PaidPeriods l \<le> k" "k \<le> ln_PaidPeriods l + (ln_Arrears l + d)" "co_Instalments c = instalments s (ln_PaidPeriods l) k"
    "co_Arrears c = ln_PaidPeriods l + (ln_Arrears l + d) - k" "Taken c = cost + co_Fees c" "0 \<le> cost" "0 \<le> co_Fees c" "cost + co_Fees c \<le> max av 0"
    "co_Arrears c > 0 \<longleftrightarrow> co_Missed c" "co_Arrears c > 0 \<longrightarrow> max av 0 - cost < inst_p s (k + 1) + inst_i s (k + 1)"
    "0 \<le> co_NewFee c" "co_NewFee c \<le> inst_p s (k + 1) + inst_i s (k + 1)" "co_FeesDue c + co_Fees c = ln_FeesDue l + co_NewFee c" "0 \<le> co_FeesDue c"
    "co_Arrears c = 0 \<longrightarrow> co_NewFee c = 0 \<and> co_Fees c = min (ln_FeesDue l) (max av 0 - cost)"
    "co_Defaulted c \<longleftrightarrow> co_Arrears c > 0 \<and> lu_DefaultAfter r > 0 \<and> co_Arrears c \<ge> lu_DefaultAfter r" "co_Repaid c \<longleftrightarrow> k = sc_Periods s \<and> co_FeesDue c = 0"
    using K by blast+
  have kp: "k \<le> sc_Periods s" using C(2) ok(4) by (simp add: d_def split: if_splits)
  note F = foldl_instalments [OF ok(1) _ _ ok(2) C(1) kp, of 0, simplified]
  have rb: "0 \<le> rem_p s k" "0 \<le> rem_i s k" "rem_p s (ln_PaidPeriods l) \<le> sc_Principal s" "rem_i s (ln_PaidPeriods l) \<le> sc_Interest s"
    using rest_bounds [OF sp(1,3)] rest_bounds [OF sp(2,3)] ok(2) C(1) by simp_all
  have nf: "co_NewFee c \<le> 1099511627776"
  proof (cases "co_Arrears c = 0")
    case False
    then have "k + 1 \<le> sc_Periods s" "1 \<le> k + 1" using C(1,2,4) ok(2,4) by (simp_all add: d_def split: if_splits)
    then have "inst_p s (k + 1) \<le> sc_Principal s" "inst_i s (k + 1) \<le> sc_Interest s" using part_bounds(2) sp by simp_all
    then show ?thesis using C(12) small by (simp add: s_def)
  qed (use C(15) in simp)
  define l2 where "l2 = l\<lparr>ln_PrincipalPaid := sc_Principal s - rem_p s k, ln_InterestPaid := sc_Interest s - rem_i s k, ln_FeesPaid := ln_FeesPaid l + co_Fees c,
    ln_PaidPeriods := k, ln_Arrears := co_Arrears c, ln_FeesDue := co_FeesDue c, ln_MissedTotal := (if co_Missed c then ln_MissedTotal l + 1 else ln_MissedTotal l)\<rparr>"
  have l': "l' = (if co_Defaulted c then defaultLoan l2 pledge else if co_Repaid c then l2\<lparr>ln_Status := LoanRepaid\<rparr> else l2)"
  proof -
    have p: "add64 (ln_PrincipalPaid l) (rem_p s (ln_PaidPeriods l) - rem_p s k) = sc_Principal s - rem_p s k"
      using ok(8) rb small F(4) sp by (simp add: add64_def wrap64_nonneg s_def [symmetric])
    have i: "add64 (ln_InterestPaid l) (rem_i s (ln_PaidPeriods l) - rem_i s k) = sc_Interest s - rem_i s k"
      using ok(9) rb small F(5) sp by (simp add: add64_def wrap64_nonneg s_def [symmetric])
    have f: "add64 (ln_FeesPaid l) (co_Fees c) = ln_FeesPaid l + co_Fees c"
      using ok(5-7) C(7,13,14) nf b by (simp add: add64_def wrap64_nonneg)
    have n: "add64 (ln_PaidPeriods l) (int (length (instalments s (ln_PaidPeriods l) k))) = k"
      using C(1) kp ok(2) sp by (simp add: length_instalments add64_def wrap64_nonneg)
    have mm: "add64 (ln_MissedTotal l) 1 = ln_MissedTotal l + 1" using mt by (simp add: add64_def wrap64_nonneg)
    have "l' = fst (collectLoan r pledge l av)" by (simp add: run)
    then show ?thesis
      unfolding collectLoan_def Let_def d c [symmetric] fst_conv loan_repay_def C(3) F(2,3)
      by (simp add: l2_def p i f n mm)
  qed
  have dd: "ln_PaidPeriods l + (ln_Arrears l + d) \<le> sc_Periods s" using ok(4) by (simp add: d_def)
  have l2ok: "loan_ok (b + 1099511627776) (l2\<lparr>ln_Status := LoanActive\<rparr>)"
    unfolding loan_ok_def using ok C kp nf dd by (simp add: l2_def s_def [symmetric])
  have "rem_p s k \<le> sc_Principal s" using rest_bounds(2) [OF sp(1,3), of k] ok(2) C(1) by simp
  then have out: "sub64 (sc_Principal s) (sc_Principal s - rem_p s k) = rem_p s k"
    using rb small sp by (simp add: sub64_def wrap64_nonneg s_def [symmetric])
  have dl: "co_Defaulted c \<Longrightarrow> loan_ok (b + 1099511627776) (defaultLoan l2 pledge)"
  proof -
    define rec where "rec = (case pledge of None \<Rightarrow> 0 | Some (val, bps, payer) \<Rightarrow> Recovery (rem_p s k) val bps payer)"
    have rec: "0 \<le> rec" "rec \<le> rem_p s k" using rb(1) by (auto simp: rec_def Recovery_def split: option.splits)
    have "rem_p s k \<le> sc_Principal s" using rest_bounds(2) [OF sp(1,3), of k] ok(2) C(1) by simp
    then have w: "sub64 (rem_p s k) rec = rem_p s k - rec" using rec small sp by (simp add: sub64_def wrap64_nonneg s_def [symmetric])
    have e: "defaultLoan l2 pledge = l2\<lparr>ln_Recovered := rec, ln_WrittenOff := rem_p s k - rec, ln_FeesDue := 0, ln_Status := LoanDefaulted\<rparr>"
      unfolding defaultLoan_def Let_def by (simp add: l2_def s_def [symmetric] out ok(10) rec_def [symmetric] w cong: option.case_cong)
    show ?thesis unfolding e loan_ok_def using ok C kp nf dd rec by (simp add: l2_def s_def [symmetric])
  qed
  show "loan_ok (b + 1099511627776) l'"
  proof (cases "co_Defaulted c")
    case True
    then show ?thesis using dl by (simp add: l')
  next
    case False
    show ?thesis
    proof (cases "co_Repaid c")
      case True
      then show ?thesis using l2ok C(17) False by (simp add: l' loan_ok_def l2_def s_def [symmetric])
    next
      case no: False
      have "l2\<lparr>ln_Status := LoanActive\<rparr> = l2" by (rule loan.equality) (simp_all add: l2_def l(2))
      then show ?thesis using l2ok False no by (simp add: l')
    qed
  qed
  show "ln_Schedule l' = ln_Schedule l" by (simp add: l' l2_def defaultLoan_def Let_def)
  show "Taken c \<le> max av 0" "0 \<le> Taken c" using C(5-8) by simp_all
  have sel: "ln_PrincipalPaid l' = sc_Principal s - rem_p s k" "ln_InterestPaid l' = sc_Interest s - rem_i s k" "ln_FeesPaid l' = ln_FeesPaid l + co_Fees c"
    "ln_MissedTotal l' = (if co_Missed c then ln_MissedTotal l + 1 else ln_MissedTotal l)"
    by (simp_all add: l' l2_def defaultLoan_def Let_def)
  show "ln_PrincipalPaid l' + ln_InterestPaid l' + ln_FeesPaid l' = ln_PrincipalPaid l + ln_InterestPaid l + ln_FeesPaid l + Taken c"
    unfolding sel C(5) cost_def ok(8,9) by simp
  show "0 \<le> ln_MissedTotal l' \<and> ln_MissedTotal l' \<le> ln_MissedTotal l + 1" using mt by (simp add: sel)
  assume h: "ln_Arrears l = 0" "ln_FeesDue l = 0" "ln_PaidPeriods l < sc_Periods (ln_Schedule l)" "Schedule_Amount (ln_Schedule l) (ln_PaidPeriods l + 1) \<le> av"
  have d1: "d = 1" using h by (simp add: d_def s_def)
  have k1: "k = ln_PaidPeriods l + 1"
  proof (rule ccontr)
    assume "k \<noteq> ln_PaidPeriods l + 1"
    then have "k = ln_PaidPeriods l" using C(1,2) h(1) d1 by simp
    then have "max av 0 < inst_p s (k + 1) + inst_i s (k + 1)" using C(4,10) h(1) d1 by (simp add: cost_def)
    moreover have "Schedule_Amount s (k + 1) = inst_p s (k + 1) + inst_i s (k + 1)"
      using Instalment_exact(2) [OF ok(1), of "k + 1"] h(3) ok(2) \<open>k = ln_PaidPeriods l\<close> by (simp add: s_def)
    ultimately show False using h(4) \<open>k = ln_PaidPeriods l\<close> by (simp add: s_def)
  qed
  have z: "co_Arrears c = 0" "co_Fees c = 0" "co_FeesDue c = 0" "\<not> co_Missed c" "\<not> co_Defaulted c"
    using C(4,7,9,13,14,15,16) h(1,2) d1 k1 by auto
  show "ln_PaidPeriods l' = ln_PaidPeriods l + 1 \<and> ln_Arrears l' = 0 \<and> ln_FeesDue l' = 0 \<and> ln_MissedTotal l' = ln_MissedTotal l \<and> ln_FeesPaid l' = ln_FeesPaid l \<and>
      ln_Status l' = (if ln_PaidPeriods l + 1 = sc_Periods (ln_Schedule l) then LoanRepaid else LoanActive)"
    using z C(17) k1 l(2) by (simp add: l' l2_def s_def)
qed


lemma loan_books_balance_aux:
  assumes s: "sched_ok s" "sc_Principal s + sc_Interest s \<le> 1099511627776" and r: "0 \<le> lu_LateFeeBPS r" "lu_LateFeeBPS r \<le> FinBPS"
    and avs: "length avs \<le> 1000000" "\<forall>a\<in>set avs. a \<le> MaxInt64" and run: "loan_run r pledge (loan_open s) avs = (l, t)"
  shows "ln_PrincipalPaid l + ln_InterestPaid l + ln_FeesPaid l = t \<and> 0 \<le> t \<and> t \<le> (\<Sum>a\<leftarrow>avs. max a 0) \<and> 0 \<le> ln_FeesPaid l \<and> 0 \<le> ln_FeesDue l \<and>
    ln_PrincipalPaid l \<le> sc_Principal s \<and> ln_InterestPaid l \<le> sc_Interest s \<and> ln_PaidPeriods l + ln_Arrears l \<le> sc_Periods s \<and>
    (ln_Status l = LoanRepaid \<longrightarrow> ln_PrincipalPaid l = sc_Principal s \<and> ln_InterestPaid l = sc_Interest s \<and> ln_FeesDue l = 0) \<and>
    (ln_Status l = LoanDefaulted \<longrightarrow> ln_PrincipalPaid l + ln_Recovered l + ln_WrittenOff l = sc_Principal s \<and> 0 \<le> ln_Recovered l \<and> 0 \<le> ln_WrittenOff l)"
proof -
  have g: "loan_ok (b + 1099511627776 * int (length avs)) l \<and> ln_Schedule l = s \<and> 0 \<le> t \<and> t \<le> (\<Sum>a\<leftarrow>avs. max a 0) \<and>
      ln_PrincipalPaid l + ln_InterestPaid l + ln_FeesPaid l = ln_PrincipalPaid l0 + ln_InterestPaid l0 + ln_FeesPaid l0 + t"
    if "loan_ok b l0" "ln_Schedule l0 = s" "b + 1099511627776 * int (length avs) \<le> 1152921504606846976" "0 \<le> ln_MissedTotal l0"
      "ln_MissedTotal l0 + int (length avs) \<le> 1099511627776" "\<forall>a\<in>set avs. a \<le> MaxInt64" "loan_run r pledge l0 avs = (l, t)" for b l0
    using that
  proof (induction avs arbitrary: b l0 t)
    case Nil
    then show ?case by simp
  next
    case (Cons a avs)
    have sum: "0 \<le> (\<Sum>a\<leftarrow>avs. max a 0)" by (rule sum_list_nonneg) auto
    show ?case
    proof (cases "ln_Status l0 = LoanActive")
      case False
      then have "l = l0" "t = 0" using Cons.prems(7) by simp_all
      moreover have "loan_ok (b + 1099511627776 * int (length (a # avs))) l0" using Cons.prems(1) by (auto simp: loan_ok_def)
      ultimately show ?thesis using Cons.prems(2) sum by simp
    next
      case True
      obtain l1 c where c: "collectLoan r pledge l0 a = (l1, c)" by (cases "collectLoan r pledge l0 a")
      obtain t' where t: "loan_run r pledge l1 avs = (l, t')" "t = Taken c + t'" using Cons.prems(7) True c by (auto split: prod.splits)
      have b: "b \<le> 1152921504606846976" "sc_Principal (ln_Schedule l0) + sc_Interest (ln_Schedule l0) \<le> 1099511627776" "a \<le> MaxInt64" "ln_MissedTotal l0 \<le> 1099511627776"
        using Cons.prems s(2) by simp_all
      note S = collectLoan_ok [OF Cons.prems(1) True b(1,2) r b(3) Cons.prems(4) b(4) c]
      have "loan_ok (b + 1099511627776 + 1099511627776 * int (length avs)) l \<and> ln_Schedule l = s \<and> 0 \<le> t' \<and> t' \<le> (\<Sum>a\<leftarrow>avs. max a 0) \<and>
        ln_PrincipalPaid l + ln_InterestPaid l + ln_FeesPaid l = ln_PrincipalPaid l1 + ln_InterestPaid l1 + ln_FeesPaid l1 + t'"
        by (rule Cons.IH) (use S(1,2,6) Cons.prems t(1) in \<open>simp_all add: algebra_simps\<close>)
      then show ?thesis using S(3-5) t(2) by (simp add: algebra_simps)
    qed
  qed
  have avs': "0 + 1099511627776 * int (length avs) \<le> 1152921504606846976" "0 + int (length avs) \<le> 1099511627776" using avs(1) by simp_all
  have G: "loan_ok (0 + 1099511627776 * int (length avs)) l \<and> ln_Schedule l = s \<and> 0 \<le> t \<and> t \<le> (\<Sum>a\<leftarrow>avs. max a 0) \<and>
      ln_PrincipalPaid l + ln_InterestPaid l + ln_FeesPaid l = ln_PrincipalPaid (loan_open s) + ln_InterestPaid (loan_open s) + ln_FeesPaid (loan_open s) + t"
    by (rule g [OF loan_open_ok [OF s(1)] _ avs'(1) _ _ avs(2) run]) (use avs' in \<open>simp_all add: loan_open_def\<close>)
  then have ok: "loan_ok (1099511627776 * int (length avs)) l" "ln_Schedule l = s" by simp_all
  have sp: "0 \<le> sc_Principal s" "0 \<le> sc_Interest s" "1 \<le> sc_Periods s" using s(1) by (simp_all add: sched_ok_def)
  have "0 \<le> rem_p s (ln_PaidPeriods l)" "0 \<le> rem_i s (ln_PaidPeriods l)" using rest_bounds(1) sp ok by (simp_all add: loan_ok_def)
  moreover have "rem_p s (sc_Periods s) = 0" "rem_i s (sc_Periods s) = 0" by (simp_all add: rest_def)
  ultimately show ?thesis using G ok by (auto simp: loan_ok_def loan_open_def split: loan_status.splits)
qed

text \<open>
  C24. The books of a loan balance, however its periods go. Whatever the borrower holds in each of up to a million
  periods, and whatever is taken in collateral, the money taken is exactly what the row says was paid in principal,
  interest and fees, and never more than there was. A repaid loan was paid its principal and interest to the unit
  and owes no fee; on a defaulted one, what was paid, recovered and written off is the principal.
\<close>

theorem loan_books_balance:
  assumes s: "sched_ok s" "sc_Principal s + sc_Interest s \<le> 1099511627776" and r: "0 \<le> lu_LateFeeBPS r" "lu_LateFeeBPS r \<le> FinBPS"
    and avs: "length avs \<le> 1000000" "\<forall>a\<in>set avs. a \<le> MaxInt64" and run: "loan_run r pledge (loan_open s) avs = (l, t)"
  shows "ln_PrincipalPaid l + ln_InterestPaid l + ln_FeesPaid l = t \<and> 0 \<le> t \<and> t \<le> (\<Sum>a\<leftarrow>avs. max a 0) \<and> 0 \<le> ln_FeesPaid l \<and> 0 \<le> ln_FeesDue l \<and>
    ln_PrincipalPaid l \<le> sc_Principal s \<and> ln_InterestPaid l \<le> sc_Interest s \<and> ln_PaidPeriods l + ln_Arrears l \<le> sc_Periods s \<and>
    (ln_Status l = LoanRepaid \<longrightarrow> ln_PrincipalPaid l = sc_Principal s \<and> ln_InterestPaid l = sc_Interest s \<and> ln_FeesDue l = 0) \<and>
    (ln_Status l = LoanDefaulted \<longrightarrow> ln_PrincipalPaid l + ln_Recovered l + ln_WrittenOff l = sc_Principal s \<and> 0 \<le> ln_Recovered l \<and> 0 \<le> ln_WrittenOff l)"
  by (rule loan_books_balance_aux [OF assms])

definition demo_schedule :: schedule where
  "demo_schedule = \<lparr>sc_Principal = 100, sc_Interest = 11, sc_Periods = 3\<rparr>"

theorem loan_books_balance_witness:
  "loan_run \<lparr>lu_LateFeeBPS = 1000, lu_DefaultAfter = 3\<rparr> None (loan_open demo_schedule) [40, 10, 90] =
     (\<lparr>ln_Schedule = demo_schedule, ln_PaidPeriods = 3, ln_Arrears = 0, ln_MissedTotal = 1, ln_PrincipalPaid = 100, ln_InterestPaid = 11, ln_FeesDue = 0,
       ln_FeesPaid = 3, ln_Status = LoanRepaid, ln_Recovered = 0, ln_WrittenOff = 0\<rparr>, 114) \<and> (114::int) \<le> 40 + 10 + 90"
proof -
  have e: "loan_run \<lparr>lu_LateFeeBPS = 1000, lu_DefaultAfter = 3\<rparr> None (loan_open demo_schedule) [40, 10, 90] =
     (\<lparr>ln_Schedule = demo_schedule, ln_PaidPeriods = 3, ln_Arrears = 0, ln_MissedTotal = 1, ln_PrincipalPaid = 100, ln_InterestPaid = 11, ln_FeesDue = 0,
       ln_FeesPaid = 3, ln_Status = LoanRepaid, ln_Recovered = 0, ln_WrittenOff = 0\<rparr>, 114)" by code_simp
  from loan_books_balance [OF _ _ _ _ _ _ e] e show ?thesis by (simp add: sched_ok_def demo_schedule_def)
qed


text \<open>
  C25. A borrower who has each instalment when it falls due pays exactly what was agreed. After as many periods as the
  loan has instalments it is repaid: principal and interest to the unit, no fee, nothing missed, on any terms of
  collection.
\<close>

theorem loan_paid_off:
  assumes s: "sched_ok s" "sc_Principal s + sc_Interest s \<le> 1099511627776" and r: "0 \<le> lu_LateFeeBPS r" "lu_LateFeeBPS r \<le> FinBPS"
    and avs: "length avs = nat (sc_Periods s)" "\<forall>i<length avs. Schedule_Amount s (int i + 1) \<le> avs ! i \<and> avs ! i \<le> MaxInt64"
    and run: "loan_run r pledge (loan_open s) avs = (l, t)"
  shows "ln_Status l = LoanRepaid \<and> t = sc_Principal s + sc_Interest s \<and> ln_PrincipalPaid l = sc_Principal s \<and> ln_InterestPaid l = sc_Interest s \<and>
    ln_FeesPaid l = 0 \<and> ln_MissedTotal l = 0"
proof -
  have g: "ln_Status l = LoanRepaid \<and> ln_FeesPaid l = 0 \<and> ln_MissedTotal l = 0"
    if "loan_ok b l0" "ln_Schedule l0 = s" "b + 1099511627776 * int (length avs) \<le> 1152921504606846976" "ln_Status l0 = LoanActive" "ln_Arrears l0 = 0" "ln_FeesDue l0 = 0"
      "ln_FeesPaid l0 = 0" "ln_MissedTotal l0 = 0" "int (length avs) = sc_Periods s - ln_PaidPeriods l0" "avs \<noteq> []"
      "\<forall>i<length avs. Schedule_Amount s (ln_PaidPeriods l0 + int i + 1) \<le> avs ! i \<and> avs ! i \<le> MaxInt64" "loan_run r pledge l0 avs = (l, t)" for b l0
    using that
  proof (induction avs arbitrary: b l0 t)
    case Nil
    then show ?case by simp
  next
    case (Cons a avs)
    obtain l1 c where c: "collectLoan r pledge l0 a = (l1, c)" by (cases "collectLoan r pledge l0 a")
    obtain t' where t: "loan_run r pledge l1 avs = (l, t')" using Cons.prems(4,12) c by (auto split: prod.splits)
    have b: "b \<le> 1152921504606846976" "sc_Principal (ln_Schedule l0) + sc_Interest (ln_Schedule l0) \<le> 1099511627776"
      "a \<le> MaxInt64" "0 \<le> ln_MissedTotal l0" "ln_MissedTotal l0 \<le> 1099511627776" "Schedule_Amount s (ln_PaidPeriods l0 + 1) \<le> a"
      using Cons.prems s(2) Cons.prems(11) [rule_format, of 0] by simp_all
    have lt: "ln_PaidPeriods l0 < sc_Periods (ln_Schedule l0)" using Cons.prems(2,9) by simp
    note S = collectLoan_ok [OF Cons.prems(1,4) b(1,2) r b(3-5) c]
    have n: "ln_PaidPeriods l1 = ln_PaidPeriods l0 + 1 \<and> ln_Arrears l1 = 0 \<and> ln_FeesDue l1 = 0 \<and> ln_MissedTotal l1 = ln_MissedTotal l0 \<and> ln_FeesPaid l1 = ln_FeesPaid l0 \<and>
      ln_Status l1 = (if ln_PaidPeriods l0 + 1 = sc_Periods (ln_Schedule l0) then LoanRepaid else LoanActive)"
      by (rule S(7)) (use Cons.prems(2,5,6) lt b(6) in simp_all)
    show ?case
    proof (cases "avs = []")
      case True
      then have "l = l1" using t by simp
      then show ?thesis using n Cons.prems(2,7-9) True by simp
    next
      case False
      have "\<forall>i<length avs. Schedule_Amount s (ln_PaidPeriods l1 + int i + 1) \<le> avs ! i \<and> avs ! i \<le> MaxInt64"
      proof (intro allI impI)
        fix i assume "i < length avs"
        then show "Schedule_Amount s (ln_PaidPeriods l1 + int i + 1) \<le> avs ! i \<and> avs ! i \<le> MaxInt64"
          using Cons.prems(11) [rule_format, of "Suc i"] n by (simp add: algebra_simps)
      qed
      moreover have "0 < length avs" using False by simp
      then have "ln_PaidPeriods l0 + 1 \<noteq> sc_Periods (ln_Schedule l0)" using Cons.prems(2,9) by (cases avs) auto
      ultimately show ?thesis
        using n Cons.prems S(2) by (intro Cons.IH [OF S(1) _ _ _ _ _ _ _ _ False _ t]) (simp_all add: algebra_simps)
    qed
  qed
  have sp: "1 \<le> sc_Periods s" "sc_Periods s \<le> 10000" using s(1) by (simp_all add: sched_ok_def)
  have e: "ln_Status l = LoanRepaid \<and> ln_FeesPaid l = 0 \<and> ln_MissedTotal l = 0"
    by (rule g [OF loan_open_ok [OF s(1)] _ _ _ _ _ _ _ _ _ _ run]) (use avs sp in \<open>auto simp: loan_open_def add.commute\<close>)
  have "length avs \<le> 1000000" "\<forall>a\<in>set avs. a \<le> MaxInt64" using avs sp by (auto simp: in_set_conv_nth)
  from loan_books_balance_aux [OF s r this run] e show ?thesis by auto
qed

theorem loan_paid_off_witness:
  "snd (loan_run \<lparr>lu_LateFeeBPS = 1000, lu_DefaultAfter = 3\<rparr> None (loan_open demo_schedule) [40, 36, 500]) = 111"
proof -
  obtain l t where r: "loan_run \<lparr>lu_LateFeeBPS = 1000, lu_DefaultAfter = 3\<rparr> None (loan_open demo_schedule) [40, 36, 500] = (l, t)"
    by (cases "loan_run \<lparr>lu_LateFeeBPS = 1000, lu_DefaultAfter = 3\<rparr> None (loan_open demo_schedule) [40, 36, 500]")
  have "\<forall>i<length [40, 36, 500 :: int]. Schedule_Amount demo_schedule (int i + 1) \<le> [40, 36, 500] ! i \<and> [40, 36, 500 :: int] ! i \<le> MaxInt64"
  proof (intro allI impI)
    fix i :: nat assume "i < length [40, 36, 500 :: int]"
    then have "i = 0 \<or> i = 1 \<or> i = 2" by auto
    moreover have "Schedule_Amount demo_schedule 1 = 36" "Schedule_Amount demo_schedule 2 = 36" "Schedule_Amount demo_schedule 3 = 39" by code_simp+
    ultimately show "Schedule_Amount demo_schedule (int i + 1) \<le> [40, 36, 500] ! i \<and> [40, 36, 500] ! i \<le> MaxInt64" by auto
  qed
  note av = this
  have "ln_Status l = LoanRepaid \<and> t = sc_Principal demo_schedule + sc_Interest demo_schedule \<and> ln_PrincipalPaid l = sc_Principal demo_schedule \<and>
      ln_InterestPaid l = sc_Interest demo_schedule \<and> ln_FeesPaid l = 0 \<and> ln_MissedTotal l = 0"
    by (rule loan_paid_off [OF _ _ _ _ _ av r]) (simp_all add: sched_ok_def demo_schedule_def)
  then show ?thesis unfolding r snd_conv by (simp add: demo_schedule_def)
qed


section \<open>Other amounts\<close>

text \<open>Paying a loan off at once takes all that is left, and nothing when the purse does not hold it.\<close>

lemma Payoff_exact:
  assumes "loan_ok b l" "ln_Status l = LoanActive" "b \<le> 1152921504606846976"
  shows "Payoff (loan_State l) = Some (sc_Principal (ln_Schedule l) - ln_PrincipalPaid l, sc_Interest (ln_Schedule l) - ln_InterestPaid l, ln_FeesDue l)"
  using assms by (simp add: Payoff_def loan_State_def Remaining_exact loan_ok_def)

lemma loan_Repay_exact:
  assumes "loan_ok b l" "ln_Status l = LoanActive" "b \<le> 1152921504606846976" "loan_Repay l purse = Some (l', taken)"
  shows "(l' = l \<and> taken = 0 \<or> ln_Status l' = LoanRepaid \<and> ln_PrincipalPaid l' = sc_Principal (ln_Schedule l) \<and> ln_InterestPaid l' = sc_Interest (ln_Schedule l) \<and>
      ln_FeesPaid l' = ln_FeesPaid l + ln_FeesDue l \<and>
      taken = (sc_Principal (ln_Schedule l) - ln_PrincipalPaid l) + (sc_Interest (ln_Schedule l) - ln_InterestPaid l) + ln_FeesDue l \<and> taken \<le> purse)"
proof -
  define s where "s = ln_Schedule l"
  have ok: "sched_ok s" "0 \<le> ln_PaidPeriods l" "0 \<le> ln_FeesDue l" "0 \<le> ln_FeesPaid l" "ln_FeesDue l + ln_FeesPaid l \<le> b"
    "ln_PrincipalPaid l = sc_Principal s - rem_p s (ln_PaidPeriods l)" "ln_InterestPaid l = sc_Interest s - rem_i s (ln_PaidPeriods l)"
    using assms(1) by (simp_all add: loan_ok_def s_def)
  have sp: "0 \<le> sc_Principal s" "0 \<le> sc_Interest s" "1 \<le> sc_Periods s" "sc_Principal s + sc_Interest s \<le> 4611686018427387904" using ok(1) by (simp_all add: sched_ok_def)
  have rb: "0 \<le> rem_p s (ln_PaidPeriods l)" "rem_p s (ln_PaidPeriods l) \<le> sc_Principal s" "0 \<le> rem_i s (ln_PaidPeriods l)" "rem_i s (ln_PaidPeriods l) \<le> sc_Interest s"
    using rest_bounds [OF sp(1,3) ok(2)] rest_bounds [OF sp(2,3) ok(2)] by simp_all
  have p: "Payoff (loan_State l) = Some (rem_p s (ln_PaidPeriods l), rem_i s (ln_PaidPeriods l), ln_FeesDue l)"
    using Payoff_exact [OF assms(1-3)] ok(6,7) by (simp add: s_def)
  have sum: "add64 (add64 (rem_p s (ln_PaidPeriods l)) (rem_i s (ln_PaidPeriods l))) (ln_FeesDue l) = rem_p s (ln_PaidPeriods l) + rem_i s (ln_PaidPeriods l) + ln_FeesDue l"
    using rb sp ok(3-5) assms(3) by (simp add: add64_def wrap64_nonneg)
  have adds: "add64 (sc_Principal s - rem_p s (ln_PaidPeriods l)) (rem_p s (ln_PaidPeriods l)) = sc_Principal s"
    "add64 (sc_Interest s - rem_i s (ln_PaidPeriods l)) (rem_i s (ln_PaidPeriods l)) = sc_Interest s"
    "add64 (ln_FeesPaid l) (ln_FeesDue l) = ln_FeesPaid l + ln_FeesDue l"
    using rb sp ok(3-7) assms(3) by (simp_all add: add64_def wrap64_nonneg)
  show ?thesis
    using assms(4) ok(6,7) by (auto simp: loan_Repay_def assms(2) p sum loan_repay_def adds s_def [symmetric] split: if_splits)
qed

text \<open>A bank keeps its reserve: what it may lend leaves the reserved share of everything it owns.\<close>

lemma Lendable_keeps_reserve:
  assumes "0 \<le> bal" "0 \<le> outstanding" "bal + outstanding \<le> MaxInt64" "0 \<le> b" "b \<le> FinBPS" "0 < lent" "lent \<le> Lendable bal outstanding b"
  shows "(bal + outstanding) * b div FinBPS \<le> bal - lent"
proof -
  have "add64 (max bal 0) (max outstanding 0) = bal + outstanding" using assms by (simp add: add64_def wrap64_nonneg)
  moreover have "fin_clamp b 0 FinBPS = b" using assms by (simp add: fin_clamp_def)
  moreover note O = OfBPS_exact [of "bal + outstanding" b]
  ultimately have "Lendable bal outstanding b = max (bal - OfBPS (bal + outstanding) b) 0"
    using assms by (simp add: Lendable_def Let_def sub64_def wrap64_id')
  then show ?thesis using assms O by simp
qed

lemma Recovery_bounded: "0 \<le> outstanding \<Longrightarrow> 0 \<le> payer \<Longrightarrow> 0 \<le> Recovery outstanding v b payer \<and> Recovery outstanding v b payer \<le> outstanding \<and> Recovery outstanding v b payer \<le> payer"
  by (auto simp: Recovery_def)

end
