(* ===== verification/Charter.thy ===== *)
theory Charter
  imports Go_Base
begin

text \<open>
  \<^verbatim>\<open>internal/domain/charter\<close>: the constitution of a settlement. The catalogue of permissions, the grants of an
  office with their limits, the order in which one grant covers another, and the rails: nobody grants what they do
  not hold, an office manager remains, sizes are capped, some powers stay apart. \<open>Held\<close> maps, the power of a set of
  offices, are ordered by cover; \<open>HeldBy\<close> is the least upper bound and \<open>CanGrant\<close> the order itself. Then the numbers
  of ballots (\<^verbatim>\<open>ballot.go\<close>): thresholds, quorums, structural changes, and who acts for a vacant head.
  Titles are lists of code points; \<open>lower\<close> is \<^verbatim>\<open>strings.ToLower\<close>, whose Unicode tables are a parameter.
\<close>

section \<open>The catalogue\<close>

text \<open>A permission is its code.\<close>

abbreviation TreasurySpend :: string where "TreasurySpend \<equiv> ''treasury.spend''"
abbreviation PayrollSet :: string where "PayrollSet \<equiv> ''payroll.set''"
abbreviation BudgetAlloc :: string where "BudgetAlloc \<equiv> ''budget.allocate''"
abbreviation StorageTake :: string where "StorageTake \<equiv> ''storage.take''"
abbreviation FiscalSalesTax :: string where "FiscalSalesTax \<equiv> ''fiscal.set:sales_tax''"
abbreviation FiscalShopPrice :: string where "FiscalShopPrice \<equiv> ''fiscal.set:shop_price''"
abbreviation FiscalMarketFee :: string where "FiscalMarketFee \<equiv> ''fiscal.set:market_fee''"
abbreviation FiscalLevy :: string where "FiscalLevy \<equiv> ''fiscal.set:levy''"
abbreviation RoadDraw :: string where "RoadDraw \<equiv> ''road.draw''"
abbreviation LandClear :: string where "LandClear \<equiv> ''land.clear''"
abbreviation FarmSow :: string where "FarmSow \<equiv> ''farm.sow''"
abbreviation MillToll :: string where "MillToll \<equiv> ''mill.toll''"
abbreviation LandClaim :: string where "LandClaim \<equiv> ''land.claim''"
abbreviation ZoneOpen :: string where "ZoneOpen \<equiv> ''zone.open''"
abbreviation ZoneClose :: string where "ZoneClose \<equiv> ''zone.close''"
abbreviation LotSell :: string where "LotSell \<equiv> ''lot.sell''"
abbreviation PublicBuild :: string where "PublicBuild \<equiv> ''public.build''"
abbreviation PublicDemolish :: string where "PublicDemolish \<equiv> ''public.demolish''"
abbreviation CitizenAdmit :: string where "CitizenAdmit \<equiv> ''citizen.admit''"
abbreviation CitizenBan :: string where "CitizenBan \<equiv> ''citizen.ban''"
abbreviation StaffHire :: string where "StaffHire \<equiv> ''staff.hire''"
abbreviation StaffFire :: string where "StaffFire \<equiv> ''staff.fire''"
abbreviation JobsPost :: string where "JobsPost \<equiv> ''jobs.post''"
abbreviation ResearchStart :: string where "ResearchStart \<equiv> ''research.start''"
abbreviation ResearchShare :: string where "ResearchShare \<equiv> ''research.share''"
abbreviation TradeExport :: string where "TradeExport \<equiv> ''trade.export''"
abbreviation PolicePatrol :: string where "PolicePatrol \<equiv> ''police.patrol''"
abbreviation PoliceFine :: string where "PoliceFine \<equiv> ''police.fine''"
abbreviation CourtJudge :: string where "CourtJudge \<equiv> ''court.judge''"
abbreviation PoliceInvestigate :: string where "PoliceInvestigate \<equiv> ''police.investigate''"
abbreviation PoliceArrest :: string where "PoliceArrest \<equiv> ''police.arrest''"
abbreviation PoliceWarrantAsk :: string where "PoliceWarrantAsk \<equiv> ''police.warrant_ask''"
abbreviation PoliceInformantRun :: string where "PoliceInformantRun \<equiv> ''police.informant_run''"
abbreviation ProsecuteCharge :: string where "ProsecuteCharge \<equiv> ''prosecute.charge''"
abbreviation ProsecuteDrop :: string where "ProsecuteDrop \<equiv> ''prosecute.drop''"
abbreviation DefenceAppear :: string where "DefenceAppear \<equiv> ''defence.appear''"
abbreviation CourtWarrant :: string where "CourtWarrant \<equiv> ''court.warrant''"
abbreviation CourtAppealHear :: string where "CourtAppealHear \<equiv> ''court.appeal_hear''"
abbreviation JailRun :: string where "JailRun \<equiv> ''jail.run''"
abbreviation Pardon :: string where "Pardon \<equiv> ''pardon''"
abbreviation AuditIntegrity :: string where "AuditIntegrity \<equiv> ''audit.integrity''"
abbreviation AuditBooks :: string where "AuditBooks \<equiv> ''audit.books''"
abbreviation CustomsInspect :: string where "CustomsInspect \<equiv> ''customs.inspect''"
abbreviation LawSet :: string where "LawSet \<equiv> ''law.set''"
abbreviation ElectionCall :: string where "ElectionCall \<equiv> ''election.call''"
abbreviation OfficeCreate :: string where "OfficeCreate \<equiv> ''office.create''"
abbreviation OfficeEdit :: string where "OfficeEdit \<equiv> ''office.edit''"
abbreviation OfficeAppoint :: string where "OfficeAppoint \<equiv> ''office.appoint''"
abbreviation OfficeDismiss :: string where "OfficeDismiss \<equiv> ''office.dismiss''"
abbreviation CharterAmend :: string where "CharterAmend \<equiv> ''charter.amend''"
abbreviation TreatyPropose :: string where "TreatyPropose \<equiv> ''treaty.propose''"
abbreviation UnionPropose :: string where "UnionPropose \<equiv> ''union.propose''"
abbreviation UnionRatify :: string where "UnionRatify \<equiv> ''union.ratify''"
abbreviation UnionAdmit :: string where "UnionAdmit \<equiv> ''union.admit''"
abbreviation UnionExpel :: string where "UnionExpel \<equiv> ''union.expel''"
abbreviation TreatySign :: string where "TreatySign \<equiv> ''treaty.sign''"
abbreviation TreatyEnd :: string where "TreatyEnd \<equiv> ''treaty.end''"
abbreviation WarDeclare :: string where "WarDeclare \<equiv> ''war.declare''"
abbreviation WarPeace :: string where "WarPeace \<equiv> ''war.peace''"
abbreviation BorderClose :: string where "BorderClose \<equiv> ''border.close''"
abbreviation CustomsSet :: string where "CustomsSet \<equiv> ''customs.set''"
abbreviation SanctionImpose :: string where "SanctionImpose \<equiv> ''sanction.impose''"
abbreviation MilitaryCommand :: string where "MilitaryCommand \<equiv> ''military.command''"
abbreviation MilitaryProcure :: string where "MilitaryProcure \<equiv> ''military.procure''"
abbreviation MilitaryLicence :: string where "MilitaryLicence \<equiv> ''military.licence''"
abbreviation DebtBorrow :: string where "DebtBorrow \<equiv> ''debt.borrow''"
abbreviation DebtLend :: string where "DebtLend \<equiv> ''debt.lend''"
abbreviation DebtRestructure :: string where "DebtRestructure \<equiv> ''debt.restructure''"
abbreviation WorksTender :: string where "WorksTender \<equiv> ''works.tender''"
abbreviation WorksAccept :: string where "WorksAccept \<equiv> ''works.accept''"
abbreviation RaidDeclare :: string where "RaidDeclare \<equiv> ''raid.declare''"
abbreviation InsuranceRun :: string where "InsuranceRun \<equiv> ''insurance.run''"
abbreviation MineRun :: string where "MineRun \<equiv> ''mine.run''"
abbreviation RailDraw :: string where "RailDraw \<equiv> ''rail.draw''"
abbreviation HaulOrder :: string where "HaulOrder \<equiv> ''haul.order''"
abbreviation ProjectStart :: string where "ProjectStart \<equiv> ''project.start''"
abbreviation ProjectFund :: string where "ProjectFund \<equiv> ''project.fund''"
abbreviation ProjectAccept :: string where "ProjectAccept \<equiv> ''project.accept''"
abbreviation IntelRun :: string where "IntelRun \<equiv> ''intel.run''"
abbreviation IntelRead :: string where "IntelRead \<equiv> ''intel.read''"
abbreviation IntelShare :: string where "IntelShare \<equiv> ''intel.share''"
abbreviation CounterVet :: string where "CounterVet \<equiv> ''counter.vet''"
abbreviation LicenceSetKind :: string where "LicenceSetKind \<equiv> ''licence.set_kind''"
abbreviation LicenceIssue :: string where "LicenceIssue \<equiv> ''licence.issue''"
abbreviation LicenceAuction :: string where "LicenceAuction \<equiv> ''licence.auction''"
abbreviation LicenceRevoke :: string where "LicenceRevoke \<equiv> ''licence.revoke''"
abbreviation NoticePost :: string where "NoticePost \<equiv> ''notice.post''"
abbreviation SettingsTimezone :: string where "SettingsTimezone \<equiv> ''settings.timezone''"
abbreviation CurrencyCharter :: string where "CurrencyCharter \<equiv> ''currency.charter''"
abbreviation CurrencyIssue :: string where "CurrencyIssue \<equiv> ''currency.issue''"
abbreviation BankPolicy :: string where "BankPolicy \<equiv> ''bank.policy''"

datatype perm_def = perm_def (pd_Code: string) (pd_Group: string) (pd_Limited: bool) (pd_Active: bool)

definition catalogue :: "perm_def list" where
  "catalogue =
    [perm_def TreasurySpend ''treasury'' True True,
     perm_def PayrollSet ''treasury'' True False,
     perm_def BudgetAlloc ''treasury'' False False,
     perm_def StorageTake ''treasury'' False True,
     perm_def FiscalSalesTax ''fiscal'' False True,
     perm_def FiscalShopPrice ''fiscal'' False True,
     perm_def FiscalMarketFee ''fiscal'' False False,
     perm_def FiscalLevy ''fiscal'' False False,
     perm_def RoadDraw ''land'' False True,
     perm_def LandClear ''land'' False True,
     perm_def FarmSow ''land'' False True,
     perm_def MillToll ''fiscal'' False True,
     perm_def ZoneOpen ''land'' False True,
     perm_def ZoneClose ''land'' False True,
     perm_def LandClaim ''land'' False True,
     perm_def LotSell ''land'' False True,
     perm_def PublicBuild ''land'' False True,
     perm_def PublicDemolish ''land'' False True,
     perm_def CitizenAdmit ''people'' False True,
     perm_def CitizenBan ''people'' False False,
     perm_def StaffHire ''people'' False True,
     perm_def StaffFire ''people'' False True,
     perm_def JobsPost ''people'' False True,
     perm_def ResearchStart ''knowledge'' False True,
     perm_def ResearchShare ''knowledge'' False True,
     perm_def TradeExport ''treasury'' False True,
     perm_def PolicePatrol ''order'' False True,
     perm_def PoliceFine ''order'' True True,
     perm_def CourtJudge ''order'' True True,
     perm_def PoliceInvestigate ''order'' False True,
     perm_def PoliceArrest ''order'' False True,
     perm_def PoliceWarrantAsk ''order'' False True,
     perm_def PoliceInformantRun ''order'' False True,
     perm_def ProsecuteCharge ''order'' False True,
     perm_def ProsecuteDrop ''order'' False True,
     perm_def DefenceAppear ''order'' False True,
     perm_def CourtWarrant ''order'' False True,
     perm_def CourtAppealHear ''order'' False True,
     perm_def JailRun ''order'' False True,
     perm_def Pardon ''order'' False True,
     perm_def AuditIntegrity ''order'' False True,
     perm_def AuditBooks ''order'' False True,
     perm_def CustomsInspect ''order'' False True,
     perm_def LawSet ''order'' False True,
     perm_def ElectionCall ''politics'' False False,
     perm_def OfficeCreate ''politics'' False True,
     perm_def OfficeEdit ''politics'' False True,
     perm_def OfficeAppoint ''politics'' False True,
     perm_def OfficeDismiss ''politics'' False True,
     perm_def CharterAmend ''politics'' False True,
     perm_def TreatyPropose ''foreign'' False True,
     perm_def UnionPropose ''foreign'' False True,
     perm_def UnionRatify ''foreign'' False True,
     perm_def UnionAdmit ''foreign'' False True,
     perm_def UnionExpel ''foreign'' False True,
     perm_def TreatySign ''foreign'' False True,
     perm_def TreatyEnd ''foreign'' False True,
     perm_def WarDeclare ''foreign'' False True,
     perm_def WarPeace ''foreign'' False True,
     perm_def BorderClose ''foreign'' False False,
     perm_def CustomsSet ''foreign'' False False,
     perm_def SanctionImpose ''foreign'' False True,
     perm_def MilitaryCommand ''defence'' False True,
     perm_def MilitaryProcure ''defence'' True True,
     perm_def MilitaryLicence ''defence'' False True,
     perm_def DebtBorrow ''money'' True True,
     perm_def DebtLend ''money'' True True,
     perm_def DebtRestructure ''money'' False True,
     perm_def WorksTender ''works'' True True,
     perm_def WorksAccept ''works'' False True,
     perm_def RaidDeclare ''foreign'' False True,
     perm_def InsuranceRun ''treasury'' False True,
     perm_def MineRun ''land'' False True,
     perm_def RailDraw ''land'' False True,
     perm_def HaulOrder ''treasury'' False True,
     perm_def ProjectStart ''works'' False True,
     perm_def ProjectFund ''works'' True True,
     perm_def ProjectAccept ''works'' False True,
     perm_def IntelRun ''intel'' False True,
     perm_def IntelRead ''intel'' False True,
     perm_def IntelShare ''intel'' False True,
     perm_def CounterVet ''intel'' False True,
     perm_def LicenceSetKind ''licence'' False True,
     perm_def LicenceIssue ''licence'' False True,
     perm_def LicenceAuction ''licence'' False True,
     perm_def LicenceRevoke ''licence'' False True,
     perm_def NoticePost ''info'' False False,
     perm_def SettingsTimezone ''settings'' False True,
     perm_def CurrencyCharter ''currency'' False True,
     perm_def CurrencyIssue ''currency'' False True,
     perm_def BankPolicy ''currency'' False True]"

definition Lookup :: "string \<Rightarrow> perm_def option" where
  "Lookup p = find (\<lambda>d. pd_Code d = p) catalogue"

definition UnionOnly :: "string \<Rightarrow> bool" where
  "UnionOnly p \<longleftrightarrow> p \<in> set [UnionAdmit, UnionExpel, WarDeclare, WarPeace, BorderClose, CustomsSet, SanctionImpose,
     MilitaryCommand, MilitaryProcure, MilitaryLicence]"

record grant =
  gt_Permission :: string
  gt_Limit :: int

definition AllPermissions :: "grant list" where
  "AllPermissions = map (\<lambda>d. \<lparr>gt_Permission = pd_Code d, gt_Limit = 0\<rparr>) (filter (\<lambda>d. \<not> UnionOnly (pd_Code d)) catalogue)"

definition AllUnionPermissions :: "grant list" where
  "AllUnionPermissions = map (\<lambda>d. \<lparr>gt_Permission = pd_Code d, gt_Limit = 0\<rparr>) catalogue"

section \<open>Offices\<close>

datatype acquisition = AcquireHead | AcquireAppointment | AcquireElection | AcquireOther string

record office =
  of_ID :: string
  of_Title :: "rune list"
  of_Seats :: int
  of_Grants :: "grant list"
  of_Acquisition :: acquisition
  of_AppointerID :: string
  of_TermDays :: int
  of_Deputy :: bool
  of_Closed :: bool

record charter_limits =
  lim_Inquisitorial :: bool
  lim_MaxOffices :: int
  lim_MaxSeats :: int
  lim_MaxPermissions :: int
  lim_TitleMin :: int
  lim_TitleMax :: int
  lim_Reserved :: "rune list list"

datatype charter_error = ErrTitle | ErrTitleTaken | ErrCaps | ErrUnknownGrant | ErrLimitless | ErrNotHeld | ErrLastManager | ErrHeadOffice
  | ErrAcquisition | ErrSeatsFull | ErrAlreadySeated | ErrOfficeClosed | ErrSeparation

section \<open>Titles\<close>

definition ascii :: "string \<Rightarrow> rune list" where
  "ascii s = map of_char s"

definition reserved_titles :: "rune list list" where
  "reserved_titles = [ascii ''admin'', ascii ''operator'', ascii ''support'', ascii ''system'']"

text \<open>\<^verbatim>\<open>strings.Fields\<close> and \<^verbatim>\<open>strings.Join\<close> with a blank.\<close>

fun fields :: "rune list \<Rightarrow> rune list \<Rightarrow> rune list list" where
  "fields word [] = (if word = [] then [] else [word])"
| "fields word (r # rs) =
     (if unicode_IsSpace r then (if word = [] then fields [] rs else word # fields [] rs) else fields (word @ [r]) rs)"

fun join_blank :: "rune list list \<Rightarrow> rune list" where
  "join_blank [] = []"
| "join_blank [w] = w"
| "join_blank (w # ws) = w @ [32] @ join_blank ws"

definition ValidateTitle :: "(rune list \<Rightarrow> rune list) \<Rightarrow> rune list \<Rightarrow> rune list list \<Rightarrow> charter_limits \<Rightarrow> charter_error + rune list" where
  "ValidateTitle lower title taken l =
     (let t = join_blank (fields [] title); n = int (length t); low = lower t in
      if n < lim_TitleMin l \<or> n > lim_TitleMax l then Inl ErrTitle
      else if low \<in> set (map (\<lambda>r. lower (TrimSpace r)) (reserved_titles @ lim_Reserved l)) then Inl ErrTitle
      else if low \<in> set (map lower taken) then Inl ErrTitleTaken
      else Inr t)"

section \<open>Grants and their cover\<close>

definition Covers :: "int \<Rightarrow> int \<Rightarrow> bool" where
  "Covers have want \<longleftrightarrow> have = 0 \<or> want \<noteq> 0 \<and> have \<ge> want"

text \<open>\<open>best\<close> is a map of the code; here the grants it holds, one for a permission.\<close>

definition best_of :: "grant \<Rightarrow> grant list \<Rightarrow> grant list" where
  "best_of g best =
     (case find (\<lambda>b. gt_Permission b = gt_Permission g) best of
        None \<Rightarrow> best @ [g]
      | Some old \<Rightarrow> if Covers (gt_Limit g) (gt_Limit old) then map (\<lambda>b. if gt_Permission b = gt_Permission g then g else b) best else best)"

fun normalise_loop :: "grant list \<Rightarrow> grant list \<Rightarrow> charter_error + grant list" where
  "normalise_loop best [] = Inr best"
| "normalise_loop best (g # gs) =
     (case Lookup (gt_Permission g) of
        None \<Rightarrow> Inl ErrUnknownGrant
      | Some d \<Rightarrow>
          if gt_Limit g < 0 \<or> gt_Limit g > 0 \<and> \<not> pd_Limited d then Inl ErrLimitless
          else normalise_loop (best_of g best) gs)"

definition NormaliseGrants :: "grant list \<Rightarrow> charter_error + grant list" where
  "NormaliseGrants gs =
     (case normalise_loop [] gs of
        Inl e \<Rightarrow> Inl e
      | Inr best \<Rightarrow> Inr (sort_by (\<lambda>a b. gt_Permission a < gt_Permission b) best))"

definition NormaliseGrantsForSettlement :: "grant list \<Rightarrow> charter_error + grant list" where
  "NormaliseGrantsForSettlement gs = (if \<exists>g\<in>set gs. UnionOnly (gt_Permission g) then Inl ErrUnknownGrant else NormaliseGrants gs)"

type_synonym held = "string \<rightharpoonup> int"

definition hold_grant :: "held \<Rightarrow> grant \<Rightarrow> held" where
  "hold_grant h g =
     (case h (gt_Permission g) of
        None \<Rightarrow> h(gt_Permission g \<mapsto> gt_Limit g)
      | Some old \<Rightarrow> if Covers (gt_Limit g) old then h(gt_Permission g \<mapsto> gt_Limit g) else h)"

definition HeldBy :: "grant list list \<Rightarrow> held" where
  "HeldBy offices = foldl (foldl hold_grant) Map.empty offices"

definition Held_Has :: "held \<Rightarrow> string \<Rightarrow> bool" where
  "Held_Has h p \<longleftrightarrow> h p \<noteq> None"

definition CanGrant :: "held \<Rightarrow> grant list \<Rightarrow> charter_error option" where
  "CanGrant h wanted =
     (if \<forall>g\<in>set wanted. (case h (gt_Permission g) of None \<Rightarrow> False | Some have \<Rightarrow> Covers have (gt_Limit g)) then None else Some ErrNotHeld)"

section \<open>The rails\<close>

definition has_perm :: "string \<Rightarrow> grant list \<Rightarrow> bool" where
  "has_perm p gs \<longleftrightarrow> p \<in> gt_Permission ` set gs"

definition ValidateSeparation :: "office \<Rightarrow> bool \<Rightarrow> charter_error option" where
  "ValidateSeparation ofc inquisitorial =
     (if of_Acquisition ofc = AcquireHead then None
      else if has_perm ProsecuteCharge (of_Grants ofc) \<and> has_perm CourtJudge (of_Grants ofc) \<and> \<not> inquisitorial then Some ErrSeparation
      else if has_perm AuditIntegrity (of_Grants ofc) \<and> has_perm PoliceArrest (of_Grants ofc) then Some ErrSeparation
      else None)"

definition ValidateOffice :: "office \<Rightarrow> int \<Rightarrow> charter_limits \<Rightarrow> charter_error option" where
  "ValidateOffice ofc openAfter l =
     (if of_Seats ofc < 1 \<or> of_Seats ofc > lim_MaxSeats l \<or> int (length (of_Grants ofc)) > lim_MaxPermissions l \<or> openAfter > lim_MaxOffices l
      then Some ErrCaps
      else case of_Acquisition ofc of AcquireOther _ \<Rightarrow> Some ErrAcquisition | _ \<Rightarrow> ValidateSeparation ofc (lim_Inquisitorial l))"

definition IsManager :: "grant list \<Rightarrow> bool" where
  "IsManager gs \<longleftrightarrow> has_perm OfficeEdit gs \<and> has_perm CharterAmend gs"

text \<open>An \<open>OfficeState\<close> is an office with whether anyone can act in it.\<close>

definition ManagerGuard :: "(office \<times> bool) list \<Rightarrow> charter_error option" where
  "ManagerGuard offices = (if \<exists>(ofc, held)\<in>set offices. \<not> of_Closed ofc \<and> held \<and> IsManager (of_Grants ofc) then None else Some ErrLastManager)"

definition FoundersOffice :: "string \<Rightarrow> rune list \<Rightarrow> office" where
  "FoundersOffice i title = \<lparr>of_ID = i, of_Title = title, of_Seats = 1, of_Grants = AllPermissions, of_Acquisition = AcquireHead,
     of_AppointerID = '''', of_TermDays = 0, of_Deputy = False, of_Closed = False\<rparr>"

section \<open>Ballots\<close>

datatype ballot_kind = BallotElection | BallotRecall | BallotAmendment
datatype ballot_status = BallotOpen | BallotPassed | BallotFailed | BallotNoResult | BallotCancelled | BallotVoid

record charter_settings =
  cs_ElectionTermDays :: int
  cs_CandidacyHours :: int
  cs_VotingHours :: int
  cs_RecallMinTenureDays :: int
  cs_RecallSignatureBPS :: int
  cs_RecallMinSignatures :: int
  cs_RecallVoteHours :: int
  cs_RecallCooldownDays :: int
  cs_AmendVoteHours :: int
  cs_AmendQuorumBPS :: int
  cs_AmendVoteMinResidents :: int
  cs_ActingDays :: int
  cs_MinResidencyDays :: int
  cs_ActingSpendCap :: int

definition charter_Defaults :: charter_settings where
  "charter_Defaults =
     \<lparr>cs_ElectionTermDays = 14, cs_CandidacyHours = 48, cs_VotingHours = 72, cs_RecallMinTenureDays = 5, cs_RecallSignatureBPS = 2000,
      cs_RecallMinSignatures = 3, cs_RecallVoteHours = 72, cs_RecallCooldownDays = 14, cs_AmendVoteHours = 72, cs_AmendQuorumBPS = 3000,
      cs_AmendVoteMinResidents = 6, cs_ActingDays = 7, cs_MinResidencyDays = 3, cs_ActingSpendCap = 2000\<rparr>"

definition days :: "int \<Rightarrow> duration" where
  "days n = mul64 (mul64 n 24) Hour"

definition hours :: "int \<Rightarrow> duration" where
  "hours n = mul64 n Hour"

datatype election_phase = PhaseCandidacy | PhaseVoting | PhaseClosed

definition PhaseAt :: "charter_settings \<Rightarrow> go_time \<Rightarrow> go_time \<Rightarrow> election_phase" where
  "PhaseAt s opens now =
     (let cand = time_Add opens (hours (cs_CandidacyHours s)) in
      if now < cand then PhaseCandidacy
      else if now < time_Add cand (hours (cs_VotingHours s)) then PhaseVoting
      else PhaseClosed)"

definition ElectionCloses :: "charter_settings \<Rightarrow> go_time \<Rightarrow> go_time" where
  "ElectionCloses s opens = time_Add opens (hours (add64 (cs_CandidacyHours s) (cs_VotingHours s)))"

definition vote_Floor :: "int \<Rightarrow> int \<Rightarrow> int" where
  "vote_Floor eligible floor = (if floor > eligible then eligible else floor)"

definition RecallSignatures :: "charter_settings \<Rightarrow> int \<Rightarrow> int" where
  "RecallSignatures s eligible =
     (let need = quo64 (add64 (mul64 eligible (cs_RecallSignatureBPS s)) 9999) 10000 in
      max (max need (vote_Floor eligible (cs_RecallMinSignatures s))) 1)"

definition RecallTenureOK :: "charter_settings \<Rightarrow> go_time \<Rightarrow> go_time \<Rightarrow> bool" where
  "RecallTenureOK s since now \<longleftrightarrow> \<not> now < time_Add since (days (cs_RecallMinTenureDays s))"

definition RecallCoolingUntil :: "charter_settings \<Rightarrow> go_time \<Rightarrow> go_time" where
  "RecallCoolingUntil s ended = time_Add ended (days (cs_RecallCooldownDays s))"

definition Carries :: "int \<Rightarrow> int \<Rightarrow> int \<Rightarrow> bool" where
  "Carries yes no need \<longleftrightarrow> yes > no \<and> add64 yes no \<ge> need"

definition QuorumVotes :: "charter_settings \<Rightarrow> int \<Rightarrow> int" where
  "QuorumVotes s eligible =
     (let need = quo64 (add64 (mul64 eligible (cs_AmendQuorumBPS s)) 9999) 10000 in
      max (max need (vote_Floor eligible (cs_RecallMinSignatures s))) 1)"

definition NeedsVote :: "charter_settings \<Rightarrow> int \<Rightarrow> bool" where
  "NeedsVote s residents \<longleftrightarrow> residents \<ge> cs_AmendVoteMinResidents s"

definition IsKey :: "string \<Rightarrow> bool" where
  "IsKey p \<longleftrightarrow> p \<in> set [OfficeCreate, OfficeEdit, OfficeAppoint, OfficeDismiss, CharterAmend, ElectionCall, TreasurySpend, SettingsTimezone]"

definition keyGrants :: "grant list \<Rightarrow> held" where
  "keyGrants gs = foldl (\<lambda>h g. if IsKey (gt_Permission g) then h(gt_Permission g \<mapsto> gt_Limit g) else h) Map.empty gs"

text \<open>The two maps are compared on the permissions of either list.\<close>

definition Structural :: "office \<Rightarrow> office \<Rightarrow> bool" where
  "Structural prev next \<longleftrightarrow>
     of_Acquisition prev \<noteq> of_Acquisition next \<or> of_Deputy prev \<noteq> of_Deputy next \<or>
     (\<exists>g\<in>set (of_Grants prev @ of_Grants next). keyGrants (of_Grants prev) (gt_Permission g) \<noteq> keyGrants (of_Grants next) (gt_Permission g))"

definition ClosingNeedsVote :: "office \<Rightarrow> bool" where
  "ClosingNeedsVote ofc \<longleftrightarrow> of_Acquisition ofc = AcquireElection"

definition acting_forbidden :: "string list" where
  "acting_forbidden = [CharterAmend, OfficeCreate, OfficeEdit, OfficeAppoint, OfficeDismiss,
     TreatyPropose, UnionPropose, UnionRatify, UnionAdmit, UnionExpel, TreatySign, TreatyEnd,
     WarDeclare, WarPeace, SanctionImpose, DebtBorrow, DebtLend, DebtRestructure, WorksTender, RaidDeclare, SettingsTimezone, ElectionCall, CurrencyCharter]"

definition capLimit :: "int \<Rightarrow> int \<Rightarrow> int" where
  "capLimit have cap = (if cap \<le> 0 then have else if have = 0 \<or> have > cap then cap else have)"

definition ActingGrants :: "grant list \<Rightarrow> int \<Rightarrow> grant list" where
  "ActingGrants founder spendCap =
     map (\<lambda>g. if gt_Permission g = TreasurySpend then g\<lparr>gt_Limit := capLimit (gt_Limit g) spendCap\<rparr> else g)
       (filter (\<lambda>g. gt_Permission g \<notin> set acting_forbidden) founder)"

section \<open>Who acts for a vacant head\<close>

record seat_info =
  si_PlayerID :: string
  si_OfficeID :: string
  si_Since :: go_time

definition serves_before :: "seat_info \<Rightarrow> seat_info \<Rightarrow> bool" where
  "serves_before a b = (if si_Since a \<noteq> si_Since b then si_Since a < si_Since b else si_PlayerID a < si_PlayerID b)"

definition pick_seat :: "seat_info list \<Rightarrow> string \<Rightarrow> seat_info option" where
  "pick_seat seats only =
     (case sort_by serves_before (filter (\<lambda>s. only = '''' \<or> si_OfficeID s = only) seats) of [] \<Rightarrow> None | s # _ \<Rightarrow> Some s)"

definition ActingHead :: "seat_info list \<Rightarrow> string \<Rightarrow> seat_info option" where
  "ActingHead seats deputyOffice =
     (case (if deputyOffice \<noteq> '''' then pick_seat seats deputyOffice else None) of
        Some s \<Rightarrow> Some s
      | None \<Rightarrow> pick_seat seats '''')"

definition ActingEnds :: "charter_settings \<Rightarrow> go_time \<Rightarrow> go_time" where
  "ActingEnds s vacantSince = time_Add vacantSince (days (cs_ActingDays s))"

text \<open>The seats, the deputy office and the founder's grants that the loop over the offices collects.\<close>

fun acting_loop :: "office list \<Rightarrow> (string \<Rightarrow> seat_info list) \<Rightarrow> seat_info list \<Rightarrow> string \<Rightarrow> grant list \<Rightarrow> seat_info list \<times> string \<times> grant list" where
  "acting_loop [] holders seats deputy founder = (seats, deputy, founder)"
| "acting_loop (ofc # os) holders seats deputy founder =
     (if of_Closed ofc then acting_loop os holders seats deputy founder
      else if of_Acquisition ofc = AcquireHead then acting_loop os holders seats deputy (of_Grants ofc)
      else acting_loop os holders (seats @ holders (of_ID ofc)) (if of_Deputy ofc then of_ID ofc else deputy) founder)"

record acting_head =
  ah_Player :: string
  ah_OfficeID :: string
  ah_Ends :: go_time
  ah_Grants :: "grant list"

definition ActingFor :: "office list \<Rightarrow> (string \<Rightarrow> seat_info list) \<Rightarrow> go_time \<Rightarrow> charter_settings \<Rightarrow> go_time \<Rightarrow> acting_head option" where
  "ActingFor offices holders headSince cset now =
     (let ends = ActingEnds cset headSince in
      if time_IsZero headSince \<or> \<not> now < ends then None
      else case acting_loop offices holders [] '''' [] of
        (seats, deputy, founder) \<Rightarrow>
          (case ActingHead seats deputy of
             None \<Rightarrow> None
           | Some s \<Rightarrow> Some \<lparr>ah_Player = si_PlayerID s, ah_OfficeID = si_OfficeID s, ah_Ends = ends,
               ah_Grants = ActingGrants founder (cs_ActingSpendCap cset)\<rparr>))"


section \<open>Cover is a linear order with no ceiling at the top\<close>

definition limit_le :: "int \<Rightarrow> int \<Rightarrow> bool" where
  "limit_le a b \<longleftrightarrow> Covers b a"

definition limit_less :: "int \<Rightarrow> int \<Rightarrow> bool" where
  "limit_less a b \<longleftrightarrow> Covers b a \<and> a \<noteq> b"

interpretation limits: linorder limit_le limit_less
  by unfold_locales (auto simp: limit_le_def limit_less_def Covers_def)

lemmas cover_refl [simp] = limits.order.refl [unfolded limit_le_def]
  and cover_trans = limits.order_trans [unfolded limit_le_def]
  and cover_antisym = limits.order_antisym [unfolded limit_le_def]
  and cover_linear = limits.linear [unfolded limit_le_def]

text \<open>What one set of powers allows, another allows as widely.\<close>

definition held_le :: "held \<Rightarrow> held \<Rightarrow> bool" where
  "held_le h h' \<longleftrightarrow> (\<forall>p l. h p = Some l \<longrightarrow> (\<exists>l'. h' p = Some l' \<and> Covers l' l))"

definition held_grant :: "held \<Rightarrow> grant \<Rightarrow> bool" where
  "held_grant h g \<longleftrightarrow> (\<exists>l. h (gt_Permission g) = Some l \<and> Covers l (gt_Limit g))"

lemma held_le_refl [simp, intro]: "held_le h h"
  by (auto simp: held_le_def)

lemma held_le_empty [simp]: "held_le Map.empty h"
  by (simp add: held_le_def)

lemma held_le_trans [trans]: "held_le a b \<Longrightarrow> held_le b c \<Longrightarrow> held_le a c"
  unfolding held_le_def by (meson cover_trans)

lemma held_le_antisym: "held_le a b \<Longrightarrow> held_le b a \<Longrightarrow> a = b"
  unfolding held_le_def by (rule ext) (metis cover_antisym not_None_eq option.inject)

lemma held_grant_mono: "held_grant h g \<Longrightarrow> held_le h h' \<Longrightarrow> held_grant h' g"
  unfolding held_grant_def held_le_def by (meson cover_trans)

lemma hold_grant_self: "held_grant (hold_grant h g) g"
  using cover_linear [of "gt_Limit g" "the (h (gt_Permission g))"] by (auto simp: held_grant_def hold_grant_def split: option.splits)

lemma hold_grant_above: "held_le h (hold_grant h g)"
  by (auto simp: held_le_def hold_grant_def split: option.splits)

lemma hold_grant_least: "held_le h h' \<Longrightarrow> held_grant h' g \<Longrightarrow> held_le (hold_grant h g) h'"
  by (auto simp: held_le_def hold_grant_def held_grant_def split: option.splits if_splits)

lemma foldl_hold:
  "held_le (foldl hold_grant h gs) h' \<longleftrightarrow> held_le h h' \<and> (\<forall>g\<in>set gs. held_grant h' g)"
proof (induction gs arbitrary: h)
  case Nil
  then show ?case by simp
next
  case (Cons g gs)
  have "held_le (hold_grant h g) h' \<longleftrightarrow> held_le h h' \<and> held_grant h' g"
    using hold_grant_above [of h g] hold_grant_self [of h g] hold_grant_least [of h h' g] by (meson held_grant_mono held_le_trans)
  with Cons show ?case by auto
qed

lemma foldl_foldl_hold:
  "held_le (foldl (foldl hold_grant) h gss) h' \<longleftrightarrow> held_le h h' \<and> (\<forall>gs\<in>set gss. \<forall>g\<in>set gs. held_grant h' g)"
  by (induction gss arbitrary: h) (auto simp: foldl_hold)

text \<open>\<open>HeldBy\<close> is the least set of powers with every grant, so \<open>CanGrant\<close> is the order.\<close>

lemma HeldBy_least: "held_le (HeldBy gss) h \<longleftrightarrow> (\<forall>gs\<in>set gss. \<forall>g\<in>set gs. held_grant h g)"
  by (simp add: HeldBy_def foldl_foldl_hold)

lemma HeldBy_holds: "gs \<in> set gss \<Longrightarrow> g \<in> set gs \<Longrightarrow> held_grant (HeldBy gss) g"
  using HeldBy_least [of gss "HeldBy gss"] by simp

lemma HeldBy_mono: "set gss \<subseteq> set gss' \<Longrightarrow> held_le (HeldBy gss) (HeldBy gss')"
  by (auto simp: HeldBy_least intro: HeldBy_holds)

lemma CanGrant_iff: "CanGrant h wanted = None \<longleftrightarrow> held_le (HeldBy [wanted]) h"
  by (auto simp: CanGrant_def HeldBy_least held_grant_def split: option.splits)

definition held_sup :: "held \<Rightarrow> held \<Rightarrow> held" where
  "held_sup a b p = (case a p of None \<Rightarrow> b p | Some l \<Rightarrow> (case b p of None \<Rightarrow> Some l | Some m \<Rightarrow> Some (if Covers l m then l else m)))"

lemma held_sup_upper: "held_le a (held_sup a b)" "held_le b (held_sup a b)"
  by (auto simp: held_le_def held_sup_def split: option.splits) (metis cover_linear)+

lemma held_sup_least: "held_le (held_sup a b) c \<longleftrightarrow> held_le a c \<and> held_le b c"
proof
  show "held_le (held_sup a b) c \<Longrightarrow> held_le a c \<and> held_le b c" using held_sup_upper held_le_trans by blast
  show "held_le a c \<and> held_le b c \<Longrightarrow> held_le (held_sup a b) c"
    by (auto simp: held_le_def held_sup_def split: option.splits if_splits)
qed

section \<open>Normal form of grants\<close>

definition grant_ok :: "grant \<Rightarrow> bool" where
  "grant_ok g \<longleftrightarrow> (case Lookup (gt_Permission g) of None \<Rightarrow> False | Some d \<Rightarrow> 0 \<le> gt_Limit g \<and> (0 < gt_Limit g \<longrightarrow> pd_Limited d))"

definition grants_map :: "grant list \<Rightarrow> held" where
  "grants_map gs = map_of (map (\<lambda>g. (gt_Permission g, gt_Limit g)) gs)"

lemma grants_map_find: "grants_map gs p = map_option gt_Limit (find (\<lambda>b. gt_Permission b = p) gs)"
  by (induction gs) (auto simp: grants_map_def)

lemma best_of_map: "grants_map (best_of g best) = hold_grant (grants_map best) g"
proof (rule ext)
  fix p
  have r: "grants_map (map (\<lambda>b. if gt_Permission b = gt_Permission g then g else b) best) p =
      (if p = gt_Permission g \<and> grants_map best p \<noteq> None then Some (gt_Limit g) else grants_map best p)"
    by (induction best) (auto simp: grants_map_def)
  have a: "grants_map (best @ [g]) p = (case grants_map best p of None \<Rightarrow> if p = gt_Permission g then Some (gt_Limit g) else None | Some l \<Rightarrow> Some l)"
    by (auto simp: grants_map_def map_add_def split: option.splits)
  show "grants_map (best_of g best) p = hold_grant (grants_map best) g p"
    by (cases "find (\<lambda>b. gt_Permission b = gt_Permission g) best")
      (simp_all only: best_of_def hold_grant_def a r grants_map_find [of best "gt_Permission g"] option.case option.map if_cancel fun_upd_apply not_None_eq
        fun_upd_same simp_thms split: if_split option.split, auto simp: grants_map_find)
qed

lemma best_of_perms: "gt_Permission ` set (best_of g best) = insert (gt_Permission g) (gt_Permission ` set best)"
  by (auto simp: best_of_def find_None_iff find_Some_iff image_iff split: option.splits) (metis nth_mem)+

lemma best_of_distinct: "distinct (map gt_Permission best) \<Longrightarrow> distinct (map gt_Permission (best_of g best))"
proof -
  assume d: "distinct (map gt_Permission best)"
  have "map gt_Permission (map (\<lambda>b. if gt_Permission b = gt_Permission g then g else b) best) = map gt_Permission best" by simp
  with d show ?thesis by (auto simp: best_of_def find_None_iff simp del: map_map split: option.splits)
qed

lemma best_of_subset: "set (best_of g best) \<subseteq> insert g (set best)"
  by (auto simp: best_of_def split: option.splits if_splits)

lemma normalise_loop_exact:
  "normalise_loop best gs = Inr out \<Longrightarrow> distinct (map gt_Permission best) \<Longrightarrow>
    grants_map out = foldl hold_grant (grants_map best) gs \<and> distinct (map gt_Permission out) \<and>
    set out \<subseteq> set best \<union> set gs \<and> (\<forall>g\<in>set gs. grant_ok g)"
proof (induction gs arbitrary: best)
  case Nil
  then show ?case by simp
next
  case (Cons g gs)
  obtain d where d: "Lookup (gt_Permission g) = Some d" "\<not> (gt_Limit g < 0 \<or> gt_Limit g > 0 \<and> \<not> pd_Limited d)"
    and r: "normalise_loop (best_of g best) gs = Inr out" using Cons.prems(1) by (auto split: option.splits if_splits)
  have "grant_ok g" using d by (auto simp: grant_ok_def)
  with Cons.IH [OF r best_of_distinct [OF Cons.prems(2)]] best_of_subset [of g best] show ?case by (auto simp: best_of_map)
qed

lemma normalise_loop_total: "\<forall>g\<in>set gs. grant_ok g \<Longrightarrow> \<exists>out. normalise_loop best gs = Inr out"
  by (induction gs arbitrary: best) (auto simp: grant_ok_def split: option.splits)

lemma grants_map_HeldBy: "distinct (map gt_Permission gs) \<Longrightarrow> HeldBy [gs] = grants_map gs"
proof (rule held_le_antisym)
  assume d: "distinct (map gt_Permission gs)"
  show "held_le (HeldBy [gs]) (grants_map gs)"
  proof -
    have k: "distinct (map fst (map (\<lambda>g. (gt_Permission g, gt_Limit g)) gs))" using d by (simp add: comp_def)
    have "grants_map gs (gt_Permission g) = Some (gt_Limit g)" if "g \<in> set gs" for g
      unfolding grants_map_def using map_of_eq_Some_iff [OF k] that by auto
    then show ?thesis by (simp add: HeldBy_least held_grant_def)
  qed
  show "held_le (grants_map gs) (HeldBy [gs])"
    using HeldBy_holds [of gs "[gs]"] by (auto simp: held_le_def held_grant_def grants_map_def dest!: map_of_SomeD)
qed

interpretation perm_order: strict_weak_order "\<lambda>a b. gt_Permission a < gt_Permission b"
  by unfold_locales auto


lemma grants_map_set:
  assumes "distinct (map gt_Permission gs)"
  shows "set gs = {g. grants_map gs (gt_Permission g) = Some (gt_Limit g)}"
proof -
  have k: "distinct (map fst (map (\<lambda>g. (gt_Permission g, gt_Limit g)) gs))" using assms by (simp add: comp_def)
  have "inj (\<lambda>g :: grant. (gt_Permission g, gt_Limit g))" by (rule injI, case_tac x, case_tac y) simp
  then have "g \<in> set gs \<longleftrightarrow> (gt_Permission g, gt_Limit g) \<in> set (map (\<lambda>g. (gt_Permission g, gt_Limit g)) gs)" for g :: grant
    using inj_image_mem_iff [of "\<lambda>g :: grant. (gt_Permission g, gt_Limit g)" g "set gs"] by simp
  then show ?thesis unfolding grants_map_def by (simp only: map_of_eq_Some_iff [OF k]) blast
qed

lemma NormaliseGrants_exact:
  assumes "NormaliseGrants gs = Inr out"
  shows "HeldBy [out] = HeldBy [gs]" "distinct (map gt_Permission out)" "sorted_wrt (\<lambda>a b. gt_Permission a < gt_Permission b) out"
    "set out \<subseteq> set gs" "\<forall>g\<in>set gs. grant_ok g" "out = sort_by (\<lambda>a b. gt_Permission a < gt_Permission b) out"
proof -
  obtain best where b: "normalise_loop [] gs = Inr best" and out: "out = sort_by (\<lambda>a b. gt_Permission a < gt_Permission b) best"
    using assms by (auto simp: NormaliseGrants_def split: sum.splits)
  have x: "grants_map best = foldl hold_grant (grants_map []) gs" "distinct (map gt_Permission best)" "set best \<subseteq> set gs" "\<forall>g\<in>set gs. grant_ok g"
    using normalise_loop_exact [OF b] by simp_all
  show d: "distinct (map gt_Permission out)" and "set out \<subseteq> set gs" using x by (simp_all add: out)
  show "\<forall>g\<in>set gs. grant_ok g" by (rule x)
  have "grants_map [] = Map.empty" by (simp add: grants_map_def)
  then have hb: "HeldBy [gs] = grants_map best" using x(1) by (simp add: HeldBy_def)
  have "grants_map out (gt_Permission g) = Some (gt_Limit g) \<longleftrightarrow> grants_map best (gt_Permission g) = Some (gt_Limit g)" for g :: grant
    using grants_map_set [OF d] grants_map_set [OF x(2)] set_sort_by [of _ best] unfolding out by blast
  from this [of "\<lparr>gt_Permission = p, gt_Limit = l\<rparr>" for p l] have "grants_map out p = Some l \<longleftrightarrow> grants_map best p = Some l" for p l
    by simp
  then have "grants_map out = grants_map best" by (metis ext not_Some_eq)
  then show "HeldBy [out] = HeldBy [gs]" using grants_map_HeldBy [OF d] hb by simp
  have "sorted_wrt (\<lambda>a b. \<not> gt_Permission b < gt_Permission a) out" unfolding out by (rule perm_order.sorted_sort_by)
  then show s: "sorted_wrt (\<lambda>a b. gt_Permission a < gt_Permission b) out"
    using d by (simp add: sorted_wrt_iff_nth_less distinct_conv_nth) (metis less_trans linorder_neqE_nat not_less_iff_gr_or_eq)
  show "out = sort_by (\<lambda>a b. gt_Permission a < gt_Permission b) out"
    by (rule sort_by_id [symmetric]) (use s in \<open>auto elim: sorted_wrt_mono_rel [rotated]\<close>)
qed


definition demo_grants :: "grant list" where
  "demo_grants = [\<lparr>gt_Permission = TreasurySpend, gt_Limit = 50\<rparr>, \<lparr>gt_Permission = RoadDraw, gt_Limit = 0\<rparr>, \<lparr>gt_Permission = TreasurySpend, gt_Limit = 80\<rparr>]"


end
