(* ===== verification/Charter_Rows.thy ===== *)
theory Charter_Rows
  imports Charter Unit_Of_Work
begin

text \<open>
  \<^verbatim>\<open>internal/application/ports_charter.go\<close> and \<^verbatim>\<open>internal/infrastructure/postgres/charter.go\<close>: the rows of one
  settlement's charter and the statements over them, each a \<open>tx\<close>. The unique indexes of the tables are part of the
  statements: an insert with \<^verbatim>\<open>ON CONFLICT DO NOTHING\<close> that meets one inserts nothing and says so, \<open>SaveOffice\<close>,
  which only names the primary key, fails with \<open>DBConflict\<close>. The holder of the head seat is the row of the
  governance tables. \<open>NewID\<close> hands out identifiers; \<open>lower\<close> of the database is a parameter.
\<close>

section \<open>Rows\<close>

record charter_seat =
  cse_ID :: string
  cse_OfficeID :: string
  cse_HolderID :: string
  cse_AppointedBy :: string
  cse_Since :: go_time
  cse_TermEnds :: go_time

record seat_row = charter_seat +
  sr_Until :: "go_time option"
  sr_EndReason :: string

record office_row =
  or_Office :: office
  or_CreatedAt :: go_time
  or_ClosedAt :: "go_time option"

record office_json =
  oj_ID :: string
  oj_Title :: "rune list"
  oj_Seats :: int
  oj_Grants :: "(string \<times> int) list"
  oj_Acquisition :: acquisition
  oj_TermDays :: int
  oj_Deputy :: bool

record charter_proposal =
  pj_Op :: string
  pj_Office :: office_json
  pj_By :: string

record charter_ballot =
  cb_ID :: string
  cb_Kind :: ballot_kind
  cb_OfficeID :: string
  cb_Target :: string
  cb_OpenedBy :: string
  cb_Status :: ballot_status
  cb_ActionID :: string
  cb_Proposal :: "charter_proposal option"
  cb_OpensAt :: go_time
  cb_ClosesAt :: go_time
  cb_SettledAt :: go_time
  cb_Eligible :: int

record charter_candidate =
  cc_Ballot :: string
  cc_PlayerID :: string
  cc_StoodAt :: go_time

record charter_petition =
  pet_ID :: string
  pet_OfficeID :: string
  pet_Target :: string
  pet_StartedBy :: string
  pet_Open :: bool
  pet_BallotID :: string
  pet_CreatedAt :: go_time

record charter_audit =
  au_ActorID :: string
  au_Action :: string
  au_OfficeID :: string
  au_At :: go_time

text \<open>An active player living in the settlement.\<close>

record resident =
  re_ID :: string
  re_Code :: string
  re_Since :: go_time

record charter_db =
  cd_Offices :: "office_row list"
  cd_Seats :: "seat_row list"
  cd_Ballots :: "charter_ballot list"
  cd_Candidates :: "charter_candidate list"
  cd_Votes :: "(string \<times> string \<times> string) list"
  cd_Petitions :: "charter_petition list"
  cd_Signatures :: "(string \<times> string) list"
  cd_Audit :: "charter_audit list"
  cd_Residents :: "resident list"
  cd_Holder :: string
  cd_HeadSince :: go_time
  cd_Keys :: "(string \<times> string) list"
  cd_Actions :: "(string \<times> go_time) list"
  cd_Events :: "(string \<times> string \<times> string) list"
  cd_NextID :: nat

datatype village_refusal = VillageNotFound | VillageNotResident | CharterDeputyTaken | CharterRecalledRecent | LawBanned | CharterVotePending
  | CharterNotElected | CharterNoVacancy | CharterElectionOpen | CharterNotCandidacy | CharterNotEligible | CharterAlreadyStanding | CharterNoBallot
  | CharterNotVoting | CharterBadChoice | CharterTargetVoting | CharterAlreadyVoted | CharterNotHolder | CharterRecallSelf | CharterRecallTooEarly
  | CharterRecallCooling | CharterRecallOpen

datatype charter_fault = NotOfficeHolder string | Rail charter_error | Refused village_refusal | DBConflict | OfficeVacant | BadProposal | CannotBegin

type_synonym 'a charter_tx = "(charter_db, charter_fault, 'a) tx"

section \<open>Offices\<close>

abbreviation row_open :: "office_row \<Rightarrow> bool" where "row_open r \<equiv> or_ClosedAt r = None"

definition created_before :: "office_row \<Rightarrow> office_row \<Rightarrow> bool" where
  "created_before a b =
     (if or_CreatedAt a \<noteq> or_CreatedAt b then or_CreatedAt a < or_CreatedAt b else of_ID (or_Office a) < of_ID (or_Office b))"

definition Offices :: "charter_db \<Rightarrow> office list" where
  "Offices w = map or_Office (sort_by created_before (filter row_open (cd_Offices w)))"

text \<open>The three partial unique indexes and the checks of the table.\<close>

definition office_rows_ok :: "(rune list \<Rightarrow> rune list) \<Rightarrow> office_row list \<Rightarrow> bool" where
  "office_rows_ok db_lower rows \<longleftrightarrow>
     (let live = map or_Office (filter row_open rows) in
      distinct (map (\<lambda>ofc. db_lower (of_Title ofc)) live) \<and>
      length (filter (\<lambda>ofc. of_Acquisition ofc = AcquireHead) live) \<le> 1 \<and>
      length (filter of_Deputy live) \<le> 1 \<and>
      (\<forall>ofc\<in>set (map or_Office rows). 1 \<le> of_Seats ofc \<and> of_Seats ofc \<le> 50 \<and> 0 \<le> of_TermDays ofc \<and>
        (case of_Acquisition ofc of AcquireOther _ \<Rightarrow> False | _ \<Rightarrow> True)))"

definition upsert_office :: "office \<Rightarrow> go_time \<Rightarrow> office_row list \<Rightarrow> office_row list" where
  "upsert_office ofc at rows =
     (if of_ID ofc \<in> (of_ID \<circ> or_Office) ` set rows then map (\<lambda>r. if of_ID (or_Office r) = of_ID ofc then r\<lparr>or_Office := ofc\<rparr> else r) rows
      else rows @ [\<lparr>or_Office = ofc, or_CreatedAt = at, or_ClosedAt = None\<rparr>])"

definition SaveOffice :: "(rune list \<Rightarrow> rune list) \<Rightarrow> office \<Rightarrow> go_time \<Rightarrow> unit charter_tx" where
  "SaveOffice db_lower ofc at w =
     (let rows = upsert_office (ofc\<lparr>of_Closed := False\<rparr>) at (cd_Offices w) in
      if office_rows_ok db_lower rows then (w\<lparr>cd_Offices := rows\<rparr>, Inr ()) else (w, Inl DBConflict))"

definition CloseOffice :: "string \<Rightarrow> go_time \<Rightarrow> unit charter_tx" where
  "CloseOffice i at w =
     (w\<lparr>cd_Offices := map (\<lambda>r. if of_ID (or_Office r) = i \<and> row_open r then r\<lparr>or_ClosedAt := Some at\<rparr> else r) (cd_Offices w)\<rparr>, Inr ())"

section \<open>Seats\<close>

definition open_office_ids :: "charter_db \<Rightarrow> string set" where
  "open_office_ids w = (of_ID \<circ> or_Office) ` set (filter row_open (cd_Offices w))"

definition seat_before :: "seat_row \<Rightarrow> seat_row \<Rightarrow> bool" where
  "seat_before a b = (if cse_Since a \<noteq> cse_Since b then cse_Since a < cse_Since b else cse_ID a < cse_ID b)"

text \<open>A term that ended before the year 2000 is read as none.\<close>

definition year_2000 :: go_time where
  "year_2000 = 63082281600 * Second"

definition live_seats :: "charter_db \<Rightarrow> seat_row list" where
  "live_seats w = filter (\<lambda>s. sr_Until s = None \<and> cse_OfficeID s \<in> open_office_ids w) (cd_Seats w)"

definition Seats :: "charter_db \<Rightarrow> charter_seat list" where
  "Seats w = map (\<lambda>s. charter_seat.truncate s\<lparr>cse_TermEnds := (if cse_TermEnds s < year_2000 then 0 else cse_TermEnds s)\<rparr>)
     (sort_by seat_before (live_seats w))"

definition Seat :: "charter_seat \<Rightarrow> bool charter_tx" where
  "Seat s w =
     (if \<exists>r\<in>set (cd_Seats w). cse_ID r = cse_ID s \<or> cse_OfficeID r = cse_OfficeID s \<and> cse_HolderID r = cse_HolderID s \<and> sr_Until r = None
      then (w, Inr False)
      else (w\<lparr>cd_Seats := cd_Seats w @ [charter_seat.extend s \<lparr>sr_Until = None, sr_EndReason = ''''\<rparr>]\<rparr>, Inr True))"

definition end_row :: "go_time \<Rightarrow> string \<Rightarrow> seat_row \<Rightarrow> seat_row" where
  "end_row at reason r = r\<lparr>sr_Until := Some at, sr_EndReason := reason\<rparr>"

definition EndSeat :: "string \<Rightarrow> string \<Rightarrow> string \<Rightarrow> go_time \<Rightarrow> bool charter_tx" where
  "EndSeat officeID holderID reason at w =
     (let hit = (\<lambda>r. cse_OfficeID r = officeID \<and> cse_HolderID r = holderID \<and> sr_Until r = None) in
      (w\<lparr>cd_Seats := map (\<lambda>r. if hit r then end_row at reason r else r) (cd_Seats w)\<rparr>, Inr (length (filter hit (cd_Seats w)) = 1)))"

definition EndSeatsOf :: "string \<Rightarrow> string \<Rightarrow> go_time \<Rightarrow> unit charter_tx" where
  "EndSeatsOf officeID reason at w =
     (w\<lparr>cd_Seats := map (\<lambda>r. if cse_OfficeID r = officeID \<and> sr_Until r = None then end_row at reason r else r) (cd_Seats w)\<rparr>, Inr ())"

definition term_before :: "seat_row \<Rightarrow> seat_row \<Rightarrow> bool" where
  "term_before a b = (if cse_TermEnds a \<noteq> cse_TermEnds b then cse_TermEnds a < cse_TermEnds b else cse_ID a < cse_ID b)"

definition ExpiredSeats :: "charter_db \<Rightarrow> go_time \<Rightarrow> seat_row list" where
  "ExpiredSeats w now = sort_by term_before (filter (\<lambda>s. cse_TermEnds s \<noteq> 0 \<and> cse_TermEnds s \<le> now) (live_seats w))"

section \<open>The log and the residents\<close>

definition charter_Audit :: "string \<Rightarrow> string \<Rightarrow> string \<Rightarrow> go_time \<Rightarrow> unit charter_tx" where
  "charter_Audit actor action office at w =
     (w\<lparr>cd_Audit := cd_Audit w @ [\<lparr>au_ActorID = actor, au_Action = action, au_OfficeID = office, au_At = at\<rparr>]\<rparr>, Inr ())"

definition ascii_upper :: "string \<Rightarrow> string" where
  "ascii_upper s = map (\<lambda>c. if 97 \<le> (of_char c :: nat) \<and> (of_char c :: nat) \<le> 122 then char_of ((of_char c :: nat) - 32) else c) s"

definition ResidentByCode :: "charter_db \<Rightarrow> string \<Rightarrow> resident option" where
  "ResidentByCode w code = find (\<lambda>r. ascii_upper (re_Code r) = ascii_upper code) (cd_Residents w)"

definition charter_Eligible :: "charter_db \<Rightarrow> go_time \<Rightarrow> int" where
  "charter_Eligible w since = int (length (filter (\<lambda>r. re_Since r \<le> since) (cd_Residents w)))"

definition IsEligible :: "charter_db \<Rightarrow> string \<Rightarrow> go_time \<Rightarrow> bool" where
  "IsEligible w player since \<longleftrightarrow> (\<exists>r\<in>set (cd_Residents w). re_ID r = player \<and> re_Since r \<le> since)"

definition ResidentCount :: "charter_db \<Rightarrow> int" where
  "ResidentCount w = int (length (cd_Residents w))"

section \<open>Ballots\<close>

text \<open>What a new ballot runs into: its id, or the open ballot about the same thing.\<close>

definition same_vote :: "charter_ballot \<Rightarrow> charter_ballot \<Rightarrow> bool" where
  "same_vote b r \<longleftrightarrow> cb_ID r = cb_ID b \<or> cb_Status r = BallotOpen \<and> cb_Kind r = cb_Kind b \<and>
     (case cb_Kind b of
        BallotElection \<Rightarrow> cb_OfficeID r = cb_OfficeID b
      | BallotRecall \<Rightarrow> cb_OfficeID r = cb_OfficeID b \<and> cb_Target r = cb_Target b
      | BallotAmendment \<Rightarrow> True)"

definition OpenBallot :: "charter_ballot \<Rightarrow> bool charter_tx" where
  "OpenBallot b w =
     (if \<exists>r\<in>set (cd_Ballots w). same_vote b r then (w, Inr False)
      else (w\<lparr>cd_Ballots := cd_Ballots w @ [b\<lparr>cb_Status := BallotOpen\<rparr>]\<rparr>, Inr True))"

definition Ballot :: "charter_db \<Rightarrow> string \<Rightarrow> charter_ballot option" where
  "Ballot w i = find (\<lambda>b. cb_ID b = i) (cd_Ballots w)"

definition ballot_before :: "charter_ballot \<Rightarrow> charter_ballot \<Rightarrow> bool" where
  "ballot_before a b = (if cb_OpensAt a \<noteq> cb_OpensAt b then cb_OpensAt a < cb_OpensAt b else cb_ID a < cb_ID b)"

definition OpenBallots :: "charter_db \<Rightarrow> charter_ballot list" where
  "OpenBallots w = sort_by ballot_before (filter (\<lambda>b. cb_Status b = BallotOpen) (cd_Ballots w))"

definition RecentBallots :: "charter_db \<Rightarrow> nat \<Rightarrow> charter_ballot list" where
  "RecentBallots w limit = take limit (sort_by (\<lambda>a b. ballot_before b a) (cd_Ballots w))"

definition SettleBallot :: "string \<Rightarrow> ballot_status \<Rightarrow> go_time \<Rightarrow> bool charter_tx" where
  "SettleBallot i status at w =
     (let hit = (\<lambda>b. cb_ID b = i \<and> cb_Status b = BallotOpen) in
      (w\<lparr>cd_Ballots := map (\<lambda>b. if hit b then b\<lparr>cb_Status := status, cb_SettledAt := at\<rparr> else b) (cd_Ballots w)\<rparr>,
       Inr (length (filter hit (cd_Ballots w)) = 1)))"

definition recalls_of :: "charter_db \<Rightarrow> ballot_status set \<Rightarrow> string \<Rightarrow> string \<Rightarrow> charter_ballot list" where
  "recalls_of w sts officeID player =
     filter (\<lambda>b. cb_Kind b = BallotRecall \<and> cb_OfficeID b = officeID \<and> cb_Target b = player \<and> cb_Status b \<in> sts) (cd_Ballots w)"

definition LastRecall :: "charter_db \<Rightarrow> string \<Rightarrow> string \<Rightarrow> go_time" where
  "LastRecall w officeID player = foldl max 0 (map cb_SettledAt (recalls_of w {BallotPassed, BallotFailed} officeID player))"

definition RecalledSince :: "charter_db \<Rightarrow> string \<Rightarrow> string \<Rightarrow> go_time \<Rightarrow> bool" where
  "RecalledSince w officeID player since \<longleftrightarrow> (\<exists>b\<in>set (recalls_of w {BallotPassed} officeID player). cb_SettledAt b \<ge> since)"

definition stood_before :: "charter_candidate \<Rightarrow> charter_candidate \<Rightarrow> bool" where
  "stood_before a b = (if cc_StoodAt a \<noteq> cc_StoodAt b then cc_StoodAt a < cc_StoodAt b else cc_PlayerID a < cc_PlayerID b)"

definition Candidates :: "charter_db \<Rightarrow> string \<Rightarrow> charter_candidate list" where
  "Candidates w b = sort_by stood_before (filter (\<lambda>c. cc_Ballot c = b) (cd_Candidates w))"

definition AddCandidate :: "string \<Rightarrow> string \<Rightarrow> go_time \<Rightarrow> bool charter_tx" where
  "AddCandidate b player at w =
     (if \<exists>c\<in>set (cd_Candidates w). cc_Ballot c = b \<and> cc_PlayerID c = player then (w, Inr False)
      else (w\<lparr>cd_Candidates := cd_Candidates w @ [\<lparr>cc_Ballot = b, cc_PlayerID = player, cc_StoodAt = at\<rparr>]\<rparr>, Inr True))"

definition Cast :: "string \<Rightarrow> string \<Rightarrow> string \<Rightarrow> bool charter_tx" where
  "Cast b voter choice w =
     (if \<exists>c. (b, voter, c) \<in> set (cd_Votes w) then (w, Inr False)
      else (w\<lparr>cd_Votes := cd_Votes w @ [(b, voter, choice)]\<rparr>, Inr True))"

definition Tally :: "charter_db \<Rightarrow> string \<Rightarrow> string \<Rightarrow> int" where
  "Tally w b choice = int (length (filter (\<lambda>(b', _, c). b' = b \<and> c = choice) (cd_Votes w)))"

section \<open>Petitions\<close>

definition OpenPetition :: "charter_petition \<Rightarrow> bool charter_tx" where
  "OpenPetition p w =
     (if \<exists>r\<in>set (cd_Petitions w). pet_ID r = pet_ID p \<or> pet_Open r \<and> pet_OfficeID r = pet_OfficeID p \<and> pet_Target r = pet_Target p then (w, Inr False)
      else (w\<lparr>cd_Petitions := cd_Petitions w @ [p\<lparr>pet_Open := True, pet_BallotID := ''''\<rparr>]\<rparr>, Inr True))"

definition Petition :: "charter_db \<Rightarrow> string \<Rightarrow> charter_petition option" where
  "Petition w i = find (\<lambda>p. pet_ID p = i) (cd_Petitions w)"

definition Signatures :: "charter_db \<Rightarrow> string \<Rightarrow> int" where
  "Signatures w i = int (length (filter (\<lambda>(p, _). p = i) (cd_Signatures w)))"

definition Sign :: "string \<Rightarrow> string \<Rightarrow> bool charter_tx" where
  "Sign p signer w =
     (if (p, signer) \<in> set (cd_Signatures w) then (w, Inr False) else (w\<lparr>cd_Signatures := cd_Signatures w @ [(p, signer)]\<rparr>, Inr True))"

definition SetPetition :: "string \<Rightarrow> bool \<Rightarrow> string \<Rightarrow> unit charter_tx" where
  "SetPetition i is_open ballotID w =
     (w\<lparr>cd_Petitions := map (\<lambda>p. if pet_ID p = i then p\<lparr>pet_Open := is_open, pet_BallotID := ballotID\<rparr> else p) (cd_Petitions w)\<rparr>, Inr ())"

section \<open>Around the charter\<close>

definition charter_Reserve :: "string \<Rightarrow> string \<Rightarrow> bool charter_tx" where
  "charter_Reserve player key w =
     (if (player, key) \<in> set (cd_Keys w) then (w, Inr False) else (w\<lparr>cd_Keys := cd_Keys w @ [(player, key)]\<rparr>, Inr True))"

definition charter_NewID :: "(nat \<Rightarrow> string) \<Rightarrow> string charter_tx" where
  "charter_NewID ids w = (w\<lparr>cd_NextID := Suc (cd_NextID w)\<rparr>, Inr (ids (cd_NextID w)))"

definition charter_schedule :: "(nat \<Rightarrow> string) \<Rightarrow> go_time \<Rightarrow> string charter_tx" where
  "charter_schedule ids finish =
     tx_bind (charter_NewID ids) (\<lambda>i.
     tx_bind tx_get (\<lambda>w. tx_bind (tx_put (w\<lparr>cd_Actions := cd_Actions w @ [(i, finish)]\<rparr>)) (\<lambda>_. tx_return i)))"

definition appendVillageEvent :: "string \<Rightarrow> string \<Rightarrow> string \<Rightarrow> unit charter_tx" where
  "appendVillageEvent action office by_player w = (w\<lparr>cd_Events := cd_Events w @ [(action, office, by_player)]\<rparr>, Inr ())"

text \<open>The governance seat of the head: filled when it is free and the offices the player holds allow it, and vacated.\<close>

definition ElectToOffice :: "(string \<Rightarrow> bool) \<Rightarrow> string \<Rightarrow> go_time \<Rightarrow> unit charter_tx" where
  "ElectToOffice barred player now w =
     (if cd_Holder w \<noteq> '''' \<or> barred player then (w, Inl OfficeVacant) else (w\<lparr>cd_Holder := player, cd_HeadSince := now\<rparr>, Inr ()))"

definition VacateOffice :: "go_time \<Rightarrow> unit charter_tx" where
  "VacateOffice now w = (if cd_Holder w = '''' then (w, Inl OfficeVacant) else (w\<lparr>cd_Holder := '''', cd_HeadSince := now\<rparr>, Inr ()))"

end
