(* ===== verification/Charter_Service.thy ===== *)
theory Charter_Service
  imports Charter_Rows Election
begin

text \<open>
  \<^verbatim>\<open>internal/application/handlers/village_charter.go\<close> and \<^verbatim>\<open>village_charter2.go\<close>: what a settlement's charter is as it
  stands (\<open>loadCharter\<close>), what a player holds in it (\<open>heldBy\<close>), the housekeeping every act runs first
  (\<open>charterTick\<close>: due ballots, ended terms, owed elections), and the acts: saving and closing an office, appointing,
  dismissing and resigning, calling an election, standing, voting, recalling. Each act is one unit of work; its value is
  the action shown, none for a request that was answered before. The viewer, the settlement and the reading of the
  request are done; the rows of \<open>charter_db\<close> are this settlement's.
\<close>

record charter_ports =
  cp_Limits :: charter_limits
  cp_Settings :: charter_settings
  cp_Lower :: "rune list \<Rightarrow> rune list"
  cp_DBLower :: "rune list \<Rightarrow> rune list"
  cp_NewID :: "nat \<Rightarrow> string"
  cp_Inquisitorial :: bool
  cp_Banned :: "string \<Rightarrow> bool"
  cp_Barred :: "string \<Rightarrow> bool"
  cp_Title :: "rune list"

definition charterDefaults :: charter_limits where
  "charterDefaults = \<lparr>lim_Inquisitorial = False, lim_MaxOffices = 24, lim_MaxSeats = 15, lim_MaxPermissions = 96, lim_TitleMin = 2,
     lim_TitleMax = 32, lim_Reserved = []\<rparr>"

definition charter_limits_of :: "charter_ports \<Rightarrow> charter_limits" where
  "charter_limits_of h = (let l = (if lim_MaxOffices (cp_Limits h) = 0 then charterDefaults else cp_Limits h) in l\<lparr>lim_Reserved := lim_Reserved (cp_Limits h)\<rparr>)"

definition cset :: "charter_ports \<Rightarrow> charter_settings" where
  "cset h = (if cs_ElectionTermDays (cp_Settings h) = 0 then charter_Defaults else cp_Settings h)"

definition voterCut :: "charter_ports \<Rightarrow> go_time \<Rightarrow> go_time" where
  "voterCut h at = time_Add at (mul64 (mul64 (neg64 (cs_MinResidencyDays (cset h))) 24) Hour)"

text \<open>Identifiers are ASCII text; \<^verbatim>\<open>strings.TrimSpace\<close> on them drops ASCII white space.\<close>

definition trim_id :: "string \<Rightarrow> string" where
  "trim_id s = (let sp = (\<lambda>c. (of_char c :: nat) = 32 \<or> 9 \<le> (of_char c :: nat) \<and> (of_char c :: nat) \<le> 13) in
     rev (dropWhile sp (rev (dropWhile sp s))))"

section \<open>The charter as it stands\<close>

record charter_state =
  st_offices :: "office list"
  st_seats :: "string \<Rightarrow> charter_seat list"
  st_stored :: bool
  st_headHeld :: string
  st_headSince :: go_time
  st_acting :: "acting_head option"

definition st_held :: "charter_state \<Rightarrow> office \<Rightarrow> bool" where
  "st_held st ofc = (if of_Acquisition ofc = AcquireHead then st_headHeld st \<noteq> '''' else st_seats st (of_ID ofc) \<noteq> [])"

definition chooseActing :: "charter_state \<Rightarrow> charter_settings \<Rightarrow> go_time \<Rightarrow> acting_head option" where
  "chooseActing st cs now =
     ActingFor (st_offices st)
       (\<lambda>i. map (\<lambda>s. \<lparr>si_PlayerID = cse_HolderID s, si_OfficeID = i, si_Since = cse_Since s\<rparr>) (st_seats st i)) (st_headSince st) cs now"

definition loadCharter :: "charter_ports \<Rightarrow> go_time \<Rightarrow> charter_db \<Rightarrow> charter_state" where
  "loadCharter h now w =
     (let offices = Offices w; stored = (offices \<noteq> []);
          offices' = (if stored then offices else [FoundersOffice '''' (cp_Title h)]);
          active = (if stored then filter (\<lambda>s. time_IsZero (cse_TermEnds s) \<or> now < cse_TermEnds s) (Seats w) else []);
          st = \<lparr>st_offices = offices', st_seats = (\<lambda>i. filter (\<lambda>s. cse_OfficeID s = i) active), st_stored = stored, st_headHeld = cd_Holder w,
                st_headSince = cd_HeadSince w, st_acting = None\<rparr> in
      if cd_Holder w = '''' then st\<lparr>st_acting := chooseActing st (cset h) now\<rparr> else st)"

definition sits_in :: "charter_state \<Rightarrow> string \<Rightarrow> office \<Rightarrow> bool" where
  "sits_in st player ofc =
     (if of_Acquisition ofc = AcquireHead then player \<noteq> '''' \<and> st_headHeld st = player
      else \<exists>s\<in>set (st_seats st (of_ID ofc)). cse_HolderID s = player)"

definition heldBy :: "charter_state \<Rightarrow> string \<Rightarrow> held" where
  "heldBy st player =
     HeldBy (map of_Grants (filter (\<lambda>ofc. \<not> of_Closed ofc \<and> sits_in st player ofc) (st_offices st)) @
       (case st_acting st of Some a \<Rightarrow> if ah_Player a = player then [ah_Grants a] else [] | None \<Rightarrow> []))"

definition requirePermission :: "charter_ports \<Rightarrow> go_time \<Rightarrow> charter_db \<Rightarrow> string \<Rightarrow> string \<Rightarrow> charter_fault + int" where
  "requirePermission h now w player p =
     (case heldBy (loadCharter h now w) player p of None \<Rightarrow> Inl (NotOfficeHolder p) | Some limit \<Rightarrow> Inr limit)"

text \<open>\<open>FounderOfficeID\<close> is \<open>''founder''\<close>.\<close>

definition officeByID :: "charter_state \<Rightarrow> string \<Rightarrow> office option" where
  "officeByID st i =
     find (\<lambda>ofc. \<not> of_Closed ofc \<and> (trim_id i \<noteq> '''' \<and> of_ID ofc = trim_id i \<or> trim_id i = ''founder'' \<and> of_Acquisition ofc = AcquireHead)) (st_offices st)"

definition headOffice :: "charter_state \<Rightarrow> office option" where
  "headOffice st = find (\<lambda>ofc. of_Acquisition ofc = AcquireHead \<and> \<not> of_Closed ofc) (st_offices st)"

definition officeByIDExact :: "charter_state \<Rightarrow> string \<Rightarrow> office option" where
  "officeByIDExact st i = find (\<lambda>ofc. \<not> of_Closed ofc \<and> of_ID ofc = i \<and> i \<noteq> '''') (st_offices st)"

definition resolveOffice :: "charter_state \<Rightarrow> string \<Rightarrow> string" where
  "resolveOffice st i =
     (if trim_id i \<noteq> ''founder'' then trim_id i
      else case find (\<lambda>ofc. of_Acquisition ofc = AcquireHead \<and> of_ID ofc \<noteq> '''') (st_offices st) of Some ofc \<Rightarrow> of_ID ofc | None \<Rightarrow> trim_id i)"

definition seatsHeld :: "charter_state \<Rightarrow> office \<Rightarrow> int" where
  "seatsHeld st ofc =
     (if of_Acquisition ofc = AcquireHead then (if st_headHeld st \<noteq> '''' then 1 else 0) else int (length (st_seats st (of_ID ofc))))"

definition materialise :: "charter_ports \<Rightarrow> string \<Rightarrow> go_time \<Rightarrow> charter_state \<Rightarrow> charter_state charter_tx" where
  "materialise h actor now st =
     (if st_stored st then tx_return st
      else
        tx_bind (charter_NewID (cp_NewID h)) (\<lambda>i.
        let ofc = (hd (st_offices st))\<lparr>of_ID := i\<rparr> in
        tx_bind (SaveOffice (cp_DBLower h) ofc now) (\<lambda>_.
        tx_bind (charter_Audit actor ''charter_written'' i now) (\<lambda>_.
        tx_return (st\<lparr>st_offices := [ofc], st_stored := True\<rparr>)))))"

section \<open>Ballots\<close>

definition officeToJSON :: "office \<Rightarrow> office_json" where
  "officeToJSON ofc = \<lparr>oj_ID = of_ID ofc, oj_Title = of_Title ofc, oj_Seats = of_Seats ofc,
     oj_Grants = map (\<lambda>g. (gt_Permission g, gt_Limit g)) (of_Grants ofc), oj_Acquisition = of_Acquisition ofc, oj_TermDays = of_TermDays ofc,
     oj_Deputy = of_Deputy ofc\<rparr>"

definition json_office :: "office_json \<Rightarrow> office" where
  "json_office j = \<lparr>of_ID = oj_ID j, of_Title = oj_Title j, of_Seats = oj_Seats j,
     of_Grants = map (\<lambda>(p, l). \<lparr>gt_Permission = p, gt_Limit = l\<rparr>) (oj_Grants j), of_Acquisition = oj_Acquisition j, of_AppointerID = '''',
     of_TermDays = oj_TermDays j, of_Deputy = oj_Deputy j, of_Closed = False\<rparr>"

definition new_ballot :: "string \<Rightarrow> ballot_kind \<Rightarrow> string \<Rightarrow> string \<Rightarrow> string \<Rightarrow> charter_proposal option \<Rightarrow> go_time \<Rightarrow> go_time \<Rightarrow> int \<Rightarrow> string \<Rightarrow> charter_ballot" where
  "new_ballot i kind office target by_player proposal opens closes eligible action =
     \<lparr>cb_ID = i, cb_Kind = kind, cb_OfficeID = office, cb_Target = target, cb_OpenedBy = by_player, cb_Status = BallotOpen, cb_ActionID = action,
      cb_Proposal = proposal, cb_OpensAt = opens, cb_ClosesAt = closes, cb_SettledAt = 0, cb_Eligible = eligible\<rparr>"

definition openElection :: "charter_ports \<Rightarrow> go_time \<Rightarrow> office \<Rightarrow> string \<Rightarrow> string charter_tx" where
  "openElection h now ofc by_player =
     tx_bind tx_get (\<lambda>w.
     if \<exists>b\<in>set (OpenBallots w). cb_Kind b = BallotElection \<and> cb_OfficeID b = of_ID ofc then tx_return ''''
     else
       let eligible = charter_Eligible w (voterCut h now); closes = ElectionCloses (cset h) now in
       tx_bind (charter_NewID (cp_NewID h)) (\<lambda>i.
       tx_bind (charter_schedule (cp_NewID h) closes) (\<lambda>action.
       tx_bind (OpenBallot (new_ballot i BallotElection (of_ID ofc) '''' by_player None now closes eligible action)) (\<lambda>ok.
       if \<not> ok then tx_return ''''
       else tx_bind (charter_Audit by_player ''election_opened'' (of_ID ofc) now) (\<lambda>_. tx_return i)))))"

definition openAmendment :: "charter_ports \<Rightarrow> go_time \<Rightarrow> string \<Rightarrow> office \<Rightarrow> string \<Rightarrow> string charter_tx" where
  "openAmendment h now op ofc by_player =
     tx_bind tx_get (\<lambda>w.
     let eligible = charter_Eligible w (voterCut h now); closes = time_Add now (hours (cs_AmendVoteHours (cset h)));
         proposal = \<lparr>pj_Op = op, pj_Office = officeToJSON ofc, pj_By = by_player\<rparr> in
     tx_bind (charter_NewID (cp_NewID h)) (\<lambda>i.
     tx_bind (charter_schedule (cp_NewID h) closes) (\<lambda>action.
     tx_bind (OpenBallot (new_ballot i BallotAmendment (of_ID ofc) '''' by_player (Some proposal) now closes eligible action)) (\<lambda>ok.
     if \<not> ok then tx_fail (Refused CharterVotePending)
     else tx_bind (charter_Audit by_player ''amendment_proposed'' (of_ID ofc) now) (\<lambda>_. tx_return i)))))"

text \<open>The local \<open>finish\<close> of \<open>settleBallot\<close>.\<close>

definition ballot_finish :: "charter_ballot \<Rightarrow> ballot_status \<Rightarrow> string \<Rightarrow> go_time \<Rightarrow> unit charter_tx" where
  "ballot_finish b status action now =
     tx_bind (SettleBallot (cb_ID b) status now) (\<lambda>ok.
     if \<not> ok then tx_return () else charter_Audit '''' action (cb_OfficeID b) now)"

definition widened :: "grant list \<Rightarrow> grant list \<Rightarrow> grant list" where
  "widened prev next =
     filter (\<lambda>g. case HeldBy [prev] (gt_Permission g) of None \<Rightarrow> True | Some have \<Rightarrow> \<not> Covers have (gt_Limit g)) next"

text \<open>The offices as they would stand, with whether each is held.\<close>

definition office_states :: "charter_state \<Rightarrow> office list \<Rightarrow> (office \<times> bool) list" where
  "office_states st os = map (\<lambda>ofc. (ofc, st_held st ofc)) os"

definition close_in :: "string \<Rightarrow> office list \<Rightarrow> office list" where
  "close_in i os = map (\<lambda>ofc. if of_ID ofc = i then ofc\<lparr>of_Closed := True\<rparr> else ofc) os"

definition replace_in :: "office \<Rightarrow> office list \<Rightarrow> office list" where
  "replace_in next os = map (\<lambda>ofc. if of_ID ofc = of_ID next then next else ofc) os"

definition rail :: "charter_error option \<Rightarrow> unit charter_tx" where
  "rail c = tx_check (map_option Rail c)"

definition applyAmendment :: "charter_ports \<Rightarrow> go_time \<Rightarrow> charter_state \<Rightarrow> charter_proposal \<Rightarrow> unit charter_tx" where
  "applyAmendment h now st p =
     (let next = json_office (pj_Office p); held = heldBy st (pj_By p) in
      if \<not> Held_Has held CharterAmend then tx_fail (Rail ErrNotHeld)
      else case officeByIDExact st (of_ID next) of
        None \<Rightarrow> tx_fail (Rail ErrNotHeld)
      | Some prev \<Rightarrow>
          if pj_Op p = ''close'' then
            (if of_Acquisition prev = AcquireHead then tx_fail (Rail ErrHeadOffice)
             else
               tx_bind (rail (ManagerGuard (office_states st (close_in (of_ID prev) (st_offices st))))) (\<lambda>_.
               tx_bind (EndSeatsOf (of_ID prev) ''office_closed'' now) (\<lambda>_.
               CloseOffice (of_ID prev) now)))
          else
            tx_bind (rail (CanGrant held (widened (of_Grants prev) (of_Grants next)))) (\<lambda>_.
            tx_bind (rail (ManagerGuard (office_states st (replace_in next (st_offices st))))) (\<lambda>_.
            SaveOffice (cp_DBLower h) next now)))"

text \<open>Seating the winners: a governance refusal of the head is logged and ends it.\<close>

fun seat_winners :: "charter_ports \<Rightarrow> go_time \<Rightarrow> office \<Rightarrow> duration \<Rightarrow> candidate list \<Rightarrow> bool charter_tx" where
  "seat_winners h now ofc trm [] = tx_return True"
| "seat_winners h now ofc trm (c # cs) =
     (let seated = tx_bind (charter_Audit '''' ''seat_elected'' (of_ID ofc) now) (\<lambda>_. seat_winners h now ofc trm cs) in
      if of_Acquisition ofc = AcquireHead then
        tx_bind (tx_catch (tx_bind (ElectToOffice (cp_Barred h) (cand_PlayerID c) now) (\<lambda>_. tx_return True)) (\<lambda>_. tx_return False)) (\<lambda>ok.
        if ok then seated else tx_bind (charter_Audit '''' ''election_blocked'' (of_ID ofc) now) (\<lambda>_. tx_return False))
      else
        tx_bind (charter_NewID (cp_NewID h)) (\<lambda>i.
        tx_bind (Seat \<lparr>cse_ID = i, cse_OfficeID = of_ID ofc, cse_HolderID = cand_PlayerID c, cse_AppointedBy = '''', cse_Since = now,
          cse_TermEnds = time_Add now trm\<rparr>) (\<lambda>_. seated)))"

definition settle_election :: "charter_ports \<Rightarrow> go_time \<Rightarrow> charter_state \<Rightarrow> charter_ballot \<Rightarrow> unit charter_tx" where
  "settle_election h now st b =
     (case officeByIDExact st (cb_OfficeID b) of
        None \<Rightarrow> ballot_finish b BallotCancelled ''election_cancelled'' now
      | Some ofc \<Rightarrow>
          let free = sub64 (of_Seats ofc) (seatsHeld st ofc) in
          if free \<le> 0 then ballot_finish b BallotCancelled ''election_cancelled'' now
          else
            tx_bind tx_get (\<lambda>w.
            let cs = map (\<lambda>c. \<lparr>cand_PlayerID = cc_PlayerID c, cand_StoodAt = cc_StoodAt c, cand_Votes = Tally w (cb_ID b) (cc_PlayerID c)\<rparr>)
                  (Candidates w (cb_ID b));
                elected = cnt_Elected (election_Count cs free);
                trm = (if of_TermDays ofc > 0 then days (of_TermDays ofc) else days (cs_ElectionTermDays (cset h))) in
            if elected = [] then ballot_finish b BallotNoResult ''election_no_result'' now
            else
              tx_bind (SettleBallot (cb_ID b) BallotPassed now) (\<lambda>ok.
              if \<not> ok then tx_return ()
              else
                tx_bind (seat_winners h now ofc trm elected) (\<lambda>all.
                if \<not> all then tx_return () else charter_Audit '''' ''election_settled'' (of_ID ofc) now))))"

definition settle_recall :: "charter_ports \<Rightarrow> go_time \<Rightarrow> charter_state \<Rightarrow> charter_ballot \<Rightarrow> unit charter_tx" where
  "settle_recall h now st b =
     tx_bind tx_get (\<lambda>w.
     let yes = Tally w (cb_ID b) ''yes''; no = Tally w (cb_ID b) ''no'';
         carried = Carries yes no (vote_Floor (cb_Eligible b) (cs_RecallMinSignatures (cset h))) in
     tx_bind (SettleBallot (cb_ID b) (if carried then BallotPassed else BallotFailed) now) (\<lambda>ok.
     if \<not> ok then tx_return ()
     else
       tx_bind
         (if \<not> carried then tx_return ()
          else case officeByIDExact st (cb_OfficeID b) of
            Some ofc \<Rightarrow>
              if of_Acquisition ofc = AcquireHead then (if st_headHeld st = cb_Target b then VacateOffice now else tx_return ())
              else tx_bind (EndSeat (cb_OfficeID b) (cb_Target b) ''recalled'' now) (\<lambda>_. tx_return ())
          | None \<Rightarrow> tx_bind (EndSeat (cb_OfficeID b) (cb_Target b) ''recalled'' now) (\<lambda>_. tx_return ()))
         (\<lambda>_. charter_Audit '''' ''recall_settled'' (cb_OfficeID b) now)))"

text \<open>
  A rail that refuses an amendment that carried is logged. A statement that fails aborts the database transaction, so the
  log line fails too and the whole act is rolled back.
\<close>

definition settle_amendment :: "charter_ports \<Rightarrow> go_time \<Rightarrow> charter_state \<Rightarrow> charter_ballot \<Rightarrow> unit charter_tx" where
  "settle_amendment h now st b =
     tx_bind tx_get (\<lambda>w.
     let yes = Tally w (cb_ID b) ''yes''; no = Tally w (cb_ID b) ''no'' in
     if \<not> Carries yes no (QuorumVotes (cset h) (cb_Eligible b)) then
       tx_bind (SettleBallot (cb_ID b) BallotFailed now) (\<lambda>ok.
       if \<not> ok then tx_return () else charter_Audit '''' ''amendment_failed'' (cb_OfficeID b) now)
     else case cb_Proposal b of
       None \<Rightarrow> tx_fail BadProposal
     | Some p \<Rightarrow>
         tx_bind (SettleBallot (cb_ID b) BallotPassed now) (\<lambda>ok.
         if \<not> ok then tx_return ()
         else
           tx_bind (tx_catch (tx_bind (applyAmendment h now st p) (\<lambda>_. tx_return None)) (\<lambda>e. tx_return (Some e))) (\<lambda>failed.
           case failed of
             None \<Rightarrow> charter_Audit (pj_By p) ''amendment_passed'' (cb_OfficeID b) now
           | Some e \<Rightarrow> if e = DBConflict then tx_fail DBConflict else charter_Audit (pj_By p) ''amendment_void'' (cb_OfficeID b) now)))"

definition settleBallot :: "charter_ports \<Rightarrow> go_time \<Rightarrow> charter_ballot \<Rightarrow> unit charter_tx" where
  "settleBallot h now b =
     tx_bind tx_get (\<lambda>w.
     let st = loadCharter h now w in
     case cb_Kind b of
       BallotElection \<Rightarrow> settle_election h now st b
     | BallotRecall \<Rightarrow> settle_recall h now st b
     | BallotAmendment \<Rightarrow> settle_amendment h now st b)"

text \<open>The scheduler's call when a ballot reaches its closing time.\<close>

definition CharterBallotClose :: "charter_ports \<Rightarrow> go_time \<Rightarrow> string \<Rightarrow> unit charter_tx" where
  "CharterBallotClose h now i =
     uow_Do None None (tx_bind tx_get (\<lambda>w.
       case Ballot w i of
         None \<Rightarrow> tx_return ()
       | Some b \<Rightarrow> if cb_Status b \<noteq> BallotOpen \<or> now < cb_ClosesAt b then tx_return () else settleBallot h now b))"

section \<open>Housekeeping\<close>

definition end_term :: "go_time \<Rightarrow> seat_row \<Rightarrow> unit charter_tx" where
  "end_term now s =
     tx_bind (EndSeat (cse_OfficeID s) (cse_HolderID s) ''term_ended'' now) (\<lambda>ok.
     if ok then charter_Audit '''' ''seat_term_ended'' (cse_OfficeID s) now else tx_return ())"

text \<open>The zero \<open>Office\<close>, what \<open>headOffice\<close> gives beside \<open>false\<close>.\<close>

definition zero_office :: office where
  "zero_office = \<lparr>of_ID = '''', of_Title = [], of_Seats = 0, of_Grants = [], of_Acquisition = AcquireOther '''', of_AppointerID = '''', of_TermDays = 0,
     of_Deputy = False, of_Closed = False\<rparr>"

fun owed_elections :: "charter_ports \<Rightarrow> go_time \<Rightarrow> string set \<Rightarrow> office list \<Rightarrow> charter_state \<Rightarrow> bool \<Rightarrow> (charter_state \<times> bool) charter_tx" where
  "owed_elections h now busy [] st changed = tx_return (st, changed)"
| "owed_elections h now busy (ofc # os) st changed =
     (if of_Closed ofc \<or> of_Acquisition ofc \<noteq> AcquireElection \<and> of_Acquisition ofc \<noteq> AcquireHead then owed_elections h now busy os st changed
      else if seatsHeld st ofc \<ge> of_Seats ofc then owed_elections h now busy os st changed
      else
        tx_bind
          (if of_ID ofc = '''' then
             tx_bind (materialise h '''' now st) (\<lambda>st'. tx_return (st', case headOffice st' of Some o' \<Rightarrow> o' | None \<Rightarrow> zero_office))
           else tx_return (st, ofc))
          (\<lambda>(st', o').
           if of_ID o' \<in> busy then owed_elections h now busy os st' changed
           else if of_Acquisition o' = AcquireElection \<and> of_Seats o' > 0 \<and> seatsHeld st' o' = 0 \<and> \<not> st_stored st' then owed_elections h now busy os st' changed
           else tx_bind (openElection h now o' '''') (\<lambda>_. owed_elections h now busy os st' True)))"

text \<open>The offices with an open election, and those whose last one drew no vote less than a day ago.\<close>

definition busy_offices :: "charter_db \<Rightarrow> go_time \<Rightarrow> string set" where
  "busy_offices w now = cb_OfficeID ` set (filter (\<lambda>b. cb_Kind b = BallotElection \<and>
     (cb_Status b = BallotOpen \<or> cb_Status b = BallotNoResult \<and> now < time_Add (cb_SettledAt b) (24 * Hour))) (RecentBallots w 60))"

definition charterTick :: "charter_ports \<Rightarrow> go_time \<Rightarrow> charter_state charter_tx" where
  "charterTick h now =
     tx_bind tx_get (\<lambda>w.
     tx_bind (tx_each (\<lambda>b. if now < cb_ClosesAt b then tx_return () else settleBallot h now b) (OpenBallots w)) (\<lambda>_.
     tx_bind tx_get (\<lambda>w.
     tx_bind (tx_each (end_term now) (ExpiredSeats w now)) (\<lambda>_.
     tx_bind tx_get (\<lambda>w.
     let st = loadCharter h now w in
     tx_bind (owed_elections h now (busy_offices w now) (st_offices st) st False) (\<lambda>(st', changed).
     tx_bind tx_get (\<lambda>w.
     tx_return (if changed then loadCharter h now w else st'))))))))"


section \<open>Acts on the offices\<close>

record charter_request =
  rq_Office :: string
  rq_Title :: "rune list"
  rq_Seats :: int
  rq_Grants :: "(string \<times> int) list"
  rq_Acquisition :: "acquisition option"
  rq_TermDays :: int
  rq_Deputy :: "bool option"
  rq_Player :: string

definition grantsOf :: "(string \<times> int) list \<Rightarrow> grant list" where
  "grantsOf gs = map (\<lambda>(p, l). \<lparr>gt_Permission = trim_id p, gt_Limit = l\<rparr>) gs"

definition fault_of :: "charter_error + 'a \<Rightarrow> charter_fault + 'a" where
  "fault_of r = (case r of Inl e \<Rightarrow> Inl (Rail e) | Inr a \<Rightarrow> Inr a)"

text \<open>
  The office to write: what the request says, the parts of the founder's office that are not the players' to change,
  and the checks on the deputy. \<open>None\<close> as \<open>prev\<close> is a new office.
\<close>

definition next_office :: "charter_ports \<Rightarrow> charter_state \<Rightarrow> office option \<Rightarrow> string \<Rightarrow> rune list \<Rightarrow> grant list \<Rightarrow> charter_request \<Rightarrow> charter_fault + office" where
  "next_office h st prev i title grants rq =
     (let n0 = \<lparr>of_ID = i, of_Title = title, of_Seats = (if rq_Seats rq = 0 then 1 else rq_Seats rq), of_Grants = grants,
          of_Acquisition = (case rq_Acquisition rq of None \<Rightarrow> AcquireAppointment | Some a \<Rightarrow> a), of_AppointerID = '''', of_TermDays = rq_TermDays rq,
          of_Deputy = False, of_Closed = False\<rparr>;
        is_head = (case prev of Some p \<Rightarrow> of_Acquisition p = AcquireHead | None \<Rightarrow> False);
        n1 = (case prev of
                None \<Rightarrow> n0
              | Some p \<Rightarrow>
                  if is_head then n0\<lparr>of_ID := of_ID p, of_Seats := of_Seats p, of_Grants := of_Grants p, of_Acquisition := of_Acquisition p\<rparr>
                  else n0\<lparr>of_ID := of_ID p\<rparr>);
        n2 = (if of_Acquisition n1 = AcquireElection \<and> of_TermDays n1 = 0 then n1\<lparr>of_TermDays := cs_ElectionTermDays (cset h)\<rparr> else n1);
        n3 = n2\<lparr>of_Deputy := (case rq_Deputy rq of Some d \<Rightarrow> d | None \<Rightarrow> (case prev of Some p \<Rightarrow> of_Deputy p | None \<Rightarrow> False))\<rparr> in
      if (case prev of Some p \<Rightarrow> of_Seats n1 < int (length (st_seats st (of_ID p))) \<and> \<not> is_head | None \<Rightarrow> False) then Inl (Rail ErrSeatsFull)
      else if of_Acquisition n1 = AcquireHead \<and> \<not> is_head then Inl (Rail ErrAcquisition)
      else if of_Deputy n3 \<and> of_Acquisition n3 = AcquireHead then Inl (Rail ErrAcquisition)
      else if of_Deputy n3 \<and> (\<exists>ofc\<in>set (st_offices st). of_Deputy ofc \<and> \<not> of_Closed ofc \<and> (case prev of None \<Rightarrow> True | Some p \<Rightarrow> of_ID ofc \<noteq> of_ID p))
        then Inl (Refused CharterDeputyTaken)
      else Inr n3)"

text \<open>The rails on the office, then the vote it needs or the rows it changes.\<close>

definition save_rails :: "charter_ports \<Rightarrow> charter_state \<Rightarrow> held \<Rightarrow> office option \<Rightarrow> office \<Rightarrow> charter_limits \<Rightarrow> unit charter_tx" where
  "save_rails h st held prev next lim =
     (let grants = of_Grants next; before = (case prev of Some p \<Rightarrow> of_Grants p | None \<Rightarrow> []);
          open_after = int (length (st_offices st)) + (if prev = None then 1 else 0);
          after = (case prev of Some _ \<Rightarrow> office_states st (replace_in next (st_offices st))
                   | None \<Rightarrow> office_states st (st_offices st) @ [(next, False)]) in
      tx_bind (rail (ValidateOffice next open_after lim)) (\<lambda>_.
      tx_bind (rail (CanGrant held (widened before grants))) (\<lambda>_.
      rail (ManagerGuard after))))"

definition save_rows :: "charter_ports \<Rightarrow> go_time \<Rightarrow> string \<Rightarrow> held \<Rightarrow> office option \<Rightarrow> office \<Rightarrow> string option charter_tx" where
  "save_rows h now player held prev next =
     (let write = (let action = (if prev = None then ''office_created'' else ''office_changed'') in
        tx_bind (SaveOffice (cp_DBLower h) next now) (\<lambda>_.
        tx_bind (charter_Audit player action (of_ID next) now) (\<lambda>_.
        tx_bind (appendVillageEvent action (of_ID next) player) (\<lambda>_. tx_return (Some action))))) in
      case prev of
        None \<Rightarrow> write
      | Some p \<Rightarrow>
          if \<not> Structural p next then write
          else tx_bind tx_get (\<lambda>w.
            if \<not> NeedsVote (cset h) (ResidentCount w) then write
            else if \<not> Held_Has held CharterAmend then tx_fail (NotOfficeHolder CharterAmend)
            else tx_bind (openAmendment h now ''save'' next player) (\<lambda>_. tx_return (Some ''amendment_proposed''))))"

definition office_save :: "charter_ports \<Rightarrow> go_time \<Rightarrow> string \<Rightarrow> string \<Rightarrow> charter_request \<Rightarrow> charter_state \<Rightarrow> string option charter_tx" where
  "office_save h now player key rq st0 =
     (let held = heldBy st0 player; creating = (resolveOffice st0 (rq_Office rq) = '''');
          need = (if creating then OfficeCreate else OfficeEdit) in
      if \<not> Held_Has held need then tx_fail (NotOfficeHolder need)
      else
        tx_bind (charter_Reserve player key) (\<lambda>fresh.
        if \<not> fresh then tx_return None
        else
          tx_bind (materialise h player now st0) (\<lambda>st.
          let i = resolveOffice st (resolveOffice st0 (rq_Office rq)); lim = (charter_limits_of h)\<lparr>lim_Inquisitorial := cp_Inquisitorial h\<rparr>;
              prev = find (\<lambda>ofc. of_ID ofc = i) (st_offices st) in
          tx_bind (tx_lift (fault_of (NormaliseGrantsForSettlement (grantsOf (rq_Grants rq))))) (\<lambda>grants.
          if \<not> creating \<and> prev = None then tx_fail (Refused VillageNotFound)
          else
            let taken = map of_Title (filter (\<lambda>ofc. case prev of None \<Rightarrow> True | Some p \<Rightarrow> of_ID ofc \<noteq> of_ID p) (st_offices st)) in
            tx_bind (tx_lift (fault_of (ValidateTitle (cp_Lower h) (rq_Title rq) taken lim))) (\<lambda>title.
            tx_bind (charter_NewID (cp_NewID h)) (\<lambda>new_id.
            tx_bind (tx_lift (next_office h st prev new_id title grants rq)) (\<lambda>next.
            tx_bind (save_rails h st held prev next lim) (\<lambda>_.
            save_rows h now player held prev next))))))))"

definition CharterOfficeSave :: "charter_ports \<Rightarrow> go_time \<Rightarrow> string \<Rightarrow> string \<Rightarrow> charter_request \<Rightarrow> string option charter_tx" where
  "CharterOfficeSave h now player key rq = uow_Do None None (tx_bind (charterTick h now) (office_save h now player key rq))"

definition office_close :: "charter_ports \<Rightarrow> go_time \<Rightarrow> string \<Rightarrow> string \<Rightarrow> charter_request \<Rightarrow> charter_state \<Rightarrow> string option charter_tx" where
  "office_close h now player key rq st =
     (if \<not> Held_Has (heldBy st player) OfficeEdit then tx_fail (NotOfficeHolder OfficeEdit)
      else
        tx_bind (charter_Reserve player key) (\<lambda>fresh.
        if \<not> fresh then tx_return None
        else case find (\<lambda>ofc. of_ID ofc \<noteq> '''' \<and> of_ID ofc = trim_id (rq_Office rq)) (st_offices st) of
          None \<Rightarrow> tx_fail (Refused VillageNotFound)
        | Some target \<Rightarrow>
            if of_Acquisition target = AcquireHead then tx_fail (Rail ErrHeadOffice)
            else
              let write =
                tx_bind (EndSeatsOf (of_ID target) ''office_closed'' now) (\<lambda>_.
                tx_bind (CloseOffice (of_ID target) now) (\<lambda>_.
                tx_bind (charter_Audit player ''office_closed'' (of_ID target) now) (\<lambda>_.
                tx_bind (appendVillageEvent ''office_closed'' (of_ID target) player) (\<lambda>_. tx_return (Some ''office_closed''))))) in
              tx_bind (rail (ManagerGuard (office_states st (close_in (of_ID target) (st_offices st))))) (\<lambda>_.
              if \<not> ClosingNeedsVote target then write
              else tx_bind tx_get (\<lambda>w.
                if \<not> NeedsVote (cset h) (ResidentCount w) then write
                else if \<not> Held_Has (heldBy st player) CharterAmend then tx_fail (NotOfficeHolder CharterAmend)
                else tx_bind (openAmendment h now ''close'' target player) (\<lambda>_. tx_return (Some ''amendment_proposed''))))))"

definition CharterOfficeClose :: "charter_ports \<Rightarrow> go_time \<Rightarrow> string \<Rightarrow> string \<Rightarrow> charter_request \<Rightarrow> string option charter_tx" where
  "CharterOfficeClose h now player key rq = uow_Do None None (tx_bind (charterTick h now) (office_close h now player key rq))"

section \<open>Acts on the seats\<close>

definition seat_fill :: "charter_ports \<Rightarrow> go_time \<Rightarrow> string \<Rightarrow> charter_state \<Rightarrow> office \<Rightarrow> string \<Rightarrow> string charter_tx" where
  "seat_fill h now player st target whom =
     tx_bind (rail (CanGrant (heldBy st player) (of_Grants target))) (\<lambda>_.
     if int (length (st_seats st (of_ID target))) \<ge> of_Seats target then tx_fail (Rail ErrSeatsFull)
     else tx_bind tx_get (\<lambda>w.
       if RecalledSince w (of_ID target) whom (time_Add now (mul64 (mul64 (neg64 (cs_RecallCooldownDays (cset h))) 24) Hour))
         then tx_fail (Refused CharterRecalledRecent)
       else if cp_Banned h whom then tx_fail (Refused LawBanned)
       else
         tx_bind (charter_NewID (cp_NewID h)) (\<lambda>i.
         tx_bind (Seat \<lparr>cse_ID = i, cse_OfficeID = of_ID target, cse_HolderID = whom, cse_AppointedBy = player, cse_Since = now, cse_TermEnds = 0\<rparr>) (\<lambda>ok.
         if \<not> ok then tx_fail (Rail ErrAlreadySeated) else tx_return ''seat_filled''))))"

text \<open>Whether each office is held after the seat ends.\<close>

definition states_without :: "charter_state \<Rightarrow> string \<Rightarrow> string \<Rightarrow> (office \<times> bool) list" where
  "states_without st i whom =
     map (\<lambda>ofc. (ofc, if of_ID ofc = i then (\<exists>s\<in>set (st_seats st i). cse_HolderID s \<noteq> whom) else st_held st ofc)) (st_offices st)"

definition seat_end :: "charter_ports \<Rightarrow> go_time \<Rightarrow> charter_state \<Rightarrow> office \<Rightarrow> string \<Rightarrow> string \<Rightarrow> string charter_tx" where
  "seat_end h now st target whom reason =
     (if of_Acquisition target = AcquireHead then tx_fail (Rail ErrHeadOffice)
      else
        tx_bind (rail (ManagerGuard (states_without st (of_ID target) whom))) (\<lambda>_.
        tx_bind (EndSeat (of_ID target) whom reason now) (\<lambda>ok.
        if \<not> ok then tx_fail (Refused VillageNotFound) else tx_return (''seat_'' @ reason))))"

definition office_seat :: "charter_ports \<Rightarrow> go_time \<Rightarrow> string \<Rightarrow> string \<Rightarrow> charter_request \<Rightarrow> bool \<Rightarrow> charter_state \<Rightarrow> string option charter_tx" where
  "office_seat h now player key rq appoint st =
     (let held = heldBy st player; resign = (\<not> appoint \<and> trim_id (rq_Player rq) = '''');
          need = (if appoint then OfficeAppoint else OfficeDismiss) in
      if \<not> resign \<and> \<not> Held_Has held need then tx_fail (NotOfficeHolder need)
      else
        tx_bind (charter_Reserve player key) (\<lambda>fresh.
        if \<not> fresh then tx_return None
        else case find (\<lambda>ofc. of_ID ofc \<noteq> '''' \<and> of_ID ofc = trim_id (rq_Office rq)) (st_offices st) of
          None \<Rightarrow> tx_fail (Refused VillageNotFound)
        | Some target \<Rightarrow>
            if of_Acquisition target \<noteq> AcquireAppointment \<and> \<not> resign then tx_fail (Rail ErrAcquisition)
            else
              tx_bind tx_get (\<lambda>w.
              case (if resign then Some player else map_option re_ID (ResidentByCode w (trim_id (rq_Player rq)))) of
                None \<Rightarrow> tx_fail (Refused VillageNotResident)
              | Some whom \<Rightarrow>
                  tx_bind (if appoint then seat_fill h now player st target whom
                           else seat_end h now st target whom (if resign then ''resigned'' else ''dismissed'')) (\<lambda>action.
                  tx_bind (charter_Audit player action (of_ID target) now) (\<lambda>_.
                  tx_bind (appendVillageEvent action (of_ID target) player) (\<lambda>_. tx_return (Some action)))))))"

definition charterSeat :: "charter_ports \<Rightarrow> go_time \<Rightarrow> string \<Rightarrow> string \<Rightarrow> charter_request \<Rightarrow> bool \<Rightarrow> string option charter_tx" where
  "charterSeat h now player key rq appoint = uow_Do None None (tx_bind (charterTick h now) (office_seat h now player key rq appoint))"

definition CharterAppoint where "CharterAppoint h now player key rq = charterSeat h now player key rq True"
definition CharterDismiss where "CharterDismiss h now player key rq = charterSeat h now player key rq False"
definition CharterResign where "CharterResign h now player key rq = charterSeat h now player key (rq\<lparr>rq_Player := ''''\<rparr>) False"


section \<open>Acts of the residents\<close>

text \<open>\<open>charterAct\<close>: the housekeeping, the key, then the act.\<close>

definition charterAct :: "charter_ports \<Rightarrow> go_time \<Rightarrow> string \<Rightarrow> string \<Rightarrow> (charter_state \<Rightarrow> string charter_tx) \<Rightarrow> string option charter_tx" where
  "charterAct h now player key act =
     uow_Do None None
       (tx_bind (charterTick h now) (\<lambda>st.
        tx_bind (charter_Reserve player key) (\<lambda>fresh.
        if \<not> fresh then tx_return None else tx_bind (act st) (\<lambda>action. tx_return (Some action)))))"

definition election_open :: "charter_ports \<Rightarrow> go_time \<Rightarrow> string \<Rightarrow> string \<Rightarrow> charter_state \<Rightarrow> string charter_tx" where
  "election_open h now player office st =
     (if \<not> Held_Has (heldBy st player) ElectionCall then tx_fail (NotOfficeHolder ElectionCall)
      else case officeByID st office of
        None \<Rightarrow> tx_fail (Refused CharterNotElected)
      | Some ofc \<Rightarrow>
          if of_Acquisition ofc \<noteq> AcquireElection \<and> of_Acquisition ofc \<noteq> AcquireHead then tx_fail (Refused CharterNotElected)
          else if seatsHeld st ofc \<ge> of_Seats ofc then tx_fail (Refused CharterNoVacancy)
          else
            tx_bind
              (if of_ID ofc = '''' \<or> of_ID ofc = ''founder'' then
                 tx_bind (materialise h player now st) (\<lambda>st'. tx_return (case headOffice st' of Some o' \<Rightarrow> o' | None \<Rightarrow> zero_office))
               else tx_return ofc) (\<lambda>o'.
            tx_bind (openElection h now o' player) (\<lambda>i.
            if i = '''' then tx_fail (Refused CharterElectionOpen) else tx_return ''election_opened'')))"

definition CharterElectionOpen where
  "CharterElectionOpen h now player key office = charterAct h now player key (election_open h now player office)"

definition openBallotOf :: "charter_db \<Rightarrow> go_time \<Rightarrow> string \<Rightarrow> charter_ballot option" where
  "openBallotOf w now i =
     (case Ballot w (trim_id i) of
        None \<Rightarrow> None
      | Some b \<Rightarrow> if cb_Status b = BallotOpen \<and> now < cb_ClosesAt b then Some b else None)"

definition charter_stand :: "charter_ports \<Rightarrow> go_time \<Rightarrow> string \<Rightarrow> string \<Rightarrow> string charter_tx" where
  "charter_stand h now player ballot =
     tx_bind tx_get (\<lambda>w.
     case openBallotOf w now ballot of
       None \<Rightarrow> tx_fail (Refused CharterNoBallot)
     | Some b \<Rightarrow>
         if cb_Kind b \<noteq> BallotElection then tx_fail (Refused CharterNoBallot)
         else if PhaseAt (cset h) (cb_OpensAt b) now \<noteq> PhaseCandidacy then tx_fail (Refused CharterNotCandidacy)
         else if \<not> IsEligible w player (voterCut h (cb_OpensAt b)) then tx_fail (Refused CharterNotEligible)
         else
           tx_bind (AddCandidate (cb_ID b) player now) (\<lambda>ok.
           if \<not> ok then tx_fail (Refused CharterAlreadyStanding)
           else tx_bind (charter_Audit player ''candidate_stood'' (cb_OfficeID b) now) (\<lambda>_. tx_return ''candidate_stood'')))"

definition CharterStand where
  "CharterStand h now player key ballot = charterAct h now player key (\<lambda>_. charter_stand h now player ballot)"

text \<open>What a choice stands for: a candidate of an election, \<open>yes\<close> or \<open>no\<close> of the others (lower case of ASCII text).\<close>

definition ascii_lower :: "string \<Rightarrow> string" where
  "ascii_lower s = map (\<lambda>c. if 65 \<le> (of_char c :: nat) \<and> (of_char c :: nat) \<le> 90 then char_of ((of_char c :: nat) + 32) else c) s"

definition vote_choice :: "charter_ports \<Rightarrow> go_time \<Rightarrow> charter_db \<Rightarrow> string \<Rightarrow> charter_ballot \<Rightarrow> string \<Rightarrow> village_refusal + string" where
  "vote_choice h now w player b choice =
     (if cb_Kind b = BallotElection then
        if PhaseAt (cset h) (cb_OpensAt b) now \<noteq> PhaseVoting then Inl CharterNotVoting
        else case ResidentByCode w (trim_id choice) of
          None \<Rightarrow> Inl CharterBadChoice
        | Some who \<Rightarrow> if re_ID who \<noteq> '''' \<and> (\<exists>c\<in>set (Candidates w (cb_ID b)). cc_PlayerID c = re_ID who) then Inr (re_ID who) else Inl CharterBadChoice
      else
        let c = ascii_lower (trim_id choice) in
        if c \<noteq> ''yes'' \<and> c \<noteq> ''no'' then Inl CharterBadChoice
        else if cb_Target b = player then Inl CharterTargetVoting
        else Inr c)"

definition charter_vote :: "charter_ports \<Rightarrow> go_time \<Rightarrow> string \<Rightarrow> string \<Rightarrow> string \<Rightarrow> string charter_tx" where
  "charter_vote h now player ballot choice =
     tx_bind tx_get (\<lambda>w.
     case openBallotOf w now ballot of
       None \<Rightarrow> tx_fail (Refused CharterNoBallot)
     | Some b \<Rightarrow>
         (case vote_choice h now w player b choice of
            Inl r \<Rightarrow> tx_fail (Refused r)
          | Inr c \<Rightarrow>
              if \<not> IsEligible w player (voterCut h (cb_OpensAt b)) then tx_fail (Refused CharterNotEligible)
              else
                tx_bind (Cast (cb_ID b) player c) (\<lambda>ok.
                if \<not> ok then tx_fail (Refused CharterAlreadyVoted)
                else tx_bind (charter_Audit '''' ''vote_cast'' (cb_OfficeID b) now) (\<lambda>_. tx_return ''vote_cast''))))"

definition CharterVote where
  "CharterVote h now player key ballot choice = charterAct h now player key (\<lambda>_. charter_vote h now player ballot choice)"

definition holderSince :: "charter_state \<Rightarrow> office \<Rightarrow> string \<Rightarrow> go_time option" where
  "holderSince st ofc player =
     (if of_Acquisition ofc = AcquireHead then (if st_headHeld st = player then Some (st_headSince st) else None)
      else map_option cse_Since (find (\<lambda>s. cse_HolderID s = player) (st_seats st (of_ID ofc))))"

text \<open>Signing, and the vote that the last signature needed opens.\<close>

definition signPetition :: "charter_ports \<Rightarrow> go_time \<Rightarrow> string \<Rightarrow> charter_petition \<Rightarrow> string charter_tx" where
  "signPetition h now player pet =
     (if pet_Target pet = player then tx_fail (Refused CharterRecallSelf)
      else tx_bind tx_get (\<lambda>w.
        if \<not> IsEligible w player (voterCut h (pet_CreatedAt pet)) then tx_fail (Refused CharterNotEligible)
        else
          tx_bind (Sign (pet_ID pet) player) (\<lambda>_.
          tx_bind tx_get (\<lambda>w.
          let eligible = charter_Eligible w (voterCut h (pet_CreatedAt pet)); closes = time_Add now (hours (cs_RecallVoteHours (cset h))) in
          if Signatures w (pet_ID pet) < RecallSignatures (cset h) eligible then tx_return ''''
          else
            tx_bind (charter_NewID (cp_NewID h)) (\<lambda>i.
            tx_bind (charter_schedule (cp_NewID h) closes) (\<lambda>action.
            tx_bind (OpenBallot (new_ballot i BallotRecall (pet_OfficeID pet) (pet_Target pet) (pet_StartedBy pet) None now closes eligible action)) (\<lambda>ok.
            if \<not> ok then tx_return ''''
            else
              tx_bind (SetPetition (pet_ID pet) False i) (\<lambda>_.
              tx_bind (charter_Audit '''' ''recall_vote_opened'' (pet_OfficeID pet) now) (\<lambda>_. tx_return i)))))))))"

text \<open>\<open>holder_code\<close> is the public code of a player, for a holder who does not live in the settlement.\<close>

definition holderByCode :: "(string \<Rightarrow> string option) \<Rightarrow> charter_state \<Rightarrow> office \<Rightarrow> string \<Rightarrow> string option" where
  "holderByCode holder_code st ofc code =
     map_option cse_HolderID (find (\<lambda>s. map_option ascii_upper (holder_code (cse_HolderID s)) = Some (ascii_upper (trim_id code))) (st_seats st (of_ID ofc)))"

definition recall_start :: "charter_ports \<Rightarrow> (string \<Rightarrow> string option) \<Rightarrow> go_time \<Rightarrow> string \<Rightarrow> string \<Rightarrow> string \<Rightarrow> charter_state \<Rightarrow> string charter_tx" where
  "recall_start h holder_code now player office code st0 =
     (case officeByID st0 office of
        None \<Rightarrow> tx_fail (Refused VillageNotFound)
      | Some ofc0 \<Rightarrow>
          tx_bind
            (if of_ID ofc0 = '''' \<or> of_ID ofc0 = ''founder'' then
               tx_bind (materialise h player now st0) (\<lambda>st'. tx_return (st', case headOffice st' of Some o' \<Rightarrow> o' | None \<Rightarrow> zero_office))
             else tx_return (st0, ofc0)) (\<lambda>(st, ofc).
          tx_bind tx_get (\<lambda>w.
          case (case ResidentByCode w (trim_id code) of Some r \<Rightarrow> Some (re_ID r) | None \<Rightarrow> holderByCode holder_code st ofc code) of
            None \<Rightarrow> tx_fail (Refused CharterNotHolder)
          | Some who \<Rightarrow>
              (case holderSince st ofc who of
                 None \<Rightarrow> tx_fail (Refused CharterNotHolder)
               | Some since \<Rightarrow>
                   let last = LastRecall w (of_ID ofc) who in
                   if who = player then tx_fail (Refused CharterRecallSelf)
                   else if \<not> IsEligible w player (voterCut h now) then tx_fail (Refused CharterNotEligible)
                   else if \<not> RecallTenureOK (cset h) since now then tx_fail (Refused CharterRecallTooEarly)
                   else if \<not> time_IsZero last \<and> now < RecallCoolingUntil (cset h) last then tx_fail (Refused CharterRecallCooling)
                   else
                     tx_bind (charter_NewID (cp_NewID h)) (\<lambda>pid.
                     let p = \<lparr>pet_ID = pid, pet_OfficeID = of_ID ofc, pet_Target = who, pet_StartedBy = player, pet_Open = True, pet_BallotID = '''', pet_CreatedAt = now\<rparr> in
                     tx_bind (OpenPetition p) (\<lambda>ok.
                     if \<not> ok then tx_fail (Refused CharterRecallOpen)
                     else
                       tx_bind (charter_Audit player ''recall_petition_started'' (of_ID ofc) now) (\<lambda>_.
                       tx_bind (signPetition h now player p) (\<lambda>_. tx_return ''recall_petition_started''))))))))"

definition CharterRecallStart where
  "CharterRecallStart h holder_code now player key office code = charterAct h now player key (recall_start h holder_code now player office code)"

definition recall_sign :: "charter_ports \<Rightarrow> go_time \<Rightarrow> string \<Rightarrow> string \<Rightarrow> string charter_tx" where
  "recall_sign h now player petition =
     tx_bind tx_get (\<lambda>w.
     case Petition w (trim_id petition) of
       None \<Rightarrow> tx_fail (Refused CharterNoBallot)
     | Some p \<Rightarrow>
         if \<not> pet_Open p then tx_fail (Refused CharterNoBallot)
         else tx_bind (signPetition h now player p) (\<lambda>_. tx_return ''recall_signed''))"

definition CharterRecallSign where
  "CharterRecallSign h now player key petition = charterAct h now player key (\<lambda>_. recall_sign h now player petition)"

end
