(* ===== verification/Charter_System.thy ===== *)
theory Charter_System
  imports Charter_Service
begin

text \<open>
  The charter of a settlement under any sequence of acts, due ballots, moving residents and changing heads
  (\<open>charter_reach\<close>). \<open>charter_ok\<close> is the invariant of the rows: what the foreign keys and the unique indexes say, every
  office within the rails, the founder's office open with all its powers as soon as anything is written, and every
  amendment put to the vote a change the rails allow. \<open>granted\<close> is what a player holds through the offices they sit in;
  no act raises it beyond what the actor holds, and no act leaves the charter without a manager.
\<close>

section \<open>Rows that stay\<close>

definition office_ids :: "charter_db \<Rightarrow> string set" where
  "office_ids w = (of_ID \<circ> or_Office) ` set (cd_Offices w)"

definition same_rows :: "charter_db \<Rightarrow> charter_db \<Rightarrow> bool" where
  "same_rows w w' \<longleftrightarrow> cd_Offices w' = cd_Offices w \<and> cd_Seats w' = cd_Seats w \<and> cd_Ballots w' = cd_Ballots w \<and>
     pet_OfficeID ` set (cd_Petitions w') \<subseteq> pet_OfficeID ` set (cd_Petitions w) \<and> cd_NextID w \<le> cd_NextID w'"

lemma office_ids_update: "office_ids (w\<lparr>cd_Offices := rows\<rparr>) = (of_ID \<circ> or_Office) ` set rows"
  by (simp add: office_ids_def)

lemma office_ids_map: "office_ids w = of_ID ` set (map or_Office (cd_Offices w))"
  by (simp add: office_ids_def image_comp)

lemma same_rows_refl [simp]: "same_rows w w"
  by (simp add: same_rows_def)

lemma same_rows_trans [trans]: "same_rows a b \<Longrightarrow> same_rows b c \<Longrightarrow> same_rows a c"
  unfolding same_rows_def by (simp, meson order_trans)

named_theorems same_rules "statements that leave offices, seats and ballots alone"

lemma statements_same [same_rules]:
  "charter_Reserve p k w = (w', Inr b) \<Longrightarrow> same_rows w w'"
  "charter_NewID ids w = (w', Inr i) \<Longrightarrow> same_rows w w'"
  "charter_schedule ids t w = (w', Inr i) \<Longrightarrow> same_rows w w'"
  "charter_Audit a x i t w = (w', Inr u) \<Longrightarrow> same_rows w w'"
  "appendVillageEvent x i p w = (w', Inr u) \<Longrightarrow> same_rows w w'"
  "AddCandidate x p t w = (w', Inr b) \<Longrightarrow> same_rows w w'"
  "Cast x p c w = (w', Inr b) \<Longrightarrow> same_rows w w'"
  "Sign x p w = (w', Inr b) \<Longrightarrow> same_rows w w'"
  "SetPetition i is_open x w = (w', Inr u) \<Longrightarrow> same_rows w w'"
  "ElectToOffice f p t w = (w', Inr u) \<Longrightarrow> same_rows w w'"
  "VacateOffice t w = (w', Inr u) \<Longrightarrow> same_rows w w'"
  by (auto simp: same_rows_def charter_Reserve_def charter_NewID_def charter_schedule_def charter_Audit_def appendVillageEvent_def AddCandidate_def Cast_def
      Sign_def SetPetition_def ElectToOffice_def VacateOffice_def tx_bind_def split: if_splits)

lemma NewID_run: "charter_NewID ids w = (w', Inr i) \<longleftrightarrow> w' = w\<lparr>cd_NextID := Suc (cd_NextID w)\<rparr> \<and> i = ids (cd_NextID w)"
  by (auto simp: charter_NewID_def)

section \<open>The invariant\<close>

definition lim_of :: "charter_ports \<Rightarrow> charter_limits" where
  "lim_of h = (charter_limits_of h)\<lparr>lim_Inquisitorial := cp_Inquisitorial h\<rparr>"

text \<open>An office within the rails.\<close>

definition office_wf :: "charter_ports \<Rightarrow> office \<Rightarrow> bool" where
  "office_wf h ofc \<longleftrightarrow> \<not> of_Closed ofc \<and> 1 \<le> of_Seats ofc \<and>
     (if of_Acquisition ofc = AcquireHead then of_Grants ofc = AllPermissions \<and> \<not> of_Deputy ofc
      else of_Seats ofc \<le> lim_MaxSeats (lim_of h) \<and> int (length (of_Grants ofc)) \<le> lim_MaxPermissions (lim_of h) \<and>
        distinct (map gt_Permission (of_Grants ofc)) \<and> (\<forall>g\<in>set (of_Grants ofc). grant_ok g \<and> \<not> UnionOnly (gt_Permission g)) \<and>
        ValidateSeparation ofc (cp_Inquisitorial h) = None \<and> of_Acquisition ofc \<in> {AcquireAppointment, AcquireElection})"

definition proposal_ok :: "charter_ports \<Rightarrow> office_row list \<Rightarrow> charter_ballot \<Rightarrow> bool" where
  "proposal_ok h rows b \<longleftrightarrow> (cb_Kind b = BallotAmendment \<longrightarrow>
     (\<exists>p. cb_Proposal b = Some p \<and> office_wf h (json_office (pj_Office p)) \<and>
       (\<forall>ofc\<in>set (map or_Office rows). of_ID ofc = oj_ID (pj_Office p) \<longrightarrow>
         (of_Acquisition ofc = AcquireHead \<longleftrightarrow> oj_Acquisition (pj_Office p) = AcquireHead)) \<and>
       oj_ID (pj_Office p) \<in> of_ID ` set (map or_Office rows)))"

definition ids_unique :: "charter_ports \<Rightarrow> bool" where
  "ids_unique h \<longleftrightarrow> inj (cp_NewID h) \<and> (\<forall>n. cp_NewID h n \<noteq> '''' \<and> cp_NewID h n \<noteq> ''founder'' \<and> trim_id (cp_NewID h n) = cp_NewID h n)"

definition charter_ok :: "charter_ports \<Rightarrow> charter_db \<Rightarrow> bool" where
  "charter_ok h w \<longleftrightarrow>
     (\<forall>n\<ge>cd_NextID w. cp_NewID h n \<notin> office_ids w) \<and> '''' \<notin> office_ids w \<and> distinct (map (of_ID \<circ> or_Office) (cd_Offices w)) \<and>
     cse_OfficeID ` set (cd_Seats w) \<subseteq> office_ids w \<and> cb_OfficeID ` set (cd_Ballots w) \<subseteq> office_ids w \<and>
     pet_OfficeID ` set (cd_Petitions w) \<subseteq> office_ids w \<and>
     (\<forall>r\<in>set (cd_Offices w). office_wf h (or_Office r)) \<and>
     (cd_Offices w \<noteq> [] \<longrightarrow> (\<exists>r\<in>set (cd_Offices w). row_open r \<and> of_Acquisition (or_Office r) = AcquireHead)) \<and>
     office_rows_ok (cp_DBLower h) (cd_Offices w) \<and> (\<forall>b\<in>set (cd_Ballots w). proposal_ok h (cd_Offices w) b)"

lemma charter_okD:
  assumes "charter_ok h w"
  shows "\<forall>n\<ge>cd_NextID w. cp_NewID h n \<notin> office_ids w" "'''' \<notin> office_ids w" "distinct (map (of_ID \<circ> or_Office) (cd_Offices w))"
    "cse_OfficeID ` set (cd_Seats w) \<subseteq> office_ids w" "cb_OfficeID ` set (cd_Ballots w) \<subseteq> office_ids w" "pet_OfficeID ` set (cd_Petitions w) \<subseteq> office_ids w"
    "\<And>r. r \<in> set (cd_Offices w) \<Longrightarrow> office_wf h (or_Office r)" "office_rows_ok (cp_DBLower h) (cd_Offices w)"
    "\<And>b. b \<in> set (cd_Ballots w) \<Longrightarrow> proposal_ok h (cd_Offices w) b"
    "cd_Offices w \<noteq> [] \<Longrightarrow> \<exists>r\<in>set (cd_Offices w). row_open r \<and> of_Acquisition (or_Office r) = AcquireHead"
  using assms by (simp_all add: charter_ok_def)

lemma charter_ok_same:
  assumes "charter_ok h w" "same_rows w w'"
  shows "charter_ok h w'"
proof -
  have e: "cd_Offices w' = cd_Offices w" "cd_Seats w' = cd_Seats w" "cd_Ballots w' = cd_Ballots w" "office_ids w' = office_ids w"
    and p: "pet_OfficeID ` set (cd_Petitions w') \<subseteq> pet_OfficeID ` set (cd_Petitions w)" and n: "cd_NextID w \<le> cd_NextID w'"
    using assms(2) by (simp_all add: same_rows_def office_ids_def)
  from assms(1) show ?thesis unfolding charter_ok_def e
    by (elim conjE, intro conjI) (use p n in \<open>simp_all, meson order_trans\<close>)
qed

text \<open>The loaded charter shows rows that are there, or the founder's office that nothing wrote yet.\<close>

definition st_ok :: "charter_ports \<Rightarrow> charter_state \<Rightarrow> charter_db \<Rightarrow> bool" where
  "st_ok h st w \<longleftrightarrow>
     (if st_stored st then set (st_offices st) = or_Office ` set (filter row_open (cd_Offices w)) \<and> cd_Offices w \<noteq> []
      else st_offices st = [FoundersOffice '''' (cp_Title h)] \<and> cd_Offices w = [])"

lemma st_ok_same: "st_ok h st w \<Longrightarrow> same_rows w w' \<Longrightarrow> st_ok h st w'"
  by (simp add: st_ok_def same_rows_def)

lemma set_Offices: "set (Offices w) = or_Office ` set (filter row_open (cd_Offices w))"
  by (simp add: Offices_def)

lemma Offices_empty: "charter_ok h w \<Longrightarrow> Offices w = [] \<longleftrightarrow> cd_Offices w = []"
  using set_Offices [of w] by (auto simp: charter_ok_def)

lemma loadCharter_simps [simp]:
  "st_offices (loadCharter h now w) = (if Offices w \<noteq> [] then Offices w else [FoundersOffice '''' (cp_Title h)])"
  "st_stored (loadCharter h now w) \<longleftrightarrow> Offices w \<noteq> []" "st_headHeld (loadCharter h now w) = cd_Holder w"
  "st_seats (loadCharter h now w) =
     (\<lambda>i. filter (\<lambda>s. cse_OfficeID s = i) (if Offices w \<noteq> [] then filter (\<lambda>s. time_IsZero (cse_TermEnds s) \<or> now < cse_TermEnds s) (Seats w) else []))"
  by (simp_all add: loadCharter_def Let_def)

lemma loadCharter_ok: "charter_ok h w \<Longrightarrow> st_ok h (loadCharter h now w) w"
  by (auto simp: st_ok_def set_Offices Offices_empty)


section \<open>Statements that write\<close>

lemma upsert_map: "map (of_ID \<circ> or_Office) (upsert_office ofc at rows) =
    (if of_ID ofc \<in> set (map (of_ID \<circ> or_Office) rows) then map (of_ID \<circ> or_Office) rows else map (of_ID \<circ> or_Office) rows @ [of_ID ofc])"
  by (simp add: upsert_office_def)

lemma upsert_ids: "(of_ID \<circ> or_Office) ` set (upsert_office ofc at rows) = insert (of_ID ofc) ((of_ID \<circ> or_Office) ` set rows)"
  using arg_cong [OF upsert_map [of ofc at rows], of set] by (auto simp only: set_map set_append list.set split: if_splits)

lemma upsert_distinct: "distinct (map (of_ID \<circ> or_Office) rows) \<Longrightarrow> distinct (map (of_ID \<circ> or_Office) (upsert_office ofc at rows))"
  unfolding upsert_map by simp

lemma upsert_member: "r \<in> set (upsert_office ofc at rows) \<Longrightarrow> or_Office r = ofc \<or> r \<in> set rows"
  by (auto simp: upsert_office_def split: if_splits)

lemma proposal_ok_upsert:
  assumes "proposal_ok h rows b" "\<forall>r\<in>set rows. of_ID (or_Office r) = of_ID ofc \<longrightarrow> (of_Acquisition (or_Office r) = AcquireHead \<longleftrightarrow> of_Acquisition ofc = AcquireHead)"
  shows "proposal_ok h (upsert_office ofc at rows) b"
proof (cases "cb_Kind b = BallotAmendment")
  case True
  then obtain p where p: "cb_Proposal b = Some p" "office_wf h (json_office (pj_Office p))" "oj_ID (pj_Office p) \<in> (of_ID \<circ> or_Office) ` set rows"
    "\<forall>r\<in>set rows. of_ID (or_Office r) = oj_ID (pj_Office p) \<longrightarrow> (of_Acquisition (or_Office r) = AcquireHead \<longleftrightarrow> oj_Acquisition (pj_Office p) = AcquireHead)"
    using assms(1) by (auto simp: proposal_ok_def)
  obtain r0 where r0: "r0 \<in> set rows" "of_ID (or_Office r0) = oj_ID (pj_Office p)" using p(3) by auto
  have "of_Acquisition (or_Office r) = AcquireHead \<longleftrightarrow> oj_Acquisition (pj_Office p) = AcquireHead"
    if "r \<in> set (upsert_office ofc at rows)" "of_ID (or_Office r) = oj_ID (pj_Office p)" for r
    using upsert_member [OF that(1)] that(2) p(4) r0 assms(2) by metis
  moreover have "oj_ID (pj_Office p) \<in> of_ID ` set (map or_Office (upsert_office ofc at rows))"
    using p(3) upsert_ids [of ofc at rows] by (simp add: image_image comp_def)
  ultimately show ?thesis using p(1,2) by (simp add: proposal_ok_def)
qed (simp add: proposal_ok_def)

text \<open>Writing an office within the rails, new or with the head's office kept apart from the others.\<close>

lemma SaveOffice_ok:
  assumes ok: "charter_ok h w" and wf: "office_wf h ofc" "of_ID ofc \<noteq> ''''" "\<forall>n\<ge>cd_NextID w. cp_NewID h n \<noteq> of_ID ofc"
    and kept: "\<forall>r\<in>set (cd_Offices w). of_ID (or_Office r) = of_ID ofc \<longrightarrow> (of_Acquisition (or_Office r) = AcquireHead \<longleftrightarrow> of_Acquisition ofc = AcquireHead)"
    and first: "cd_Offices w = [] \<longrightarrow> of_Acquisition ofc = AcquireHead"
    and run: "SaveOffice (cp_DBLower h) ofc at w = (w', Inr u)"
  shows "charter_ok h w'" "w' = w\<lparr>cd_Offices := upsert_office ofc at (cd_Offices w)\<rparr>"
proof -
  have "ofc\<lparr>of_Closed := False\<rparr> = ofc" using wf(1) by (simp add: office_wf_def)
  then have w': "w' = w\<lparr>cd_Offices := upsert_office ofc at (cd_Offices w)\<rparr>" "office_rows_ok (cp_DBLower h) (upsert_office ofc at (cd_Offices w))"
    using run by (auto simp: SaveOffice_def Let_def split: if_splits)
  then show "w' = w\<lparr>cd_Offices := upsert_office ofc at (cd_Offices w)\<rparr>" by simp
  have ids: "office_ids w' = insert (of_ID ofc) (office_ids w)"
    unfolding w'(1) office_ids_update upsert_ids by (simp add: office_ids_def)
  have head: "\<exists>r\<in>set (upsert_office ofc at (cd_Offices w)). row_open r \<and> of_Acquisition (or_Office r) = AcquireHead"
  proof (cases "cd_Offices w = []")
    case True
    then show ?thesis using first by (simp add: upsert_office_def)
  next
    case False
    then obtain r where r: "r \<in> set (cd_Offices w)" "row_open r" "of_Acquisition (or_Office r) = AcquireHead" using ok by (auto simp: charter_ok_def)
    show ?thesis
    proof (cases "of_ID (or_Office r) = of_ID ofc")
      case True
      then have "r\<lparr>or_Office := ofc\<rparr> \<in> set (upsert_office ofc at (cd_Offices w))" using r(1) by (auto simp: upsert_office_def image_iff)
      moreover have "of_Acquisition ofc = AcquireHead" using kept r True by auto
      ultimately show ?thesis using r(2) by (intro bexI [of _ "r\<lparr>or_Office := ofc\<rparr>"]) simp_all
    next
      case False
      then have "r \<in> set (upsert_office ofc at (cd_Offices w))" using r(1) by (force simp: upsert_office_def image_iff)
      then show ?thesis using r by blast
    qed
  qed
  have "\<forall>r\<in>set (upsert_office ofc at (cd_Offices w)). office_wf h (or_Office r)"
    using upsert_member [of _ ofc at "cd_Offices w"] wf(1) charter_okD(7) [OF ok] by blast
  moreover have "\<forall>b\<in>set (cd_Ballots w). proposal_ok h (upsert_office ofc at (cd_Offices w)) b"
    using proposal_ok_upsert [OF charter_okD(9) [OF ok] kept] by blast
  moreover have "cp_NewID h n \<notin> office_ids w'" if "cd_NextID w \<le> n" for n
    using charter_okD(1) [OF ok] wf(3) that by (auto simp: ids)
  ultimately show "charter_ok h w'"
    unfolding charter_ok_def ids using charter_okD(2-6) [OF ok] wf(2) w'(2) head upsert_distinct [of "cd_Offices w" ofc at]
    by (simp add: w'(1) subset_insertI2 ids [unfolded w'(1)])
qed

lemma proposal_ok_offices:
  assumes "map or_Office rows = map or_Office rows'"
  shows "proposal_ok h rows b \<longleftrightarrow> proposal_ok h rows' b"
  unfolding proposal_ok_def assms by (rule refl)

lemma filter_map_open:
  "filter row_open (map (\<lambda>r. if of_ID (or_Office r) = i \<and> row_open r then r\<lparr>or_ClosedAt := Some at\<rparr> else r) rows) =
    filter (\<lambda>r. of_ID (or_Office r) \<noteq> i) (filter row_open rows)"
  by (induction rows) auto

lemma CloseOffice_ok:
  assumes ok: "charter_ok h w" and i: "\<forall>r\<in>set (cd_Offices w). of_ID (or_Office r) = i \<longrightarrow> of_Acquisition (or_Office r) \<noteq> AcquireHead"
    and run: "CloseOffice i at w = (w', Inr u)"
  shows "charter_ok h w'"
proof -
  let ?f = "\<lambda>r. if of_ID (or_Office r) = i \<and> row_open r then r\<lparr>or_ClosedAt := Some at\<rparr> else r"
  have w': "w' = w\<lparr>cd_Offices := map ?f (cd_Offices w)\<rparr>" using run by (simp add: CloseOffice_def)
  have same: "or_Office (?f r) = or_Office r" for r by simp
  have ids: "map (of_ID \<circ> or_Office) (map ?f (cd_Offices w)) = map (of_ID \<circ> or_Office) (cd_Offices w)" by simp
  have idset: "office_ids w' = office_ids w" unfolding w' office_ids_update using arg_cong [OF ids, of set] by (simp only: list.set_map office_ids_def)
  have "office_rows_ok (cp_DBLower h) (map ?f (cd_Offices w))"
  proof -
    let ?live = "map or_Office (filter row_open (cd_Offices w))"
    have l: "map or_Office (filter row_open (map ?f (cd_Offices w))) = filter (\<lambda>ofc. of_ID ofc \<noteq> i) ?live"
      unfolding filter_map_open by (simp add: filter_map comp_def)
    have o: "distinct (map (\<lambda>ofc. cp_DBLower h (of_Title ofc)) ?live)" "length (filter (\<lambda>ofc. of_Acquisition ofc = AcquireHead) ?live) \<le> 1"
      "length (filter of_Deputy ?live) \<le> 1" using ok by (simp_all add: charter_ok_def office_rows_ok_def Let_def)
    have le: "length (filter P (filter Q xs)) \<le> length (filter P xs)" for P Q and xs :: "office list"
      by (induction xs) auto
    have "distinct (map (\<lambda>ofc. cp_DBLower h (of_Title ofc)) (filter (\<lambda>ofc. of_ID ofc \<noteq> i) ?live))" using o(1) by (rule distinct_map_filter)
    moreover have "map or_Office (map ?f (cd_Offices w)) = map or_Office (cd_Offices w)" by simp
    then have "\<forall>ofc\<in>set (map or_Office (map ?f (cd_Offices w))). 1 \<le> of_Seats ofc \<and> of_Seats ofc \<le> 50 \<and> 0 \<le> of_TermDays ofc \<and>
        (case of_Acquisition ofc of AcquireOther _ \<Rightarrow> False | _ \<Rightarrow> True)"
      using charter_okD(8) [OF ok] unfolding office_rows_ok_def Let_def by (elim conjE) (simp only:)
    moreover note order_trans [OF le [of "\<lambda>ofc. of_Acquisition ofc = AcquireHead" "\<lambda>ofc. of_ID ofc \<noteq> i" ?live] o(2)]
      order_trans [OF le [of of_Deputy "\<lambda>ofc. of_ID ofc \<noteq> i" ?live] o(3)]
    ultimately show ?thesis unfolding office_rows_ok_def Let_def l by (intro conjI)
  qed
  moreover have "cd_Offices w \<noteq> [] \<longrightarrow> (\<exists>r\<in>set (map ?f (cd_Offices w)). row_open r \<and> of_Acquisition (or_Office r) = AcquireHead)"
  proof
    assume "cd_Offices w \<noteq> []"
    then obtain r where r: "r \<in> set (cd_Offices w)" "row_open r" "of_Acquisition (or_Office r) = AcquireHead" using ok by (auto simp: charter_ok_def)
    then have "?f r = r" using i by auto
    with imageI [OF r(1), of ?f] have "r \<in> set (map ?f (cd_Offices w))" by (simp only: list.set_map)
    with r show "\<exists>r\<in>set (map ?f (cd_Offices w)). row_open r \<and> of_Acquisition (or_Office r) = AcquireHead" by blast
  qed
  moreover have "proposal_ok h (map ?f (cd_Offices w)) b \<longleftrightarrow> proposal_ok h (cd_Offices w) b" for b
    by (rule proposal_ok_offices) simp
  moreover have "\<forall>r\<in>set (map ?f (cd_Offices w)). office_wf h (or_Office r)" using charter_okD(7) [OF ok] same by (metis (no_types, lifting) imageE list.set_map)
  moreover have "distinct (map (of_ID \<circ> or_Office) (map ?f (cd_Offices w)))" unfolding ids by (rule charter_okD(3) [OF ok])
  moreover have "cd_Offices w' = map ?f (cd_Offices w)" "cd_Seats w' = cd_Seats w" "cd_Ballots w' = cd_Ballots w" "cd_Petitions w' = cd_Petitions w"
    "cd_NextID w' = cd_NextID w" by (simp_all add: w')
  ultimately show ?thesis unfolding charter_ok_def idset using charter_okD(1,2,4-6,9) [OF ok] by (simp only: list.map_disc_iff) blast
qed

lemma seats_ok:
  assumes "charter_ok h w" "cse_OfficeID ` set seats \<subseteq> office_ids w"
  shows "charter_ok h (w\<lparr>cd_Seats := seats\<rparr>)"
  using assms by (simp add: charter_ok_def office_ids_def)

lemma seats_fk: "charter_ok h w \<Longrightarrow> cse_OfficeID ` set (cd_Seats w) \<subseteq> office_ids w"
  by (simp add: charter_ok_def)

lemma map_end_ids: "cse_OfficeID ` set (map (\<lambda>r. if P r then end_row at reason r else r) rows) = cse_OfficeID ` set rows"
proof -
  have "map cse_OfficeID (map (\<lambda>r. if P r then end_row at reason r else r) rows) = map cse_OfficeID rows" by (simp add: end_row_def)
  then show ?thesis by (metis list.set_map)
qed

lemma EndSeat_ok:
  assumes "charter_ok h w" "EndSeat i p reason at w = (w', Inr b)"
  shows "charter_ok h w'"
proof -
  obtain P where w': "w' = w\<lparr>cd_Seats := map (\<lambda>r. if P r then end_row at reason r else r) (cd_Seats w)\<rparr>"
    using assms(2) [symmetric] unfolding EndSeat_def Let_def prod.inject by (elim conjE) (rule that)
  show ?thesis unfolding w' by (rule seats_ok [OF assms(1)]) (use seats_fk [OF assms(1)] in \<open>simp only: map_end_ids\<close>)
qed

lemma EndSeatsOf_ok:
  assumes "charter_ok h w" "EndSeatsOf i reason at w = (w', Inr b)"
  shows "charter_ok h w'"
proof -
  obtain P where w': "w' = w\<lparr>cd_Seats := map (\<lambda>r. if P r then end_row at reason r else r) (cd_Seats w)\<rparr>"
    using assms(2) [symmetric] unfolding EndSeatsOf_def prod.inject by (elim conjE) (rule that)
  show ?thesis unfolding w' by (rule seats_ok [OF assms(1)]) (use seats_fk [OF assms(1)] in \<open>simp only: map_end_ids\<close>)
qed

lemma Seat_ok:
  assumes "charter_ok h w" "cse_OfficeID s \<in> office_ids w" "Seat s w = (w', Inr b)"
  shows "charter_ok h w'"
  using seats_ok [OF assms(1), of "cd_Seats w @ [charter_seat.extend s \<lparr>sr_Until = None, sr_EndReason = ''''\<rparr>]"] seats_fk [OF assms(1)] assms
  by (simp add: Seat_def charter_seat.extend_def split: if_splits)

lemma OpenBallot_ok:
  assumes "charter_ok h w" "cb_OfficeID b \<in> office_ids w" "proposal_ok h (cd_Offices w) b" "OpenBallot b w = (w', Inr x)"
  shows "charter_ok h w'"
proof (cases "\<exists>r\<in>set (cd_Ballots w). same_vote b r")
  case False
  then have "w' = w\<lparr>cd_Ballots := cd_Ballots w @ [b\<lparr>cb_Status := BallotOpen\<rparr>]\<rparr>" using assms(4) by (simp add: OpenBallot_def)
  moreover have "proposal_ok h (cd_Offices w) (b\<lparr>cb_Status := BallotOpen\<rparr>)" using assms(3) by (simp add: proposal_ok_def)
  ultimately show ?thesis using assms(1,2) unfolding charter_ok_def by (elim conjE, intro conjI) (simp_all add: office_ids_def)
qed (use assms in \<open>simp add: OpenBallot_def\<close>)

lemma SettleBallot_ok:
  assumes "charter_ok h w" "SettleBallot i status at w = (w', Inr x)"
  shows "charter_ok h w'"
proof -
  let ?f = "\<lambda>b. if cb_ID b = i \<and> cb_Status b = BallotOpen then b\<lparr>cb_Status := status, cb_SettledAt := at\<rparr> else b"
  have w': "w' = w\<lparr>cd_Ballots := map ?f (cd_Ballots w)\<rparr>" using assms(2) by (simp add: SettleBallot_def Let_def)
  have "map cb_OfficeID (map ?f (cd_Ballots w)) = map cb_OfficeID (cd_Ballots w)" by simp
  then have "cb_OfficeID ` set (map ?f (cd_Ballots w)) = cb_OfficeID ` set (cd_Ballots w)" by (metis list.set_map)
  moreover have "\<forall>b\<in>set (map ?f (cd_Ballots w)). proposal_ok h (cd_Offices w) b" using assms(1) by (auto simp: charter_ok_def proposal_ok_def)
  ultimately show ?thesis using assms(1) unfolding charter_ok_def
    by (elim conjE, intro conjI) (simp_all add: w' office_ids_def del: set_map)
qed


section \<open>Acts keep the invariant\<close>

text \<open>What an act may assume of a ballot it read earlier still holds after any statement.\<close>

definition grows :: "charter_ports \<Rightarrow> charter_db \<Rightarrow> charter_db \<Rightarrow> bool" where
  "grows h w w' \<longleftrightarrow> office_ids w \<subseteq> office_ids w' \<and> (\<forall>b. proposal_ok h (cd_Offices w) b \<longrightarrow> proposal_ok h (cd_Offices w') b)"

definition step_ok :: "charter_ports \<Rightarrow> charter_db \<Rightarrow> charter_db \<Rightarrow> bool" where
  "step_ok h w w' \<longleftrightarrow> (charter_ok h w \<longrightarrow> charter_ok h w' \<and> grows h w w')"

lemma step_ok_refl [simp, intro]: "step_ok h w w"
  by (simp add: step_ok_def grows_def)

lemma step_ok_trans [trans]: "step_ok h a b \<Longrightarrow> step_ok h b c \<Longrightarrow> step_ok h a c"
  unfolding step_ok_def grows_def by blast

lemma grows_offices: "cd_Offices w' = cd_Offices w \<Longrightarrow> grows h w w'"
  by (simp add: grows_def office_ids_def)

lemma step_same: "same_rows w w' \<Longrightarrow> step_ok h w w'"
  using charter_ok_same grows_offices [of w' w] by (auto simp: step_ok_def same_rows_def)

lemmas step_statement = statements_same [THEN step_same]

lemma step_offices: "cd_Offices w' = cd_Offices w \<Longrightarrow> (charter_ok h w \<Longrightarrow> charter_ok h w') \<Longrightarrow> step_ok h w w'"
  by (simp add: step_ok_def grows_offices)

lemma step_EndSeat: "EndSeat i p reason at w = (w', Inr b) \<Longrightarrow> step_ok h w w'"
  by (rule step_offices) (auto simp: EndSeat_def Let_def intro: EndSeat_ok)

lemma step_EndSeatsOf: "EndSeatsOf i reason at w = (w', Inr b) \<Longrightarrow> step_ok h w w'"
  by (rule step_offices) (auto simp: EndSeatsOf_def intro: EndSeatsOf_ok)

lemma step_Seat:
  assumes "cse_OfficeID s \<in> office_ids w" "Seat s w = (w', Inr b)"
  shows "step_ok h w w'"
proof (rule step_offices)
  show "cd_Offices w' = cd_Offices w" using assms(2) by (auto simp: Seat_def split: if_splits)
qed (rule Seat_ok [OF _ assms])

lemma step_SettleBallot: "SettleBallot i x at w = (w', Inr b) \<Longrightarrow> step_ok h w w'"
  by (rule step_offices) (auto simp: SettleBallot_def Let_def intro: SettleBallot_ok)

lemma step_OpenBallot:
  assumes "cb_OfficeID b \<in> office_ids w" "proposal_ok h (cd_Offices w) b" "OpenBallot b w = (w', Inr x)"
  shows "step_ok h w w'"
proof (rule step_offices)
  show "cd_Offices w' = cd_Offices w" using assms(3) by (auto simp: OpenBallot_def split: if_splits)
qed (rule OpenBallot_ok [OF _ assms])

lemma step_CloseOffice:
  assumes "\<forall>r\<in>set (cd_Offices w). of_ID (or_Office r) = i \<longrightarrow> of_Acquisition (or_Office r) \<noteq> AcquireHead" "CloseOffice i at w = (w', Inr u)"
  shows "step_ok h w w'"
proof -
  have "map or_Office (cd_Offices w') = map or_Office (cd_Offices w)" using assms(2) by (auto simp: CloseOffice_def)
  moreover from this have "office_ids w' = office_ids w" unfolding office_ids_map by (simp only:)
  ultimately show ?thesis
    using CloseOffice_ok [OF _ assms] proposal_ok_offices [of "cd_Offices w'" "cd_Offices w" h] unfolding step_ok_def grows_def by blast
qed

lemma step_SaveOffice:
  assumes "office_wf h ofc" "of_ID ofc \<noteq> ''''" "\<forall>n\<ge>cd_NextID w. cp_NewID h n \<noteq> of_ID ofc"
    and "\<forall>r\<in>set (cd_Offices w). of_ID (or_Office r) = of_ID ofc \<longrightarrow> (of_Acquisition (or_Office r) = AcquireHead \<longleftrightarrow> of_Acquisition ofc = AcquireHead)"
    and "cd_Offices w = [] \<longrightarrow> of_Acquisition ofc = AcquireHead" "SaveOffice (cp_DBLower h) ofc at w = (w', Inr u)"
  shows "step_ok h w w'"
proof -
  have "grows h w w'" if "charter_ok h w"
    using proposal_ok_upsert [OF _ assms(4)] unfolding grows_def SaveOffice_ok(2) [OF that assms] office_ids_update upsert_ids
    by (auto simp: office_ids_def)
  then show ?thesis using SaveOffice_ok(1) [OF _ assms] by (simp add: step_ok_def)
qed

section \<open>The loaded charter and the rows\<close>

lemma st_ok_office:
  assumes "st_ok h st w" "st_stored st" "ofc \<in> set (st_offices st)"
  shows "\<exists>r\<in>set (cd_Offices w). or_Office r = ofc \<and> row_open r" "of_ID ofc \<in> office_ids w"
  using assms by (auto simp: st_ok_def office_ids_def)

lemma row_of_id:
  assumes "charter_ok h w" "r \<in> set (cd_Offices w)" "r' \<in> set (cd_Offices w)" "of_ID (or_Office r) = of_ID (or_Office r')"
  shows "r = r'"
  using charter_okD(3) [OF assms(1)] assms(2-4) by (auto simp: distinct_map inj_on_def)

lemma headOffice_stored:
  assumes "charter_ok h w" "st_ok h st w" "st_stored st"
  shows "\<exists>ofc\<in>set (st_offices st). headOffice st = Some ofc"
proof -
  obtain r where r: "r \<in> set (cd_Offices w)" "row_open r" "of_Acquisition (or_Office r) = AcquireHead"
    using charter_okD(10) [OF assms(1)] assms(2,3) by (auto simp: st_ok_def)
  then have m: "or_Office r \<in> set (st_offices st)" using assms(2,3) by (auto simp: st_ok_def)
  moreover have "\<not> of_Closed (or_Office r)" using charter_okD(7) [OF assms(1) r(1)] by (simp add: office_wf_def)
  ultimately have "headOffice st \<noteq> None" using r(3) by (auto simp: headOffice_def find_None_iff)
  then show ?thesis by (auto simp: headOffice_def find_Some_iff)
qed

lemma officeByIDExact_Some: "officeByIDExact st i = Some ofc \<Longrightarrow> ofc \<in> set (st_offices st) \<and> of_ID ofc = i \<and> i \<noteq> '''' \<and> \<not> of_Closed ofc"
  by (auto simp: officeByIDExact_def find_Some_iff)

lemma st_ok_stored: "st_ok h st w \<Longrightarrow> ofc \<in> set (st_offices st) \<Longrightarrow> of_ID ofc \<noteq> '''' \<Longrightarrow> st_stored st"
  by (auto simp: st_ok_def FoundersOffice_def split: if_splits)

lemma founder_wf: "office_wf h ((FoundersOffice i t)\<lparr>of_ID := j\<rparr>)"
  by (simp add: office_wf_def FoundersOffice_def)

lemma materialise_ok:
  assumes ids: "ids_unique h" and ok: "charter_ok h w" "st_ok h st w" and run: "materialise h actor now st w = (w', Inr st')"
  shows "step_ok h w w'" "st_ok h st' w'" "st_stored st'"
proof -
  have "step_ok h w w' \<and> st_ok h st' w' \<and> st_stored st'"
  proof (cases "st_stored st")
    case True
    then show ?thesis using run ok(2) by (simp add: materialise_def)
  next
    case False
    then have st: "st_offices st = [FoundersOffice '''' (cp_Title h)]" "cd_Offices w = []" using ok(2) by (simp_all add: st_ok_def)
    define ofc where "ofc = (FoundersOffice '''' (cp_Title h))\<lparr>of_ID := cp_NewID h (cd_NextID w)\<rparr>"
    let ?w = "w\<lparr>cd_NextID := Suc (cd_NextID w)\<rparr>"
    obtain w1 where w1: "SaveOffice (cp_DBLower h) ofc now ?w = (w1, Inr ())" "charter_Audit actor ''charter_written'' (of_ID ofc) now w1 = (w', Inr ())"
      and st': "st' = st\<lparr>st_offices := [ofc], st_stored := True\<rparr>"
      using run False st(1) by (auto simp: materialise_def tx_bind_Inr NewID_run ofc_def Let_def)
    have k: "charter_ok h ?w" by (rule charter_ok_same [OF ok(1)]) (simp add: same_rows_def)
    have s: "step_ok h ?w w1"
      by (rule step_SaveOffice [OF _ _ _ _ _ w1(1)]) (use ids in \<open>auto simp: ofc_def ids_unique_def FoundersOffice_def office_wf_def st(2) dest: injD\<close>)
    have "cd_Offices w1 = [\<lparr>or_Office = ofc, or_CreatedAt = now, or_ClosedAt = None\<rparr>]"
      using w1(1) st(2) by (auto simp: SaveOffice_def upsert_office_def Let_def ofc_def FoundersOffice_def split: if_splits)
    then have "cd_Offices w' = [\<lparr>or_Office = ofc, or_CreatedAt = now, or_ClosedAt = None\<rparr>]" using w1(2) by (auto simp: charter_Audit_def)
    moreover have "step_ok h w ?w" by (rule step_same) (simp add: same_rows_def)
    ultimately show ?thesis using s step_statement(4) [OF w1(2)] step_ok_trans by (auto simp: st' st_ok_def)
  qed
  then show "step_ok h w w'" "st_ok h st' w'" "st_stored st'" by simp_all
qed


section \<open>Ballots keep the invariant\<close>

definition keeps_rows :: "charter_db \<Rightarrow> charter_db \<Rightarrow> bool" where
  "keeps_rows w w' \<longleftrightarrow> cd_Offices w' = cd_Offices w \<and> cd_Seats w' = cd_Seats w"

lemma keeps_rows_trans [trans]: "keeps_rows a b \<Longrightarrow> keeps_rows b c \<Longrightarrow> keeps_rows a c"
  by (simp add: keeps_rows_def)

lemma keeps_rows_refl [simp]: "keeps_rows w w"
  by (simp add: keeps_rows_def)

lemma same_keeps: "same_rows w w' \<Longrightarrow> keeps_rows w w'"
  by (simp add: same_rows_def keeps_rows_def)

lemmas keeps_statement = statements_same [THEN same_keeps]

lemma keeps_OpenBallot: "OpenBallot b w = (w', Inr x) \<Longrightarrow> keeps_rows w w'"
  by (auto simp: OpenBallot_def keeps_rows_def split: if_splits)

lemma keeps_SettleBallot: "SettleBallot i x at w = (w', Inr b) \<Longrightarrow> keeps_rows w w'"
  by (auto simp: SettleBallot_def keeps_rows_def Let_def)

lemma keeps_ids: "keeps_rows w w' \<Longrightarrow> office_ids w' = office_ids w" "keeps_rows w w' \<Longrightarrow> st_ok h st w' = st_ok h st w"
  by (simp_all add: keeps_rows_def office_ids_def st_ok_def)

lemma new_ballot_simps [simp]:
  "cb_OfficeID (new_ballot i k ofc t b p opens closes e a) = ofc" "cb_Kind (new_ballot i k ofc t b p opens closes e a) = k"
  "cb_Proposal (new_ballot i k ofc t b p opens closes e a) = p"
  by (simp_all add: new_ballot_def)

text \<open>The calls that put something to the vote: an id, an action, the ballot.\<close>

lemma open_ballot_run:
  assumes ofc: "ofc \<in> office_ids w" and pr: "\<And>i a. proposal_ok h (cd_Offices w) (bal i a)" "\<And>i a. cb_OfficeID (bal i a) = ofc"
    and run: "tx_bind (charter_NewID ids) (\<lambda>i. tx_bind (charter_schedule ids' closes) (\<lambda>a. tx_bind (OpenBallot (bal i a)) (\<lambda>ok. rest i a ok))) w = (w', Inr r)"
    and rest: "\<And>i a ok w1. rest i a ok w1 = (w', Inr r) \<Longrightarrow> step_ok h w1 w' \<and> keeps_rows w1 w'"
  shows "step_ok h w w' \<and> keeps_rows w w'"
proof -
  obtain w1 i w2 a w3 ok where r: "charter_NewID ids w = (w1, Inr i)" "charter_schedule ids' closes w1 = (w2, Inr a)" "OpenBallot (bal i a) w2 = (w3, Inr ok)"
    "rest i a ok w3 = (w', Inr r)" using run by (auto simp: tx_bind_Inr)
  have k: "keeps_rows w w2" using keeps_statement(2) [OF r(1)] keeps_statement(3) [OF r(2)] by (rule keeps_rows_trans)
  then have o: "cd_Offices w2 = cd_Offices w" "office_ids w2 = office_ids w" by (simp_all add: keeps_rows_def office_ids_def)
  have "step_ok h w2 w3" by (rule step_OpenBallot [OF _ _ r(3)]) (use ofc pr o in simp_all)
  then have "step_ok h w w3" using step_statement(2) [OF r(1)] step_statement(3) [OF r(2)] step_ok_trans by blast
  then show ?thesis using rest [OF r(4)] k keeps_OpenBallot [OF r(3)] step_ok_trans keeps_rows_trans by blast
qed

lemma step_openElection:
  assumes "of_ID ofc \<in> office_ids w" "openElection h now ofc p w = (w', Inr i)"
  shows "step_ok h w w' \<and> keeps_rows w w'"
proof (cases "\<exists>b\<in>set (OpenBallots w). cb_Kind b = BallotElection \<and> cb_OfficeID b = of_ID ofc")
  case False
  show ?thesis
    using assms(2) False unfolding openElection_def Let_def
    by (simp, elim open_ballot_run [OF assms(1), rotated 2])
      (auto simp: proposal_ok_def tx_bind_Inr dest: step_statement keeps_statement split: if_splits)
qed (use assms(2) in \<open>simp add: openElection_def\<close>)

lemma json_office_to: "json_office (officeToJSON ofc) = ofc\<lparr>of_AppointerID := '''', of_Closed := False\<rparr>"
proof -
  have "map (\<lambda>(p, l). \<lparr>gt_Permission = p, gt_Limit = l\<rparr>) (map (\<lambda>g. (gt_Permission g, gt_Limit g)) gs) = gs" for gs :: "grant list"
    by (induction gs) simp_all
  then show ?thesis by (simp add: json_office_def officeToJSON_def)
qed

lemma office_wf_json: "office_wf h ofc \<Longrightarrow> office_wf h (json_office (officeToJSON ofc))"
proof -
  have "ValidateSeparation (ofc\<lparr>of_AppointerID := '''', of_Closed := False\<rparr>) inq = ValidateSeparation ofc inq" for inq
    by (simp add: ValidateSeparation_def)
  then show "office_wf h ofc \<Longrightarrow> office_wf h (json_office (officeToJSON ofc))"
    unfolding office_wf_def json_office_to by (cases "of_Acquisition ofc = AcquireHead") simp_all
qed

lemma step_openAmendment:
  assumes "charter_ok h w" "office_wf h ofc" "r \<in> set (cd_Offices w)" "of_ID (or_Office r) = of_ID ofc"
    "of_Acquisition (or_Office r) = AcquireHead \<longleftrightarrow> of_Acquisition ofc = AcquireHead" "openAmendment h now op ofc p w = (w', Inr i)"
  shows "step_ok h w w' \<and> keeps_rows w w'"
proof -
  have i: "of_ID ofc \<in> office_ids w" using assms(3,4) by (auto simp: office_ids_def image_iff intro!: bexI [of _ r])
  have "\<forall>o'\<in>set (map or_Office (cd_Offices w)). of_ID o' = of_ID ofc \<longrightarrow> (of_Acquisition o' = AcquireHead \<longleftrightarrow> of_Acquisition ofc = AcquireHead)"
    using row_of_id [OF assms(1) _ assms(3)] assms(4,5) by (auto simp: image_iff)
  then have p: "proposal_ok h (cd_Offices w) (new_ballot x BallotAmendment (of_ID ofc) t b (Some \<lparr>pj_Op = op, pj_Office = officeToJSON ofc, pj_By = by_player\<rparr>) ot c e a)"
    for x t b by_player ot c e a
    using i office_wf_json [OF assms(2)] by (auto simp: proposal_ok_def officeToJSON_def office_ids_map)
  show ?thesis
    using assms(6) unfolding openAmendment_def Let_def
    by (simp, elim open_ballot_run [OF i, rotated 2])
      (auto simp: p tx_bind_Inr dest: step_statement keeps_statement split: if_splits)
qed

lemma step_finish: "ballot_finish b x a now w = (w', Inr u) \<Longrightarrow> step_ok h w w'"
  by (auto simp: ballot_finish_def tx_bind_Inr dest!: step_SettleBallot [of _ _ _ _ _ _ h] step_statement(4) [of _ _ _ _ _ _ _ h] split: if_splits intro: step_ok_trans)

section \<open>Settling ballots\<close>

text \<open>An amendment that is refused changes nothing; one that is written keeps the invariant.\<close>

lemma applyAmendment_Inl: "applyAmendment h now st p w = (w', Inl e) \<Longrightarrow> w' = w"
  by (auto simp: applyAmendment_def Let_def rail_def tx_bind_def tx_check_def EndSeatsOf_def CloseOffice_def SaveOffice_def
      split: if_splits option.splits prod.splits sum.splits)

lemma step_applyAmendment:
  assumes ok: "charter_ok h w" "st_ok h st w" and b: "proposal_ok h (cd_Offices w) b" "cb_Kind b = BallotAmendment" "cb_Proposal b = Some p"
    and run: "applyAmendment h now st p w = (w', Inr u)"
  shows "step_ok h w w'"
proof -
  let ?next = "json_office (pj_Office p)"
  obtain prev where prev: "officeByIDExact st (of_ID ?next) = Some prev"
    using run by (auto simp: applyAmendment_def Let_def split: if_splits option.splits)
  then have p: "prev \<in> set (st_offices st)" "of_ID prev = of_ID ?next" "of_ID ?next \<noteq> ''''" using officeByIDExact_Some by auto
  have stored: "st_stored st" using st_ok_stored [OF ok(2) p(1)] p(2,3) by simp
  obtain r where r: "r \<in> set (cd_Offices w)" "or_Office r = prev" using st_ok_office(1) [OF ok(2) stored p(1)] by blast
  show ?thesis
  proof (cases "pj_Op p = ''close''")
    case True
    then obtain w1 where w1: "of_Acquisition prev \<noteq> AcquireHead" "EndSeatsOf (of_ID prev) ''office_closed'' now w = (w1, Inr ())"
      "CloseOffice (of_ID prev) now w1 = (w', Inr ())"
      using run prev by (auto simp: applyAmendment_def Let_def rail_def tx_bind_Inr split: if_splits)
    have "cd_Offices w1 = cd_Offices w" using w1(2) by (auto simp: EndSeatsOf_def)
    then have "step_ok h w1 w'" by (intro step_CloseOffice [OF _ w1(3)]) (use row_of_id [OF ok(1) _ r(1)] r(2) w1(1) in auto)
    then show ?thesis using step_EndSeatsOf [OF w1(2)] step_ok_trans by blast
  next
    case False
    then have save: "SaveOffice (cp_DBLower h) ?next now w = (w', Inr ())"
      using run prev by (auto simp: applyAmendment_def Let_def rail_def tx_bind_Inr split: if_splits)
    have same: "of_ID ?next = oj_ID (pj_Office p)" "of_Acquisition ?next = oj_Acquisition (pj_Office p)" by (simp_all add: json_office_def)
    show ?thesis
    proof (rule step_SaveOffice [OF _ p(3) _ _ _ save])
      show "office_wf h ?next" using b by (simp add: proposal_ok_def)
      show "\<forall>n\<ge>cd_NextID w. cp_NewID h n \<noteq> of_ID ?next"
        using charter_okD(1) [OF ok(1)] st_ok_office(2) [OF ok(2) stored p(1)] p(2) by metis
      show "\<forall>r\<in>set (cd_Offices w). of_ID (or_Office r) = of_ID ?next \<longrightarrow> (of_Acquisition (or_Office r) = AcquireHead \<longleftrightarrow> of_Acquisition ?next = AcquireHead)"
        using b unfolding proposal_ok_def same by auto
    qed (use r in auto)
  qed
qed

text \<open>The winners take seats of an office that is there.\<close>

lemma step_ElectToOffice: "tx_catch (tx_bind (ElectToOffice barred p t) (\<lambda>_. tx_return True)) (\<lambda>_. tx_return False) w = (w', Inr b) \<Longrightarrow> same_rows w w'"
  by (auto simp: tx_catch_def tx_bind_def ElectToOffice_def same_rows_def split: if_splits)

lemma step_seat_winners:
  "of_ID ofc \<in> office_ids w \<Longrightarrow> seat_winners h now ofc trm cs w = (w', Inr b) \<Longrightarrow> step_ok h w w'"
proof (induction cs arbitrary: w)
  case (Cons c cs)
  let ?seated = "tx_bind (charter_Audit '''' ''seat_elected'' (of_ID ofc) now) (\<lambda>_. seat_winners h now ofc trm cs)"
  have seated: "step_ok h w1 w'"
    if a: "charter_Audit '''' ''seat_elected'' (of_ID ofc) now w1 = (w2, Inr ())" "seat_winners h now ofc trm cs w2 = (w', Inr b)" and o: "cd_Offices w1 = cd_Offices w" for w1 w2
  proof -
    have "cd_Offices w2 = cd_Offices w" using keeps_statement(4) [OF a(1)] o by (simp add: keeps_rows_def)
    then have "of_ID ofc \<in> office_ids w2" using Cons.prems(1) by (simp add: office_ids_def)
    then show ?thesis using Cons.IH [OF _ a(2)] step_statement(4) [OF a(1)] step_ok_trans by blast
  qed
  show ?case
  proof (cases "of_Acquisition ofc = AcquireHead")
    case True
    then obtain w1 ok where w1: "tx_catch (tx_bind (ElectToOffice (cp_Barred h) (cand_PlayerID c) now) (\<lambda>_. tx_return True)) (\<lambda>_. tx_return False) w = (w1, Inr ok)"
      "(if ok then ?seated else tx_bind (charter_Audit '''' ''election_blocked'' (of_ID ofc) now) (\<lambda>_. tx_return False)) w1 = (w', Inr b)"
      using Cons.prems(2) by (auto simp: Let_def tx_bind_Inr)
    have s: "same_rows w w1" by (rule step_ElectToOffice [OF w1(1)])
    show ?thesis
    proof (cases ok)
      case True
      then have "step_ok h w1 w'" using seated [of w1] w1(2) s by (auto simp: same_rows_def tx_bind_Inr)
      then show ?thesis using step_same [OF s] step_ok_trans by blast
    next
      case False
      then have "step_ok h w1 w'" using w1(2) by (auto simp: tx_bind_Inr intro: step_statement(4))
      then show ?thesis using step_same [OF s] step_ok_trans by blast
    qed
  next
    case False
    then obtain w1 i w2 x w3 where w1: "charter_NewID (cp_NewID h) w = (w1, Inr i)"
      "Seat \<lparr>cse_ID = i, cse_OfficeID = of_ID ofc, cse_HolderID = cand_PlayerID c, cse_AppointedBy = '''', cse_Since = now, cse_TermEnds = time_Add now trm\<rparr> w1
        = (w2, Inr x)" "charter_Audit '''' ''seat_elected'' (of_ID ofc) now w2 = (w3, Inr ())" "seat_winners h now ofc trm cs w3 = (w', Inr b)"
      using Cons.prems(2) by (auto simp: Let_def tx_bind_Inr)
    have o: "cd_Offices w1 = cd_Offices w" using keeps_statement(2) [OF w1(1)] by (simp add: keeps_rows_def)
    have "step_ok h w1 w2" by (rule step_Seat [OF _ w1(2)]) (use o Cons.prems(1) in \<open>simp add: office_ids_def\<close>)
    moreover have "cd_Offices w2 = cd_Offices w" using w1(2) o by (auto simp: Seat_def split: if_splits)
    ultimately show ?thesis using seated [OF w1(3,4)] step_statement(2) [OF w1(1)] step_ok_trans by blast
  qed
qed simp


lemma st_ok_keeps: "st_ok h st w \<Longrightarrow> keeps_rows w w' \<Longrightarrow> st_ok h st w'"
  using keeps_ids(2) by simp

lemma step_settle_election:
  assumes ok: "charter_ok h w" "st_ok h st w" and run: "settle_election h now st b w = (w', Inr u)"
  shows "step_ok h w w'"
proof (cases "officeByIDExact st (cb_OfficeID b)")
  case None
  then show ?thesis using run step_finish by (simp add: settle_election_def)
next
  case (Some ofc)
  then have o: "ofc \<in> set (st_offices st)" "of_ID ofc \<noteq> ''''" using officeByIDExact_Some by auto
  have i: "of_ID ofc \<in> office_ids w" by (rule st_ok_office(2) [OF ok(2) st_ok_stored [OF ok(2) o] o(1)])
  have won: "step_ok h w w2" if s: "SettleBallot (cb_ID b) BallotPassed now w = (w1, Inr x)" "seat_winners h now ofc trm es w1 = (w2, Inr y)" for w1 x trm es w2 y
  proof -
    have "of_ID ofc \<in> office_ids w1" using keeps_ids(1) [OF keeps_SettleBallot [OF s(1)]] i by simp
    from step_seat_winners [OF this s(2)] show ?thesis using step_SettleBallot [OF s(1)] step_ok_trans by blast
  qed
  have audited: "step_ok h w w3" if "SettleBallot (cb_ID b) BallotPassed now w = (w1, Inr x)" "seat_winners h now ofc trm es w1 = (w2, Inr y)"
    "charter_Audit a k j t w2 = (w3, Inr u)" for w1 x trm es w2 y a k j t w3 u
    using won [OF that(1,2)] step_statement(4) [OF that(3)] step_ok_trans by blast
  show ?thesis
    using run Some unfolding settle_election_def
    by (auto simp: Let_def tx_bind_Inr split: if_splits intro: step_finish step_SettleBallot won audited)
qed

lemma step_settle_recall:
  assumes "settle_recall h now st b w = (w', Inr u)"
  shows "step_ok h w w'"
proof -
  have v: "step_ok h w1 w2" if "VacateOffice now w1 = (w2, Inr x)" for w1 w2 x using step_statement(11) [OF that] .
  show ?thesis
    using assms unfolding settle_recall_def Let_def
    by (auto simp: tx_bind_Inr split: if_splits option.splits
        dest!: step_SettleBallot [of _ _ _ _ _ _ h] step_EndSeat [of _ _ _ _ _ _ _ h] step_statement(4) [of _ _ _ _ _ _ _ h] v intro: step_ok_trans)
qed

lemma step_settle_amendment:
  assumes ok: "charter_ok h w" "st_ok h st w" and b: "proposal_ok h (cd_Offices w) b" "cb_Kind b = BallotAmendment"
    and run: "settle_amendment h now st b w = (w', Inr u)"
  shows "step_ok h w w'"
proof -
  have applied: "step_ok h w w2"
    if s: "SettleBallot (cb_ID b) BallotPassed now w = (w1, Inr x)" and p: "cb_Proposal b = Some p"
      and c: "tx_catch (tx_bind (applyAmendment h now st p) (\<lambda>_. tx_return None)) (\<lambda>e. tx_return (Some e)) w1 = (w2, Inr f)" for w1 w2 x p f
  proof -
    have k: "keeps_rows w w1" by (rule keeps_SettleBallot [OF s])
    have w1: "step_ok h w w1" by (rule step_SettleBallot [OF s])
    then have "charter_ok h w1" using ok(1) by (simp add: step_ok_def)
    moreover have "proposal_ok h (cd_Offices w1) b" "st_ok h st w1" using k b(1) st_ok_keeps [OF ok(2) k] by (simp_all add: keeps_rows_def)
    ultimately have "step_ok h w1 w2"
      using c step_applyAmendment [OF _ _ _ b(2) p]
      by (auto simp: tx_catch_def tx_bind_def split: prod.splits sum.splits dest: applyAmendment_Inl)
    then show ?thesis using w1 step_ok_trans by blast
  qed
  have audited: "step_ok h w w2" if "SettleBallot i x t w = (w1, Inr y)" "charter_Audit a k j t' w1 = (w2, Inr u)" for i x t w1 y a k j t' w2 u
    using step_SettleBallot [OF that(1)] step_statement(4) [OF that(2)] step_ok_trans by blast
  have logged: "step_ok h w w3" if "SettleBallot (cb_ID b) BallotPassed now w = (w1, Inr x)" "cb_Proposal b = Some p"
    "tx_catch (tx_bind (applyAmendment h now st p) (\<lambda>_. tx_return None)) (\<lambda>e. tx_return (Some e)) w1 = (w2, Inr f)"
    "charter_Audit a k j t w2 = (w3, Inr u)" for w1 x p w2 f a k j t w3 u
    using applied [OF that(1-3)] step_statement(4) [OF that(4)] step_ok_trans by blast
  show ?thesis
    using run unfolding settle_amendment_def
    by (auto simp: Let_def tx_bind_Inr split: if_splits option.splits intro: step_SettleBallot audited logged)
qed

lemma step_settleBallot:
  assumes ok: "charter_ok h w" and b: "proposal_ok h (cd_Offices w) b" and run: "settleBallot h now b w = (w', Inr u)"
  shows "step_ok h w w'"
proof -
  have st: "st_ok h (loadCharter h now w) w" by (rule loadCharter_ok [OF ok])
  note run = run [unfolded settleBallot_def Let_def tx_bind_state]
  show ?thesis
  proof (cases "cb_Kind b")
    case BallotElection
    show ?thesis by (rule step_settle_election [OF ok st run [unfolded BallotElection ballot_kind.case]])
  next
    case BallotRecall
    show ?thesis by (rule step_settle_recall [OF run [unfolded BallotRecall ballot_kind.case]])
  next
    case BallotAmendment
    show ?thesis by (rule step_settle_amendment [OF ok st b BallotAmendment run [unfolded BallotAmendment ballot_kind.case]])
  qed
qed

lemma step_CharterBallotClose:
  assumes ok: "charter_ok h w" and run: "CharterBallotClose h now i w = (w', r)"
  shows "step_ok h w w'"
proof (cases r)
  case (Inl e)
  from uow_Do_Inl [OF run [unfolded CharterBallotClose_def Inl]] show ?thesis by simp
next
  case (Inr u)
  then obtain b where b: "Ballot w i = None \<or> Ballot w i = Some b" and
    "w' = w \<or> Ballot w i = Some b \<and> settleBallot h now b w = (w', Inr u)"
    using run by (auto simp: CharterBallotClose_def uow_Do_Inr split: option.splits if_splits)
  moreover have "b \<in> set (cd_Ballots w)" if "Ballot w i = Some b" using that by (auto simp: Ballot_def find_Some_iff)
  ultimately show ?thesis using step_settleBallot [OF ok] charter_okD(9) [OF ok] by auto
qed

section \<open>The housekeeping\<close>

lemma step_each:
  assumes "\<And>x w w' u. x \<in> set xs \<Longrightarrow> charter_ok h w \<Longrightarrow> proposal_ok h (cd_Offices w) (k x) \<Longrightarrow> f x w = (w', Inr u) \<Longrightarrow> step_ok h w w'"
    and "\<forall>x\<in>set xs. proposal_ok h (cd_Offices w) (k x)" "charter_ok h w" "tx_each f xs w = (w', Inr u)"
  shows "step_ok h w w'"
  using assms
proof (induction xs arbitrary: w)
  case (Cons x xs)
  then obtain w1 where w1: "f x w = (w1, Inr ())" "tx_each f xs w1 = (w', Inr u)" by (auto simp: tx_bind_Inr)
  have s: "step_ok h w w1" using Cons.prems(1) [of x w] Cons.prems(2,3) w1(1) by simp
  then have "charter_ok h w1" "\<forall>y\<in>set xs. proposal_ok h (cd_Offices w1) (k y)"
    using Cons.prems(2,3) by (simp_all add: step_ok_def grows_def)
  with Cons.IH [OF _ _ _ w1(2)] Cons.prems(1) have "step_ok h w1 w'" by (meson list.set_intros(2))
  then show ?case using s step_ok_trans by blast
qed simp

lemma step_end_term: "end_term now s w = (w', Inr u) \<Longrightarrow> step_ok h w w'"
  using step_ok_trans step_EndSeat step_statement(4)
  by (auto simp: end_term_def tx_bind_Inr split: if_splits) blast+

lemma OpenBallots_set: "b \<in> set (OpenBallots w) \<Longrightarrow> b \<in> set (cd_Ballots w)"
  by (simp add: OpenBallots_def)

text \<open>An election is opened whenever the charter had to be written down first: its office is new.\<close>

lemma step_owed:
  assumes "ids_unique h" "charter_ok h w" "st_ok h st w" "\<forall>ofc\<in>set os. of_ID ofc = '''' \<or> of_ID ofc \<in> office_ids w"
    and "owed_elections h now busy os st ch w = (w', Inr (st', ch'))"
  shows "step_ok h w w' \<and> (ch' \<or> st_ok h st' w')"
  using assms(2-)
proof (induction os arbitrary: w st ch)
  case (Cons ofc os)
  show ?case
  proof (cases "(of_Closed ofc \<or> of_Acquisition ofc \<noteq> AcquireElection \<and> of_Acquisition ofc \<noteq> AcquireHead) \<or> seatsHeld st ofc \<ge> of_Seats ofc")
    case True
    then show ?thesis using Cons.IH [OF Cons.prems(1,2), of ch] Cons.prems(3,4) by (auto split: if_splits)
  next
    case False
    then obtain w1 st1 o1 where w1:
      "(if of_ID ofc = '''' then tx_bind (materialise h '''' now st) (\<lambda>st'. tx_return (st', case headOffice st' of Some o' \<Rightarrow> o' | None \<Rightarrow> zero_office))
        else tx_return (st, ofc)) w = (w1, Inr (st1, o1))"
      "(if of_ID o1 \<in> busy then owed_elections h now busy os st1 ch
        else if of_Acquisition o1 = AcquireElection \<and> of_Seats o1 > 0 \<and> seatsHeld st1 o1 = 0 \<and> \<not> st_stored st1 then owed_elections h now busy os st1 ch
        else tx_bind (openElection h now o1 '''') (\<lambda>_. owed_elections h now busy os st1 True)) w1 = (w', Inr (st', ch'))"
      using Cons.prems(4) by (auto simp: tx_bind_Inr split: if_splits)
    have s: "step_ok h w w1 \<and> st_ok h st1 w1 \<and> of_ID o1 \<in> office_ids w1"
    proof (cases "of_ID ofc = ''''")
      case True
      then obtain st2 where m: "materialise h '''' now st w = (w1, Inr st1)" "o1 = (case headOffice st1 of Some o' \<Rightarrow> o' | None \<Rightarrow> zero_office)"
        using w1(1) by (auto simp: tx_bind_Inr)
      note k = materialise_ok [OF assms(1) Cons.prems(1,2) m(1)]
      have "charter_ok h w1" using k(1) Cons.prems(1) by (simp add: step_ok_def)
      then obtain x where "x \<in> set (st_offices st1)" "headOffice st1 = Some x" using headOffice_stored [OF _ k(2,3)] by blast
      then show ?thesis using k m(2) st_ok_office(2) [OF k(2,3)] by simp
    next
      case False
      then show ?thesis using w1(1) Cons.prems(2,3) by auto
    qed
    then have ok1: "charter_ok h w1" and os: "\<forall>ofc\<in>set os. of_ID ofc = '''' \<or> of_ID ofc \<in> office_ids w1"
      using Cons.prems(1,3) by (auto simp: step_ok_def grows_def)
    show ?thesis
    proof (cases "of_ID o1 \<in> busy \<or> of_Acquisition o1 = AcquireElection \<and> of_Seats o1 > 0 \<and> seatsHeld st1 o1 = 0 \<and> \<not> st_stored st1")
      case True
      then have "owed_elections h now busy os st1 ch w1 = (w', Inr (st', ch'))" using w1(2) by (auto split: if_splits)
      then show ?thesis using Cons.IH [OF ok1 _ os] s step_ok_trans by blast
    next
      case False
      then obtain w2 i where w2: "openElection h now o1 '''' w1 = (w2, Inr i)" "owed_elections h now busy os st1 True w2 = (w', Inr (st', ch'))"
        using w1(2) by (auto simp: tx_bind_Inr)
      have k: "step_ok h w1 w2" "keeps_rows w1 w2" using step_openElection [OF _ w2(1)] s by auto
      have "charter_ok h w2" using k(1) ok1 by (simp add: step_ok_def)
      moreover have "st_ok h st1 w2" "\<forall>ofc\<in>set os. of_ID ofc = '''' \<or> of_ID ofc \<in> office_ids w2"
        using st_ok_keeps [OF _ k(2)] s os keeps_ids(1) [OF k(2)] by auto
      ultimately show ?thesis using Cons.IH [OF _ _ _ w2(2)] s k(1) step_ok_trans by blast
    qed
  qed
qed simp

lemma owed_changed: "owed_elections h now busy os st True w = (w', Inr (st', ch')) \<Longrightarrow> ch'"
proof (induction os arbitrary: w st)
  case (Cons ofc os)
  then show ?case by (auto simp: tx_bind_Inr split: if_splits)
qed simp

lemma owed_unchanged:
  assumes ids: "ids_unique h" and ok: "charter_ok h w" and st: "st_ok h st w" and busy: "busy \<subseteq> office_ids w"
    and run: "owed_elections h now busy os st False w = (w', Inr (st', False))"
  shows "w' = w \<and> st' = st"
  using run
proof (induction os)
  case (Cons ofc os)
  show ?case
  proof (cases "(of_Closed ofc \<or> of_Acquisition ofc \<noteq> AcquireElection \<and> of_Acquisition ofc \<noteq> AcquireHead) \<or> seatsHeld st ofc \<ge> of_Seats ofc")
    case True
    then show ?thesis using Cons.IH Cons.prems by (auto split: if_splits)
  next
    case False
    then obtain w1 st1 o1 where w1:
      "(if of_ID ofc = '''' then tx_bind (materialise h '''' now st) (\<lambda>st'. tx_return (st', case headOffice st' of Some o' \<Rightarrow> o' | None \<Rightarrow> zero_office))
        else tx_return (st, ofc)) w = (w1, Inr (st1, o1))"
      "(if of_ID o1 \<in> busy then owed_elections h now busy os st1 False
        else if of_Acquisition o1 = AcquireElection \<and> of_Seats o1 > 0 \<and> seatsHeld st1 o1 = 0 \<and> \<not> st_stored st1 then owed_elections h now busy os st1 False
        else tx_bind (openElection h now o1 '''') (\<lambda>_. owed_elections h now busy os st1 True)) w1 = (w', Inr (st', False))"
      using Cons.prems by (auto simp: tx_bind_Inr split: if_splits)
    have skipped: "of_ID o1 \<in> busy \<or> of_Acquisition o1 = AcquireElection \<and> of_Seats o1 > 0 \<and> seatsHeld st1 o1 = 0 \<and> \<not> st_stored st1"
      using w1(2) owed_changed by (fastforce simp: tx_bind_Inr split: if_splits)
    have "w1 = w \<and> st1 = st"
    proof (cases "of_ID ofc = '''' \<and> \<not> st_stored st")
      case True
      then have o: "st_offices st = [FoundersOffice '''' (cp_Title h)]" using st by (simp add: st_ok_def)
      obtain w2 w3 i where r: "charter_NewID (cp_NewID h) w = (w2, Inr i)" "st1 = st\<lparr>st_offices := [(FoundersOffice '''' (cp_Title h))\<lparr>of_ID := i\<rparr>], st_stored := True\<rparr>"
        "o1 = (case headOffice st1 of Some o' \<Rightarrow> o' | None \<Rightarrow> zero_office)"
        using w1(1) True o by (auto simp: materialise_def tx_bind_Inr Let_def)
      then have "o1 = (FoundersOffice '''' (cp_Title h))\<lparr>of_ID := i\<rparr>" by (simp add: headOffice_def FoundersOffice_def)
      moreover have "i \<notin> office_ids w" using r(1) charter_okD(1) [OF ok] by (auto simp: NewID_run)
      ultimately show ?thesis using skipped busy by (auto simp: FoundersOffice_def)
    next
      case False
      then show ?thesis using w1(1) by (auto simp: materialise_def split: if_splits)
    qed
    then show ?thesis using Cons.IH w1(2) skipped by (auto split: if_splits)
  qed
qed simp

lemma busy_ids: "charter_ok h w \<Longrightarrow> busy_offices w now \<subseteq> office_ids w"
  using charter_okD(5) [of h w] by (auto simp: busy_offices_def RecentBallots_def dest!: in_set_takeD)

text \<open>The charter an act works on is the charter of the rows it finds.\<close>

lemma charterTick_ok:
  assumes ids: "ids_unique h" and ok: "charter_ok h w" and run: "charterTick h now w = (w', Inr st)"
  shows "step_ok h w w'" "st = loadCharter h now w'" "charter_ok h w'"
proof -
  let ?due = "\<lambda>b. if now < cb_ClosesAt b then tx_return () else settleBallot h now b"
  obtain w1 w2 st' ch where r: "tx_each ?due (OpenBallots w) w = (w1, Inr ())" "tx_each (end_term now) (ExpiredSeats w1 now) w1 = (w2, Inr ())"
    "owed_elections h now (busy_offices w2 now) (st_offices (loadCharter h now w2)) (loadCharter h now w2) False w2 = (w', Inr (st', ch))"
    "st = (if ch then loadCharter h now w' else st')"
    using run by (auto simp: charterTick_def Let_def tx_bind_Inr)
  have s1: "step_ok h w w1"
  proof (rule step_each [where k = id, OF _ _ ok r(1)])
    show "step_ok h v v'" if "charter_ok h v" "proposal_ok h (cd_Offices v) (id b)" "?due b v = (v', Inr u)" for b v v' u
      using that step_settleBallot [OF that(1)] by (auto split: if_splits)
    show "\<forall>b\<in>set (OpenBallots w). proposal_ok h (cd_Offices w) (id b)" using charter_okD(9) [OF ok] OpenBallots_set by auto
  qed
  then have ok1: "charter_ok h w1" using ok by (simp add: step_ok_def)
  let ?none = "\<lparr>cb_ID = '''', cb_Kind = BallotRecall, cb_OfficeID = '''', cb_Target = '''', cb_OpenedBy = '''', cb_Status = BallotOpen, cb_ActionID = '''',
    cb_Proposal = None, cb_OpensAt = 0, cb_ClosesAt = 0, cb_SettledAt = 0, cb_Eligible = 0\<rparr>"
  have s2: "step_ok h w1 w2" by (rule step_each [where k = "\<lambda>_. ?none", OF _ _ ok1 r(2)]) (auto intro: step_end_term simp: proposal_ok_def)
  then have ok2: "charter_ok h w2" using ok1 by (simp add: step_ok_def)
  note st2 = loadCharter_ok [OF ok2, of now]
  have "\<forall>ofc\<in>set (st_offices (loadCharter h now w2)). of_ID ofc = '''' \<or> of_ID ofc \<in> office_ids w2"
    using st_ok_office(2) [OF st2] st_ok_stored [OF st2] by blast
  from step_owed [OF ids ok2 st2 this r(3)] have s3: "step_ok h w2 w'" by simp
  show "step_ok h w w'" using s1 s2 s3 step_ok_trans by blast
  then show "charter_ok h w'" using ok by (simp add: step_ok_def)
  show "st = loadCharter h now w'"
  proof (cases ch)
    case False
    then have "owed_elections h now (busy_offices w2 now) (st_offices (loadCharter h now w2)) (loadCharter h now w2) False w2 = (w', Inr (st', False))"
      using r(3) by simp
    from owed_unchanged [OF ids ok2 st2 busy_ids [OF ok2] this] have "w' = w2 \<and> st' = loadCharter h now w2" .
    then show ?thesis using r(4) False by simp
  qed (use r(4) in simp)
qed

section \<open>The acts\<close>

lemma step_materialise: "ids_unique h \<Longrightarrow> charter_ok h w \<Longrightarrow> st_ok h st w \<Longrightarrow> materialise h actor now st w = (w', Inr st') \<Longrightarrow> step_ok h w w'"
  by (rule materialise_ok(1))

text \<open>What a request makes of an office is within the rails once the rails let it through.\<close>

lemma NormaliseGrants_ok:
  assumes "NormaliseGrantsForSettlement gs = Inr out"
  shows "distinct (map gt_Permission out)" "\<forall>g\<in>set out. grant_ok g \<and> \<not> UnionOnly (gt_Permission g)"
proof -
  have u: "\<forall>g\<in>set gs. \<not> UnionOnly (gt_Permission g)" "NormaliseGrants gs = Inr out"
    using assms by (auto simp: NormaliseGrantsForSettlement_def split: if_splits)
  note x = NormaliseGrants_exact [OF u(2)]
  show "distinct (map gt_Permission out)" by (rule x(2))
  show "\<forall>g\<in>set out. grant_ok g \<and> \<not> UnionOnly (gt_Permission g)" using x(4,5) u(1) by blast
qed

lemma next_office_new:
  "next_office h st None i title grants rq = Inr nxt \<Longrightarrow>
    \<not> of_Closed nxt \<and> of_ID nxt = i \<and> of_Acquisition nxt \<noteq> AcquireHead \<and> of_Grants nxt = grants"
  by (auto simp: next_office_def Let_def split: if_splits)

lemma next_office_head:
  "next_office h st (Some p) i title grants rq = Inr nxt \<Longrightarrow> of_Acquisition p = AcquireHead \<Longrightarrow>
    \<not> of_Closed nxt \<and> of_ID nxt = of_ID p \<and> of_Acquisition nxt = AcquireHead \<and> \<not> of_Deputy nxt \<and> of_Seats nxt = of_Seats p \<and> of_Grants nxt = of_Grants p"
  by (auto simp: next_office_def Let_def split: if_splits)

lemma next_office_other:
  "next_office h st (Some p) i title grants rq = Inr nxt \<Longrightarrow> of_Acquisition p \<noteq> AcquireHead \<Longrightarrow>
    \<not> of_Closed nxt \<and> of_ID nxt = of_ID p \<and> of_Acquisition nxt \<noteq> AcquireHead \<and> of_Grants nxt = grants"
  by (auto simp: next_office_def Let_def split: if_splits)

lemma next_office_fields:
  assumes n: "next_office h st prev i title grants rq = Inr nxt"
  shows "\<not> of_Closed nxt" "of_ID nxt = (case prev of None \<Rightarrow> i | Some p \<Rightarrow> of_ID p)"
    "of_Acquisition nxt = AcquireHead \<longleftrightarrow> (\<exists>p. prev = Some p \<and> of_Acquisition p = AcquireHead)"
    "of_Deputy nxt \<Longrightarrow> of_Acquisition nxt \<noteq> AcquireHead"
    "prev = Some p \<Longrightarrow> of_Acquisition p = AcquireHead \<Longrightarrow> of_Seats nxt = of_Seats p \<and> of_Grants nxt = of_Grants p"
    "of_Acquisition nxt \<noteq> AcquireHead \<Longrightarrow> of_Grants nxt = grants"
proof -
  consider "prev = None" | p where "prev = Some p" "of_Acquisition p = AcquireHead" | p where "prev = Some p" "of_Acquisition p \<noteq> AcquireHead" by (cases prev) auto
  then have "\<not> of_Closed nxt \<and> of_ID nxt = (case prev of None \<Rightarrow> i | Some p \<Rightarrow> of_ID p) \<and>
    (of_Acquisition nxt = AcquireHead \<longleftrightarrow> (\<exists>p. prev = Some p \<and> of_Acquisition p = AcquireHead)) \<and>
    (of_Deputy nxt \<longrightarrow> of_Acquisition nxt \<noteq> AcquireHead) \<and>
    (\<forall>p. prev = Some p \<and> of_Acquisition p = AcquireHead \<longrightarrow> of_Seats nxt = of_Seats p \<and> of_Grants nxt = of_Grants p) \<and>
    (of_Acquisition nxt \<noteq> AcquireHead \<longrightarrow> of_Grants nxt = grants)"
  proof cases
    case 1
    with next_office_new [OF n [unfolded 1]] show ?thesis by simp
  next
    case 2
    with next_office_head [OF n [unfolded 2(1)] 2(2)] show ?thesis by simp
  next
    case 3
    with next_office_other [OF n [unfolded 3(1)] 3(2)] show ?thesis by simp
  qed
  then show "\<not> of_Closed nxt" "of_ID nxt = (case prev of None \<Rightarrow> i | Some p \<Rightarrow> of_ID p)"
    "of_Acquisition nxt = AcquireHead \<longleftrightarrow> (\<exists>p. prev = Some p \<and> of_Acquisition p = AcquireHead)"
    "of_Deputy nxt \<Longrightarrow> of_Acquisition nxt \<noteq> AcquireHead"
    "prev = Some p \<Longrightarrow> of_Acquisition p = AcquireHead \<Longrightarrow> of_Seats nxt = of_Seats p \<and> of_Grants nxt = of_Grants p"
    "of_Acquisition nxt \<noteq> AcquireHead \<Longrightarrow> of_Grants nxt = grants"
    by blast+
qed

lemma next_office_ok:
  assumes g: "distinct (map gt_Permission grants)" "\<forall>g\<in>set grants. grant_ok g \<and> \<not> UnionOnly (gt_Permission g)"
    and p: "\<And>p. prev = Some p \<Longrightarrow> office_wf h p"
    and n: "next_office h st prev i title grants rq = Inr nxt" and v: "ValidateOffice nxt k (lim_of h) = None"
  shows "office_wf h nxt"
proof -
  note f = next_office_fields [OF n]
  have l: "1 \<le> of_Seats nxt" "of_Seats nxt \<le> lim_MaxSeats (lim_of h)" "int (length (of_Grants nxt)) \<le> lim_MaxPermissions (lim_of h)"
    "\<And>x. of_Acquisition nxt \<noteq> AcquireOther x" "ValidateSeparation nxt (cp_Inquisitorial h) = None"
    using v by (auto simp: ValidateOffice_def lim_of_def split: if_splits acquisition.splits)
  show ?thesis
  proof (cases "of_Acquisition nxt = AcquireHead")
    case True
    then obtain q where q: "prev = Some q" "of_Acquisition q = AcquireHead" using f(3) by blast
    have "of_Grants nxt = AllPermissions" using f(5) [OF q] p [OF q(1)] q(2) by (simp add: office_wf_def)
    then show ?thesis using True f(1,4) l(1) by (auto simp: office_wf_def)
  next
    case False
    then have "of_Acquisition nxt \<in> {AcquireAppointment, AcquireElection}" using l(4) by (cases "of_Acquisition nxt") auto
    then show ?thesis using False f(1) f(6) [OF False] g l by (simp add: office_wf_def)
  qed
qed


text \<open>What a saved request did, step by step.\<close>

lemma office_save_run:
  assumes "office_save h now player key rq st0 w = (w', Inr a)"
  obtains (replay) "w' = w" "a = None"
  | (act) w1 st w2 w3 i prev grants title nxt where
    "charter_Reserve player key w = (w1, Inr True)" "materialise h player now st0 w1 = (w2, Inr st)"
    "prev = find (\<lambda>ofc. of_ID ofc = resolveOffice st (resolveOffice st0 (rq_Office rq))) (st_offices st)"
    "NormaliseGrantsForSettlement (grantsOf (rq_Grants rq)) = Inr grants" "charter_NewID (cp_NewID h) w2 = (w3, Inr i)"
    "next_office h st prev i title grants rq = Inr nxt" "save_rails h st (heldBy st0 player) prev nxt (lim_of h) w3 = (w3, Inr ())"
    "save_rows h now player (heldBy st0 player) prev nxt w3 = (w', Inr a)"
proof -
  let ?i = "resolveOffice st0 (rq_Office rq)"
  obtain w1 fresh where r: "charter_Reserve player key w = (w1, Inr fresh)"
    "(if \<not> fresh then tx_return None
      else tx_bind (materialise h player now st0) (\<lambda>st.
        let i = resolveOffice st ?i; lim = lim_of h; prev = find (\<lambda>ofc. of_ID ofc = i) (st_offices st) in
        tx_bind (tx_lift (fault_of (NormaliseGrantsForSettlement (grantsOf (rq_Grants rq))))) (\<lambda>grants.
        if \<not> ?i = '''' \<and> prev = None then tx_fail (Refused VillageNotFound)
        else
          let taken = map of_Title (filter (\<lambda>ofc. case prev of None \<Rightarrow> True | Some p \<Rightarrow> of_ID ofc \<noteq> of_ID p) (st_offices st)) in
          tx_bind (tx_lift (fault_of (ValidateTitle (cp_Lower h) (rq_Title rq) taken lim))) (\<lambda>title.
          tx_bind (charter_NewID (cp_NewID h)) (\<lambda>new_id.
          tx_bind (tx_lift (next_office h st prev new_id title grants rq)) (\<lambda>next.
          tx_bind (save_rails h st (heldBy st0 player) prev next lim) (\<lambda>_.
          save_rows h now player (heldBy st0 player) prev next))))))) w1 = (w', Inr a)"
    using assms unfolding office_save_def Let_def lim_of_def [symmetric] by (auto simp: tx_bind_Inr split: if_splits)
  show ?thesis
  proof (cases fresh)
    case False
    with r show ?thesis by (intro replay) (auto simp: charter_Reserve_def split: if_splits)
  next
    case True
    have rails: "w5 = w4" if "save_rails h st held prev nxt lim w4 = (w5, Inr x)" for st held prev nxt lim w4 w5 x
      using that by (auto simp: save_rails_def Let_def rail_def tx_bind_Inr)
    have f: "r = Inr a" if "fault_of r = Inr a" for r :: "charter_error + 'x" and a using that by (auto simp: fault_of_def split: sum.splits)
    from r(2) True obtain w2 st where m: "materialise h player now st0 w1 = (w2, Inr st)" and
      k: "(let i = resolveOffice st ?i; prev = find (\<lambda>ofc. of_ID ofc = i) (st_offices st) in
        tx_bind (tx_lift (fault_of (NormaliseGrantsForSettlement (grantsOf (rq_Grants rq))))) (\<lambda>grants.
        if \<not> ?i = '''' \<and> prev = None then tx_fail (Refused VillageNotFound)
        else
          let taken = map of_Title (filter (\<lambda>ofc. case prev of None \<Rightarrow> True | Some p \<Rightarrow> of_ID ofc \<noteq> of_ID p) (st_offices st)) in
          tx_bind (tx_lift (fault_of (ValidateTitle (cp_Lower h) (rq_Title rq) taken (lim_of h)))) (\<lambda>title.
          tx_bind (charter_NewID (cp_NewID h)) (\<lambda>new_id.
          tx_bind (tx_lift (next_office h st prev new_id title grants rq)) (\<lambda>next.
          tx_bind (save_rails h st (heldBy st0 player) prev next (lim_of h)) (\<lambda>_.
          save_rows h now player (heldBy st0 player) prev next)))))) w2 = (w', Inr a)"
      by (simp only: not_True_eq_False if_False) (auto simp: Let_def elim: tx_bind_InrE)
    define prev where "prev = find (\<lambda>ofc. of_ID ofc = resolveOffice st ?i) (st_offices st)"
    from k obtain grants title i w3 nxt w4 where n: "fault_of (NormaliseGrantsForSettlement (grantsOf (rq_Grants rq))) = Inr grants"
      "charter_NewID (cp_NewID h) w2 = (w3, Inr i)" "next_office h st prev i title grants rq = Inr nxt"
      "save_rails h st (heldBy st0 player) prev nxt (lim_of h) w3 = (w4, Inr ())" "save_rows h now player (heldBy st0 player) prev nxt w4 = (w', Inr a)"
      unfolding Let_def prev_def [symmetric] by (elim tx_bind_InrE) (auto simp: tx_bind_Inr split: if_splits)
    show ?thesis using act [OF _ m prev_def f [OF n(1)] n(2,3)] r(1) True n(4,5) rails [OF n(4)] by simp
  qed
qed


text \<open>The rows of a save: the office is written, or its change goes to the residents.\<close>

lemma save_rows_run:
  assumes "save_rows h now player held prev nxt w = (w', Inr a)"
  obtains (written) w1 w2 action where "SaveOffice (cp_DBLower h) nxt now w = (w1, Inr ())" "charter_Audit player action (of_ID nxt) now w1 = (w2, Inr ())"
      "appendVillageEvent action (of_ID nxt) player w2 = (w', Inr ())" "a = Some action" "action = (if prev = None then ''office_created'' else ''office_changed'')"
  | (vote) p i where "prev = Some p" "openAmendment h now ''save'' nxt player w = (w', Inr i)" "a = Some ''amendment_proposed''"
  using assms unfolding save_rows_def Let_def by (cases prev) (auto simp: tx_bind_Inr split: if_splits)

lemma step_written:
  assumes "step_ok h w w1" "charter_Audit player action i now w1 = (w2, Inr u)" "appendVillageEvent action i player w2 = (w', Inr v)"
  shows "step_ok h w w'"
  using step_ok_trans [OF assms(1) step_ok_trans [OF step_statement(4) [OF assms(2)] step_statement(5) [OF assms(3)]]] .

text \<open>What is saved: the office of a stored row, changed, or a new one.\<close>

lemma prev_row:
  assumes "charter_ok h w" "st_ok h st w" "st_stored st" "find P (st_offices st) = Some p"
  shows "p \<in> set (st_offices st)" "of_ID p \<in> office_ids w" "office_wf h p" "\<exists>r\<in>set (cd_Offices w). or_Office r = p \<and> row_open r"
proof -
  show m: "p \<in> set (st_offices st)" using assms(4) by (auto simp: find_Some_iff)
  show "of_ID p \<in> office_ids w" by (rule st_ok_office(2) [OF assms(2,3) m])
  show r: "\<exists>r\<in>set (cd_Offices w). or_Office r = p \<and> row_open r" by (rule st_ok_office(1) [OF assms(2,3) m])
  then show "office_wf h p" using charter_okD(7) [OF assms(1)] by blast
qed

lemma step_office_save:
  assumes ids: "ids_unique h" and ok: "charter_ok h w" "st_ok h st0 w" and run: "office_save h now player key rq st0 w = (w', Inr a)"
  shows "step_ok h w w'"
  using run
proof (cases rule: office_save_run)
  case (act w1 st w2 w3 i prev grants title nxt)
  note s1 = step_statement(1) [OF act(1), of h]
  have ok1: "charter_ok h w1" "st_ok h st0 w1" using ok charter_ok_same st_ok_same statements_same(1) [OF act(1)] by blast+
  note m = materialise_ok [OF ids ok1 act(2)]
  have ok2: "charter_ok h w2" using m(1) ok1(1) by (simp add: step_ok_def)
  have same3: "same_rows w2 w3" by (rule statements_same(2) [OF act(5)])
  have ok3: "charter_ok h w3" "st_ok h st w3" using charter_ok_same [OF ok2 same3] st_ok_same [OF m(2) same3] by auto
  have s3: "step_ok h w w3" using s1 m(1) step_statement(2) [OF act(5)] step_ok_trans by blast
  note p = prev_row [OF ok3 m(3) act(3) [symmetric, THEN trans]]
  have v: "ValidateOffice nxt (int (length (st_offices st)) + (if prev = None then 1 else 0)) (lim_of h) = None"
    using act(7) by (auto simp: save_rails_def rail_def Let_def tx_bind_Inr)
  note f = next_office_fields [OF act(6)]
  have wf: "office_wf h nxt" by (rule next_office_ok [OF NormaliseGrants_ok [OF act(4)] _ act(6) v]) (use p(3) in auto)
  have i: "w3 = w2\<lparr>cd_NextID := Suc (cd_NextID w2)\<rparr>" "i = cp_NewID h (cd_NextID w2)" using act(5) by (auto simp: NewID_run)
  have fresh: "i \<notin> office_ids w3" "i \<noteq> ''''" "\<forall>n\<ge>cd_NextID w3. cp_NewID h n \<noteq> i"
    using charter_okD(1) [OF ok2] ids by (auto simp: i office_ids_def ids_unique_def dest: injD)
  have id: "of_ID nxt = i \<and> prev = None \<or> (\<exists>p. prev = Some p \<and> of_ID nxt = of_ID p \<and> of_ID p \<in> office_ids w3)" using f(2) p(2) by (cases prev) auto
  have head: "of_Acquisition (or_Office r) = AcquireHead \<longleftrightarrow> of_Acquisition nxt = AcquireHead"
    if r: "r \<in> set (cd_Offices w3)" "of_ID (or_Office r) = of_ID nxt" for r
  proof -
    have "of_ID nxt \<in> office_ids w3" unfolding office_ids_def image_iff by (rule bexI [OF _ r(1)]) (simp add: r(2))
    then obtain q where q: "prev = Some q" "of_ID nxt = of_ID q" using id fresh(1) by auto
    then obtain r' where "r' \<in> set (cd_Offices w3)" "or_Office r' = q" using p(4) by blast
    then have "or_Office r = q" using row_of_id [OF ok3(1) r(1)] r(2) q(2) by auto
    then show ?thesis using f(3) q(1) by simp
  qed
  have "step_ok h w3 w'"
    using act(8)
  proof (cases rule: save_rows_run)
    case (written w4 w5 action)
    have "step_ok h w3 w4"
    proof (rule step_SaveOffice [OF wf _ _ _ _ written(1)])
      show "of_ID nxt \<noteq> ''''" using id fresh(2) charter_okD(2) [OF ok3(1)] by auto
      show "\<forall>n\<ge>cd_NextID w3. cp_NewID h n \<noteq> of_ID nxt" using id fresh(3) charter_okD(1) [OF ok3(1)] by auto
      show "\<forall>r\<in>set (cd_Offices w3). of_ID (or_Office r) = of_ID nxt \<longrightarrow> (of_Acquisition (or_Office r) = AcquireHead \<longleftrightarrow> of_Acquisition nxt = AcquireHead)"
        using head by blast
      show "cd_Offices w3 = [] \<longrightarrow> of_Acquisition nxt = AcquireHead" using ok3(2) m(3) by (simp add: st_ok_def)
    qed
    then show ?thesis using step_written [OF _ written(2,3)] by blast
  next
    case (vote q j)
    then obtain r where r: "r \<in> set (cd_Offices w3)" "or_Office r = q" "of_ID nxt = of_ID q" using p(4) f(2) by auto
    show ?thesis by (rule step_openAmendment [THEN conjunct1, OF ok3(1) wf r(1) _ _ vote(2)]) (use r head [OF r(1)] in simp_all)
  qed
  then show ?thesis using s3 step_ok_trans by blast
qed (use step_ok_refl in simp)


lemma find_in: "find P xs = Some x \<Longrightarrow> x \<in> set xs \<and> P x"
  by (induction xs) (auto split: if_splits)

lemma office_close_run:
  assumes "office_close h now player key rq st w = (w', Inr a)"
  obtains (replay) "w' = w" "a = None"
  | (act) w1 target where "charter_Reserve player key w = (w1, Inr True)" "target \<in> set (st_offices st)" "of_ID target \<noteq> ''''"
      "of_Acquisition target \<noteq> AcquireHead" "ManagerGuard (office_states st (close_in (of_ID target) (st_offices st))) = None"
      "(\<exists>w2 w3 w4. EndSeatsOf (of_ID target) ''office_closed'' now w1 = (w2, Inr ()) \<and> CloseOffice (of_ID target) now w2 = (w3, Inr ()) \<and>
          charter_Audit player ''office_closed'' (of_ID target) now w3 = (w4, Inr ()) \<and>
          appendVillageEvent ''office_closed'' (of_ID target) player w4 = (w', Inr ()) \<and> a = Some ''office_closed'') \<or>
       (\<exists>i. openAmendment h now ''close'' target player w1 = (w', Inr i) \<and> a = Some ''amendment_proposed'')"
proof -
  obtain w1 fresh where r: "charter_Reserve player key w = (w1, Inr fresh)" "\<not> fresh \<longrightarrow> w' = w1 \<and> a = None"
    "fresh \<longrightarrow> (\<exists>target. find (\<lambda>ofc. of_ID ofc \<noteq> '''' \<and> of_ID ofc = trim_id (rq_Office rq)) (st_offices st) = Some target \<and>
      of_Acquisition target \<noteq> AcquireHead \<and> ManagerGuard (office_states st (close_in (of_ID target) (st_offices st))) = None \<and>
      ((\<exists>w2 w3 w4. EndSeatsOf (of_ID target) ''office_closed'' now w1 = (w2, Inr ()) \<and> CloseOffice (of_ID target) now w2 = (w3, Inr ()) \<and>
          charter_Audit player ''office_closed'' (of_ID target) now w3 = (w4, Inr ()) \<and>
          appendVillageEvent ''office_closed'' (of_ID target) player w4 = (w', Inr ()) \<and> a = Some ''office_closed'') \<or>
       (\<exists>i. openAmendment h now ''close'' target player w1 = (w', Inr i) \<and> a = Some ''amendment_proposed'')))"
    using assms unfolding office_close_def Let_def rail_def by (auto simp: tx_bind_Inr split: if_splits option.splits)
  show ?thesis
  proof (cases fresh)
    case False
    then show ?thesis using r replay by (auto simp: charter_Reserve_def split: if_splits)
  next
    case True
    then obtain target where t: "find (\<lambda>ofc. of_ID ofc \<noteq> '''' \<and> of_ID ofc = trim_id (rq_Office rq)) (st_offices st) = Some target"
      and rest: "of_Acquisition target \<noteq> AcquireHead" "ManagerGuard (office_states st (close_in (of_ID target) (st_offices st))) = None"
      "(\<exists>w2 w3 w4. EndSeatsOf (of_ID target) ''office_closed'' now w1 = (w2, Inr ()) \<and> CloseOffice (of_ID target) now w2 = (w3, Inr ()) \<and>
          charter_Audit player ''office_closed'' (of_ID target) now w3 = (w4, Inr ()) \<and>
          appendVillageEvent ''office_closed'' (of_ID target) player w4 = (w', Inr ()) \<and> a = Some ''office_closed'') \<or>
       (\<exists>i. openAmendment h now ''close'' target player w1 = (w', Inr i) \<and> a = Some ''amendment_proposed'')"
      using r(3) by blast
    show ?thesis by (rule act [OF _ _ _ rest]) (use r(1) True find_in [OF t] in auto)
  qed
qed

lemma step_office_close:
  assumes ok: "charter_ok h w" "st_ok h st w" and run: "office_close h now player key rq st w = (w', Inr a)"
  shows "step_ok h w w'"
  using run
proof (cases rule: office_close_run)
  case (act w1 target)
  note s1 = step_statement(1) [OF act(1), of h]
  have ok1: "charter_ok h w1" "st_ok h st w1" using ok charter_ok_same st_ok_same statements_same(1) [OF act(1)] by blast+
  obtain r where r: "r \<in> set (cd_Offices w1)" "or_Office r = target"
    using st_ok_office(1) [OF ok1(2) st_ok_stored [OF ok1(2) act(2,3)] act(2)] by blast
  from act(6) have "step_ok h w1 w'"
  proof (elim disjE exE conjE)
    fix w2 w3 w4
    assume c: "EndSeatsOf (of_ID target) ''office_closed'' now w1 = (w2, Inr ())" "CloseOffice (of_ID target) now w2 = (w3, Inr ())"
      "charter_Audit player ''office_closed'' (of_ID target) now w3 = (w4, Inr ())" "appendVillageEvent ''office_closed'' (of_ID target) player w4 = (w', Inr ())"
    have "cd_Offices w2 = cd_Offices w1" using c(1) by (auto simp: EndSeatsOf_def)
    then have "step_ok h w2 w3" by (intro step_CloseOffice [OF _ c(2)]) (use row_of_id [OF ok1(1) _ r(1)] r(2) act(4) in auto)
    then have "step_ok h w1 w3" using step_EndSeatsOf [OF c(1)] step_ok_trans by blast
    then show ?thesis using step_written [OF _ c(3,4)] by blast
  next
    fix i
    assume c: "openAmendment h now ''close'' target player w1 = (w', Inr i)"
    have "office_wf h target" using charter_okD(7) [OF ok1(1) r(1)] r(2) by simp
    from step_openAmendment [THEN conjunct1, OF ok1(1) this r(1) _ _ c] r(2) show ?thesis by simp
  qed
  then show ?thesis using s1 step_ok_trans by blast
qed (use step_ok_refl in simp)

lemma seat_fill_run:
  assumes "seat_fill h now player st target whom w = (w', Inr a)"
  obtains w1 i where "CanGrant (heldBy st player) (of_Grants target) = None" "charter_NewID (cp_NewID h) w = (w1, Inr i)" "a = ''seat_filled''"
    "Seat \<lparr>cse_ID = i, cse_OfficeID = of_ID target, cse_HolderID = whom, cse_AppointedBy = player, cse_Since = now, cse_TermEnds = 0\<rparr> w1 = (w', Inr True)"
    "int (length (st_seats st (of_ID target))) < of_Seats target"
  using assms by (auto simp: seat_fill_def rail_def tx_bind_Inr split: if_splits)

lemma seat_end_run:
  assumes "seat_end h now st target whom reason w = (w', Inr a)"
  obtains "of_Acquisition target \<noteq> AcquireHead" "ManagerGuard (states_without st (of_ID target) whom) = None"
    "EndSeat (of_ID target) whom reason now w = (w', Inr True)" "a = ''seat_'' @ reason"
  using assms by (auto simp: seat_end_def rail_def tx_bind_Inr split: if_splits)

lemma office_seat_run:
  assumes "office_seat h now player key rq appoint st w = (w', Inr a)"
  obtains (replay) "w' = w" "a = None"
  | (act) w1 w2 w3 target whom action where "charter_Reserve player key w = (w1, Inr True)" "target \<in> set (st_offices st)" "of_ID target \<noteq> ''''"
      "(if appoint then seat_fill h now player st target whom
        else seat_end h now st target whom (if trim_id (rq_Player rq) = '''' then ''resigned'' else ''dismissed'')) w1 = (w2, Inr action)"
      "charter_Audit player action (of_ID target) now w2 = (w3, Inr ())" "appendVillageEvent action (of_ID target) player w3 = (w', Inr ())" "a = Some action"
      "of_Acquisition target = AcquireAppointment \<or> \<not> appoint"
proof -
  let ?resign = "\<not> appoint \<and> trim_id (rq_Player rq) = ''''"
  obtain w1 fresh where r: "charter_Reserve player key w = (w1, Inr fresh)" "\<not> fresh \<longrightarrow> w' = w1 \<and> a = None"
    "fresh \<longrightarrow> (\<exists>target whom action w2 w3. find (\<lambda>ofc. of_ID ofc \<noteq> '''' \<and> of_ID ofc = trim_id (rq_Office rq)) (st_offices st) = Some target \<and>
      (of_Acquisition target = AcquireAppointment \<or> ?resign) \<and>
      (if appoint then seat_fill h now player st target whom
       else seat_end h now st target whom (if ?resign then ''resigned'' else ''dismissed'')) w1 = (w2, Inr action) \<and>
      charter_Audit player action (of_ID target) now w2 = (w3, Inr ()) \<and> appendVillageEvent action (of_ID target) player w3 = (w', Inr ()) \<and> a = Some action)"
    using assms unfolding office_seat_def Let_def by (auto simp: tx_bind_Inr split: if_splits option.splits)
  show ?thesis
  proof (cases fresh)
    case False
    then show ?thesis using r replay by (auto simp: charter_Reserve_def split: if_splits)
  next
    case True
    then obtain target whom action w2 w3 where t: "find (\<lambda>ofc. of_ID ofc \<noteq> '''' \<and> of_ID ofc = trim_id (rq_Office rq)) (st_offices st) = Some target"
      "of_Acquisition target = AcquireAppointment \<or> ?resign"
      "(if appoint then seat_fill h now player st target whom
       else seat_end h now st target whom (if ?resign then ''resigned'' else ''dismissed'')) w1 = (w2, Inr action)"
      "charter_Audit player action (of_ID target) now w2 = (w3, Inr ())" "appendVillageEvent action (of_ID target) player w3 = (w', Inr ())" "a = Some action"
      using r(3) by blast
    show ?thesis by (rule act [OF _ _ _ _ t(4-6)]) (use r(1) True t(2,3) find_in [OF t(1)] in \<open>auto split: if_splits\<close>)
  qed
qed

lemma step_office_seat:
  assumes ok: "charter_ok h w" "st_ok h st w" and run: "office_seat h now player key rq appoint st w = (w', Inr a)"
  shows "step_ok h w w'"
  using run
proof (cases rule: office_seat_run)
  case (act w1 w2 w3 target whom action)
  note s1 = step_statement(1) [OF act(1), of h]
  have ok1: "st_ok h st w1" using ok st_ok_same statements_same(1) [OF act(1)] by blast
  have i: "of_ID target \<in> office_ids w1" by (rule st_ok_office(2) [OF ok1 st_ok_stored [OF ok1 act(2,3)] act(2)])
  have "step_ok h w1 w2"
  proof (cases appoint)
    case True
    with act(4) have "seat_fill h now player st target whom w1 = (w2, Inr action)" by simp
    then show ?thesis
    proof (cases rule: seat_fill_run)
      case (1 w4 j)
      have "of_ID target \<in> office_ids w4" using i keeps_ids(1) [OF keeps_statement(2) [OF 1(2)]] by simp
      then have "step_ok h w4 w2" by (intro step_Seat [OF _ 1(4)]) simp
      then show ?thesis using step_statement(2) [OF 1(2)] step_ok_trans by blast
    qed
  next
    case False
    with act(4) show ?thesis by (auto elim!: seat_end_run intro: step_EndSeat)
  qed
  then have "step_ok h w w2" using s1 step_ok_trans by blast
  then show ?thesis using step_written [OF _ act(5,6)] by blast
qed (use step_ok_refl in simp)


section \<open>The acts of the residents\<close>

lemma step_election_open:
  assumes ids: "ids_unique h" and ok: "charter_ok h w" "st_ok h st w" and run: "election_open h now player ofc_id st w = (w', Inr a)"
  shows "step_ok h w w'"
proof -
  obtain ofc where o: "officeByID st ofc_id = Some ofc" using run by (auto simp: election_open_def split: if_splits option.splits)
  then have m: "ofc \<in> set (st_offices st)" using find_in by (fastforce simp: officeByID_def)
  have open_it: "step_ok h w1 w'"
    if "of_ID o1 \<in> office_ids w1" "openElection h now o1 player w1 = (w', Inr i)" for o1 w1 i
    using step_openElection [OF that(1,2)] by simp
  show ?thesis
  proof (cases "of_ID ofc = '''' \<or> of_ID ofc = ''founder''")
    case True
    then obtain w1 st1 i where r: "materialise h player now st w = (w1, Inr st1)"
      "openElection h now (case headOffice st1 of Some o' \<Rightarrow> o' | None \<Rightarrow> zero_office) player w1 = (w', Inr i)"
      using run o by (auto simp: election_open_def tx_bind_Inr split: if_splits)
    note k = materialise_ok [OF ids ok r(1)]
    have "charter_ok h w1" using k(1) ok(1) by (simp add: step_ok_def)
    then obtain x where x: "x \<in> set (st_offices st1)" "headOffice st1 = Some x" using headOffice_stored [OF _ k(2,3)] by blast
    have "step_ok h w1 w'" by (rule open_it [OF _ r(2)]) (simp add: x(2) st_ok_office(2) [OF k(2,3) x(1)])
    then show ?thesis using k(1) step_ok_trans by blast
  next
    case False
    then obtain i where r: "openElection h now ofc player w = (w', Inr i)"
      using run o by (auto simp: election_open_def tx_bind_Inr split: if_splits)
    show ?thesis by (rule open_it [OF st_ok_office(2) [OF ok(2) st_ok_stored [OF ok(2) m] m] r]) (use False in simp)
  qed
qed

lemma step_charter_stand: "charter_stand h now player ballot w = (w', Inr a) \<Longrightarrow> step_ok h w w'"
  by (auto simp: charter_stand_def tx_bind_Inr split: if_splits option.splits
      dest!: step_statement(6) [of _ _ _ _ _ _ h] step_statement(4) [of _ _ _ _ _ _ _ h] intro: step_ok_trans)

lemma step_charter_vote: "charter_vote h now player ballot choice w = (w', Inr a) \<Longrightarrow> step_ok h w w'"
  by (auto simp: charter_vote_def tx_bind_Inr split: if_splits option.splits sum.splits
      dest!: step_statement(7) [of _ _ _ _ _ _ h] step_statement(4) [of _ _ _ _ _ _ _ h] intro: step_ok_trans)

lemma petitions_ok:
  assumes "charter_ok h w" "pet_OfficeID ` set ps \<subseteq> office_ids w"
  shows "charter_ok h (w\<lparr>cd_Petitions := ps\<rparr>)"
  using assms by (simp add: charter_ok_def office_ids_def)

lemma step_OpenPetition:
  assumes "pet_OfficeID p \<in> office_ids w" "OpenPetition p w = (w', Inr x)"
  shows "step_ok h w w'"
proof (rule step_offices)
  show "cd_Offices w' = cd_Offices w" using assms(2) by (auto simp: OpenPetition_def split: if_splits)
  show "charter_ok h w'" if ok: "charter_ok h w"
  proof (cases "w' = w")
    case False
    then have "w' = w\<lparr>cd_Petitions := cd_Petitions w @ [p\<lparr>pet_Open := True, pet_BallotID := ''''\<rparr>]\<rparr>"
      using assms(2) by (auto simp: OpenPetition_def split: if_splits)
    then show ?thesis using petitions_ok [OF ok, of "cd_Petitions w @ [p\<lparr>pet_Open := True, pet_BallotID := ''''\<rparr>]"] charter_okD(6) [OF ok] assms(1) by simp
  qed (use ok in simp)
qed

lemma step_signPetition:
  assumes "pet_OfficeID pet \<in> office_ids w" "signPetition h now player pet w = (w', Inr a)"
  shows "step_ok h w w'"
proof -
  obtain w1 x where s: "Sign (pet_ID pet) player w = (w1, Inr x)" and r:
    "(let eligible = charter_Eligible w1 (voterCut h (pet_CreatedAt pet)); closes = time_Add now (hours (cs_RecallVoteHours (cset h))) in
      if Signatures w1 (pet_ID pet) < RecallSignatures (cset h) eligible then tx_return ''''
      else
        tx_bind (charter_NewID (cp_NewID h)) (\<lambda>i.
        tx_bind (charter_schedule (cp_NewID h) closes) (\<lambda>action.
        tx_bind (OpenBallot (new_ballot i BallotRecall (pet_OfficeID pet) (pet_Target pet) (pet_StartedBy pet) None now closes eligible action)) (\<lambda>ok.
        if \<not> ok then tx_return ''''
        else
          tx_bind (SetPetition (pet_ID pet) False i) (\<lambda>_.
          tx_bind (charter_Audit '''' ''recall_vote_opened'' (pet_OfficeID pet) now) (\<lambda>_. tx_return i)))))) w1 = (w', Inr a)"
    using assms(2) by (auto simp: signPetition_def tx_bind_Inr split: if_splits)
  have i: "pet_OfficeID pet \<in> office_ids w1" using assms(1) keeps_ids(1) [OF keeps_statement(8) [OF s]] by simp
  have "step_ok h w1 w'"
  proof (cases "Signatures w1 (pet_ID pet) < RecallSignatures (cset h) (charter_Eligible w1 (voterCut h (pet_CreatedAt pet)))")
    case False
    have voted: "step_ok h v v'" "keeps_rows v v'" if "SetPetition (pet_ID pet) False j v = (v1, Inr u)" "charter_Audit y k o1 t v1 = (v', Inr u')" for j v v1 u y k o1 t v' u'
      using step_statement(9) [OF that(1), of h] step_statement(4) [OF that(2), of h] step_ok_trans apply blast
      using keeps_statement(9) [OF that(1)] keeps_statement(4) [OF that(2)] keeps_rows_trans by blast
    have "step_ok h w1 w' \<and> keeps_rows w1 w'"
      using r False unfolding Let_def
      by (simp, elim open_ballot_run [OF i, rotated 2]) (auto simp: proposal_ok_def tx_bind_Inr split: if_splits intro: voted)
    then show ?thesis by simp
  qed (use r in simp)
  then show ?thesis using step_statement(8) [OF s] step_ok_trans by blast
qed

lemma step_recall_start:
  assumes ids: "ids_unique h" and ok: "charter_ok h w" "st_ok h st0 w" and run: "recall_start h holder_code now player ofc_id code st0 w = (w', Inr a)"
  shows "step_ok h w w'"
proof -
  obtain ofc0 where o: "officeByID st0 ofc_id = Some ofc0" using run by (auto simp: recall_start_def split: option.splits)
  then have m: "ofc0 \<in> set (st_offices st0)" using find_in by (fastforce simp: officeByID_def)
  let ?first = "if of_ID ofc0 = '''' \<or> of_ID ofc0 = ''founder'' then
               tx_bind (materialise h player now st0) (\<lambda>st'. tx_return (st', case headOffice st' of Some o' \<Rightarrow> o' | None \<Rightarrow> zero_office))
             else tx_return (st0, ofc0)"
  obtain w1 st ofc where r0: "?first w = (w1, Inr (st, ofc))" and k:
    "(case (case ResidentByCode w1 (trim_id code) of Some r \<Rightarrow> Some (re_ID r) | None \<Rightarrow> holderByCode holder_code st ofc code) of
        None \<Rightarrow> tx_fail (Refused CharterNotHolder)
      | Some who \<Rightarrow>
          (case holderSince st ofc who of
             None \<Rightarrow> tx_fail (Refused CharterNotHolder)
           | Some since \<Rightarrow>
               let last = LastRecall w1 (of_ID ofc) who in
               if who = player then tx_fail (Refused CharterRecallSelf)
               else if \<not> IsEligible w1 player (voterCut h now) then tx_fail (Refused CharterNotEligible)
               else if \<not> RecallTenureOK (cset h) since now then tx_fail (Refused CharterRecallTooEarly)
               else if \<not> time_IsZero last \<and> now < RecallCoolingUntil (cset h) last then tx_fail (Refused CharterRecallCooling)
               else
                 tx_bind (charter_NewID (cp_NewID h)) (\<lambda>pid.
                 let p = \<lparr>pet_ID = pid, pet_OfficeID = of_ID ofc, pet_Target = who, pet_StartedBy = player, pet_Open = True, pet_BallotID = '''', pet_CreatedAt = now\<rparr> in
                 tx_bind (OpenPetition p) (\<lambda>ok.
                 if \<not> ok then tx_fail (Refused CharterRecallOpen)
                 else
                   tx_bind (charter_Audit player ''recall_petition_started'' (of_ID ofc) now) (\<lambda>_.
                   tx_bind (signPetition h now player p) (\<lambda>_. tx_return ''recall_petition_started'')))))) w1 = (w', Inr a)"
    using run o unfolding recall_start_def by (simp only: option.case) (elim tx_bind_InrE, auto)
  obtain who w2 pid w3 w4 w5 x where r: "charter_NewID (cp_NewID h) w1 = (w2, Inr pid)"
    "OpenPetition \<lparr>pet_ID = pid, pet_OfficeID = of_ID ofc, pet_Target = who, pet_StartedBy = player, pet_Open = True, pet_BallotID = '''', pet_CreatedAt = now\<rparr> w2 = (w3, Inr True)"
    "charter_Audit player ''recall_petition_started'' (of_ID ofc) now w3 = (w4, Inr ())"
    "signPetition h now player \<lparr>pet_ID = pid, pet_OfficeID = of_ID ofc, pet_Target = who, pet_StartedBy = player, pet_Open = True, pet_BallotID = '''', pet_CreatedAt = now\<rparr> w4 = (w5, Inr x)"
    "w' = w5"
    using k by (auto simp: Let_def tx_bind_Inr split: if_splits option.splits)
  note r = r0 r
  have s: "step_ok h w w1 \<and> of_ID ofc \<in> office_ids w1"
  proof (cases "of_ID ofc0 = '''' \<or> of_ID ofc0 = ''founder''")
    case True
    then have k0: "materialise h player now st0 w = (w1, Inr st)" "ofc = (case headOffice st of Some o' \<Rightarrow> o' | None \<Rightarrow> zero_office)"
      using r(1) by (auto simp: tx_bind_Inr)
    note k = materialise_ok [OF ids ok k0(1)]
    have "charter_ok h w1" using k(1) ok(1) by (simp add: step_ok_def)
    then obtain y where y: "y \<in> set (st_offices st)" "headOffice st = Some y" using headOffice_stored [OF _ k(2,3)] by blast
    then show ?thesis using k(1) k0(2) st_ok_office(2) [OF k(2,3) y(1)] by simp
  next
    case False
    then show ?thesis using r(1) st_ok_office(2) [OF ok(2) st_ok_stored [OF ok(2) m] m] by simp
  qed
  have i2: "of_ID ofc \<in> office_ids w2" using s keeps_ids(1) [OF keeps_statement(2) [OF r(2)]] by simp
  have s3: "step_ok h w2 w3" by (rule step_OpenPetition [OF _ r(3)]) (use i2 in simp)
  have "cd_Offices w3 = cd_Offices w2" using r(3) by (auto simp: OpenPetition_def split: if_splits)
  then have "of_ID ofc \<in> office_ids w4" using i2 keeps_ids(1) [OF keeps_statement(4) [OF r(4)]] by (simp add: office_ids_def)
  then have "step_ok h w4 w5" by (intro step_signPetition [OF _ r(5)]) simp
  from step_ok_trans [OF step_ok_trans [OF step_ok_trans [OF step_statement(2) [OF r(2)] s3] step_statement(4) [OF r(4)]] this]
  show ?thesis unfolding r(6) by (rule step_ok_trans [OF conjunct1 [OF s]])
qed

lemma step_recall_sign:
  assumes ok: "charter_ok h w" and run: "recall_sign h now player petition w = (w', Inr a)"
  shows "step_ok h w w'"
proof -
  obtain p x where p: "Petition w (trim_id petition) = Some p" "signPetition h now player p w = (w', Inr x)"
    using run by (auto simp: recall_sign_def tx_bind_Inr split: if_splits option.splits)
  have "pet_OfficeID p \<in> office_ids w" using find_in [OF p(1) [unfolded Petition_def]] charter_okD(6) [OF ok] by auto
  then show ?thesis by (rule step_signPetition [OF _ p(2)])
qed

end
