(* ===== verification/Charter_Correct.thy ===== *)
theory Charter_Correct
  imports Charter_System
begin

text \<open>
  What the acts on a charter guarantee. \<open>charter_reach\<close> is every sequence of acts, due ballots, moves of residents and
  changes of the head, from an unwritten charter; the rails hold in every charter it reaches. Then the two promises of one
  act: nobody ends up with a power that neither they nor the actor held (\<open>granted\<close>, rail R1), and an office manager remains
  (rail R2).
\<close>

section \<open>Every sequence of acts\<close>

text \<open>The numbers and the answers of other packages may change between two acts; the identifiers, the caps and the legal model stay.\<close>

definition same_town :: "charter_ports \<Rightarrow> charter_ports \<Rightarrow> bool" where
  "same_town h h' \<longleftrightarrow> cp_NewID h' = cp_NewID h \<and> lim_of h' = lim_of h \<and> cp_DBLower h' = cp_DBLower h"

inductive charter_step :: "charter_ports \<Rightarrow> charter_db \<Rightarrow> charter_db \<Rightarrow> bool" for h where
  step_save: "same_town h h' \<Longrightarrow> CharterOfficeSave h' now player key rq w = (w', r) \<Longrightarrow> charter_step h w w'"
| step_close: "same_town h h' \<Longrightarrow> CharterOfficeClose h' now player key rq w = (w', r) \<Longrightarrow> charter_step h w w'"
| step_appoint: "same_town h h' \<Longrightarrow> CharterAppoint h' now player key rq w = (w', r) \<Longrightarrow> charter_step h w w'"
| step_dismiss: "same_town h h' \<Longrightarrow> CharterDismiss h' now player key rq w = (w', r) \<Longrightarrow> charter_step h w w'"
| step_resign: "same_town h h' \<Longrightarrow> CharterResign h' now player key rq w = (w', r) \<Longrightarrow> charter_step h w w'"
| step_election: "same_town h h' \<Longrightarrow> CharterElectionOpen h' now player key ofc w = (w', r) \<Longrightarrow> charter_step h w w'"
| step_stand: "same_town h h' \<Longrightarrow> CharterStand h' now player key ballot w = (w', r) \<Longrightarrow> charter_step h w w'"
| step_vote: "same_town h h' \<Longrightarrow> CharterVote h' now player key ballot choice w = (w', r) \<Longrightarrow> charter_step h w w'"
| step_recall: "same_town h h' \<Longrightarrow> CharterRecallStart h' holder_code now player key ofc code w = (w', r) \<Longrightarrow> charter_step h w w'"
| step_sign: "same_town h h' \<Longrightarrow> CharterRecallSign h' now player key petition w = (w', r) \<Longrightarrow> charter_step h w w'"
| step_ballot: "same_town h h' \<Longrightarrow> CharterBallotClose h' now i w = (w', u) \<Longrightarrow> charter_step h w w'"
| step_residents: "charter_step h w (w\<lparr>cd_Residents := rs\<rparr>)"
| step_head: "charter_step h w (w\<lparr>cd_Holder := p, cd_HeadSince := t\<rparr>)"

inductive charter_reach :: "charter_ports \<Rightarrow> charter_db \<Rightarrow> bool" for h where
  reach_start: "cd_Offices w = [] \<Longrightarrow> cd_Seats w = [] \<Longrightarrow> cd_Ballots w = [] \<Longrightarrow> cd_Petitions w = [] \<Longrightarrow> charter_reach h w"
| reach_step: "charter_reach h w \<Longrightarrow> charter_step h w w' \<Longrightarrow> charter_reach h w'"

lemma same_town_wf: "same_town h h' \<Longrightarrow> office_wf h' = office_wf h"
proof -
  assume s: "same_town h h'"
  then have "lim_Inquisitorial (lim_of h') = lim_Inquisitorial (lim_of h)" by (simp add: same_town_def)
  then have "cp_Inquisitorial h' = cp_Inquisitorial h" by (simp add: lim_of_def)
  then show ?thesis using s by (intro ext) (simp add: office_wf_def same_town_def)
qed

lemma same_town_ok: "same_town h h' \<Longrightarrow> charter_ok h' w = charter_ok h w"
  using same_town_wf [of h h'] by (simp add: charter_ok_def proposal_ok_def same_town_def)

lemma same_town_ids: "same_town h h' \<Longrightarrow> ids_unique h' = ids_unique h"
  by (simp add: ids_unique_def same_town_def)

text \<open>An act: the housekeeping, then its body on the charter of the rows it finds.\<close>

lemma perform_ok:
  assumes ids: "ids_unique h" and ok: "charter_ok h w" and run: "uow_Do None None (tx_bind (charterTick h now) act) w = (w', r)"
    and act: "\<And>st w1 a. charter_ok h w1 \<Longrightarrow> st_ok h st w1 \<Longrightarrow> act st w1 = (w', Inr a) \<Longrightarrow> step_ok h w1 w'"
  shows "charter_ok h w'"
proof (cases r)
  case (Inl e)
  then show ?thesis using uow_Do_Inl [OF run [unfolded Inl]] ok by simp
next
  case (Inr a)
  then obtain w1 st where w1: "charterTick h now w = (w1, Inr st)" "act st w1 = (w', Inr a)"
    using run by (auto simp: uow_Do_Inr tx_bind_Inr)
  note t = charterTick_ok [OF ids ok w1(1)]
  show ?thesis using act [OF t(3) _ w1(2)] loadCharter_ok [OF t(3)] t(2,3) by (simp add: step_ok_def)
qed

lemma charterAct_ok:
  assumes ids: "ids_unique h" and ok: "charter_ok h w" and run: "charterAct h now player key act w = (w', r)"
    and act: "\<And>st w1 a. charter_ok h w1 \<Longrightarrow> st_ok h st w1 \<Longrightarrow> act st w1 = (w', Inr a) \<Longrightarrow> step_ok h w1 w'"
  shows "charter_ok h w'"
  using run unfolding charterAct_def
proof (rule perform_ok [OF ids ok])
  fix st w1 a
  assume k: "charter_ok h w1" "st_ok h st w1"
    and r: "tx_bind (charter_Reserve player key) (\<lambda>fresh. if \<not> fresh then tx_return None else tx_bind (act st) (\<lambda>action. tx_return (Some action))) w1 = (w', Inr a)"
  then obtain w2 fresh where w2: "charter_Reserve player key w1 = (w2, Inr fresh)" "\<not> fresh \<longrightarrow> w' = w2" "fresh \<longrightarrow> (\<exists>x. act st w2 = (w', Inr x))"
    by (auto simp: tx_bind_Inr split: if_splits)
  have s: "same_rows w1 w2" by (rule statements_same(1) [OF w2(1)])
  have "step_ok h w2 w'" using w2(2,3) act [OF charter_ok_same [OF k(1) s] st_ok_same [OF k(2) s]] by (cases fresh) auto
  then show "step_ok h w1 w'" using step_same [OF s] step_ok_trans by blast
qed

lemma charter_step_ok:
  assumes ids: "ids_unique h" and "charter_step h w w'" "charter_ok h w"
  shows "charter_ok h w'"
  using assms(2,3)
proof (cases rule: charter_step.cases)
  case (step_save h' now player key rq r)
  show ?thesis
    using perform_ok [of h' w now "office_save h' now player key rq" w' r] step_office_save step_save(2) ids assms(3)
    by (simp add: CharterOfficeSave_def same_town_ids [OF step_save(1)] same_town_ok [OF step_save(1)])
next
  case (step_close h' now player key rq r)
  show ?thesis
    using perform_ok [of h' w now "office_close h' now player key rq" w' r] step_office_close step_close(2) ids assms(3)
    by (simp add: CharterOfficeClose_def same_town_ids [OF step_close(1)] same_town_ok [OF step_close(1)])
next
  case (step_appoint h' now player key rq r)
  show ?thesis
    using perform_ok [of h' w now "office_seat h' now player key rq True" w' r] step_office_seat step_appoint(2) ids assms(3)
    by (simp add: CharterAppoint_def charterSeat_def same_town_ids [OF step_appoint(1)] same_town_ok [OF step_appoint(1)])
next
  case (step_dismiss h' now player key rq r)
  show ?thesis
    using perform_ok [of h' w now "office_seat h' now player key rq False" w' r] step_office_seat step_dismiss(2) ids assms(3)
    by (simp add: CharterDismiss_def charterSeat_def same_town_ids [OF step_dismiss(1)] same_town_ok [OF step_dismiss(1)])
next
  case (step_resign h' now player key rq r)
  show ?thesis
    using perform_ok [of h' w now "office_seat h' now player key (rq\<lparr>rq_Player := ''''\<rparr>) False" w' r] step_office_seat step_resign(2) ids assms(3)
    by (simp add: CharterResign_def charterSeat_def same_town_ids [OF step_resign(1)] same_town_ok [OF step_resign(1)])
next
  case (step_election h' now player key ofc r)
  show ?thesis
    using charterAct_ok [of h' w now player key "election_open h' now player ofc" w' r] step_election_open [of h'] step_election(2) ids assms(3)
    by (simp add: CharterElectionOpen_def same_town_ids [OF step_election(1)] same_town_ok [OF step_election(1)])
next
  case (step_stand h' now player key ballot r)
  show ?thesis
    using charterAct_ok [of h' w now player key "\<lambda>_. charter_stand h' now player ballot" w' r] step_charter_stand step_stand(2) ids assms(3)
    by (simp add: CharterStand_def same_town_ids [OF step_stand(1)] same_town_ok [OF step_stand(1)])
next
  case (step_vote h' now player key ballot choice r)
  show ?thesis
    using charterAct_ok [of h' w now player key "\<lambda>_. charter_vote h' now player ballot choice" w' r] step_charter_vote step_vote(2) ids assms(3)
    by (simp add: CharterVote_def same_town_ids [OF step_vote(1)] same_town_ok [OF step_vote(1)])
next
  case (step_recall h' holder_code now player key ofc code r)
  show ?thesis
    using charterAct_ok [of h' w now player key "recall_start h' holder_code now player ofc code" w' r] step_recall_start [of h'] step_recall(2) ids assms(3)
    by (simp add: CharterRecallStart_def same_town_ids [OF step_recall(1)] same_town_ok [OF step_recall(1)])
next
  case (step_sign h' now player key petition r)
  show ?thesis
    using charterAct_ok [of h' w now player key "\<lambda>_. recall_sign h' now player petition" w' r] step_recall_sign step_sign(2) ids assms(3)
    by (simp add: CharterRecallSign_def same_town_ids [OF step_sign(1)] same_town_ok [OF step_sign(1)])
next
  case (step_ballot h' now i u)
  show ?thesis
    using step_CharterBallotClose [of h' w now i w' u] step_ballot(2) assms(3) by (simp add: step_ok_def same_town_ok [OF step_ballot(1)])
next
  case (step_residents rs)
  then show ?thesis using charter_ok_same [OF assms(3), of w'] by (simp add: same_rows_def)
next
  case (step_head p t)
  then show ?thesis using charter_ok_same [OF assms(3), of w'] by (simp add: same_rows_def)
qed

lemma charter_reach_ok:
  assumes "ids_unique h" "charter_reach h w"
  shows "charter_ok h w"
  using assms(2)
proof induction
  case (reach_start w)
  then show ?case by (simp add: charter_ok_def office_ids_def office_rows_ok_def)
next
  case (reach_step w w')
  then show ?case using charter_step_ok [OF assms(1)] by blast
qed


section \<open>Who sits where\<close>

text \<open>A row of \<open>Seats\<close> that has not run out, of an office that is open.\<close>

definition seat_runs :: "go_time \<Rightarrow> seat_row \<Rightarrow> bool" where
  "seat_runs now r \<longleftrightarrow> sr_Until r = None \<and> (time_IsZero (cse_TermEnds r) \<or> cse_TermEnds r < year_2000 \<or> now < cse_TermEnds r)"

definition seated :: "go_time \<Rightarrow> charter_db \<Rightarrow> string \<Rightarrow> string \<Rightarrow> bool" where
  "seated now w i q \<longleftrightarrow> i \<in> open_office_ids w \<and> (\<exists>r\<in>set (cd_Seats w). cse_OfficeID r = i \<and> cse_HolderID r = q \<and> seat_runs now r)"

lemma load_seats:
  "(\<exists>s\<in>set (st_seats (loadCharter h now w) i). cse_HolderID s = q) \<longleftrightarrow> seated now w i q"
proof -
  let ?t = "\<lambda>s. charter_seat.truncate s\<lparr>cse_TermEnds := (if cse_TermEnds s < year_2000 then 0 else cse_TermEnds s)\<rparr>"
  have t: "cse_OfficeID (?t s) = cse_OfficeID s" "cse_HolderID (?t s) = cse_HolderID s"
    "(time_IsZero (cse_TermEnds (?t s)) \<or> now < cse_TermEnds (?t s)) \<longleftrightarrow> (time_IsZero (cse_TermEnds s) \<or> cse_TermEnds s < year_2000 \<or> now < cse_TermEnds s)" for s
    by (auto simp: charter_seat.truncate_def time_IsZero_def)
  have live: "set (Seats w) = ?t ` set (live_seats w)" by (simp add: Seats_def)
  show ?thesis
  proof (cases "Offices w = []")
    case True
    then have "open_office_ids w = {}" using set_Offices [of w] by (simp add: open_office_ids_def)
    then show ?thesis using True by (simp add: seated_def)
  next
    case False
    have "(\<exists>s\<in>set (st_seats (loadCharter h now w) i). cse_HolderID s = q) \<longleftrightarrow>
      (\<exists>s\<in>set (Seats w). (time_IsZero (cse_TermEnds s) \<or> now < cse_TermEnds s) \<and> cse_OfficeID s = i \<and> cse_HolderID s = q)"
      using False by auto
    also have "\<dots> \<longleftrightarrow> (\<exists>s\<in>set (live_seats w). (time_IsZero (cse_TermEnds s) \<or> cse_TermEnds s < year_2000 \<or> now < cse_TermEnds s) \<and> cse_OfficeID s = i \<and> cse_HolderID s = q)"
      unfolding live bex_simps(7) t by (rule refl)
    also have "\<dots> \<longleftrightarrow> seated now w i q" by (auto simp: live_seats_def seated_def seat_runs_def)
    finally show ?thesis .
  qed
qed

lemma load_sits: "sits_in (loadCharter h now w) q ofc \<longleftrightarrow> (if of_Acquisition ofc = AcquireHead then q \<noteq> '''' \<and> cd_Holder w = q else seated now w (of_ID ofc) q)"
  using load_seats [of h now w "of_ID ofc" q] by (simp add: sits_in_def del: loadCharter_simps(4))

lemma load_held: "st_held (loadCharter h now w) ofc \<longleftrightarrow> (if of_Acquisition ofc = AcquireHead then cd_Holder w \<noteq> '''' else (\<exists>q. seated now w (of_ID ofc) q))"
proof -
  have "st_seats (loadCharter h now w) (of_ID ofc) \<noteq> [] \<longleftrightarrow> (\<exists>q. seated now w (of_ID ofc) q)"
    unfolding load_seats [of h, symmetric] by (cases "st_seats (loadCharter h now w) (of_ID ofc)") auto
  then show ?thesis by (simp add: st_held_def del: loadCharter_simps(4))
qed

section \<open>Rows an act leaves alone\<close>

definition same_town_rows :: "charter_db \<Rightarrow> charter_db \<Rightarrow> bool" where
  "same_town_rows w w' \<longleftrightarrow> cd_Offices w' = cd_Offices w \<and> cd_Seats w' = cd_Seats w \<and> cd_Holder w' = cd_Holder w"

lemma same_town_rows_trans [trans]: "same_town_rows a b \<Longrightarrow> same_town_rows b c \<Longrightarrow> same_town_rows a c"
  by (simp add: same_town_rows_def)

lemma same_town_statement:
  "charter_Reserve p k w = (w', Inr b) \<Longrightarrow> same_town_rows w w'"
  "charter_NewID ids w = (w', Inr i) \<Longrightarrow> same_town_rows w w'"
  "charter_schedule ids t w = (w', Inr i) \<Longrightarrow> same_town_rows w w'"
  "charter_Audit a x i t w = (w', Inr u) \<Longrightarrow> same_town_rows w w'"
  "appendVillageEvent x i p w = (w', Inr u) \<Longrightarrow> same_town_rows w w'"
  "OpenBallot bal w = (w', Inr ok) \<Longrightarrow> same_town_rows w w'"
  by (auto simp: same_town_rows_def charter_Reserve_def charter_NewID_def charter_schedule_def charter_Audit_def appendVillageEvent_def OpenBallot_def tx_bind_def
      split: if_splits)

lemma same_town_openAmendment: "openAmendment h now op ofc p w = (w', Inr i) \<Longrightarrow> same_town_rows w w'"
  unfolding openAmendment_def Let_def
  by (auto simp: tx_bind_Inr split: if_splits dest!: same_town_statement(2) [of _ w] same_town_statement(3) same_town_statement(4) same_town_statement(6) intro: same_town_rows_trans)

lemma same_town_seated: "same_town_rows w w' \<Longrightarrow> seated now w' i q = seated now w i q"
  by (simp add: same_town_rows_def seated_def open_office_ids_def)

lemma same_town_offices: "same_town_rows w w' \<Longrightarrow> Offices w' = Offices w"
  by (simp add: same_town_rows_def Offices_def)

section \<open>What a player holds\<close>

text \<open>Through the offices they sit in, acting for nobody.\<close>

definition granted :: "charter_state \<Rightarrow> string \<Rightarrow> held" where
  "granted st q = heldBy (st\<lparr>st_acting := None\<rparr>) q"

lemma granted_le:
  "held_le (granted st q) H \<longleftrightarrow> (\<forall>ofc\<in>set (st_offices st). \<not> of_Closed ofc \<and> sits_in st q ofc \<longrightarrow> (\<forall>g\<in>set (of_Grants ofc). held_grant H g))"
proof -
  have s: "sits_in (st\<lparr>st_acting := None\<rparr>) q = sits_in st q" by (intro ext) (simp add: sits_in_def)
  show ?thesis unfolding granted_def heldBy_def HeldBy_least s by auto
qed

lemma granted_holds: "ofc \<in> set (st_offices st) \<Longrightarrow> \<not> of_Closed ofc \<Longrightarrow> sits_in st q ofc \<Longrightarrow> held_le (HeldBy [of_Grants ofc]) (granted st q)"
  using granted_le [of st q "granted st q"] by (simp add: HeldBy_least)

text \<open>The check on what a change adds is a bound on what the office then holds.\<close>

lemma widened_grant:
  assumes "CanGrant H (widened prev nxt) = None" "g \<in> set nxt"
  shows "held_grant (held_sup (HeldBy [prev]) H) g"
proof (cases "g \<in> set (widened prev nxt)")
  case True
  have "held_grant H g" using assms(1) True unfolding CanGrant_iff HeldBy_least by simp
  then show ?thesis using held_grant_mono held_sup_upper(2) by blast
next
  case False
  then have "held_grant (HeldBy [prev]) g" using assms(2) by (auto simp: widened_def held_grant_def split: option.splits)
  then show ?thesis using held_grant_mono held_sup_upper(1) by blast
qed


text \<open>The charter depends on the offices, the seats and the head only.\<close>

lemma load_cong:
  assumes "cd_Offices w' = cd_Offices w" "cd_Seats w' = cd_Seats w" "cd_Holder w' = cd_Holder w" "cd_HeadSince w' = cd_HeadSince w"
  shows "loadCharter h now w' = loadCharter h now w"
proof -
  have o: "Offices w' = Offices w" "Seats w' = Seats w" using assms by (simp_all add: Offices_def Seats_def live_seats_def open_office_ids_def)
  show ?thesis unfolding loadCharter_def o assms(3,4) by (rule refl)
qed

lemma load_reserve: "charter_Reserve player key w = (w1, Inr fresh) \<Longrightarrow> loadCharter h now w1 = loadCharter h now w"
  by (rule load_cong) (auto simp: charter_Reserve_def split: if_splits)

section \<open>The charter written down is the charter it was\<close>

lemma no_seats_acting:
  assumes "\<And>i. st_seats st i = []"
  shows "chooseActing st cs now = None"
proof -
  have "fst (acting_loop os (\<lambda>_. []) [] d f) = []" for os d f by (induction os arbitrary: d f) auto
  then have "\<exists>d f. acting_loop (st_offices st) (\<lambda>_. []) [] '''' [] = ([], d, f)" by (metis prod.collapse)
  then show ?thesis using assms by (auto simp: chooseActing_def ActingFor_def ActingHead_def pick_seat_def Let_def)
qed

lemma materialise_town:
  assumes ok: "charter_ok h w" and run: "materialise h actor now (loadCharter h now w) w = (w', Inr st')"
  shows "st' = loadCharter h now w'" "cd_Seats w' = cd_Seats w" "cd_Holder w' = cd_Holder w" "granted st' q = granted (loadCharter h now w) q"
proof -
  have "st' = loadCharter h now w' \<and> cd_Seats w' = cd_Seats w \<and> cd_Holder w' = cd_Holder w \<and> granted st' q = granted (loadCharter h now w) q"
  proof (cases "Offices w = []")
    case False
    then show ?thesis using run by (auto simp: materialise_def)
  next
    case True
    then have w: "cd_Offices w = []" using Offices_empty [OF ok] by simp
    then have s: "cd_Seats w = []" using charter_okD(4) [OF ok] by (simp add: office_ids_def)
    define ofc where "ofc = (FoundersOffice '''' (cp_Title h))\<lparr>of_ID := cp_NewID h (cd_NextID w)\<rparr>"
    define w1 where "w1 = w\<lparr>cd_NextID := Suc (cd_NextID w), cd_Offices := [\<lparr>or_Office = ofc, or_CreatedAt = now, or_ClosedAt = None\<rparr>]\<rparr>"
    have o: "ofc\<lparr>of_Closed := False\<rparr> = ofc" "of_ID ofc = cp_NewID h (cd_NextID w)" by (simp_all add: ofc_def FoundersOffice_def)
    have r: "charter_Audit actor ''charter_written'' (of_ID ofc) now w1 = (w', Inr ())" "st' = (loadCharter h now w)\<lparr>st_offices := [ofc], st_stored := True\<rparr>"
      using run True w by (auto simp: materialise_def tx_bind_Inr NewID_run SaveOffice_def upsert_office_def ofc_def [symmetric] o w1_def Let_def split: if_splits)
    have w': "Offices w' = [ofc]" "cd_Seats w' = []" "cd_Holder w' = cd_Holder w" "cd_HeadSince w' = cd_HeadSince w" "Seats w' = []"
      using r(1) s by (auto simp: charter_Audit_def w1_def Offices_def Seats_def live_seats_def)
    have l: "loadCharter h now w' = \<lparr>st_offices = [ofc], st_seats = (\<lambda>_. []), st_stored = True, st_headHeld = cd_Holder w, st_headSince = cd_HeadSince w, st_acting = None\<rparr>"
      "loadCharter h now w = \<lparr>st_offices = [FoundersOffice '''' (cp_Title h)], st_seats = (\<lambda>_. []), st_stored = False, st_headHeld = cd_Holder w,
         st_headSince = cd_HeadSince w, st_acting = None\<rparr>"
      using w' True by (auto simp: loadCharter_def Let_def no_seats_acting)
    have "granted st' q = granted (loadCharter h now w) q"
      unfolding r(2) l by (simp add: granted_def heldBy_def sits_in_def ofc_def FoundersOffice_def)
    then show ?thesis using l r(2) w' s by simp
  qed
  then show "st' = loadCharter h now w'" "cd_Seats w' = cd_Seats w" "cd_Holder w' = cd_Holder w" "granted st' q = granted (loadCharter h now w) q" by auto
qed

section \<open>Nobody gains what the actor did not hold\<close>

lemma load_offices: "charter_ok h w \<Longrightarrow> cd_Offices w \<noteq> [] \<Longrightarrow> set (st_offices (loadCharter h now w)) = or_Office ` set (filter row_open (cd_Offices w))"
  using set_Offices [of w] Offices_empty [of h w] by simp

lemma open_ids: "i \<in> open_office_ids w \<longleftrightarrow> (\<exists>r\<in>set (cd_Offices w). row_open r \<and> of_ID (or_Office r) = i)"
  by (auto simp: open_office_ids_def)

text \<open>A bound on what every office gives is a bound on what a player holds.\<close>

lemma granted_bound:
  assumes "\<And>ofc. ofc \<in> set (st_offices st') \<Longrightarrow> sits_in st' q ofc \<Longrightarrow>
      (\<exists>o0\<in>set (st_offices st). \<not> of_Closed o0 \<and> sits_in st q o0 \<and> (\<forall>g\<in>set (of_Grants ofc). held_grant (held_sup (HeldBy [of_Grants o0]) H) g)) \<or>
      held_le (HeldBy [of_Grants ofc]) H"
  shows "held_le (granted st' q) (held_sup (granted st q) H)"
  unfolding granted_le
proof (intro ballI impI)
  fix ofc g
  assume o: "ofc \<in> set (st_offices st')" "\<not> of_Closed ofc \<and> sits_in st' q ofc" and g: "g \<in> set (of_Grants ofc)"
  from assms [OF o(1) conjunct2 [OF o(2)]] show "held_grant (held_sup (granted st q) H) g"
  proof (elim disjE bexE conjE)
    fix o0
    assume o0: "o0 \<in> set (st_offices st)" "\<not> of_Closed o0" "sits_in st q o0" "\<forall>g\<in>set (of_Grants ofc). held_grant (held_sup (HeldBy [of_Grants o0]) H) g"
    have "held_le (held_sup (HeldBy [of_Grants o0]) H) (held_sup (granted st q) H)"
      unfolding held_sup_least using granted_holds [OF o0(1-3)] held_sup_upper held_le_trans by blast
    then show ?thesis using o0(4) g held_grant_mono by blast
  next
    assume "held_le (HeldBy [of_Grants ofc]) H"
    then have "held_grant H g" using g by (simp add: HeldBy_least)
    then show ?thesis using held_grant_mono held_sup_upper(2) by blast
  qed
qed

lemma unchanged_bound:
  assumes "o0 \<in> set (st_offices st)" "\<not> of_Closed o0" "sits_in st q o0"
  shows "\<exists>o1\<in>set (st_offices st). \<not> of_Closed o1 \<and> sits_in st q o1 \<and> (\<forall>g\<in>set (of_Grants o0). held_grant (held_sup (HeldBy [of_Grants o1]) H) g)"
proof (rule bexI [of _ o0], intro conjI ballI)
  fix g
  assume "g \<in> set (of_Grants o0)"
  then have "held_grant (HeldBy [of_Grants o0]) g" by (intro HeldBy_holds) simp_all
  then show "held_grant (held_sup (HeldBy [of_Grants o0]) H) g" using held_grant_mono held_sup_upper(1) by blast
qed (use assms in simp_all)

lemma office_save_escalation:
  assumes ids: "ids_unique h" and ok: "charter_ok h w" and run: "office_save h now player key rq (loadCharter h now w) w = (w', Inr a)"
  shows "held_le (granted (loadCharter h now w') q) (held_sup (granted (loadCharter h now w) q) (heldBy (loadCharter h now w) player))"
  using run
proof (cases rule: office_save_run)
  case replay
  then show ?thesis using held_sup_upper by simp
next
  case (act w1 st w2 w3 i prev grants title nxt)
  let ?H = "heldBy (loadCharter h now w) player"
  have r1: "same_rows w w1" "same_town_rows w w1" using statements_same(1) [OF act(1)] same_town_statement(1) [OF act(1)] by simp_all
  have ok1: "charter_ok h w1" by (rule charter_ok_same [OF ok r1(1)])
  have l1: "loadCharter h now w1 = loadCharter h now w"
    by (rule load_reserve [OF act(1)])
  note mt = materialise_town [OF ok1 act(2) [folded l1]]
  note m = materialise_ok [OF ids ok1 loadCharter_ok [OF ok1] act(2) [folded l1]]
  have ok2: "charter_ok h w2" using m(1) ok1 by (simp add: step_ok_def)
  have same3: "same_rows w2 w3" "same_town_rows w2 w3" using statements_same(2) [OF act(5)] same_town_statement(2) [OF act(5)] by simp_all
  have l3: "loadCharter h now w3 = st"
    using act(5) unfolding mt(1) by (intro load_cong) (simp_all add: NewID_run)
  have ok3: "charter_ok h w3" by (rule charter_ok_same [OF ok2 same3(1)])
  have st3: "st_ok h st w3" using loadCharter_ok [OF ok3] l3 by metis
  have ne: "cd_Offices w3 \<noteq> []" using st3 m(3) by (simp add: st_ok_def)
  have same: "granted st q = granted (loadCharter h now w) q" using mt(4) l1 by simp
  show ?thesis
    using act(8)
  proof (cases rule: save_rows_run)
    case (vote p j)
    have t: "same_town_rows w3 w'" by (rule same_town_openAmendment [OF vote(2)])
    have "held_le (granted (loadCharter h now w') q) (held_sup (granted st q) ?H)"
    proof (rule granted_bound, rule disjI1)
      fix ofc assume o: "ofc \<in> set (st_offices (loadCharter h now w'))" "sits_in (loadCharter h now w') q ofc"
      have "ofc \<in> set (st_offices st)" using o(1) same_town_offices [OF t] unfolding l3 [symmetric] by (auto split: if_splits)
      moreover have "sits_in st q ofc" using o(2) same_town_seated [OF t] t unfolding l3 [symmetric] load_sits by (simp add: same_town_rows_def split: if_splits)
      moreover have "\<not> of_Closed ofc" using st_ok_office(1) [OF st3 m(3) calculation(1)] charter_okD(7) [OF ok3] by (auto simp: office_wf_def)
      ultimately show "\<exists>o0\<in>set (st_offices st). \<not> of_Closed o0 \<and> sits_in st q o0 \<and> (\<forall>g\<in>set (of_Grants ofc). held_grant (held_sup (HeldBy [of_Grants o0]) ?H) g)"
        by (intro unchanged_bound)
    qed
    then show ?thesis using same by simp
  next
    case (written w4 w5 action)
    have t: "same_town_rows w4 w'" using same_town_statement(4) [OF written(2)] same_town_statement(5) [OF written(3)] by (rule same_town_rows_trans)
    have "nxt\<lparr>of_Closed := False\<rparr> = nxt" using next_office_fields(1) [OF act(6)] by simp
    then have o4: "cd_Offices w' = upsert_office nxt now (cd_Offices w3)" "cd_Seats w' = cd_Seats w3" "cd_Holder w' = cd_Holder w3"
      using written(1) t by (auto simp: SaveOffice_def Let_def same_town_rows_def split: if_splits)
    have ok': "charter_ok h w'" "cd_Offices w' \<noteq> []"
      using step_office_save [OF ids ok loadCharter_ok [OF ok] run] ok o4(1) ne by (simp_all add: step_ok_def upsert_office_def)
    have seats: "seated now w3 i q" if "seated now w' i q" "i \<in> open_office_ids w3" for i
      using that o4(2) by (simp add: seated_def)
    have prev: "p \<in> set (st_offices st) \<and> \<not> of_Closed p" if "prev = Some p" for p
      using prev_row(1,3) [OF ok3 st3 m(3) act(3) [symmetric, THEN trans, OF that]] by (simp add: office_wf_def)
    have stays: "sits_in st q p" if "p \<in> set (st_offices st)" "sits_in (loadCharter h now w') q ofc" "of_ID p = of_ID ofc"
      "of_Acquisition p = AcquireHead \<longleftrightarrow> of_Acquisition ofc = AcquireHead" for p ofc
    proof -
      have "of_ID p \<in> open_office_ids w3" using st_ok_office(1) [OF st3 m(3) that(1)] by (auto simp: open_ids)
      then show ?thesis using that(2-4) seats o4(3) unfolding l3 [symmetric] load_sits by (auto split: if_splits)
    qed
    have "held_le (granted (loadCharter h now w') q) (held_sup (granted st q) ?H)"
    proof (rule granted_bound, rule disjI1)
      fix ofc assume o: "ofc \<in> set (st_offices (loadCharter h now w'))" "sits_in (loadCharter h now w') q ofc"
      then obtain r where r: "r \<in> set (cd_Offices w')" "row_open r" "or_Office r = ofc" unfolding load_offices [OF ok'] by auto
      show "\<exists>o0\<in>set (st_offices st). \<not> of_Closed o0 \<and> sits_in st q o0 \<and> (\<forall>g\<in>set (of_Grants ofc). held_grant (held_sup (HeldBy [of_Grants o0]) ?H) g)"
      proof (cases "ofc = nxt")
        case True
        have rails: "CanGrant ?H (widened (case prev of Some p \<Rightarrow> of_Grants p | None \<Rightarrow> []) (of_Grants nxt)) = None"
          using act(7) by (auto simp: save_rails_def rail_def Let_def tx_bind_Inr)
        show ?thesis
        proof (cases prev)
          case None
          then have "of_Acquisition nxt \<noteq> AcquireHead" "of_ID nxt = i" using next_office_fields(2,3) [OF act(6)] by auto
          then have "i \<in> cse_OfficeID ` set (cd_Seats w3)" using o(2) True o4(2) unfolding load_sits seated_def by (auto intro: rev_image_eqI)
          then have "i \<in> office_ids w2" using charter_okD(4) [OF ok2] same3(2) by (auto simp: same_town_rows_def)
          then show ?thesis using charter_okD(1) [OF ok2] act(5) by (auto simp: NewID_run)
        next
          case (Some p)
          have id: "of_ID p = of_ID nxt" "of_Acquisition p = AcquireHead \<longleftrightarrow> of_Acquisition nxt = AcquireHead"
            using next_office_fields(2,3) [OF act(6)] Some by auto
          have "sits_in st q p" using stays [OF _ _ id] prev [OF Some] o(2) True by blast
          then show ?thesis using prev [OF Some] widened_grant [OF rails] Some unfolding True by auto
        qed
      next
        case False
        then obtain r' where r': "r' \<in> set (cd_Offices w3)" "row_open r'" "or_Office r' = ofc"
          using r unfolding o4(1) by (auto simp: upsert_office_def split: if_splits)
        then have x: "ofc \<in> set (st_offices st)" using load_offices [OF ok3 ne, of now] l3 by auto
        show ?thesis
          by (rule unchanged_bound [OF x]) (use charter_okD(7) [OF ok3 r'(1)] r'(3) stays [OF x o(2)] in \<open>auto simp: office_wf_def\<close>)
      qed
    qed
    then show ?thesis using same by simp
  qed
qed


text \<open>Fewer offices, fewer seats: nobody gains.\<close>

lemma seated_shrinks:
  assumes "seated now w' i q" "i \<in> open_office_ids w"
    and "\<And>r. r \<in> set (cd_Seats w') \<Longrightarrow> seat_runs now r \<Longrightarrow> \<exists>r0\<in>set (cd_Seats w). cse_OfficeID r0 = cse_OfficeID r \<and> cse_HolderID r0 = cse_HolderID r \<and> seat_runs now r0"
  shows "seated now w i q"
proof -
  obtain r where r: "r \<in> set (cd_Seats w')" "cse_OfficeID r = i" "cse_HolderID r = q" "seat_runs now r" using assms(1) by (auto simp: seated_def)
  then obtain r0 where "r0 \<in> set (cd_Seats w)" "cse_OfficeID r0 = i" "cse_HolderID r0 = q" "seat_runs now r0" using assms(3) by metis
  then show ?thesis using assms(2) unfolding seated_def by blast
qed

lemma granted_shrinks:
  assumes ok: "charter_ok h w" "charter_ok h w'" and ne: "cd_Offices w \<noteq> []" "cd_Offices w' \<noteq> []"
    and rows: "or_Office ` set (filter row_open (cd_Offices w')) \<subseteq> or_Office ` set (filter row_open (cd_Offices w))" and head: "cd_Holder w' = cd_Holder w"
    and seats: "\<And>r. r \<in> set (cd_Seats w') \<Longrightarrow> seat_runs now r \<Longrightarrow> \<exists>r0\<in>set (cd_Seats w). cse_OfficeID r0 = cse_OfficeID r \<and> cse_HolderID r0 = cse_HolderID r \<and> seat_runs now r0"
  shows "held_le (granted (loadCharter h now w') q) (granted (loadCharter h now w) q)"
  unfolding granted_le
proof (intro ballI impI)
  fix ofc g
  assume o: "ofc \<in> set (st_offices (loadCharter h now w'))" "\<not> of_Closed ofc \<and> sits_in (loadCharter h now w') q ofc" and g: "g \<in> set (of_Grants ofc)"
  have m: "ofc \<in> set (st_offices (loadCharter h now w))" using o(1) rows unfolding load_offices [OF ok(1) ne(1)] load_offices [OF ok(2) ne(2)] by blast
  then have "of_ID ofc \<in> open_office_ids w" unfolding load_offices [OF ok(1) ne(1)] by (auto simp: open_ids)
  then have "sits_in (loadCharter h now w) q ofc"
    using o(2) head seated_shrinks [OF _ _ seats, where i = "of_ID ofc" and q = q] unfolding load_sits by (auto split: if_splits)
  from granted_holds [OF m _ this] o(2) show "held_grant (granted (loadCharter h now w) q) g" using g by (simp add: HeldBy_least)
qed

lemma seats_end:
  assumes "r \<in> set (map (\<lambda>r. if P r then end_row at reason r else r) rows)" "seat_runs now r"
  shows "r \<in> set rows \<and> \<not> P r"
proof -
  obtain r0 where r0: "r0 \<in> set rows" "r = (if P r0 then end_row at reason r0 else r0)" using assms(1) by auto
  then show ?thesis using assms(2) by (cases "P r0") (simp_all add: seat_runs_def end_row_def)
qed

lemma seats_EndSeatsOf:
  assumes "EndSeatsOf i reason at w = (w', Inr u)"
  shows "cd_Offices w' = cd_Offices w \<and> cd_Holder w' = cd_Holder w \<and>
    (\<forall>r. r \<in> set (cd_Seats w') \<and> seat_runs now r \<longrightarrow> r \<in> set (cd_Seats w) \<and> \<not> (cse_OfficeID r = i \<and> sr_Until r = None))"
proof -
  have w': "w' = w\<lparr>cd_Seats := map (\<lambda>r. if cse_OfficeID r = i \<and> sr_Until r = None then end_row at reason r else r) (cd_Seats w)\<rparr>"
    using assms by (simp add: EndSeatsOf_def)
  show ?thesis unfolding w' using seats_end [where P = "\<lambda>r. cse_OfficeID r = i \<and> sr_Until r = None"] by (simp del: set_map) blast
qed

lemma seats_EndSeat:
  assumes "EndSeat i p reason at w = (w', Inr b)"
  shows "cd_Offices w' = cd_Offices w \<and> cd_Holder w' = cd_Holder w \<and>
    (\<forall>r. r \<in> set (cd_Seats w') \<and> seat_runs now r \<longrightarrow> r \<in> set (cd_Seats w) \<and> \<not> (cse_OfficeID r = i \<and> cse_HolderID r = p \<and> sr_Until r = None))"
proof -
  have w': "w' = w\<lparr>cd_Seats := map (\<lambda>r. if cse_OfficeID r = i \<and> cse_HolderID r = p \<and> sr_Until r = None then end_row at reason r else r) (cd_Seats w)\<rparr>"
    using assms by (simp add: EndSeat_def Let_def)
  show ?thesis unfolding w' using seats_end [where P = "\<lambda>r. cse_OfficeID r = i \<and> cse_HolderID r = p \<and> sr_Until r = None"] by (simp del: set_map) blast
qed

lemma stored_ne: "charter_ok h w \<Longrightarrow> ofc \<in> set (st_offices (loadCharter h now w)) \<Longrightarrow> of_ID ofc \<noteq> '''' \<Longrightarrow> cd_Offices w \<noteq> []"
  using st_ok_stored [OF loadCharter_ok] Offices_empty by fastforce

lemma office_close_escalation:
  assumes ok: "charter_ok h w" and run: "office_close h now player key rq (loadCharter h now w) w = (w', Inr a)"
  shows "held_le (granted (loadCharter h now w') q) (granted (loadCharter h now w) q)"
  using run
proof (cases rule: office_close_run)
  case (act w1 target)
  have ok1: "charter_ok h w1" by (rule charter_ok_same [OF ok statements_same(1) [OF act(1)]])
  note l1 = load_reserve [OF act(1), of h now]
  have ne: "cd_Offices w1 \<noteq> []" by (rule stored_ne [OF ok1 act(2) [folded l1] act(3)])
  have s: "step_ok h w w'" by (rule step_office_close [OF ok loadCharter_ok [OF ok] run])
  then have ok': "charter_ok h w'" using ok by (simp add: step_ok_def)
  have "map or_Office (cd_Offices w') = map or_Office (cd_Offices w1) \<and> or_Office ` set (filter row_open (cd_Offices w')) \<subseteq> or_Office ` set (filter row_open (cd_Offices w1)) \<and>
    cd_Holder w' = cd_Holder w1 \<and> (\<forall>r. r \<in> set (cd_Seats w') \<and> seat_runs now r \<longrightarrow> r \<in> set (cd_Seats w1))"
    using act(6)
  proof (elim disjE exE conjE)
    fix w2 w3 w4
    assume c: "EndSeatsOf (of_ID target) ''office_closed'' now w1 = (w2, Inr ())" "CloseOffice (of_ID target) now w2 = (w3, Inr ())"
      "charter_Audit player ''office_closed'' (of_ID target) now w3 = (w4, Inr ())" "appendVillageEvent ''office_closed'' (of_ID target) player w4 = (w', Inr ())"
    have t: "same_town_rows w3 w'" by (rule same_town_rows_trans [OF same_town_statement(4) [OF c(3)] same_town_statement(5) [OF c(4)]])
    have "or_Office ` set (filter row_open (cd_Offices w3)) \<subseteq> or_Office ` set (filter row_open (cd_Offices w2))"
      using c(2) by (auto simp: CloseOffice_def split: if_splits)
    moreover have "map or_Office (cd_Offices w3) = map or_Office (cd_Offices w2)" "cd_Seats w3 = cd_Seats w2" "cd_Holder w3 = cd_Holder w2"
      using c(2) by (auto simp: CloseOffice_def)
    ultimately show ?thesis using t seats_EndSeatsOf [OF c(1), of now] by (simp add: same_town_rows_def)
  next
    fix i
    assume "openAmendment h now ''close'' target player w1 = (w', Inr i)"
    from same_town_openAmendment [OF this] show ?thesis by (simp add: same_town_rows_def)
  qed
  moreover from this have "cd_Offices w' \<noteq> []" using ne by (metis map_is_Nil_conv)
  ultimately have "held_le (granted (loadCharter h now w') q) (granted (loadCharter h now w1) q)"
    by (intro granted_shrinks [OF ok1 ok' ne]) blast+
  then show ?thesis unfolding l1 .
qed simp

lemma office_seat_escalation:
  assumes ok: "charter_ok h w" and run: "office_seat h now player key rq appoint (loadCharter h now w) w = (w', Inr a)"
  shows "held_le (granted (loadCharter h now w') q) (held_sup (granted (loadCharter h now w) q) (heldBy (loadCharter h now w) player))"
  using run
proof (cases rule: office_seat_run)
  case replay
  then show ?thesis using held_sup_upper by simp
next
  case (act w1 w2 w3 target whom action)
  let ?H = "heldBy (loadCharter h now w) player"
  have ok1: "charter_ok h w1" by (rule charter_ok_same [OF ok statements_same(1) [OF act(1)]])
  note l1 = load_reserve [OF act(1), of h now]
  have ne: "cd_Offices w1 \<noteq> []" by (rule stored_ne [OF ok1 act(2) [folded l1] act(3)])
  have ok': "charter_ok h w'" using step_office_seat [OF ok loadCharter_ok [OF ok] run] ok by (simp add: step_ok_def)
  have t: "same_town_rows w2 w'" by (rule same_town_rows_trans [OF same_town_statement(4) [OF act(5)] same_town_statement(5) [OF act(6)]])
  show ?thesis
  proof (cases appoint)
    case False
    then obtain reason b where e: "EndSeat (of_ID target) whom reason now w1 = (w2, Inr b)" using act(4) by (auto elim: seat_end_run)
    have "held_le (granted (loadCharter h now w') q) (granted (loadCharter h now w1) q)"
      by (rule granted_shrinks [OF ok1 ok' ne]) (use seats_EndSeat [OF e, of now] t ne in \<open>auto simp: same_town_rows_def\<close>)
    then show ?thesis unfolding l1 using held_sup_upper(1) held_le_trans by blast
  next
    case True
    with act(4) have "seat_fill h now player (loadCharter h now w) target whom w1 = (w2, Inr action)" by simp
    then show ?thesis
    proof (cases rule: seat_fill_run)
      case (1 w4 i)
      let ?s = "\<lparr>cse_ID = i, cse_OfficeID = of_ID target, cse_HolderID = whom, cse_AppointedBy = player, cse_Since = now, cse_TermEnds = 0\<rparr>"
      have r: "cd_Offices w' = cd_Offices w1" "cd_Holder w' = cd_Holder w1" "cd_Seats w' = cd_Seats w1 @ [charter_seat.extend ?s \<lparr>sr_Until = None, sr_EndReason = ''''\<rparr>]"
        using 1(2,4) t by (auto simp: NewID_run Seat_def same_town_rows_def split: if_splits)
      have ids: "open_office_ids w' = open_office_ids w1" using r(1) by (simp add: open_office_ids_def)
      have "held_le (granted (loadCharter h now w') q) (held_sup (granted (loadCharter h now w1) q) ?H)"
      proof (rule granted_bound)
        fix ofc assume o: "ofc \<in> set (st_offices (loadCharter h now w'))" "sits_in (loadCharter h now w') q ofc"
        have m: "ofc \<in> set (st_offices (loadCharter h now w1))" using o(1) load_offices [OF ok1 ne] load_offices [OF ok'] r(1) ne by simp
        have c: "\<not> of_Closed ofc" using m charter_okD(7) [OF ok1] unfolding load_offices [OF ok1 ne] by (auto simp: office_wf_def)
        show "(\<exists>o0\<in>set (st_offices (loadCharter h now w1)). \<not> of_Closed o0 \<and> sits_in (loadCharter h now w1) q o0 \<and>
            (\<forall>g\<in>set (of_Grants ofc). held_grant (held_sup (HeldBy [of_Grants o0]) ?H) g)) \<or> held_le (HeldBy [of_Grants ofc]) ?H"
        proof (cases "sits_in (loadCharter h now w1) q ofc")
          case True
          from unchanged_bound [OF m c True] show ?thesis by blast
        next
          case False
          then have "of_ID ofc = of_ID target"
            using o(2) r ids unfolding load_sits by (auto simp: seated_def charter_seat.extend_def split: if_splits)
          moreover have "target \<in> set (st_offices (loadCharter h now w1))" using act(2) l1 by simp
          ultimately have "ofc = target" using m row_of_id [OF ok1] unfolding load_offices [OF ok1 ne] by fastforce
          then show ?thesis using 1(1) unfolding CanGrant_iff by simp
        qed
      qed
      then show ?thesis unfolding l1 .
    qed
  qed
qed


section \<open>An office manager remains\<close>

definition has_manager :: "charter_state \<Rightarrow> bool" where
  "has_manager st \<longleftrightarrow> ManagerGuard (office_states st (st_offices st)) = None"

lemma guard_iff: "ManagerGuard os = None \<longleftrightarrow> (\<exists>(ofc, held)\<in>set os. \<not> of_Closed ofc \<and> held \<and> IsManager (of_Grants ofc))"
  by (simp add: ManagerGuard_def)

lemma has_managerI: "ofc \<in> set (st_offices st) \<Longrightarrow> \<not> of_Closed ofc \<Longrightarrow> st_held st ofc \<Longrightarrow> IsManager (of_Grants ofc) \<Longrightarrow> has_manager st"
  by (auto simp: has_manager_def guard_iff office_states_def)

lemma seated_grows:
  assumes "seated now w i q" "i \<in> open_office_ids w'"
    and "\<And>r. r \<in> set (cd_Seats w) \<Longrightarrow> cse_OfficeID r = i \<Longrightarrow> cse_HolderID r = q \<Longrightarrow> seat_runs now r \<Longrightarrow> r \<in> set (cd_Seats w')"
  shows "seated now w' i q"
  using assms unfolding seated_def by blast

lemma load_member: "charter_ok h w \<Longrightarrow> r \<in> set (cd_Offices w) \<Longrightarrow> row_open r \<Longrightarrow> or_Office r \<in> set (st_offices (loadCharter h now w))"
proof -
  assume a: "charter_ok h w" "r \<in> set (cd_Offices w)" "row_open r"
  then have "cd_Offices w \<noteq> []" by auto
  from load_offices [OF a(1) this] a(2,3) show ?thesis by auto
qed

lemma load_closed: "charter_ok h w \<Longrightarrow> cd_Offices w \<noteq> [] \<Longrightarrow> ofc \<in> set (st_offices (loadCharter h now w)) \<Longrightarrow> \<not> of_Closed ofc"
  unfolding load_offices using charter_okD(7) by (auto simp: office_wf_def)

lemma office_save_manager:
  assumes ids: "ids_unique h" and ok: "charter_ok h w" and run: "office_save h now player key rq (loadCharter h now w) w = (w', Inr (Some x))"
    and x: "x \<noteq> ''amendment_proposed''"
  shows "has_manager (loadCharter h now w')"
  using run
proof (cases rule: office_save_run)
  case (act w1 st w2 w3 i prev grants title nxt)
  have ok1: "charter_ok h w1" by (rule charter_ok_same [OF ok statements_same(1) [OF act(1)]])
  note l1 = load_reserve [OF act(1), of h now]
  note mt = materialise_town [OF ok1 act(2) [folded l1]]
  note m = materialise_ok [OF ids ok1 loadCharter_ok [OF ok1] act(2) [folded l1]]
  have ok2: "charter_ok h w2" using m(1) ok1 by (simp add: step_ok_def)
  have ok3: "charter_ok h w3" by (rule charter_ok_same [OF ok2 statements_same(2) [OF act(5)]])
  have l3: "loadCharter h now w3 = st" using act(5) unfolding mt(1) by (intro load_cong) (simp_all add: NewID_run)
  have st3: "st_ok h st w3" using loadCharter_ok [OF ok3] l3 by metis
  have ne: "cd_Offices w3 \<noteq> []" using st3 m(3) by (simp add: st_ok_def)
  note f = next_office_fields [OF act(6)]
  show ?thesis
    using act(8)
  proof (cases rule: save_rows_run)
    case (vote p j)
    with x show ?thesis by simp
  next
    case (written w4 w5 action)
    have t: "same_town_rows w4 w'" using same_town_statement(4) [OF written(2)] same_town_statement(5) [OF written(3)] by (rule same_town_rows_trans)
    have "nxt\<lparr>of_Closed := False\<rparr> = nxt" using f(1) by simp
    then have o4: "cd_Offices w' = upsert_office nxt now (cd_Offices w3)" "cd_Seats w' = cd_Seats w3" "cd_Holder w' = cd_Holder w3"
      using written(1) t by (auto simp: SaveOffice_def Let_def same_town_rows_def split: if_splits)
    have ok': "charter_ok h w'" using step_office_save [OF ids ok loadCharter_ok [OF ok] run] ok by (simp add: step_ok_def)
    have "ManagerGuard (case prev of Some _ \<Rightarrow> office_states st (replace_in nxt (st_offices st)) | None \<Rightarrow> office_states st (st_offices st) @ [(nxt, False)]) = None"
      using act(7) by (auto simp: save_rails_def rail_def Let_def tx_bind_Inr)
    then obtain ofc where o: "ofc \<in> set (case prev of Some _ \<Rightarrow> replace_in nxt (st_offices st) | None \<Rightarrow> st_offices st)" "st_held st ofc" "IsManager (of_Grants ofc)"
      by (auto simp: guard_iff office_states_def split: option.splits)
    have m': "\<exists>r\<in>set (cd_Offices w'). row_open r \<and> or_Office r = ofc"
    proof -
      obtain o0 where o0: "o0 \<in> set (st_offices st)" "ofc = (if prev \<noteq> None \<and> of_ID o0 = of_ID nxt then nxt else o0)"
        using o(1) by (auto simp: replace_in_def split: option.splits)
      obtain r where r: "r \<in> set (cd_Offices w3)" "row_open r" "or_Office r = o0" using st_ok_office(1) [OF st3 m(3) o0(1)] by blast
      show ?thesis
      proof (cases prev)
        case None
        then have "of_ID nxt = i" using f(2) by simp
        moreover have "i \<notin> office_ids w2" using charter_okD(1) [OF ok2] act(5) by (auto simp: NewID_run)
        moreover have "office_ids w2 = office_ids w3" using keeps_ids(1) [OF keeps_statement(2) [OF act(5)]] by simp
        ultimately have "r \<in> set (cd_Offices w')" using r(1) unfolding o4(1) by (auto simp: upsert_office_def office_ids_def)
        then show ?thesis using r o0(2) None by auto
      next
        case (Some p)
        show ?thesis
        proof (cases "of_ID o0 = of_ID nxt")
          case True
          then have "r\<lparr>or_Office := nxt\<rparr> \<in> set (cd_Offices w')" using r unfolding o4(1) by (auto simp: upsert_office_def image_iff)
          then show ?thesis using r(2) o0(2) Some True by (intro bexI [of _ "r\<lparr>or_Office := nxt\<rparr>"]) simp_all
        next
          case False
          then have "r \<in> set (cd_Offices w')" using r unfolding o4(1) by (force simp: upsert_office_def image_iff)
          then show ?thesis using r o0(2) False by auto
        qed
      qed
    qed
    then have i: "of_ID ofc \<in> open_office_ids w'" by (auto simp: open_ids)
    have "st_held (loadCharter h now w') ofc"
      using o(2) seated_grows [OF _ i, of now w3] o4(2,3) unfolding l3 [symmetric] load_held by (auto split: if_splits)
    moreover have "ofc \<in> set (st_offices (loadCharter h now w'))" using m' load_member [OF ok'] by blast
    moreover have "\<not> of_Closed ofc" using m' charter_okD(7) [OF ok'] by (auto simp: office_wf_def)
    ultimately show ?thesis using o(3) by (intro has_managerI)
  qed
qed simp

lemma office_close_manager:
  assumes ok: "charter_ok h w" and run: "office_close h now player key rq (loadCharter h now w) w = (w', Inr (Some ''office_closed''))"
  shows "has_manager (loadCharter h now w')"
  using run
proof (cases rule: office_close_run)
  case (act w1 target)
  have ok1: "charter_ok h w1" by (rule charter_ok_same [OF ok statements_same(1) [OF act(1)]])
  note l1 = load_reserve [OF act(1), of h now]
  have ne: "cd_Offices w1 \<noteq> []" by (rule stored_ne [OF ok1 act(2) [folded l1] act(3)])
  have ok': "charter_ok h w'" using step_office_close [OF ok loadCharter_ok [OF ok] run] ok by (simp add: step_ok_def)
  obtain w2 w3 w4 where c: "EndSeatsOf (of_ID target) ''office_closed'' now w1 = (w2, Inr ())" "CloseOffice (of_ID target) now w2 = (w3, Inr ())"
      "charter_Audit player ''office_closed'' (of_ID target) now w3 = (w4, Inr ())" "appendVillageEvent ''office_closed'' (of_ID target) player w4 = (w', Inr ())"
    using act(6) by auto
  have t: "same_town_rows w3 w'" by (rule same_town_rows_trans [OF same_town_statement(4) [OF c(3)] same_town_statement(5) [OF c(4)]])
  obtain ofc where o: "ofc \<in> set (st_offices (loadCharter h now w1))" "of_ID ofc \<noteq> of_ID target" "st_held (loadCharter h now w1) ofc" "IsManager (of_Grants ofc)"
    using act(5) unfolding l1 guard_iff office_states_def close_in_def by (auto split: if_splits)
  obtain r where r: "r \<in> set (cd_Offices w1)" "row_open r" "or_Office r = ofc" using o(1) unfolding load_offices [OF ok1 ne] by auto
  have "r \<in> set (cd_Offices w')"
    using r o(2) t c(1,2) by (force simp: CloseOffice_def EndSeatsOf_def same_town_rows_def image_iff)
  moreover from this have i: "of_ID ofc \<in> open_office_ids w'" using r(2,3) by (auto simp: open_ids)
  have kept: "s \<in> set (cd_Seats w')" if "s \<in> set (cd_Seats w1)" "cse_OfficeID s = of_ID ofc" for s
  proof -
    have "s \<in> set (cd_Seats w2)" using c(1) that o(2) by (force simp: EndSeatsOf_def image_iff)
    then show ?thesis using c(2) t by (auto simp: CloseOffice_def same_town_rows_def)
  qed
  have "cd_Holder w' = cd_Holder w1" using c(1,2) t by (auto simp: CloseOffice_def EndSeatsOf_def same_town_rows_def)
  then have "st_held (loadCharter h now w') ofc"
    using o(3) seated_grows [OF _ i, of now w1] kept unfolding load_held by (auto split: if_splits)
  then show ?thesis using load_member [OF ok' calculation r(2)] r(3) load_closed [OF ok1 ne o(1)] o(4) by (intro has_managerI) auto
qed simp

lemma office_seat_manager:
  assumes ok: "charter_ok h w" and run: "office_seat h now player key rq False (loadCharter h now w) w = (w', Inr (Some x))"
  shows "has_manager (loadCharter h now w')"
  using run
proof (cases rule: office_seat_run)
  case (act w1 w2 w3 target whom action)
  have ok1: "charter_ok h w1" by (rule charter_ok_same [OF ok statements_same(1) [OF act(1)]])
  note l1 = load_reserve [OF act(1), of h now]
  have ne: "cd_Offices w1 \<noteq> []" by (rule stored_ne [OF ok1 act(2) [folded l1] act(3)])
  have ok': "charter_ok h w'" using step_office_seat [OF ok loadCharter_ok [OF ok] run] ok by (simp add: step_ok_def)
  have t: "same_town_rows w2 w'" by (rule same_town_rows_trans [OF same_town_statement(4) [OF act(5)] same_town_statement(5) [OF act(6)]])
  obtain reason b where e: "EndSeat (of_ID target) whom reason now w1 = (w2, Inr b)" "of_Acquisition target \<noteq> AcquireHead"
    "ManagerGuard (states_without (loadCharter h now w1) (of_ID target) whom) = None"
    using act(4) unfolding l1 by (auto elim: seat_end_run)
  obtain ofc where o: "ofc \<in> set (st_offices (loadCharter h now w1))" "IsManager (of_Grants ofc)"
    "if of_ID ofc = of_ID target then \<exists>s\<in>set (st_seats (loadCharter h now w1) (of_ID target)). cse_HolderID s \<noteq> whom else st_held (loadCharter h now w1) ofc"
    using e(3) unfolding guard_iff states_without_def by (simp del: loadCharter_simps add: bex_simps image_iff split_def) (blast intro: that)
  have r: "cd_Offices w' = cd_Offices w1" "cd_Holder w' = cd_Holder w1" using e(1) t by (auto simp: EndSeat_def Let_def same_town_rows_def)
  have kept: "s \<in> set (cd_Seats w')" if "s \<in> set (cd_Seats w1)" "cse_OfficeID s \<noteq> of_ID target \<or> cse_HolderID s \<noteq> whom" for s
    using e(1) t that by (force simp: EndSeat_def Let_def same_town_rows_def image_iff)
  have ids: "open_office_ids w' = open_office_ids w1" using r(1) by (simp add: open_office_ids_def)
  have m: "ofc \<in> set (st_offices (loadCharter h now w'))"
    using o(1) load_offices [OF ok', of now] unfolding load_offices [OF ok1 ne] r(1) using ne by simp
  have "st_held (loadCharter h now w') ofc"
  proof (cases "of_ID ofc = of_ID target")
    case True
    have "target \<in> set (st_offices (loadCharter h now w1))" using act(2) l1 by simp
    then have eq: "ofc = target" using True o(1) row_of_id [OF ok1] unfolding load_offices [OF ok1 ne] by fastforce
    obtain q where q: "seated now w1 (of_ID target) q" "q \<noteq> whom" using o(3) True load_seats [of h now w1 "of_ID target"] by auto
    then have "seated now w' (of_ID target) q" using kept ids unfolding seated_def by blast
    then show ?thesis using e(2) unfolding load_held eq by auto
  next
    case False
    have "seated now w' (of_ID ofc) q" if "seated now w1 (of_ID ofc) q" for q
    proof -
      obtain r where "r \<in> set (cd_Seats w1)" "cse_OfficeID r = of_ID ofc" "cse_HolderID r = q" "seat_runs now r" "of_ID ofc \<in> open_office_ids w1"
        using \<open>seated now w1 (of_ID ofc) q\<close> by (auto simp: seated_def)
      then show ?thesis using kept [of r] False ids by (auto simp: seated_def)
    qed
    then show ?thesis using False o(3) r(2) unfolding load_held by (auto split: if_splits)
  qed
  then show ?thesis using m o(2) load_closed [OF ok1 ne o(1)] by (intro has_managerI)
qed simp


section \<open>The rails of a charter\<close>

text \<open>A town of two, its head in office, an unwritten charter; the head's first act.\<close>

definition demo_town :: charter_ports where
  "demo_town = \<lparr>cp_Limits = charterDefaults, cp_Settings = charter_Defaults, cp_Lower = id, cp_DBLower = id, cp_NewID = (\<lambda>n. replicate (Suc n) CHR ''x''),
     cp_Inquisitorial = False, cp_Banned = (\<lambda>_. False), cp_Barred = (\<lambda>_. False), cp_Title = [104, 101, 97, 100]\<rparr>"

definition demo_start :: charter_db where
  "demo_start = \<lparr>cd_Offices = [], cd_Seats = [], cd_Ballots = [], cd_Candidates = [], cd_Votes = [], cd_Petitions = [], cd_Signatures = [], cd_Audit = [],
     cd_Residents = [\<lparr>re_ID = ''ann'', re_Code = ''A'', re_Since = 0\<rparr>, \<lparr>re_ID = ''bob'', re_Code = ''B'', re_Since = 0\<rparr>],
     cd_Holder = ''ann'', cd_HeadSince = 0, cd_Keys = [], cd_Actions = [], cd_Events = [], cd_NextID = 0\<rparr>"

definition demo_request :: charter_request where
  "demo_request = \<lparr>rq_Office = '''', rq_Title = [103, 117, 97, 114, 100], rq_Seats = 2, rq_Grants = [(PolicePatrol, 0)], rq_Acquisition = None, rq_TermDays = 0,
     rq_Deputy = None, rq_Player = ''''\<rparr>"

lemma demo_ids: "ids_unique demo_town"
proof -
  have d: "dropWhile (\<lambda>c. of_char c = (32 :: nat) \<or> 9 \<le> (of_char c :: nat) \<and> (of_char c :: nat) \<le> 13) (replicate n CHR ''x'') = replicate n CHR ''x''" for n
    by (cases n) simp_all
  have "inj (\<lambda>n. replicate (Suc n) CHR ''x'')" by (rule injI) (metis length_replicate nat.inject)
  moreover have "replicate (Suc n) CHR ''x'' \<noteq> ''founder''" for n by simp
  ultimately show ?thesis unfolding ids_unique_def by (simp add: demo_town_def trim_id_def d rev_replicate del: replicate_Suc)
qed

lemma demo_reach: "charter_reach demo_town demo_start"
  by (rule reach_start) (simp_all add: demo_start_def)

lemma demo_tick: "charterTick demo_town 1000 demo_start = (demo_start, Inr (loadCharter demo_town 1000 demo_start))"
proof -
  have e: "OpenBallots demo_start = []" "ExpiredSeats demo_start 1000 = []" "Offices demo_start = []"
    by (simp_all add: OpenBallots_def ExpiredSeats_def live_seats_def Offices_def demo_start_def)
  have "seatsHeld (loadCharter demo_town 1000 demo_start) (FoundersOffice '''' t) \<ge> of_Seats (FoundersOffice '''' t)" for t
    by (simp add: seatsHeld_def FoundersOffice_def demo_start_def)
  then have "owed_elections demo_town 1000 b [FoundersOffice '''' (cp_Title demo_town)] (loadCharter demo_town 1000 demo_start) False demo_start =
      (demo_start, Inr (loadCharter demo_town 1000 demo_start, False))" for b
    by (simp add: FoundersOffice_def)
  then show ?thesis using e by (simp add: charterTick_def Let_def tx_bind_run(1))
qed

lemma demo_save: "snd (office_save demo_town 1000 ''ann'' ''k'' demo_request (loadCharter demo_town 1000 demo_start) demo_start) = Inr (Some ''office_created'')"
  by code_simp


text \<open>
  C8. The rails of a settlement's charter. Whatever residents, officers, the scheduler and the settlement's head do, in
  any order, every office that was ever written has its seats, powers and way of filling within the rails: known
  permissions only a settlement may hold, each once, no more seats and powers than the caps, powers that must stay apart
  apart. As soon as anything is written the founder's office is open with every power; at most one office is the head's, at
  most one the deputy, no two open offices share a title, and every seat belongs to an office.
\<close>

theorem charter_rails:
  assumes "ids_unique h" "charter_reach h w"
  shows "(\<forall>r\<in>set (cd_Offices w). office_wf h (or_Office r)) \<and> office_rows_ok (cp_DBLower h) (cd_Offices w) \<and>
    (cd_Offices w \<noteq> [] \<longrightarrow> (\<exists>r\<in>set (cd_Offices w). row_open r \<and> of_Acquisition (or_Office r) = AcquireHead \<and> of_Grants (or_Office r) = AllPermissions)) \<and>
    (\<forall>s\<in>set (cd_Seats w). cse_OfficeID s \<in> office_ids w)"
proof -
  have ok: "charter_ok h w" by (rule charter_reach_ok [OF assms])
  have "\<exists>r\<in>set (cd_Offices w). row_open r \<and> of_Acquisition (or_Office r) = AcquireHead \<and> of_Grants (or_Office r) = AllPermissions"
    if "cd_Offices w \<noteq> []"
    using charter_okD(10) [OF ok that] charter_okD(7) [OF ok] by (auto simp: office_wf_def)
  then show ?thesis using charter_okD(4,7,8) [OF ok] by auto
qed

definition demo_written :: charter_db where
  "demo_written = fst (office_save demo_town 1000 ''ann'' ''k'' demo_request (loadCharter demo_town 1000 demo_start) demo_start)"

lemma demo_run: "office_save demo_town 1000 ''ann'' ''k'' demo_request (loadCharter demo_town 1000 demo_start) demo_start = (demo_written, Inr (Some ''office_created''))"
  using demo_save by (simp add: demo_written_def prod_eq_iff)

lemma demo_act: "CharterOfficeSave demo_town 1000 ''ann'' ''k'' demo_request demo_start = (demo_written, Inr (Some ''office_created''))"
  unfolding CharterOfficeSave_def uow_Do_Inr tx_bind_Inr using demo_tick demo_run by blast

lemma demo_reach': "charter_reach demo_town demo_written"
  by (rule charter_reach.reach_step [OF demo_reach charter_step.step_save [OF _ demo_act]]) (simp add: same_town_def)

theorem charter_rails_witness:
  "length (cd_Offices demo_written) = 2 \<and> (\<exists>r\<in>set (cd_Offices demo_written). row_open r \<and> of_Grants (or_Office r) = AllPermissions)"
proof -
  have "length (cd_Offices demo_written) = 2" by code_simp
  moreover from this have "cd_Offices demo_written \<noteq> []" by auto
  ultimately show ?thesis using charter_rails [OF demo_ids demo_reach'] by blast
qed

text \<open>
  C9. Rail R1, nobody grants what they do not hold. When a player creates, changes or closes an office, appoints,
  dismisses or resigns, then what any resident holds through offices afterwards is within what they held before together
  with what the acting player held: no act, whatever it asks, makes a power appear that its actor lacked.
\<close>

theorem charter_no_escalation:
  assumes "ids_unique h" "charter_reach h w0" "charterTick h now w0 = (w, Inr st)"
    and "office_save h now player key rq st w = (w', Inr a) \<or> office_close h now player key rq st w = (w', Inr a) \<or>
      office_seat h now player key rq appoint st w = (w', Inr a)"
  shows "held_le (granted (loadCharter h now w') q) (held_sup (granted st q) (heldBy st player))"
proof -
  note t = charterTick_ok [OF assms(1) charter_reach_ok [OF assms(1,2)] assms(3)]
  show ?thesis
    using assms(4) unfolding t(2)
    by (elim disjE) (rule office_save_escalation [OF assms(1) t(3)] office_seat_escalation [OF t(3)] held_le_trans [OF office_close_escalation [OF t(3)] held_sup_upper(1)],
      assumption)+
qed

theorem charter_no_escalation_witness:
  "held_le (granted (loadCharter demo_town 1000 demo_written) ''bob'')
     (held_sup (granted (loadCharter demo_town 1000 demo_start) ''bob'') (heldBy (loadCharter demo_town 1000 demo_start) ''ann''))"
  using charter_no_escalation [OF demo_ids demo_reach demo_tick disjI1 [OF demo_run]] by blast

text \<open>
  C10. Rail R2, an office manager remains. After an office is created, changed or closed, or a holder is dismissed or
  resigns, some open office that may edit the charter has a holder, so the charter never locks itself out by such an act.
\<close>

theorem charter_manager_remains:
  assumes "ids_unique h" "charter_reach h w0" "charterTick h now w0 = (w, Inr st)"
    and "office_save h now player key rq st w = (w', Inr (Some x)) \<and> x \<noteq> ''amendment_proposed'' \<or>
      office_close h now player key rq st w = (w', Inr (Some ''office_closed'')) \<or> office_seat h now player key rq False st w = (w', Inr (Some x))"
  shows "has_manager (loadCharter h now w')"
proof -
  note t = charterTick_ok [OF assms(1) charter_reach_ok [OF assms(1,2)] assms(3)]
  show ?thesis
    using assms(4) office_save_manager [OF assms(1) t(3)] office_close_manager [OF t(3)] office_seat_manager [OF t(3)] unfolding t(2) by blast
qed

theorem charter_manager_remains_witness: "has_manager (loadCharter demo_town 1000 demo_written)"
  by (rule charter_manager_remains [OF demo_ids demo_reach demo_tick disjI1 [OF conjI [OF demo_run]]]) simp


section \<open>An amendment that can no longer be written\<close>

text \<open>
  The residents approve a title that another office took while they voted: the write runs into the unique index, the log
  line after it fails in the aborted transaction, and so does the housekeeping of every later act.
\<close>

definition demo_stuck :: charter_db where
  "demo_stuck = demo_written\<lparr>cd_Votes := [(''v'', ''bob'', ''yes'')], cd_Ballots := [new_ballot ''v'' BallotAmendment ''xx'' '''' ''ann''
     (Some \<lparr>pj_Op = ''save'', pj_Office = \<lparr>oj_ID = ''xx'', oj_Title = [104, 101, 97, 100], oj_Seats = 1, oj_Grants = [(PolicePatrol, 0)],
        oj_Acquisition = AcquireElection, oj_TermDays = 14, oj_Deputy = False\<rparr>, pj_By = ''ann''\<rparr>) 0 1500 1 ''a'']\<rparr>"

lemma amendment_stuck: "snd (charterTick demo_town 2000 demo_stuck) = Inl DBConflict"
proof -
  have "(case snd (charterTick demo_town 2000 demo_stuck) of Inl e \<Rightarrow> e = DBConflict | Inr st \<Rightarrow> False)" by code_simp
  then show ?thesis by (simp split: sum.splits)
qed

lemma tick_fails_act:
  assumes "snd (charterTick h now w) = Inl e"
  shows "uow_Do None None (tx_bind (charterTick h now) act) w = (w, Inl e)"
  using assms by (cases "charterTick h now w") (simp add: uow_Do_def tx_bind_def)

end
