(* ===== verification/Company.thy ===== *)
theory Company
  imports Money
begin

text \<open>
  \<^verbatim>\<open>internal/domain/company\<close> without its market and its names: the exact proportions (\<^verbatim>\<open>arith.go\<close>), who may do
  what in a company and what a kind of business is (\<^verbatim>\<open>company.go\<close>), how money may leave a company and what its
  upkeep does (\<^verbatim>\<open>books.go\<close>), and the citizens that work the openings no player took (\<^verbatim>\<open>citizens.go\<close>). The
  package's \<open>mulDiv\<close> interprets \<open>floor_mul_div\<close>. The lemmas show that no decision of the company takes more
  than its available money, so what is promised to running shifts stays, that every split adds up, and that
  the citizens hired are paid within the free money and nobody affordable is turned away.
\<close>

section \<open>Errors and proportions\<close>

datatype company_error =
    CoErrArithmetic | CoErrMoney money_error | CoErrInvalidType string | CoErrInvalidMarket | CoErrNotAllowed string
  | CoErrInvalidAmount | Shortfall amount amount | CoErrInDebt | CoErrShiftsRunning | CoErrPriceOutOfRange | CoErrCareerNotHired
  | CoErrStaffFull | CoErrInvalidTaxRate | BelowMinimumWage amount amount | CoErrInvalidCitizenRules

abbreviation CoWhole :: int where "CoWhole \<equiv> 10000"

definition company_mulDiv :: "int \<Rightarrow> int \<Rightarrow> int \<Rightarrow> company_error + int" where
  "company_mulDiv a num den =
     (if a < 0 \<or> num < 0 \<or> den \<le> 0 then Inl CoErrArithmetic
      else case Mul64 a num of (hi, lo) \<Rightarrow>
        if hi \<ge> den then Inl (CoErrMoney ErrOverflow)
        else case Div64 hi lo den of (q, _) \<Rightarrow> if q > MaxInt64 then Inl (CoErrMoney ErrOverflow) else Inr q)"

definition company_bps :: "amount \<Rightarrow> int \<Rightarrow> company_error + amount" where
  "company_bps a rate =
     (if rate < 0 \<or> rate > CoWhole then Inl CoErrInvalidTaxRate
      else case company_mulDiv (Minor a) rate CoWhole of Inl e \<Rightarrow> Inl e | Inr v \<Rightarrow> Inr (FromMinor v))"

definition mulAmount :: "amount \<Rightarrow> int \<Rightarrow> company_error + amount" where
  "mulAmount a n = (case company_mulDiv (Minor a) n 1 of Inl e \<Rightarrow> Inl e | Inr v \<Rightarrow> Inr (FromMinor v))"

text \<open>The error of a money operation, as the callers return it.\<close>

definition co_money :: "money_error + 'a \<Rightarrow> company_error + 'a" where
  "co_money r = (case r of Inl e \<Rightarrow> Inl (CoErrMoney e) | Inr a \<Rightarrow> Inr a)"

lemma company_mulDiv_eq:
  "company_mulDiv a b c =
    (if a < 0 \<or> b < 0 \<or> c \<le> 0 then Inl CoErrArithmetic
     else if MaxInt64 < (a * b) div c then Inl (CoErrMoney ErrOverflow) else Inr ((a * b) div c))"
  by (simp add: company_mulDiv_def mul_div_128 [where f = "\<lambda>q _. Inr q", simplified])

definition company_md :: "int \<Rightarrow> int \<Rightarrow> int \<Rightarrow> int option" where
  "company_md a b c = (case company_mulDiv a b c of Inl _ \<Rightarrow> None | Inr q \<Rightarrow> Some q)"

interpretation co: floor_mul_div company_md
  by unfold_locales (simp add: company_md_def company_mulDiv_eq)

lemma company_mulDiv_Inr: "company_mulDiv a b c = Inr q \<longleftrightarrow> company_md a b c = Some q"
  by (simp add: company_md_def split: sum.split)

lemma company_mulDiv_share:
  assumes "0 \<le> a" "a \<le> MaxInt64" "0 \<le> b" "b \<le> c" "0 < c"
  shows "company_mulDiv a b c = Inr ((a * b) div c)" "0 \<le> (a * b) div c" "(a * b) div c \<le> a"
  using co.md_share_total [OF assms] assms by (simp_all add: company_mulDiv_Inr pos_imp_zdiv_nonneg_iff)

lemma company_bps_share:
  assumes "0 \<le> n" "n \<le> MaxInt64" "0 \<le> r" "r \<le> CoWhole"
  shows "company_bps (FromMinor n) r = Inr (FromMinor (n * r div CoWhole))"
  using assms company_mulDiv_share [of n r CoWhole] by (simp add: company_bps_def)

section \<open>Roles\<close>

datatype role = RoleNone | RoleManager | RoleOwner

type_synonym right = string

abbreviation RightViewBooks :: right where "RightViewBooks \<equiv> ''view_books''"
abbreviation RightDeposit :: right where "RightDeposit \<equiv> ''deposit''"
abbreviation RightManageStaff :: right where "RightManageStaff \<equiv> ''manage_staff''"
abbreviation RightSetPrice :: right where "RightSetPrice \<equiv> ''set_price''"
abbreviation RightWithdraw :: right where "RightWithdraw \<equiv> ''withdraw''"
abbreviation RightAppoint :: right where "RightAppoint \<equiv> ''appoint''"
abbreviation RightClose :: right where "RightClose \<equiv> ''close''"
abbreviation RightProduce :: right where "RightProduce \<equiv> ''produce''"
abbreviation RightResearch :: right where "RightResearch \<equiv> ''research''"

definition Role_Can :: "role \<Rightarrow> right \<Rightarrow> bool" where
  "Role_Can r right =
     (case r of
        RoleOwner \<Rightarrow> True
      | RoleManager \<Rightarrow> right \<in> {RightViewBooks, RightDeposit, RightManageStaff, RightSetPrice, RightProduce}
      | RoleNone \<Rightarrow> False)"

definition Role_Check :: "role \<Rightarrow> right \<Rightarrow> company_error option" where
  "Role_Check r right = (if Role_Can r right then None else Some (CoErrNotAllowed right))"

definition RoleOf :: "string \<Rightarrow> string \<Rightarrow> string \<Rightarrow> role" where
  "RoleOf playerID ownerID managerID =
     (if playerID = '''' then RoleNone
      else if playerID = ownerID then RoleOwner
      else if managerID \<noteq> '''' \<and> playerID = managerID then RoleManager
      else RoleNone)"

text \<open>Only the owner takes money out, appoints, closes or shares the company's research.\<close>

lemma Role_owner_rights:
  assumes "right \<in> {RightWithdraw, RightAppoint, RightClose, RightResearch}"
  shows "Role_Check (RoleOf p own man) right = None \<longleftrightarrow> p \<noteq> '''' \<and> p = own"
  using assms by (auto simp: Role_Check_def Role_Can_def RoleOf_def)

section \<open>Kinds of business\<close>

abbreviation MaxFee :: int where "MaxFee \<equiv> 1000000000000"
abbreviation MaxStaff :: int where "MaxStaff \<equiv> 1000"
abbreviation MaxUnits :: int where "MaxUnits \<equiv> 1000000000"
abbreviation MinPriceBPS :: int where "MinPriceBPS \<equiv> 1000"
abbreviation MaxPriceBPS :: int where "MaxPriceBPS \<equiv> 100000"
abbreviation MaxElasticityBPS :: int where "MaxElasticityBPS \<equiv> 100000"
abbreviation MaxStars :: int where "MaxStars \<equiv> 5"

record company_type =
  cty_Code :: string
  cty_Category :: string
  cty_Careers :: "string list"
  cty_Place :: string
  cty_FoundingFee :: amount
  cty_Upkeep :: amount
  cty_MaxStaff :: int
  cty_UnitPrice :: amount
  cty_BaseUnits :: int
  cty_UnitsPerShift :: int
  cty_StaffTarget :: int
  cty_MinQualityBPS :: int
  cty_PriceMinBPS :: int
  cty_PriceMaxBPS :: int
  cty_ElasticityBPS :: int

fun careers_bad :: "string list \<Rightarrow> string list \<Rightarrow> bool" where
  "careers_bad seen [] = False"
| "careers_bad seen (c # cs) = (c = '''' \<or> c \<in> set seen \<or> careers_bad (c # seen) cs)"

definition Type_Validate :: "company_type \<Rightarrow> company_error option" where
  "Type_Validate t =
     (if cty_Code t = '''' then Some (CoErrInvalidType ''empty code'')
      else if cty_Category t = '''' then Some (CoErrInvalidType ''no category'')
      else if cty_Careers t = [] then Some (CoErrInvalidType ''hires into no career'')
      else if cty_Place t = '''' then Some (CoErrInvalidType ''operates nowhere'')
      else if Amount_IsNegative (cty_FoundingFee t) \<or> Minor (cty_FoundingFee t) > MaxFee then Some (CoErrInvalidType ''founding fee'')
      else if Amount_IsNegative (cty_Upkeep t) \<or> Minor (cty_Upkeep t) > MaxFee then Some (CoErrInvalidType ''upkeep'')
      else if cty_MaxStaff t < 1 \<or> cty_MaxStaff t > MaxStaff then Some (CoErrInvalidType ''max staff'')
      else if Minor (cty_UnitPrice t) < 1 \<or> Minor (cty_UnitPrice t) > MaxFee then Some (CoErrInvalidType ''unit price'')
      else if cty_BaseUnits t < 0 \<or> cty_BaseUnits t > MaxUnits then Some (CoErrInvalidType ''base units'')
      else if cty_UnitsPerShift t < 1 \<or> cty_UnitsPerShift t > MaxUnits then Some (CoErrInvalidType ''units per shift'')
      else if cty_StaffTarget t < 1 \<or> cty_StaffTarget t > MaxStaff * 100 then Some (CoErrInvalidType ''staff target'')
      else if cty_MinQualityBPS t < 0 \<or> cty_MinQualityBPS t > CoWhole then Some (CoErrInvalidType ''min quality'')
      else if cty_PriceMinBPS t < MinPriceBPS \<or> cty_PriceMaxBPS t > MaxPriceBPS \<or> cty_PriceMinBPS t > CoWhole \<or> cty_PriceMaxBPS t < CoWhole
        then Some (CoErrInvalidType ''price range'')
      else if cty_ElasticityBPS t < 0 \<or> cty_ElasticityBPS t > MaxElasticityBPS then Some (CoErrInvalidType ''elasticity'')
      else if careers_bad [] (cty_Careers t) then Some (CoErrInvalidType ''empty or repeated career'')
      else None)"

fun hires_loop :: "string list \<Rightarrow> string \<Rightarrow> bool" where
  "hires_loop [] career = False"
| "hires_loop (c # cs) career = (if c = career then True else hires_loop cs career)"

definition Hires :: "company_type \<Rightarrow> string \<Rightarrow> bool" where
  "Hires t career = hires_loop (cty_Careers t) career"

definition CheckPrice :: "company_type \<Rightarrow> int \<Rightarrow> company_error option" where
  "CheckPrice t bps = (if bps < cty_PriceMinBPS t \<or> bps > cty_PriceMaxBPS t then Some CoErrPriceOutOfRange else None)"

definition RegistrationFee :: "company_type \<Rightarrow> int \<Rightarrow> company_error + amount" where
  "RegistrationFee t multiplierBPS =
     (if multiplierBPS < 0 then Inl CoErrInvalidTaxRate
      else case company_mulDiv (Minor (cty_FoundingFee t)) multiplierBPS CoWhole of Inl e \<Rightarrow> Inl e | Inr v \<Rightarrow> Inr (FromMinor v))"

record company_opening =
  co_Career :: string
  co_Wage :: amount
  co_Positions :: int

definition CheckOpening :: "company_type \<Rightarrow> company_opening \<Rightarrow> amount \<Rightarrow> int \<Rightarrow> company_error option" where
  "CheckOpening t x minimumWage taken =
     (if \<not> Hires t (co_Career x) then Some CoErrCareerNotHired
      else if Amount_IsNegative (co_Wage x) \<or> Minor (co_Wage x) > MaxFee then Some CoErrInvalidAmount
      else if Minor (co_Wage x) < Minor minimumWage then Some (BelowMinimumWage (co_Wage x) minimumWage)
      else if co_Positions x < 1 then Some CoErrInvalidAmount
      else if taken < 0 \<or> add64 taken (co_Positions x) > cty_MaxStaff t then Some CoErrStaffFull
      else None)"

definition Stars :: "int \<Rightarrow> int" where
  "Stars qualityBPS = (let q = min (max qualityBPS 0) CoWhole in 1 + quo64 (mul64 q (MaxStars - 1)) CoWhole)"

lemma Stars_range: "1 \<le> Stars q \<and> Stars q \<le> MaxStars"
proof -
  define x where "x = min (max q 0) CoWhole"
  have x: "0 \<le> x" "x \<le> CoWhole" by (simp_all add: x_def)
  then have "mul64 x 4 = x * 4" by (simp add: mul64_def wrap64_nonneg)
  moreover have "quo64 (x * 4) CoWhole = x * 4 div CoWhole" using x by (intro quo64_nonneg) simp_all
  moreover have "0 \<le> x * 4 div CoWhole" "x * 4 div CoWhole \<le> 4" using x by (simp_all add: pos_imp_zdiv_nonneg_iff div_le_iff_int)
  ultimately show ?thesis by (simp add: Stars_def Let_def x_def [symmetric])
qed

lemma Hires_iff: "Hires t c \<longleftrightarrow> c \<in> set (cty_Careers t)"
proof -
  have "hires_loop cs c \<longleftrightarrow> c \<in> set cs" for cs by (induction cs) auto
  then show ?thesis by (simp add: Hires_def)
qed

lemma Type_ValidateD:
  assumes "Type_Validate t = None"
  shows "0 \<le> Minor (cty_Upkeep t)" "Minor (cty_Upkeep t) \<le> MaxFee" "1 \<le> cty_MaxStaff t" "cty_MaxStaff t \<le> MaxStaff"
    "1 \<le> Minor (cty_UnitPrice t)" "Minor (cty_UnitPrice t) \<le> MaxFee" "0 \<le> cty_BaseUnits t" "cty_BaseUnits t \<le> MaxUnits"
    "1 \<le> cty_UnitsPerShift t" "cty_UnitsPerShift t \<le> MaxUnits" "1 \<le> cty_StaffTarget t" "cty_StaffTarget t \<le> MaxStaff * 100"
    "0 \<le> cty_MinQualityBPS t" "cty_MinQualityBPS t \<le> CoWhole" "MinPriceBPS \<le> cty_PriceMinBPS t" "cty_PriceMaxBPS t \<le> MaxPriceBPS"
    "0 \<le> cty_ElasticityBPS t" "cty_ElasticityBPS t \<le> MaxElasticityBPS"
  using assms unfolding Type_Validate_def by (simp_all add: Amount_IsNegative_def split: if_splits)

section \<open>Money out of a company\<close>

record books =
  bk_Balance :: amount
  bk_Reserved :: amount
  bk_Debt :: amount

record withdrawal =
  wd_Gross :: amount
  wd_Tax :: amount
  wd_Net :: amount

record upkeep =
  uk_Due :: amount
  uk_Paid :: amount
  uk_Debt :: amount
  uk_Arrears :: int
  uk_Insolvent :: bool

record closing =
  cl_DebtPaid :: amount
  cl_WrittenOff :: amount
  cl_Payout :: withdrawal

definition Available :: "books \<Rightarrow> amount" where
  "Available b =
     (let v = sub64 (Minor (bk_Balance b)) (Minor (bk_Reserved b)) in FromMinor (if v < 0 then 0 else v))"

definition CanReserve :: "books \<Rightarrow> amount \<Rightarrow> company_error option" where
  "CanReserve b wage =
     (if Amount_IsNegative wage then Some CoErrInvalidAmount
      else if Minor (Available b) < Minor wage then Some (Shortfall wage (Available b))
      else None)"

definition company_split :: "amount \<Rightarrow> int \<Rightarrow> company_error + withdrawal" where
  "company_split gross taxBPS =
     (case company_bps gross taxBPS of
        Inl e \<Rightarrow> Inl e
      | Inr tax \<Rightarrow>
          (case co_money (Amount_Sub gross tax) of
             Inl e \<Rightarrow> Inl e
           | Inr net \<Rightarrow> Inr \<lparr>wd_Gross = gross, wd_Tax = tax, wd_Net = net\<rparr>))"

definition company_Withdraw :: "books \<Rightarrow> amount \<Rightarrow> int \<Rightarrow> company_error + withdrawal" where
  "company_Withdraw b amt taxBPS =
     (if Amount_IsNegative amt \<or> Amount_IsZero amt then Inl CoErrInvalidAmount
      else if \<not> Amount_IsZero (bk_Debt b) then Inl CoErrInDebt
      else if Minor (Available b) < Minor amt then Inl (Shortfall amt (Available b))
      else company_split amt taxBPS)"

definition ChargeUpkeep :: "books \<Rightarrow> amount \<Rightarrow> int \<Rightarrow> int \<Rightarrow> company_error + upkeep" where
  "ChargeUpkeep b upk arrears grace =
     (if Amount_IsNegative upk \<or> Amount_IsNegative (bk_Debt b) then Inl CoErrInvalidAmount
      else case co_money (Amount_Add upk (bk_Debt b)) of
        Inl e \<Rightarrow> Inl e
      | Inr due \<Rightarrow>
          let paid = (if Minor (Available b) > Minor due then due else Available b) in
          (case co_money (Amount_Sub due paid) of
             Inl e \<Rightarrow> Inl e
           | Inr debt \<Rightarrow>
               let arr = (if \<not> Amount_IsZero debt then add64 (max arrears 0) 1 else 0) in
               Inr \<lparr>uk_Due = due, uk_Paid = paid, uk_Debt = debt, uk_Arrears = arr, uk_Insolvent = (arr \<ge> max grace 1)\<rparr>))"

definition company_Close :: "books \<Rightarrow> int \<Rightarrow> company_error + closing" where
  "company_Close b taxBPS =
     (if \<not> Amount_IsZero (bk_Reserved b) then Inl CoErrShiftsRunning
      else if Amount_IsNegative (bk_Balance b) \<or> Amount_IsNegative (bk_Debt b) then Inl CoErrInvalidAmount
      else
        let paid = (if Minor (bk_Debt b) > Minor (bk_Balance b) then bk_Balance b else bk_Debt b) in
        (case co_money (Amount_Sub (bk_Balance b) paid) of
           Inl e \<Rightarrow> Inl e
         | Inr left \<Rightarrow>
             (case co_money (Amount_Sub (bk_Debt b) paid) of
                Inl e \<Rightarrow> Inl e
              | Inr off \<Rightarrow>
                  (case company_split left taxBPS of
                     Inl e \<Rightarrow> Inl e
                   | Inr payout \<Rightarrow> Inr \<lparr>cl_DebtPaid = paid, cl_WrittenOff = off, cl_Payout = payout\<rparr>))))"

definition Prorate :: "amount \<Rightarrow> int \<Rightarrow> company_error + amount" where
  "Prorate amt shareBPS =
     (if Amount_IsNegative amt then Inl CoErrInvalidAmount else company_bps amt (min (max shareBPS 0) CoWhole))"

section \<open>What the books promise\<close>

definition books_ok :: "books \<Rightarrow> bool" where
  "books_ok b \<longleftrightarrow> 0 \<le> Minor (bk_Balance b) \<and> Minor (bk_Balance b) \<le> MaxInt64 \<and> 0 \<le> Minor (bk_Reserved b) \<and>
     Minor (bk_Reserved b) \<le> MaxInt64 \<and> 0 \<le> Minor (bk_Debt b) \<and> Minor (bk_Debt b) \<le> MaxInt64"

lemma Available_eq:
  assumes "books_ok b"
  shows "Minor (Available b) = max 0 (Minor (bk_Balance b) - Minor (bk_Reserved b))"
  using assms by (simp add: Available_def Let_def books_ok_def sub64_exact in64_def)

lemma Available_range: "books_ok b \<Longrightarrow> 0 \<le> Minor (Available b) \<and> Minor (Available b) \<le> Minor (bk_Balance b)"
  by (auto simp: Available_eq books_ok_def)

text \<open>A shift is started exactly when its wage fits beside what is promised already.\<close>

lemma CanReserve_iff:
  assumes "books_ok b"
  shows "CanReserve b wage = None \<longleftrightarrow>
    Minor wage = 0 \<or> 0 < Minor wage \<and> Minor (bk_Reserved b) + Minor wage \<le> Minor (bk_Balance b)"
  using assms by (auto simp: CanReserve_def Amount_IsNegative_def Available_eq)

lemma company_split_eq:
  assumes "0 \<le> Minor g" "Minor g \<le> MaxInt64"
  shows "company_split g t =
    (if t < 0 \<or> t > CoWhole then Inl CoErrInvalidTaxRate
     else Inr \<lparr>wd_Gross = g, wd_Tax = FromMinor (Minor g * t div CoWhole), wd_Net = FromMinor (Minor g - Minor g * t div CoWhole)\<rparr>)"
proof (cases "t < 0 \<or> t > CoWhole")
  case False
  define x where "x = Minor g * t div CoWhole"
  have x: "0 \<le> x" "x \<le> Minor g" "company_bps g t = Inr (FromMinor x)"
    using False assms company_mulDiv_share [of "Minor g" t CoWhole] by (simp_all add: x_def company_bps_def)
  then have "Amount_Sub g (FromMinor x) = Inr (FromMinor (Minor g - x))"
    using assms by (subst Amount_Sub_eq) (auto simp: valid_amount_def in64_def)
  then show ?thesis using False x by (simp add: company_split_def co_money_def x_def)
qed (auto simp: company_split_def company_bps_def)

definition company_split_of :: "amount \<Rightarrow> int \<Rightarrow> withdrawal" where
  "company_split_of g t = \<lparr>wd_Gross = g, wd_Tax = FromMinor (Minor g * t div CoWhole), wd_Net = FromMinor (Minor g - Minor g * t div CoWhole)\<rparr>"

lemma company_split_of:
  assumes "0 \<le> Minor g" "0 \<le> t" "t \<le> CoWhole"
  shows "Minor (wd_Gross (company_split_of g t)) = Minor (wd_Net (company_split_of g t)) + Minor (wd_Tax (company_split_of g t))"
    "0 \<le> Minor (wd_Tax (company_split_of g t))" "0 \<le> Minor (wd_Net (company_split_of g t))"
proof -
  have "Minor g * t \<le> Minor g * CoWhole" using assms by (intro mult_left_mono) simp_all
  then have "Minor g * t div CoWhole \<le> Minor g" "0 \<le> Minor g * t div CoWhole"
    using assms by (simp_all add: div_le_iff_int pos_imp_zdiv_nonneg_iff distrib_right)
  then show "Minor (wd_Gross (company_split_of g t)) = Minor (wd_Net (company_split_of g t)) + Minor (wd_Tax (company_split_of g t))"
    "0 \<le> Minor (wd_Tax (company_split_of g t))" "0 \<le> Minor (wd_Net (company_split_of g t))"
    by (simp_all add: company_split_of_def)
qed

lemma company_Withdraw_iff:
  assumes "books_ok b"
  shows "company_Withdraw b a t = Inr w \<longleftrightarrow>
    0 < Minor a \<and> Minor (bk_Debt b) = 0 \<and> Minor (bk_Reserved b) + Minor a \<le> Minor (bk_Balance b) \<and>
    0 \<le> t \<and> t \<le> CoWhole \<and> w = company_split_of a t"
proof -
  have "0 < Minor a \<Longrightarrow> Minor a \<le> Minor (Available b) \<Longrightarrow> Minor a \<le> MaxInt64"
    using assms Available_range [OF assms] by (auto simp: books_ok_def)
  then have "company_Withdraw b a t = Inr w \<longleftrightarrow> 0 < Minor a \<and> Minor (bk_Debt b) = 0 \<and> Minor a \<le> Minor (Available b) \<and>
      0 \<le> t \<and> t \<le> CoWhole \<and> w = company_split_of a t"
    by (auto simp: company_Withdraw_def Amount_IsNegative_def Amount_IsZero_def company_split_eq company_split_of_def)
  then show ?thesis by (auto simp: Available_eq [OF assms])
qed

lemma ChargeUpkeep_eq:
  assumes "books_ok b" "0 \<le> Minor u" "Minor u + Minor (bk_Debt b) \<le> MaxInt64" "arrears < MaxInt64"
  defines "due \<equiv> Minor u + Minor (bk_Debt b)"
  defines "paid \<equiv> min (Minor (Available b)) due"
  shows "ChargeUpkeep b u arrears grace =
    (let arr = (if paid < due then max arrears 0 + 1 else 0) in
     Inr \<lparr>uk_Due = FromMinor due, uk_Paid = FromMinor paid, uk_Debt = FromMinor (due - paid), uk_Arrears = arr, uk_Insolvent = (arr \<ge> max grace 1)\<rparr>)"
proof -
  have a: "0 \<le> Minor (Available b)" "Minor (Available b) \<le> MaxInt64" using Available_range [OF assms(1)] assms(1) by (auto simp: books_ok_def)
  have d: "0 \<le> due" "due \<le> MaxInt64" using assms(1-3) by (simp_all add: due_def books_ok_def)
  have add: "Amount_Add u (bk_Debt b) = Inr (FromMinor due)"
    using assms(1-3) by (subst Amount_Add_eq) (auto simp: valid_amount_def in64_def books_ok_def due_def)
  have pay: "(if Minor (Available b) > Minor (FromMinor due) then FromMinor due else Available b) = FromMinor paid"
    by (simp add: paid_def min_def amount.expand)
  have p: "0 \<le> paid" "paid \<le> due" using a d by (simp_all add: paid_def)
  have sub: "Amount_Sub (FromMinor due) (FromMinor paid) = Inr (FromMinor (due - paid))"
    using p d by (subst Amount_Sub_eq) (auto simp: valid_amount_def in64_def)
  have arr: "add64 (max arrears 0) 1 = max arrears 0 + 1" using assms(4) by (simp add: add64_exact in64_def max_def)
  show ?thesis
    using assms(1,2) p unfolding ChargeUpkeep_def add co_money_def sum.case Let_def pay sub arr
    by (auto simp: Amount_IsNegative_def Amount_IsZero_def books_ok_def)
qed

lemma company_Close_iff:
  assumes "books_ok b"
  defines "paid \<equiv> min (Minor (bk_Debt b)) (Minor (bk_Balance b))"
  shows "company_Close b t = Inr c \<longleftrightarrow> Minor (bk_Reserved b) = 0 \<and> 0 \<le> t \<and> t \<le> CoWhole \<and>
    c = \<lparr>cl_DebtPaid = FromMinor paid, cl_WrittenOff = FromMinor (Minor (bk_Debt b) - paid),
         cl_Payout = company_split_of (FromMinor (Minor (bk_Balance b) - paid)) t\<rparr>"
proof -
  have p: "0 \<le> paid" "paid \<le> Minor (bk_Debt b)" "paid \<le> Minor (bk_Balance b)" using assms(1) by (auto simp: paid_def books_ok_def)
  have e: "(if Minor (bk_Debt b) > Minor (bk_Balance b) then bk_Balance b else bk_Debt b) = FromMinor paid"
    by (simp add: paid_def min_def amount.expand)
  have s: "Amount_Sub (bk_Balance b) (FromMinor paid) = Inr (FromMinor (Minor (bk_Balance b) - paid))"
    "Amount_Sub (bk_Debt b) (FromMinor paid) = Inr (FromMinor (Minor (bk_Debt b) - paid))"
    using p assms(1) by (subst Amount_Sub_eq; auto simp: valid_amount_def in64_def books_ok_def)+
  have sp: "company_split (FromMinor (Minor (bk_Balance b) - paid)) t =
      (if t < 0 \<or> t > CoWhole then Inl CoErrInvalidTaxRate else Inr (company_split_of (FromMinor (Minor (bk_Balance b) - paid)) t))"
    using p assms(1) by (subst company_split_eq) (simp_all add: books_ok_def company_split_of_def)
  show ?thesis
    using assms(1) unfolding company_Close_def Let_def e s co_money_def sum.case sp
    by (auto simp: Amount_IsNegative_def Amount_IsZero_def books_ok_def)
qed

text \<open>A company that is insolvent has nothing left that is not promised: closing it then pays its owner nothing.\<close>

lemma insolvent_pays_nobody:
  assumes "books_ok b" "0 \<le> Minor u" "Minor u + Minor (bk_Debt b) \<le> MaxInt64" "arrears < MaxInt64" "Minor (bk_Reserved b) = 0"
    and "ChargeUpkeep b u arrears grace = Inr k" "uk_Insolvent k"
  shows "Minor (uk_Paid k) = Minor (bk_Balance b)" "0 < Minor (uk_Debt k)"
  using assms(5-7) Available_eq [OF assms(1)] Available_range [OF assms(1)]
  by (auto simp: ChargeUpkeep_eq [OF assms(1-4)] Let_def max_def min_def split: if_splits)

lemma Prorate_eq:
  assumes "0 \<le> Minor a" "Minor a \<le> MaxInt64"
  shows "Prorate a s = Inr (FromMinor (Minor a * min (max s 0) CoWhole div CoWhole))"
    "0 \<le> Minor a * min (max s 0) CoWhole div CoWhole" "Minor a * min (max s 0) CoWhole div CoWhole \<le> Minor a"
proof -
  let ?r = "min (max s 0) CoWhole"
  have r: "0 \<le> ?r" "?r \<le> CoWhole" by simp_all
  note share = company_mulDiv_share [OF assms r]
  show "Prorate a s = Inr (FromMinor (Minor a * ?r div CoWhole))"
    using assms r company_bps_share [of "Minor a" ?r] by (simp add: Prorate_def Amount_IsNegative_def)
  show "0 \<le> Minor a * ?r div CoWhole" "Minor a * ?r div CoWhole \<le> Minor a" using share by simp_all
qed

section \<open>Citizen labour\<close>

record citizen_rules =
  ctr_ShiftsPerPeriod :: int
  ctr_ProductivityBPS :: int

record vacancy =
  vac_Positions :: int
  vac_Wage :: amount

record citizen_plan =
  cpn_Workers :: int
  cpn_Shifts :: int
  cpn_Effective :: int
  cpn_Wages :: amount

definition CitizenRules_Validate :: "citizen_rules \<Rightarrow> company_error option" where
  "CitizenRules_Validate r =
     (if ctr_ShiftsPerPeriod r < 1 \<or> ctr_ProductivityBPS r < 1 \<or> ctr_ProductivityBPS r > CoWhole
      then Some CoErrInvalidCitizenRules else None)"

definition no_plan :: citizen_plan where
  "no_plan = \<lparr>cpn_Workers = 0, cpn_Shifts = 0, cpn_Effective = 0, cpn_Wages = FromMinor 0\<rparr>"

definition plan_finish :: "citizen_rules \<Rightarrow> citizen_plan \<Rightarrow> citizen_plan" where
  "plan_finish r p = p\<lparr>cpn_Effective := quo64 (mul64 (cpn_Shifts p) (ctr_ProductivityBPS r)) CoWhole\<rparr>"

text \<open>
  The two loops. Each returns what is left and the plan so far with \<open>True\<close> when the code returns from inside
  it: the positions of one vacancy, and the vacancies.
\<close>

fun plan_positions :: "int \<Rightarrow> int \<Rightarrow> amount \<Rightarrow> nat \<Rightarrow> amount \<Rightarrow> citizen_plan \<Rightarrow> company_error + bool \<times> amount \<times> citizen_plan" where
  "plan_positions perWorker pool wage 0 left plan = Inr (False, left, plan)"
| "plan_positions perWorker pool wage (Suc n) left plan =
     (if cpn_Workers plan = pool then Inr (True, left, plan)
      else
        let shifts = min perWorker (quo64 (Minor left) (Minor wage)) in
        if shifts = 0 then Inr (True, left, plan)
        else case mulAmount wage shifts of Inl e \<Rightarrow> Inl e
        | Inr cost \<Rightarrow>
            (case co_money (Amount_Sub left cost) of Inl e \<Rightarrow> Inl e
             | Inr left' \<Rightarrow>
                 (case co_money (Amount_Add (cpn_Wages plan) cost) of Inl e \<Rightarrow> Inl e
                  | Inr wages \<Rightarrow>
                      let plan' = plan\<lparr>cpn_Wages := wages, cpn_Workers := add64 (cpn_Workers plan) 1,
                                       cpn_Shifts := add64 (cpn_Shifts plan) shifts\<rparr> in
                      if shifts < perWorker then Inr (True, left', plan')
                      else plan_positions perWorker pool wage n left' plan')))"

fun plan_vacancies :: "int \<Rightarrow> int \<Rightarrow> vacancy list \<Rightarrow> amount \<Rightarrow> citizen_plan \<Rightarrow> company_error + citizen_plan" where
  "plan_vacancies perWorker pool [] left plan = Inr plan"
| "plan_vacancies perWorker pool (v # vs) left plan =
     (if vac_Positions v < 0 \<or> Amount_IsNegative (vac_Wage v) then Inl CoErrInvalidAmount
      else if Amount_IsZero (vac_Wage v) then plan_vacancies perWorker pool vs left plan
      else case plan_positions perWorker pool (vac_Wage v) (nat (vac_Positions v)) left plan of
        Inl e \<Rightarrow> Inl e
      | Inr (returned, left', plan') \<Rightarrow> if returned then Inr plan' else plan_vacancies perWorker pool vs left' plan')"

definition PlanCitizens :: "vacancy list \<Rightarrow> citizen_rules \<Rightarrow> int \<Rightarrow> int \<Rightarrow> amount \<Rightarrow> company_error + citizen_plan" where
  "PlanCitizens vacancies r presenceBPS pool free =
     (case CitizenRules_Validate r of Some e \<Rightarrow> Inl e
      | None \<Rightarrow>
          if presenceBPS < 0 \<or> presenceBPS > CoWhole \<or> pool < 0 then Inl CoErrInvalidAmount
          else
            let perWorker = quo64 (mul64 (ctr_ShiftsPerPeriod r) presenceBPS) CoWhole in
            if perWorker = 0 \<or> pool = 0 \<or> Amount_IsZero free \<or> Amount_IsNegative free then Inr no_plan
            else case plan_vacancies perWorker pool vacancies free no_plan of Inl e \<Rightarrow> Inl e | Inr p \<Rightarrow> Inr (plan_finish r p))"

text \<open>
  The same on the paid positions laid out one by one: \<open>hired per pool free ws\<close> are the shifts each citizen
  works, the list of wages being that of the positions with a wage.
\<close>

fun hired :: "int \<Rightarrow> nat \<Rightarrow> int \<Rightarrow> int list \<Rightarrow> int list" where
  "hired per pool free [] = []"
| "hired per pool free (w # ws) =
     (case pool of 0 \<Rightarrow> []
      | Suc k \<Rightarrow>
          (let s = min per (free div w) in
           if s = 0 then [] else if s < per then [s] else s # hired per k (free - s * w) ws))"

definition paid_positions :: "vacancy list \<Rightarrow> int list" where
  "paid_positions vs = concat (map (\<lambda>v. if Minor (vac_Wage v) = 0 then [] else replicate (nat (vac_Positions v)) (Minor (vac_Wage v))) vs)"

definition pay_of :: "int list \<Rightarrow> int list \<Rightarrow> int" where
  "pay_of ss ws = sum_list (map2 (*) ss ws)"

text \<open>What a plan must be when the citizens \<open>ss\<close> were hired on top of it.\<close>

definition plan_with :: "citizen_plan \<Rightarrow> int list \<Rightarrow> int list \<Rightarrow> citizen_plan" where
  "plan_with p ss ws = p\<lparr>cpn_Workers := cpn_Workers p + int (length ss), cpn_Shifts := cpn_Shifts p + sum_list ss,
     cpn_Wages := FromMinor (Minor (cpn_Wages p) + pay_of ss ws)\<rparr>"

lemma plan_with_Nil [simp]: "plan_with p [] ws = p"
  by (simp add: plan_with_def pay_of_def)

lemma plan_with_Cons [simp]:
  "plan_with p (s # ss) (w # ws) =
   plan_with (p\<lparr>cpn_Wages := FromMinor (Minor (cpn_Wages p) + s * w), cpn_Workers := cpn_Workers p + 1, cpn_Shifts := cpn_Shifts p + s\<rparr>) ss ws"
  by (simp add: plan_with_def pay_of_def algebra_simps)

lemma hired_step:
  "hired per pool free (w # ws) =
    (let s = min per (free div w) in
     if pool = 0 \<or> s = 0 then [] else if s < per then [s] else s # hired per (pool - 1) (free - s * w) ws)"
  by (cases pool) (simp_all add: Let_def)

declare hired.simps(2) [simp del]

lemma pay_of_simps [simp]: "pay_of [] ws = 0" "pay_of (s # ss) (w # ws) = s * w + pay_of ss ws"
  by (simp_all add: pay_of_def)

lemma shifts_paid:
  assumes "0 < (w::int)" "0 < per" "0 \<le> free"
  defines "s \<equiv> min per (free div w)"
  shows "0 \<le> s" "s * w \<le> free" "s \<le> s * w"
proof -
  show s0: "0 \<le> s" using assms by (simp add: pos_imp_zdiv_nonneg_iff)
  have "s * w \<le> (free div w) * w" using assms by (intro mult_right_mono) simp_all
  then show "s * w \<le> free" using div_mult_le_int [OF assms(1), of free] by linarith
  show "s \<le> s * w" using assms(1) s0 by (simp add: mult_le_cancel_left1)
qed

lemma hired_props:
  assumes "0 < per" "\<forall>w\<in>set ws. 0 < w" "0 \<le> free"
  shows "length (hired per pool free ws) \<le> pool \<and> length (hired per pool free ws) \<le> length ws \<and>
    (\<forall>s\<in>set (hired per pool free ws). 0 < s \<and> s \<le> per) \<and> pay_of (hired per pool free ws) ws \<le> free \<and>
    0 \<le> sum_list (hired per pool free ws) \<and> sum_list (hired per pool free ws) \<le> pay_of (hired per pool free ws) ws"
  using assms(2,3)
proof (induction ws arbitrary: pool free)
  case Nil
  then show ?case by simp
next
  case (Cons w ws)
  define s where "s = min per (free div w)"
  have p: "0 \<le> s" "s * w \<le> free" "s \<le> s * w" "s \<le> per"
    using Cons.prems shifts_paid [of w per free] assms(1) by (simp_all add: s_def)
  consider "pool = 0 \<or> s = 0" | "pool \<noteq> 0" "0 < s" "s < per" | "pool \<noteq> 0" "s = per"
    using p by linarith
  then show ?case
  proof cases
    case 1
    then have "hired per pool free (w # ws) = []" by (auto simp: hired_step Let_def s_def [symmetric])
    then show ?thesis using Cons.prems by simp
  next
    case 2
    then show ?thesis using p by (simp add: hired_step Let_def s_def [symmetric])
  next
    case 3
    define t where "t = hired per (pool - 1) (free - s * w) ws"
    have h: "hired per pool free (w # ws) = s # t"
      using 3 assms(1) by (simp add: hired_step Let_def s_def [symmetric] t_def)
    have t: "length t \<le> pool - 1" "length t \<le> length ws" "\<forall>s\<in>set t. 0 < s \<and> s \<le> per" "pay_of t ws \<le> free - s * w"
      "0 \<le> sum_list t" "sum_list t \<le> pay_of t ws"
      using Cons.IH [of "free - s * w" "pool - 1"] Cons.prems(1) p(2) by (simp_all add: t_def)
    have "Suc (length t) \<le> pool" using t(1) 3(1) by simp
    moreover have "s * w + pay_of t ws \<le> free" "0 \<le> s + sum_list t" "s + sum_list t \<le> s * w + pay_of t ws"
      using t(4-6) p(1,3) by linarith+
    ultimately show ?thesis using t(2,3) 3(2) assms(1) by (simp add: h)
  qed
qed

text \<open>The loops of the code hire exactly these citizens, and never fail: a wage that fits the free money is payable.\<close>

lemma mulAmount_fits: "0 \<le> Minor a \<Longrightarrow> 0 \<le> n \<Longrightarrow> Minor a * n \<le> MaxInt64 \<Longrightarrow> mulAmount a n = Inr (FromMinor (Minor a * n))"
  by (simp add: mulAmount_def company_mulDiv_eq)

definition plan_inv :: "int \<Rightarrow> amount \<Rightarrow> citizen_plan \<Rightarrow> bool" where
  "plan_inv pool left p \<longleftrightarrow> 0 \<le> cpn_Workers p \<and> cpn_Workers p \<le> pool \<and> pool \<le> MaxInt64 \<and> 0 \<le> Minor left \<and> 0 \<le> cpn_Shifts p \<and>
     0 \<le> Minor (cpn_Wages p) \<and> cpn_Shifts p + Minor left \<le> MaxInt64 \<and> Minor (cpn_Wages p) + Minor left \<le> MaxInt64"

lemma plan_position_step:
  assumes "plan_inv pool left p" "0 < Minor w" "0 < per"
  defines "s \<equiv> min per (Minor left div Minor w)"
  assumes "cpn_Workers p \<noteq> pool" "s \<noteq> 0"
  defines "p' \<equiv> p\<lparr>cpn_Wages := FromMinor (Minor (cpn_Wages p) + s * Minor w), cpn_Workers := cpn_Workers p + 1, cpn_Shifts := cpn_Shifts p + s\<rparr>"
  defines "left' \<equiv> FromMinor (Minor left - s * Minor w)"
  shows "plan_inv pool left' p'"
    "plan_positions per pool w (Suc n) left p = (if s < per then Inr (True, left', p') else plan_positions per pool w n left' p')"
proof -
  have L: "0 \<le> Minor left" "Minor left \<le> MaxInt64" using assms(1) by (auto simp: plan_inv_def)
  note sp = shifts_paid [OF assms(2,3) L(1), folded s_def]
  show "plan_inv pool left' p'" using assms(1,5) sp by (auto simp: plan_inv_def p'_def left'_def)
  have q: "quo64 (Minor left) (Minor w) = Minor left div Minor w" using L assms(2) by (intro quo64_nonneg) simp_all
  have "Minor w * s \<le> MaxInt64" using sp(2) L by (simp add: mult.commute)
  then have m: "mulAmount w s = Inr (FromMinor (s * Minor w))"
    using assms(2) sp(1) by (subst mulAmount_fits) (simp_all add: mult.commute)
  have sw: "0 \<le> s * Minor w" using sp(1) assms(2) by simp
  have d: "Amount_Sub left (FromMinor (s * Minor w)) = Inr left'"
    using sw sp(2) L by (subst Amount_Sub_eq) (auto simp: valid_amount_def in64_def left'_def)
  have a: "Amount_Add (cpn_Wages p) (FromMinor (s * Minor w)) = Inr (FromMinor (Minor (cpn_Wages p) + s * Minor w))"
    using sw sp(2) L assms(1) by (subst Amount_Add_eq) (auto simp: valid_amount_def in64_def plan_inv_def)
  have e: "add64 (cpn_Workers p) 1 = cpn_Workers p + 1" "add64 (cpn_Shifts p) s = cpn_Shifts p + s"
    using assms(1,5) sp by (auto simp: plan_inv_def intro!: add64_exact in64_nonneg)
  show "plan_positions per pool w (Suc n) left p = (if s < per then Inr (True, left', p') else plan_positions per pool w n left' p')"
    using assms(5,6) by (simp add: q s_def [symmetric] m co_money_def d a e p'_def [symmetric])
qed

text \<open>One vacancy: either the code returned, having hired as \<open>hired\<close> does, or it goes on to \<open>rest\<close> as \<open>hired\<close> does.\<close>

lemma plan_positions_hired:
  assumes "plan_inv pool left p" "0 < Minor w" "0 < per"
  shows "\<exists>ret left' p'. plan_positions per pool w n left p = Inr (ret, left', p') \<and> plan_inv pool left' p' \<and>
    (let ws = replicate n (Minor w) @ rest; all = plan_with p (hired per (nat (pool - cpn_Workers p)) (Minor left) ws) ws in
     if ret then p' = all else plan_with p' (hired per (nat (pool - cpn_Workers p')) (Minor left') rest) rest = all)"
  using assms(1)
proof (induction n arbitrary: left p)
  case 0
  then show ?case by (auto intro: exI [where x = False])
next
  case (Suc n)
  define s where "s = min per (Minor left div Minor w)"
  define ws where "ws = replicate n (Minor w) @ rest"
  define p' where "p' = p\<lparr>cpn_Wages := FromMinor (Minor (cpn_Wages p) + s * Minor w), cpn_Workers := cpn_Workers p + 1, cpn_Shifts := cpn_Shifts p + s\<rparr>"
  define left' where "left' = FromMinor (Minor left - s * Minor w)"
  have q: "quo64 (Minor left) (Minor w) = Minor left div Minor w"
    using Suc.prems assms(2) by (intro quo64_nonneg) (auto simp: plan_inv_def)
  have k: "nat (pool - cpn_Workers p) = 0 \<longleftrightarrow> cpn_Workers p = pool" using Suc.prems by (auto simp: plan_inv_def)
  have h: "hired per (nat (pool - cpn_Workers p)) (Minor left) (Minor w # ws) =
      (if cpn_Workers p = pool \<or> s = 0 then [] else if s < per then [s] else s # hired per (nat (pool - cpn_Workers p')) (Minor left') ws)"
  proof -
    have "nat (pool - cpn_Workers p) - 1 = nat (pool - cpn_Workers p')" by (simp add: p'_def nat_diff_distrib')
    then show ?thesis unfolding hired_step k Let_def s_def [symmetric] by (simp add: left'_def)
  qed
  show ?case
  proof (cases "cpn_Workers p = pool \<or> s = 0")
    case True
    then have "plan_positions per pool w (Suc n) left p = Inr (True, left, p)" using q by (auto simp: s_def Let_def)
    then show ?thesis using True Suc.prems h by (auto simp: Let_def ws_def)
  next
    case False
    then have f: "cpn_Workers p \<noteq> pool" "s \<noteq> 0" by simp_all
    note st = plan_position_step [OF Suc.prems assms(2,3) f(1) f(2) [unfolded s_def], folded s_def, folded p'_def left'_def]
    show ?thesis
    proof (cases "s < per")
      case True
      then show ?thesis using st(1) st(2) [of n] f h by (auto simp: Let_def ws_def [symmetric] p'_def)
    next
      case big: False
      have run: "plan_positions per pool w (Suc n) left p = plan_positions per pool w n left' p'" using st(2) [of n] big by simp
      have all: "plan_with p (hired per (nat (pool - cpn_Workers p)) (Minor left) (Minor w # ws)) (Minor w # ws) =
          plan_with p' (hired per (nat (pool - cpn_Workers p')) (Minor left') ws) ws"
        using h f big by (simp add: p'_def)
      show ?thesis using Suc.IH [OF st(1)] unfolding run replicate_Suc append_Cons Let_def ws_def [symmetric] all .
    qed
  qed
qed

lemma paid_positions_simps [simp]:
  "paid_positions [] = []"
  "paid_positions (v # vs) = (if Minor (vac_Wage v) = 0 then [] else replicate (nat (vac_Positions v)) (Minor (vac_Wage v))) @ paid_positions vs"
  by (simp_all add: paid_positions_def)

definition vacancies_ok :: "vacancy list \<Rightarrow> bool" where
  "vacancies_ok vs \<longleftrightarrow> (\<forall>v\<in>set vs. 0 \<le> vac_Positions v \<and> 0 \<le> Minor (vac_Wage v))"

lemma paid_positions_pos: "vacancies_ok vs \<Longrightarrow> w \<in> set (paid_positions vs) \<Longrightarrow> 0 < w"
  by (induction vs) (auto simp: vacancies_ok_def split: if_splits)

lemma plan_vacancies_hired:
  assumes "plan_inv pool left p" "0 < per" "vacancies_ok vs"
  shows "plan_vacancies per pool vs left p =
    Inr (plan_with p (hired per (nat (pool - cpn_Workers p)) (Minor left) (paid_positions vs)) (paid_positions vs))"
  using assms(1,3)
proof (induction vs arbitrary: left p)
  case Nil
  then show ?case by simp
next
  case (Cons v vs)
  have v: "\<not> (vac_Positions v < 0 \<or> Amount_IsNegative (vac_Wage v))" "vacancies_ok vs"
    using Cons.prems(2) by (auto simp: vacancies_ok_def Amount_IsNegative_def)
  show ?case
  proof (cases "Minor (vac_Wage v) = 0")
    case True
    then show ?thesis using v Cons by (simp add: Amount_IsZero_def)
  next
    case False
    then have w: "0 < Minor (vac_Wage v)" using Cons.prems(2) by (auto simp: vacancies_ok_def)
    define all where "all = plan_with p (hired per (nat (pool - cpn_Workers p)) (Minor left) (paid_positions (v # vs))) (paid_positions (v # vs))"
    from plan_positions_hired [OF Cons.prems(1) w assms(2), of "nat (vac_Positions v)" "paid_positions vs"]
    obtain ret left' p' where r: "plan_positions per pool (vac_Wage v) (nat (vac_Positions v)) left p = Inr (ret, left', p')"
      "plan_inv pool left' p'"
      "if ret then p' = all else plan_with p' (hired per (nat (pool - cpn_Workers p')) (Minor left') (paid_positions vs)) (paid_positions vs) = all"
      using False by (auto simp: all_def Let_def)
    show ?thesis
    proof (cases ret)
      case True
      then show ?thesis using r v False by (simp add: Amount_IsZero_def all_def [symmetric] del: paid_positions_simps)
    next
      case cont: False
      then show ?thesis using r v False Cons.IH [OF r(2) v(2)]
        by (simp add: Amount_IsZero_def all_def [symmetric] del: paid_positions_simps)
    qed
  qed
qed

definition citizen_shifts :: "citizen_rules \<Rightarrow> int \<Rightarrow> int" where
  "citizen_shifts r presence = ctr_ShiftsPerPeriod r * presence div CoWhole"

lemma PlanCitizens_hired:
  assumes "CitizenRules_Validate r = None" "0 \<le> presence" "presence \<le> CoWhole" "0 \<le> pool" "pool \<le> MaxInt64" "vacancies_ok vs"
    "0 \<le> Minor free" "Minor free \<le> MaxInt64" "ctr_ShiftsPerPeriod r * CoWhole \<le> MaxInt64"
  defines "ws \<equiv> paid_positions vs"
  defines "ss \<equiv> if citizen_shifts r presence = 0 then [] else hired (citizen_shifts r presence) (nat pool) (Minor free) ws"
  shows "PlanCitizens vs r presence pool free = Inr (if ss = [] then no_plan else plan_finish r (plan_with no_plan ss ws))"
proof -
  have r: "1 \<le> ctr_ShiftsPerPeriod r" using assms(1) by (auto simp: CitizenRules_Validate_def split: if_splits)
  have "ctr_ShiftsPerPeriod r * presence \<le> ctr_ShiftsPerPeriod r * CoWhole" using r assms(3) by (intro mult_left_mono) simp_all
  then have m: "ctr_ShiftsPerPeriod r * presence \<le> MaxInt64" using assms(9) by linarith
  have m0: "0 \<le> ctr_ShiftsPerPeriod r * presence" using r assms(2) by simp
  from m m0 have per: "quo64 (mul64 (ctr_ShiftsPerPeriod r) presence) CoWhole = citizen_shifts r presence" "0 \<le> citizen_shifts r presence"
    by (simp_all add: mul64_def wrap64_nonneg quo64_nonneg citizen_shifts_def pos_imp_zdiv_nonneg_iff)
  have g: "\<not> (presence < 0 \<or> presence > CoWhole \<or> pool < 0)" using assms by simp
  show ?thesis
  proof (cases "citizen_shifts r presence = 0 \<or> pool = 0 \<or> Minor free = 0")
    case True
    have "hired k (nat pool) (Minor free) ws = []" if "0 < k" "pool = 0 \<or> Minor free = 0" for k
      using that by (cases ws) (auto simp: hired_step Let_def)
    then have "ss = []" using True per(2) by (auto simp: ss_def)
    then show ?thesis using True g assms(1) by (auto simp: PlanCitizens_def Let_def per Amount_IsZero_def)
  next
    case False
    then have pos: "0 < citizen_shifts r presence" using per(2) by simp
    have inv: "plan_inv pool free no_plan" using assms(4,5,7,8) by (simp add: plan_inv_def no_plan_def)
    have run: "plan_vacancies (citizen_shifts r presence) pool vs free no_plan = Inr (plan_with no_plan ss ws)"
      using plan_vacancies_hired [OF inv pos assms(6)] False by (simp add: ss_def ws_def no_plan_def)
    have "plan_finish r no_plan = no_plan" by (simp add: plan_finish_def no_plan_def mul64_def quo64_def wrap64_def)
    then show ?thesis using False g assms(1,7) run
      by (auto simp: PlanCitizens_def Let_def per Amount_IsZero_def Amount_IsNegative_def)
  qed
qed

text \<open>Everyone hired works the full shifts except perhaps the last, and hiring stops only for a reason.\<close>

definition hiring_full :: "int \<Rightarrow> nat \<Rightarrow> int \<Rightarrow> int list \<Rightarrow> nat \<Rightarrow> int \<Rightarrow> int \<Rightarrow> bool" where
  "hiring_full per pool free ws k shifts paid \<longleftrightarrow>
     k \<le> pool \<and> k \<le> length ws \<and> shifts \<le> int k * per \<and> (0 < k \<longrightarrow> (int k - 1) * per < shifts) \<and> 0 \<le> paid \<and> paid \<le> free \<and>
     paid + (int k * per - shifts) * (if k = 0 then 0 else ws ! (k - 1)) = per * sum_list (take k ws) \<and>
     (k = pool \<or> k = length ws \<and> shifts = int k * per \<or>
      free - paid < (if shifts < int k * per then ws ! (k - 1) else ws ! k))"

lemma hired_full:
  assumes "0 < per" "\<forall>w\<in>set ws. 0 < w" "0 \<le> free"
  shows "hiring_full per pool free ws (length (hired per pool free ws)) (sum_list (hired per pool free ws)) (pay_of (hired per pool free ws) ws)"
  using assms(2,3)
proof (induction ws arbitrary: pool free)
  case Nil
  then show ?case by (simp add: hiring_full_def)
next
  case (Cons w ws)
  define s where "s = min per (free div w)"
  have w: "0 < w" "\<forall>w\<in>set ws. 0 < w" "0 \<le> free" using Cons.prems by simp_all
  have p: "0 \<le> s" "s * w \<le> free" "s \<le> s * w" "s \<le> per"
    using w shifts_paid [of w per free] assms(1) by (simp_all add: s_def)
  have short: "free - s * w < w" if "s < per"
  proof -
    have "s = free div w" using that by (simp add: s_def min_def split: if_splits)
    then show ?thesis using div_mult_less_int [OF w(1), of free] by (simp add: algebra_simps)
  qed
  consider "pool = 0" | "pool \<noteq> 0" "s = 0" | "pool \<noteq> 0" "0 < s" "s < per" | "pool \<noteq> 0" "s = per"
    using p by linarith
  then show ?case
  proof cases
    case 1
    then have "hired per pool free (w # ws) = []" by (simp add: hired_step)
    then show ?thesis using 1 w by (simp add: hiring_full_def)
  next
    case 2
    then have "hired per pool free (w # ws) = []" by (auto simp: hired_step Let_def s_def [symmetric])
    then show ?thesis using 2 w short assms(1) by (simp add: hiring_full_def)
  next
    case 3
    then have "hired per pool free (w # ws) = [s]" by (simp add: hired_step Let_def s_def [symmetric])
    then show ?thesis using 3 w p short by (simp add: hiring_full_def algebra_simps)
  next
    case 4
    define t where "t = hired per (pool - 1) (free - s * w) ws"
    define k where "k = length t"
    have h: "hired per pool free (w # ws) = s # t"
      using 4 assms(1) by (simp add: hired_step Let_def s_def [symmetric] t_def)
    have IH: "hiring_full per (pool - 1) (free - s * w) ws k (sum_list t) (pay_of t ws)"
      using Cons.IH [of "free - s * w" "pool - 1"] w(2) p(2) by (simp add: t_def k_def)
    have e: "int (Suc k) * per - (s + sum_list t) = int k * per - sum_list t" using 4 by (simp add: algebra_simps)
    have last: "(int k * per - sum_list t) * (w # ws) ! k = (int k * per - sum_list t) * (if k = 0 then 0 else ws ! (k - 1))"
      by (cases k) (simp_all add: k_def)
    have "hiring_full per pool free (w # ws) (Suc k) (s + sum_list t) (s * w + pay_of t ws)"
      unfolding hiring_full_def
    proof (intro conjI impI)
      show "Suc k \<le> pool" "Suc k \<le> length (w # ws)" "s + sum_list t \<le> int (Suc k) * per"
        using IH 4 by (auto simp: hiring_full_def algebra_simps)
      show "(int (Suc k) - 1) * per < s + sum_list t"
      proof (cases k)
        case 0
        then show ?thesis using assms(1) 4 by (simp add: k_def)
      next
        case (Suc m)
        then show ?thesis using IH 4 by (auto simp: hiring_full_def algebra_simps)
      qed
      show "0 \<le> s * w + pay_of t ws" "s * w + pay_of t ws \<le> free" using IH p by (auto simp: hiring_full_def)
      show "s * w + pay_of t ws + (int (Suc k) * per - (s + sum_list t)) * (if Suc k = 0 then 0 else (w # ws) ! (Suc k - 1)) =
          per * sum_list (take (Suc k) (w # ws))"
      proof -
        have "pay_of t ws + (int k * per - sum_list t) * (w # ws) ! k = per * sum_list (take k ws)"
          using IH unfolding last hiring_full_def by blast
        then show ?thesis unfolding e using 4 by (simp add: distrib_left)
      qed
      show "Suc k = pool \<or> Suc k = length (w # ws) \<and> s + sum_list t = int (Suc k) * per \<or>
          free - (s * w + pay_of t ws) < (if s + sum_list t < int (Suc k) * per then (w # ws) ! (Suc k - 1) else (w # ws) ! Suc k)"
      proof -
        have lt: "s + sum_list t < int (Suc k) * per \<longleftrightarrow> sum_list t < int k * per" "s + sum_list t = int (Suc k) * per \<longleftrightarrow> sum_list t = int k * per"
          using e by linarith+
        have nth: "(w # ws) ! k = ws ! (k - 1)" if "sum_list t < int k * per" using that by (cases k) (simp_all add: k_def)
        show ?thesis using IH 4 nth unfolding hiring_full_def lt by (auto split: if_splits)
      qed
    qed
    then show ?thesis by (simp add: h k_def)
  qed
qed

section \<open>The properties\<close>

text \<open>
  C28. Citizen labour. For usable rules and vacancies, free money and a pool within range, \<open>PlanCitizens\<close>
  returns a plan that costs at most the free money and lends at most the pool; everyone hired works the full
  shifts of the period except perhaps the last; the wages are exactly the hired shifts at their openings'
  wages, in the order given; and hiring stops only when the pool is out, every position is taken, or the
  money left does not pay the next shift.
\<close>

theorem PlanCitizens_exact:
  assumes "CitizenRules_Validate r = None" "0 \<le> presence" "presence \<le> CoWhole" "0 \<le> pool" "pool \<le> MaxInt64" "vacancies_ok vs"
    "0 \<le> Minor free" "Minor free \<le> MaxInt64" "ctr_ShiftsPerPeriod r * CoWhole \<le> MaxInt64" "0 < citizen_shifts r presence"
  shows "\<exists>p. PlanCitizens vs r presence pool free = Inr p \<and> 0 \<le> cpn_Workers p \<and>
    hiring_full (citizen_shifts r presence) (nat pool) (Minor free) (paid_positions vs) (nat (cpn_Workers p)) (cpn_Shifts p) (Minor (cpn_Wages p))"
proof -
  define ws where "ws = paid_positions vs"
  define ss where "ss = hired (citizen_shifts r presence) (nat pool) (Minor free) ws"
  have pos: "\<forall>w\<in>set ws. 0 < w" using paid_positions_pos [OF assms(6)] by (simp add: ws_def)
  have full: "hiring_full (citizen_shifts r presence) (nat pool) (Minor free) ws (length ss) (sum_list ss) (pay_of ss ws)"
    unfolding ss_def by (rule hired_full [OF assms(10) pos assms(7)])
  have run: "PlanCitizens vs r presence pool free = Inr (if ss = [] then no_plan else plan_finish r (plan_with no_plan ss ws))"
    using PlanCitizens_hired [OF assms(1-9)] assms(10) by (simp add: ss_def ws_def)
  show ?thesis
    using full unfolding run by (auto simp: ws_def [symmetric] no_plan_def plan_finish_def plan_with_def)
qed

definition demo_vacancies :: "vacancy list" where
  "demo_vacancies = [\<lparr>vac_Positions = 2, vac_Wage = FromMinor 100\<rparr>, \<lparr>vac_Positions = 1, vac_Wage = FromMinor 0\<rparr>, \<lparr>vac_Positions = 3, vac_Wage = FromMinor 70\<rparr>]"

theorem PlanCitizens_exact_witness:
  "PlanCitizens demo_vacancies \<lparr>ctr_ShiftsPerPeriod = 8, ctr_ProductivityBPS = 6000\<rparr> 5000 10 (FromMinor 1200) =
     Inr \<lparr>cpn_Workers = 4, cpn_Shifts = 13, cpn_Effective = 7, cpn_Wages = FromMinor 1150\<rparr>
   \<and> hiring_full 4 10 1200 [100, 100, 70, 70, 70] 4 13 1150"
proof -
  have r: "PlanCitizens demo_vacancies \<lparr>ctr_ShiftsPerPeriod = 8, ctr_ProductivityBPS = 6000\<rparr> 5000 10 (FromMinor 1200) =
     Inr \<lparr>cpn_Workers = 4, cpn_Shifts = 13, cpn_Effective = 7, cpn_Wages = FromMinor 1150\<rparr>" by code_simp
  have "citizen_shifts \<lparr>ctr_ShiftsPerPeriod = 8, ctr_ProductivityBPS = 6000\<rparr> 5000 = 4" "paid_positions demo_vacancies = [100, 100, 70, 70, 70]"
    "CitizenRules_Validate \<lparr>ctr_ShiftsPerPeriod = 8, ctr_ProductivityBPS = 6000\<rparr> = None" "vacancies_ok demo_vacancies"
    by (simp_all add: citizen_shifts_def demo_vacancies_def numeral_2_eq_2 numeral_3_eq_3 CitizenRules_Validate_def vacancies_ok_def)
  then show ?thesis
    using PlanCitizens_exact [of "\<lparr>ctr_ShiftsPerPeriod = 8, ctr_ProductivityBPS = 6000\<rparr>" 5000 10 demo_vacancies "FromMinor 1200"] r by simp
qed

text \<open>
  C23. What leaves a company. A withdrawal is granted exactly when it is positive, nothing is owed, the rate is
  one, and the balance still covers every promised wage after it; the gross is then the net and the tax to the
  unit. The upkeep pays what is due as far as the money that is not promised goes, and what it does not pay is owed.
\<close>

theorem books_outflows_exact:
  assumes "books_ok b" "0 \<le> Minor u" "Minor u + Minor (bk_Debt b) \<le> MaxInt64" "0 \<le> arrears" "arrears < MaxInt64"
  shows "(\<exists>w. company_Withdraw b a t = Inr w) =
      (0 < Minor a \<and> Minor (bk_Debt b) = 0 \<and> 0 \<le> t \<and> t \<le> CoWhole \<and> Minor (bk_Reserved b) \<le> Minor (bk_Balance b) - Minor a) \<and>
    (case company_Withdraw b a t of Inl _ \<Rightarrow> True
     | Inr w \<Rightarrow> wd_Gross w = a \<and> Minor a = Minor (wd_Net w) + Minor (wd_Tax w) \<and> 0 \<le> Minor (wd_Net w) \<and> 0 \<le> Minor (wd_Tax w)) \<and>
    (case ChargeUpkeep b u arrears grace of Inl _ \<Rightarrow> False
     | Inr k \<Rightarrow> Minor (uk_Paid k) = min (Minor u + Minor (bk_Debt b)) (max 0 (Minor (bk_Balance b) - Minor (bk_Reserved b))) \<and>
         Minor (uk_Paid k) + Minor (uk_Debt k) = Minor u + Minor (bk_Debt b) \<and>
         uk_Arrears k = (if Minor (uk_Debt k) = 0 then 0 else arrears + 1) \<and> uk_Insolvent k = (max grace 1 \<le> uk_Arrears k))"
proof (intro conjI)
  show "(\<exists>w. company_Withdraw b a t = Inr w) =
      (0 < Minor a \<and> Minor (bk_Debt b) = 0 \<and> 0 \<le> t \<and> t \<le> CoWhole \<and> Minor (bk_Reserved b) \<le> Minor (bk_Balance b) - Minor a)"
    by (auto simp: company_Withdraw_iff [OF assms(1)])
  show "case company_Withdraw b a t of Inl _ \<Rightarrow> True
     | Inr w \<Rightarrow> wd_Gross w = a \<and> Minor a = Minor (wd_Net w) + Minor (wd_Tax w) \<and> 0 \<le> Minor (wd_Net w) \<and> 0 \<le> Minor (wd_Tax w)"
  proof (cases "company_Withdraw b a t")
    case (Inr w)
    then have "0 < Minor a" "0 \<le> t" "t \<le> CoWhole" "w = company_split_of a t" by (simp_all add: company_Withdraw_iff [OF assms(1)])
    then show ?thesis using company_split_of [of a t] Inr by (simp add: company_split_of_def)
  qed simp
  show "case ChargeUpkeep b u arrears grace of Inl _ \<Rightarrow> False
     | Inr k \<Rightarrow> Minor (uk_Paid k) = min (Minor u + Minor (bk_Debt b)) (max 0 (Minor (bk_Balance b) - Minor (bk_Reserved b))) \<and>
         Minor (uk_Paid k) + Minor (uk_Debt k) = Minor u + Minor (bk_Debt b) \<and>
         uk_Arrears k = (if Minor (uk_Debt k) = 0 then 0 else arrears + 1) \<and> uk_Insolvent k = (max grace 1 \<le> uk_Arrears k)"
    using assms(4) by (auto simp: ChargeUpkeep_eq [OF assms(1-3,5)] Let_def Available_eq [OF assms(1)] max_def min_def)
qed

theorem books_outflows_exact_witness:
  "company_Withdraw \<lparr>bk_Balance = FromMinor 1000, bk_Reserved = FromMinor 300, bk_Debt = FromMinor 0\<rparr> (FromMinor 700) 1250 =
     Inr \<lparr>wd_Gross = FromMinor 700, wd_Tax = FromMinor 87, wd_Net = FromMinor 613\<rparr>
   \<and> (case ChargeUpkeep \<lparr>bk_Balance = FromMinor 1000, bk_Reserved = FromMinor 300, bk_Debt = FromMinor 0\<rparr> (FromMinor 950) 2 3 of
        Inl _ \<Rightarrow> False | Inr k \<Rightarrow> Minor (uk_Paid k) = 700 \<and> Minor (uk_Paid k) + Minor (uk_Debt k) = 950)"
proof -
  let ?b = "\<lparr>bk_Balance = FromMinor 1000, bk_Reserved = FromMinor 300, bk_Debt = FromMinor 0\<rparr>"
  have "books_ok ?b" by (simp add: books_ok_def)
  from books_outflows_exact [OF this, of "FromMinor 950" 2 "FromMinor 700" 1250 3]
  have "case ChargeUpkeep ?b (FromMinor 950) 2 3 of Inl _ \<Rightarrow> False | Inr k \<Rightarrow> Minor (uk_Paid k) = 700 \<and> Minor (uk_Paid k) + Minor (uk_Debt k) = 950"
    by (simp split: sum.splits)
  moreover have "company_Withdraw ?b (FromMinor 700) 1250 = Inr \<lparr>wd_Gross = FromMinor 700, wd_Tax = FromMinor 87, wd_Net = FromMinor 613\<rparr>"
    by code_simp
  ultimately show ?thesis by simp
qed

end
