(* ===== verification/Company_Market.thy ===== *)
theory Company_Market
  imports Company
begin

text \<open>
  \<^verbatim>\<open>internal/domain/company/market.go\<close>: how a city's population spends one period among the companies that
  compete for it. \<open>company_Settle\<close> is the function with its loops: the sellers grouped by category, the weights, what each
  is wanted for, can serve and sells, what the companies ask and, when that is more than the budget, the
  scaling. A Go map with the demand by category is a list of its entries, one per key. The lemmas show that every
  figure of the settlement is the formula the file documents, with no step that wraps, that the population
  never pays more than its budget or than it was asked, and how far what is wanted in a category is bounded.
\<close>

section \<open>Data\<close>

record company_market =
  mk_Population :: int
  mk_WealthBPS :: int
  mk_BudgetPerThousand :: int
  mk_Cap :: amount
  mk_Demand :: "(string \<times> int) list"

record seller =
  sl_ID :: string
  sl_Type :: company_type
  sl_PriceBPS :: int
  sl_Shifts :: int
  sl_PresenceBPS :: int
  sl_Stocked :: bool
  sl_Stock :: int

record sale =
  sa_ID :: string
  sa_QualityBPS :: int
  sa_Wanted :: int
  sa_Capacity :: int
  sa_Sold :: int
  sa_Revenue :: amount

record settlement =
  mst_Sales :: "sale list"
  mst_Budget :: amount
  mst_Asked :: amount
  mst_Paid :: amount
  mst_Unmet :: "(string \<times> int) list"

definition co_bind :: "company_error + 'a \<Rightarrow> ('a \<Rightarrow> company_error + 'b) \<Rightarrow> company_error + 'b" where
  "co_bind r f = (case r of Inl e \<Rightarrow> Inl e | Inr a \<Rightarrow> f a)"

lemma co_bind_Inr: "co_bind r f = Inr b \<longleftrightarrow> (\<exists>a. r = Inr a \<and> f a = Inr b)"
  by (cases r) (simp_all add: co_bind_def)

lemma co_bind_InrE:
  assumes "co_bind r f = Inr b"
  obtains a where "r = Inr a" "f a = Inr b"
  using assms by (auto simp: co_bind_Inr)

definition demand_of :: "company_market \<Rightarrow> string \<Rightarrow> int" where
  "demand_of m c = (case map_of (mk_Demand m) c of None \<Rightarrow> 0 | Some v \<Rightarrow> v)"

definition Market_Validate :: "company_market \<Rightarrow> company_error option" where
  "Market_Validate m =
     (if mk_Population m < 0 \<or> mk_Population m > 1000000000 then Some CoErrInvalidMarket
      else if mk_WealthBPS m < 0 \<or> mk_WealthBPS m > 10 * CoWhole then Some CoErrInvalidMarket
      else if mk_BudgetPerThousand m < 0 \<or> mk_BudgetPerThousand m > MaxFee then Some CoErrInvalidMarket
      else if Amount_IsNegative (mk_Cap m) then Some CoErrInvalidMarket
      else if \<exists>(c, v)\<in>set (mk_Demand m). v < 0 \<or> v > MaxUnits then Some CoErrInvalidMarket
      else None)"

abbreviation maxVolumeBPS :: int where "maxVolumeBPS \<equiv> 3 * CoWhole"

definition Quality :: "company_type \<Rightarrow> int \<Rightarrow> int" where
  "Quality t shifts =
     (let target = max (cty_StaffTarget t) 1; s = min (max shifts 0) target in
      add64 (cty_MinQualityBPS t) (quo64 (mul64 (sub64 CoWhole (cty_MinQualityBPS t)) s) target))"

definition Volume :: "company_type \<Rightarrow> int \<Rightarrow> int" where
  "Volume t priceBPS =
     (let v = sub64 CoWhole (quo64 (mul64 (cty_ElasticityBPS t) (sub64 priceBPS CoWhole)) CoWhole) in min (max v 0) maxVolumeBPS)"

section \<open>Settle\<close>

fun check_sellers :: "seller list \<Rightarrow> company_error option" where
  "check_sellers [] = None"
| "check_sellers (s # ss) =
     (case Type_Validate (sl_Type s) of Some e \<Rightarrow> Some e
      | None \<Rightarrow>
          (case CheckPrice (sl_Type s) (sl_PriceBPS s) of Some e \<Rightarrow> Some e
           | None \<Rightarrow>
               if sl_Shifts s < 0 \<or> sl_PresenceBPS s < 0 \<or> sl_PresenceBPS s > CoWhole \<or> sl_Stock s < 0 then Some CoErrInvalidAmount
               else check_sellers ss))"

definition perThousand :: "company_market \<Rightarrow> int \<Rightarrow> company_error + int" where
  "perThousand m v = co_bind (company_mulDiv (mk_Population m) v 1000) (\<lambda>x. company_mulDiv x (mk_WealthBPS m) CoWhole)"

definition byCategory :: "seller list \<Rightarrow> string \<Rightarrow> nat list" where
  "byCategory sellers c = filter (\<lambda>i. cty_Category (sl_Type (sellers ! i)) = c) [0..<length sellers]"

definition market_categories :: "company_market \<Rightarrow> seller list \<Rightarrow> string list" where
  "market_categories m sellers =
     sort (map fst (mk_Demand m) @
           filter (\<lambda>c. map_of (mk_Demand m) c = None) (remdups (map (\<lambda>s. cty_Category (sl_Type s)) sellers)))"

definition no_sale :: sale where
  "no_sale = \<lparr>sa_ID = '''', sa_QualityBPS = 0, sa_Wanted = 0, sa_Capacity = 0, sa_Sold = 0, sa_Revenue = FromMinor 0\<rparr>"

text \<open>The first loop over a category: the weights, their total, and the sales begun.\<close>

fun weigh :: "seller list \<Rightarrow> nat list \<Rightarrow> int list \<Rightarrow> int \<Rightarrow> sale list \<Rightarrow> company_error + int list \<times> int \<times> sale list" where
  "weigh sellers [] weights tot sales = Inr (weights, tot, sales)"
| "weigh sellers (i # idx) weights tot sales =
     (let s = sellers ! i; q = Quality (sl_Type s) (sl_Shifts s) in
      co_bind (company_mulDiv q (Volume (sl_Type s) (sl_PriceBPS s)) CoWhole) (\<lambda>w.
      weigh sellers idx (weights @ [w]) (add64 tot w) (sales[i := no_sale\<lparr>sa_ID := sl_ID s, sa_QualityBPS := q\<rparr>])))"

text \<open>The second loop: \<open>sold\<close>, \<open>asked\<close>, the revenues and the sales.\<close>

fun serve :: "seller list \<Rightarrow> int \<Rightarrow> int \<Rightarrow> (nat \<times> int) list \<Rightarrow> int \<Rightarrow> int \<Rightarrow> int list \<Rightarrow> sale list \<Rightarrow>
    company_error + int \<times> int \<times> int list \<times> sale list" where
  "serve sellers demand tot [] sold asked revenue sales = Inr (sold, asked, revenue, sales)"
| "serve sellers demand tot ((i, weight) # rest) sold asked revenue sales =
     (let s = sellers ! i; t = sl_Type s in
      co_bind (if tot > 0
               then co_bind (company_mulDiv demand weight tot) (\<lambda>share. company_mulDiv share (Volume t (sl_PriceBPS s)) CoWhole)
               else Inr 0) (\<lambda>wanted.
      co_bind (company_mulDiv (cty_BaseUnits t) (sl_PresenceBPS s) CoWhole) (\<lambda>base.
      co_bind (company_mulDiv (cty_UnitsPerShift t) (sl_Shifts s) 1) (\<lambda>staffed.
      let capacity = (if sl_Stocked s then min (add64 base staffed) (sl_Stock s) else add64 base staffed);
          units = min wanted capacity in
      co_bind (company_mulDiv units (Minor (cty_UnitPrice t)) 1) (\<lambda>worth.
      co_bind (company_mulDiv worth (sl_PriceBPS s) CoWhole) (\<lambda>r.
      let asked' = add64 asked r in
      if asked' < 0 then Inl (CoErrMoney ErrOverflow)
      else serve sellers demand tot rest (add64 sold units) asked' (revenue[i := r])
             (sales[i := (sales ! i)\<lparr>sa_Wanted := wanted, sa_Capacity := capacity, sa_Sold := units\<rparr>])))))))"

fun settle_categories :: "company_market \<Rightarrow> seller list \<Rightarrow> string list \<Rightarrow> int \<Rightarrow> int list \<Rightarrow> sale list \<Rightarrow> (string \<times> int) list \<Rightarrow>
    company_error + int \<times> int list \<times> sale list \<times> (string \<times> int) list" where
  "settle_categories m sellers [] asked revenue sales unmet = Inr (asked, revenue, sales, unmet)"
| "settle_categories m sellers (c # cs) asked revenue sales unmet =
     co_bind (perThousand m (demand_of m c)) (\<lambda>demand.
     let idx = byCategory sellers c in
     co_bind (weigh sellers idx [] 0 sales) (\<lambda>(weights, tot, sales').
     co_bind (serve sellers demand tot (zip idx weights) 0 asked revenue sales') (\<lambda>(sold, asked', revenue', sales'').
     settle_categories m sellers cs asked' revenue' sales''
       (if sub64 demand sold > 0 then unmet @ [(c, sub64 demand sold)] else unmet))))"

fun pay_sellers :: "int \<Rightarrow> int \<Rightarrow> int list \<Rightarrow> nat \<Rightarrow> int \<Rightarrow> sale list \<Rightarrow> company_error + int \<times> sale list" where
  "pay_sellers budget asked [] i paid sales = Inr (paid, sales)"
| "pay_sellers budget asked (r # rs) i paid sales =
     co_bind (if asked > budget then company_mulDiv r budget asked else Inr r) (\<lambda>r'.
     pay_sellers budget asked rs (Suc i) (add64 paid r') (sales[i := (sales ! i)\<lparr>sa_Revenue := FromMinor r'\<rparr>]))"

definition company_Settle :: "company_market \<Rightarrow> seller list \<Rightarrow> company_error + settlement" where
  "company_Settle m sellers =
     (case Market_Validate m of Some e \<Rightarrow> Inl e
      | None \<Rightarrow>
          (case check_sellers sellers of Some e \<Rightarrow> Inl e
           | None \<Rightarrow>
               co_bind (perThousand m (mk_BudgetPerThousand m)) (\<lambda>b.
               let budget = (if \<not> Amount_IsZero (mk_Cap m) \<and> Minor (mk_Cap m) < b then Minor (mk_Cap m) else b) in
               co_bind (settle_categories m sellers (market_categories m sellers) 0 (replicate (length sellers) 0)
                          (replicate (length sellers) no_sale) []) (\<lambda>(asked, revenue, sales, unmet).
               co_bind (pay_sellers budget asked revenue 0 0 sales) (\<lambda>(paid, sales').
               Inr \<lparr>mst_Sales = sales', mst_Budget = FromMinor budget, mst_Asked = FromMinor asked, mst_Paid = FromMinor paid, mst_Unmet = unmet\<rparr>)))))"

section \<open>The formulas\<close>

definition seller_ok :: "seller \<Rightarrow> bool" where
  "seller_ok s \<longleftrightarrow> Type_Validate (sl_Type s) = None \<and> MinPriceBPS \<le> sl_PriceBPS s \<and> sl_PriceBPS s \<le> MaxPriceBPS \<and> 0 \<le> sl_Shifts s \<and>
     0 \<le> sl_PresenceBPS s \<and> sl_PresenceBPS s \<le> CoWhole \<and> 0 \<le> sl_Stock s"

definition seller_quality :: "seller \<Rightarrow> int" where
  "seller_quality s = (let t = sl_Type s in
     cty_MinQualityBPS t + (CoWhole - cty_MinQualityBPS t) * min (sl_Shifts s) (cty_StaffTarget t) div cty_StaffTarget t)"

definition seller_volume :: "seller \<Rightarrow> int" where
  "seller_volume s = Volume (sl_Type s) (sl_PriceBPS s)"

definition seller_weight :: "seller \<Rightarrow> int" where
  "seller_weight s = seller_quality s * seller_volume s div CoWhole"

definition market_demand :: "company_market \<Rightarrow> int \<Rightarrow> int" where
  "market_demand m v = (mk_Population m * v div 1000) * mk_WealthBPS m div CoWhole"

definition want_units :: "int \<Rightarrow> int \<Rightarrow> seller \<Rightarrow> int" where
  "want_units D T s = (if T > 0 then (D * seller_weight s div T) * seller_volume s div CoWhole else 0)"

definition capacity_of :: "seller \<Rightarrow> int" where
  "capacity_of s = (let t = sl_Type s; u = cty_BaseUnits t * sl_PresenceBPS s div CoWhole + cty_UnitsPerShift t * sl_Shifts s in
     if sl_Stocked s then min u (sl_Stock s) else u)"

definition sale_units :: "int \<Rightarrow> int \<Rightarrow> seller \<Rightarrow> int" where
  "sale_units D T s = min (want_units D T s) (capacity_of s)"

definition ask_units :: "int \<Rightarrow> int \<Rightarrow> seller \<Rightarrow> int" where
  "ask_units D T s = (sale_units D T s * Minor (cty_UnitPrice (sl_Type s))) * sl_PriceBPS s div CoWhole"

lemma check_sellers_ok: "check_sellers ss = None \<Longrightarrow> s \<in> set ss \<Longrightarrow> seller_ok s"
proof (induction ss)
  case (Cons x ss)
  then have "check_sellers ss = None" "Type_Validate (sl_Type x) = None" "CheckPrice (sl_Type x) (sl_PriceBPS x) = None"
    "\<not> (sl_Shifts x < 0 \<or> sl_PresenceBPS x < 0 \<or> sl_PresenceBPS x > CoWhole \<or> sl_Stock x < 0)"
    by (auto split: option.splits if_splits)
  then have "seller_ok x" using Type_ValidateD(15,16) [of "sl_Type x"] by (auto simp: seller_ok_def CheckPrice_def split: if_splits)
  with Cons show ?case using \<open>check_sellers ss = None\<close> by auto
qed simp

lemma Quality_eq:
  assumes "seller_ok s"
  shows "Quality (sl_Type s) (sl_Shifts s) = seller_quality s" "0 \<le> seller_quality s" "seller_quality s \<le> CoWhole"
proof -
  define t where "t = sl_Type s"
  define k where "k = min (sl_Shifts s) (cty_StaffTarget t)"
  define d where "d = CoWhole - cty_MinQualityBPS t"
  have T: "1 \<le> cty_StaffTarget t" "cty_StaffTarget t \<le> 100000" "0 \<le> cty_MinQualityBPS t" "cty_MinQualityBPS t \<le> CoWhole" "0 \<le> sl_Shifts s"
    using assms Type_ValidateD(11-14) [of t] by (simp_all add: seller_ok_def t_def)
  have k: "0 \<le> k" "k \<le> cty_StaffTarget t" and d: "0 \<le> d" "d \<le> CoWhole" using T by (simp_all add: k_def d_def)
  have dk: "0 \<le> d * k" "d * k \<le> CoWhole * 100000"
    using k d T mult_mono [of d CoWhole k 100000] by simp_all
  have e: "max (cty_StaffTarget t) 1 = cty_StaffTarget t" "max (sl_Shifts s) 0 = sl_Shifts s" using T by (simp_all add: max_def)
  have "sub64 CoWhole (cty_MinQualityBPS t) = d" using T by (simp add: sub64_def wrap64_nonneg d_def)
  moreover have "mul64 d k = d * k" using dk by (simp add: mul64_def wrap64_nonneg)
  moreover have "quo64 (d * k) (cty_StaffTarget t) = d * k div cty_StaffTarget t" using dk T by (intro quo64_nonneg) simp_all
  moreover have q: "0 \<le> d * k div cty_StaffTarget t" "d * k div cty_StaffTarget t \<le> d"
  proof -
    show "0 \<le> d * k div cty_StaffTarget t" using dk T by (simp add: pos_imp_zdiv_nonneg_iff)
    have "d * k \<le> d * cty_StaffTarget t" using k d by (intro mult_left_mono) simp_all
    also have "\<dots> < (d + 1) * cty_StaffTarget t" using T by (simp add: distrib_right)
    finally show "d * k div cty_StaffTarget t \<le> d" using T by (simp add: div_le_iff_int)
  qed
  moreover have "add64 (cty_MinQualityBPS t) (d * k div cty_StaffTarget t) = cty_MinQualityBPS t + d * k div cty_StaffTarget t"
    using q T by (simp add: add64_def wrap64_nonneg d_def)
  ultimately show "Quality (sl_Type s) (sl_Shifts s) = seller_quality s"
    by (simp add: Quality_def seller_quality_def Let_def t_def [symmetric] e k_def [symmetric] d_def [symmetric])
  show "0 \<le> seller_quality s" "seller_quality s \<le> CoWhole"
    using q T by (simp_all add: seller_quality_def Let_def t_def [symmetric] k_def [symmetric] d_def [symmetric]) (simp add: d_def)
qed

lemma seller_volume_range: "0 \<le> seller_volume s" "seller_volume s \<le> maxVolumeBPS"
  by (simp_all add: seller_volume_def Volume_def Let_def)

text \<open>At the reference price or above it a company is never wanted for more than its share of the demand.\<close>

lemma seller_volume_dear:
  assumes "seller_ok s" "CoWhole \<le> sl_PriceBPS s"
  shows "seller_volume s \<le> CoWhole"
proof -
  define e where "e = cty_ElasticityBPS (sl_Type s)"
  define d where "d = sl_PriceBPS s - CoWhole"
  have r: "0 \<le> e" "e \<le> 100000" "0 \<le> d" "d \<le> 100000"
    using assms Type_ValidateD(17,18) [of "sl_Type s"] by (simp_all add: e_def d_def seller_ok_def)
  have ed: "0 \<le> e * d" "e * d \<le> 100000 * 100000" using r mult_mono [of e 100000 d 100000] by simp_all
  have q: "0 \<le> e * d div CoWhole" "e * d div CoWhole \<le> 1000000" using ed by (simp_all add: pos_imp_zdiv_nonneg_iff div_le_iff_int)
  have "sub64 (sl_PriceBPS s) CoWhole = d" using r by (simp add: sub64_def wrap64_nonneg d_def)
  moreover have "mul64 e d = e * d" using ed by (simp add: mul64_def wrap64_nonneg)
  moreover have "quo64 (e * d) CoWhole = e * d div CoWhole" using ed by (intro quo64_nonneg) simp_all
  moreover have "sub64 CoWhole (e * d div CoWhole) = CoWhole - e * d div CoWhole"
    using q by (intro sub64_exact) (simp add: in64_def)
  ultimately show ?thesis using q by (simp add: seller_volume_def Volume_def Let_def e_def [symmetric])
qed

lemma seller_weight_range:
  assumes "seller_ok s"
  shows "company_mulDiv (Quality (sl_Type s) (sl_Shifts s)) (Volume (sl_Type s) (sl_PriceBPS s)) CoWhole = Inr (seller_weight s)"
    "0 \<le> seller_weight s" "seller_weight s \<le> maxVolumeBPS"
proof -
  note q = Quality_eq [OF assms] and v = seller_volume_range [of s]
  have "seller_quality s * seller_volume s \<le> CoWhole * maxVolumeBPS" using q v by (intro mult_mono) simp_all
  then show le: "seller_weight s \<le> maxVolumeBPS" by (simp add: seller_weight_def div_le_iff_int)
  show "0 \<le> seller_weight s" using q v by (simp add: seller_weight_def pos_imp_zdiv_nonneg_iff)
  show "company_mulDiv (Quality (sl_Type s) (sl_Shifts s)) (Volume (sl_Type s) (sl_PriceBPS s)) CoWhole = Inr (seller_weight s)"
    using q v le by (simp add: company_mulDiv_eq seller_weight_def seller_volume_def)
qed

lemma add64_nonneg_exact:
  assumes "0 \<le> a" "a \<le> MaxInt64" "0 \<le> b" "b \<le> MaxInt64" "0 \<le> add64 a b"
  shows "add64 a b = a + b" "a + b \<le> MaxInt64"
proof -
  show le: "a + b \<le> MaxInt64"
  proof (rule ccontr)
    assume "\<not> a + b \<le> MaxInt64"
    then have big: "18446744073709551616 \<le> a + b + 9223372036854775808" by simp
    have "(a + b + 9223372036854775808) mod 18446744073709551616 = (a + b + 9223372036854775808 - 18446744073709551616) mod 18446744073709551616"
      using big by (rule mod_pos_geq [rotated]) simp
    also have "\<dots> = a + b + 9223372036854775808 - 18446744073709551616"
      using assms(2,4) big by (intro mod_pos_pos_trivial) linarith+
    finally have "add64 a b = a + b - 18446744073709551616" by (simp add: add64_def wrap64_def)
    then have "add64 a b < 0" using assms(2,4) by linarith
    with assms(5) show False by simp
  qed
  show "add64 a b = a + b" using le assms by (simp add: add64_def wrap64_nonneg)
qed

section \<open>The loops compute the formulas\<close>

definition begun :: "seller \<Rightarrow> sale" where
  "begun s = no_sale\<lparr>sa_ID := sl_ID s, sa_QualityBPS := seller_quality s\<rparr>"

definition served :: "int \<Rightarrow> int \<Rightarrow> seller \<Rightarrow> sale \<Rightarrow> sale" where
  "served D T s x = x\<lparr>sa_Wanted := want_units D T s, sa_Capacity := capacity_of s, sa_Sold := sale_units D T s\<rparr>"

lemma weigh_run:
  assumes "\<forall>i\<in>set idx. i < length sellers \<and> seller_ok (sellers ! i)" "length sales = length sellers"
    and "0 \<le> T" "T + (\<Sum>i\<leftarrow>idx. seller_weight (sellers ! i)) \<le> MaxInt64"
  shows "\<exists>sales'. weigh sellers idx ws T sales =
      Inr (ws @ map (\<lambda>i. seller_weight (sellers ! i)) idx, T + (\<Sum>i\<leftarrow>idx. seller_weight (sellers ! i)), sales') \<and>
    length sales' = length sellers \<and> (\<forall>j<length sellers. sales' ! j = (if j \<in> set idx then begun (sellers ! j) else sales ! j))"
  using assms
proof (induction idx arbitrary: ws T sales)
  case Nil
  then show ?case by simp
next
  case (Cons i idx)
  have ok: "i < length sellers" "seller_ok (sellers ! i)" using Cons.prems(1) by simp_all
  note w = seller_weight_range [OF ok(2)]
  have nn: "0 \<le> (\<Sum>i\<leftarrow>idx. seller_weight (sellers ! i))"
    by (rule sum_list_nonneg) (use Cons.prems(1) seller_weight_range(2) in auto)
  then have add: "add64 T (seller_weight (sellers ! i)) = T + seller_weight (sellers ! i)"
    using Cons.prems(3,4) w by (simp add: add64_def wrap64_nonneg)
  define sales1 where "sales1 = sales[i := begun (sellers ! i)]"
  have step: "weigh sellers (i # idx) ws T sales = weigh sellers idx (ws @ [seller_weight (sellers ! i)]) (T + seller_weight (sellers ! i)) sales1"
    using w(1) Quality_eq(1) [OF ok(2)] by (simp add: Let_def co_bind_def add sales1_def begun_def)
  have l: "length sales1 = length sellers" using Cons.prems(2) by (simp add: sales1_def)
  obtain sales' where r: "weigh sellers idx (ws @ [seller_weight (sellers ! i)]) (T + seller_weight (sellers ! i)) sales1 =
      Inr ((ws @ [seller_weight (sellers ! i)]) @ map (\<lambda>i. seller_weight (sellers ! i)) idx,
           T + seller_weight (sellers ! i) + (\<Sum>i\<leftarrow>idx. seller_weight (sellers ! i)), sales')"
    "length sales' = length sellers" "\<forall>j<length sellers. sales' ! j = (if j \<in> set idx then begun (sellers ! j) else sales1 ! j)"
    using Cons.IH [of sales1 "T + seller_weight (sellers ! i)" "ws @ [seller_weight (sellers ! i)]"] Cons.prems l w(2) nn
    by (auto simp: add.assoc)
  show ?case
  proof (intro exI [of _ sales'] conjI allI impI)
    show "weigh sellers (i # idx) ws T sales =
        Inr (ws @ map (\<lambda>i. seller_weight (sellers ! i)) (i # idx), T + (\<Sum>i\<leftarrow>i # idx. seller_weight (sellers ! i)), sales')"
      using r(1) unfolding step by (simp add: add.assoc)
    fix j assume "j < length sellers"
    then show "sales' ! j = (if j \<in> set (i # idx) then begun (sellers ! j) else sales ! j)"
      using r(3) ok(1) Cons.prems(2) by (auto simp: sales1_def nth_list_update)
  qed (rule r(2))
qed

lemma company_mulDiv_InrD:
  assumes "company_mulDiv a b c = Inr q"
  shows "0 \<le> a" "0 \<le> b" "0 < c" "q = a * b div c" "0 \<le> q" "q \<le> MaxInt64"
  using assms co.md_nonneg [of a b c q] by (auto simp: company_mulDiv_Inr co.md_Some_iff)

text \<open>One seller served, when the code goes on: every figure is the formula.\<close>

lemma serve_step:
  assumes "serve sellers D T ((i, seller_weight (sellers ! i)) # rest) sold asked revenue sales = Inr out"
    and "seller_ok (sellers ! i)" "0 \<le> asked" "asked \<le> MaxInt64" "0 \<le> D"
  defines "s \<equiv> sellers ! i"
  shows "0 \<le> sale_units D T s" "0 \<le> ask_units D T s" "asked + ask_units D T s \<le> MaxInt64"
    "serve sellers D T rest (add64 sold (sale_units D T s)) (asked + ask_units D T s) (revenue[i := ask_units D T s])
       (sales[i := served D T s (sales ! i)]) = Inr out"
proof -
  define cap where "cap base staffed = (if sl_Stocked s then min (add64 base staffed) (sl_Stock s) else add64 base staffed)" for base staffed
  define go where "go wanted base staffed =
     co_bind (company_mulDiv (min wanted (cap base staffed)) (Minor (cty_UnitPrice (sl_Type s))) 1) (\<lambda>worth.
     co_bind (company_mulDiv worth (sl_PriceBPS s) CoWhole) (\<lambda>r.
     if add64 asked r < 0 then Inl (CoErrMoney ErrOverflow)
     else serve sellers D T rest (add64 sold (min wanted (cap base staffed))) (add64 asked r) (revenue[i := r])
       (sales[i := (sales ! i)\<lparr>sa_Wanted := wanted, sa_Capacity := cap base staffed, sa_Sold := min wanted (cap base staffed)\<rparr>])))"
    for wanted base staffed
  note run = assms(1) [unfolded serve.simps Let_def, folded s_def, folded cap_def, folded go_def]
  obtain wanted where e1: "(if T > 0 then co_bind (company_mulDiv D (seller_weight s) T) (\<lambda>share. company_mulDiv share (Volume (sl_Type s) (sl_PriceBPS s)) CoWhole)
      else Inr 0) = Inr wanted" and run1: "co_bind (company_mulDiv (cty_BaseUnits (sl_Type s)) (sl_PresenceBPS s) CoWhole) (\<lambda>base.
      co_bind (company_mulDiv (cty_UnitsPerShift (sl_Type s)) (sl_Shifts s) 1) (go wanted base)) = Inr out"
    using run by (rule co_bind_InrE)
  obtain base where e2: "company_mulDiv (cty_BaseUnits (sl_Type s)) (sl_PresenceBPS s) CoWhole = Inr base"
    and run2: "co_bind (company_mulDiv (cty_UnitsPerShift (sl_Type s)) (sl_Shifts s) 1) (go wanted base) = Inr out"
    using run1 by (rule co_bind_InrE)
  obtain staffed where e3: "company_mulDiv (cty_UnitsPerShift (sl_Type s)) (sl_Shifts s) 1 = Inr staffed" and run3: "go wanted base staffed = Inr out"
    using run2 by (rule co_bind_InrE)
  define c where "c = cap base staffed"
  obtain worth r where e4: "company_mulDiv (min wanted c) (Minor (cty_UnitPrice (sl_Type s))) 1 = Inr worth"
    and e5: "company_mulDiv worth (sl_PriceBPS s) CoWhole = Inr r" and f: "\<not> add64 asked r < 0"
    "serve sellers D T rest (add64 sold (min wanted c)) (add64 asked r) (revenue[i := r])
        (sales[i := (sales ! i)\<lparr>sa_Wanted := wanted, sa_Capacity := c, sa_Sold := min wanted c\<rparr>]) = Inr out"
    using run3 [unfolded go_def, folded c_def] by (auto simp: co_bind_Inr split: if_splits)
  have w: "wanted = want_units D T s"
    using e1 by (auto simp: want_units_def co_bind_Inr seller_volume_def dest: company_mulDiv_InrD(4) split: if_splits)
  note b = company_mulDiv_InrD(4-6) [OF e2] and st = company_mulDiv_InrD(4-6) [OF e3, simplified] and u = company_mulDiv_InrD(1,4,5) [OF e4, unfolded div_by_1]
  have "0 \<le> add64 base staffed" using u(1) by (auto simp: c_def cap_def min_def split: if_splits)
  then have "add64 base staffed = base + staffed" using b(2,3) st(2,3) by (intro add64_nonneg_exact) simp_all
  then have c: "c = capacity_of s" by (simp add: c_def cap_def capacity_of_def Let_def b(1) st(1))
  have su: "min wanted c = sale_units D T s" by (simp add: sale_units_def w c)
  have r: "r = ask_units D T s" "0 \<le> r" "r \<le> MaxInt64"
    using company_mulDiv_InrD(4-6) [OF e5] u(2) by (simp_all add: ask_units_def su)
  have a: "add64 asked r = asked + r" "asked + r \<le> MaxInt64" using f(1) r assms(3,4) by (auto intro: add64_nonneg_exact)
  show "0 \<le> sale_units D T s" "0 \<le> ask_units D T s" "asked + ask_units D T s \<le> MaxInt64" using u(1) r a by (simp_all add: su)
  show "serve sellers D T rest (add64 sold (sale_units D T s)) (asked + ask_units D T s) (revenue[i := ask_units D T s])
       (sales[i := served D T s (sales ! i)]) = Inr out"
    using f(2) r(1) a by (simp add: sale_units_def w c served_def)
qed

lemma want_units_nonneg: "seller_ok s \<Longrightarrow> 0 \<le> D \<Longrightarrow> 0 \<le> want_units D T s"
  using seller_weight_range(2) [of s] seller_volume_range(1) [of s] by (simp add: want_units_def pos_imp_zdiv_nonneg_iff)

lemma sum_list_update_int: "k < length xs \<Longrightarrow> sum_list (xs[k := x]) = sum_list xs - xs ! k + (x :: int)"
  by (induction xs arbitrary: k) (auto split: nat.split)

lemma serve_run:
  assumes "serve sellers D T (zip idx (map (\<lambda>i. seller_weight (sellers ! i)) idx)) sold asked revenue sales = Inr (sold', asked', revenue', sales')"
    and "\<forall>i\<in>set idx. i < length sellers \<and> seller_ok (sellers ! i) \<and> revenue ! i = 0" "distinct idx"
    and "length revenue = length sellers" "length sales = length sellers"
    and "0 \<le> asked" "asked \<le> MaxInt64" "asked = sum_list revenue" "0 \<le> D" "0 \<le> sold"
    and "sold + (\<Sum>i\<leftarrow>idx. want_units D T (sellers ! i)) \<le> MaxInt64"
  shows "sold' = sold + (\<Sum>i\<leftarrow>idx. sale_units D T (sellers ! i)) \<and> asked' = sum_list revenue' \<and> 0 \<le> asked' \<and> asked' \<le> MaxInt64 \<and>
    length revenue' = length sellers \<and> length sales' = length sellers \<and>
    (\<forall>i\<in>set idx. 0 \<le> sale_units D T (sellers ! i) \<and> 0 \<le> ask_units D T (sellers ! i)) \<and>
    (\<forall>j<length sellers. revenue' ! j = (if j \<in> set idx then ask_units D T (sellers ! j) else revenue ! j) \<and>
       sales' ! j = (if j \<in> set idx then served D T (sellers ! j) (sales ! j) else sales ! j))"
  using assms
proof (induction idx arbitrary: sold asked revenue sales)
  case Nil
  then show ?case by auto
next
  case (Cons i idx)
  define s where "s = sellers ! i"
  define units where "units = sale_units D T s"
  define rev1 where "rev1 = revenue[i := ask_units D T s]"
  define sales1 where "sales1 = sales[i := served D T s (sales ! i)]"
  have i: "i < length sellers" "seller_ok s" "revenue ! i = 0" "i \<notin> set idx" using Cons.prems(2,3) by (simp_all add: s_def)
  have run: "serve sellers D T ((i, seller_weight (sellers ! i)) # zip idx (map (\<lambda>i. seller_weight (sellers ! i)) idx)) sold asked revenue sales =
      Inr (sold', asked', revenue', sales')" using Cons.prems(1) by simp
  note st = serve_step [OF run i(2) [unfolded s_def] Cons.prems(6,7,9), folded s_def, folded units_def rev1_def sales1_def]
  have nn: "0 \<le> (\<Sum>i\<leftarrow>idx. want_units D T (sellers ! i))"
    by (rule sum_list_nonneg) (use Cons.prems(2,9) want_units_nonneg in auto)
  have le: "units \<le> want_units D T s" by (simp add: units_def sale_units_def)
  have bound: "sold + units + (\<Sum>i\<leftarrow>idx. want_units D T (sellers ! i)) \<le> MaxInt64" using Cons.prems(11) le by (simp add: s_def)
  have add: "add64 sold units = sold + units" using bound nn st(1) Cons.prems(10) by (simp add: add64_def wrap64_nonneg)
  have sum1: "asked + ask_units D T s = sum_list rev1"
    using i Cons.prems(4,8) by (simp add: rev1_def sum_list_update_int)
  have l: "length rev1 = length sellers" "length sales1 = length sellers" using Cons.prems(4,5) by (simp_all add: rev1_def sales1_def)
  have z: "\<forall>k\<in>set idx. k < length sellers \<and> seller_ok (sellers ! k) \<and> rev1 ! k = 0"
  proof
    fix k assume k: "k \<in> set idx"
    with i(4) have "k \<noteq> i" by metis
    with k Cons.prems(2) show "k < length sellers \<and> seller_ok (sellers ! k) \<and> rev1 ! k = 0" by (simp add: rev1_def)
  qed
  have a0: "0 \<le> asked + ask_units D T s" using st(2) Cons.prems(6) by simp
  have s0: "0 \<le> sold + units" using st(1) Cons.prems(10) by simp
  note IH = Cons.IH [OF st(4) [unfolded add] z _ l a0 st(3) sum1 Cons.prems(9) s0 bound]
  have d: "distinct idx" using Cons.prems(3) by simp
  have r: "rev1 ! j = (if j = i then ask_units D T s else revenue ! j)" "sales1 ! j = (if j = i then served D T s (sales ! i) else sales ! j)"
    if "j < length sellers" for j using that Cons.prems(4,5) by (auto simp: rev1_def sales1_def nth_list_update)
  show ?case using IH [OF d] st(1,2) r i(4) by (auto simp: s_def units_def)
qed

section \<open>The categories\<close>

definition seller_cat :: "seller \<Rightarrow> string" where
  "seller_cat s = cty_Category (sl_Type s)"

definition cat_demand :: "company_market \<Rightarrow> string \<Rightarrow> int" where
  "cat_demand m c = market_demand m (demand_of m c)"

definition cat_total :: "seller list \<Rightarrow> string \<Rightarrow> int" where
  "cat_total sellers c = (\<Sum>i\<leftarrow>byCategory sellers c. seller_weight (sellers ! i))"

definition cat_sold :: "company_market \<Rightarrow> seller list \<Rightarrow> string \<Rightarrow> int" where
  "cat_sold m sellers c = (\<Sum>i\<leftarrow>byCategory sellers c. sale_units (cat_demand m c) (cat_total sellers c) (sellers ! i))"

definition unmet_of :: "company_market \<Rightarrow> seller list \<Rightarrow> string \<Rightarrow> (string \<times> int) list" where
  "unmet_of m sellers c = (let u = cat_demand m c - cat_sold m sellers c in if u > 0 then [(c, u)] else [])"

lemma byCategory_iff: "i \<in> set (byCategory sellers c) \<longleftrightarrow> i < length sellers \<and> seller_cat (sellers ! i) = c"
  by (auto simp: byCategory_def seller_cat_def)

lemma byCategory_distinct [simp]: "distinct (byCategory sellers c)"
  by (simp add: byCategory_def)

lemma byCategory_length: "length (byCategory sellers c) \<le> length sellers"
  using length_filter_le [of _ "[0..<length sellers]"] by (simp add: byCategory_def)

lemma demand_of_range: "Market_Validate m = None \<Longrightarrow> 0 \<le> demand_of m c \<and> demand_of m c \<le> MaxUnits"
  by (fastforce simp: Market_Validate_def demand_of_def dest: map_of_SomeD split: option.splits if_splits)

lemma floor_div_mono: "0 \<le> a \<Longrightarrow> a \<le> k * c \<Longrightarrow> 0 < c \<Longrightarrow> 0 \<le> a div c \<and> a div c \<le> (k :: int)"
  by (simp add: pos_imp_zdiv_nonneg_iff div_le_iff_int distrib_right)

lemma market_demand_range:
  assumes "Market_Validate m = None" "0 \<le> v" "v \<le> K" "K \<le> 1000000000000"
  shows "0 \<le> market_demand m v" "market_demand m v \<le> K * 10000000"
proof -
  have r: "0 \<le> mk_Population m" "mk_Population m \<le> 1000000000" "0 \<le> mk_WealthBPS m" "mk_WealthBPS m \<le> 100000"
    using assms(1) by (auto simp: Market_Validate_def split: if_splits)
  define x where "x = mk_Population m * v div 1000"
  have "mk_Population m * v \<le> 1000000000 * K" using r assms by (intro mult_mono) simp_all
  then have x: "0 \<le> x" "x \<le> K * 1000000" using r assms floor_div_mono [of "mk_Population m * v" "K * 1000000" 1000] by (simp_all add: x_def)
  have "x * mk_WealthBPS m \<le> (K * 1000000) * 100000" using r x assms by (intro mult_mono) simp_all
  then show "0 \<le> market_demand m v" "market_demand m v \<le> K * 10000000"
    using r x floor_div_mono [of "x * mk_WealthBPS m" "K * 10000000" CoWhole] by (simp_all add: market_demand_def x_def [symmetric])
qed

lemma perThousand_Inr: "perThousand m v = Inr d \<Longrightarrow> d = market_demand m v"
  by (auto simp: perThousand_def co_bind_Inr market_demand_def dest!: company_mulDiv_InrD(4))

lemma perThousand_total:
  assumes "Market_Validate m = None" "0 \<le> v" "v \<le> MaxFee" "market_demand m v \<le> MaxInt64"
  shows "perThousand m v = Inr (market_demand m v)"
proof -
  have r: "0 \<le> mk_Population m" "mk_Population m \<le> 1000000000" "0 \<le> mk_WealthBPS m" "mk_WealthBPS m \<le> 100000"
    using assms(1) by (auto simp: Market_Validate_def split: if_splits)
  define x where "x = mk_Population m * v div 1000"
  have "mk_Population m * v \<le> 1000000000 * MaxFee" using r assms by (intro mult_mono) simp_all
  then have x: "0 \<le> x" "x \<le> 1000000000000000000" using r assms floor_div_mono [of "mk_Population m * v" 1000000000000000000 1000] by (simp_all add: x_def)
  have "company_mulDiv (mk_Population m) v 1000 = Inr x"
    using r(1) assms(2) x(2) by (simp add: company_mulDiv_eq x_def)
  moreover have "company_mulDiv x (mk_WealthBPS m) CoWhole = Inr (market_demand m v)"
    using r(3) x(1) assms(4) by (simp add: company_mulDiv_eq market_demand_def x_def)
  ultimately show ?thesis by (simp add: perThousand_def co_bind_def)
qed

text \<open>The floored shares of a demand never add up to more than it.\<close>

lemma sum_shares:
  assumes "\<forall>i\<in>set idx. 0 \<le> (w i :: int)" "0 \<le> D" "(\<Sum>i\<leftarrow>idx. w i) \<le> T" "0 < T"
  shows "(\<Sum>i\<leftarrow>idx. D * w i div T) \<le> D"
proof -
  have "(\<Sum>i\<leftarrow>idx. D * w i div T) * T \<le> D * (\<Sum>i\<leftarrow>idx. w i)"
    using assms(1) 
  proof (induction idx)
    case (Cons i idx)
    have "D * w i div T * T \<le> D * w i" by (rule div_mult_le_int [OF assms(4)])
    with Cons show ?case by (simp add: distrib_left distrib_right)
  qed simp
  also have "\<dots> \<le> D * T" using assms(2,3) by (intro mult_left_mono) simp_all
  finally show ?thesis using assms(4) by simp
qed

lemma sum_wanted:
  assumes "\<forall>i\<in>set idx. seller_ok (f i) \<and> seller_volume (f i) \<le> CoWhole * k" "0 \<le> D" "0 \<le> k"
  defines "T \<equiv> \<Sum>i\<leftarrow>idx. seller_weight (f i)"
  shows "(\<Sum>i\<leftarrow>idx. want_units D T (f i)) \<le> D * k"
proof (cases "T > 0")
  case True
  have each: "want_units D T (f i) \<le> (D * seller_weight (f i) div T) * k" if "i \<in> set idx" for i
  proof -
    have ok: "seller_ok (f i)" "seller_volume (f i) \<le> CoWhole * k" using assms(1) that by auto
    have s0: "0 \<le> D * seller_weight (f i) div T" using assms(2) seller_weight_range(2) [OF ok(1)] True by (simp add: pos_imp_zdiv_nonneg_iff)
    then have "D * seller_weight (f i) div T * seller_volume (f i) \<le> D * seller_weight (f i) div T * (CoWhole * k)"
      using ok(2) by (intro mult_left_mono)
    then show ?thesis using True s0 floor_div_mono [of "D * seller_weight (f i) div T * seller_volume (f i)" "D * seller_weight (f i) div T * k" CoWhole]
      seller_volume_range(1) [of "f i"] by (simp add: want_units_def mult.commute mult.left_commute)
  qed
  have "(\<Sum>i\<leftarrow>idx. want_units D T (f i)) \<le> (\<Sum>i\<leftarrow>idx. (D * seller_weight (f i) div T) * k)"
    by (rule sum_list_mono) (rule each)
  also have "\<dots> = (\<Sum>i\<leftarrow>idx. D * seller_weight (f i) div T) * k" by (simp add: sum_list_mult_const)
  also have "\<dots> \<le> D * k"
    using sum_shares [of idx "\<lambda>i. seller_weight (f i)" D T] assms(1-3) seller_weight_range(2) True
    by (intro mult_right_mono) (auto simp: T_def)
  finally show ?thesis .
next
  case False
  have "(\<Sum>i\<leftarrow>idx. want_units D T (f i)) = 0" using False by (simp add: want_units_def sum_list_0)
  then show ?thesis using assms(2,3) by simp
qed

definition sellers_ok :: "company_market \<Rightarrow> seller list \<Rightarrow> bool" where
  "sellers_ok m sellers \<longleftrightarrow> Market_Validate m = None \<and> (\<forall>s\<in>set sellers. seller_ok s) \<and> length sellers \<le> 100000000000000"

text \<open>What a seller asks and sells in its own category.\<close>

definition asks :: "company_market \<Rightarrow> seller list \<Rightarrow> seller \<Rightarrow> int" where
  "asks m sellers s = ask_units (cat_demand m (seller_cat s)) (cat_total sellers (seller_cat s)) s"

definition sells :: "company_market \<Rightarrow> seller list \<Rightarrow> seller \<Rightarrow> int" where
  "sells m sellers s = sale_units (cat_demand m (seller_cat s)) (cat_total sellers (seller_cat s)) s"

definition sold_sale :: "company_market \<Rightarrow> seller list \<Rightarrow> seller \<Rightarrow> sale" where
  "sold_sale m sellers s = served (cat_demand m (seller_cat s)) (cat_total sellers (seller_cat s)) s (begun s)"

lemma cat_demand_range:
  assumes "sellers_ok m sellers"
  shows "0 \<le> cat_demand m c" "cat_demand m c \<le> 10000000000000000"
  using assms demand_of_range [of m c] market_demand_range [of m "demand_of m c" MaxUnits] by (simp_all add: sellers_ok_def cat_demand_def)

lemma cat_wanted:
  assumes "sellers_ok m sellers"
  shows "0 \<le> (\<Sum>i\<leftarrow>byCategory sellers c. want_units (cat_demand m c) (cat_total sellers c) (sellers ! i))"
    "(\<Sum>i\<leftarrow>byCategory sellers c. want_units (cat_demand m c) (cat_total sellers c) (sellers ! i)) \<le> cat_demand m c * 3"
proof -
  have ok: "seller_ok (sellers ! i)" if "i \<in> set (byCategory sellers c)" for i
    using assms that by (simp add: sellers_ok_def byCategory_iff)
  show "0 \<le> (\<Sum>i\<leftarrow>byCategory sellers c. want_units (cat_demand m c) (cat_total sellers c) (sellers ! i))"
    using ok cat_demand_range(1) [OF assms, of c] want_units_nonneg by (intro sum_list_nonneg) auto
  show "(\<Sum>i\<leftarrow>byCategory sellers c. want_units (cat_demand m c) (cat_total sellers c) (sellers ! i)) \<le> cat_demand m c * 3"
    using sum_wanted [of "byCategory sellers c" "(!) sellers" 3 "cat_demand m c"] ok seller_volume_range(2) cat_demand_range(1) [OF assms]
    by (simp add: cat_total_def)
qed

lemma cat_total_range:
  assumes "sellers_ok m sellers"
  shows "0 \<le> cat_total sellers c" "cat_total sellers c \<le> MaxInt64"
proof -
  have ok: "seller_ok (sellers ! i)" if "i \<in> set (byCategory sellers c)" for i
    using assms that by (simp add: sellers_ok_def byCategory_iff)
  show "0 \<le> cat_total sellers c" using ok seller_weight_range(2) by (auto simp: cat_total_def intro!: sum_list_nonneg)
  have "cat_total sellers c \<le> (\<Sum>i\<leftarrow>byCategory sellers c. maxVolumeBPS)"
    unfolding cat_total_def using ok seller_weight_range(3) by (intro sum_list_mono) auto
  also have "\<dots> = int (length (byCategory sellers c)) * maxVolumeBPS" by (simp add: sum_list_triv)
  also have "\<dots> \<le> int (length sellers) * maxVolumeBPS" using byCategory_length by simp
  also have "\<dots> \<le> MaxInt64" using assms by (simp add: sellers_ok_def)
  finally show "cat_total sellers c \<le> MaxInt64" .
qed

definition books_inv :: "seller list \<Rightarrow> int \<Rightarrow> int list \<Rightarrow> sale list \<Rightarrow> bool" where
  "books_inv sellers asked revenue sales \<longleftrightarrow> asked = sum_list revenue \<and> 0 \<le> asked \<and> asked \<le> MaxInt64 \<and>
     length revenue = length sellers \<and> length sales = length sellers"

lemma settle_categories_run:
  assumes "settle_categories m sellers cs asked revenue sales unmet = Inr (asked', revenue', sales', unmet')"
    and "sellers_ok m sellers" "distinct cs" "books_inv sellers asked revenue sales"
    and "\<forall>j<length sellers. seller_cat (sellers ! j) \<in> set cs \<longrightarrow> revenue ! j = 0"
  shows "books_inv sellers asked' revenue' sales' \<and> unmet' = unmet @ concat (map (unmet_of m sellers) cs) \<and>
    (\<forall>j<length sellers. if seller_cat (sellers ! j) \<in> set cs
       then revenue' ! j = asks m sellers (sellers ! j) \<and> sales' ! j = sold_sale m sellers (sellers ! j) \<and>
            0 \<le> asks m sellers (sellers ! j) \<and> 0 \<le> sells m sellers (sellers ! j)
       else revenue' ! j = revenue ! j \<and> sales' ! j = sales ! j)"
  using assms
proof (induction cs arbitrary: asked revenue sales unmet)
  case Nil
  then show ?case by auto
next
  case (Cons c cs)
  define idx where "idx = byCategory sellers c"
  define D where "D = cat_demand m c"
  define T where "T = cat_total sellers c"
  have ok: "seller_ok s" if "s \<in> set sellers" for s using Cons.prems(2) that by (simp add: sellers_ok_def)
  have inv: "asked = sum_list revenue" "0 \<le> asked" "asked \<le> MaxInt64" "length revenue = length sellers" "length sales = length sellers"
    using Cons.prems(4) by (simp_all add: books_inv_def)
  obtain demand where d: "perThousand m (demand_of m c) = Inr demand"
    and run1: "co_bind (weigh sellers idx [] 0 sales) (\<lambda>(weights, tot, sales').
      co_bind (serve sellers demand tot (zip idx weights) 0 asked revenue sales') (\<lambda>(sold, asked', revenue', sales'').
      settle_categories m sellers cs asked' revenue' sales''
        (if sub64 demand sold > 0 then unmet @ [(c, sub64 demand sold)] else unmet))) = Inr (asked', revenue', sales', unmet')"
    using Cons.prems(1) unfolding settle_categories.simps Let_def idx_def [symmetric] by (rule co_bind_InrE)
  have dD: "demand = D" using perThousand_Inr [OF d] by (simp add: D_def cat_demand_def)
  have Dr: "0 \<le> D" "D \<le> 10000000000000000" using cat_demand_range [OF Cons.prems(2), of c] by (simp_all add: D_def)
  have i: "\<forall>i\<in>set idx. i < length sellers \<and> seller_ok (sellers ! i)" using ok by (simp add: idx_def byCategory_iff)
  have Tr: "0 + (\<Sum>i\<leftarrow>idx. seller_weight (sellers ! i)) \<le> MaxInt64"
    using cat_total_range(2) [OF Cons.prems(2), of c] by (simp add: cat_total_def idx_def)
  obtain sales1 where w: "weigh sellers idx [] 0 sales = Inr (map (\<lambda>i. seller_weight (sellers ! i)) idx, T, sales1)"
    and s1: "length sales1 = length sellers" "\<forall>j<length sellers. sales1 ! j = (if j \<in> set idx then begun (sellers ! j) else sales ! j)"
    using weigh_run [OF i inv(5) order_refl Tr, of "[]"] by (auto simp: T_def cat_total_def idx_def)
  note run2 = run1 [unfolded w dD co_bind_def [of "Inr (map (\<lambda>i. seller_weight (sellers ! i)) idx, T, sales1)"] sum.case prod.case]
  obtain sold asked1 revenue1 sales2 where s: "serve sellers D T (zip idx (map (\<lambda>i. seller_weight (sellers ! i)) idx)) 0 asked revenue sales1 =
      Inr (sold, asked1, revenue1, sales2)"
    and run3: "settle_categories m sellers cs asked1 revenue1 sales2
        (if sub64 D sold > 0 then unmet @ [(c, sub64 D sold)] else unmet) = Inr (asked', revenue', sales', unmet')"
    using run2 by (auto elim!: co_bind_InrE)
  have wants: "(\<Sum>i\<leftarrow>idx. want_units D T (sellers ! i)) \<le> D * 3"
    using cat_wanted(2) [OF Cons.prems(2), of c] by (simp add: D_def T_def idx_def)
  have z: "\<forall>i\<in>set idx. i < length sellers \<and> seller_ok (sellers ! i) \<and> revenue ! i = 0"
    using i Cons.prems(5) by (auto simp: idx_def byCategory_iff)
  have bound: "0 + (\<Sum>i\<leftarrow>idx. want_units D T (sellers ! i)) \<le> MaxInt64" using wants Dr by linarith
  note S = serve_run [OF s z _ inv(4) s1(1) inv(2,3,1) Dr(1) order_refl bound, unfolded idx_def, OF byCategory_distinct, folded idx_def]
  have sold: "sold = cat_sold m sellers c" using S by (simp add: cat_sold_def D_def T_def idx_def)
  have s0: "0 \<le> sold"
    using S by (auto intro!: sum_list_nonneg)
  have "sold \<le> (\<Sum>i\<leftarrow>idx. want_units D T (sellers ! i))"
    unfolding sold cat_sold_def D_def T_def idx_def by (rule sum_list_mono) (simp add: sale_units_def)
  then have sub: "sub64 D sold = D - sold" using s0 wants Dr by (intro sub64_exact) (simp add: in64_def)
  have un: "(if sub64 D sold > 0 then unmet @ [(c, sub64 D sold)] else unmet) = unmet @ unmet_of m sellers c"
    unfolding sub by (simp add: sold unmet_of_def Let_def D_def)
  have inv1: "books_inv sellers asked1 revenue1 sales2" using S by (simp add: books_inv_def)
  have z1: "\<forall>j<length sellers. seller_cat (sellers ! j) \<in> set cs \<longrightarrow> revenue1 ! j = 0"
  proof (intro allI impI)
    fix j assume j: "j < length sellers" "seller_cat (sellers ! j) \<in> set cs"
    then have "j \<notin> set idx" using Cons.prems(3) by (auto simp: idx_def byCategory_iff)
    then show "revenue1 ! j = 0" using S j Cons.prems(5) by simp
  qed
  have dist: "distinct cs" "c \<notin> set cs" using Cons.prems(3) by simp_all
  note IH = Cons.IH [OF run3 [unfolded un] Cons.prems(2) dist(1) inv1 z1]
  have mem: "j \<in> set idx \<longleftrightarrow> seller_cat (sellers ! j) = c" if "j < length sellers" for j using that by (simp add: idx_def byCategory_iff)
  show ?case
  proof (intro conjI allI impI)
    show "books_inv sellers asked' revenue' sales'" using IH by simp
    show "unmet' = unmet @ concat (map (unmet_of m sellers) (c # cs))" using IH by simp
    fix j assume j: "j < length sellers"
    show "if seller_cat (sellers ! j) \<in> set (c # cs)
       then revenue' ! j = asks m sellers (sellers ! j) \<and> sales' ! j = sold_sale m sellers (sellers ! j) \<and>
            0 \<le> asks m sellers (sellers ! j) \<and> 0 \<le> sells m sellers (sellers ! j)
       else revenue' ! j = revenue ! j \<and> sales' ! j = sales ! j"
    proof (cases "seller_cat (sellers ! j) = c")
      case True
      then show ?thesis using IH S s1(2) j mem [OF j] dist(2)
        by (auto simp: asks_def sells_def sold_sale_def D_def T_def)
    next
      case False
      then show ?thesis using IH S s1(2) j mem [OF j] by auto
    qed
  qed
qed

section \<open>The budget\<close>

definition paid_of :: "int \<Rightarrow> int \<Rightarrow> int \<Rightarrow> int" where
  "paid_of budget asked r = (if asked > budget then r * budget div asked else r)"

lemma paid_of_range:
  assumes "0 \<le> budget" "0 \<le> r" "r \<le> asked" "asked \<le> MaxInt64"
  shows "(if asked > budget then company_mulDiv r budget asked else Inr r) = Inr (paid_of budget asked r)"
    "0 \<le> paid_of budget asked r" "paid_of budget asked r \<le> r"
  using assms company_mulDiv_share [of r budget asked] by (auto simp: paid_of_def)

lemma pay_sellers_run:
  assumes "\<forall>r\<in>set rs. 0 \<le> r \<and> r \<le> asked" "0 \<le> budget" "asked \<le> MaxInt64" "0 \<le> paid" "paid + sum_list rs \<le> MaxInt64"
    and "i + length rs = length sales"
  shows "pay_sellers budget asked rs i paid sales =
    Inr (paid + (\<Sum>r\<leftarrow>rs. paid_of budget asked r),
         take i sales @ map2 (\<lambda>x r. x\<lparr>sa_Revenue := FromMinor (paid_of budget asked r)\<rparr>) (drop i sales) rs)"
  using assms
proof (induction rs arbitrary: i paid sales)
  case Nil
  then show ?case by simp
next
  case (Cons r rs)
  have r: "0 \<le> r" "r \<le> asked" using Cons.prems(1) by simp_all
  note p = paid_of_range [OF Cons.prems(2) r Cons.prems(3)]
  have nn: "0 \<le> sum_list rs" using Cons.prems(1) by (auto intro: sum_list_nonneg)
  have add: "add64 paid (paid_of budget asked r) = paid + paid_of budget asked r"
    using p nn Cons.prems(4,5) by (simp add: add64_def wrap64_nonneg)
  define x where "x = (sales ! i)\<lparr>sa_Revenue := FromMinor (paid_of budget asked r)\<rparr>"
  have i: "i < length sales" using Cons.prems(6) by simp
  have split: "take (Suc i) (sales[i := x]) = take i sales @ [x]" "drop (Suc i) (sales[i := x]) = drop (Suc i) sales"
    "drop i sales = sales ! i # drop (Suc i) sales"
    using i by (simp_all add: take_Suc_conv_app_nth Cons_nth_drop_Suc)
  have "pay_sellers budget asked (r # rs) i paid sales = pay_sellers budget asked rs (Suc i) (paid + paid_of budget asked r) (sales[i := x])"
    using p(1) by (simp add: co_bind_def add x_def)
  also have "\<dots> = Inr (paid + paid_of budget asked r + (\<Sum>r\<leftarrow>rs. paid_of budget asked r),
      take (Suc i) (sales[i := x]) @ map2 (\<lambda>x r. x\<lparr>sa_Revenue := FromMinor (paid_of budget asked r)\<rparr>) (drop (Suc i) (sales[i := x])) rs)"
    using Cons.prems p by (intro Cons.IH) simp_all
  finally show ?case unfolding split by (simp add: x_def add.assoc)
qed

lemma sum_paid:
  assumes "\<forall>r\<in>set rs. 0 \<le> r" "0 \<le> budget" "sum_list rs \<le> asked" "asked \<le> MaxInt64"
  shows "(\<Sum>r\<leftarrow>rs. paid_of budget asked r) \<le> budget" "(\<Sum>r\<leftarrow>rs. paid_of budget asked r) \<le> asked"
    "0 \<le> (\<Sum>r\<leftarrow>rs. paid_of budget asked r)"
proof -
  have each: "0 \<le> paid_of budget asked r" "paid_of budget asked r \<le> r" if "r \<in> set rs" for r
  proof -
    have "r \<le> sum_list rs" using assms(1) that by (intro member_le_sum_list) auto
    then show "0 \<le> paid_of budget asked r" "paid_of budget asked r \<le> r" using paid_of_range(2,3) [of budget r asked] assms that by auto
  qed
  have "(\<Sum>r\<leftarrow>rs. paid_of budget asked r) \<le> (\<Sum>r\<leftarrow>rs. r)" using each by (intro sum_list_mono) auto
  then show le: "(\<Sum>r\<leftarrow>rs. paid_of budget asked r) \<le> asked" using assms(3) by simp
  show "0 \<le> (\<Sum>r\<leftarrow>rs. paid_of budget asked r)" by (rule sum_list_nonneg) (use each in auto)
  show "(\<Sum>r\<leftarrow>rs. paid_of budget asked r) \<le> budget"
  proof (cases "asked > budget")
    case True
    have "(\<Sum>r\<leftarrow>rs. budget * r div asked) \<le> budget"
      using sum_shares [of rs "\<lambda>r. r" budget asked] assms True by simp
    then show ?thesis using True by (simp add: paid_of_def mult.commute)
  qed (use le in simp)
qed

definition market_budget :: "company_market \<Rightarrow> int" where
  "market_budget m = (let b = market_demand m (mk_BudgetPerThousand m) in
     if Minor (mk_Cap m) \<noteq> 0 \<and> Minor (mk_Cap m) < b then Minor (mk_Cap m) else b)"

lemma market_categories_distinct: "distinct (map fst (mk_Demand m)) \<Longrightarrow> distinct (market_categories m sellers)"
  by (auto simp: market_categories_def map_of_eq_None_iff)

lemma market_categories_all: "s \<in> set sellers \<Longrightarrow> seller_cat s \<in> set (market_categories m sellers)"
  by (force simp: market_categories_def seller_cat_def map_of_eq_None_iff)

lemma Settle_run:
  assumes "company_Settle m sellers = Inr out" "distinct (map fst (mk_Demand m))" "length sellers \<le> 100000000000000"
  defines "A \<equiv> \<Sum>s\<leftarrow>sellers. asks m sellers s"
  shows "sellers_ok m sellers" "0 \<le> market_budget m" "A \<le> MaxInt64" "\<forall>s\<in>set sellers. 0 \<le> asks m sellers s \<and> 0 \<le> sells m sellers s"
    "out = \<lparr>mst_Sales = map (\<lambda>s. (sold_sale m sellers s)\<lparr>sa_Revenue := FromMinor (paid_of (market_budget m) A (asks m sellers s))\<rparr>) sellers,
       mst_Budget = FromMinor (market_budget m), mst_Asked = FromMinor A,
       mst_Paid = FromMinor (\<Sum>s\<leftarrow>sellers. paid_of (market_budget m) A (asks m sellers s)),
       mst_Unmet = concat (map (unmet_of m sellers) (market_categories m sellers))\<rparr>"
proof -
  have v: "Market_Validate m = None" "check_sellers sellers = None"
    using assms(1) by (auto simp: company_Settle_def split: option.splits)
  show ok: "sellers_ok m sellers" using v check_sellers_ok assms(3) by (auto simp: sellers_ok_def)
  note run = assms(1) [unfolded company_Settle_def v option.case Let_def]
  obtain b where b: "perThousand m (mk_BudgetPerThousand m) = Inr b"
    and run1: "co_bind (settle_categories m sellers (market_categories m sellers) 0 (replicate (length sellers) 0) (replicate (length sellers) no_sale) [])
      (\<lambda>(asked, revenue, sales, unmet).
        co_bind (pay_sellers (if \<not> Amount_IsZero (mk_Cap m) \<and> Minor (mk_Cap m) < b then Minor (mk_Cap m) else b) asked revenue 0 0 sales)
         (\<lambda>(paid, sales'). Inr \<lparr>mst_Sales = sales', mst_Budget = FromMinor (if \<not> Amount_IsZero (mk_Cap m) \<and> Minor (mk_Cap m) < b then Minor (mk_Cap m) else b),
            mst_Asked = FromMinor asked, mst_Paid = FromMinor paid, mst_Unmet = unmet\<rparr>)) = Inr out"
    using run by (rule co_bind_InrE)
  have cap: "0 \<le> Minor (mk_Cap m)" "0 \<le> mk_BudgetPerThousand m" "mk_BudgetPerThousand m \<le> MaxFee"
    using v(1) by (auto simp: Market_Validate_def Amount_IsNegative_def split: if_splits)
  have bud: "(if \<not> Amount_IsZero (mk_Cap m) \<and> Minor (mk_Cap m) < b then Minor (mk_Cap m) else b) = market_budget m"
    using perThousand_Inr [OF b] by (simp add: market_budget_def Let_def Amount_IsZero_def)
  show b0: "0 \<le> market_budget m"
    using cap market_demand_range(1) [OF v(1) cap(2,3)] by (simp add: market_budget_def Let_def)
  obtain q where q0: "settle_categories m sellers (market_categories m sellers) 0 (replicate (length sellers) 0) (replicate (length sellers) no_sale) [] = Inr q"
    and q1: "(case q of (asked, revenue, sales, unmet) \<Rightarrow> co_bind (pay_sellers (market_budget m) asked revenue 0 0 sales)
         (\<lambda>(paid, sales'). Inr \<lparr>mst_Sales = sales', mst_Budget = FromMinor (market_budget m),
            mst_Asked = FromMinor asked, mst_Paid = FromMinor paid, mst_Unmet = unmet\<rparr>)) = Inr out"
    using run1 [unfolded bud] by (rule co_bind_InrE)
  obtain asked revenue sales unmet where q: "q = (asked, revenue, sales, unmet)" by (cases q)
  note s = q0 [unfolded q] and run2 = q1 [unfolded q prod.case]
  have inv0: "books_inv sellers 0 (replicate (length sellers) 0) (replicate (length sellers) no_sale)"
    by (simp add: books_inv_def sum_list_replicate)
  note S = settle_categories_run [OF s ok market_categories_distinct [OF assms(2)] inv0]
  have all: "revenue ! j = asks m sellers (sellers ! j)" "sales ! j = sold_sale m sellers (sellers ! j)"
    "0 \<le> asks m sellers (sellers ! j)" "0 \<le> sells m sellers (sellers ! j)" if "j < length sellers" for j
    using S that market_categories_all [of "sellers ! j" sellers m] by auto
  have S': "asked = sum_list revenue" "0 \<le> asked" "asked \<le> MaxInt64" "length revenue = length sellers" "length sales = length sellers"
    "unmet = concat (map (unmet_of m sellers) (market_categories m sellers))"
    using S by (simp_all add: books_inv_def)
  have rev: "revenue = map (asks m sellers) sellers" using all(1) S'(4) by (auto intro: nth_equalityI)
  have sal: "sales = map (sold_sale m sellers) sellers" using all(2) S'(5) by (auto intro: nth_equalityI)
  have A: "asked = A" by (simp add: S'(1) rev A_def)
  show "A \<le> MaxInt64" using S'(3) A by simp
  show nn: "\<forall>s\<in>set sellers. 0 \<le> asks m sellers s \<and> 0 \<le> sells m sellers s" using all(3,4) by (metis in_set_conv_nth)
  have r: "\<forall>r\<in>set revenue. 0 \<le> r \<and> r \<le> asked"
  proof
    fix r assume r: "r \<in> set revenue"
    have "0 \<le> r" using r nn by (auto simp: rev)
    moreover have "r \<le> sum_list revenue" using r nn by (intro member_le_sum_list) (auto simp: rev)
    ultimately show "0 \<le> r \<and> r \<le> asked" by (simp add: S'(1))
  qed
  have "pay_sellers (market_budget m) asked revenue 0 0 sales =
    Inr (0 + (\<Sum>r\<leftarrow>revenue. paid_of (market_budget m) asked r),
         take 0 sales @ map2 (\<lambda>x r. x\<lparr>sa_Revenue := FromMinor (paid_of (market_budget m) asked r)\<rparr>) (drop 0 sales) revenue)"
    using r b0 S'(1,3-5) by (intro pay_sellers_run) simp_all
  moreover have "map2 (\<lambda>x r. x\<lparr>sa_Revenue := FromMinor (paid_of (market_budget m) asked r)\<rparr>) sales revenue =
      map (\<lambda>s. (sold_sale m sellers s)\<lparr>sa_Revenue := FromMinor (paid_of (market_budget m) A (asks m sellers s))\<rparr>) sellers"
    by (simp add: rev sal A zip_map_map zip_same_conv_map comp_def)
  ultimately show "out = \<lparr>mst_Sales = map (\<lambda>s. (sold_sale m sellers s)\<lparr>sa_Revenue := FromMinor (paid_of (market_budget m) A (asks m sellers s))\<rparr>) sellers,
       mst_Budget = FromMinor (market_budget m), mst_Asked = FromMinor A,
       mst_Paid = FromMinor (\<Sum>s\<leftarrow>sellers. paid_of (market_budget m) A (asks m sellers s)),
       mst_Unmet = concat (map (unmet_of m sellers) (market_categories m sellers))\<rparr>"
    using run2 by (simp add: co_bind_def A rev comp_def S'(6))
qed

section \<open>The settlement is reached\<close>

text \<open>Figures that fit: what each seller can serve, what it sells at its unit price, and what all ask together.\<close>

definition figures_fit :: "company_market \<Rightarrow> seller list \<Rightarrow> bool" where
  "figures_fit m sellers \<longleftrightarrow>
     (\<forall>s\<in>set sellers. cty_UnitsPerShift (sl_Type s) * sl_Shifts s + cty_BaseUnits (sl_Type s) \<le> MaxInt64 \<and>
        sells m sellers s * Minor (cty_UnitPrice (sl_Type s)) \<le> MaxInt64) \<and>
     (\<Sum>s\<leftarrow>sellers. asks m sellers s) \<le> MaxInt64 \<and> market_demand m (mk_BudgetPerThousand m) \<le> MaxInt64"

lemma sale_units_nonneg:
  assumes "seller_ok s" "0 \<le> D"
  shows "0 \<le> sale_units D T s" "0 \<le> ask_units D T s"
proof -
  have r: "0 \<le> cty_BaseUnits (sl_Type s)" "1 \<le> cty_UnitsPerShift (sl_Type s)" "1 \<le> Minor (cty_UnitPrice (sl_Type s))"
    using assms(1) Type_ValidateD [of "sl_Type s"] by (simp_all add: seller_ok_def)
  then have "0 \<le> capacity_of s" using assms(1) by (simp add: capacity_of_def Let_def seller_ok_def pos_imp_zdiv_nonneg_iff)
  then show u: "0 \<le> sale_units D T s" using want_units_nonneg [OF assms] by (simp add: sale_units_def)
  then show "0 \<le> ask_units D T s" using r assms(1) by (simp add: ask_units_def seller_ok_def pos_imp_zdiv_nonneg_iff)
qed

lemma co_bind_Inr_simp: "co_bind (Inr a) f = f a"
  by (simp add: co_bind_def)

lemma serve_forward:
  assumes "seller_ok s" "s = sellers ! i" "0 \<le> D" "D \<le> 10000000000000000" "seller_weight s \<le> T"
    and "cty_UnitsPerShift (sl_Type s) * sl_Shifts s + cty_BaseUnits (sl_Type s) \<le> MaxInt64"
    and "sale_units D T s * Minor (cty_UnitPrice (sl_Type s)) \<le> MaxInt64" "0 \<le> asked" "asked + ask_units D T s \<le> MaxInt64"
  shows "serve sellers D T ((i, seller_weight s) # rest) sold asked revenue sales =
    serve sellers D T rest (add64 sold (sale_units D T s)) (asked + ask_units D T s) (revenue[i := ask_units D T s]) (sales[i := served D T s (sales ! i)])"
proof -
  define t where "t = sl_Type s"
  have r: "0 \<le> cty_BaseUnits t" "1 \<le> cty_UnitsPerShift t" "1 \<le> Minor (cty_UnitPrice t)" "0 \<le> sl_Shifts s" "0 \<le> sl_PresenceBPS s"
      "sl_PresenceBPS s \<le> CoWhole" "0 \<le> sl_PriceBPS s" "cty_BaseUnits t \<le> MaxInt64"
    using assms(1) Type_ValidateD [of t] by (simp_all add: seller_ok_def t_def)
  note w = seller_weight_range(2) [OF assms(1)] and v = seller_volume_range [of s]
  note nn = sale_units_nonneg [OF assms(1,3), of T]
  have want: "(if T > 0 then co_bind (company_mulDiv D (seller_weight s) T) (\<lambda>share. company_mulDiv share (Volume t (sl_PriceBPS s)) CoWhole) else Inr 0) =
      Inr (want_units D T s)"
  proof (cases "T > 0")
    case True
    have sh: "company_mulDiv D (seller_weight s) T = Inr (D * seller_weight s div T)" "0 \<le> D * seller_weight s div T" "D * seller_weight s div T \<le> D"
      using company_mulDiv_share [of D "seller_weight s" T] assms(3-5) w True by simp_all
    have "D * seller_weight s div T * seller_volume s \<le> 10000000000000000 * maxVolumeBPS" using sh v assms(4) by (intro mult_mono) simp_all
    then have "D * seller_weight s div T * seller_volume s div CoWhole \<le> MaxInt64"
      using floor_div_mono [of "D * seller_weight s div T * seller_volume s" 30000000000000000 CoWhole] sh v by simp
    then show ?thesis using True sh v by (simp add: co_bind_Inr_simp company_mulDiv_eq want_units_def seller_volume_def t_def)
  qed (simp add: want_units_def)
  have base: "company_mulDiv (cty_BaseUnits t) (sl_PresenceBPS s) CoWhole = Inr (cty_BaseUnits t * sl_PresenceBPS s div CoWhole)"
    "0 \<le> cty_BaseUnits t * sl_PresenceBPS s div CoWhole" "cty_BaseUnits t * sl_PresenceBPS s div CoWhole \<le> cty_BaseUnits t"
    using company_mulDiv_share [of "cty_BaseUnits t" "sl_PresenceBPS s" CoWhole] r by simp_all
  have st0: "0 \<le> cty_UnitsPerShift t * sl_Shifts s" using r by simp
  have st: "company_mulDiv (cty_UnitsPerShift t) (sl_Shifts s) 1 = Inr (cty_UnitsPerShift t * sl_Shifts s)"
    using r st0 assms(6) by (simp add: company_mulDiv_eq t_def)
  have "add64 (cty_BaseUnits t * sl_PresenceBPS s div CoWhole) (cty_UnitsPerShift t * sl_Shifts s) =
      cty_BaseUnits t * sl_PresenceBPS s div CoWhole + cty_UnitsPerShift t * sl_Shifts s"
    using base st0 assms(6) by (simp add: add64_def wrap64_nonneg t_def)
  then have cap: "(if sl_Stocked s then min (add64 (cty_BaseUnits t * sl_PresenceBPS s div CoWhole) (cty_UnitsPerShift t * sl_Shifts s)) (sl_Stock s)
      else add64 (cty_BaseUnits t * sl_PresenceBPS s div CoWhole) (cty_UnitsPerShift t * sl_Shifts s)) = capacity_of s"
    by (simp add: capacity_of_def Let_def t_def)
  have worth: "company_mulDiv (sale_units D T s) (Minor (cty_UnitPrice t)) 1 = Inr (sale_units D T s * Minor (cty_UnitPrice t))"
    using nn(1) r assms(7) by (simp add: company_mulDiv_eq t_def)
  have ask: "company_mulDiv (sale_units D T s * Minor (cty_UnitPrice t)) (sl_PriceBPS s) CoWhole = Inr (ask_units D T s)"
  proof -
    have "0 \<le> sale_units D T s * Minor (cty_UnitPrice t)" using nn(1) r by simp
    moreover have "ask_units D T s \<le> MaxInt64" using assms(8,9) by linarith
    ultimately show ?thesis using r by (simp add: company_mulDiv_eq ask_units_def t_def)
  qed
  have add: "add64 asked (ask_units D T s) = asked + ask_units D T s" "\<not> asked + ask_units D T s < 0"
    using nn assms(8,9) by (simp_all add: add64_def wrap64_nonneg)
  show ?thesis
    unfolding serve.simps Let_def assms(2) [symmetric] t_def [symmetric] want base(1) st co_bind_Inr_simp cap sale_units_def [symmetric] worth ask add(1)
    using add(2) by (simp add: served_def)
qed

text \<open>What the revenues are at every moment: the ask of a seller that was served, nothing for one that was not.\<close>

definition asks_so_far :: "company_market \<Rightarrow> seller list \<Rightarrow> int list \<Rightarrow> bool" where
  "asks_so_far m sellers revenue \<longleftrightarrow> length revenue = length sellers \<and>
     (\<forall>j<length sellers. 0 \<le> revenue ! j \<and> revenue ! j \<le> asks m sellers (sellers ! j))"

lemma asks_so_far_sum:
  assumes "asks_so_far m sellers revenue" "figures_fit m sellers"
  shows "0 \<le> sum_list revenue" "sum_list revenue \<le> MaxInt64"
proof -
  show "0 \<le> sum_list revenue" using assms(1) by (intro sum_list_nonneg) (auto simp: asks_so_far_def in_set_conv_nth)
  have "sum_list revenue = (\<Sum>j\<leftarrow>[0..<length sellers]. revenue ! j)"
    using assms(1) by (metis asks_so_far_def map_nth)
  also have "\<dots> \<le> (\<Sum>j\<leftarrow>[0..<length sellers]. asks m sellers (sellers ! j))"
    using assms(1) by (intro sum_list_mono) (auto simp: asks_so_far_def)
  also have "\<dots> = (\<Sum>s\<leftarrow>sellers. asks m sellers s)"
    by (rule arg_cong [where f = sum_list]) (auto intro: nth_equalityI)
  also have "\<dots> \<le> MaxInt64" using assms(2) by (simp add: figures_fit_def)
  finally show "sum_list revenue \<le> MaxInt64" .
qed

lemma serve_total:
  assumes "\<forall>i\<in>set idx. i < length sellers \<and> seller_cat (sellers ! i) = c \<and> revenue ! i = 0" "distinct idx"
    and "sellers_ok m sellers" "figures_fit m sellers" "asks_so_far m sellers revenue"
  defines "D \<equiv> cat_demand m c" and "T \<equiv> cat_total sellers c"
  shows "\<exists>out. serve sellers D T (zip idx (map (\<lambda>i. seller_weight (sellers ! i)) idx)) sold (sum_list revenue) revenue sales = Inr out"
  using assms(1,2,5)
proof (induction idx arbitrary: sold revenue sales)
  case Nil
  then show ?case by simp
next
  case (Cons i idx)
  define s where "s = sellers ! i"
  have i: "i < length sellers" "seller_cat s = c" "revenue ! i = 0" "i \<notin> set idx" using Cons.prems by (simp_all add: s_def)
  have s: "s \<in> set sellers" "seller_ok s" using i(1) assms(3) by (simp_all add: s_def sellers_ok_def)
  have ask: "asks m sellers s = ask_units D T s" "sells m sellers s = sale_units D T s" using i(2) by (simp_all add: asks_def sells_def D_def T_def)
  define rev1 where "rev1 = revenue[i := ask_units D T s]"
  have D: "0 \<le> D" "D \<le> 10000000000000000" using cat_demand_range [OF assms(3), of c] by (simp_all add: D_def)
  have far: "asks_so_far m sellers rev1"
    unfolding asks_so_far_def
  proof (intro conjI allI impI)
    show "length rev1 = length sellers" using Cons.prems(3) by (simp add: rev1_def asks_so_far_def)
    fix j assume "j < length sellers"
    then have "0 \<le> rev1 ! j \<and> rev1 ! j \<le> asks m sellers (sellers ! j)"
      using Cons.prems(3) sale_units_nonneg(2) [OF s(2) D(1), of T] ask(1) s_def
      by (cases "j = i") (simp_all add: rev1_def asks_so_far_def)
    then show "0 \<le> rev1 ! j" "rev1 ! j \<le> asks m sellers (sellers ! j)" by simp_all
  qed
  have sum1: "sum_list revenue + ask_units D T s = sum_list rev1"
    using i Cons.prems(3) by (simp add: rev1_def sum_list_update_int asks_so_far_def)
  have fit: "cty_UnitsPerShift (sl_Type s) * sl_Shifts s + cty_BaseUnits (sl_Type s) \<le> MaxInt64"
    "sale_units D T s * Minor (cty_UnitPrice (sl_Type s)) \<le> MaxInt64"
    using assms(4) s(1) ask(2) by (auto simp: figures_fit_def)
  have wT: "seller_weight s \<le> T"
  proof -
    have ok: "\<forall>j\<in>set (byCategory sellers c). seller_ok (sellers ! j)" using assms(3) by (simp add: byCategory_iff sellers_ok_def)
    have "i \<in> set (byCategory sellers c)" using i by (simp add: byCategory_iff s_def)
    then show ?thesis unfolding T_def cat_total_def s_def using ok seller_weight_range(2)
      by (intro member_le_sum_list) auto
  qed
  have asked: "0 \<le> sum_list revenue" "sum_list revenue + ask_units D T s \<le> MaxInt64"
    using asks_so_far_sum [OF Cons.prems(3) assms(4)] asks_so_far_sum [OF far assms(4)] by (simp_all add: sum1)
  have z: "\<forall>k\<in>set idx. k < length sellers \<and> seller_cat (sellers ! k) = c \<and> rev1 ! k = 0"
  proof
    fix k assume k: "k \<in> set idx"
    with i(4) have "k \<noteq> i" by metis
    with k Cons.prems(1) show "k < length sellers \<and> seller_cat (sellers ! k) = c \<and> rev1 ! k = 0" by (simp add: rev1_def)
  qed
  have d: "distinct idx" using Cons.prems(2) by simp
  show ?case
    using Cons.IH [OF z d far] serve_forward [OF s(2) s_def D wT fit asked]
    by (simp add: s_def [symmetric] rev1_def [symmetric] sum1)
qed

lemma settle_categories_total:
  assumes "sellers_ok m sellers" "figures_fit m sellers" "distinct cs" "asks_so_far m sellers revenue" "length sales = length sellers"
    and "\<forall>j<length sellers. seller_cat (sellers ! j) \<in> set cs \<longrightarrow> revenue ! j = 0"
  shows "\<exists>out. settle_categories m sellers cs (sum_list revenue) revenue sales unmet = Inr out"
  using assms(3-6)
proof (induction cs arbitrary: revenue sales unmet)
  case Nil
  then show ?case by simp
next
  case (Cons c cs)
  define idx where "idx = byCategory sellers c"
  define D where "D = cat_demand m c"
  define T where "T = cat_total sellers c"
  have i: "\<forall>i\<in>set idx. i < length sellers \<and> seller_ok (sellers ! i)" using assms(1) by (simp add: idx_def byCategory_iff sellers_ok_def)
  have Dr: "0 \<le> D" "D \<le> 10000000000000000" using cat_demand_range [OF assms(1), of c] by (simp_all add: D_def)
  have dem: "perThousand m (demand_of m c) = Inr D"
    using perThousand_total [of m "demand_of m c"] assms(1) demand_of_range [of m c] Dr(2) by (simp add: D_def cat_demand_def sellers_ok_def)
  have Tr: "0 + (\<Sum>i\<leftarrow>idx. seller_weight (sellers ! i)) \<le> MaxInt64"
    using cat_total_range(2) [OF assms(1), of c] by (simp add: cat_total_def idx_def)
  obtain sales1 where w: "weigh sellers idx [] 0 sales = Inr (map (\<lambda>i. seller_weight (sellers ! i)) idx, T, sales1)"
    and l1: "length sales1 = length sellers"
    using weigh_run [OF i Cons.prems(3) order_refl Tr, of "[]"] by (auto simp: T_def cat_total_def idx_def)
  have z: "\<forall>i\<in>set idx. i < length sellers \<and> seller_cat (sellers ! i) = c \<and> revenue ! i = 0"
    using Cons.prems(4) by (simp add: idx_def byCategory_iff)
  have dist: "distinct idx" by (simp add: idx_def)
  obtain sold asked1 revenue1 sales2 where s: "serve sellers D T (zip idx (map (\<lambda>i. seller_weight (sellers ! i)) idx)) 0 (sum_list revenue) revenue sales1 =
      Inr (sold, asked1, revenue1, sales2)"
    using serve_total [OF z dist assms(1,2) Cons.prems(2), folded D_def T_def, of 0 sales1] by auto
  have z': "\<forall>i\<in>set idx. i < length sellers \<and> seller_ok (sellers ! i) \<and> revenue ! i = 0" using z i by simp
  have len: "length revenue = length sellers" using Cons.prems(2) by (simp add: asks_so_far_def)
  note sums = asks_so_far_sum [OF Cons.prems(2) assms(2)]
  have wants: "(\<Sum>i\<leftarrow>idx. want_units D T (sellers ! i)) \<le> D * 3"
    using cat_wanted(2) [OF assms(1), of c] by (simp add: D_def T_def idx_def)
  have bound: "0 + (\<Sum>i\<leftarrow>idx. want_units D T (sellers ! i)) \<le> MaxInt64" using wants Dr by linarith
  note S = serve_run [OF s z' dist len l1 sums refl Dr(1) order_refl bound]
  have mem: "j \<in> set idx \<longleftrightarrow> seller_cat (sellers ! j) = c" if "j < length sellers" for j using that by (simp add: idx_def byCategory_iff)
  have far: "asks_so_far m sellers revenue1"
    using S Cons.prems(2) mem by (auto simp: asks_so_far_def asks_def D_def T_def)
  have z1: "\<forall>j<length sellers. seller_cat (sellers ! j) \<in> set cs \<longrightarrow> revenue1 ! j = 0"
  proof (intro allI impI)
    fix j assume j: "j < length sellers" "seller_cat (sellers ! j) \<in> set cs"
    then have "j \<notin> set idx" using Cons.prems(1) mem [OF j(1)] by auto
    then show "revenue1 ! j = 0" using S j Cons.prems(4) by simp
  qed
  have a1: "asked1 = sum_list revenue1" "length sales2 = length sellers" using S by simp_all
  show ?case
    using Cons.IH [OF _ far a1(2) z1] Cons.prems(1)
    by (simp add: dem co_bind_Inr_simp Let_def idx_def [symmetric] w s a1(1))
qed

section \<open>The properties\<close>

text \<open>A valid market and valid sellers whose figures fit are settled: the settlement is not a refusal.\<close>

lemma Settle_total:
  assumes "Market_Validate m = None" "check_sellers sellers = None" "distinct (map fst (mk_Demand m))" "length sellers \<le> 100000000000000"
    and "figures_fit m sellers"
  shows "\<exists>out. company_Settle m sellers = Inr out"
proof -
  have ok: "sellers_ok m sellers" using assms(1,2,4) check_sellers_ok by (auto simp: sellers_ok_def)
  have b: "perThousand m (mk_BudgetPerThousand m) = Inr (market_demand m (mk_BudgetPerThousand m))"
    using assms(1,5) by (intro perThousand_total) (auto simp: Market_Validate_def figures_fit_def split: if_splits)
  have bud: "(if \<not> Amount_IsZero (mk_Cap m) \<and> Minor (mk_Cap m) < market_demand m (mk_BudgetPerThousand m) then Minor (mk_Cap m)
      else market_demand m (mk_BudgetPerThousand m)) = market_budget m" by (simp add: market_budget_def Let_def Amount_IsZero_def)
  have b0: "0 \<le> market_budget m"
    using market_demand_range(1) [OF assms(1), of "mk_BudgetPerThousand m" MaxFee] assms(1)
    by (auto simp: market_budget_def Let_def Market_Validate_def Amount_IsNegative_def split: if_splits)
  have far: "asks_so_far m sellers (replicate (length sellers) 0)"
    using ok cat_demand_range(1) [OF ok] sale_units_nonneg(2) by (auto simp: asks_so_far_def asks_def sellers_ok_def)
  note dist = market_categories_distinct [OF assms(3), of sellers]
  obtain asked revenue sales unmet where s: "settle_categories m sellers (market_categories m sellers) 0 (replicate (length sellers) 0) (replicate (length sellers) no_sale) [] =
      Inr (asked, revenue, sales, unmet)"
    using settle_categories_total [OF ok assms(5) dist far, of "replicate (length sellers) no_sale" "[]"]
    by (auto simp: sum_list_replicate)
  have inv0: "books_inv sellers 0 (replicate (length sellers) 0) (replicate (length sellers) no_sale)"
    by (simp add: books_inv_def sum_list_replicate)
  note S = settle_categories_run [OF s ok dist inv0]
  have each: "0 \<le> revenue ! j" if "j < length sellers" for j
    using S that market_categories_all [of "sellers ! j" sellers m] by auto
  have S': "asked = sum_list revenue" "asked \<le> MaxInt64" "length revenue = length sales" "length revenue = length sellers"
    using S by (auto simp: books_inv_def)
  have r: "\<forall>r\<in>set revenue. 0 \<le> r" using each S'(4) by (metis in_set_conv_nth)
  then have "\<forall>r\<in>set revenue. 0 \<le> r \<and> r \<le> asked" using member_le_sum_list [of _ revenue] by (auto simp: S'(1))
  then have "pay_sellers (market_budget m) asked revenue 0 0 sales =
    Inr (0 + (\<Sum>r\<leftarrow>revenue. paid_of (market_budget m) asked r),
         take 0 sales @ map2 (\<lambda>x r. x\<lparr>sa_Revenue := FromMinor (paid_of (market_budget m) asked r)\<rparr>) (drop 0 sales) revenue)"
    using b0 S' by (intro pay_sellers_run) simp_all
  then show ?thesis
    unfolding company_Settle_def assms(1,2) option.case b co_bind_Inr_simp Let_def bud s by (simp add: co_bind_Inr_simp)
qed


text \<open>
  C22. The faucet is bounded. What a population pays in a period is never more than its budget, which the
  operator's cap bounds, nor than the companies asked, and is all they asked when the budget allows; nobody
  sells what it cannot serve or does not hold; and what is sold in a category never exceeds three times its
  demand, nor the demand itself when nobody there sells below the reference price.
\<close>

theorem Settle_bounded:
  assumes "company_Settle m sellers = Inr out" "distinct (map fst (mk_Demand m))" "length sellers \<le> 100000000000000"
  shows "0 \<le> Minor (mst_Paid out) \<and> Minor (mst_Paid out) \<le> Minor (mst_Budget out) \<and> Minor (mst_Paid out) \<le> Minor (mst_Asked out) \<and>
    (Minor (mst_Asked out) \<le> Minor (mst_Budget out) \<longrightarrow> mst_Paid out = mst_Asked out) \<and>
    (Minor (mk_Cap m) \<noteq> 0 \<longrightarrow> Minor (mst_Budget out) \<le> Minor (mk_Cap m)) \<and>
    (\<forall>i<length sellers. let x = mst_Sales out ! i; s = sellers ! i in
       0 \<le> sa_Sold x \<and> sa_Sold x \<le> sa_Wanted x \<and> sa_Sold x \<le> sa_Capacity x \<and> (sl_Stocked s \<longrightarrow> sa_Sold x \<le> sl_Stock s)) \<and>
    (\<forall>c. (\<Sum>i\<leftarrow>byCategory sellers c. sa_Sold (mst_Sales out ! i)) \<le> 3 * cat_demand m c \<and>
       ((\<forall>s\<in>set sellers. CoWhole \<le> sl_PriceBPS s) \<longrightarrow> (\<Sum>i\<leftarrow>byCategory sellers c. sa_Sold (mst_Sales out ! i)) \<le> cat_demand m c))"
proof -
  note R = Settle_run [OF assms]
  let ?rs = "map (asks m sellers) sellers"
  have rs: "\<forall>r\<in>set ?rs. 0 \<le> r" using R(4) by simp
  have sold: "sa_Sold (mst_Sales out ! i) = sells m sellers (sellers ! i)" "sa_Wanted (mst_Sales out ! i) =
      want_units (cat_demand m (seller_cat (sellers ! i))) (cat_total sellers (seller_cat (sellers ! i))) (sellers ! i)"
    "sa_Capacity (mst_Sales out ! i) = capacity_of (sellers ! i)" if "i < length sellers" for i
    using that by (simp_all add: R(5) sold_sale_def served_def sells_def)
  have cat: "(\<Sum>i\<leftarrow>byCategory sellers c. sa_Sold (mst_Sales out ! i)) \<le>
      (\<Sum>i\<leftarrow>byCategory sellers c. want_units (cat_demand m c) (cat_total sellers c) (sellers ! i))" for c
    by (rule sum_list_mono) (auto simp: byCategory_iff sold sells_def sale_units_def)
  have dear: "(\<Sum>i\<leftarrow>byCategory sellers c. want_units (cat_demand m c) (cat_total sellers c) (sellers ! i)) \<le> cat_demand m c"
    if "\<forall>s\<in>set sellers. CoWhole \<le> sl_PriceBPS s" for c
    using sum_wanted [of "byCategory sellers c" "(!) sellers" 1 "cat_demand m c"] R(1) cat_demand_range(1) [OF R(1), of c] that seller_volume_dear
    by (simp add: cat_total_def byCategory_iff sellers_ok_def)
  have paid: "0 \<le> Minor (mst_Paid out)" "Minor (mst_Paid out) \<le> Minor (mst_Budget out)" "Minor (mst_Paid out) \<le> Minor (mst_Asked out)"
    using sum_paid [of ?rs "market_budget m" "sum_list ?rs"] rs R(2,3) by (simp_all add: R(5) comp_def)
  have full: "mst_Paid out = mst_Asked out" if "Minor (mst_Asked out) \<le> Minor (mst_Budget out)"
    using that by (simp add: R(5) paid_of_def cong: map_cong)
  have cap: "Minor (mst_Budget out) \<le> Minor (mk_Cap m)" if "Minor (mk_Cap m) \<noteq> 0"
    using that by (simp add: R(5) market_budget_def Let_def)
  have each: "0 \<le> sa_Sold (mst_Sales out ! i) \<and> sa_Sold (mst_Sales out ! i) \<le> sa_Wanted (mst_Sales out ! i) \<and>
      sa_Sold (mst_Sales out ! i) \<le> sa_Capacity (mst_Sales out ! i) \<and> (sl_Stocked (sellers ! i) \<longrightarrow> sa_Sold (mst_Sales out ! i) \<le> sl_Stock (sellers ! i))"
    if "i < length sellers" for i
    using R(4) that by (auto simp: sold [OF that] sells_def sale_units_def capacity_of_def Let_def min_def)
  have "(\<Sum>i\<leftarrow>byCategory sellers c. sa_Sold (mst_Sales out ! i)) \<le> 3 * cat_demand m c" for c
    using cat [of c] cat_wanted(2) [OF R(1), of c] by linarith
  moreover have "(\<Sum>i\<leftarrow>byCategory sellers c. sa_Sold (mst_Sales out ! i)) \<le> cat_demand m c" if "\<forall>s\<in>set sellers. CoWhole \<le> sl_PriceBPS s" for c
    using cat [of c] dear [OF that, of c] by linarith
  ultimately show ?thesis using paid full cap each unfolding Let_def by blast
qed

definition demo_grocery :: company_type where
  "demo_grocery = \<lparr>cty_Code = ''grocery'', cty_Category = ''food'', cty_Careers = [''clerk''], cty_Place = ''bazaar'', cty_FoundingFee = FromMinor 500,
     cty_Upkeep = FromMinor 40, cty_MaxStaff = 5, cty_UnitPrice = FromMinor 100, cty_BaseUnits = 20, cty_UnitsPerShift = 10, cty_StaffTarget = 10,
     cty_MinQualityBPS = 2000, cty_PriceMinBPS = 5000, cty_PriceMaxBPS = 20000, cty_ElasticityBPS = 12000\<rparr>"

definition demo_market :: company_market where
  "demo_market = \<lparr>mk_Population = 20000, mk_WealthBPS = 10000, mk_BudgetPerThousand = 1000, mk_Cap = FromMinor 9000, mk_Demand = [(''food'', 10)]\<rparr>"

definition demo_sellers :: "seller list" where
  "demo_sellers =
     [\<lparr>sl_ID = ''one'', sl_Type = demo_grocery, sl_PriceBPS = 10000, sl_Shifts = 5, sl_PresenceBPS = 10000, sl_Stocked = False, sl_Stock = 0\<rparr>,
      \<lparr>sl_ID = ''two'', sl_Type = demo_grocery, sl_PriceBPS = 9000, sl_Shifts = 10, sl_PresenceBPS = 5000, sl_Stocked = True, sl_Stock = 40\<rparr>]"

definition demo_settled :: settlement where
  "demo_settled = \<lparr>mst_Sales =
     [\<lparr>sa_ID = ''one'', sa_QualityBPS = 6000, sa_Wanted = 69, sa_Capacity = 70, sa_Sold = 69, sa_Revenue = FromMinor 5914\<rparr>,
      \<lparr>sa_ID = ''two'', sa_QualityBPS = 10000, sa_Wanted = 145, sa_Capacity = 40, sa_Sold = 40, sa_Revenue = FromMinor 3085\<rparr>],
     mst_Budget = FromMinor 9000, mst_Asked = FromMinor 10500, mst_Paid = FromMinor 8999, mst_Unmet = [(''food'', 91)]\<rparr>"

lemma demo_market_ok: "distinct (map fst (mk_Demand demo_market))" "length demo_sellers \<le> 100000000000000"
  "Market_Validate demo_market = None" "check_sellers demo_sellers = None"
proof -
  show "distinct (map fst (mk_Demand demo_market))" "length demo_sellers \<le> 100000000000000"
    by (simp_all add: demo_market_def demo_sellers_def)
  show "Market_Validate demo_market = None" "check_sellers demo_sellers = None" by code_simp+
qed

lemma demo_figures_fit: "figures_fit demo_market demo_sellers"
  unfolding figures_fit_def by code_simp

lemma demo_settled_run: "company_Settle demo_market demo_sellers = Inr demo_settled"
proof -
  obtain out where out: "company_Settle demo_market demo_sellers = Inr out"
    using Settle_total [OF demo_market_ok(3,4,1,2) demo_figures_fit] by blast
  have b: "market_budget demo_market = 9000" by code_simp
  have a: "(\<Sum>s\<leftarrow>demo_sellers. asks demo_market demo_sellers s) = 10500" by code_simp
  have "(\<Sum>s\<leftarrow>demo_sellers. paid_of 9000 10500 (asks demo_market demo_sellers s)) = 8999" by code_simp
  moreover have "map (\<lambda>s. (sold_sale demo_market demo_sellers s)\<lparr>sa_Revenue := FromMinor (paid_of 9000 10500 (asks demo_market demo_sellers s))\<rparr>) demo_sellers =
      mst_Sales demo_settled" by code_simp
  moreover have "concat (map (unmet_of demo_market demo_sellers) (market_categories demo_market demo_sellers)) = mst_Unmet demo_settled" by code_simp
  ultimately have "out = demo_settled" unfolding Settle_run(5) [OF out demo_market_ok(1,2)] a b by (simp add: demo_settled_def)
  with out show ?thesis by simp
qed


theorem Settle_bounded_witness:
  "company_Settle demo_market demo_sellers = Inr demo_settled \<and> Minor (mst_Paid demo_settled) \<le> Minor (mk_Cap demo_market) \<and>
   (\<Sum>i\<leftarrow>byCategory demo_sellers ''food''. sa_Sold (mst_Sales demo_settled ! i)) \<le> 3 * cat_demand demo_market ''food''"
proof -
  note B = Settle_bounded [OF demo_settled_run demo_market_ok(1,2)]
  have "Minor (mst_Paid demo_settled) \<le> Minor (mst_Budget demo_settled)" "Minor (mst_Budget demo_settled) \<le> Minor (mk_Cap demo_market)"
    "(\<Sum>i\<leftarrow>byCategory demo_sellers ''food''. sa_Sold (mst_Sales demo_settled ! i)) \<le> 3 * cat_demand demo_market ''food''"
    using B by (simp_all add: demo_market_def)
  with demo_settled_run show ?thesis by linarith
qed

end
