(* ===== verification/Spec2Isabelle.thy ===== *)
theory Spec2Isabelle
  imports Market_Settle Bank Currency Fx Reserve Auction Trade Election Tender Payment Legislature Gametime Lease_System Budget Idempotency Wallet Outbox Bank_System Loan Charter_Correct Company_Market
begin

text \<open>
  \<^bold>\<open>A verification library of torncity.\<close>

  torncity is a multiplayer game whose state is money, goods and offices. Players' commands come in
  through gateways (\<^verbatim>\<open>internal/gateway\<close>, one poller per Telegram bot), are handled by application services
  (\<^verbatim>\<open>internal/application\<close>) inside one database transaction each (\<^verbatim>\<open>internal/infrastructure/postgres\<close>), and
  the rules they apply are pure packages (\<^verbatim>\<open>internal/domain\<close>, \<^verbatim>\<open>internal/shared\<close>). The library models the
  rules that move money, goods, votes and time, the ledger they all post to, and the lease that decides
  which gateway polls a bot.

  \<^bold>\<open>How the code is read.\<close> A Go method \<open>(T).M\<close> is \<open>T_M\<close> or a name of its own where \<open>M\<close> is unique; a
  struct is a record, a closed set of strings a datatype with a constructor for any other text, \<open>(T, error)\<close>
  a sum with the error on the left. \<open>int64\<close> is \<open>int\<close> with every operation of the code written as the
  wrapping \<open>add64\<close>, \<open>sub64\<close>, \<open>mul64\<close>, truncating \<open>quo64\<close> and \<open>rem64\<close> (\<open>Go_Base\<close>); the 128-bit products of
  \<^verbatim>\<open>math/bits\<close> are exact pairs. A \<open>time.Time\<close> is its nanoseconds since year 1, a \<open>Duration\<close> its nanoseconds.
  \<open>sort.Slice\<close> is a stable insertion by the code's comparison, shown to be a strict weak order.

  \<^bold>\<open>The theories.\<close>
  \<^item> \<open>Go_Base\<close>: the language: integers, text, time, sorting, and the interfaces \<open>floor_mul_div\<close>,
    \<open>ceil_fee\<close>, \<open>strict_weak_order\<close> that several packages implement. \<open>Money\<close>: \<^verbatim>\<open>shared/money\<close>.
  \<^item> \<open>Ledger_Reasons\<close>, \<open>Ledger\<close>: the double-entry ledger (\<^verbatim>\<open>application/ports_ledger.go\<close>,
    \<^verbatim>\<open>postgres/ledger.go\<close>): rows, the SQL statements and the repository over them. \<open>Ledger_Spec\<close>: a journal
    without balances that \<open>Post\<close> refines, and the conservation of money over every sequence of
    operations. \<open>Wallet\<close>: \<^verbatim>\<open>application/payment.go\<close>, a charge as one posted transaction.
  \<^item> \<open>Market_Order\<close>, \<open>Market_Verify\<close>, \<open>Market_Match\<close>, \<open>Market_Walk\<close>, \<open>Market_Correct\<close>, \<open>Market_Result\<close>,
    \<open>Market_Settle\<close>: \<^verbatim>\<open>domain/market\<close>: the order book, the matching loop against a declarative
    description of what it trades, the checker of results, escrow and settlement.
  \<^item> \<open>Bank\<close>, \<open>Currency\<close>, \<open>Fx\<close>, \<open>Reserve\<close>, \<open>Auction\<close>, \<open>Trade\<close>, \<open>Payment\<close>, \<open>Budget\<close>: the packages of those
    names under \<^verbatim>\<open>domain\<close>: fees, the arithmetic of settlement currencies and their order books, reserve
    payouts, bidding, market days, accepted methods, a city's spending.
  \<^item> \<open>Election\<close>, \<open>Legislature\<close>, \<open>Tender\<close>: counts, early decisions, awards and stage payments.
  \<^item> \<open>Gametime\<close>: the game clock and its cut-over. \<open>Idempotency\<close>: \<^verbatim>\<open>shared/idempotency\<close>, the key of a command.
  \<^item> \<open>Lease\<close>, \<open>Lease_System\<close>: \<^verbatim>\<open>gateway/lease\<close> and \<^verbatim>\<open>infrastructure/redis\<close>: the lease over Redis, whose
    commands are the parameter of the locale \<open>redis_kv\<close>, and a fleet of keepers as a step relation.
  \<^item> \<open>Unit_Of_Work\<close>: \<^verbatim>\<open>postgres/uow.go\<close>: a command's transaction body as a function of the rows, committed whole
    or undone whole. \<open>Outbox\<close>: \<^verbatim>\<open>postgres/outbox.go\<close>, \<^verbatim>\<open>postgres/inbox.go\<close> and the worker that drains the
    outbox (\<^verbatim>\<open>cmd/worker\<close>), with any number of workers interleaved.
  \<^item> \<open>Watch\<close>: \<^verbatim>\<open>domain/watch\<close> and \<^verbatim>\<open>postgres/watch.go\<close>: the rules that flag a flow of payments, the flags and
    the held payments. \<open>Bank_Service\<close>: the bank's commands (\<^verbatim>\<open>application/handlers/bank.go\<close>), each one unit of
    work over ledger, players, keys, flags, holds and outbox. \<open>Bank_Correct\<close>: every movement is exact.
    \<open>Bank_System\<close>: commands and settlements in any sequence: done once, and the escrow backs what is held.
  \<^item> \<open>Finance\<close>: \<^verbatim>\<open>domain/finance\<close>: the credit score and its bands, insurance, the gold price, listed companies.
    \<open>Loan\<close>: its loans, and the life of a loan row in \<^verbatim>\<open>handlers/finance_collect.go\<close> and \<^verbatim>\<open>handlers/finance_loanview.go\<close>.
  \<^item> \<open>Charter\<close>: \<^verbatim>\<open>domain/charter\<close>: permissions, the order of powers, the rails, the numbers of ballots. \<open>Charter_Rows\<close>:
    \<^verbatim>\<open>postgres/charter.go\<close>, the rows of one charter and the statements over them. \<open>Charter_Service\<close>:
    \<^verbatim>\<open>handlers/village_charter.go\<close> and \<^verbatim>\<open>handlers/village_charter2.go\<close>, every act on it. \<open>Charter_System\<close>: the rails as an invariant of the
    rows; \<open>Charter_Correct\<close>: any sequence of acts keeps them, no act makes a power appear, a manager remains.
  \<^item> \<open>Company\<close>: \<^verbatim>\<open>domain/company\<close>: kinds of business, roles, money out of a company and upkeep, citizens hired for
    open positions. \<open>Company_Market\<close>: its \<^verbatim>\<open>market.go\<close>, one period of a population's spending among the companies
    of a city, as the documented formulas and within the budget.

  \<^bold>\<open>Fuel and bounds.\<close> Loops over data recurse on it. The bisection of \<open>MaxAffordable\<close> and the price walks of
  \<open>Currency\<close> are \<open>partial_function\<close>s whose properties prove that they return. \<open>Needs\<close> counts the members up,
  one step each. Where the code multiplies without a check, the property states the range in which the
  product fits, and a lemma shows what happens outside it when something does.

  \<^bold>\<open>Not modelled.\<close> Rendering and text (\<^verbatim>\<open>presentation\<close>, \<^verbatim>\<open>telegram\<close>, \<^verbatim>\<open>panel\<close>), configuration and content loading
  (\<^verbatim>\<open>config\<close>, \<^verbatim>\<open>content\<close>), transport (\<^verbatim>\<open>messaging\<close>, \<^verbatim>\<open>infrastructure/nats\<close>), the other repositories, the
  command handlers not named above, world generation and whatever computes with floats
  (\<^verbatim>\<open>OffsetFromLongitude\<close>, rate limits, noise). They hold little of the money or voting logic, or have no
  exact meaning the kernel could check.
\<close>

end
